(* ===== verification/Prelude.thy ===== *)
theory Prelude
  imports Main "HOL-Library.Word" "HOL-Library.Char_ord" "HOL-Library.List_Lexorder"
begin

text \<open>
  Shared vocabulary of the development: the machine-integer and byte-string types, the
  big-endian encodings of Go's \<open>encoding/binary\<close>, the byte order in which the storage
  engine keeps its keys, and the generic lemmas the component theories use.  The
  collections \<open>codec\<close> and \<open>node_simps\<close> gather the facts that the component proofs
  pass to the simplifier.
\<close>

named_theorems codec \<open>round trips and lengths of encoders\<close>
named_theorems node_simps \<open>field effects of the handlers of a node\<close>

type_synonym u8 = "8 word"
type_synonym u16 = "16 word"
type_synonym u32 = "32 word"
type_synonym u64 = "64 word"
type_synonym i64 = int
type_synonym f32 = u32
type_synonym bytes = "u8 list"
type_synonym node_id = string

section \<open>Big-endian integers\<close>

text \<open>
  \<open>binary.BigEndian.PutUint16/32/64\<close> write the bytes of an unsigned integer from the most
  significant one; \<open>Uint16/32/64\<close> read them back.  \<open>be_nat n x\<close> is the list of the last
  \<open>n\<close> base-256 digits of \<open>x\<close>, \<open>be_val\<close> the number that a digit list denotes.
\<close>

fun be_nat :: "nat \<Rightarrow> nat \<Rightarrow> bytes" where
  "be_nat 0 x = []"
| "be_nat (Suc n) x = be_nat n (x div 256) @ [word_of_nat x]"

definition be_val :: "bytes \<Rightarrow> nat" where
  "be_val bs = foldl (\<lambda>a b. a * 256 + unat b) 0 bs"

definition PutUint16 :: "u16 \<Rightarrow> bytes" where
  "PutUint16 v = be_nat 2 (unat v)"

definition PutUint32 :: "u32 \<Rightarrow> bytes" where
  "PutUint32 v = be_nat 4 (unat v)"

definition PutUint64 :: "u64 \<Rightarrow> bytes" where
  "PutUint64 v = be_nat 8 (unat v)"

definition Uint16 :: "bytes \<Rightarrow> u16" where
  "Uint16 bs = word_of_nat (be_val (take 2 bs))"

definition Uint32 :: "bytes \<Rightarrow> u32" where
  "Uint32 bs = word_of_nat (be_val (take 4 bs))"

definition Uint64 :: "bytes \<Rightarrow> u64" where
  "Uint64 bs = word_of_nat (be_val (take 8 bs))"

lemma length_be_nat [simp, codec]: "length (be_nat n x) = n"
  by (induction n arbitrary: x) auto

lemma be_val_Nil [simp]: "be_val [] = 0"
  by (simp add: be_val_def)

lemma be_val_snoc [simp]: "be_val (bs @ [b]) = be_val bs * 256 + unat b"
  by (simp add: be_val_def)

lemma be_val_be_nat: "be_val (be_nat n x) = x mod 256 ^ n"
proof (induction n arbitrary: x)
  case 0
  then show ?case by simp
next
  case (Suc n)
  have "be_val (be_nat (Suc n) x) = (x div 256 mod 256 ^ n) * 256 + x mod 256"
    by (simp add: Suc.IH unat_of_nat)
  also have "\<dots> = x mod (256 * 256 ^ n)"
    by (simp add: mod_mult2_eq mult.commute)
  finally show ?case by simp
qed

lemma PutUint64_length [simp, codec]: "length (PutUint64 v) = 8"
  by (simp add: PutUint64_def)

lemma PutUint32_length [simp, codec]: "length (PutUint32 v) = 4"
  by (simp add: PutUint32_def)

lemma PutUint16_length [simp, codec]: "length (PutUint16 v) = 2"
  by (simp add: PutUint16_def)

lemma unat_8_lt: "unat (v :: u8) < 256"
  using unsigned_less[of v] by simp

lemma unat_64_lt: "unat (v :: u64) < 18446744073709551616"
  using unsigned_less[of v] by simp

lemma unat_32_lt: "unat (v :: u32) < 4294967296"
  using unsigned_less[of v] by simp

lemma unat_16_lt: "unat (v :: u16) < 65536"
  using unsigned_less[of v] by simp

lemma Uint64_Put [simp, codec]: "Uint64 (PutUint64 v @ rest) = v"
  by (simp add: Uint64_def PutUint64_def be_val_be_nat unat_64_lt)

lemma Uint32_Put [simp, codec]: "Uint32 (PutUint32 v @ rest) = v"
  by (simp add: Uint32_def PutUint32_def be_val_be_nat unat_32_lt)

lemma Uint16_Put [simp, codec]: "Uint16 (PutUint16 v @ rest) = v"
  by (simp add: Uint16_def PutUint16_def be_val_be_nat unat_16_lt)

lemma Uint64_Put0 [simp, codec]: "Uint64 (PutUint64 v) = v"
  using Uint64_Put[of v "[]"] by simp

lemma Uint32_Put0 [simp, codec]: "Uint32 (PutUint32 v) = v"
  using Uint32_Put[of v "[]"] by simp

lemma Uint16_Put0 [simp, codec]: "Uint16 (PutUint16 v) = v"
  using Uint16_Put[of v "[]"] by simp

lemma PutUint64_inject [simp]: "PutUint64 a = PutUint64 b \<longleftrightarrow> a = b"
  by (metis Uint64_Put0)

section \<open>Byte order of keys\<close>

text \<open>
  The storage engine orders keys as \<open>bytes.Compare\<close> does: lexicographically, byte by byte,
  a proper prefix before its extensions.  That is the order \<open><\<close> of \<open>List_Lexorder\<close> on
  lists of words; on encodings of one width it is the numeric order.
\<close>

lemma word_of_nat_mult_add: "(word_of_nat (v * 256 + unat b) :: u8) = b"
proof -
  have "unat (word_of_nat (v * 256 + unat b) :: u8) = unat b"
    using unat_8_lt[of b] by (simp only: unat_of_nat) simp
  then show ?thesis by (simp only: word_unat_eq_iff)
qed

lemma be_nat_be_val: "be_nat (length k) (be_val k) = k"
proof (induction k rule: rev_induct)
  case Nil
  then show ?case by simp
next
  case (snoc b k)
  then show ?case
    using unat_8_lt[of b] by (simp del: of_nat_add of_nat_mult add: word_of_nat_mult_add)
qed

lemma foldl_be_val: "foldl (\<lambda>a b. a * 256 + unat (b :: u8)) k bs = k * 256 ^ length bs + be_val bs"
proof (induction bs rule: rev_induct)
  case Nil
  then show ?case by simp
next
  case (snoc b bs)
  then show ?case by (simp add: algebra_simps)
qed

lemma be_val_Cons: "be_val (b # bs) = unat b * 256 ^ length bs + be_val bs"
  using foldl_be_val[of "unat b" bs] by (simp add: be_val_def)

lemma be_val_bound: "be_val bs < 256 ^ length bs"
proof (induction bs rule: rev_induct)
  case Nil
  then show ?case by simp
next
  case (snoc b bs)
  have "unat b < 256" by (rule unat_8_lt)
  with snoc show ?case by simp
qed

lemma Uint16_bytes: "length k = 2 \<Longrightarrow> PutUint16 (Uint16 k) = k"
  using be_nat_be_val[of k] be_val_bound[of k]
  by (simp add: PutUint16_def Uint16_def unat_of_nat)

lemma Uint32_bytes: "length k = 4 \<Longrightarrow> PutUint32 (Uint32 k) = k"
  using be_nat_be_val[of k] be_val_bound[of k]
  by (simp add: PutUint32_def Uint32_def unat_of_nat)

lemma Uint64_bytes: "length k = 8 \<Longrightarrow> PutUint64 (Uint64 k) = k"
  using be_nat_be_val[of k] be_val_bound[of k]
  by (simp add: PutUint64_def Uint64_def unat_of_nat)

lemma bytes_less_be_val:
  "length xs = length ys \<Longrightarrow> xs < ys \<longleftrightarrow> be_val xs < be_val ys"
proof (induction xs ys rule: list_induct2)
  case Nil
  then show ?case by simp
next
  case (Cons x xs y ys)
  let ?B = "256 ^ length ys :: nat"
  have bx: "be_val xs < ?B" and by': "be_val ys < ?B"
    using be_val_bound[of xs] be_val_bound[of ys] Cons.hyps by simp_all
  have gap: "a * ?B + c < b * ?B + d" if "a < b" "c < ?B" for a b c d :: nat
  proof -
    have "Suc a * ?B \<le> b * ?B"
      using that(1) by (intro mult_le_mono1) simp
    with that(2) show ?thesis by simp
  qed
  consider "unat x < unat y" | "x = y" | "unat y < unat x"
    by (metis linorder_less_linear word_unat_eq_iff)
  then show ?case
  proof cases
    case 1
    then show ?thesis
      using Cons.hyps gap[OF 1 bx, of "be_val ys"] by (simp add: be_val_Cons word_less_nat_alt)
  next
    case 2
    with Cons show ?thesis by (simp add: be_val_Cons)
  next
    case 3
    then show ?thesis
      using Cons.hyps gap[OF 3 by', of "be_val xs"] by (auto simp: be_val_Cons word_less_nat_alt)
  qed
qed

lemma PutUint64_less [simp]: "PutUint64 a < PutUint64 b \<longleftrightarrow> a < b"
  by (simp add: bytes_less_be_val PutUint64_def be_val_be_nat unat_64_lt word_less_nat_alt)

lemma PutUint64_le [simp]: "PutUint64 a \<le> PutUint64 b \<longleftrightarrow> a \<le> b"
  by (metis PutUint64_less linorder_not_less)

text \<open>\<open>[]byte(s)\<close> for a Go string, whose bytes are the characters of the model's string.\<close>

definition str_bytes :: "string \<Rightarrow> bytes" where
  "str_bytes s = map (\<lambda>c. word_of_nat (of_char c)) s"

definition bytes_str :: "bytes \<Rightarrow> string" where
  "bytes_str bs = map (\<lambda>b. char_of (unat b)) bs"

lemma bytes_str_str_bytes [simp, codec]: "bytes_str (str_bytes s) = s"
proof -
  have "unat (word_of_nat (of_char c) :: u8) = of_char c" for c
    by (simp add: unat_of_nat)
  then show ?thesis by (simp add: bytes_str_def str_bytes_def comp_def)
qed

section \<open>Signed arithmetic\<close>

text \<open>Go's \<open>int\<close>, \<open>int64\<close> and \<open>time.Duration\<close> are integers here; \<open>wrap64\<close> and \<open>wrap32\<close> are the
  two's complement reductions, written where the code multiplies or narrows.\<close>

definition wrap64 :: "int \<Rightarrow> int" where
  "wrap64 x = sint (word_of_int x :: 64 word)"

definition wrap32 :: "int \<Rightarrow> int" where
  "wrap32 x = sint (word_of_int x :: 32 word)"

lemma wrap64_id: "- (2 ^ 63) \<le> x \<Longrightarrow> x < 2 ^ 63 \<Longrightarrow> wrap64 x = x"
  by (simp add: wrap64_def sint_sbintrunc' signed_take_bit_int_eq_self)

section \<open>Generic lemmas\<close>

lemma u64_Suc_gt: "(e :: u64) \<noteq> - 1 \<Longrightarrow> e < e + 1"
  by (metis inc_less_eq_triv_imp linorder_not_less)

lemma u64_unat_Suc: "(e :: u64) \<noteq> - 1 \<Longrightarrow> unat (e + 1) = Suc (unat e)"
  by (metis add.commute add_eq_0_iff unatSuc)

lemma u64_less_not_max: "(x :: u64) < y \<Longrightarrow> x \<noteq> - 1"
  using word_order.extremum_strict by blast

lemma u64_less_Suc_iff: "(e :: u64) \<noteq> - 1 \<Longrightarrow> x < e + 1 \<longleftrightarrow> x \<le> e"
  by (metis inc_less_eq_iff linorder_not_less)

section \<open>Decimal numbers\<close>

text \<open>A natural number as \<open>%d\<close> prints it.\<close>

fun num_text :: "nat \<Rightarrow> string" where
  "num_text n = (if n < 10 then [char_of (48 + n)] else num_text (n div 10) @ [char_of (48 + n mod 10)])"

declare num_text.simps [simp del]

end
