(* ===== verification/Pebble.thy ===== *)
theory Pebble
  imports Prelude
begin

text \<open>
  The interface of the storage engine \<open>github.com/cockroachdb/pebble\<close>, which is not part of
  the repository and therefore a parameter of every definition that uses it: a record of the
  calls the code makes, over an abstract type \<open>'db\<close> of database handles.  A call that may
  fail returns a sum.  \<open>pebble_spec pb view\<close> states the documented behaviour the code
  relies on, through the contents \<open>view d\<close> of a handle: reads return what was written,
  a batch commits atomically, an iterator yields the range in key order.
  \<open>mem_pebble\<close> is a concrete instance, used by the witnesses only.
\<close>

datatype db_error = DbError nat

datatype get_result = Found bytes | ErrNotFound | GetErr db_error

datatype batch_op = BSet bytes bytes | BDelete bytes | BDeleteRange bytes bytes

record 'db pebble =
  pb_get :: "'db \<Rightarrow> bytes \<Rightarrow> get_result"
  pb_commit :: "'db \<Rightarrow> batch_op list \<Rightarrow> db_error + 'db"
  pb_iter :: "'db \<Rightarrow> bytes \<Rightarrow> bytes option \<Rightarrow> db_error + (bytes \<times> bytes) list"
  pb_sync :: "'db \<Rightarrow> db_error + 'db"
  pb_flush :: "'db \<Rightarrow> db_error + 'db"
  pb_compact :: "'db \<Rightarrow> bytes \<Rightarrow> bytes \<Rightarrow> db_error + 'db"

definition pb_set :: "'db pebble \<Rightarrow> 'db \<Rightarrow> bytes \<Rightarrow> bytes \<Rightarrow> db_error + 'db" where
  "pb_set pb d k v = pb_commit pb d [BSet k v]"

fun apply_op :: "batch_op \<Rightarrow> (bytes \<rightharpoonup> bytes) \<Rightarrow> (bytes \<rightharpoonup> bytes)" where
  "apply_op (BSet k v) m = m(k \<mapsto> v)"
| "apply_op (BDelete k) m = m(k := None)"
| "apply_op (BDeleteRange lo hi) m = (\<lambda>k. if lo \<le> k \<and> k < hi then None else m k)"

definition apply_batch :: "batch_op list \<Rightarrow> (bytes \<rightharpoonup> bytes) \<Rightarrow> (bytes \<rightharpoonup> bytes)" where
  "apply_batch ops m = fold apply_op ops m"

definition get_ok :: "get_result \<Rightarrow> bytes option \<Rightarrow> bool" where
  "get_ok r c = (case r of Found v \<Rightarrow> c = Some v | ErrNotFound \<Rightarrow> c = None | GetErr e \<Rightarrow> True)"

text \<open>An iterator's upper bound is exclusive, and \<open>nil\<close> means unbounded.\<close>

definition below :: "bytes \<Rightarrow> bytes option \<Rightarrow> bool" where
  "below k hi = (case hi of None \<Rightarrow> True | Some h \<Rightarrow> k < h)"

lemma below_simps [simp]: "below k None" "below k (Some h) \<longleftrightarrow> k < h"
  by (simp_all add: below_def)

definition iter_ok :: "(bytes \<rightharpoonup> bytes) \<Rightarrow> bytes \<Rightarrow> bytes option \<Rightarrow> (bytes \<times> bytes) list \<Rightarrow> bool" where
  "iter_ok m lo hi kvs \<longleftrightarrow> sorted_wrt (<) (map fst kvs) \<and>
     (\<forall>k v. (k, v) \<in> set kvs \<longleftrightarrow> lo \<le> k \<and> below k hi \<and> m k = Some v)"

definition pebble_spec :: "'db pebble \<Rightarrow> ('db \<Rightarrow> bytes \<rightharpoonup> bytes) \<Rightarrow> bool" where
  "pebble_spec pb view \<longleftrightarrow>
     (\<forall>d k. get_ok (pb_get pb d k) (view d k)) \<and>
     (\<forall>d ops d'. pb_commit pb d ops = Inr d' \<longrightarrow> view d' = apply_batch ops (view d)) \<and>
     (\<forall>d lo hi kvs. pb_iter pb d lo hi = Inr kvs \<longrightarrow> iter_ok (view d) lo hi kvs) \<and>
     (\<forall>d d'. pb_sync pb d = Inr d' \<longrightarrow> view d' = view d) \<and>
     (\<forall>d d'. pb_flush pb d = Inr d' \<longrightarrow> view d' = view d) \<and>
     (\<forall>d a b d'. pb_compact pb d a b = Inr d' \<longrightarrow> view d' = view d)"

text \<open>A store none of whose calls fails, for the properties that need one.\<close>

definition pebble_reliable :: "'db pebble \<Rightarrow> bool" where
  "pebble_reliable pb \<longleftrightarrow>
     (\<forall>d k e. pb_get pb d k \<noteq> GetErr e) \<and>
     (\<forall>d ops e. pb_commit pb d ops \<noteq> Inl e) \<and>
     (\<forall>d lo hi e. pb_iter pb d lo hi \<noteq> Inl e) \<and>
     (\<forall>d e. pb_sync pb d \<noteq> Inl e)"

lemma apply_batch_simps [simp]:
  "apply_batch [] m = m"
  "apply_batch (op # ops) m = apply_batch ops (apply_op op m)"
  by (simp_all add: apply_batch_def)

lemma spec_commit: "pebble_spec pb view \<Longrightarrow> pb_commit pb d ops = Inr d' \<Longrightarrow>
    view d' = apply_batch ops (view d)"
  by (simp add: pebble_spec_def)

lemma spec_set: "pebble_spec pb view \<Longrightarrow> pb_set pb d k v = Inr d' \<Longrightarrow> view d' = (view d)(k \<mapsto> v)"
  by (simp add: pb_set_def spec_commit fun_eq_iff)

lemma spec_iter: "pebble_spec pb view \<Longrightarrow> pb_iter pb d lo hi = Inr kvs \<Longrightarrow>
    iter_ok (view d) lo hi kvs"
  by (simp add: pebble_spec_def)

lemma spec_sync: "pebble_spec pb view \<Longrightarrow> pb_sync pb d = Inr d' \<Longrightarrow> view d' = view d"
  by (simp add: pebble_spec_def)

lemma spec_flush: "pebble_spec pb view \<Longrightarrow> pb_flush pb d = Inr d' \<Longrightarrow> view d' = view d"
  by (simp add: pebble_spec_def)

lemma spec_compact: "pebble_spec pb view \<Longrightarrow> pb_compact pb d a b = Inr d' \<Longrightarrow> view d' = view d"
  by (simp add: pebble_spec_def)

lemma spec_get: "pebble_spec pb view \<Longrightarrow> get_ok (pb_get pb d k) (view d k)"
  by (simp add: pebble_spec_def)

lemma spec_get_Found: "pebble_spec pb view \<Longrightarrow> pb_get pb d k = Found v \<Longrightarrow> view d k = Some v"
  using spec_get[of pb view d k] by (simp add: get_ok_def)

lemma spec_get_NotFound: "pebble_spec pb view \<Longrightarrow> pb_get pb d k = ErrNotFound \<Longrightarrow> view d k = None"
  using spec_get[of pb view d k] by (simp add: get_ok_def)

lemma spec_get_Some: "pebble_spec pb view \<Longrightarrow> view d k = Some v \<Longrightarrow>
    pb_get pb d k = Found v \<or> (\<exists>e. pb_get pb d k = GetErr e)"
  using spec_get[of pb view d k] by (cases "pb_get pb d k") (auto simp: get_ok_def)

lemma spec_get_None: "pebble_spec pb view \<Longrightarrow> view d k = None \<Longrightarrow>
    pb_get pb d k = ErrNotFound \<or> (\<exists>e. pb_get pb d k = GetErr e)"
  using spec_get[of pb view d k] by (cases "pb_get pb d k") (auto simp: get_ok_def)

lemma reliable_commit: "pebble_reliable pb \<Longrightarrow> \<exists>d'. pb_commit pb d ops = Inr d'"
  by (metis pebble_reliable_def obj_sumE)

lemma reliable_set: "pebble_reliable pb \<Longrightarrow> \<exists>d'. pb_set pb d k v = Inr d'"
  by (simp add: pb_set_def reliable_commit)

lemma iter_ok_distinct: "iter_ok m lo hi kvs \<Longrightarrow> distinct (map fst kvs)"
  by (auto simp: iter_ok_def intro: strict_sorted_iff [THEN iffD1, THEN conjunct2])

section \<open>An in-memory instance\<close>

definition mem_iter :: "(bytes \<times> bytes) list \<Rightarrow> bytes \<Rightarrow> bytes option \<Rightarrow> (bytes \<times> bytes) list" where
  "mem_iter d lo hi =
     map (\<lambda>k. (k, the (map_of d k)))
       (filter (\<lambda>k. lo \<le> k \<and> below k hi) (sort (remdups (map fst d))))"

fun mem_op :: "batch_op \<Rightarrow> (bytes \<times> bytes) list \<Rightarrow> (bytes \<times> bytes) list" where
  "mem_op (BSet k v) d = (k, v) # d"
| "mem_op (BDelete k) d = filter (\<lambda>p. fst p \<noteq> k) d"
| "mem_op (BDeleteRange lo hi) d = filter (\<lambda>p. \<not> (lo \<le> fst p \<and> fst p < hi)) d"

definition mem_pebble :: "(bytes \<times> bytes) list pebble" where
  "mem_pebble = \<lparr>
     pb_get = (\<lambda>d k. case map_of d k of None \<Rightarrow> ErrNotFound | Some v \<Rightarrow> Found v),
     pb_commit = (\<lambda>d ops. Inr (fold mem_op ops d)),
     pb_iter = (\<lambda>d lo hi. Inr (mem_iter d lo hi)),
     pb_sync = (\<lambda>d. Inr d),
     pb_flush = (\<lambda>d. Inr d),
     pb_compact = (\<lambda>d a b. Inr d)\<rparr>"

lemma map_of_filter_fst: "map_of (filter (\<lambda>p. P (fst p)) d) k = (if P k then map_of d k else None)"
  by (induction d) auto

lemma mem_op_view: "map_of (mem_op op d) = apply_op op (map_of d)"
proof (cases op)
  case (BDelete k)
  then show ?thesis
    using map_of_filter_fst[of "\<lambda>x. x \<noteq> k" d] by (auto simp: fun_eq_iff)
next
  case (BDeleteRange lo hi)
  then show ?thesis
    using map_of_filter_fst[of "\<lambda>x. \<not> (lo \<le> x \<and> x < hi)" d] by (auto simp: fun_eq_iff)
qed auto

lemma mem_ops_view: "map_of (fold mem_op ops d) = apply_batch ops (map_of d)"
  by (induction ops arbitrary: d) (auto simp: mem_op_view)

lemma mem_iter_ok: "iter_ok (map_of d) lo hi (mem_iter d lo hi)"
  unfolding iter_ok_def
proof (intro conjI allI)
  let ?ks = "filter (\<lambda>k. lo \<le> k \<and> below k hi) (sort (remdups (map fst d)))"
  have "map fst (mem_iter d lo hi) = ?ks"
    by (simp add: mem_iter_def comp_def)
  moreover have "sorted_wrt (<) ?ks"
    by (simp add: strict_sorted_iff sorted_filter[of id, simplified])
  ultimately show "sorted_wrt (<) (map fst (mem_iter d lo hi))"
    by simp
next
  fix k v
  show "(k, v) \<in> set (mem_iter d lo hi) \<longleftrightarrow> lo \<le> k \<and> below k hi \<and> map_of d k = Some v"
    by (force simp: mem_iter_def dom_map_of_conv_image_fst[symmetric] image_iff dest: map_of_SomeD
        intro: weak_map_of_SomeI)
qed

lemma mem_pebble_spec: "pebble_spec mem_pebble map_of"
  by (auto simp: pebble_spec_def mem_pebble_def get_ok_def mem_ops_view mem_iter_ok
      split: option.split)

lemma mem_pebble_reliable: "pebble_reliable mem_pebble"
  by (simp add: pebble_reliable_def mem_pebble_def split: option.split)

text \<open>A store that refuses the commits that \<open>bad\<close> selects, as one does when its disk is full.\<close>

definition refusing :: "('db \<Rightarrow> batch_op list \<Rightarrow> bool) \<Rightarrow> 'db pebble \<Rightarrow> 'db pebble" where
  "refusing bad pb =
     pb\<lparr>pb_commit := (\<lambda>d ops. if bad d ops then Inl (DbError 28) else pb_commit pb d ops)\<rparr>"

lemma refusing_spec: "pebble_spec pb view \<Longrightarrow> pebble_spec (refusing bad pb) view"
  by (simp add: pebble_spec_def refusing_def)

end
