(* ===== verification/Replication_Types.thy ===== *)
theory Replication_Types
  imports Storage_Keys
begin

text \<open>
  Types and keys of \<open>internal/replication\<close>: the log operations and node roles of
  \<open>types.go\<close>, the keyspace of \<open>keys.go\<close>, the fencing check of \<open>fence.go\<close>.
\<close>

section \<open>types.go\<close>

type_synonym WALOp = u8
type_synonym NodeRole = u8

definition OpSet :: WALOp where "OpSet = 1"
definition OpDelete :: WALOp where "OpDelete = 2"
definition OpBatch :: WALOp where "OpBatch = 3"
definition OpCognitive :: WALOp where "OpCognitive = 4"
definition OpIndex :: WALOp where "OpIndex = 5"
definition OpMeta :: WALOp where "OpMeta = 6"

lemmas WALOp_defs = OpSet_def OpDelete_def OpBatch_def OpCognitive_def OpIndex_def OpMeta_def

record ReplicationEntry =
  Seq :: u64
  Op :: WALOp
  Key :: bytes
  Value :: bytes
  TimestampNS :: i64

definition RoleUnknown :: NodeRole where "RoleUnknown = 0"
definition RolePrimary :: NodeRole where "RolePrimary = 1"
definition RoleReplica :: NodeRole where "RoleReplica = 2"
definition RoleSentinel :: NodeRole where "RoleSentinel = 3"
definition RoleObserver :: NodeRole where "RoleObserver = 4"

lemmas NodeRole_defs = RoleUnknown_def RolePrimary_def RoleReplica_def RoleSentinel_def
  RoleObserver_def

definition NodeRole_String :: "NodeRole \<Rightarrow> string" where
  "NodeRole_String r =
     (if r = RolePrimary then ''primary''
      else if r = RoleReplica then ''replica''
      else if r = RoleSentinel then ''sentinel''
      else if r = RoleObserver then ''observer''
      else ''unknown'')"

definition WALOp_String :: "WALOp \<Rightarrow> string" where
  "WALOp_String op =
     (if op = OpSet then ''set''
      else if op = OpDelete then ''delete''
      else if op = OpBatch then ''batch''
      else if op = OpCognitive then ''cognitive''
      else if op = OpIndex then ''index''
      else if op = OpMeta then ''meta''
      else ''unknown'')"

section \<open>keys.go\<close>

definition prefix_Replication :: u8 where "prefix_Replication = 0x2F"
definition subEntry :: u8 where "subEntry = 0x01"
definition subMeta :: u8 where "subMeta = 0x02"

definition entryRangeLower :: bytes where
  "entryRangeLower = [prefix_Replication, subEntry]"

definition entryRangeUpper :: "bytes option" where
  "entryRangeUpper = PrefixUpperBound entryRangeLower"

definition replicationEntryKey :: "u64 \<Rightarrow> bytes" where
  "replicationEntryKey seq = [prefix_Replication, subEntry] @ PutUint64 seq"

definition entrySeqFromKey :: "bytes \<Rightarrow> u64 \<times> bool" where
  "entrySeqFromKey k =
     (if length k \<noteq> 10 \<or> k ! 0 \<noteq> prefix_Replication \<or> k ! 1 \<noteq> subEntry then (0, False)
      else (Uint64 (take 8 (drop 2 k)), True))"

definition metaKey :: "string \<Rightarrow> bytes" where
  "metaKey name = [prefix_Replication, subMeta] @ str_bytes name"

definition seqCounterKey :: bytes where "seqCounterKey = metaKey ''seq_counter''"
definition lastAppliedKey :: bytes where "lastAppliedKey = metaKey ''last_applied''"
definition schemaVersionKey :: bytes where "schemaVersionKey = metaKey ''schema_version''"
definition clusterEpochKey :: bytes where "clusterEpochKey = metaKey ''cluster_epoch''"
definition nodeRoleKey :: bytes where "nodeRoleKey = metaKey ''node_role''"

lemmas prefix_defs = prefix_Replication_def subEntry_def subMeta_def
lemmas metaKey_defs = seqCounterKey_def lastAppliedKey_def schemaVersionKey_def
  clusterEpochKey_def nodeRoleKey_def

text \<open>
  A key codec: an encoder of keys with a decoder that recognises exactly its image.  With an
  order-preserving encoder the iterator's byte order is the order of the values.
\<close>

locale key_codec =
  fixes enc :: "'a \<Rightarrow> bytes" and dec :: "bytes \<Rightarrow> 'a \<times> bool"
  assumes dec_enc: "dec (enc x) = (x, True)"
    and dec_sound: "dec k = (x, True) \<Longrightarrow> k = enc x"
begin

lemma enc_inject: "enc x = enc y \<longleftrightarrow> x = y"
  by (metis dec_enc prod.inject)

lemma dec_iff: "dec k = (x, True) \<longleftrightarrow> k = enc x"
  using dec_enc dec_sound by blast

end

locale ordered_key_codec = key_codec enc dec
  for enc :: "'a :: linorder \<Rightarrow> bytes" and dec +
  assumes enc_less: "enc x < enc y \<longleftrightarrow> x < y"
begin

lemma enc_le: "enc x \<le> enc y \<longleftrightarrow> x \<le> y"
  by (metis enc_less linorder_not_less)

lemma sorted_enc: "sorted_wrt (<) (map enc xs) \<longleftrightarrow> sorted_wrt (<) xs"
  by (simp add: sorted_wrt_map enc_less)

end

lemma entrySeqFromKey_sound:
  assumes "entrySeqFromKey k = (s, True)"
  shows "k = replicationEntryKey s"
proof -
  from assms have len: "length k = 10" and hd: "k ! 0 = prefix_Replication" "k ! 1 = subEntry"
    and s: "s = Uint64 (take 8 (drop 2 k))"
    by (auto simp: entrySeqFromKey_def split: if_splits)
  from len have tk: "take 8 (drop 2 k) = drop 2 k" by simp
  have "k = take 2 k @ drop 2 k" by simp
  also have "take 2 k = [k ! 0, k ! 1]"
    using len by (simp add: numeral_2_eq_2 take_Suc_conv_app_nth)
  finally show ?thesis
    using hd s tk len by (simp add: replicationEntryKey_def Uint64_bytes)
qed

interpretation entry_key: ordered_key_codec replicationEntryKey entrySeqFromKey
proof unfold_locales
  show "entrySeqFromKey (replicationEntryKey x) = (x, True)" for x
    by (simp add: entrySeqFromKey_def replicationEntryKey_def)
  show "entrySeqFromKey k = (x, True) \<Longrightarrow> k = replicationEntryKey x" for k x
    by (rule entrySeqFromKey_sound)
  show "replicationEntryKey x < replicationEntryKey y \<longleftrightarrow> x < y" for x y
    by (simp add: replicationEntryKey_def)
qed

lemma entryRangeUpper_eq: "entryRangeUpper = Some [prefix_Replication, subMeta]"
  by (simp add: entryRangeUpper_def entryRangeLower_def PrefixUpperBound_def prefix_defs)

lemma entryKey_below_meta: "replicationEntryKey s < metaKey name"
  by (simp add: replicationEntryKey_def metaKey_def prefix_defs)

lemma entryKey_neq_meta [simp]: "replicationEntryKey s \<noteq> metaKey name" "metaKey name \<noteq> replicationEntryKey s"
  by (simp_all add: replicationEntryKey_def metaKey_def prefix_defs)

lemma meta_not_below_entry [simp]: "replicationEntryKey s < seqCounterKey" "\<not> seqCounterKey < replicationEntryKey s"
  using entryKey_below_meta[of s "''seq_counter''"] by (auto simp: seqCounterKey_def)

lemma str_bytes_inject: "str_bytes s = str_bytes t \<longleftrightarrow> s = t"
  by (metis bytes_str_str_bytes)

lemma metaKey_inject: "metaKey a = metaKey b \<longleftrightarrow> a = b"
  by (simp add: metaKey_def str_bytes_inject)

section \<open>fence.go\<close>

datatype fence_error = ErrStaleFencingToken

definition ValidateFencingToken :: "u64 \<Rightarrow> u64 \<Rightarrow> fence_error option" where
  "ValidateFencingToken current provided =
     (if provided \<noteq> current then Some ErrStaleFencingToken else None)"

end
