(* ===== verification/Epoch_Store.thy ===== *)
theory Epoch_Store
  imports Replication_Types
begin

text \<open>
  \<open>internal/replication/epoch.go\<close>: the election epoch, cached in memory and persisted under
  \<open>cluster_epoch\<close>.  Every method runs under the store's mutex and is one function from the
  old state to the new one and the method's result; a failed write leaves the cache as it was.

  The locale \<open>epoch_ops\<close> is the contract the election relies on: a compare-and-set, an
  advance that never goes back, and the fact that neither ever lowers a well-behaved epoch.
  The model of the store interprets it.
\<close>

record 'db EpochStore =
  es_db :: 'db
  es_current :: u64

definition NewEpochStore :: "'db pebble \<Rightarrow> 'db \<Rightarrow> db_error + 'db EpochStore" where
  "NewEpochStore pb db =
     (case pb_get pb db clusterEpochKey of
        GetErr e \<Rightarrow> Inl e
      | ErrNotFound \<Rightarrow> Inr \<lparr>es_db = db, es_current = 0\<rparr>
      | Found val \<Rightarrow>
          Inr \<lparr>es_db = db, es_current = (if length val \<ge> 8 then Uint64 val else 0)\<rparr>)"

definition Load :: "'db EpochStore \<Rightarrow> u64" where
  "Load s = es_current s"

definition persist :: "'db pebble \<Rightarrow> 'db EpochStore \<Rightarrow> u64 \<Rightarrow> db_error + 'db" where
  "persist pb s epoch = pb_set pb (es_db s) clusterEpochKey (PutUint64 epoch)"

definition CompareAndSet ::
  "'db pebble \<Rightarrow> 'db EpochStore \<Rightarrow> u64 \<Rightarrow> u64 \<Rightarrow> 'db EpochStore \<times> (db_error + bool)" where
  "CompareAndSet pb s expected newEpoch =
     (if es_current s \<noteq> expected then (s, Inr False)
      else case persist pb s newEpoch of
             Inl err \<Rightarrow> (s, Inl err)
           | Inr db' \<Rightarrow> (s\<lparr>es_db := db', es_current := newEpoch\<rparr>, Inr True))"

definition Advance ::
  "'db pebble \<Rightarrow> 'db EpochStore \<Rightarrow> u64 \<Rightarrow> 'db EpochStore \<times> (db_error + bool)" where
  "Advance pb s newEpoch =
     (if newEpoch \<le> es_current s then (s, Inr False)
      else case persist pb s newEpoch of
             Inl err \<Rightarrow> (s, Inl err)
           | Inr db' \<Rightarrow> (s\<lparr>es_db := db', es_current := newEpoch\<rparr>, Inr True))"

definition AdoptForSnapshot ::
  "'db pebble \<Rightarrow> 'db EpochStore \<Rightarrow> u64 \<Rightarrow> 'db EpochStore \<times> db_error option" where
  "AdoptForSnapshot pb s newEpoch =
     (if newEpoch = es_current s then (s, None)
      else case persist pb s newEpoch of
             Inl err \<Rightarrow> (s, Some err)
           | Inr db' \<Rightarrow> (s\<lparr>es_db := db', es_current := newEpoch\<rparr>, None))"

definition PersistRole ::
  "'db pebble \<Rightarrow> 'db EpochStore \<Rightarrow> string \<Rightarrow> 'db EpochStore \<times> db_error option" where
  "PersistRole pb s role =
     (case pb_set pb (es_db s) nodeRoleKey (str_bytes role) of
        Inl err \<Rightarrow> (s, Some err)
      | Inr db' \<Rightarrow> (s\<lparr>es_db := db'\<rparr>, None))"

definition LoadRole :: "'db pebble \<Rightarrow> 'db EpochStore \<Rightarrow> db_error + string" where
  "LoadRole pb s =
     (case pb_get pb (es_db s) nodeRoleKey of
        ErrNotFound \<Rightarrow> Inr ''''
      | GetErr e \<Rightarrow> Inl e
      | Found val \<Rightarrow> Inr (bytes_str val))"

lemmas epoch_defs = Load_def persist_def CompareAndSet_def Advance_def

section \<open>The contract the election uses\<close>

text \<open>
  \<open>cas\<close> installs the new epoch exactly when it reports \<open>True\<close>, which needs the expected epoch;
  \<open>adv\<close> installs its argument exactly when it reports \<open>True\<close>, which needs a larger one.
\<close>

locale epoch_ops =
  fixes ld :: "'s \<Rightarrow> u64"
    and cas :: "'s \<Rightarrow> u64 \<Rightarrow> u64 \<Rightarrow> 's \<times> ('e + bool)"
    and adv :: "'s \<Rightarrow> u64 \<Rightarrow> 's \<times> ('e + bool)"
  assumes cas_True: "cas s x n = (s', Inr True) \<Longrightarrow> ld s = x \<and> ld s' = n"
    and cas_other: "cas s x n = (s', r) \<Longrightarrow> r \<noteq> Inr True \<Longrightarrow> ld s' = ld s"
    and cas_False: "cas s x n = (s', Inr False) \<Longrightarrow> ld s \<noteq> x"
    and adv_True: "adv s n = (s', Inr True) \<Longrightarrow> ld s < n \<and> ld s' = n"
    and adv_other: "adv s n = (s', r) \<Longrightarrow> r \<noteq> Inr True \<Longrightarrow> ld s' = ld s"
    and adv_False: "adv s n = (s', Inr False) \<Longrightarrow> n \<le> ld s"
begin

lemma adv_mono: "adv s n = (s', r) \<Longrightarrow> ld s \<le> ld s'"
  by (cases "r = Inr True") (auto dest: adv_True adv_other)

lemma cas_mono: "cas s x n = (s', r) \<Longrightarrow> x \<le> n \<Longrightarrow> ld s \<le> ld s'"
  by (cases "r = Inr True") (auto dest: cas_True cas_other)

lemma adv_reaches: "adv s n = (s', Inr b) \<Longrightarrow> n \<le> ld s'"
  by (metis (full_types) Inr_inject adv_False adv_True adv_other order_refl)

end

interpretation epoch: epoch_ops Load "CompareAndSet pb" "Advance pb" for pb :: "'db pebble"
  by unfold_locales (auto simp: epoch_defs split: if_splits sum.splits)

section \<open>Durability\<close>

text \<open>
  The cache and the disk agree: what a restart would read is the cached epoch.  Before the
  first write the key is absent and the epoch is 0.
\<close>

definition epoch_durable :: "('db \<Rightarrow> bytes \<rightharpoonup> bytes) \<Rightarrow> 'db EpochStore \<Rightarrow> bool" where
  "epoch_durable view s \<longleftrightarrow>
     (case view (es_db s) clusterEpochKey of
        None \<Rightarrow> es_current s = 0
      | Some v \<Rightarrow> 8 \<le> length v \<and> Uint64 v = es_current s)"

lemma persist_durable:
  "pebble_spec pb view \<Longrightarrow> persist pb s n = Inr db' \<Longrightarrow>
     epoch_durable view (s\<lparr>es_db := db', es_current := n\<rparr>)"
  by (simp add: persist_def epoch_durable_def spec_set[of pb view])

lemma CompareAndSet_durable:
  "pebble_spec pb view \<Longrightarrow> epoch_durable view s \<Longrightarrow>
     epoch_durable view (fst (CompareAndSet pb s x n))"
  by (auto simp: CompareAndSet_def persist_durable split: sum.split)

lemma Advance_durable:
  "pebble_spec pb view \<Longrightarrow> epoch_durable view s \<Longrightarrow> epoch_durable view (fst (Advance pb s n))"
  by (auto simp: Advance_def persist_durable split: sum.split)

lemma AdoptForSnapshot_durable:
  "pebble_spec pb view \<Longrightarrow> epoch_durable view s \<Longrightarrow>
     epoch_durable view (fst (AdoptForSnapshot pb s n))"
  by (auto simp: AdoptForSnapshot_def persist_durable split: sum.split)

lemma nodeRoleKey_neq [simp]: "clusterEpochKey \<noteq> nodeRoleKey"
  by (simp add: metaKey_defs metaKey_inject)

lemma PersistRole_durable:
  "pebble_spec pb view \<Longrightarrow> epoch_durable view s \<Longrightarrow>
     epoch_durable view (fst (PersistRole pb s role))"
  by (auto simp: PersistRole_def epoch_durable_def spec_set[of pb view]
      split: sum.split option.splits)

lemma NewEpochStore_durable:
  "pebble_spec pb view \<Longrightarrow> NewEpochStore pb db = Inr s \<Longrightarrow>
     (\<forall>v. view db clusterEpochKey = Some v \<longrightarrow> 8 \<le> length v) \<Longrightarrow> epoch_durable view s"
  by (auto simp: NewEpochStore_def epoch_durable_def split: get_result.splits
      dest: spec_get_Found spec_get_NotFound)

lemma restart_reads_current:
  assumes "pebble_spec pb view" "epoch_durable view s"
  shows "NewEpochStore pb (es_db s) = Inr s \<or> (\<exists>e. NewEpochStore pb (es_db s) = Inl e)"
proof (cases "view (es_db s) clusterEpochKey")
  case None
  with assms show ?thesis
    by (cases s) (auto simp: NewEpochStore_def epoch_durable_def dest!: spec_get_None
        split: get_result.split)
next
  case (Some v)
  with assms show ?thesis
    by (cases s) (auto simp: NewEpochStore_def epoch_durable_def dest!: spec_get_Some
        split: get_result.split)
qed

section \<open>Runs of the store\<close>

text \<open>
  A run is any sequence of the store's mutating calls and restarts of the process; a restart
  that cannot read the disk leaves the process down, which the run models as no progress.
\<close>

datatype epoch_call =
    CallCAS u64 u64
  | CallAdvance u64
  | CallPersistRole string
  | CallAdopt u64
  | CallRestart

fun epoch_call_step :: "'db pebble \<Rightarrow> 'db EpochStore \<Rightarrow> epoch_call \<Rightarrow> 'db EpochStore" where
  "epoch_call_step pb s (CallCAS x n) = fst (CompareAndSet pb s x n)"
| "epoch_call_step pb s (CallAdvance n) = fst (Advance pb s n)"
| "epoch_call_step pb s (CallPersistRole r) = fst (PersistRole pb s r)"
| "epoch_call_step pb s (CallAdopt n) = fst (AdoptForSnapshot pb s n)"
| "epoch_call_step pb s CallRestart =
     (case NewEpochStore pb (es_db s) of Inl e \<Rightarrow> s | Inr s' \<Rightarrow> s')"

definition epoch_calls :: "'db pebble \<Rightarrow> 'db EpochStore \<Rightarrow> epoch_call list \<Rightarrow> 'db EpochStore" where
  "epoch_calls pb s cs = foldl (epoch_call_step pb) s cs"

text \<open>The calls that the code makes outside the snapshot path: a compare-and-set never names a
  smaller epoch than the expected one, and nothing adopts a snapshot's epoch.\<close>

fun forward_call :: "epoch_call \<Rightarrow> bool" where
  "forward_call (CallCAS x n) = (x \<le> n)"
| "forward_call (CallAdopt n) = False"
| "forward_call _ = True"

lemma epoch_call_step_durable:
  "pebble_spec pb view \<Longrightarrow> epoch_durable view s \<Longrightarrow> epoch_durable view (epoch_call_step pb s c)"
  using restart_reads_current[of pb view s]
  by (cases c) (auto simp: CompareAndSet_durable Advance_durable PersistRole_durable
      AdoptForSnapshot_durable split: sum.split)

lemma PersistRole_current [simp]: "es_current (fst (PersistRole pb s r)) = es_current s"
  by (simp add: PersistRole_def split: sum.split)

lemma epoch_call_step_mono:
  assumes "pebble_spec pb view" "epoch_durable view s" "forward_call c"
  shows "Load s \<le> Load (epoch_call_step pb s c)"
proof (cases c)
  case (CallCAS x n)
  with assms show ?thesis
    using epoch.cas_mono[of pb s x n "fst (CompareAndSet pb s x n)" "snd (CompareAndSet pb s x n)"]
    by simp
next
  case (CallAdvance n)
  then show ?thesis
    using epoch.adv_mono[of pb s n "fst (Advance pb s n)" "snd (Advance pb s n)"] by simp
next
  case CallRestart
  then show ?thesis
    using restart_reads_current[OF assms(1,2)] by (auto split: sum.split)
qed (use assms in \<open>auto simp: Load_def\<close>)

lemma epoch_calls_durable:
  "pebble_spec pb view \<Longrightarrow> epoch_durable view s \<Longrightarrow> epoch_durable view (epoch_calls pb s cs)"
  by (induction cs arbitrary: s) (auto simp: epoch_calls_def epoch_call_step_durable)

lemma epoch_calls_mono:
  assumes "pebble_spec pb view"
  shows "epoch_durable view s \<Longrightarrow> list_all forward_call cs \<Longrightarrow> Load s \<le> Load (epoch_calls pb s cs)"
proof (induction cs arbitrary: s)
  case Nil
  then show ?case by (simp add: epoch_calls_def)
next
  case (Cons c cs)
  let ?t = "epoch_call_step pb s c"
  have "Load s \<le> Load ?t"
    using epoch_call_step_mono[OF assms Cons.prems(1)] Cons.prems(2) by simp
  also have "\<dots> \<le> Load (epoch_calls pb ?t cs)"
    using Cons epoch_call_step_durable[OF assms Cons.prems(1)] by simp
  finally show ?case by (simp add: epoch_calls_def)
qed

end
