(* ===== verification/Election.thy ===== *)
theory Election
  imports Epoch_Store
begin

text \<open>
  \<open>internal/replication/election.go\<close>: one node's view of the leader election.  Each method
  is a function of the node's state; a method that releases the mutex in the middle
  (\<open>StartElection\<close>, \<open>HandleVoteResponse\<close>) is split at that point into its locked section,
  which says whether \<open>tryPromote\<close> is still to be called, and the whole method, which calls
  it.  Broadcasts and callbacks are the list of outputs, in the order the code makes them.

  \<open>votes\<close> and \<open>votedFor\<close> are Go maps keyed by the epoch; the inner map of \<open>votes\<close> only ever
  stores \<open>true\<close>, so it is its set of keys.  \<open>marshal\<close> stands for \<open>msgpack.Marshal\<close>, a
  third-party call: \<open>None\<close> is its error.
\<close>

datatype ElectionState = ElectionIdle | ElectionCandidate | ElectionLeader | ElectionFollower

record VoteRequest =
  CandidateID :: node_id
  req_Epoch :: u64

record VoteResponse =
  VoterID :: node_id
  resp_Epoch :: u64
  Granted :: bool

record CortexClaim =
  CortexID :: node_id
  claim_Epoch :: u64
  FencingToken :: u64

datatype election_msg = MVoteRequest VoteRequest | MCortexClaim CortexClaim

datatype election_out =
    Broadcast election_msg
  | OnPromoted u64
  | OnDemoted
  | OnNewLeader node_id u64

datatype election_error =
    ErrAlreadyCandidate
  | ErrEpochCASFailed
  | ErrSentinelCannotElect
  | ErrObserverCannotElect
  | ErrStore db_error
  | ErrMarshal

record 'db Election =
  localNodeID :: node_id
  epochStore :: "'db EpochStore"
  isSentinel :: bool
  isObserver :: bool
  state :: ElectionState
  currentLeader :: node_id
  votes :: "u64 \<rightharpoonup> node_id set"
  votedFor :: "u64 \<rightharpoonup> node_id"
  candidateEpoch :: u64
  voters :: "node_id set"

definition NewElection :: "node_id \<Rightarrow> 'db EpochStore \<Rightarrow> 'db Election" where
  "NewElection nodeID store =
     \<lparr>localNodeID = nodeID, epochStore = store, isSentinel = False, isObserver = False,
      state = ElectionIdle, currentLeader = '''', votes = Map.empty, votedFor = Map.empty,
      candidateEpoch = 0, voters = {}\<rparr>"

definition SetSentinel :: "'db Election \<Rightarrow> bool \<Rightarrow> 'db Election" where
  "SetSentinel e b = e\<lparr>isSentinel := b\<rparr>"

definition SetObserver :: "'db Election \<Rightarrow> bool \<Rightarrow> 'db Election" where
  "SetObserver e b = e\<lparr>isObserver := b\<rparr>"

definition RegisterVoter :: "'db Election \<Rightarrow> node_id \<Rightarrow> 'db Election" where
  "RegisterVoter e nodeID = e\<lparr>voters := insert nodeID (voters e)\<rparr>"

definition UnregisterVoter :: "'db Election \<Rightarrow> node_id \<Rightarrow> 'db Election" where
  "UnregisterVoter e nodeID = e\<lparr>voters := voters e - {nodeID}\<rparr>"

definition IsVoter :: "'db Election \<Rightarrow> node_id \<Rightarrow> bool" where
  "IsVoter e nodeID \<longleftrightarrow> nodeID \<in> voters e"

definition ResetCandidate :: "'db Election \<Rightarrow> 'db Election" where
  "ResetCandidate e =
     (if state e = ElectionCandidate then e\<lparr>state := ElectionIdle\<rparr> else e)"

definition ClearLeader :: "'db Election \<Rightarrow> node_id \<Rightarrow> 'db Election" where
  "ClearLeader e deadID =
     (let e1 = (if currentLeader e = deadID then e\<lparr>currentLeader := ''''\<rparr> else e)
      in if state e1 = ElectionFollower then e1\<lparr>state := ElectionIdle\<rparr> else e1)"

definition StepDown :: "'db Election \<Rightarrow> 'db Election" where
  "StepDown e =
     (let e1 = (if state e = ElectionLeader then e\<lparr>state := ElectionIdle\<rparr> else e)
      in if currentLeader e1 = localNodeID e1 then e1\<lparr>currentLeader := ''''\<rparr> else e1)"

definition quorumLocked :: "'db Election \<Rightarrow> nat" where
  "quorumLocked e = card (voters e) div 2 + 1"

definition votes_at :: "'db Election \<Rightarrow> u64 \<Rightarrow> node_id set" where
  "votes_at e ep = (case votes e ep of None \<Rightarrow> {} | Some s \<Rightarrow> s)"

text \<open>The clean-up loops delete the map entries of older epochs.\<close>

definition drop_below :: "u64 \<Rightarrow> (u64 \<rightharpoonup> 'a) \<Rightarrow> (u64 \<rightharpoonup> 'a)" where
  "drop_below epoch m = (\<lambda>ep. if ep < epoch then None else m ep)"

definition bcast :: "(election_msg \<Rightarrow> bytes option) \<Rightarrow> election_msg \<Rightarrow> election_out list" where
  "bcast marshal m = (case marshal m of None \<Rightarrow> [] | Some payload \<Rightarrow> [Broadcast m])"

definition broadcastClaim ::
  "(election_msg \<Rightarrow> bytes option) \<Rightarrow> 'db Election \<Rightarrow> u64 \<Rightarrow> election_out list" where
  "broadcastClaim marshal e epoch =
     bcast marshal (MCortexClaim
       \<lparr>CortexID = localNodeID e, claim_Epoch = epoch, FencingToken = epoch\<rparr>)"

definition tryPromote ::
  "(election_msg \<Rightarrow> bytes option) \<Rightarrow> 'db pebble \<Rightarrow> 'db Election \<Rightarrow> u64 \<Rightarrow>
     'db Election \<times> election_out list" where
  "tryPromote marshal pb e epoch =
     (if isSentinel e then (e, [])
      else if state e \<noteq> ElectionCandidate \<or> candidateEpoch e \<noteq> epoch then (e, [])
      else case CompareAndSet pb (epochStore e) epoch epoch of
             (st, Inr True) \<Rightarrow>
               (let e1 = e\<lparr>epochStore := st, state := ElectionLeader,
                           currentLeader := localNodeID e,
                           votes := drop_below epoch (votes e),
                           votedFor := drop_below epoch (votedFor e)\<rparr>
                in (e1, broadcastClaim marshal e1 epoch @ [OnPromoted epoch]))
           | (st, r) \<Rightarrow> (e\<lparr>epochStore := st, state := ElectionIdle\<rparr>, []))"

text \<open>The section of \<open>StartElection\<close> under the mutex: the new epoch, and whether the
  node's own vote already is a quorum.\<close>

definition StartElection_locked ::
  "'db pebble \<Rightarrow> 'db Election \<Rightarrow> 'db Election \<times> (election_error + u64 \<times> bool)" where
  "StartElection_locked pb e =
     (if isSentinel e then (e, Inl ErrSentinelCannotElect)
      else if isObserver e then (e, Inl ErrObserverCannotElect)
      else if state e = ElectionCandidate \<or> state e = ElectionLeader
        then (e, Inl ErrAlreadyCandidate)
      else let currentEpoch = Load (epochStore e); newEpoch = currentEpoch + 1
        in case CompareAndSet pb (epochStore e) currentEpoch newEpoch of
             (st, Inl err) \<Rightarrow> (e\<lparr>epochStore := st\<rparr>, Inl (ErrStore err))
           | (st, Inr False) \<Rightarrow> (e\<lparr>epochStore := st\<rparr>, Inl ErrEpochCASFailed)
           | (st, Inr True) \<Rightarrow>
               (let e1 = e\<lparr>epochStore := st, state := ElectionCandidate,
                           candidateEpoch := newEpoch,
                           votedFor := (votedFor e)(newEpoch \<mapsto> localNodeID e),
                           votes := (votes e)(newEpoch \<mapsto>
                             insert (localNodeID e) (votes_at e newEpoch))\<rparr>
                in (e1, Inr (newEpoch, quorumLocked e1 \<le> card (votes_at e1 newEpoch)))))"

definition StartElection ::
  "(election_msg \<Rightarrow> bytes option) \<Rightarrow> 'db pebble \<Rightarrow> 'db Election \<Rightarrow>
     'db Election \<times> election_out list \<times> election_error option" where
  "StartElection marshal pb e =
     (case StartElection_locked pb e of
        (e1, Inl err) \<Rightarrow> (e1, [], Some err)
      | (e1, Inr (newEpoch, quorate)) \<Rightarrow>
          (let req = MVoteRequest \<lparr>CandidateID = localNodeID e1, req_Epoch = newEpoch\<rparr>
           in case marshal req of
                None \<Rightarrow> (e1, [], Some ErrMarshal)
              | Some payload \<Rightarrow>
                  (if quorate then
                     (let (e2, outs) = tryPromote marshal pb e1 newEpoch
                      in (e2, Broadcast req # outs, None))
                   else (e1, [Broadcast req], None))))"

definition HandleVoteRequest ::
  "'db pebble \<Rightarrow> 'db Election \<Rightarrow> VoteRequest \<Rightarrow> 'db Election \<times> VoteResponse" where
  "HandleVoteRequest pb e req =
     (let reply = (\<lambda>g. \<lparr>VoterID = localNodeID e, resp_Epoch = req_Epoch req, Granted = g\<rparr>)
      in if isObserver e then (e, reply False)
         else let currentEpoch = Load (epochStore e)
         in if req_Epoch req < currentEpoch then (e, reply False)
         else let e1 = (if req_Epoch req > currentEpoch
                        then e\<lparr>epochStore := fst (Advance pb (epochStore e) (req_Epoch req))\<rparr>
                        else e)
         in case votedFor e1 (req_Epoch req) of
              Some prev \<Rightarrow> (e1, reply (prev = CandidateID req))
            | None \<Rightarrow>
                (let e2 = e1\<lparr>votedFor := (votedFor e1)(req_Epoch req \<mapsto> CandidateID req)\<rparr>;
                     e3 = (if state e2 = ElectionCandidate \<and> candidateEpoch e2 < req_Epoch req
                           then e2\<lparr>state := ElectionIdle\<rparr> else e2)
                 in (e3, reply True)))"

text \<open>The section of \<open>HandleVoteResponse\<close> under the mutex, and whether the quorum is
  reached.\<close>

definition HandleVoteResponse_locked ::
  "'db Election \<Rightarrow> VoteResponse \<Rightarrow> 'db Election \<times> bool" where
  "HandleVoteResponse_locked e resp =
     (if state e \<noteq> ElectionCandidate \<or> resp_Epoch resp \<noteq> candidateEpoch e then (e, False)
      else if \<not> Granted resp then (e, False)
      else if VoterID resp \<notin> voters e then (e, False)
      else let e1 = e\<lparr>votes := (votes e)(resp_Epoch resp \<mapsto>
                         insert (VoterID resp) (votes_at e (resp_Epoch resp)))\<rparr>
        in (e1, quorumLocked e1 \<le> card (votes_at e1 (resp_Epoch resp))))"

definition HandleVoteResponse ::
  "(election_msg \<Rightarrow> bytes option) \<Rightarrow> 'db pebble \<Rightarrow> 'db Election \<Rightarrow> VoteResponse \<Rightarrow>
     'db Election \<times> election_out list" where
  "HandleVoteResponse marshal pb e resp =
     (let (e1, quorate) = HandleVoteResponse_locked e resp
      in if quorate then tryPromote marshal pb e1 (resp_Epoch resp) else (e1, []))"

definition HandleCortexClaim ::
  "(election_msg \<Rightarrow> bytes option) \<Rightarrow> 'db pebble \<Rightarrow> 'db Election \<Rightarrow> CortexClaim \<Rightarrow>
     'db Election \<times> election_out list" where
  "HandleCortexClaim marshal pb e claim =
     (let currentEpoch = Load (epochStore e)
      in if claim_Epoch claim < currentEpoch then (e, [])
         else if claim_Epoch claim = currentEpoch \<and> state e = ElectionLeader \<and>
                 CortexID claim \<noteq> localNodeID e \<and> localNodeID e < CortexID claim
           then (e, broadcastClaim marshal e (claim_Epoch claim))
         else let st = fst (Advance pb (epochStore e) (claim_Epoch claim));
                  wasLeader = (state e = ElectionLeader);
                  e1 = e\<lparr>epochStore := st, state := ElectionFollower,
                         currentLeader := CortexID claim,
                         votes := drop_below (claim_Epoch claim) (votes e),
                         votedFor := drop_below (claim_Epoch claim) (votedFor e)\<rparr>
           in (e1, (if wasLeader then [OnDemoted] else []) @
                   [OnNewLeader (CortexID claim) (claim_Epoch claim)]))"

end
