(* ===== verification/Election_Safety.thy ===== *)
theory Election_Safety
  imports Election
begin

text \<open>
  A cluster of nodes running the election of \<open>internal/replication/election.go\<close> over an
  unreliable network, and the safety property its header states: at most one Cortex holds a
  given epoch.

  Messages are sets that only grow, so a message may be delayed, reordered, duplicated or
  lost; a response is addressed to the candidate whose request it answers, as
  \<open>HandleIncomingFrame\<close> sends it back to the peer the request came from.  A step is one
  section under a node's mutex, so every interleaving of \<open>tryPromote\<close> with the handlers is
  covered: \<open>pending\<close> holds the calls still to be made.  \<open>elected\<close> is a history variable.

  Membership is fixed: every node has the same registry \<open>V\<close>, and a node outside it is an
  observer (\<open>ClusterCoordinator.Run\<close> registers every other node as its own voter).
\<close>

section \<open>Quorums\<close>

text \<open>
  What the safety argument needs of a quorum rule: any two quorums of the same registry have a
  member in common.  The rule of the code is \<open>len(voters)/2 + 1\<close>.
\<close>

locale quorum_rule =
  fixes enough :: "nat \<Rightarrow> nat \<Rightarrow> bool"
  assumes overlap: "enough n a \<Longrightarrow> enough n b \<Longrightarrow> n < a + b"
begin

lemma quorums_meet:
  assumes fin: "finite V" and sub: "Q \<subseteq> V" "Q' \<subseteq> V"
    and q: "enough (card V) (card Q)" "enough (card V) (card Q')"
  shows "Q \<inter> Q' \<noteq> {}"
proof
  assume disj: "Q \<inter> Q' = {}"
  have "finite Q" "finite Q'" using fin sub finite_subset by blast+
  then have "card Q + card Q' = card (Q \<union> Q')" using card_Un_disjoint[OF _ _ disj] by simp
  also have "\<dots> \<le> card V" using fin sub by (intro card_mono) auto
  finally show False using overlap[OF q] by simp
qed

end

interpretation majority: quorum_rule "\<lambda>n k. n div 2 + 1 \<le> k"
  by unfold_locales linarith

section \<open>Effects of the node operations\<close>

abbreviation epoch_of :: "'db Election \<Rightarrow> u64" where
  "epoch_of e \<equiv> es_current (epochStore e)"

lemma Advance_reliable:
  "pebble_reliable pb \<Longrightarrow> es_current (fst (Advance pb st n)) = max (es_current st) n"
  using reliable_set[of pb "es_db st" clusterEpochKey "PutUint64 n"]
  by (auto simp: Advance_def persist_def max_def)

lemma CompareAndSet_reliable:
  "pebble_reliable pb \<Longrightarrow>
     \<exists>st'. CompareAndSet pb st (es_current st) n = (st', Inr True) \<and> es_current st' = n"
  using reliable_set[of pb "es_db st" clusterEpochKey "PutUint64 n"]
  by (auto simp: CompareAndSet_def persist_def)

lemma CompareAndSet_True:
  "CompareAndSet pb st x n = (st', Inr True) \<Longrightarrow> es_current st = x \<and> es_current st' = n"
  using epoch.cas_True[of pb st x n st'] by (simp add: Load_def)

text \<open>\<open>quiet e e'\<close>: the operation may have raised the epoch, dropped tallies and left
  leadership, but has not forgotten a vote of the current epoch nor claimed anything.\<close>

definition quiet :: "'db Election \<Rightarrow> 'db Election \<Rightarrow> bool" where
  "quiet e e' \<longleftrightarrow>
     localNodeID e' = localNodeID e \<and> voters e' = voters e \<and> isObserver e' = isObserver e \<and>
     epoch_of e \<le> epoch_of e' \<and>
     (epoch_of e' = epoch_of e \<longrightarrow>
        (\<forall>c. votedFor e (epoch_of e) = Some c \<longrightarrow> votedFor e' (epoch_of e) = Some c)) \<and>
     (\<forall>ep S. votes e' ep = Some S \<longrightarrow> votes e ep = Some S) \<and>
     (state e' = ElectionLeader \<longrightarrow> state e = ElectionLeader \<and> candidateEpoch e' = candidateEpoch e)"

lemma quiet_refl [simp]: "quiet e e"
  by (simp add: quiet_def)

lemma quiet_ResetCandidate: "quiet e (ResetCandidate e)"
  by (simp add: quiet_def ResetCandidate_def)

lemma quiet_ClearLeader: "quiet e (ClearLeader e d)"
  by (simp add: quiet_def ClearLeader_def Let_def)

lemma quiet_StepDown: "quiet e (StepDown e)"
  by (simp add: quiet_def StepDown_def Let_def)

lemma drop_below_Some: "drop_below ep m x = Some y \<longleftrightarrow> ep \<le> x \<and> m x = Some y"
  by (auto simp: drop_below_def)

lemma drop_below_ge [simp]: "ep \<le> x \<Longrightarrow> drop_below ep m x = m x"
  by (auto simp: drop_below_def)

lemma quiet_HandleCortexClaim:
  assumes "pebble_reliable pb"
  shows "quiet e (fst (HandleCortexClaim marshal pb e c))"
  using Advance_reliable[OF assms, of "epochStore e" "claim_Epoch c"]
  by (auto simp: HandleCortexClaim_def quiet_def Let_def Load_def drop_below_Some max_def not_less)

text \<open>A refused start: under a reliable store nothing has changed.\<close>

lemma StartElection_locked_Inl:
  assumes "pebble_reliable pb" "StartElection_locked pb e = (e', Inl err)"
  shows "e' = e"
  using assms CompareAndSet_reliable[OF assms(1), of "epochStore e" "epoch_of e + 1"]
  by (auto simp: StartElection_locked_def Load_def Let_def split: if_splits)

lemma StartElection_locked_Inr:
  assumes "StartElection_locked pb e = (e', Inr (ep, q))"
  shows "ep = epoch_of e + 1 \<and> epoch_of e' = ep \<and> \<not> isObserver e \<and>
    localNodeID e' = localNodeID e \<and> voters e' = voters e \<and> isObserver e' = isObserver e \<and>
    state e' = ElectionCandidate \<and> votedFor e' ep = Some (localNodeID e) \<and>
    votes e' = (votes e)(ep \<mapsto> insert (localNodeID e) (votes_at e ep)) \<and>
    q = (quorumLocked e \<le> card (insert (localNodeID e) (votes_at e ep)))"
  using assms
  by (auto simp: StartElection_locked_def Load_def Let_def quorumLocked_def votes_at_def
      split: if_splits sum.splits bool.splits prod.splits dest!: CompareAndSet_True)

lemma HandleVoteRequest_effect:
  assumes "pebble_reliable pb" "HandleVoteRequest pb e req = (e', resp)"
  shows "quiet e e' \<and> VoterID resp = localNodeID e \<and> resp_Epoch resp = req_Epoch req \<and>
    (Granted resp \<longrightarrow> epoch_of e' = req_Epoch req \<and> epoch_of e \<le> req_Epoch req \<and>
       votedFor e' (req_Epoch req) = Some (CandidateID req) \<and>
       (votedFor e (req_Epoch req) = None \<or> votedFor e (req_Epoch req) = Some (CandidateID req)))"
  using assms(2) Advance_reliable[OF assms(1), of "epochStore e" "req_Epoch req"]
  by (auto simp: HandleVoteRequest_def quiet_def Load_def Let_def max_def
      split: if_splits option.splits)

lemma HandleVoteResponse_locked_effect:
  assumes "HandleVoteResponse_locked e resp = (e', q)"
  shows "(e' = e \<and> \<not> q) \<or>
    (Granted resp \<and> VoterID resp \<in> voters e \<and> state e = ElectionCandidate \<and>
     resp_Epoch resp = candidateEpoch e \<and>
     e' = e\<lparr>votes := (votes e)(resp_Epoch resp \<mapsto>
              insert (VoterID resp) (votes_at e (resp_Epoch resp)))\<rparr> \<and>
     q = (quorumLocked e \<le> card (insert (VoterID resp) (votes_at e (resp_Epoch resp)))))"
  using assms
  by (auto simp: HandleVoteResponse_locked_def Let_def quorumLocked_def votes_at_def
      split: if_splits)

lemma bcast_no_promotion [simp]: "OnPromoted ep \<notin> set (bcast marshal m)"
  by (simp add: bcast_def split: option.split)

lemma tryPromote_effect:
  assumes "tryPromote marshal pb e ep = (e', outs)"
  shows "(outs = [] \<and> quiet e e') \<or>
    (\<exists>st. state e = ElectionCandidate \<and> candidateEpoch e = ep \<and> epoch_of e = ep \<and>
       es_current st = ep \<and>
       e' = e\<lparr>epochStore := st, state := ElectionLeader, currentLeader := localNodeID e,
              votes := drop_below ep (votes e), votedFor := drop_below ep (votedFor e)\<rparr> \<and>
       outs = broadcastClaim marshal e' ep @ [OnPromoted ep])"
proof (cases "isSentinel e \<or> state e \<noteq> ElectionCandidate \<or> candidateEpoch e \<noteq> ep")
  case True
  with assms show ?thesis
    by (auto simp: tryPromote_def split: if_splits)
next
  case False
  obtain st r where cas: "CompareAndSet pb (epochStore e) ep ep = (st, r)"
    by fastforce
  have same: "es_current st = epoch_of e"
    using cas by (auto simp: CompareAndSet_def split: if_splits sum.splits)
  show ?thesis
  proof (cases "r = Inr True")
    case True
    with cas have ep: "epoch_of e = ep" by (auto dest: CompareAndSet_True)
    with False True assms cas same show ?thesis
      by (intro disjI2 exI[of _ st]) (auto simp: tryPromote_def Let_def)
  next
    case False': False
    with assms False cas have "e' = e\<lparr>epochStore := st, state := ElectionIdle\<rparr>" "outs = []"
      by (auto simp: tryPromote_def split: sum.splits bool.splits)
    with same show ?thesis by (simp add: quiet_def)
  qed
qed

lemma broadcastClaim_outs: "set (broadcastClaim marshal e ep) \<subseteq>
    {Broadcast (MCortexClaim \<lparr>CortexID = localNodeID e, claim_Epoch = ep, FencingToken = ep\<rparr>)}"
  by (auto simp: broadcastClaim_def bcast_def split: option.splits)

section \<open>The cluster\<close>

record 'db Cluster =
  nodes :: "node_id \<Rightarrow> 'db Election"
  requests :: "VoteRequest set"
  responses :: "(node_id \<times> VoteResponse) set"
  claims :: "CortexClaim set"
  pending :: "(node_id \<times> u64) set"
  elected :: "(node_id \<times> u64) set"

definition set_node :: "node_id \<Rightarrow> 'db Election \<Rightarrow> 'db Cluster \<Rightarrow> 'db Cluster" where
  "set_node n e s = s\<lparr>nodes := (nodes s)(n := e)\<rparr>"

definition issue :: "bool \<Rightarrow> 'a \<Rightarrow> 'a set \<Rightarrow> 'a set" where
  "issue b x A = (if b then insert x A else A)"

definition claims_in :: "election_out list \<Rightarrow> CortexClaim set" where
  "claims_in outs = {c. Broadcast (MCortexClaim c) \<in> set outs}"

definition cluster_init :: "node_id set \<Rightarrow> 'db Cluster \<Rightarrow> bool" where
  "cluster_init V s \<longleftrightarrow> requests s = {} \<and> responses s = {} \<and> claims s = {} \<and>
     pending s = {} \<and> elected s = {} \<and>
     (\<forall>n. \<exists>store sentinel. nodes s n =
        (NewElection n store)\<lparr>isSentinel := sentinel, isObserver := n \<notin> V, voters := V\<rparr>)"

text \<open>
  A start is a step unless the epoch is the largest \<open>uint64\<close>, where the increment wraps to 0.
\<close>

inductive cluster_step ::
  "(election_msg \<Rightarrow> bytes option) \<Rightarrow> 'db pebble \<Rightarrow> 'db Cluster \<Rightarrow> 'db Cluster \<Rightarrow> bool"
  for marshal :: "election_msg \<Rightarrow> bytes option" and pb :: "'db pebble" where
  start: "StartElection_locked pb (nodes s n) = (e', Inr (ep, q)) \<Longrightarrow>
    epoch_of (nodes s n) \<noteq> - 1 \<Longrightarrow>
    cluster_step marshal pb s ((set_node n e' s)
      \<lparr>requests := insert \<lparr>CandidateID = n, req_Epoch = ep\<rparr> (requests s),
       pending := issue q (n, ep) (pending s)\<rparr>)"
| start_refused: "StartElection_locked pb (nodes s n) = (e', Inl err) \<Longrightarrow>
    cluster_step marshal pb s (set_node n e' s)"
| vote: "req \<in> requests s \<Longrightarrow> HandleVoteRequest pb (nodes s n) req = (e', resp) \<Longrightarrow>
    cluster_step marshal pb s ((set_node n e' s)
      \<lparr>responses := insert (CandidateID req, resp) (responses s)\<rparr>)"
| tally: "(n, resp) \<in> responses s \<Longrightarrow>
    HandleVoteResponse_locked (nodes s n) resp = (e', q) \<Longrightarrow>
    cluster_step marshal pb s ((set_node n e' s)
      \<lparr>pending := issue q (n, resp_Epoch resp) (pending s)\<rparr>)"
| promote: "(n, ep) \<in> pending s \<Longrightarrow> tryPromote marshal pb (nodes s n) ep = (e', outs) \<Longrightarrow>
    cluster_step marshal pb s ((set_node n e' s)
      \<lparr>claims := claims s \<union> claims_in outs,
       elected := issue (OnPromoted ep \<in> set outs) (n, ep) (elected s)\<rparr>)"
| claim: "c \<in> claims s \<Longrightarrow> HandleCortexClaim marshal pb (nodes s n) c = (e', outs) \<Longrightarrow>
    cluster_step marshal pb s ((set_node n e' s)\<lparr>claims := claims s \<union> claims_in outs\<rparr>)"
| reset: "cluster_step marshal pb s (set_node n (ResetCandidate (nodes s n)) s)"
| clear: "cluster_step marshal pb s (set_node n (ClearLeader (nodes s n) d) s)"
| step_down: "cluster_step marshal pb s (set_node n (StepDown (nodes s n)) s)"

inductive cluster_reachable ::
  "(election_msg \<Rightarrow> bytes option) \<Rightarrow> 'db pebble \<Rightarrow> node_id set \<Rightarrow> 'db Cluster \<Rightarrow> bool"
  for marshal :: "election_msg \<Rightarrow> bytes option" and pb :: "'db pebble" and V :: "node_id set" where
  init: "cluster_init V s \<Longrightarrow> cluster_reachable marshal pb V s"
| step: "cluster_reachable marshal pb V s \<Longrightarrow> cluster_step marshal pb s t \<Longrightarrow>
    cluster_reachable marshal pb V t"

section \<open>Invariant\<close>

text \<open>\<open>v\<close> has voted for \<open>c\<close> in epoch \<open>ep\<close>: a granting response is on the network, or \<open>c\<close> is
  \<open>v\<close> itself and started an election in \<open>ep\<close>.\<close>

definition has_voted :: "'db Cluster \<Rightarrow> node_id \<Rightarrow> u64 \<Rightarrow> node_id \<Rightarrow> bool" where
  "has_voted s v ep c \<longleftrightarrow>
     (c, \<lparr>VoterID = v, resp_Epoch = ep, Granted = True\<rparr>) \<in> responses s \<or>
     (v = c \<and> \<lparr>CandidateID = c, req_Epoch = ep\<rparr> \<in> requests s)"

definition quorum_for :: "node_id set \<Rightarrow> 'db Cluster \<Rightarrow> node_id \<Rightarrow> u64 \<Rightarrow> bool" where
  "quorum_for V s c ep \<longleftrightarrow>
     (\<exists>Q \<subseteq> V. card V div 2 + 1 \<le> card Q \<and> (\<forall>v \<in> Q. has_voted s v ep c))"

definition ids_ok :: "node_id set \<Rightarrow> 'db Cluster \<Rightarrow> bool" where
  "ids_ok V s \<longleftrightarrow> (\<forall>n. localNodeID (nodes s n) = n \<and> voters (nodes s n) = V \<and>
     (isObserver (nodes s n) \<longleftrightarrow> n \<notin> V))"

text \<open>A vote is remembered as long as its epoch is the voter's current one.\<close>

definition votes_remembered :: "'db Cluster \<Rightarrow> bool" where
  "votes_remembered s \<longleftrightarrow> (\<forall>v ep c. has_voted s v ep c \<longrightarrow>
     ep \<le> epoch_of (nodes s v) \<and>
     (ep = epoch_of (nodes s v) \<longrightarrow> votedFor (nodes s v) ep = Some c))"

definition one_vote :: "'db Cluster \<Rightarrow> bool" where
  "one_vote s \<longleftrightarrow> (\<forall>v ep c c'. has_voted s v ep c \<longrightarrow> has_voted s v ep c' \<longrightarrow> c = c')"

definition tallies_ok :: "node_id set \<Rightarrow> 'db Cluster \<Rightarrow> bool" where
  "tallies_ok V s \<longleftrightarrow> (\<forall>c ep S v. votes (nodes s c) ep = Some S \<longrightarrow> v \<in> S \<longrightarrow>
     v \<in> V \<and> has_voted s v ep c)"

definition wins_ok :: "node_id set \<Rightarrow> 'db Cluster \<Rightarrow> bool" where
  "wins_ok V s \<longleftrightarrow> (\<forall>c ep. (c, ep) \<in> pending s \<union> elected s \<longrightarrow> quorum_for V s c ep)"

definition leaders_ok :: "'db Cluster \<Rightarrow> bool" where
  "leaders_ok s \<longleftrightarrow> (\<forall>n. state (nodes s n) = ElectionLeader \<longrightarrow>
     (n, candidateEpoch (nodes s n)) \<in> elected s)"

definition cluster_inv :: "node_id set \<Rightarrow> 'db Cluster \<Rightarrow> bool" where
  "cluster_inv V s \<longleftrightarrow> ids_ok V s \<and> votes_remembered s \<and> one_vote s \<and> tallies_ok V s \<and>
     wins_ok V s \<and> leaders_ok s"

lemmas inv_defs = cluster_inv_def ids_ok_def votes_remembered_def one_vote_def tallies_ok_def
  wins_ok_def leaders_ok_def

lemma invD:
  assumes "cluster_inv V s"
  shows inv_ids: "localNodeID (nodes s n) = n" "voters (nodes s n) = V"
      "isObserver (nodes s n) \<longleftrightarrow> n \<notin> V"
    and inv_remembered: "votes_remembered s" and inv_one: "one_vote s"
    and inv_tallies: "tallies_ok V s" and inv_wins: "wins_ok V s" and inv_leaders: "leaders_ok s"
  using assms by (auto simp: cluster_inv_def ids_ok_def)

lemma rememberedD:
  "votes_remembered s \<Longrightarrow> has_voted s v ep c \<Longrightarrow> ep \<le> epoch_of (nodes s v)"
  "votes_remembered s \<Longrightarrow> has_voted s v ep c \<Longrightarrow> ep = epoch_of (nodes s v) \<Longrightarrow>
    votedFor (nodes s v) ep = Some c"
  by (auto simp: votes_remembered_def)

lemma talliesD:
  "tallies_ok V s \<Longrightarrow> votes (nodes s c) ep = Some S \<Longrightarrow> v \<in> S \<Longrightarrow> v \<in> V"
  "tallies_ok V s \<Longrightarrow> votes (nodes s c) ep = Some S \<Longrightarrow> v \<in> S \<Longrightarrow> has_voted s v ep c"
  by (auto simp: tallies_ok_def)

lemma set_node_simps [simp]:
  "nodes (set_node n e s) = (nodes s)(n := e)"
  "requests (set_node n e s) = requests s"
  "responses (set_node n e s) = responses s"
  "claims (set_node n e s) = claims s"
  "pending (set_node n e s) = pending s"
  "elected (set_node n e s) = elected s"
  by (simp_all add: set_node_def)

lemma has_voted_cong:
  "requests t = requests s \<Longrightarrow> responses t = responses s \<Longrightarrow> has_voted t = has_voted s"
  by (intro ext) (simp add: has_voted_def)

lemma has_voted_mono:
  "has_voted s v ep c \<Longrightarrow> requests s \<subseteq> requests t \<Longrightarrow> responses s \<subseteq> responses t \<Longrightarrow>
    has_voted t v ep c"
  by (auto simp: has_voted_def)

lemma quorum_for_mono:
  "quorum_for V s c ep \<Longrightarrow> requests s \<subseteq> requests t \<Longrightarrow> responses s \<subseteq> responses t \<Longrightarrow>
    quorum_for V t c ep"
  unfolding quorum_for_def by (meson has_voted_mono)

lemma cluster_init_inv: "cluster_init V s \<Longrightarrow> cluster_inv V s"
  unfolding cluster_inv_def
proof (intro conjI)
  assume init: "cluster_init V s"
  then have node: "\<exists>store sentinel. nodes s n =
      (NewElection n store)\<lparr>isSentinel := sentinel, isObserver := n \<notin> V, voters := V\<rparr>" for n
    by (simp add: cluster_init_def)
  have none: "\<not> has_voted s v ep c" for v ep c
    using init by (simp add: has_voted_def cluster_init_def)
  have fields: "localNodeID (nodes s n) = n" "voters (nodes s n) = V"
    "isObserver (nodes s n) \<longleftrightarrow> n \<notin> V" "votes (nodes s n) = Map.empty"
    "state (nodes s n) = ElectionIdle" for n
    using node[of n] by (auto simp: NewElection_def)
  show "ids_ok V s" "votes_remembered s" "one_vote s" "tallies_ok V s" "leaders_ok s"
    using none fields by (simp_all add: inv_defs)
  show "wins_ok V s" using init by (simp add: wins_ok_def cluster_init_def)
qed

section \<open>Preservation\<close>

text \<open>
  One node moves to \<open>e'\<close>, the message sets grow, every new vote is a vote of the moving node
  in its current epoch that it remembers, and every new win has a quorum.
\<close>

lemma inv_update:
  assumes inv: "cluster_inv V s"
    and nodes: "nodes t = (nodes s)(n := e')"
    and mono: "requests s \<subseteq> requests t" "responses s \<subseteq> responses t" "elected s \<subseteq> elected t"
    and ids: "localNodeID e' = n" "voters e' = V" "isObserver e' \<longleftrightarrow> n \<notin> V"
    and epoch_mono: "epoch_of (nodes s n) \<le> epoch_of e'"
    and keep: "\<And>c. epoch_of e' = epoch_of (nodes s n) \<Longrightarrow>
        votedFor (nodes s n) (epoch_of e') = Some c \<Longrightarrow> votedFor e' (epoch_of e') = Some c"
    and new: "\<And>v ep c. has_voted t v ep c \<Longrightarrow>
        has_voted s v ep c \<or> (v = n \<and> ep = epoch_of e' \<and> votedFor e' ep = Some c)"
    and tallies: "\<And>ep S v. votes e' ep = Some S \<Longrightarrow> v \<in> S \<Longrightarrow> v \<in> V \<and> has_voted t v ep n"
    and wins: "\<And>c ep. (c, ep) \<in> pending t \<union> elected t \<Longrightarrow>
        (c, ep) \<in> pending s \<union> elected s \<or> quorum_for V t c ep"
    and leader: "state e' = ElectionLeader \<Longrightarrow> (n, candidateEpoch e') \<in> elected t"
  shows "cluster_inv V t"
proof -
  have old: "ep \<le> epoch_of (nodes s v)"
    "ep = epoch_of (nodes s v) \<Longrightarrow> votedFor (nodes s v) ep = Some c"
    if "has_voted s v ep c" for v ep c
    using inv that by (auto simp: cluster_inv_def votes_remembered_def)
  have old_kept: "ep \<le> epoch_of (nodes t v) \<and>
      (ep = epoch_of (nodes t v) \<longrightarrow> votedFor (nodes t v) ep = Some c)"
    if h: "has_voted s v ep c" for v ep c
  proof (cases "v = n")
    case True
    then have "epoch_of (nodes t v) = epoch_of e'" by (simp add: nodes)
    moreover have "votedFor e' ep = Some c" if "ep = epoch_of e'"
      using that True old[OF h] epoch_mono keep by auto
    ultimately show ?thesis
      using True old(1)[OF h] epoch_mono by (auto simp: nodes)
  qed (use old[OF h] in \<open>simp add: nodes\<close>)
  have rem: "votes_remembered t"
    unfolding votes_remembered_def
  proof (intro allI impI)
    fix v ep c assume "has_voted t v ep c"
    then consider "has_voted s v ep c" | "v = n" "ep = epoch_of e'" "votedFor e' ep = Some c"
      using new by blast
    then show "ep \<le> epoch_of (nodes t v) \<and>
        (ep = epoch_of (nodes t v) \<longrightarrow> votedFor (nodes t v) ep = Some c)"
    proof cases
      case 1
      then show ?thesis by (rule old_kept)
    qed (simp add: nodes)
  qed
  have one: "one_vote t"
    unfolding one_vote_def
  proof (intro allI impI)
    fix v ep c c' assume h: "has_voted t v ep c" "has_voted t v ep c'"
    show "c = c'"
    proof (cases "has_voted s v ep c \<and> has_voted s v ep c'")
      case True
      with inv show ?thesis by (auto simp: cluster_inv_def one_vote_def)
    next
      case False
      with h new have "v = n" "ep = epoch_of e'" by blast+
      then have "ep = epoch_of (nodes t v)" by (simp add: nodes)
      with rememberedD(2)[OF rem h(1)] rememberedD(2)[OF rem h(2)] show ?thesis by simp
    qed
  qed
  have "v \<in> V \<and> has_voted t v ep c" if "votes (nodes t c) ep = Some S" "v \<in> S" for c ep S v
  proof (cases "c = n")
    case False
    then have "votes (nodes s c) ep = Some S" using that by (simp add: nodes)
    with that(2) talliesD[OF inv_tallies[OF inv]] show ?thesis
      using has_voted_mono[OF _ mono(1,2)] by blast
  qed (use that tallies in \<open>auto simp: nodes\<close>)
  then have "tallies_ok V t" by (simp add: tallies_ok_def)
  moreover have "wins_ok V t"
    unfolding wins_ok_def using inv_wins[OF inv] wins quorum_for_mono[OF _ mono(1,2)]
    by (metis wins_ok_def)
  moreover have "leaders_ok t" "ids_ok V t"
    using inv mono(3) leader ids by (auto simp: cluster_inv_def leaders_ok_def ids_ok_def nodes)
  ultimately show ?thesis
    using rem one by (simp add: cluster_inv_def)
qed

lemma tally_insert:
  "((votes e)(ep \<mapsto> insert w (votes_at e ep))) x = Some S \<Longrightarrow> v \<in> S \<Longrightarrow>
    (x = ep \<and> v = w) \<or> (\<exists>S'. votes e x = Some S' \<and> v \<in> S')"
  by (auto simp: votes_at_def split: if_splits option.splits)

lemma tally_kept:
  assumes "cluster_inv V s" "quiet (nodes s n) e'"
    and "requests s \<subseteq> requests t" "responses s \<subseteq> responses t"
    and "votes e' x = Some S" "v \<in> S"
  shows "v \<in> V \<and> has_voted t v x n"
proof -
  have "votes (nodes s n) x = Some S" using assms(2,5) by (simp add: quiet_def)
  with assms(6) talliesD[OF inv_tallies[OF assms(1)]] show ?thesis
    using has_voted_mono[OF _ assms(3,4)] by blast
qed

lemma inv_quiet:
  assumes inv: "cluster_inv V s" and q: "quiet (nodes s n) e'"
    and t: "nodes t = (nodes s)(n := e')" "requests t = requests s" "responses t = responses s"
      "pending t = pending s" "elected t = elected s"
  shows "cluster_inv V t"
proof (rule inv_update[OF inv t(1)])
  show "\<And>v ep c. has_voted t v ep c \<Longrightarrow>
        has_voted s v ep c \<or> (v = n \<and> ep = epoch_of e' \<and> votedFor e' ep = Some c)"
    using has_voted_cong[OF t(2,3)] by simp
  show "\<And>ep S v. votes e' ep = Some S \<Longrightarrow> v \<in> S \<Longrightarrow> v \<in> V \<and> has_voted t v ep n"
    by (rule tally_kept[OF inv q]) (simp_all add: t)
  show "state e' = ElectionLeader \<Longrightarrow> (n, candidateEpoch e') \<in> elected t"
    using inv_leaders[OF inv] q t by (auto simp: quiet_def leaders_ok_def)
qed (use inv_ids[OF inv] q t in \<open>auto simp: quiet_def\<close>)

lemma finite_tally:
  "finite V \<Longrightarrow> cluster_inv V s \<Longrightarrow> votes_at (nodes s n) ep \<subseteq> V"
  by (auto simp: cluster_inv_def tallies_ok_def votes_at_def split: option.splits)

text \<open>A tally that reaches the quorum is a quorum of votes.\<close>

lemma tally_quorum:
  assumes "votes e' ep = Some S" "card V div 2 + 1 \<le> card S"
    and "\<And>v. v \<in> S \<Longrightarrow> v \<in> V \<and> has_voted t v ep n"
  shows "quorum_for V t n ep"
  using assms by (auto simp: quorum_for_def)

lemma inv_start:
  assumes inv: "cluster_inv V s"
    and st: "StartElection_locked pb (nodes s n) = (e', Inr (ep, q))"
    and no_wrap: "epoch_of (nodes s n) \<noteq> - 1"
    and t: "t = (set_node n e' s)\<lparr>requests := insert \<lparr>CandidateID = n, req_Epoch = ep\<rparr> (requests s),
       pending := issue q (n, ep) (pending s)\<rparr>"
  shows "cluster_inv V t"
proof -
  let ?e = "nodes s n"
  note eff = StartElection_locked_Inr[OF st]
  have ids: "localNodeID ?e = n" "voters ?e = V" "isObserver ?e \<longleftrightarrow> n \<notin> V"
    using inv_ids[OF inv] by auto
  with eff have nV: "n \<in> V" by blast
  have less: "epoch_of ?e < ep"
    using eff u64_Suc_gt[OF no_wrap] by simp
  have self: "has_voted t n ep n" by (simp add: has_voted_def t)
  have tallies: "v \<in> V \<and> has_voted t v x n" if vS: "votes e' x = Some S" "v \<in> S" for x S v
  proof (cases "x = ep \<and> v = n")
    case False
    have "votes e' = (votes ?e)(ep \<mapsto> insert n (votes_at ?e ep))" using eff ids by simp
    with False obtain S' where "votes ?e x = Some S'" "v \<in> S'"
      using tally_insert[of ?e ep n x S v] vS by auto
    then show ?thesis
      by (intro tally_kept[OF inv quiet_refl]) (auto simp: t)
  qed (use self nV in auto)
  show ?thesis
  proof (rule inv_update[OF inv, of t n e'])
    show "\<And>v x c. has_voted t v x c \<Longrightarrow>
        has_voted s v x c \<or> (v = n \<and> x = epoch_of e' \<and> votedFor e' x = Some c)"
      using eff ids by (auto simp: has_voted_def t)
    show "\<And>c x. (c, x) \<in> pending t \<union> elected t \<Longrightarrow>
        (c, x) \<in> pending s \<union> elected s \<or> quorum_for V t c x"
    proof -
      fix c x assume "(c, x) \<in> pending t \<union> elected t"
      then consider "(c, x) \<in> pending s \<union> elected s" | "c = n" "x = ep" q
        by (auto simp: t issue_def split: if_splits)
      then show "(c, x) \<in> pending s \<union> elected s \<or> quorum_for V t c x"
      proof cases
        case 2
        let ?S = "insert n (votes_at ?e ep)"
        have S: "votes e' ep = Some ?S" and "card V div 2 + 1 \<le> card ?S"
          using 2 eff ids by (auto simp: quorumLocked_def)
        with tally_quorum[of e' ep ?S V t n] tallies[OF S] 2 show ?thesis by auto
      qed blast
    qed
  qed (use eff ids less tallies in \<open>auto simp: t\<close>)
qed

lemma inv_vote:
  assumes inv: "cluster_inv V s" and rel: "pebble_reliable pb"
    and h: "HandleVoteRequest pb (nodes s n) req = (e', resp)"
    and t: "t = (set_node n e' s)\<lparr>responses := insert (CandidateID req, resp) (responses s)\<rparr>"
  shows "cluster_inv V t"
proof -
  let ?e = "nodes s n"
  note eff = HandleVoteRequest_effect[OF rel h]
  have ids: "localNodeID ?e = n" "voters ?e = V" "isObserver ?e \<longleftrightarrow> n \<notin> V"
    using inv_ids[OF inv] by auto
  show ?thesis
  proof (rule inv_update[OF inv, of t n e'])
    show "\<And>v x c. has_voted t v x c \<Longrightarrow>
        has_voted s v x c \<or> (v = n \<and> x = epoch_of e' \<and> votedFor e' x = Some c)"
      using eff ids by (cases resp) (auto simp: has_voted_def t)
    show "\<And>x S v. votes e' x = Some S \<Longrightarrow> v \<in> S \<Longrightarrow> v \<in> V \<and> has_voted t v x n"
      by (rule tally_kept[OF inv]) (use eff in \<open>auto simp: t\<close>)
    show "state e' = ElectionLeader \<Longrightarrow> (n, candidateEpoch e') \<in> elected t"
      using inv_leaders[OF inv] eff by (auto simp: t quiet_def leaders_ok_def)
  qed (use eff ids in \<open>auto simp: t quiet_def\<close>)
qed

lemma inv_tally:
  assumes inv: "cluster_inv V s" and r: "(n, resp) \<in> responses s"
    and h: "HandleVoteResponse_locked (nodes s n) resp = (e', q)"
    and t: "t = (set_node n e' s)\<lparr>pending := issue q (n, resp_Epoch resp) (pending s)\<rparr>"
  shows "cluster_inv V t"
  using HandleVoteResponse_locked_effect[OF h]
proof (elim disjE conjE)
  assume "e' = nodes s n" "\<not> q"
  then show ?thesis
    by (intro inv_quiet[OF inv, of n e' t]) (auto simp: t issue_def)
next
  let ?e = "nodes s n" and ?ep = "resp_Epoch resp"
  let ?S = "insert (VoterID resp) (votes_at ?e ?ep)"
  assume g: "Granted resp" and v: "VoterID resp \<in> voters ?e" and cand: "state ?e = ElectionCandidate"
    and ep: "?ep = candidateEpoch ?e"
    and e': "e' = ?e\<lparr>votes := (votes ?e)(?ep \<mapsto> ?S)\<rparr>"
    and q: "q = (quorumLocked ?e \<le> card ?S)"
  have ids: "localNodeID ?e = n" "voters ?e = V" "isObserver ?e \<longleftrightarrow> n \<notin> V"
    using inv_ids[OF inv] by auto
  have hv: "has_voted t = has_voted s" by (rule has_voted_cong) (simp_all add: t)
  have mine: "has_voted t (VoterID resp) ?ep n"
    using r g by (cases resp) (auto simp: hv has_voted_def)
  have old: "v \<in> V \<and> has_voted t v x n" if "votes ?e x = Some S" "v \<in> S" for x S v
    using inv that by (auto simp: cluster_inv_def tallies_ok_def hv)
  have tallies: "w \<in> V \<and> has_voted t w x n" if "votes e' x = Some S" "w \<in> S" for x S w
  proof (cases "x = ?ep \<and> w = VoterID resp")
    case True
    with mine v ids show ?thesis by auto
  next
    case False
    then have "\<exists>S'. votes ?e x = Some S' \<and> w \<in> S'"
      using that False tally_insert[of ?e ?ep "VoterID resp" x S w] by (auto simp: e')
    with old show ?thesis by blast
  qed
  have win: "quorum_for V t n ?ep" if q
    using that q ids tallies[of ?ep ?S] tally_quorum[of e' ?ep ?S V t n]
    by (auto simp: e' quorumLocked_def)
  show ?thesis
    by (rule inv_update[OF inv, of t n e'])
      (use ids cand tallies win hv in \<open>auto simp: t e' issue_def split: if_splits\<close>)
qed

lemma inv_promote:
  assumes inv: "cluster_inv V s" and pend: "(n, ep) \<in> pending s"
    and h: "tryPromote marshal pb (nodes s n) ep = (e', outs)"
    and t: "t = (set_node n e' s)\<lparr>claims := claims s \<union> claims_in outs,
       elected := issue (OnPromoted ep \<in> set outs) (n, ep) (elected s)\<rparr>"
  shows "cluster_inv V t"
  using tryPromote_effect[OF h]
proof (elim disjE conjE exE)
  assume "outs = []" "quiet (nodes s n) e'"
  then show ?thesis
    by (intro inv_quiet[OF inv, of n e' t]) (auto simp: t issue_def)
next
  fix st
  let ?e = "nodes s n"
  assume eff: "candidateEpoch ?e = ep" "epoch_of ?e = ep" "es_current st = ep"
    "e' = ?e\<lparr>epochStore := st, state := ElectionLeader, currentLeader := localNodeID ?e,
         votes := drop_below ep (votes ?e), votedFor := drop_below ep (votedFor ?e)\<rparr>"
    and outs: "outs = broadcastClaim marshal e' ep @ [OnPromoted ep]"
  have ids: "localNodeID ?e = n" "voters ?e = V" "isObserver ?e \<longleftrightarrow> n \<notin> V"
    using inv_ids[OF inv] by auto
  have hv: "has_voted t = has_voted s" by (rule has_voted_cong) (simp_all add: t)
  have win: "quorum_for V s n ep"
    using inv pend by (auto simp: cluster_inv_def wins_ok_def)
  then have win': "quorum_for V t n ep"
    by (simp add: quorum_for_def hv)
  have tallies: "v \<in> V \<and> has_voted t v x n" if "votes e' x = Some S" "v \<in> S" for x S v
    using that inv by (auto simp: eff hv drop_below_Some cluster_inv_def tallies_ok_def)
  show ?thesis
    by (rule inv_update[OF inv, of t n e'])
      (use ids eff hv tallies win' outs in \<open>auto simp: t issue_def split: if_splits\<close>)
qed

lemma cluster_step_inv:
  assumes rel: "pebble_reliable pb" and inv: "cluster_inv V s"
    and step: "cluster_step marshal pb s t"
  shows "cluster_inv V t"
  using step
proof cases
  case (start n e' ep q)
  then show ?thesis by (intro inv_start[OF inv]) auto
next
  case (start_refused n e' err)
  then have "e' = nodes s n" using StartElection_locked_Inl[OF rel] by blast
  with start_refused show ?thesis by (intro inv_quiet[OF inv, of n e']) auto
next
  case (vote req n e' resp)
  then show ?thesis by (intro inv_vote[OF inv rel]) auto
next
  case (tally n resp e' q)
  then show ?thesis by (intro inv_tally[OF inv]) auto
next
  case (promote n ep e' outs)
  then show ?thesis by (intro inv_promote[OF inv]) auto
next
  case (claim c n e' outs)
  then have "quiet (nodes s n) e'"
    using quiet_HandleCortexClaim[OF rel, of "nodes s n" marshal c] by simp
  with claim show ?thesis by (intro inv_quiet[OF inv, of n e']) auto
next
  case (reset n)
  then show ?thesis by (intro inv_quiet[OF inv quiet_ResetCandidate]) auto
next
  case (clear n d)
  then show ?thesis by (intro inv_quiet[OF inv quiet_ClearLeader]) auto
next
  case (step_down n)
  then show ?thesis by (intro inv_quiet[OF inv quiet_StepDown]) auto
qed

lemma cluster_reachable_inv:
  assumes "pebble_reliable pb"
  shows "cluster_reachable marshal pb V s \<Longrightarrow> cluster_inv V s"
  by (induction rule: cluster_reachable.induct)
    (auto intro: cluster_init_inv cluster_step_inv[OF assms])

end
