(* ===== verification/Election_Props.thy ===== *)
theory Election_Props
  imports Election_Safety
begin

text \<open>
  The properties of the election: safety over the reachable clusters, the immutability of a
  vote, the monotone epoch, the rule that keeps one of two duelling leaders, and the two ways
  in which the code as written can vote twice in an epoch (a failed epoch write that is
  ignored, and a restart that forgets the vote).  The concrete clusters and nodes are the
  inputs of the witnesses.
\<close>

section \<open>Single calls on a node\<close>

datatype election_call =
    CallStart
  | CallVoteRequest VoteRequest
  | CallVoteResponse VoteResponse
  | CallCortexClaim CortexClaim
  | CallResetCandidate
  | CallClearLeader node_id
  | CallStepDown
  | CallRegister node_id
  | CallUnregister node_id

fun election_call_step ::
  "(election_msg \<Rightarrow> bytes option) \<Rightarrow> 'db pebble \<Rightarrow> 'db Election \<Rightarrow> election_call \<Rightarrow> 'db Election" where
  "election_call_step marshal pb e CallStart = fst (StartElection marshal pb e)"
| "election_call_step marshal pb e (CallVoteRequest r) = fst (HandleVoteRequest pb e r)"
| "election_call_step marshal pb e (CallVoteResponse r) = fst (HandleVoteResponse marshal pb e r)"
| "election_call_step marshal pb e (CallCortexClaim c) = fst (HandleCortexClaim marshal pb e c)"
| "election_call_step marshal pb e CallResetCandidate = ResetCandidate e"
| "election_call_step marshal pb e (CallClearLeader d) = ClearLeader e d"
| "election_call_step marshal pb e CallStepDown = StepDown e"
| "election_call_step marshal pb e (CallRegister n) = RegisterVoter e n"
| "election_call_step marshal pb e (CallUnregister n) = UnregisterVoter e n"

text \<open>The votes a node remembers are for epochs it has reached.\<close>

definition votes_reached :: "'db Election \<Rightarrow> bool" where
  "votes_reached e \<longleftrightarrow> (\<forall>ep c. votedFor e ep = Some c \<longrightarrow> ep \<le> epoch_of e)"

text \<open>\<open>keeps e e'\<close>: every remembered vote is still remembered, or its epoch is over and the
  entry deleted, and no vote is added for an epoch that is over.\<close>

definition keeps :: "'db Election \<Rightarrow> 'db Election \<Rightarrow> bool" where
  "keeps e e' \<longleftrightarrow> epoch_of e \<le> epoch_of e' \<and> votes_reached e' \<and>
     (\<forall>ep c. votedFor e ep = Some c \<longrightarrow>
        votedFor e' ep = Some c \<or> (votedFor e' ep = None \<and> ep < epoch_of e')) \<and>
     (\<forall>ep. ep < epoch_of e \<longrightarrow> votedFor e ep = None \<longrightarrow> votedFor e' ep = None)"

lemma keepsD:
  assumes "keeps e e'"
  shows keeps_epoch: "epoch_of e \<le> epoch_of e'" and keeps_reached: "votes_reached e'"
    and keeps_Some: "votedFor e ep = Some c \<Longrightarrow>
      votedFor e' ep = Some c \<or> (votedFor e' ep = None \<and> ep < epoch_of e')"
    and keeps_None: "ep < epoch_of e \<Longrightarrow> votedFor e ep = None \<Longrightarrow> votedFor e' ep = None"
  using assms by (auto simp: keeps_def)

lemma keeps_trans:
  assumes a: "keeps e1 e2" and b: "keeps e2 e3"
  shows "keeps e1 e3"
  unfolding keeps_def
proof (intro conjI allI impI)
  show "epoch_of e1 \<le> epoch_of e3" using keeps_epoch[OF a] keeps_epoch[OF b] by simp
  show "votes_reached e3" by (rule keeps_reached[OF b])
next
  fix ep c assume "votedFor e1 ep = Some c"
  from keeps_Some[OF a this]
  show "votedFor e3 ep = Some c \<or> (votedFor e3 ep = None \<and> ep < epoch_of e3)"
    using keeps_Some[OF b] keeps_None[OF b] keeps_epoch[OF b] by (meson order_less_le_trans)
next
  fix ep assume "ep < epoch_of e1" "votedFor e1 ep = None"
  then show "votedFor e3 ep = None"
    using keeps_None[OF a] keeps_None[OF b] keeps_epoch[OF a] by (meson order_less_le_trans)
qed

lemma keeps_same:
  "votes_reached e \<Longrightarrow> votedFor e' = votedFor e \<Longrightarrow> epochStore e' = epochStore e \<Longrightarrow> keeps e e'"
  by (simp add: keeps_def votes_reached_def)

lemma keeps_tryPromote:
  assumes "votes_reached e"
  shows "keeps e (fst (tryPromote marshal pb e ep))"
proof -
  obtain st r where cas: "CompareAndSet pb (epochStore e) ep ep = (st, r)"
    by fastforce
  then have "es_current st = epoch_of e" and "r = Inr True \<Longrightarrow> epoch_of e = ep"
    by (auto simp: CompareAndSet_def split: if_splits sum.splits)
  with assms cas show ?thesis
    by (auto simp: tryPromote_def keeps_def votes_reached_def drop_below_def Let_def
        split: sum.split bool.split)
qed

lemma keeps_StartElection_locked:
  assumes "votes_reached e" "epoch_of e \<noteq> - 1"
  shows "keeps e (fst (StartElection_locked pb e))"
proof -
  obtain st r where cas: "CompareAndSet pb (epochStore e) (epoch_of e) (epoch_of e + 1) = (st, r)"
    by fastforce
  show ?thesis
  proof (cases "r = Inr True")
    case True
    with cas have st: "es_current st = epoch_of e + 1" by (auto dest: CompareAndSet_True)
    have lt: "epoch_of e < epoch_of e + 1" by (rule u64_Suc_gt[OF assms(2)])
    have old: "ep \<le> epoch_of e" if "votedFor e ep = Some c" for ep c
      using assms(1) that by (simp add: votes_reached_def)
    have new: "ep \<noteq> epoch_of e + 1" "ep \<le> epoch_of e + 1" if "votedFor e ep = Some c" for ep c
      using old[OF that] lt by auto
    show ?thesis
      using True cas st lt old new assms(1)
      by (auto simp: StartElection_locked_def Load_def Let_def keeps_def votes_reached_def)
  next
    case False
    with cas have "es_current st = epoch_of e"
      by (auto simp: CompareAndSet_def split: if_splits sum.splits)
    with False cas assms(1) show ?thesis
      by (auto simp: StartElection_locked_def Load_def Let_def keeps_def votes_reached_def
          split: sum.splits bool.splits)
  qed
qed

lemma keeps_StartElection:
  assumes "votes_reached e" "epoch_of e \<noteq> - 1"
  shows "keeps e (fst (StartElection marshal pb e))"
proof -
  obtain e1 r where l: "StartElection_locked pb e = (e1, r)" by fastforce
  with keeps_StartElection_locked[OF assms, of pb] have k: "keeps e e1" by simp
  then have "votes_reached e1" by (simp add: keeps_def)
  then have "keeps e (fst (tryPromote marshal pb e1 ep))" for ep
    using k keeps_tryPromote keeps_trans by blast
  with k l show ?thesis
    by (auto simp: StartElection_def Let_def split: sum.split option.split prod.split)
      (metis fst_conv)+
qed

lemma HandleVoteRequest_cases:
  assumes "pebble_reliable pb"
  obtains "fst (HandleVoteRequest pb e req) = e"
  | st e1 where "epoch_of e \<le> req_Epoch req" "es_current st = req_Epoch req"
      "votedFor e1 = votedFor e \<or> (votedFor e (req_Epoch req) = None \<and>
         votedFor e1 = (votedFor e)(req_Epoch req \<mapsto> CandidateID req))"
      "epochStore e1 = st" "fst (HandleVoteRequest pb e req) = e1"
proof (cases "isObserver e \<or> req_Epoch req < epoch_of e")
  case True
  then show ?thesis using that(1) by (auto simp: HandleVoteRequest_def Load_def Let_def)
next
  case False
  let ?e1 = "fst (HandleVoteRequest pb e req)"
  have "es_current (epochStore ?e1) = req_Epoch req"
    using False Advance_reliable[OF assms, of "epochStore e" "req_Epoch req"]
    by (auto simp: HandleVoteRequest_def Load_def Let_def max_def split: option.split)
  moreover have "votedFor ?e1 = votedFor e \<or> (votedFor e (req_Epoch req) = None \<and>
      votedFor ?e1 = (votedFor e)(req_Epoch req \<mapsto> CandidateID req))"
    using False by (auto simp: HandleVoteRequest_def Load_def Let_def split: option.split)
  ultimately show ?thesis
    using False by (intro that(2)[of "epochStore ?e1" ?e1]) auto
qed

lemma keeps_HandleVoteRequest:
  assumes "pebble_reliable pb" "votes_reached e"
  shows "keeps e (fst (HandleVoteRequest pb e req))"
proof (rule HandleVoteRequest_cases[OF assms(1), of e req])
  assume "fst (HandleVoteRequest pb e req) = e"
  with keeps_same[OF assms(2)] show ?thesis by simp
next
  fix st e1
  assume h: "epoch_of e \<le> req_Epoch req" "es_current st = req_Epoch req"
    "votedFor e1 = votedFor e \<or> (votedFor e (req_Epoch req) = None \<and>
       votedFor e1 = (votedFor e)(req_Epoch req \<mapsto> CandidateID req))"
    "epochStore e1 = st" "fst (HandleVoteRequest pb e req) = e1"
  have "ep \<le> req_Epoch req" if "votedFor e ep = Some c" for ep c
    using assms(2) that h(1) by (auto simp: votes_reached_def intro: order_trans)
  with h show ?thesis
    by (auto simp: keeps_def votes_reached_def split: if_splits)
qed

lemma keeps_HandleCortexClaim:
  assumes "pebble_reliable pb" "votes_reached e"
  shows "keeps e (fst (HandleCortexClaim marshal pb e c))"
proof (cases "fst (HandleCortexClaim marshal pb e c) = e")
  case True
  with keeps_same[OF assms(2)] show ?thesis by simp
next
  case False
  let ?e1 = "fst (HandleCortexClaim marshal pb e c)"
  have h: "epoch_of e \<le> claim_Epoch c" "epoch_of ?e1 = claim_Epoch c"
    "votedFor ?e1 = drop_below (claim_Epoch c) (votedFor e)"
    using False Advance_reliable[OF assms(1), of "epochStore e" "claim_Epoch c"]
    by (auto simp: HandleCortexClaim_def Load_def Let_def max_def not_less split: if_splits)
  have "ep \<le> claim_Epoch c" if "votedFor e ep = Some x" for ep x
    using assms(2) that h(1) by (auto simp: votes_reached_def intro: order_trans)
  with h show ?thesis
    by (force simp: keeps_def votes_reached_def drop_below_def not_less)
qed

lemma keeps_HandleVoteResponse:
  assumes "votes_reached e"
  shows "keeps e (fst (HandleVoteResponse marshal pb e r))"
proof -
  obtain e1 q where l: "HandleVoteResponse_locked e r = (e1, q)" by fastforce
  then have "votedFor e1 = votedFor e" "epochStore e1 = epochStore e"
    using HandleVoteResponse_locked_effect[OF l] by auto
  then have "keeps e e1" by (rule keeps_same[OF assms])
  moreover have "keeps e (fst (tryPromote marshal pb e1 ep))" for ep
    using keeps_trans[OF \<open>keeps e e1\<close> keeps_tryPromote] keeps_reached[OF \<open>keeps e e1\<close>] by blast
  ultimately show ?thesis
    using l by (simp add: HandleVoteResponse_def)
qed

lemma keeps_step:
  assumes "pebble_reliable pb" "votes_reached e" "epoch_of e \<noteq> - 1"
  shows "keeps e (election_call_step marshal pb e c)"
proof (cases c)
  case CallResetCandidate
  then show ?thesis using keeps_same[OF assms(2)] by (simp add: ResetCandidate_def)
next
  case CallClearLeader
  then show ?thesis using keeps_same[OF assms(2)] by (simp add: ClearLeader_def Let_def)
next
  case CallStepDown
  then show ?thesis using keeps_same[OF assms(2)] by (simp add: StepDown_def Let_def)
next
  case (CallRegister n)
  then show ?thesis using keeps_same[OF assms(2)] by (simp add: RegisterVoter_def)
next
  case (CallUnregister n)
  then show ?thesis using keeps_same[OF assms(2)] by (simp add: UnregisterVoter_def)
qed (use assms keeps_StartElection keeps_HandleVoteRequest keeps_HandleVoteResponse
      keeps_HandleCortexClaim in auto)

section \<open>Concrete nodes and clusters\<close>

definition demo_node :: "node_id set \<Rightarrow> node_id \<Rightarrow> (bytes \<times> bytes) list Election" where
  "demo_node V n = (NewElection n \<lparr>es_db = [], es_current = 0\<rparr>)
     \<lparr>isObserver := n \<notin> V, voters := V\<rparr>"

definition demo_V :: "node_id set" where
  "demo_V = {''a'', ''b'', ''c''}"

definition demo_req :: VoteRequest where
  "demo_req = \<lparr>CandidateID = ''a'', req_Epoch = 1\<rparr>"

definition demo_resp :: VoteResponse where
  "demo_resp = \<lparr>VoterID = ''b'', resp_Epoch = 1, Granted = True\<rparr>"

definition demo0 :: "(bytes \<times> bytes) list Cluster" where
  "demo0 = \<lparr>nodes = demo_node demo_V, requests = {}, responses = {}, claims = {},
     pending = {}, elected = {}\<rparr>"

definition demo1 :: "(bytes \<times> bytes) list Cluster" where
  "demo1 = (set_node ''a'' (fst (StartElection_locked mem_pebble (nodes demo0 ''a''))) demo0)
     \<lparr>requests := {demo_req}, pending := {}\<rparr>"

definition demo2 :: "(bytes \<times> bytes) list Cluster" where
  "demo2 = (set_node ''b'' (fst (HandleVoteRequest mem_pebble (nodes demo1 ''b'') demo_req)) demo1)
     \<lparr>responses := {(''a'', demo_resp)}\<rparr>"

definition demo3 :: "(bytes \<times> bytes) list Cluster" where
  "demo3 = (set_node ''a'' (fst (HandleVoteResponse_locked (nodes demo2 ''a'') demo_resp)) demo2)
     \<lparr>pending := {(''a'', 1)}\<rparr>"

definition demo4 :: "(bytes \<times> bytes) list Cluster" where
  "demo4 = (set_node ''a'' (fst (tryPromote (\<lambda>m. Some []) mem_pebble (nodes demo3 ''a'') 1)) demo3)
     \<lparr>claims := {\<lparr>CortexID = ''a'', claim_Epoch = 1, FencingToken = 1\<rparr>},
      elected := {(''a'', 1)}\<rparr>"

lemmas demo_defs = demo_node_def demo_V_def demo_req_def demo_resp_def NewElection_def
lemmas handler_defs = StartElection_locked_def HandleVoteRequest_def HandleVoteResponse_locked_def
  tryPromote_def broadcastClaim_def bcast_def CompareAndSet_def Advance_def persist_def Load_def
  pb_set_def mem_pebble_def quorumLocked_def votes_at_def Let_def

lemma demo1_a: "nodes demo1 ''a'' = (demo_node demo_V ''a'')
    \<lparr>epochStore := \<lparr>es_db = [(clusterEpochKey, PutUint64 1)], es_current = 1\<rparr>,
     state := ElectionCandidate, candidateEpoch := 1, votedFor := [1 \<mapsto> ''a''],
     votes := [1 \<mapsto> {''a''}]\<rparr>"
  by (simp add: demo1_def demo0_def demo_defs handler_defs)

lemma demo2_b: "nodes demo2 ''b'' = (demo_node demo_V ''b'')
    \<lparr>epochStore := \<lparr>es_db = [(clusterEpochKey, PutUint64 1)], es_current = 1\<rparr>,
     votedFor := [1 \<mapsto> ''a'']\<rparr>"
  by (simp add: demo2_def demo1_def demo0_def demo_defs handler_defs)

lemma demo3_a: "nodes demo3 ''a'' = (nodes demo1 ''a'')\<lparr>votes := [1 \<mapsto> {''b'', ''a''}]\<rparr>"
  by (simp add: demo3_def demo2_def demo1_a demo_defs handler_defs)

lemma demo4_a: "nodes demo4 ''a'' = (nodes demo3 ''a'')
    \<lparr>epochStore := \<lparr>es_db = [(clusterEpochKey, PutUint64 1), (clusterEpochKey, PutUint64 1)],
        es_current = 1\<rparr>,
     state := ElectionLeader, currentLeader := ''a'', votes := [1 \<mapsto> {''b'', ''a''}],
     votedFor := [1 \<mapsto> ''a'']\<rparr>"
  by (simp add: demo4_def demo3_a demo1_a demo_defs handler_defs drop_below_def fun_eq_iff)

lemma demo_init: "cluster_init demo_V demo0"
  unfolding cluster_init_def demo0_def demo_node_def
  by (auto intro: exI[of _ False] simp: NewElection_def)

lemma demo_step1: "cluster_step (\<lambda>m. Some []) mem_pebble demo0 demo1"
proof -
  have "StartElection_locked mem_pebble (nodes demo0 ''a'') = (nodes demo1 ''a'', Inr (1, False))"
    by (simp add: demo1_def demo0_def demo_defs handler_defs)
  from cluster_step.start[OF this, of "\<lambda>m. Some []"] show ?thesis
    by (simp add: demo1_def demo0_def demo_defs issue_def set_node_def)
qed

lemma demo_step2: "cluster_step (\<lambda>m. Some []) mem_pebble demo1 demo2"
proof -
  have "HandleVoteRequest mem_pebble (nodes demo1 ''b'') demo_req = (nodes demo2 ''b'', demo_resp)"
    by (simp add: demo2_def demo1_def demo0_def demo_defs handler_defs)
  from cluster_step.vote[OF _ this, of "\<lambda>m. Some []"] show ?thesis
    by (simp add: demo2_def demo1_def demo0_def demo_defs set_node_def)
qed

lemma demo_step3: "cluster_step (\<lambda>m. Some []) mem_pebble demo2 demo3"
proof -
  have a: "nodes demo2 ''a'' = nodes demo1 ''a''" by (simp add: demo2_def)
  have "HandleVoteResponse_locked (nodes demo2 ''a'') demo_resp = (nodes demo3 ''a'', True)"
    by (simp add: a demo3_a demo1_a demo_defs handler_defs)
  from cluster_step.tally[OF _ this, of "\<lambda>m. Some []" mem_pebble] show ?thesis
    by (simp add: demo3_def demo2_def demo1_def demo0_def demo_defs set_node_def issue_def)
qed

lemma demo_step4: "cluster_step (\<lambda>m. Some []) mem_pebble demo3 demo4"
proof -
  have "tryPromote (\<lambda>m. Some []) mem_pebble (nodes demo3 ''a'') 1 =
      (nodes demo4 ''a'', [Broadcast (MCortexClaim
         \<lparr>CortexID = ''a'', claim_Epoch = 1, FencingToken = 1\<rparr>), OnPromoted 1])"
    by (simp add: demo4_a demo3_a demo1_a demo_defs handler_defs drop_below_def fun_eq_iff)
  from cluster_step.promote[OF _ this] show ?thesis
    by (simp add: demo4_def demo3_def demo2_def demo1_def demo0_def demo_defs set_node_def issue_def
        claims_in_def)
qed

lemma demo_reachable: "cluster_reachable (\<lambda>m. Some []) mem_pebble demo_V demo4"
  by (intro cluster_reachable.step[OF _ demo_step4] cluster_reachable.step[OF _ demo_step3]
      cluster_reachable.step[OF _ demo_step2] cluster_reachable.step[OF _ demo_step1]
      cluster_reachable.init demo_init)

text \<open>A store whose first write of the epoch fails.\<close>

definition faulty_pebble :: "(bytes \<times> bytes) list pebble" where
  "faulty_pebble = mem_pebble\<lparr>pb_commit := (\<lambda>d ops.
     if d = [] \<and> ops = [BSet clusterEpochKey (PutUint64 1)] then Inl (DbError 5)
     else Inr (fold mem_op ops d))\<rparr>"

lemma faulty_set:
  "pb_set faulty_pebble [] clusterEpochKey (PutUint64 1) = Inl (DbError 5)"
  "pb_set faulty_pebble [] nodeRoleKey v = Inr [(nodeRoleKey, v)]"
  "pb_set faulty_pebble (x # d) k v = Inr ((k, v) # x # d)"
  using nodeRoleKey_neq[symmetric] by (auto simp: pb_set_def faulty_pebble_def)

section \<open>Properties\<close>

lemma one_winner:
  assumes "pebble_reliable pb" "finite V" "cluster_reachable marshal pb V s"
    and "(c, ep) \<in> elected s" "(c', ep) \<in> elected s"
  shows "c = c'"
proof -
  have inv: "cluster_inv V s" by (rule cluster_reachable_inv[OF assms(1,3)])
  have "quorum_for V s c ep" "quorum_for V s c' ep"
    using inv_wins[OF inv] assms(4,5) by (auto simp: wins_ok_def)
  then obtain Q Q' where Q: "Q \<subseteq> V" "card V div 2 + 1 \<le> card Q" "\<And>v. v \<in> Q \<Longrightarrow> has_voted s v ep c"
    and Q': "Q' \<subseteq> V" "card V div 2 + 1 \<le> card Q'" "\<And>v. v \<in> Q' \<Longrightarrow> has_voted s v ep c'"
    by (auto simp: quorum_for_def)
  from majority.quorums_meet[OF assms(2) Q(1) Q'(1) Q(2) Q'(2)]
  obtain v where "v \<in> Q" "v \<in> Q'" by blast
  with inv_one[OF inv] Q(3) Q'(3) show ?thesis
    unfolding one_vote_def by blast
qed

text \<open>C1. Over every run of the cluster (any number of nodes with one registry of voters, a
  network that loses, duplicates and reorders messages, handlers and promotions interleaved at
  will, a store that does not fail, no wrap of the epoch), two nodes promoted in the same epoch
  are the same node.\<close>
theorem at_most_one_elected:
  assumes "pebble_reliable pb" "finite V" "cluster_reachable marshal pb V s"
    and "(c, ep) \<in> elected s" "(c', ep) \<in> elected s"
  shows "c = c'"
  by (rule one_winner[OF assms])

theorem at_most_one_elected_witness:
  "cluster_reachable (\<lambda>m. Some []) mem_pebble demo_V demo4 \<and> (''a'', 1) \<in> elected demo4 \<and>
   (\<forall>c. (c, 1) \<in> elected demo4 \<longleftrightarrow> c = ''a'')"
proof -
  have won: "(''a'', 1) \<in> elected demo4" by (simp add: demo4_def)
  have "finite demo_V" by (simp add: demo_V_def)
  from at_most_one_elected[OF mem_pebble_reliable this demo_reachable _ won] won demo_reachable
  show ?thesis by blast
qed

text \<open>Two nodes that at the same time are in the state \<open>ElectionLeader\<close> for the same
  candidate epoch are the same node, in every reachable cluster.\<close>
theorem leaders_differ_in_epoch:
  assumes "pebble_reliable pb" "finite V" "cluster_reachable marshal pb V s"
    and "state (nodes s m) = ElectionLeader" "state (nodes s n) = ElectionLeader"
    and "candidateEpoch (nodes s m) = candidateEpoch (nodes s n)"
  shows "m = n"
proof -
  have "leaders_ok s" by (rule inv_leaders[OF cluster_reachable_inv[OF assms(1,3)]])
  with assms(4-6) have "(m, candidateEpoch (nodes s n)) \<in> elected s"
    "(n, candidateEpoch (nodes s n)) \<in> elected s"
    by (auto simp: leaders_ok_def dest: spec[of _ m])
  then show ?thesis by (rule one_winner[OF assms(1-3)])
qed

theorem leaders_differ_in_epoch_witness:
  "state (nodes demo4 ''a'') = ElectionLeader \<and>
   {n. state (nodes demo4 n) = ElectionLeader \<and> candidateEpoch (nodes demo4 n) = 1} = {''a''}"
proof -
  have a: "state (nodes demo4 ''a'') = ElectionLeader" "candidateEpoch (nodes demo4 ''a'') = 1"
    by (simp_all add: demo4_a demo3_a demo1_a)
  have "finite demo_V" by (simp add: demo_V_def)
  then have "n = ''a''" if "state (nodes demo4 n) = ElectionLeader" "candidateEpoch (nodes demo4 n) = 1"
    for n
    using leaders_differ_in_epoch[OF mem_pebble_reliable _ demo_reachable that(1) a(1)] that(2) a(2)
    by metis
  with a show ?thesis by blast
qed

text \<open>A node is promoted only with the votes of a strict majority of the registered voters:
  for every promotion there is a set of more than half of the voters, each of which is the
  candidate itself or has answered the candidate's request of that epoch with a grant.\<close>
theorem elected_by_majority:
  assumes "pebble_reliable pb" "cluster_reachable marshal pb V s" "(c, ep) \<in> elected s"
  shows "\<exists>Q \<subseteq> V. card V < 2 * card Q \<and> (\<forall>v \<in> Q.
    (c, \<lparr>VoterID = v, resp_Epoch = ep, Granted = True\<rparr>) \<in> responses s \<or>
    (v = c \<and> \<lparr>CandidateID = c, req_Epoch = ep\<rparr> \<in> requests s))"
proof -
  have "quorum_for V s c ep"
    using inv_wins[OF cluster_reachable_inv[OF assms(1,2)]] assms(3) by (auto simp: wins_ok_def)
  then obtain Q where Q: "Q \<subseteq> V" "card V div 2 + 1 \<le> card Q" "\<forall>v \<in> Q. has_voted s v ep c"
    by (auto simp: quorum_for_def)
  then have "card V < 2 * card Q" by linarith
  with Q show ?thesis unfolding has_voted_def by blast
qed

theorem elected_by_majority_witness:
  "\<exists>Q \<subseteq> demo_V. card demo_V < 2 * card Q \<and> (\<forall>v \<in> Q.
    (''a'', \<lparr>VoterID = v, resp_Epoch = 1, Granted = True\<rparr>) \<in> responses demo4 \<or>
    (v = ''a'' \<and> \<lparr>CandidateID = ''a'', req_Epoch = 1\<rparr> \<in> requests demo4))"
  by (rule elected_by_majority[OF mem_pebble_reliable demo_reachable]) (simp add: demo4_def)

text \<open>A vote is immutable: whatever handler a node runs next (with a store that does not fail
  and an epoch below the largest), a vote it has recorded for an epoch is recorded still, or that
  epoch is below the node's new epoch and the entry was cleaned up.\<close>
theorem vote_is_immutable:
  assumes "pebble_reliable pb" "votes_reached e" "epoch_of e \<noteq> - 1"
    and "votedFor e ep = Some c"
  shows "votedFor (election_call_step marshal pb e call) ep = Some c \<or>
    (votedFor (election_call_step marshal pb e call) ep = None \<and>
     ep < epoch_of (election_call_step marshal pb e call))"
  using keeps_Some[OF keeps_step[OF assms(1-3)] assms(4)] .

theorem vote_is_immutable_witness:
  "votedFor (nodes demo2 ''b'') 1 = Some ''a'' \<and>
   votedFor (election_call_step (\<lambda>m. Some []) mem_pebble (nodes demo2 ''b'')
     (CallVoteRequest \<lparr>CandidateID = ''c'', req_Epoch = 1\<rparr>)) 1 = Some ''a''"
proof -
  let ?e = "nodes demo2 ''b''" and ?c = "CallVoteRequest \<lparr>CandidateID = ''c'', req_Epoch = 1\<rparr>"
  have v: "votedFor ?e 1 = Some ''a''" by (simp add: demo2_b)
  have "votes_reached ?e" "epoch_of ?e \<noteq> - 1"
    by (simp_all add: demo2_b demo_defs votes_reached_def)
  from vote_is_immutable[OF mem_pebble_reliable this v, of "\<lambda>m. Some []" ?c]
  have "votedFor (election_call_step (\<lambda>m. Some []) mem_pebble ?e ?c) 1 = Some ''a'' \<or>
    1 < epoch_of (election_call_step (\<lambda>m. Some []) mem_pebble ?e ?c)" by blast
  moreover have "\<not> 1 < epoch_of (election_call_step (\<lambda>m. Some []) mem_pebble ?e ?c)"
    by (simp add: demo2_b demo_defs handler_defs)
  ultimately show ?thesis using v by blast
qed

text \<open>A candidate that needs the vote of \<open>n\<close> and no other.\<close>

definition one_vote_short :: "u64 \<Rightarrow> node_id \<Rightarrow> 'db Election \<Rightarrow> bool" where
  "one_vote_short ep n e \<longleftrightarrow> state e = ElectionCandidate \<and> candidateEpoch e = ep \<and> Load (epochStore e) = ep \<and>
     \<not> isSentinel e \<and> n \<in> voters e \<and> n \<notin> votes_at e ep \<and> finite (votes_at e ep) \<and>
     Suc (card (votes_at e ep)) = quorumLocked e"

lemma last_vote_elects:
  assumes "pebble_reliable pb" "one_vote_short ep n e" "VoterID r = n" "resp_Epoch r = ep" "Granted r"
  shows "state (fst (HandleVoteResponse marshal pb e r)) = ElectionLeader \<and>
    Load (epochStore (fst (HandleVoteResponse marshal pb e r))) = ep"
proof -
  let ?e1 = "e\<lparr>votes := (votes e)(ep \<mapsto> insert n (votes_at e ep))\<rparr>"
  have "votes_at ?e1 ep = insert n (votes_at e ep)" "quorumLocked ?e1 = quorumLocked e"
    by (simp_all add: votes_at_def quorumLocked_def)
  then have "HandleVoteResponse_locked e r = (?e1, True)"
    using assms(2-5) by (simp add: HandleVoteResponse_locked_def Let_def one_vote_short_def)
  moreover obtain st where "CompareAndSet pb (epochStore e) ep ep = (st, Inr True)" "Load st = ep"
    using assms(2) reliable_set[OF assms(1), of "es_db (epochStore e)" clusterEpochKey "PutUint64 ep"]
    by (auto simp: one_vote_short_def epoch_defs)
  ultimately show ?thesis
    using assms(2,4) by (simp add: HandleVoteResponse_def tryPromote_def one_vote_short_def Let_def)
qed

lemma fresh_vote:
  assumes "\<not> isObserver v" "Load (epochStore v) \<le> ep" "votedFor v ep = None"
  shows "let (v', r) = HandleVoteRequest pb v \<lparr>CandidateID = a, req_Epoch = ep\<rparr>
    in epochStore v' = (if ep > Load (epochStore v) then fst (Advance pb (epochStore v) ep) else epochStore v) \<and>
      votedFor v' ep = Some a \<and> isObserver v' = isObserver v \<and>
      r = \<lparr>VoterID = localNodeID v, resp_Epoch = ep, Granted = True\<rparr>"
proof -
  have "\<not> ep < Load (epochStore v)" using assms(2) by simp
  then show ?thesis
    using assms(1,3) by (cases "Load (epochStore v) < ep") (simp_all add: HandleVoteRequest_def Let_def)
qed

text \<open>C2. A restart forgets the vote and can elect two leaders of one epoch.  The epoch of a vote is
  persisted, the vote is not: a voter that granted its vote to one candidate refuses every other as long
  as it runs, but restarted from the same store it grants its vote to any candidate of the same epoch.
  Two candidates that each lack only this voter's vote are then both leaders in that epoch.\<close>
theorem restart_votes_twice:
  assumes "pebble_spec pb view" "pebble_reliable pb" "epoch_durable view (epochStore v)"
    and "\<not> isObserver v" "Load (epochStore v) \<le> ep" "votedFor v ep = None"
    and "HandleVoteRequest pb v \<lparr>CandidateID = a, req_Epoch = ep\<rparr> = (v1, r1)"
    and "NewEpochStore pb (es_db (epochStore v1)) = Inr store"
    and "HandleVoteRequest pb ((NewElection (localNodeID v) store)\<lparr>voters := V\<rparr>)
           \<lparr>CandidateID = c, req_Epoch = ep\<rparr> = (v2, r2)"
    and "one_vote_short ep (localNodeID v) ea" "one_vote_short ep (localNodeID v) ec"
  shows "Granted r1 \<and> Granted r2 \<and>
    (c \<noteq> a \<longrightarrow> \<not> Granted (snd (HandleVoteRequest pb v1 \<lparr>CandidateID = c, req_Epoch = ep\<rparr>))) \<and>
    state (fst (HandleVoteResponse marshal pb ea r1)) = ElectionLeader \<and>
    state (fst (HandleVoteResponse marshal pb ec r2)) = ElectionLeader \<and>
    Load (epochStore (fst (HandleVoteResponse marshal pb ea r1))) =
      Load (epochStore (fst (HandleVoteResponse marshal pb ec r2)))"
proof -
  have st1: "epochStore v1 = (if ep > Load (epochStore v) then fst (Advance pb (epochStore v) ep) else epochStore v)"
    and v1: "votedFor v1 ep = Some a" "isObserver v1 = isObserver v"
    and r1: "r1 = \<lparr>VoterID = localNodeID v, resp_Epoch = ep, Granted = True\<rparr>"
    using fresh_vote[OF assms(4-6), of pb a, unfolded assms(7)] by auto
  have ld1: "Load (epochStore v1) = ep"
    using st1 assms(5) reliable_set[OF assms(2), of "es_db (epochStore v)" clusterEpochKey "PutUint64 ep"]
    by (auto simp: epoch_defs)
  have "epoch_durable view (epochStore v1)"
    unfolding st1 using assms(3) Advance_durable[OF assms(1,3)] by simp
  with restart_reads_current[OF assms(1)] assms(8) have store: "store = epochStore v1" by fastforce
  have r2: "r2 = \<lparr>VoterID = localNodeID v, resp_Epoch = ep, Granted = True\<rparr>"
    using fresh_vote[of "(NewElection (localNodeID v) store)\<lparr>voters := V\<rparr>" ep pb c, unfolded assms(9)] ld1 store
    by (simp add: NewElection_def)
  have "\<not> Granted (snd (HandleVoteRequest pb v1 \<lparr>CandidateID = c, req_Epoch = ep\<rparr>))" if "c \<noteq> a"
    using that v1 assms(4) ld1 by (simp add: HandleVoteRequest_def Let_def)
  then show ?thesis
    using last_vote_elects[OF assms(2,10)] last_vote_elects[OF assms(2,11)] r1 r2 by simp
qed

lemma restart_votes_twice_witness:
  "\<exists>v1 r1 store v2 r2. HandleVoteRequest mem_pebble (demo_node demo_V ''b'') \<lparr>CandidateID = ''a'', req_Epoch = 1\<rparr> = (v1, r1) \<and>
     NewEpochStore mem_pebble (es_db (epochStore v1)) = Inr store \<and>
     HandleVoteRequest mem_pebble ((NewElection ''b'' store)\<lparr>voters := demo_V\<rparr>)
       \<lparr>CandidateID = ''c'', req_Epoch = 1\<rparr> = (v2, r2) \<and>
     state (fst (HandleVoteResponse (\<lambda>m. Some []) mem_pebble (fst (StartElection_locked mem_pebble (demo_node demo_V ''a''))) r1))
       = ElectionLeader \<and>
     state (fst (HandleVoteResponse (\<lambda>m. Some []) mem_pebble (fst (StartElection_locked mem_pebble (demo_node demo_V ''c''))) r2))
       = ElectionLeader"
proof -
  let ?v = "demo_node demo_V ''b''"
  let ?e = "\<lambda>n. fst (StartElection_locked mem_pebble (demo_node demo_V n))"
  obtain v1 r1 where 1: "HandleVoteRequest mem_pebble ?v \<lparr>CandidateID = ''a'', req_Epoch = 1\<rparr> = (v1, r1)" by fastforce
  have "\<exists>store. NewEpochStore mem_pebble d = Inr store" for d
    by (simp add: NewEpochStore_def mem_pebble_def split: option.split)
  then obtain store where 2: "NewEpochStore mem_pebble (es_db (epochStore v1)) = Inr store" by blast
  obtain v2 r2 where 3: "HandleVoteRequest mem_pebble ((NewElection (localNodeID ?v) store)\<lparr>voters := demo_V\<rparr>)
      \<lparr>CandidateID = ''c'', req_Epoch = 1\<rparr> = (v2, r2)" by fastforce
  have v: "epoch_durable map_of (epochStore ?v)" "\<not> isObserver ?v" "Load (epochStore ?v) \<le> 1" "votedFor ?v 1 = None"
    "localNodeID ?v = ''b''"
    by (simp_all add: demo_node_def demo_V_def NewElection_def epoch_durable_def Load_def)
  have s: "one_vote_short 1 (localNodeID ?v) (?e n)" if "n = ''a'' \<or> n = ''c''" for n
    using that unfolding v(5)
    by (elim disjE) (simp_all add: one_vote_short_def demo_node_def demo_V_def NewElection_def StartElection_locked_def
        epoch_defs pb_set_def mem_pebble_def Let_def votes_at_def quorumLocked_def)
  have lead: "state (fst (HandleVoteResponse (\<lambda>m. Some []) mem_pebble (?e ''a'') r1)) = ElectionLeader \<and>
    state (fst (HandleVoteResponse (\<lambda>m. Some []) mem_pebble (?e ''c'') r2)) = ElectionLeader"
    using restart_votes_twice[OF mem_pebble_spec mem_pebble_reliable v(1-4) 1 2 3 s s, of "''a''" "''c''" "\<lambda>m. Some []"] by simp
  show ?thesis
    by (rule exI[of _ v1], rule exI[of _ r1], rule exI[of _ store], rule exI[of _ v2], rule exI[of _ r2])
      (use 1 2 3 v(5) lead in simp)
qed

text \<open>A failed epoch write lets a node vote twice: \<open>HandleVoteRequest\<close> ignores the error of
  \<open>Advance\<close> and grants, the epoch stays behind, and the node's next election (once the store
  writes again) picks the very epoch it already voted in and votes for itself.\<close>
theorem failed_advance_votes_twice:
  "\<exists>(pb :: (bytes \<times> bytes) list pebble) e0.
     let (e1, r1) = HandleVoteRequest pb e0 \<lparr>CandidateID = ''a'', req_Epoch = 1\<rparr>;
         e1' = e1\<lparr>epochStore := fst (PersistRole pb (epochStore e1) '''')\<rparr>;
         (e2, r2) = StartElection_locked pb e1'
     in Granted r1 \<and> r2 = Inr (1, False) \<and> votedFor e1 1 = Some ''a'' \<and>
        votedFor e2 1 = Some ''b''"
proof (intro exI)
  show "let (e1, r1) = HandleVoteRequest faulty_pebble (demo_node demo_V ''b'')
                         \<lparr>CandidateID = ''a'', req_Epoch = 1\<rparr>;
         e1' = e1\<lparr>epochStore := fst (PersistRole faulty_pebble (epochStore e1) '''')\<rparr>;
         (e2, r2) = StartElection_locked faulty_pebble e1'
     in Granted r1 \<and> r2 = Inr (1, False) \<and> votedFor e1 1 = Some ''a'' \<and>
        votedFor e2 1 = Some ''b''"
    by (simp add: HandleVoteRequest_def StartElection_locked_def CompareAndSet_def Advance_def
        persist_def PersistRole_def Load_def quorumLocked_def votes_at_def faulty_set demo_defs)
qed

text \<open>Two nodes that lead in the same epoch and receive each other's claim resolve the duel:
  the one with the smaller id keeps leadership, changes nothing and repeats its claim; the other
  becomes a follower of it, reports its demotion and then the new leader.\<close>
theorem duel_lowest_id_wins:
  assumes "state m = ElectionLeader" "state n = ElectionLeader"
    and "Load (epochStore m) = ep" "Load (epochStore n) = ep"
    and "localNodeID m < localNodeID n"
  shows "HandleCortexClaim (\<lambda>msg. Some payload) pb m
      \<lparr>CortexID = localNodeID n, claim_Epoch = ep, FencingToken = ep\<rparr> =
      (m, [Broadcast (MCortexClaim
         \<lparr>CortexID = localNodeID m, claim_Epoch = ep, FencingToken = ep\<rparr>)]) \<and>
    (case HandleCortexClaim (\<lambda>msg. Some payload) pb n
        \<lparr>CortexID = localNodeID m, claim_Epoch = ep, FencingToken = ep\<rparr> of (n', outs) \<Rightarrow>
      outs = [OnDemoted, OnNewLeader (localNodeID m) ep] \<and>
      state n' = ElectionFollower \<and> currentLeader n' = localNodeID m \<and>
      Load (epochStore n') = ep)"
proof -
  have neq: "localNodeID n \<noteq> localNodeID m" "\<not> localNodeID n < localNodeID m"
    using assms(5) by auto
  show ?thesis
    using assms neq
    by (simp add: HandleCortexClaim_def broadcastClaim_def bcast_def Advance_def Load_def)
qed

theorem duel_lowest_id_wins_witness:
  "fst (HandleCortexClaim (\<lambda>msg. Some []) mem_pebble
      ((demo_node demo_V ''a'')\<lparr>state := ElectionLeader\<rparr>)
      \<lparr>CortexID = ''b'', claim_Epoch = 0, FencingToken = 0\<rparr>) =
    (demo_node demo_V ''a'')\<lparr>state := ElectionLeader\<rparr>"
proof -
  let ?m = "(demo_node demo_V ''a'')\<lparr>state := ElectionLeader\<rparr>"
    and ?n = "(demo_node demo_V ''b'')\<lparr>state := ElectionLeader\<rparr>"
  have "localNodeID ?m < localNodeID ?n" by (simp add: demo_defs)
  from duel_lowest_id_wins[OF _ _ _ _ this, of 0 "[]" mem_pebble] show ?thesis
    by (simp add: demo_defs Load_def)
qed

end
