(* ===== verification/Lease.thy ===== *)
theory Lease
  imports Prelude
begin

text \<open>
  The lease that fences off demoted primaries (\<open>internal/replication/lease.go\<close>,
  \<open>memory_backend.go\<close>, \<open>leader.go\<close>).  \<open>'b LeaseBackend\<close> is the Go interface as a record of its
  methods over a backend state \<open>'b\<close>; \<open>MemoryLeaseBackend\<close> is the implementation of the
  repository and \<open>LeaderElector\<close> the client.  The wall clock is an argument: a time is the
  number of nanoseconds since Go's zero time, so \<open>time.Time{}\<close> is 0 and \<open>Before\<close> is \<open><\<close>.

  The locale \<open>lease_laws\<close> holds what the client needs of a backend, and the invariant of a
  group of electors that share one backend; it is interpreted on the memory backend.
\<close>

section \<open>The interface\<close>

datatype lease_error = ErrNotLeaseHolder | ErrBackend nat

record 'b LeaseBackend =
  lb_TryAcquire :: "int \<Rightarrow> 'b \<Rightarrow> node_id \<Rightarrow> int \<Rightarrow> (lease_error + bool) \<times> 'b"
  lb_Renew :: "int \<Rightarrow> 'b \<Rightarrow> node_id \<Rightarrow> int \<Rightarrow> lease_error option \<times> 'b"
  lb_Release :: "'b \<Rightarrow> node_id \<Rightarrow> lease_error option \<times> 'b"
  lb_CurrentHolder :: "int \<Rightarrow> 'b \<Rightarrow> lease_error + node_id"
  lb_Token :: "'b \<Rightarrow> lease_error + u64"

section \<open>The in-memory backend\<close>

record MemoryLeaseBackend =
  mb_holder :: node_id
  mb_expires :: int
  mb_token :: u64
  mb_genLock :: "node_id \<rightharpoonup> u64"

definition NewMemoryLeaseBackend :: MemoryLeaseBackend where
  "NewMemoryLeaseBackend = \<lparr>mb_holder = [], mb_expires = 0, mb_token = 0, mb_genLock = Map.empty\<rparr>"

definition mem_TryAcquire ::
  "int \<Rightarrow> MemoryLeaseBackend \<Rightarrow> node_id \<Rightarrow> int \<Rightarrow> (lease_error + bool) \<times> MemoryLeaseBackend" where
  "mem_TryAcquire now b n ttl =
     (if mb_expires b < now \<or> mb_holder b = [] then
        (Inr True, b\<lparr>mb_holder := n, mb_expires := now + ttl, mb_token := mb_token b + 1,
                     mb_genLock := (mb_genLock b)(n \<mapsto> mb_token b + 1)\<rparr>)
      else if mb_holder b = n then (Inr True, b\<lparr>mb_expires := now + ttl\<rparr>)
      else (Inr False, b))"

definition mem_Renew ::
  "int \<Rightarrow> MemoryLeaseBackend \<Rightarrow> node_id \<Rightarrow> int \<Rightarrow> lease_error option \<times> MemoryLeaseBackend" where
  "mem_Renew now b n ttl =
     (if mb_holder b \<noteq> n then (Some ErrNotLeaseHolder, b)
      else (None, b\<lparr>mb_expires := now + ttl\<rparr>))"

definition mem_Release ::
  "MemoryLeaseBackend \<Rightarrow> node_id \<Rightarrow> lease_error option \<times> MemoryLeaseBackend" where
  "mem_Release b n =
     (None, if mb_holder b = n then b\<lparr>mb_holder := [], mb_expires := 0\<rparr> else b)"

definition mem_CurrentHolder :: "int \<Rightarrow> MemoryLeaseBackend \<Rightarrow> lease_error + node_id" where
  "mem_CurrentHolder now b = (if mb_expires b < now then Inr [] else Inr (mb_holder b))"

definition mem_Token :: "MemoryLeaseBackend \<Rightarrow> lease_error + u64" where
  "mem_Token b = Inr (mb_token b)"

definition mem_backend :: "MemoryLeaseBackend LeaseBackend" where
  "mem_backend = \<lparr>lb_TryAcquire = mem_TryAcquire, lb_Renew = mem_Renew, lb_Release = mem_Release,
     lb_CurrentHolder = mem_CurrentHolder, lb_Token = mem_Token\<rparr>"

lemmas mem_backend_defs = mem_backend_def mem_TryAcquire_def mem_Renew_def mem_Release_def
  mem_CurrentHolder_def mem_Token_def

section \<open>The elector\<close>

datatype elector_error = ErrAlreadyRunning

datatype elector_event = OnPromote | OnDemote

record LeaderElector =
  le_NodeID :: node_id
  le_LeaseTTL :: int
  le_RenewEvery :: int
  le_isLeader :: bool
  le_token :: u64
  le_running :: bool

definition NewLeaderElector :: "node_id \<Rightarrow> LeaderElector" where
  "NewLeaderElector n = \<lparr>le_NodeID = n, le_LeaseTTL = 10 * 1000000000, le_RenewEvery = 3 * 1000000000,
     le_isLeader = False, le_token = 0, le_running = False\<rparr>"

definition Run_enter :: "LeaderElector \<Rightarrow> elector_error + LeaderElector" where
  "Run_enter e = (if le_running e then Inl ErrAlreadyRunning else Inr (e\<lparr>le_running := True\<rparr>))"

text \<open>The deferred end of \<open>Run\<close> first gives the lease back and then stops to believe in it.\<close>

definition Run_exit :: "'b LeaseBackend \<Rightarrow> LeaderElector \<Rightarrow> 'b \<Rightarrow> LeaderElector \<times> 'b" where
  "Run_exit lb e b = (e\<lparr>le_running := False\<rparr>, snd (lb_Release lb b (le_NodeID e)))"

definition Run_left :: "LeaderElector \<Rightarrow> LeaderElector" where
  "Run_left e = e\<lparr>le_isLeader := False\<rparr>"

text \<open>
  \<open>tick\<close> makes two calls to the backend and holds no lock between them, so that calls of other
  nodes can come between.  \<open>tick_acquire\<close> is the part up to the first call, with what the rest needs
  of it (\<open>None\<close> when the call fails and the tick ends), \<open>tick_token\<close> the rest; \<open>elector_tick\<close> is the
  two without anything between.  \<open>elector_debt\<close> is what an elector still has to do.
\<close>

datatype elector_debt = Ticking bool bool | Leaving

definition tick_acquire ::
  "'b LeaseBackend \<Rightarrow> int \<Rightarrow> LeaderElector \<Rightarrow> 'b \<Rightarrow> elector_debt option \<times> 'b" where
  "tick_acquire lb now e b =
     (let wasLeader = le_isLeader e
      in case lb_TryAcquire lb now b (le_NodeID e) (le_LeaseTTL e) of
           (Inl err, b') \<Rightarrow> (None, b')
         | (Inr acquired, b') \<Rightarrow> (Some (Ticking wasLeader acquired), b'))"

definition tick_token ::
  "'b LeaseBackend \<Rightarrow> bool \<Rightarrow> bool \<Rightarrow> LeaderElector \<Rightarrow> 'b \<Rightarrow> LeaderElector \<times> elector_event list" where
  "tick_token lb wasLeader acquired e b =
     (let e1 = (case lb_Token lb b of Inr t \<Rightarrow> e\<lparr>le_token := t\<rparr> | Inl err \<Rightarrow> e)
      in if acquired \<and> \<not> wasLeader then (e1\<lparr>le_isLeader := True\<rparr>, [OnPromote])
         else if \<not> acquired \<and> wasLeader then (e1\<lparr>le_isLeader := False\<rparr>, [OnDemote])
         else (e1, []))"

definition elector_tick ::
  "'b LeaseBackend \<Rightarrow> int \<Rightarrow> LeaderElector \<Rightarrow> 'b \<Rightarrow> (LeaderElector \<times> elector_event list) \<times> 'b" where
  "elector_tick lb now e b =
     (case tick_acquire lb now e b of
        (None, b') \<Rightarrow> ((e, []), b')
      | (Some (Ticking wasLeader acquired), b') \<Rightarrow> (tick_token lb wasLeader acquired e b', b')
      | (Some Leaving, b') \<Rightarrow> ((e, []), b'))"

section \<open>A group of electors on one backend\<close>

text \<open>
  The electors, what each owes of a tick or of its end, and the backend.  \<open>Acquire\<close> and \<open>Token\<close>
  are the halves of a tick, \<open>Exit\<close> and \<open>Leave\<close> those of the end of \<open>Run\<close>; between the halves any other
  node may take any step.  One elector's loop makes one tick at a time and ends between ticks, and it is
  started again only when its last \<open>Run\<close> has returned.
\<close>

datatype elector_call =
    Acquire node_id int | Token node_id | Enter node_id | Exit node_id | Leave node_id

type_synonym 'b group = "(node_id \<Rightarrow> LeaderElector) \<times> (node_id \<rightharpoonup> elector_debt) \<times> 'b"

fun group_step :: "'b LeaseBackend \<Rightarrow> elector_call \<Rightarrow> 'b group \<Rightarrow> 'b group" where
  "group_step lb (Acquire n now) (es, pd, b) =
     (if le_running (es n) \<and> pd n = None then
        (let (r, b') = tick_acquire lb now (es n) b in (es, pd(n := r), b'))
      else (es, pd, b))"
| "group_step lb (Token n) (es, pd, b) =
     (case pd n of
        Some (Ticking was acq) \<Rightarrow> (es(n := fst (tick_token lb was acq (es n) b)), pd(n := None), b)
      | _ \<Rightarrow> (es, pd, b))"
| "group_step lb (Enter n) (es, pd, b) =
     (if pd n = None then
        (case Run_enter (es n) of Inl err \<Rightarrow> (es, pd, b) | Inr e' \<Rightarrow> (es(n := e'), pd, b))
      else (es, pd, b))"
| "group_step lb (Exit n) (es, pd, b) =
     (if le_running (es n) \<and> pd n = None then
        (let (e', b') = Run_exit lb (es n) b in (es(n := e'), pd(n \<mapsto> Leaving), b'))
      else (es, pd, b))"
| "group_step lb (Leave n) (es, pd, b) =
     (if pd n = Some Leaving then (es(n := Run_left (es n)), pd(n := None), b) else (es, pd, b))"

definition group_run :: "'b LeaseBackend \<Rightarrow> elector_call list \<Rightarrow> 'b group \<Rightarrow> 'b group" where
  "group_run lb cs g = fold (group_step lb) cs g"

text \<open>A token read too late: the node was granted the lease in the first half of its tick, and by the
  second half it is no longer the node on record.\<close>

fun late_read :: "('b \<Rightarrow> node_id) \<Rightarrow> elector_call \<Rightarrow> 'b group \<Rightarrow> bool" where
  "late_read owner (Token n) (es, pd, b) \<longleftrightarrow>
     (\<exists>was. pd n = Some (Ticking was True)) \<and> (owner b \<noteq> n \<or> n = [])"
| "late_read owner c g \<longleftrightarrow> False"

fun late_reads :: "'b LeaseBackend \<Rightarrow> ('b \<Rightarrow> node_id) \<Rightarrow> elector_call list \<Rightarrow> 'b group \<Rightarrow> bool" where
  "late_reads lb owner [] g \<longleftrightarrow> False"
| "late_reads lb owner (c # cs) g \<longleftrightarrow> late_read owner c g \<or> late_reads lb owner cs (group_step lb c g)"

section \<open>What the electors rely on\<close>

text \<open>
  \<open>owner\<close> is the node of the last grant (\<open>[]\<close> after a release) and \<open>tok\<close> the token as a
  number.  A grant makes the caller the owner and, when the owner changes, moves the token;
  no other call moves the token, and it never goes back.
\<close>

locale lease_laws =
  fixes lb :: "'b LeaseBackend"
    and owner :: "'b \<Rightarrow> node_id"
    and token :: "'b \<Rightarrow> u64"
  assumes grant: "lb_TryAcquire lb now b n ttl = (Inr True, b') \<Longrightarrow> owner b' = n"
    and grant_token: "lb_TryAcquire lb now b n ttl = (Inr True, b') \<Longrightarrow>
          token b' = token b + 1 \<or> token b' = token b \<and> owner b = n \<and> owner b \<noteq> []"
    and refuse: "lb_TryAcquire lb now b n ttl = (Inr False, b') \<Longrightarrow> b' = b"
    and acquire_error: "lb_TryAcquire lb now b n ttl = (Inl err, b') \<Longrightarrow> b' = b"
    and release: "lb_Release lb b n = (r, b') \<Longrightarrow> token b' = token b \<and>
          owner b' = (if owner b = n then [] else owner b)"
    and read_token: "lb_Token lb b = Inr (token b)"
begin

definition group_inv :: "nat \<Rightarrow> 'b group \<Rightarrow> bool" where
  "group_inv k g \<longleftrightarrow> (let (es, pd, b) = g in
     unat (token b) \<le> k \<and>
     (\<forall>n. le_NodeID (es n) = n) \<and>
     (\<forall>n. le_token (es n) \<le> token b) \<and>
     (\<forall>n was acq. pd n = Some (Ticking was acq) \<longrightarrow> le_isLeader (es n) = was) \<and>
     (\<forall>n. le_isLeader (es n) \<longrightarrow> le_token (es n) = token b \<longrightarrow>
        owner b = n \<or> owner b = [] \<and> pd n = Some Leaving) \<and>
     (\<forall>n m. le_isLeader (es n) \<longrightarrow> le_isLeader (es m) \<longrightarrow> le_token (es n) = le_token (es m) \<longrightarrow> n = m))"

lemma group_invD:
  assumes "group_inv k (es, pd, b)"
  shows "unat (token b) \<le> k" "le_NodeID (es n) = n" "le_token (es n) \<le> token b"
    "pd n = Some (Ticking was acq) \<Longrightarrow> le_isLeader (es n) = was"
    "le_isLeader (es n) \<Longrightarrow> le_token (es n) = token b \<Longrightarrow> owner b = n \<or> owner b = [] \<and> pd n = Some Leaving"
    "le_isLeader (es n) \<Longrightarrow> le_isLeader (es m) \<Longrightarrow> le_token (es n) = le_token (es m) \<Longrightarrow> n = m"
  using assms by (simp_all add: group_inv_def)

lemma group_invI:
  assumes "unat (token b) \<le> k" "\<And>n. le_NodeID (es n) = n" "\<And>n. le_token (es n) \<le> token b"
    "\<And>n was acq. pd n = Some (Ticking was acq) \<Longrightarrow> le_isLeader (es n) = was"
    "\<And>n. le_isLeader (es n) \<Longrightarrow> le_token (es n) = token b \<Longrightarrow> owner b = n \<or> owner b = [] \<and> pd n = Some Leaving"
    "\<And>n m. le_isLeader (es n) \<Longrightarrow> le_isLeader (es m) \<Longrightarrow> le_token (es n) = le_token (es m) \<Longrightarrow> n = m"
  shows "group_inv k (es, pd, b)"
  unfolding group_inv_def Let_def prod.case using assms by blast

lemma group_inv_mono: "group_inv k g \<Longrightarrow> k \<le> l \<Longrightarrow> group_inv l g"
  by (auto simp: group_inv_def Let_def)

text \<open>A grant in the first half moves the token out of every other leader's reach.\<close>

lemma acquire_inv:
  assumes inv: "group_inv k (es, pd, b)" and k: "k < 2 ^ 64 - 1" and pd: "pd n = None"
    and acq: "lb_TryAcquire lb now b n ttl = (Inr a, b')"
  shows "group_inv (Suc k) (es, pd(n \<mapsto> Ticking (le_isLeader (es n)) a), b')"
proof (cases a)
  case False
  with refuse acq have b: "b' = b" by simp
  note d = group_invD[OF inv]
  show ?thesis
    unfolding b
  proof (rule group_invI)
    fix m was acq assume "(pd(n \<mapsto> Ticking (le_isLeader (es n)) a)) m = Some (Ticking was acq)"
    then show "le_isLeader (es m) = was" using d(4)[of m was acq] by (auto split: if_splits)
  next
    fix m assume "le_isLeader (es m)" "le_token (es m) = token b"
    then show "owner b = m \<or> owner b = [] \<and> (pd(n \<mapsto> Ticking (le_isLeader (es n)) a)) m = Some Leaving"
      using d(5)[of m] pd by (cases "m = n") simp_all
  qed (use le_SucI[OF d(1)] d(2,3,6) in blast)+
next
  case True
  from True assms(4) have acq: "lb_TryAcquire lb now b n ttl = (Inr True, b')" by simp
  note d = group_invD[OF inv]
  have nmax: "token b \<noteq> - 1"
    using d(1) k by (auto simp: unsigned_minus_1_eq_mask mask_eq_exp_minus_1)
  have le: "token b \<le> token b'" and ub: "unat (token b') \<le> Suc k"
    using grant_token[OF acq] u64_Suc_gt[OF nmax] d(1) u64_unat_Suc[OF nmax] by auto
  have own: "owner b' = m" if "le_isLeader (es m)" "le_token (es m) = token b'" for m
  proof -
    have "le_token (es m) \<le> token b" by (rule d(3))
    with that u64_Suc_gt[OF nmax] grant_token[OF acq] have "token b' = token b" "owner b = n" by auto
    with d(5)[OF that(1)] that(2) grant[OF acq] grant_token[OF acq] u64_Suc_gt[OF nmax] show ?thesis by auto
  qed
  show ?thesis
  proof (rule group_invI)
    fix m was acq assume "(pd(n \<mapsto> Ticking (le_isLeader (es n)) a)) m = Some (Ticking was acq)"
    then show "le_isLeader (es m) = was" using d(4)[of m was acq] by (auto split: if_splits)
  qed (use ub d(2) own order_trans[OF d(3) le] d(6) in blast)+
qed

lemma token_inv:
  assumes inv: "group_inv k (es, pd, b)" and pd: "pd n = Some (Ticking was acq)"
    and late: "acq \<Longrightarrow> owner b = n \<and> n \<noteq> []"
  shows "group_inv k (es(n := fst (tick_token lb was acq (es n) b)), pd(n := None), b)"
proof -
  note d = group_invD[OF inv]
  have e: "fst (tick_token lb was acq (es n) b) = es n\<lparr>le_token := token b, le_isLeader := acq\<rparr>"
    using d(4)[OF pd] by (cases "es n") (auto simp: tick_token_def read_token Let_def)
  let ?e = "es n\<lparr>le_token := token b, le_isLeader := acq\<rparr>"
  have others: "m = n" if "acq" "le_isLeader (es m)" "le_token (es m) = token b" for m
    using d(5)[OF that(2,3)] late[OF that(1)] by auto
  show ?thesis
    unfolding e
  proof (rule group_invI)
    fix m was' acq' assume "(pd(n := None)) m = Some (Ticking was' acq')"
    then show "le_isLeader ((es(n := ?e)) m) = was'" using d(4)[of m was' acq'] by (auto split: if_splits)
  next
    fix m assume "le_isLeader ((es(n := ?e)) m)" "le_token ((es(n := ?e)) m) = token b"
    then show "owner b = m \<or> owner b = [] \<and> (pd(n := None)) m = Some Leaving"
      using d(5)[of m] late by (cases "m = n") simp_all
  next
    fix m q assume "le_isLeader ((es(n := ?e)) m)" "le_isLeader ((es(n := ?e)) q)"
      "le_token ((es(n := ?e)) m) = le_token ((es(n := ?e)) q)"
    then consider "m = n" "q = n" | "m = n" "q \<noteq> n" "acq" "le_isLeader (es q)" "le_token (es q) = token b"
      | "m \<noteq> n" "q = n" "acq" "le_isLeader (es m)" "le_token (es m) = token b"
      | "le_isLeader (es m)" "le_isLeader (es q)" "le_token (es m) = le_token (es q)"
      by (auto split: if_splits)
    then show "m = q" using d(6) others by cases blast+
  qed (use d(1-3) in simp_all)
qed

lemma exit_inv:
  assumes inv: "group_inv k (es, pd, b)" and pd: "pd n = None" and rel: "lb_Release lb b n = (r, b')"
  shows "group_inv k (es(n := es n\<lparr>le_running := False\<rparr>), pd(n \<mapsto> Leaving), b')"
proof -
  note d = group_invD[OF inv] and r = release[OF rel]
  let ?es = "es(n := es n\<lparr>le_running := False\<rparr>)"
  have same: "le_isLeader (?es m) = le_isLeader (es m)" "le_token (?es m) = le_token (es m)"
    "le_NodeID (?es m) = le_NodeID (es m)" for m by simp_all
  show ?thesis
  proof (rule group_invI, unfold same)
    fix m was acq assume "(pd(n \<mapsto> Leaving)) m = Some (Ticking was acq)"
    then show "le_isLeader (es m) = was" using d(4)[of m was acq] by (auto split: if_splits)
  next
    fix m assume "le_isLeader (es m)" "le_token (es m) = token b'"
    then show "owner b' = m \<or> owner b' = [] \<and> (pd(n \<mapsto> Leaving)) m = Some Leaving"
      using d(5)[of m] r by (cases "m = n") auto
  qed (use d(1-3,6) r in auto)
qed

lemma leave_inv:
  assumes inv: "group_inv k (es, pd, b)"
  shows "group_inv k (es(n := Run_left (es n)), pd(n := None), b)"
proof -
  note d = group_invD[OF inv]
  let ?es = "es(n := Run_left (es n))"
  have same: "le_token (?es m) = le_token (es m)" "le_NodeID (?es m) = le_NodeID (es m)"
    "le_isLeader (?es m) \<longleftrightarrow> m \<noteq> n \<and> le_isLeader (es m)" for m by (simp_all add: Run_left_def)
  show ?thesis
  proof (rule group_invI, unfold same)
    fix m was acq assume "(pd(n := None)) m = Some (Ticking was acq)"
    then show "(m \<noteq> n \<and> le_isLeader (es m)) = was" using d(4)[of m was acq] by (auto split: if_splits)
  next
    fix m assume "m \<noteq> n \<and> le_isLeader (es m)" "le_token (es m) = token b"
    then show "owner b = m \<or> owner b = [] \<and> (pd(n := None)) m = Some Leaving" using d(5)[of m] by auto
  qed (use d(1-3,6) in auto)
qed

lemma step_inv:
  assumes inv: "group_inv k (es, pd, b)" and k: "k < 2 ^ 64 - 1" and late: "\<not> late_read owner c (es, pd, b)"
  shows "group_inv (Suc k) (group_step lb c (es, pd, b))"
proof -
  note d = group_invD[OF inv]
  have stay: "group_inv (Suc k) (es, pd, b)" using group_inv_mono[OF inv] by simp
  show ?thesis
  proof (cases c)
    case (Acquire n now)
    obtain r b' where acq: "lb_TryAcquire lb now b n (le_LeaseTTL (es n)) = (r, b')" by fastforce
    show ?thesis
    proof (cases r)
      case (Inl err)
      with acquire_error acq have "b' = b" by simp
      with Inl acq Acquire d(2) stay show ?thesis
        by (auto simp: tick_acquire_def fun_upd_idem)
    next
      case (Inr a)
      with acquire_inv[OF inv k, of n now _ a b'] acq Acquire d(2) stay show ?thesis
        by (auto simp: tick_acquire_def)
    qed
  next
    case (Token n)
    show ?thesis
    proof (cases "\<exists>was acq. pd n = Some (Ticking was acq)")
      case False
      then have "group_step lb (Token n) (es, pd, b) = (es, pd, b)"
        by (auto split: option.split elector_debt.split)
      with Token stay show ?thesis by simp
    next
      case True
      then obtain was acq where wa: "pd n = Some (Ticking was acq)" by blast
      have "acq \<Longrightarrow> owner b = n \<and> n \<noteq> []" using late Token wa by auto
      from group_inv_mono[OF token_inv[OF inv wa this]] Token wa show ?thesis by simp
    qed
  next
    case (Enter n)
    then show ?thesis using stay by (auto simp: Run_enter_def group_inv_def)
  next
    case (Exit n)
    obtain r b' where rel: "lb_Release lb b n = (r, b')" by fastforce
    from group_inv_mono[OF exit_inv[OF inv _ rel]] rel Exit d(2) stay show ?thesis
      by (simp add: Run_exit_def)
  next
    case (Leave n)
    from group_inv_mono[OF leave_inv[OF inv]] Leave stay show ?thesis by simp
  qed
qed

lemma run_inv:
  "group_inv k g \<Longrightarrow> k + length cs < 2 ^ 64 \<Longrightarrow> \<not> late_reads lb owner cs g \<Longrightarrow>
   group_inv (k + length cs) (group_run lb cs g)"
proof (induction cs arbitrary: k g)
  case Nil
  then show ?case by (simp add: group_run_def)
next
  case (Cons c cs)
  obtain es pd b where g: "g = (es, pd, b)" by (metis prod.exhaust)
  from Cons.prems g have "group_inv (Suc k) (group_step lb c g)"
    using step_inv[of k es pd b c] by simp
  from Cons.IH[OF this] Cons.prems show ?case by (simp add: group_run_def)
qed

lemma shared_token_needs_late_read:
  assumes "group_inv 0 g" "length cs < 2 ^ 64" "group_run lb cs g = (es, pd, b)" "\<not> late_reads lb owner cs g"
    and "le_isLeader (es n)"
  shows "(le_isLeader (es m) \<longrightarrow> le_token (es n) = le_token (es m) \<longrightarrow> n = m) \<and>
    (le_token (es n) = token b \<longrightarrow> owner b = n \<or> owner b = [] \<and> pd n = Some Leaving)"
proof -
  have "group_inv (length cs) (es, pd, b)"
    using run_inv[of 0 g cs] assms(1-4) by simp
  from group_invD(5,6)[OF this] assms(5) show ?thesis by blast
qed

end

interpretation mem_lease: lease_laws mem_backend mb_holder mb_token
  by unfold_locales (auto simp: mem_backend_defs split: if_splits)


section \<open>Sequences of calls on the memory backend\<close>

datatype lease_op = AcquireOp node_id int int | RenewOp node_id int int | ReleaseOp node_id

fun lease_op_node :: "lease_op \<Rightarrow> node_id" where
  "lease_op_node (AcquireOp n now ttl) = n"
| "lease_op_node (RenewOp n now ttl) = n"
| "lease_op_node (ReleaseOp n) = n"

fun lease_op_before :: "int \<Rightarrow> lease_op \<Rightarrow> bool" where
  "lease_op_before t (AcquireOp n now ttl) = (now \<le> t)"
| "lease_op_before t (RenewOp n now ttl) = True"
| "lease_op_before t (ReleaseOp n) = True"

fun lease_call :: "lease_op \<Rightarrow> MemoryLeaseBackend \<Rightarrow> bool \<times> MemoryLeaseBackend" where
  "lease_call (AcquireOp n now ttl) b = (let (r, b') = mem_TryAcquire now b n ttl in (r = Inr True, b'))"
| "lease_call (RenewOp n now ttl) b = (let (r, b') = mem_Renew now b n ttl in (r = None, b'))"
| "lease_call (ReleaseOp n) b = (let (r, b') = mem_Release b n in (False, b'))"

fun lease_calls :: "lease_op list \<Rightarrow> MemoryLeaseBackend \<Rightarrow> bool list \<times> MemoryLeaseBackend" where
  "lease_calls [] b = ([], b)"
| "lease_calls (c # cs) b =
     (let (r, b') = lease_call c b; (rs, b'') = lease_calls cs b' in (r # rs, b''))"

lemma other_call_refused:
  assumes "mb_holder b = n" "n \<noteq> []" "lease_op_node c \<noteq> n" "lease_op_before (mb_expires b) c"
  shows "lease_call c b = (False, b)"
  using assms by (cases c) (auto simp: mem_TryAcquire_def mem_Renew_def mem_Release_def)

text \<open>While a lease granted to a node \<open>n\<close> has not expired, no sequence of calls of other
  nodes obtains or extends it, takes it away, or moves the fencing token: every one of them is
  refused and the backend still reports \<open>n\<close> as the holder up to and including the instant of
  expiry.\<close>
theorem lease_exclusive:
  assumes granted: "mem_TryAcquire now b n ttl = (Inr True, b')" and n: "n \<noteq> []"
    and others: "\<forall>c \<in> set cs. lease_op_node c \<noteq> n \<and> lease_op_before (now + ttl) c"
    and t: "t \<le> now + ttl"
  shows "lease_calls cs b' = (replicate (length cs) False, b') \<and> mem_CurrentHolder t b' = Inr n"
proof -
  have b': "mb_holder b' = n" "mb_expires b' = now + ttl"
    using granted by (auto simp: mem_TryAcquire_def split: if_splits)
  have "lease_calls cs b' = (replicate (length cs) False, b')"
    using others by (induction cs) (simp_all add: other_call_refused[OF b'(1) n] b'(2))
  with b' t show ?thesis by (simp add: mem_CurrentHolder_def)
qed

lemma lease_exclusive_witness:
  "lease_calls [AcquireOp ''b'' 12 5, ReleaseOp ''b'', RenewOp ''c'' 13 9]
     (snd (mem_TryAcquire 10 NewMemoryLeaseBackend ''a'' 5)) =
   ([False, False, False], snd (mem_TryAcquire 10 NewMemoryLeaseBackend ''a'' 5))"
  using lease_exclusive[of 10 NewMemoryLeaseBackend "''a''" 5
      "snd (mem_TryAcquire 10 NewMemoryLeaseBackend ''a'' 5)"
      "[AcquireOp ''b'' 12 5, ReleaseOp ''b'', RenewOp ''c'' 13 9]" 15]
  by (simp add: mem_TryAcquire_def NewMemoryLeaseBackend_def numeral_3_eq_3)

definition new_group :: "MemoryLeaseBackend group" where
  "new_group = (\<lambda>n. NewLeaderElector n, Map.empty, NewMemoryLeaseBackend)"

lemma new_group_inv: "mem_lease.group_inv 0 new_group"
  by (simp add: mem_lease.group_inv_def new_group_def NewLeaderElector_def NewMemoryLeaseBackend_def)


definition demo_ticks :: "elector_call list" where
  "demo_ticks = [Enter ''a'', Enter ''b'', Acquire ''a'' 1, Acquire ''b'' 2, Token ''a'', Token ''b'',
     Acquire ''b'' 20000000000, Token ''b'']"

lemmas group_eval = new_group_def group_run_def tick_acquire_def tick_token_def
  mem_backend_defs NewLeaderElector_def NewMemoryLeaseBackend_def Run_enter_def


lemma acquired_token:
  "fst (tick_token mem_backend (le_isLeader e) True e b) = e\<lparr>le_token := mb_token b, le_isLeader := True\<rparr>"
  by (cases e) (simp add: tick_token_def mem_backend_def mem_Token_def Let_def)

text \<open>The late read happens: when the lease granted in the first half of an elector's tick runs out
  before the second half and another node's tick takes it over in that gap, the first elector stores
  the token of the other node's grant.  Both believe to be leader, with one and the same token, whatever
  the electors and the backend were before.\<close>
theorem lease_token_race:
  assumes "le_running (es n)" "le_running (es m)" "n \<noteq> m" "pd n = None" "pd m = None"
    and "le_NodeID (es n) = n" "le_NodeID (es m) = m"
    and "mb_expires b < t \<or> mb_holder b = [] \<or> mb_holder b = n" "t + le_LeaseTTL (es n) < u"
    and "group_run mem_backend [Acquire n t, Acquire m u, Token m, Token n] (es, pd, b) = (es', pd', b')"
  shows "le_isLeader (es' n) \<and> le_isLeader (es' m) \<and> le_token (es' n) = le_token (es' m) \<and>
    le_token (es' n) = mb_token b' \<and> mb_holder b' = m"
proof -
  obtain b1 where 1: "mem_TryAcquire t b n (le_LeaseTTL (es n)) = (Inr True, b1)"
    and e1: "mb_expires b1 = t + le_LeaseTTL (es n)"
    using assms(8) by (cases "mb_expires b < t \<or> mb_holder b = []") (auto simp: mem_TryAcquire_def)
  have 2: "mem_TryAcquire u b1 m (le_LeaseTTL (es m)) =
      (Inr True, b1\<lparr>mb_holder := m, mb_expires := u + le_LeaseTTL (es m), mb_token := mb_token b1 + 1,
        mb_genLock := (mb_genLock b1)(m \<mapsto> mb_token b1 + 1)\<rparr>)"
    using assms(9) e1 by (simp add: mem_TryAcquire_def)
  let ?b2 = "b1\<lparr>mb_holder := m, mb_expires := u + le_LeaseTTL (es m), mb_token := mb_token b1 + 1,
        mb_genLock := (mb_genLock b1)(m \<mapsto> mb_token b1 + 1)\<rparr>"
  have a: "tick_acquire mem_backend t (es n) b = (Some (Ticking (le_isLeader (es n)) True), b1)"
    using 1 assms(6) by (simp add: tick_acquire_def mem_backend_def)
  have c: "tick_acquire mem_backend u (es m) b1 = (Some (Ticking (le_isLeader (es m)) True), ?b2)"
    using 2 assms(7) by (simp add: tick_acquire_def mem_backend_def)
  have "es' = es(m := es m\<lparr>le_token := mb_token ?b2, le_isLeader := True\<rparr>,
      n := es n\<lparr>le_token := mb_token ?b2, le_isLeader := True\<rparr>) \<and> b' = ?b2"
    using assms(1-5,10) by (auto simp: group_run_def a c acquired_token)
  then show ?thesis using assms(3) by simp
qed

lemma lease_token_race_witness:
  "\<exists>es pd b. group_run mem_backend [Enter ''a'', Enter ''b'', Acquire ''a'' 1, Acquire ''b'' 20000000000,
       Token ''b'', Token ''a''] new_group = (es, pd, b) \<and>
     le_isLeader (es ''a'') \<and> le_isLeader (es ''b'') \<and> le_token (es ''a'') = le_token (es ''b'')"
proof -
  obtain es pd b where g: "group_run mem_backend [Enter ''a'', Enter ''b''] new_group = (es, pd, b)"
    by (metis prod.exhaust)
  obtain es' pd' b' where run: "group_run mem_backend [Acquire ''a'' 1, Acquire ''b'' 20000000000,
      Token ''b'', Token ''a''] (es, pd, b) = (es', pd', b')" by (metis prod.exhaust)
  have "group_run mem_backend [Enter ''a'', Enter ''b'', Acquire ''a'' 1, Acquire ''b'' 20000000000,
      Token ''b'', Token ''a''] new_group = (es', pd', b')"
    using g run by (simp add: group_run_def)
  moreover have "le_running (es ''a'')" "le_running (es ''b'')" "pd = Map.empty" "le_NodeID (es ''a'') = ''a''"
    "le_NodeID (es ''b'') = ''b''" "mb_holder b = []" "le_LeaseTTL (es ''a'') = 10000000000"
    using g by (auto simp: group_eval)
  ultimately show ?thesis using lease_token_race[OF _ _ _ _ _ _ _ _ _ run] by auto
qed

end
