(* ===== verification/Replication_Log.thy ===== *)
theory Replication_Log
  imports Pebble Replication_Types
begin

text \<open>
  \<open>internal/replication/log.go\<close>: the append-only log of replicated writes, kept in the
  storage engine under \<open>0x2F 0x01 seq\<close> with the head sequence under \<open>seq_counter\<close>.  The
  log's state is the record \<open>ReplicationLog\<close>; each method is a function from the old state to
  the new state and the method's result.  \<open>ReadSince\<close> and \<open>Prune\<close> release the mutex half way,
  so each is the composition of a locked first part and a second part that only touches the
  database.  The msgpack library is a parameter, the record \<open>entry_codec\<close>.

  The abstract log is the map \<open>log_abs\<close> from sequence numbers to entries, between a low
  watermark (exclusive) and a head (inclusive); \<open>log_inv\<close> relates a state to the two.
\<close>

section \<open>State and operations\<close>

record entry_codec =
  ec_marshal :: "ReplicationEntry \<Rightarrow> nat + bytes"
  ec_unmarshal :: "bytes \<Rightarrow> nat + ReplicationEntry"

definition codec_ok :: "entry_codec \<Rightarrow> bool" where
  "codec_ok c \<longleftrightarrow> (\<forall>e b. ec_marshal c e = Inr b \<longrightarrow> ec_unmarshal c b = Inr e)"

datatype log_error = LogDb db_error | LogMarshal nat | MalformedEntry u64 nat | PruneCommit db_error

record 'db ReplicationLog =
  rl_db :: 'db
  rl_seq :: u64
  rl_init :: bool
  rl_lastPruned :: u64
  rl_subs :: "(nat \<times> bool) list"
  rl_nextChan :: nat

definition NewReplicationLog :: "'db \<Rightarrow> 'db ReplicationLog" where
  "NewReplicationLog db = \<lparr>rl_db = db, rl_seq = 0, rl_init = False, rl_lastPruned = 0,
     rl_subs = [], rl_nextChan = 0\<rparr>"

definition ensureSeqInit :: "'db pebble \<Rightarrow> 'db ReplicationLog \<Rightarrow> db_error + 'db ReplicationLog" where
  "ensureSeqInit pb l =
     (if rl_init l then Inr l
      else case pb_get pb (rl_db l) seqCounterKey of
             GetErr e \<Rightarrow> Inl e
           | ErrNotFound \<Rightarrow> Inr (l\<lparr>rl_seq := 0, rl_init := True\<rparr>)
           | Found val \<Rightarrow>
               Inr ((if length val = 0 then l\<lparr>rl_seq := 0\<rparr>
                     else if length val \<ge> 8 then l\<lparr>rl_seq := Uint64 val\<rparr> else l)\<lparr>rl_init := True\<rparr>))"

definition persistSeq :: "'db pebble \<Rightarrow> 'db ReplicationLog \<Rightarrow> db_error + 'db" where
  "persistSeq pb l = pb_set pb (rl_db l) seqCounterKey (PutUint64 (rl_seq l))"

text \<open>A subscriber is a channel of capacity one: an identity and whether a signal is pending.\<close>

definition notifySubscribers :: "'db ReplicationLog \<Rightarrow> 'db ReplicationLog" where
  "notifySubscribers l = l\<lparr>rl_subs := map (\<lambda>(ch, pending). (ch, True)) (rl_subs l)\<rparr>"

definition Subscribe :: "'db ReplicationLog \<Rightarrow> nat \<times> 'db ReplicationLog" where
  "Subscribe l = (rl_nextChan l,
     l\<lparr>rl_subs := rl_subs l @ [(rl_nextChan l, False)], rl_nextChan := rl_nextChan l + 1\<rparr>)"

fun remove_sub :: "nat \<Rightarrow> (nat \<times> bool) list \<Rightarrow> (nat \<times> bool) list" where
  "remove_sub ch [] = []"
| "remove_sub ch (s # ss) = (if fst s = ch then ss else s # remove_sub ch ss)"

definition unsubscribe :: "nat \<Rightarrow> 'db ReplicationLog \<Rightarrow> 'db ReplicationLog" where
  "unsubscribe ch l = l\<lparr>rl_subs := remove_sub ch (rl_subs l)\<rparr>"

definition Append ::
  "'db pebble \<Rightarrow> entry_codec \<Rightarrow> i64 \<Rightarrow> WALOp \<Rightarrow> bytes \<Rightarrow> bytes \<Rightarrow> 'db ReplicationLog \<Rightarrow>
     'db ReplicationLog \<times> (log_error + u64)" where
  "Append pb c now op key val l =
     (case ensureSeqInit pb l of
        Inl e \<Rightarrow> (l, Inl (LogDb e))
      | Inr l0 \<Rightarrow>
          (let l1 = l0\<lparr>rl_seq := rl_seq l0 + 1\<rparr>;
               entry = \<lparr>Seq = rl_seq l1, Op = op, Key = key, Value = val, TimestampNS = now\<rparr>
           in case ec_marshal c entry of
                Inl e \<Rightarrow> (l1\<lparr>rl_seq := rl_seq l1 - 1\<rparr>, Inl (LogMarshal e))
              | Inr data \<Rightarrow>
                  (case pb_commit pb (rl_db l1)
                     [BSet (replicationEntryKey (rl_seq l1)) data,
                      BSet seqCounterKey (PutUint64 (rl_seq l1))] of
                     Inl e \<Rightarrow> (l1\<lparr>rl_seq := rl_seq l1 - 1\<rparr>, Inl (LogDb e))
                   | Inr db' \<Rightarrow> (notifySubscribers (l1\<lparr>rl_db := db'\<rparr>), Inr (rl_seq l1)))))"

fun read_loop :: "entry_codec \<Rightarrow> nat \<Rightarrow> (bytes \<times> bytes) list \<Rightarrow> log_error + ReplicationEntry list" where
  "read_loop c n [] = Inr []"
| "read_loop c 0 (kv # kvs) = Inr []"
| "read_loop c (Suc n) ((k, v) # kvs) =
     (case ec_unmarshal c v of
        Inl e \<Rightarrow> Inl (MalformedEntry (fst (entrySeqFromKey k)) e)
      | Inr entry \<Rightarrow> map_sum id (\<lambda>es. entry # es) (read_loop c n kvs))"

definition ReadSince_scan ::
  "'db pebble \<Rightarrow> entry_codec \<Rightarrow> 'db \<Rightarrow> u64 \<Rightarrow> u64 \<Rightarrow> int \<Rightarrow> log_error + ReplicationEntry list" where
  "ReadSince_scan pb c db currentSeq afterSeq lim0 =
     (let lim = (if lim0 \<le> 0 then 1000 else lim0);
          startKey = replicationEntryKey (afterSeq + 1);
          endKey = (if currentSeq = - 1 then entryRangeUpper
                    else Some (replicationEntryKey (currentSeq + 1)))
      in case pb_iter pb db startKey endKey of
           Inl e \<Rightarrow> Inl (LogDb e)
         | Inr kvs \<Rightarrow> read_loop c (nat lim) kvs)"

definition ReadSince ::
  "'db pebble \<Rightarrow> entry_codec \<Rightarrow> u64 \<Rightarrow> int \<Rightarrow> 'db ReplicationLog \<Rightarrow>
     'db ReplicationLog \<times> (log_error + ReplicationEntry list)" where
  "ReadSince pb c afterSeq lim l =
     (case ensureSeqInit pb l of
        Inl e \<Rightarrow> (l, Inl (LogDb e))
      | Inr l1 \<Rightarrow> (l1, ReadSince_scan pb c (rl_db l1) (rl_seq l1) afterSeq lim))"

text \<open>The part of \<open>Prune\<close> under the mutex returns the first sequence to delete, or nothing to do.\<close>

definition Prune_begin ::
  "'db pebble \<Rightarrow> u64 \<Rightarrow> 'db ReplicationLog \<Rightarrow> 'db ReplicationLog \<times> (log_error + u64 option)" where
  "Prune_begin pb untilSeq l =
     (case ensureSeqInit pb l of
        Inl e \<Rightarrow> (l, Inl (LogDb e))
      | Inr l1 \<Rightarrow>
          if untilSeq \<ge> rl_seq l1 then (l1, Inr None)
          else if untilSeq \<le> rl_lastPruned l1 then (l1, Inr None)
          else (l1\<lparr>rl_lastPruned := untilSeq\<rparr>, Inr (Some (rl_lastPruned l1 + 1))))"

text \<open>Failures of the flush and of the compaction are logged, not returned.\<close>

definition Prune_finish ::
  "'db pebble \<Rightarrow> u64 \<Rightarrow> u64 \<Rightarrow> 'db ReplicationLog \<Rightarrow> 'db ReplicationLog \<times> log_error option" where
  "Prune_finish pb from untilSeq l =
     (let startKey = replicationEntryKey from; endKey = replicationEntryKey (untilSeq + 1)
      in case pb_commit pb (rl_db l) [BDeleteRange startKey endKey] of
           Inl e \<Rightarrow> (l, Some (PruneCommit e))
         | Inr db1 \<Rightarrow>
             (let db2 = (case pb_flush pb db1 of Inl e \<Rightarrow> db1 | Inr db2 \<Rightarrow> db2);
                  db3 = (case pb_compact pb db2 startKey endKey of Inl e \<Rightarrow> db2 | Inr db3 \<Rightarrow> db3)
              in (l\<lparr>rl_db := db3\<rparr>, None)))"

definition Prune :: "'db pebble \<Rightarrow> u64 \<Rightarrow> 'db ReplicationLog \<Rightarrow> 'db ReplicationLog \<times> log_error option" where
  "Prune pb untilSeq l =
     (case Prune_begin pb untilSeq l of
        (l1, Inl e) \<Rightarrow> (l1, Some e)
      | (l1, Inr None) \<Rightarrow> (l1, None)
      | (l1, Inr (Some from)) \<Rightarrow> Prune_finish pb from untilSeq l1)"

definition CurrentSeq :: "'db pebble \<Rightarrow> 'db ReplicationLog \<Rightarrow> 'db ReplicationLog \<times> u64" where
  "CurrentSeq pb l = (case ensureSeqInit pb l of Inl e \<Rightarrow> (l, 0) | Inr l1 \<Rightarrow> (l1, rl_seq l1))"

section \<open>The abstract log\<close>

definition log_abs :: "entry_codec \<Rightarrow> (bytes \<rightharpoonup> bytes) \<Rightarrow> u64 \<rightharpoonup> ReplicationEntry" where
  "log_abs c m s =
     (case m (replicationEntryKey s) of
        None \<Rightarrow> None
      | Some v \<Rightarrow> (case ec_unmarshal c v of Inl e \<Rightarrow> None | Inr entry \<Rightarrow> Some entry))"

text \<open>
  On disk: the counter holds the head, the entry keyspace holds exactly the keys of the
  sequences above the low watermark up to the head, and each decodes to an entry of its own
  sequence.
\<close>

definition disk_ok :: "entry_codec \<Rightarrow> (bytes \<rightharpoonup> bytes) \<Rightarrow> u64 \<Rightarrow> u64 \<Rightarrow> bool" where
  "disk_ok c m lo hi \<longleftrightarrow>
     lo \<le> hi \<and>
     (case m seqCounterKey of None \<Rightarrow> hi = 0 | Some v \<Rightarrow> v = PutUint64 hi) \<and>
     (\<forall>k. prefix entryRangeLower k \<longrightarrow>
        (m k \<noteq> None \<longleftrightarrow> (\<exists>s. k = replicationEntryKey s \<and> lo < s \<and> s \<le> hi))) \<and>
     (\<forall>s. lo < s \<longrightarrow> s \<le> hi \<longrightarrow> (\<exists>e. log_abs c m s = Some e \<and> Seq e = s))"

definition log_inv ::
  "('db \<Rightarrow> bytes \<rightharpoonup> bytes) \<Rightarrow> entry_codec \<Rightarrow> u64 \<Rightarrow> u64 \<Rightarrow> 'db ReplicationLog \<Rightarrow> bool" where
  "log_inv view c lo hi l \<longleftrightarrow>
     disk_ok c (view (rl_db l)) lo hi \<and> rl_lastPruned l \<le> lo \<and> (rl_init l \<longrightarrow> rl_seq l = hi)"

lemma entryKey_prefix: "prefix entryRangeLower (replicationEntryKey s)"
  by (simp add: entryRangeLower_def replicationEntryKey_def)

lemma entryKey_below_upper: "below (replicationEntryKey s) entryRangeUpper"
  by (simp add: entryRangeUpper_eq replicationEntryKey_def prefix_defs)

text \<open>A key between two entry keys, or from an entry key up to the end of the entry range,
  carries the entry prefix.\<close>

lemma in_entry_range:
  assumes "replicationEntryKey a \<le> k" and "below k hi"
    and hi: "hi = entryRangeUpper \<or> (\<exists>b. hi = Some (replicationEntryKey b))"
  shows "prefix entryRangeLower k"
proof -
  have "entryRangeLower \<le> replicationEntryKey a"
    using entryKey_prefix[of a] bound_exact by blast
  with assms(1) have "entryRangeLower \<le> k" by simp
  moreover have "below k entryRangeUpper"
    using hi assms(2) entryKey_below_upper by (auto simp: entryRangeUpper_eq intro: less_trans)
  ultimately show ?thesis
    by (simp add: bound_exact entryRangeUpper_def)
qed

lemma meta_not_entry [simp]: "\<not> prefix entryRangeLower (metaKey name)"
  by (simp add: entryRangeLower_def metaKey_def prefix_defs)

lemma counter_not_entry [simp]: "\<not> prefix entryRangeLower seqCounterKey"
  "replicationEntryKey s \<noteq> seqCounterKey" "seqCounterKey \<noteq> replicationEntryKey s"
  by (simp_all add: seqCounterKey_def)


section \<open>Initialisation and Append\<close>

lemma ensureSeqInit_inv:
  assumes "pebble_spec pb view" "log_inv view c lo hi l" "ensureSeqInit pb l = Inr l1"
  shows "log_inv view c lo hi l1 \<and> rl_seq l1 = hi \<and> rl_init l1 \<and> rl_db l1 = rl_db l \<and>
         rl_lastPruned l1 = rl_lastPruned l \<and> rl_subs l1 = rl_subs l"
proof (cases "rl_init l")
  case True
  with assms show ?thesis by (auto simp: ensureSeqInit_def log_inv_def)
next
  case False
  have cnt: "case view (rl_db l) seqCounterKey of None \<Rightarrow> hi = 0 | Some v \<Rightarrow> v = PutUint64 hi"
    using assms(2) by (simp add: log_inv_def disk_ok_def)
  show ?thesis
  proof (cases "pb_get pb (rl_db l) seqCounterKey")
    case (Found v)
    with spec_get_Found[OF assms(1)] cnt have "v = PutUint64 hi" by fastforce
    with Found False assms(2,3) show ?thesis
      by (auto simp: ensureSeqInit_def log_inv_def)
  next
    case ErrNotFound
    with spec_get_NotFound[OF assms(1)] cnt have "hi = 0" by fastforce
    with ErrNotFound False assms(2,3) show ?thesis
      by (auto simp: ensureSeqInit_def log_inv_def)
  qed (use False assms(3) in \<open>simp add: ensureSeqInit_def\<close>)
qed

lemma disk_ok_present: "disk_ok c m lo hi \<Longrightarrow> lo < s \<Longrightarrow> s \<le> hi \<Longrightarrow> m (replicationEntryKey s) \<noteq> None"
  by (auto simp: disk_ok_def log_abs_def split: option.splits)

lemma log_abs_upd: "log_abs c (m(replicationEntryKey s \<mapsto> v, seqCounterKey \<mapsto> w)) t =
    (if t = s then (case ec_unmarshal c v of Inl e \<Rightarrow> None | Inr x \<Rightarrow> Some x) else log_abs c m t)"
  by (simp add: log_abs_def entry_key.enc_inject)

lemma disk_ok_append:
  assumes ok: "disk_ok c m lo hi" and hi: "hi \<noteq> - 1"
    and v: "ec_unmarshal c v = Inr e" "Seq e = hi + 1"
  shows "disk_ok c (m(replicationEntryKey (hi + 1) \<mapsto> v, seqCounterKey \<mapsto> PutUint64 (hi + 1))) lo (hi + 1)"
proof -
  let ?m = "m(replicationEntryKey (hi + 1) \<mapsto> v, seqCounterKey \<mapsto> PutUint64 (hi + 1))"
  have lo: "lo \<le> hi" "hi < hi + 1" using ok u64_Suc_gt[OF hi] by (auto simp: disk_ok_def)
  have le: "s \<le> hi + 1 \<longleftrightarrow> s \<le> hi \<or> s = hi + 1" for s
    using u64_less_Suc_iff[OF hi, of s] by (auto simp: order_le_less)
  have keys: "?m k \<noteq> None \<longleftrightarrow> (\<exists>s. k = replicationEntryKey s \<and> lo < s \<and> s \<le> hi + 1)"
    if k: "prefix entryRangeLower k" for k
  proof (cases "k = replicationEntryKey (hi + 1)")
    case True
    with lo show ?thesis by auto
  next
    case False
    have "k \<noteq> seqCounterKey" using k counter_not_entry by blast
    with False have "?m k = m k" by simp
    moreover have "m k \<noteq> None \<longleftrightarrow> (\<exists>s. k = replicationEntryKey s \<and> lo < s \<and> s \<le> hi)"
      using ok k by (simp add: disk_ok_def)
    ultimately show ?thesis using False le by auto
  qed
  have "\<exists>x. log_abs c ?m s = Some x \<and> Seq x = s" if s: "lo < s" "s \<le> hi + 1" for s
    using ok s v le by (auto simp: disk_ok_def log_abs_upd)
  with keys lo show ?thesis by (simp add: disk_ok_def)
qed

lemma Append_InrD:
  assumes "Append pb c now op key val l = (l', Inr s)" "ensureSeqInit pb l = Inr l0"
  shows "\<exists>data db'.
    ec_marshal c \<lparr>Seq = rl_seq l0 + 1, Op = op, Key = key, Value = val, TimestampNS = now\<rparr> = Inr data \<and>
    pb_commit pb (rl_db l0) [BSet (replicationEntryKey (rl_seq l0 + 1)) data,
      BSet seqCounterKey (PutUint64 (rl_seq l0 + 1))] = Inr db' \<and>
    l' = notifySubscribers (l0\<lparr>rl_seq := rl_seq l0 + 1, rl_db := db'\<rparr>) \<and> s = rl_seq l0 + 1"
  using assms by (auto simp: Append_def Let_def split: sum.splits)

lemma Append_success:
  assumes pb: "pebble_spec pb view" and c: "codec_ok c" and inv: "log_inv view c lo hi l"
    and hi: "hi \<noteq> - 1" and app: "Append pb c now op key val l = (l', Inr s)"
  shows "s = hi + 1 \<and> log_inv view c lo s l' \<and>
    log_abs c (view (rl_db l')) = (log_abs c (view (rl_db l)))(s \<mapsto>
      \<lparr>Seq = s, Op = op, Key = key, Value = val, TimestampNS = now\<rparr>) \<and>
    rl_subs l' = map (\<lambda>(ch, p). (ch, True)) (rl_subs l)"
proof -
  from app obtain l0 where l0: "ensureSeqInit pb l = Inr l0"
    by (auto simp: Append_def split: sum.splits)
  have i: "log_inv view c lo hi l0" "rl_seq l0 = hi" "rl_init l0" "rl_db l0 = rl_db l"
      "rl_lastPruned l0 = rl_lastPruned l" "rl_subs l0 = rl_subs l"
    using ensureSeqInit_inv[OF pb inv l0] by auto
  let ?e = "\<lparr>Seq = hi + 1, Op = op, Key = key, Value = val, TimestampNS = now\<rparr>"
  obtain data db' where mar: "ec_marshal c ?e = Inr data"
    and com: "pb_commit pb (rl_db l) [BSet (replicationEntryKey (hi + 1)) data,
                BSet seqCounterKey (PutUint64 (hi + 1))] = Inr db'"
    and l': "l' = notifySubscribers (l0\<lparr>rl_seq := hi + 1, rl_db := db'\<rparr>)" and s: "s = hi + 1"
    using Append_InrD[OF app l0] unfolding i(2,4) by blast
  have un: "ec_unmarshal c data = Inr ?e" using c mar by (simp add: codec_ok_def)
  have v: "view db' = (view (rl_db l))(replicationEntryKey (hi + 1) \<mapsto> data, seqCounterKey \<mapsto> PutUint64 (hi + 1))"
    using spec_commit[OF pb com] by simp
  have "disk_ok c (view db') lo (hi + 1)"
    using disk_ok_append[OF _ hi un] inv v by (simp add: log_inv_def)
  moreover have "log_abs c (view db') = (log_abs c (view (rl_db l)))(hi + 1 \<mapsto> ?e)"
    by (simp add: fun_eq_iff v log_abs_upd un)
  ultimately show ?thesis
    using i inv l' s by (simp add: log_inv_def notifySubscribers_def)
qed

lemma Append_failure:
  assumes pb: "pebble_spec pb view" and inv: "log_inv view c lo hi l"
    and app: "Append pb c now op key val l = (l', Inl e)"
  shows "log_inv view c lo hi l' \<and> rl_db l' = rl_db l \<and> rl_subs l' = rl_subs l"
proof (cases "ensureSeqInit pb l")
  case (Inl e)
  with app inv show ?thesis by (auto simp: Append_def)
next
  case (Inr l0)
  with ensureSeqInit_inv[OF pb inv Inr] app show ?thesis
    by (auto simp: Append_def Let_def log_inv_def split: sum.splits)
qed

section \<open>ReadSince\<close>

text \<open>The sequences that a read after \<open>a\<close> sees, as numbers.\<close>

definition seqs_after :: "u64 \<Rightarrow> u64 \<Rightarrow> u64 \<Rightarrow> nat list" where
  "seqs_after lo hi a = [Suc (max (unat lo) (unat a)) ..< Suc (unat hi)]"

lemma seqs_after_bound: "n \<in> set (seqs_after lo hi a) \<Longrightarrow> n < 2 ^ 64"
  using unat_64_lt[of hi] by (auto simp: seqs_after_def)

lemma seqs_after_iff: "n \<in> set (seqs_after lo hi a) \<longleftrightarrow>
    (\<exists>s. n = unat s \<and> lo < s \<and> a < s \<and> s \<le> hi)"
proof
  assume n: "n \<in> set (seqs_after lo hi a)"
  have "unat (word_of_nat n :: u64) = n"
    using seqs_after_bound[OF n] by (simp add: unat_of_nat)
  then have "n = unat (word_of_nat n :: u64) \<and> lo < word_of_nat n \<and> a < word_of_nat n \<and> word_of_nat n \<le> hi"
    using n by (auto simp: seqs_after_def word_less_nat_alt word_le_nat_alt)
  then show "\<exists>s. n = unat s \<and> lo < s \<and> a < s \<and> s \<le> hi" by blast
qed (auto simp: seqs_after_def word_less_nat_alt word_le_nat_alt)

lemma scan_range:
  assumes ok: "disk_ok c m lo hi" and it: "iter_ok m (replicationEntryKey (a + 1)) e kvs"
    and a: "a \<noteq> - 1" and cur: "cur \<le> hi"
    and e: "e = (if cur = - 1 then entryRangeUpper else Some (replicationEntryKey (cur + 1)))"
  shows "kvs = map (\<lambda>n. let k = replicationEntryKey (word_of_nat n) in (k, the (m k))) (seqs_after lo cur a)"
    (is "kvs = map ?f ?ns")
proof -
  have key_in: "(k, v) \<in> set kvs \<longleftrightarrow>
      (\<exists>s. k = replicationEntryKey s \<and> lo < s \<and> a < s \<and> s \<le> cur \<and> m k = Some v)" for k v
  proof -
    have "(k, v) \<in> set kvs \<longleftrightarrow> replicationEntryKey (a + 1) \<le> k \<and> below k e \<and> m k = Some v"
      using it by (simp add: iter_ok_def)
    also have "\<dots> \<longleftrightarrow> (\<exists>s. k = replicationEntryKey s \<and> lo < s \<and> a < s \<and> s \<le> cur \<and> m k = Some v)"
    proof
      assume h: "replicationEntryKey (a + 1) \<le> k \<and> below k e \<and> m k = Some v"
      then have "prefix entryRangeLower k"
        using in_entry_range[of "a + 1" k e] e by (auto split: if_splits)
      with ok h obtain s where s: "k = replicationEntryKey s" "lo < s" "s \<le> hi"
        unfolding disk_ok_def by blast
      have "a < s"
        using h s(1) u64_less_Suc_iff[OF a, of s] a
        by (metis entry_key.enc_le inc_le linorder_not_less u64_Suc_gt order_less_le_trans)
      moreover have "s \<le> cur"
        using h s(1) e u64_less_Suc_iff[of cur s]
        by (cases "cur = - 1") (auto simp: entry_key.enc_less word_order.extremum)
      ultimately show "\<exists>s. k = replicationEntryKey s \<and> lo < s \<and> a < s \<and> s \<le> cur \<and> m k = Some v"
        using h s by blast
    next
      assume "\<exists>s. k = replicationEntryKey s \<and> lo < s \<and> a < s \<and> s \<le> cur \<and> m k = Some v"
      then obtain s where s: "k = replicationEntryKey s" "a < s" "s \<le> cur" "m k = Some v" by blast
      have "a + 1 \<le> s" using s(2) a by (simp add: inc_le)
      moreover have "below k e"
        using s e u64_less_Suc_iff[of cur s] entryKey_below_upper[of s]
        by (cases "cur = - 1") (auto simp: entry_key.enc_less)
      ultimately show "replicationEntryKey (a + 1) \<le> k \<and> below k e \<and> m k = Some v"
        using s by (simp add: entry_key.enc_le)
    qed
    finally show ?thesis .
  qed
  have present: "m (replicationEntryKey s) \<noteq> None" if "lo < s" "s \<le> cur" for s
    using that cur disk_ok_present[OF ok, of s] by simp
  let ?ks = "map (\<lambda>n. replicationEntryKey (word_of_nat n)) ?ns"
  have "sorted_wrt (<) ?ks"
    unfolding sorted_wrt_map
  proof (rule sorted_wrt_mono_rel[where P = "(<)"])
    show "sorted_wrt (<) ?ns" by (simp add: seqs_after_def del: upt_Suc)
    fix x y
    assume "x \<in> set ?ns" "y \<in> set ?ns" "x < y"
    then show "replicationEntryKey (word_of_nat x) < replicationEntryKey (word_of_nat y)"
      using seqs_after_bound by (simp add: entry_key.enc_less word_less_nat_alt unat_of_nat)
  qed
  moreover have "sorted_wrt (<) (map fst kvs)" using it by (simp add: iter_ok_def)
  moreover have "set (map fst kvs) = set ?ks"
  proof
    show "set (map fst kvs) \<subseteq> set ?ks"
    proof
      fix k
      assume "k \<in> set (map fst kvs)"
      then obtain v where "(k, v) \<in> set kvs" by auto
      then obtain s where s: "k = replicationEntryKey s" "lo < s" "a < s" "s \<le> cur"
        using key_in by blast
      then have "unat s \<in> set ?ns" using seqs_after_iff by blast
      with s(1) show "k \<in> set ?ks" by force
    qed
    show "set ?ks \<subseteq> set (map fst kvs)"
    proof
      fix k
      assume "k \<in> set ?ks"
      then obtain n where n: "n \<in> set ?ns" "k = replicationEntryKey (word_of_nat n)" by auto
      then obtain s where s: "n = unat s" "lo < s" "a < s" "s \<le> cur" using seqs_after_iff by blast
      with n(2) have k: "k = replicationEntryKey s" by simp
      with present s obtain v where "m k = Some v" by blast
      with k s key_in have "(k, v) \<in> set kvs" by blast
      then show "k \<in> set (map fst kvs)" by force
    qed
  qed
  ultimately have fst_eq: "map fst kvs = ?ks"
    by (metis strict_sorted_equal)
  have "kvs = map (\<lambda>k. (k, the (m k))) (map fst kvs)"
    by (rule nth_equalityI) (use key_in in \<open>auto simp: prod_eq_iff, metis nth_mem option.sel prod.collapse\<close>)
  also have "\<dots> = map ?f ?ns"
    unfolding fst_eq by (simp add: Let_def)
  finally show ?thesis .
qed


lemma read_loop_map:
  "(\<And>n. n \<in> set ns \<Longrightarrow> ec_unmarshal c (snd (f n)) = Inr (g n)) \<Longrightarrow>
   read_loop c k (map f ns) = Inr (map g (take k ns))"
proof (induction ns arbitrary: k)
  case Nil
  then show ?case by simp
next
  case (Cons n ns)
  then show ?case
    by (cases k; cases "f n") force+
qed

text \<open>The second part of \<open>ReadSince\<close>, on a database whose head may have moved on since the first.\<close>

lemma ReadSince_scan_exact:
  assumes pb: "pebble_spec pb view" and ok: "disk_ok c (view db) lo hi" and cur: "cur \<le> hi"
    and a: "a \<noteq> - 1" and scan: "ReadSince_scan pb c db cur a lim = r"
  shows "(\<exists>e. r = Inl (LogDb e)) \<or>
    r = Inr (map (\<lambda>n. the (log_abs c (view db) (word_of_nat n)))
      (take (nat (if lim \<le> 0 then 1000 else lim)) (seqs_after lo cur a)))"
proof (cases "pb_iter pb db (replicationEntryKey (a + 1))
    (if cur = - 1 then entryRangeUpper else Some (replicationEntryKey (cur + 1)))")
  case (Inl e)
  with scan show ?thesis by (auto simp: ReadSince_scan_def Let_def)
next
  case (Inr kvs)
  let ?f = "\<lambda>n. let k = replicationEntryKey (word_of_nat n) in (k, the (view db k))"
  let ?g = "\<lambda>n. the (log_abs c (view db) (word_of_nat n))"
  have kvs: "kvs = map ?f (seqs_after lo cur a)"
    by (rule scan_range[OF ok spec_iter[OF pb Inr] a cur refl])
  have "ec_unmarshal c (snd (?f n)) = Inr (?g n)" if n: "n \<in> set (seqs_after lo cur a)" for n
  proof -
    from n seqs_after_iff obtain s where s: "n = unat s" "lo < s" "s \<le> cur" by blast
    with ok cur obtain e where "log_abs c (view db) s = Some e"
      unfolding disk_ok_def by (meson order_trans)
    with s(1) show ?thesis by (auto simp: log_abs_def split: option.splits sum.splits)
  qed
  with kvs have "read_loop c k kvs = Inr (map ?g (take k (seqs_after lo cur a)))" for k
    by (simp only: kvs) (rule read_loop_map)
  with scan Inr show ?thesis by (simp add: ReadSince_scan_def Let_def)
qed

lemma ReadSince_inv:
  assumes pb: "pebble_spec pb view" and inv: "log_inv view c lo hi l"
    and rd: "ReadSince pb c a lim l = (l', r)"
  shows "log_inv view c lo hi l' \<and> rl_db l' = rl_db l"
proof (cases "ensureSeqInit pb l")
  case (Inl e)
  with rd inv show ?thesis by (simp add: ReadSince_def)
next
  case (Inr l1)
  with ensureSeqInit_inv[OF pb inv Inr] rd show ?thesis by (auto simp: ReadSince_def)
qed

lemma ReadSince_Inr:
  assumes pb: "pebble_spec pb view" and inv: "log_inv view c lo hi l" and a: "a \<noteq> - 1"
    and rd: "ReadSince pb c a lim l = (l', r)"
  shows "(\<exists>e. r = Inl (LogDb e)) \<or>
    r = Inr (map (\<lambda>n. the (log_abs c (view (rl_db l)) (word_of_nat n)))
      (take (nat (if lim \<le> 0 then 1000 else lim)) (seqs_after lo hi a)))"
proof (cases "ensureSeqInit pb l")
  case (Inl e)
  with rd show ?thesis by (auto simp: ReadSince_def)
next
  case (Inr l1)
  with ensureSeqInit_inv[OF pb inv Inr] have l1: "rl_seq l1 = hi" "rl_db l1 = rl_db l" by auto
  have ok: "disk_ok c (view (rl_db l)) lo hi" using inv by (simp add: log_inv_def)
  show ?thesis
    using ReadSince_scan_exact[OF pb ok order_refl a refl, of lim] rd Inr l1
    by (simp add: ReadSince_def)
qed

section \<open>Prune\<close>

lemma del_range_view:
  assumes "until \<noteq> - 1"
  shows "apply_batch [BDeleteRange (replicationEntryKey from) (replicationEntryKey (until + 1))] m =
    (\<lambda>k. if replicationEntryKey from \<le> k \<and> k < replicationEntryKey (until + 1) then None else m k)"
  by (simp add: fun_eq_iff)

lemma log_abs_del_range:
  assumes "until \<noteq> - 1"
  shows "log_abs c (apply_batch [BDeleteRange (replicationEntryKey from) (replicationEntryKey (until + 1))] m) s =
    (if from \<le> s \<and> s \<le> until then None else log_abs c m s)"
  using u64_less_Suc_iff[OF assms, of s]
  by (simp add: log_abs_def entry_key.enc_le entry_key.enc_less)

lemma disk_ok_prune:
  assumes ok: "disk_ok c m lo hi" and lp: "lp \<le> lo" and u: "lp < until" "until < hi"
  defines "m' \<equiv> apply_batch [BDeleteRange (replicationEntryKey (lp + 1)) (replicationEntryKey (until + 1))] m"
  shows "disk_ok c m' (max lo until) hi"
    and "\<And>k. \<not> prefix entryRangeLower k \<Longrightarrow> m' k = m k"
    and "\<And>s. until < s \<Longrightarrow> log_abs c m' s = log_abs c m s"
proof -
  have umax: "until \<noteq> - 1" and lpmax: "lp \<noteq> - 1"
    using u u64_less_not_max by blast+
  have from_le: "lp + 1 \<le> s \<longleftrightarrow> lp < s" for s
    using lpmax u64_Suc_gt[OF lpmax] inc_le[of lp s] by (auto intro: less_le_trans)
  have m': "m' k = (if replicationEntryKey (lp + 1) \<le> k \<and> k < replicationEntryKey (until + 1) then None else m k)" for k
    unfolding m'_def del_range_view[OF umax] ..
  have abs: "log_abs c m' s = (if lp < s \<and> s \<le> until then None else log_abs c m s)" for s
    unfolding m'_def log_abs_del_range[OF umax] by (simp only: from_le)
  have key: "m' (replicationEntryKey s) = (if lp < s \<and> s \<le> until then None else m (replicationEntryKey s))" for s
    using m' u64_less_Suc_iff[OF umax] by (simp add: entry_key.enc_le entry_key.enc_less from_le)
  show other: "m' k = m k" if "\<not> prefix entryRangeLower k" for k
    using that m' in_entry_range[of "lp + 1" k "Some (replicationEntryKey (until + 1))"] by auto
  show "log_abs c m' s = log_abs c m s" if "until < s" for s
    using that by (auto simp: abs)
  have keys: "m' k \<noteq> None \<longleftrightarrow> (\<exists>s. k = replicationEntryKey s \<and> max lo until < s \<and> s \<le> hi)"
    if k: "prefix entryRangeLower k" for k
  proof (cases "\<exists>s. k = replicationEntryKey s")
    case True
    then obtain s where s: "k = replicationEntryKey s" by blast
    have "m k \<noteq> None \<longleftrightarrow> lo < s \<and> s \<le> hi"
      using ok k s unfolding disk_ok_def by (auto simp: entry_key.enc_inject)
    then show ?thesis using s key[of s] lp by (auto simp: entry_key.enc_inject)
  next
    case False
    then have "m k = None" using ok k unfolding disk_ok_def by blast
    with False show ?thesis by (simp add: m')
  qed
  have cnt: "m' seqCounterKey = m seqCounterKey" by (rule other) simp
  have dec: "\<exists>e. log_abs c m' s = Some e \<and> Seq e = s" if "max lo until < s" "s \<le> hi" for s
  proof -
    have "\<exists>e. log_abs c m s = Some e \<and> Seq e = s"
      using ok that unfolding disk_ok_def by simp
    with that show ?thesis by (auto simp: abs)
  qed
  have "max lo until \<le> hi" "case m seqCounterKey of None \<Rightarrow> hi = 0 | Some v \<Rightarrow> v = PutUint64 hi"
    using ok u unfolding disk_ok_def by simp_all
  with keys dec cnt show "disk_ok c m' (max lo until) hi"
    unfolding disk_ok_def by simp
qed

text \<open>What a call of \<open>Prune\<close> does: nothing, or it deletes exactly what it was asked to.\<close>

lemma Prune_ok:
  assumes pb: "pebble_spec pb view" and inv: "log_inv view c lo hi l"
    and pr: "Prune pb until l = (l', None)"
  shows "(rl_db l' = rl_db l \<and> (hi \<le> until \<or> until \<le> rl_lastPruned l) \<and> log_inv view c lo hi l') \<or>
    (until < hi \<and> log_inv view c (max lo until) hi l' \<and>
     (\<forall>k. \<not> prefix entryRangeLower k \<longrightarrow> view (rl_db l') k = view (rl_db l) k) \<and>
     (\<forall>s > until. log_abs c (view (rl_db l')) s = log_abs c (view (rl_db l)) s))"
proof (cases "ensureSeqInit pb l")
  case (Inl e)
  with pr show ?thesis by (simp add: Prune_def Prune_begin_def)
next
  case (Inr l1)
  have l1: "log_inv view c lo hi l1" "rl_seq l1 = hi" "rl_init l1" "rl_db l1 = rl_db l"
      "rl_lastPruned l1 = rl_lastPruned l"
    using ensureSeqInit_inv[OF pb inv Inr] by auto
  let ?lp = "rl_lastPruned l"
  show ?thesis
  proof (cases "hi \<le> until \<or> until \<le> ?lp")
    case True
    with pr Inr l1 show ?thesis by (auto simp: Prune_def Prune_begin_def split: if_splits)
  next
    case False
    then have u: "?lp < until" "until < hi" by auto
    let ?l2 = "l1\<lparr>rl_lastPruned := until\<rparr>"
    from pr Inr l1 False have fin: "Prune_finish pb (?lp + 1) until ?l2 = (l', None)"
      by (simp add: Prune_def Prune_begin_def)
    then obtain db1 where com: "pb_commit pb (rl_db l)
        [BDeleteRange (replicationEntryKey (?lp + 1)) (replicationEntryKey (until + 1))] = Inr db1"
      using l1(4) by (auto simp: Prune_finish_def Let_def split: sum.splits)
    let ?db2 = "case pb_flush pb db1 of Inl e \<Rightarrow> db1 | Inr d \<Rightarrow> d"
    have v2: "view ?db2 = view db1"
      using spec_flush[OF pb] by (cases "pb_flush pb db1") auto
    have "view (rl_db l') = view db1 \<and> rl_seq l' = hi \<and> rl_init l' \<and> rl_lastPruned l' = until"
      using fin com l1 v2 spec_compact[OF pb] by (auto simp: Prune_finish_def Let_def split: sum.splits)
    moreover have "view db1 = apply_batch
        [BDeleteRange (replicationEntryKey (?lp + 1)) (replicationEntryKey (until + 1))] (view (rl_db l))"
      by (rule spec_commit[OF pb com])
    moreover have "disk_ok c (view (rl_db l)) lo hi" "?lp \<le> lo" using inv by (simp_all add: log_inv_def)
    note disk_ok_prune[OF this u]
    ultimately show ?thesis using u by (simp add: log_inv_def)
  qed
qed

lemma restart_inv: "log_inv view c lo hi l \<Longrightarrow> log_inv view c lo hi (NewReplicationLog (rl_db l))"
  by (simp add: log_inv_def NewReplicationLog_def)

lemma empty_log_inv: "view db = Map.empty \<Longrightarrow> log_inv view c 0 0 (NewReplicationLog db)"
  by (auto simp: log_inv_def NewReplicationLog_def disk_ok_def)

section \<open>On a store that does not fail\<close>

lemma ensureSeqInit_reliable: "pebble_reliable pb \<Longrightarrow> \<exists>l1. ensureSeqInit pb l = Inr l1"
  by (cases "pb_get pb (rl_db l) seqCounterKey")
    (auto simp: ensureSeqInit_def pebble_reliable_def)

lemma ReadSince_reliable:
  assumes pb: "pebble_spec pb view" "pebble_reliable pb" and inv: "log_inv view c lo hi l" and a: "a \<noteq> - 1"
  shows "\<exists>l'. ReadSince pb c a lim l = (l', Inr (map (\<lambda>n. the (log_abs c (view (rl_db l)) (word_of_nat n)))
      (take (nat (if lim \<le> 0 then 1000 else lim)) (seqs_after lo hi a))))"
proof -
  obtain l1 where l1: "ensureSeqInit pb l = Inr l1" using ensureSeqInit_reliable[OF pb(2)] by blast
  obtain l' r where rd: "ReadSince pb c a lim l = (l', r)" by fastforce
  have "r \<noteq> Inl (LogDb e)" for e
  proof -
    have it: "pb_iter pb d x y \<noteq> Inl z" for d x y z using pb(2) by (simp add: pebble_reliable_def)
    have "read_loop c n kvs \<noteq> Inl (LogDb e)" for n kvs
      by (induction c n kvs rule: read_loop.induct) (auto split: sum.splits simp: map_sum_def)
    with it rd l1 show ?thesis
      by (auto simp: ReadSince_def ReadSince_scan_def Let_def split: sum.splits)
  qed
  with ReadSince_Inr[OF pb(1) inv a rd] rd show ?thesis by blast
qed

end
