(* ===== verification/Log_Props.thy ===== *)
theory Log_Props
  imports Replication_Log
begin

text \<open>
  The promises of the replication log: gap-free sequence numbers across failures and restarts,
  reads that return exactly the stored segment, and a prune that deletes exactly what it was
  asked to and nothing but log entries.  A concrete entry codec, \<open>demo_codec\<close>, stands in for
  msgpack in the witnesses.
\<close>

section \<open>A concrete codec\<close>

definition demo_codec :: entry_codec where
  "demo_codec = \<lparr>
     ec_marshal = (\<lambda>e. if 0 \<le> TimestampNS e \<and> TimestampNS e < 2 ^ 64 \<and> length (Key e) < 2 ^ 64
        then Inr (PutUint64 (Seq e) @ [Op e] @ PutUint64 (word_of_int (TimestampNS e)) @
               PutUint64 (of_nat (length (Key e))) @ Key e @ Value e)
        else Inl 1),
     ec_unmarshal = (\<lambda>b. if length b < 25 then Inl 2
        else let n = unat (Uint64 (drop 17 b)) in
          Inr \<lparr>Seq = Uint64 b, Op = b ! 8, Key = take n (drop 25 b), Value = drop (25 + n) b,
               TimestampNS = uint (Uint64 (drop 9 b))\<rparr>)\<rparr>"

lemma demo_codec_ok: "codec_ok demo_codec"
proof -
  have "ec_unmarshal demo_codec b = Inr e" if "ec_marshal demo_codec e = Inr b" for e b
  proof -
    let ?s = "PutUint64 (Seq e)" and ?t = "PutUint64 (word_of_int (TimestampNS e))"
      and ?n = "PutUint64 (of_nat (length (Key e)))"
    from that have ts: "0 \<le> TimestampNS e" "TimestampNS e < 2 ^ 64" and kl: "length (Key e) < 2 ^ 64"
      and b: "b = ?s @ [Op e] @ ?t @ ?n @ Key e @ Value e"
      by (auto simp: demo_codec_def split: if_splits)
    have d9: "drop 9 b = ?t @ ?n @ Key e @ Value e"
      and d17: "drop 17 b = ?n @ Key e @ Value e"
      and d25: "drop 25 b = Key e @ Value e" and b8: "b ! 8 = Op e"
      by (simp_all add: b nth_append)
    have n: "unat (Uint64 (drop 17 b)) = length (Key e)"
      using kl by (simp add: d17 unat_of_nat)
    have "drop (25 + length (Key e)) b = Value e"
      by (metis d25 drop_drop add.commute append_eq_conv_conj)
    moreover have "uint (Uint64 (drop 9 b)) = TimestampNS e"
      using ts by (simp add: d9 uint_word_of_int)
    ultimately show ?thesis
      using n b8 d25 by (simp add: demo_codec_def Let_def b)
  qed
  then show ?thesis by (simp add: codec_ok_def)
qed

section \<open>Sequences of calls\<close>

datatype log_call =
    CallAppend i64 WALOp bytes bytes
  | CallRead u64 int
  | CallPrune u64
  | CallCurrent
  | CallRestart

datatype log_reply = Acked u64 | PruneFailed | OtherReply

fun log_step :: "'db pebble \<Rightarrow> entry_codec \<Rightarrow> log_call \<Rightarrow> 'db ReplicationLog \<Rightarrow>
    log_reply \<times> 'db ReplicationLog" where
  "log_step pb c (CallAppend now op k v) l =
     (case Append pb c now op k v l of (l', Inl e) \<Rightarrow> (OtherReply, l') | (l', Inr s) \<Rightarrow> (Acked s, l'))"
| "log_step pb c (CallRead a lim) l = (OtherReply, fst (ReadSince pb c a lim l))"
| "log_step pb c (CallPrune u) l =
     (case Prune pb u l of (l', None) \<Rightarrow> (OtherReply, l') | (l', Some e) \<Rightarrow> (PruneFailed, l'))"
| "log_step pb c CallCurrent l = (OtherReply, fst (CurrentSeq pb l))"
| "log_step pb c CallRestart l = (OtherReply, NewReplicationLog (rl_db l))"

fun log_run :: "'db pebble \<Rightarrow> entry_codec \<Rightarrow> log_call list \<Rightarrow> 'db ReplicationLog \<Rightarrow>
    log_reply list \<times> 'db ReplicationLog" where
  "log_run pb c [] l = ([], l)"
| "log_run pb c (q # qs) l =
     (let (r, l1) = log_step pb c q l; (rs, l2) = log_run pb c qs l1 in (r # rs, l2))"

fun acked :: "log_reply list \<Rightarrow> u64 list" where
  "acked [] = []"
| "acked (Acked s # rs) = s # acked rs"
| "acked (r # rs) = acked rs"

lemma log_step_inv:
  assumes pb: "pebble_spec pb view" and c: "codec_ok c" and inv: "log_inv view c lo hi l"
    and hi: "hi \<noteq> - 1" and st: "log_step pb c q l = (r, l')" and ok: "r \<noteq> PruneFailed"
  shows "(r = Acked (hi + 1) \<and> log_inv view c lo (hi + 1) l') \<or>
    (r = OtherReply \<and> (\<exists>lo'. log_inv view c lo' hi l'))"
proof (cases q)
  case (CallAppend now op k v)
  with st obtain r0 where r0: "Append pb c now op k v l = (l', r0)"
    by (auto split: prod.splits sum.splits)
  show ?thesis
  proof (cases r0)
    case (Inl e)
    have app: "Append pb c now op k v l = (l', Inl e)" using r0 Inl by simp
    with CallAppend st Append_failure[OF pb inv app] show ?thesis by auto
  next
    case (Inr s)
    with r0 Append_success[OF pb c inv hi] CallAppend st show ?thesis by auto
  qed
next
  case (CallRead a lim)
  then show ?thesis
    using st ReadSince_inv[OF pb inv, of a lim l' "snd (ReadSince pb c a lim l)"]
    by (auto simp: prod_eq_iff)
next
  case (CallPrune u)
  with st ok have "r = OtherReply" "Prune pb u l = (l', None)"
    by (auto split: prod.splits option.splits)
  with Prune_ok[OF pb inv this(2)] show ?thesis by blast
next
  case CallCurrent
  show ?thesis
  proof (cases "ensureSeqInit pb l")
    case (Inl e)
    with CallCurrent st inv show ?thesis by (auto simp: CurrentSeq_def)
  next
    case (Inr l1)
    with ensureSeqInit_inv[OF pb inv Inr] CallCurrent st show ?thesis by (auto simp: CurrentSeq_def)
  qed
next
  case CallRestart
  with st restart_inv[OF inv] show ?thesis by auto
qed

lemma log_run_inv:
  assumes pb: "pebble_spec pb view" and c: "codec_ok c"
  shows "log_inv view c lo hi l \<Longrightarrow> unat hi + length qs < 2 ^ 64 \<Longrightarrow>
    log_run pb c qs l = (rs, l') \<Longrightarrow> PruneFailed \<notin> set rs \<Longrightarrow>
    map unat (acked rs) = [Suc (unat hi) ..< Suc (unat hi) + length (acked rs)] \<and>
    (\<exists>lo'. log_inv view c lo' (hi + of_nat (length (acked rs))) l')"
proof (induction qs arbitrary: lo hi l rs)
  case Nil
  then show ?case by auto
next
  case (Cons q qs)
  obtain r l1 where st: "log_step pb c q l = (r, l1)" by fastforce
  obtain rs' where run: "log_run pb c qs l1 = (rs', l')" and rs: "rs = r # rs'"
    using Cons.prems(3) st by (auto split: prod.splits)
  have hi: "hi \<noteq> - 1"
    using Cons.prems(2) by (auto simp: unsigned_minus_1_eq_mask mask_eq_exp_minus_1)
  have "r \<noteq> PruneFailed" using Cons.prems(4) rs by auto
  from log_step_inv[OF pb c Cons.prems(1) hi st this]
  consider "r = Acked (hi + 1)" "log_inv view c lo (hi + 1) l1"
    | lo' where "r = OtherReply" "log_inv view c lo' hi l1" by blast
  then show ?case
  proof cases
    case 1
    have bnd: "unat (hi + 1) + length qs < 2 ^ 64"
      using Cons.prems(2) u64_unat_Suc[OF hi] by simp
    have "PruneFailed \<notin> set rs'" using Cons.prems(4) rs by simp
    from Cons.IH[OF 1(2) bnd run this] 1(1) rs u64_unat_Suc[OF hi]
    show ?thesis by (simp add: upt_conv_Cons[of "Suc (unat hi)"] ac_simps del: upt_Suc)
  next
    case 2
    have bnd: "unat hi + length qs < 2 ^ 64" using Cons.prems(2) by simp
    have "PruneFailed \<notin> set rs'" using Cons.prems(4) rs by simp
    from Cons.IH[OF 2(2) bnd run this] 2(1) rs show ?thesis by simp
  qed
qed


lemmas log_eval = NewReplicationLog_def Append_def ensureSeqInit_def Let_def mem_pebble_def
  notifySubscribers_def ReadSince_def Prune_def Prune_begin_def Prune_finish_def demo_codec_def
  entry_key.enc_less entry_key.enc_le entry_key.enc_inject

definition demo_log :: "(bytes \<times> bytes) list ReplicationLog" where
  "demo_log = snd (log_run mem_pebble demo_codec
     [CallAppend 7 1 [1] [2], CallAppend 8 2 [1] [], CallAppend 9 1 [3] [4]] (NewReplicationLog []))"

lemma demo_log_inv: "\<exists>lo. log_inv map_of demo_codec lo 3 demo_log"
proof -
  let ?qs = "[CallAppend 7 1 [1] [2], CallAppend 8 2 [1] [], CallAppend 9 1 [3] [4]]"
  let ?rs = "fst (log_run mem_pebble demo_codec ?qs (NewReplicationLog []))"
  have "acked ?rs = [1, 2, 3]" "PruneFailed \<notin> set ?rs"
    by (simp_all add: log_eval)
  moreover have "log_run mem_pebble demo_codec ?qs (NewReplicationLog []) = (?rs, demo_log)"
    by (simp add: demo_log_def prod_eq_iff)
  moreover have "log_inv map_of demo_codec 0 0 (NewReplicationLog ([] :: (bytes \<times> bytes) list))"
    by (rule empty_log_inv) simp
  ultimately show ?thesis
    using log_run_inv[OF mem_pebble_spec demo_codec_ok, of 0 0 "NewReplicationLog []" ?qs ?rs demo_log]
    by simp
qed

section \<open>Properties\<close>

text \<open>A prune with nothing to do changes neither the database nor the invariant.\<close>

lemma Prune_idle:
  assumes "pebble_spec pb view" "log_inv view c lo hi l" "Prune pb until l = (l', None)"
    and "hi \<le> until \<or> until \<le> rl_lastPruned l"
  shows "rl_db l' = rl_db l \<and> log_inv view c lo hi l'"
proof (cases "ensureSeqInit pb l")
  case (Inl e)
  with assms(3) show ?thesis by (simp add: Prune_def Prune_begin_def)
next
  case (Inr l1)
  with ensureSeqInit_inv[OF assms(1,2) Inr] assms(3,4) show ?thesis
    by (auto simp: Prune_def Prune_begin_def split: if_splits)
qed

text \<open>C4. The sequence numbers that successful appends return, from an empty database on, are
  1, 2, 3, \<dots> without gap or repetition, whatever reads, prunes, restarts and failed appends
  come in between, as long as no prune reports an error; and at every moment the entries on disk
  are exactly those of one segment of sequence numbers that ends at the last acknowledged
  one.\<close>
theorem append_gap_free:
  assumes "pebble_spec pb view" "codec_ok c" "view db = Map.empty" "length qs < 2 ^ 64"
    and "log_run pb c qs (NewReplicationLog db) = (rs, l)" "PruneFailed \<notin> set rs"
  shows "map unat (acked rs) = [1 ..< Suc (length (acked rs))] \<and>
    (\<exists>lo. log_inv view c lo (of_nat (length (acked rs))) l)"
  using log_run_inv[OF assms(1,2) empty_log_inv[of view db c, OF assms(3)], of qs rs l] assms(4,5,6)
  by simp

definition demo_log_calls :: "log_call list" where
  "demo_log_calls = [CallAppend 7 1 [1] [2], CallAppend (- 5) 1 [1] [2], CallAppend 8 2 [1] [],
     CallPrune 1, CallRestart, CallRead 0 0, CallAppend 9 1 [3] [4]]"

lemma append_gap_free_witness:
  "map unat (acked (fst (log_run mem_pebble demo_codec demo_log_calls (NewReplicationLog [])))) = [1, 2, 3]"
proof -
  let ?rs = "fst (log_run mem_pebble demo_codec demo_log_calls (NewReplicationLog []))"
  have ev: "acked ?rs = [1, 2, 3]" "PruneFailed \<notin> set ?rs"
    by (simp_all add: demo_log_calls_def log_eval)
  have len: "length demo_log_calls < 2 ^ 64" by (simp add: demo_log_calls_def)
  have "map_of ([] :: (bytes \<times> bytes) list) = Map.empty" by simp
  note append_gap_free[where view = map_of and db = "[]", OF mem_pebble_spec demo_codec_ok this len
      prod.collapse[symmetric] ev(2)]
  then show ?thesis by (simp add: ev(1) upt_conv_Cons)
qed

text \<open>A read after sequence \<open>a\<close> that does not fail in the database returns the stored entries
  with a larger sequence, in ascending order, each once, as many as the limit admits (1000 when
  none is given), and each is the entry that was appended under its sequence.  No stored entry
  is ever reported as malformed.\<close>
theorem read_since_exact:
  assumes "pebble_spec pb view" "log_inv view c lo hi l" "a \<noteq> - 1"
    and "ReadSince pb c a lim l = (l', r)"
  shows "case r of
      Inl e \<Rightarrow> (\<exists>x. e = LogDb x)
    | Inr es \<Rightarrow>
        map (\<lambda>e. unat (Seq e)) es = take (nat (if lim \<le> 0 then 1000 else lim))
          [Suc (max (unat lo) (unat a)) ..< Suc (unat hi)] \<and>
        (\<forall>e \<in> set es. log_abs c (view (rl_db l)) (Seq e) = Some e)"
proof -
  let ?n = "nat (if lim \<le> 0 then 1000 else lim)"
  let ?f = "\<lambda>n. the (log_abs c (view (rl_db l)) (word_of_nat n))"
  have ent: "log_abs c (view (rl_db l)) (word_of_nat n) = Some (?f n) \<and> Seq (?f n) = word_of_nat n \<and>
      unat (word_of_nat n :: u64) = n" if "n \<in> set (seqs_after lo hi a)" for n
  proof -
    from that seqs_after_iff obtain s where s: "n = unat s" "lo < s" "s \<le> hi" by blast
    with assms(2) obtain e where "log_abs c (view (rl_db l)) s = Some e" "Seq e = s"
      unfolding log_inv_def disk_ok_def by blast
    with s show ?thesis by simp
  qed
  from ReadSince_Inr[OF assms] consider x where "r = Inl (LogDb x)"
    | "r = Inr (map ?f (take ?n (seqs_after lo hi a)))" by blast
  then show ?thesis
  proof cases
    case 2
    have "map (\<lambda>e. unat (Seq e)) (map ?f (take ?n (seqs_after lo hi a))) = take ?n (seqs_after lo hi a)"
      unfolding map_map by (rule map_idI) (use ent in \<open>auto dest!: in_set_takeD\<close>)
    moreover have "log_abs c (view (rl_db l)) (Seq e) = Some e"
      if "e \<in> set (map ?f (take ?n (seqs_after lo hi a)))" for e
      using that ent by (auto dest!: in_set_takeD)
    ultimately show ?thesis using 2 by (simp add: seqs_after_def del: upt_Suc)
  qed simp
qed

lemma read_since_exact_witness:
  "\<exists>lo l' es. log_inv map_of demo_codec lo 3 demo_log \<and>
     ReadSince mem_pebble demo_codec 1 5 demo_log = (l', Inr es) \<and>
     map (\<lambda>e. unat (Seq e)) es = take 5 [Suc (max (unat lo) 1) ..< 4]"
proof -
  obtain lo where inv: "log_inv map_of demo_codec lo 3 demo_log" using demo_log_inv by blast
  obtain l' es where rd: "ReadSince mem_pebble demo_codec 1 5 demo_log = (l', Inr es)"
    using ReadSince_reliable[OF mem_pebble_spec mem_pebble_reliable inv, of 1 5] by auto
  have a: "(1 :: u64) \<noteq> - 1" by simp
  from read_since_exact[OF mem_pebble_spec inv a rd] inv rd show ?thesis by auto
qed

text \<open>C6. A prune that reports success had nothing to do when the watermark is at or beyond the head or
  was reached by an earlier prune, and then leaves the database untouched; otherwise it leaves exactly
  the entries above the watermark: the later entries are unchanged and no key outside the entry range --
  neither replication metadata nor any key of the application -- is touched.\<close>
theorem prune_exact:
  assumes "pebble_spec pb view" "log_inv view c lo hi l" "Prune pb until l = (l', None)"
  shows "if hi \<le> until \<or> until \<le> rl_lastPruned l then rl_db l' = rl_db l \<and> log_inv view c lo hi l'
    else log_inv view c (max lo until) hi l' \<and>
      (\<forall>s. log_abs c (view (rl_db l')) s = (if s \<le> until then None else log_abs c (view (rl_db l)) s)) \<and>
      (\<forall>k. \<not> prefix entryRangeLower k \<longrightarrow> view (rl_db l') k = view (rl_db l) k)"
proof (cases "hi \<le> until \<or> until \<le> rl_lastPruned l")
  case True
  then show ?thesis
    using Prune_idle[OF assms] by simp
next
  case False
  then have u: "rl_lastPruned l < until" "until < hi" by auto
  from Prune_ok[OF assms(1,2,3)] u
  have inv: "log_inv view c (max lo until) hi l'"
    and keys: "\<forall>k. \<not> prefix entryRangeLower k \<longrightarrow> view (rl_db l') k = view (rl_db l) k"
    and abs: "\<forall>s > until. log_abs c (view (rl_db l')) s = log_abs c (view (rl_db l)) s"
    by auto
  have "log_abs c (view (rl_db l')) s = None" if "s \<le> until" for s
  proof -
    have "\<not> (\<exists>t. replicationEntryKey s = replicationEntryKey t \<and> max lo until < t \<and> t \<le> hi)"
      using that by (auto simp: entry_key.enc_inject)
    then have "view (rl_db l') (replicationEntryKey s) = None"
      using inv entryKey_prefix[of s] unfolding log_inv_def disk_ok_def by blast
    then show ?thesis by (simp add: log_abs_def)
  qed
  with inv keys abs show ?thesis unfolding if_not_P[OF False] by (simp add: not_le)
qed

lemma prune_exact_witness:
  "\<exists>l'. Prune mem_pebble 2 demo_log = (l', None) \<and>
     log_abs demo_codec (map_of (rl_db l')) 1 = None \<and> log_abs demo_codec (map_of (rl_db l')) 2 = None"
proof -
  obtain lo where inv: "log_inv map_of demo_codec lo 3 demo_log" using demo_log_inv by blast
  obtain l' where pr: "Prune mem_pebble 2 demo_log = (l', None)"
    unfolding demo_log_def by (simp add: log_eval)
  have "\<not> (3 \<le> (2 :: u64) \<or> 2 \<le> rl_lastPruned demo_log)"
    unfolding demo_log_def by (simp add: log_eval)
  with prune_exact[OF mem_pebble_spec inv pr] pr show ?thesis by simp
qed

text \<open>A store on which every range deletion fails once there is no free space.\<close>

definition full_pebble :: "(bytes \<times> bytes) list pebble" where
  "full_pebble = mem_pebble\<lparr>pb_commit := (\<lambda>d ops. case ops of [BDeleteRange lo hi] \<Rightarrow> Inl (DbError 28)
     | _ \<Rightarrow> Inr (fold mem_op ops d))\<rparr>"

text \<open>The watermark of a prune is recorded before the deletion is attempted and is not taken
  back when the deletion fails: the same prune repeated on a healthy database reports success and
  deletes nothing, so that the entries stay on disk until the process restarts.\<close>
theorem failed_prune_is_forgotten:
  "\<exists>l1 e. Prune full_pebble 2 demo_log = (l1, Some e) \<and>
     Prune mem_pebble 2 l1 = (l1, None) \<and>
     map_of (rl_db l1) (replicationEntryKey 1) \<noteq> None \<and>
     (\<exists>l2. Prune mem_pebble 2 (NewReplicationLog (rl_db l1)) = (l2, None) \<and>
        map_of (rl_db l2) (replicationEntryKey 1) = None)"
  unfolding full_pebble_def demo_log_def by (simp add: log_eval)
end
