(* ===== verification/Applier.thy ===== *)
theory Applier
  imports Log_Props
begin

text \<open>
  \<open>internal/replication/applier.go\<close>: a replica applies the entries it receives to its own
  store and keeps the cursor \<open>last_applied\<close> beside the data; and the sending side, the loop
  \<open>drainAvailable\<close> of \<open>streamer.go\<close>.  \<open>SetRepr\<close>, which decodes a batch of the storage engine,
  is the parameter \<open>repr\<close>.  The specification of a replica is \<open>replay\<close>: a cursor and a map, to
  which an entry above the cursor is applied and any other is not.
\<close>

section \<open>The applier\<close>

datatype apply_error = ApplyRepr u64 nat | ApplyDb db_error

record 'db Applier =
  ap_db :: 'db
  ap_lastApplied :: u64
  ap_appliedSince :: u64

definition applierSyncInterval :: u64 where "applierSyncInterval = 100"

definition NewApplier :: "'db pebble \<Rightarrow> 'db \<Rightarrow> 'db Applier" where
  "NewApplier pb db =
     \<lparr>ap_db = db,
      ap_lastApplied = (case pb_get pb db lastAppliedKey of
          Found val \<Rightarrow> if length val \<ge> 8 then Uint64 val else 0
        | _ \<Rightarrow> 0),
      ap_appliedSince = 0\<rparr>"

text \<open>What follows a committed entry: the cursor moves, and every \<open>applierSyncInterval\<close> entries the
  store is synced.\<close>

definition after_commit :: "'db pebble \<Rightarrow> u64 \<Rightarrow> 'db Applier \<Rightarrow> 'db Applier \<times> apply_error option" where
  "after_commit pb s a =
     (let a1 = a\<lparr>ap_lastApplied := s, ap_appliedSince := ap_appliedSince a + 1\<rparr>
      in if ap_appliedSince a1 \<ge> applierSyncInterval then
           (case pb_sync pb (ap_db a1) of
              Inl e \<Rightarrow> (a1, Some (ApplyDb e))
            | Inr db' \<Rightarrow> (a1\<lparr>ap_db := db', ap_appliedSince := 0\<rparr>, None))
         else (a1, None))"

definition Apply ::
  "'db pebble \<Rightarrow> (bytes \<Rightarrow> nat + batch_op list) \<Rightarrow> ReplicationEntry \<Rightarrow> 'db Applier \<Rightarrow>
     'db Applier \<times> apply_error option" where
  "Apply pb repr entry a =
     (if Seq entry \<le> ap_lastApplied a then (a, None)
      else if Op entry = OpBatch then
        (case repr (Value entry) of
           Inl e \<Rightarrow> (a, Some (ApplyRepr (Seq entry) e))
         | Inr ops \<Rightarrow>
             (case pb_commit pb (ap_db a) ops of
                Inl e \<Rightarrow> (a, Some (ApplyDb e))
              | Inr db1 \<Rightarrow>
                  (case pb_commit pb db1 [BSet lastAppliedKey (PutUint64 (Seq entry))] of
                     Inl e \<Rightarrow> (a\<lparr>ap_db := db1\<rparr>, Some (ApplyDb e))
                   | Inr db2 \<Rightarrow> after_commit pb (Seq entry) (a\<lparr>ap_db := db2\<rparr>))))
      else
        (let op = (if Op entry = OpDelete then BDelete (Key entry) else BSet (Key entry) (Value entry))
         in case pb_commit pb (ap_db a) [op, BSet lastAppliedKey (PutUint64 (Seq entry))] of
              Inl e \<Rightarrow> (a, Some (ApplyDb e))
            | Inr db' \<Rightarrow> after_commit pb (Seq entry) (a\<lparr>ap_db := db'\<rparr>)))"

definition ResetTo :: "'db pebble \<Rightarrow> u64 \<Rightarrow> 'db Applier \<Rightarrow> 'db Applier \<times> apply_error option" where
  "ResetTo pb s a =
     (if ap_lastApplied a = s then (a, None)
      else case pb_set pb (ap_db a) lastAppliedKey (PutUint64 s) of
             Inl e \<Rightarrow> (a, Some (ApplyDb e))
           | Inr db' \<Rightarrow> (a\<lparr>ap_db := db', ap_lastApplied := s, ap_appliedSince := 0\<rparr>, None))"

definition IsLagging :: "u64 \<Rightarrow> u64 \<Rightarrow> 'db Applier \<Rightarrow> bool" where
  "IsLagging primarySeq maxLag a =
     (if ap_lastApplied a \<ge> primarySeq then False
      else primarySeq - ap_lastApplied a > maxLag)"

section \<open>The streamer\<close>

text \<open>
  \<open>send\<close> stands for one turn of the inner loop: the check of the context, the encoding and the
  transmission to the peer, with the peer's state \<open>'p\<close> (the bytes on the wire, or a replica).
\<close>

fun send_entries :: "('p \<Rightarrow> ReplicationEntry \<Rightarrow> nat + 'p) \<Rightarrow> ReplicationEntry list \<Rightarrow> u64 \<Rightarrow> 'p \<Rightarrow>
    u64 \<times> 'p \<times> nat option" where
  "send_entries send [] lastSeq p = (lastSeq, p, None)"
| "send_entries send (e # es) lastSeq p =
     (case send p e of
        Inl err \<Rightarrow> (lastSeq, p, Some err)
      | Inr p' \<Rightarrow> send_entries send es (Seq e) p')"

datatype drain_result = Drained | DrainRead log_error | DrainSend nat | OutOfFuel

fun drainAvailable :: "'db pebble \<Rightarrow> entry_codec \<Rightarrow> ('p \<Rightarrow> ReplicationEntry \<Rightarrow> nat + 'p) \<Rightarrow> nat \<Rightarrow>
    'db ReplicationLog \<Rightarrow> u64 \<Rightarrow> 'p \<Rightarrow> 'db ReplicationLog \<times> u64 \<times> 'p \<times> drain_result" where
  "drainAvailable pb c send 0 l lastSeq p = (l, lastSeq, p, OutOfFuel)"
| "drainAvailable pb c send (Suc n) l lastSeq p =
     (case ReadSince pb c lastSeq 1000 l of
        (l1, Inl e) \<Rightarrow> (l1, lastSeq, p, DrainRead e)
      | (l1, Inr es) \<Rightarrow>
          if es = [] then (l1, lastSeq, p, Drained)
          else case send_entries send es lastSeq p of
                 (last', p', Some err) \<Rightarrow> (l1, last', p', DrainSend err)
               | (last', p', None) \<Rightarrow> drainAvailable pb c send n l1 last' p')"

section \<open>The specification of a replica\<close>

definition entry_ops :: "(bytes \<Rightarrow> nat + batch_op list) \<Rightarrow> ReplicationEntry \<Rightarrow> batch_op list" where
  "entry_ops repr e =
     (if Op e = OpBatch then (case repr (Value e) of Inl x \<Rightarrow> [] | Inr ops \<Rightarrow> ops)
      else if Op e = OpDelete then [BDelete (Key e)] else [BSet (Key e) (Value e)])"

definition replay1 :: "(bytes \<Rightarrow> nat + batch_op list) \<Rightarrow> ReplicationEntry \<Rightarrow>
    u64 \<times> (bytes \<rightharpoonup> bytes) \<Rightarrow> u64 \<times> (bytes \<rightharpoonup> bytes)" where
  "replay1 repr e st =
     (if Seq e \<le> fst st then st
      else (Seq e, (apply_batch (entry_ops repr e) (snd st))(lastAppliedKey \<mapsto> PutUint64 (Seq e))))"

definition replay :: "(bytes \<Rightarrow> nat + batch_op list) \<Rightarrow> ReplicationEntry list \<Rightarrow>
    u64 \<times> (bytes \<rightharpoonup> bytes) \<Rightarrow> u64 \<times> (bytes \<rightharpoonup> bytes)" where
  "replay repr es st = fold (replay1 repr) es st"

definition replica :: "('db \<Rightarrow> bytes \<rightharpoonup> bytes) \<Rightarrow> 'db Applier \<Rightarrow> u64 \<times> (bytes \<rightharpoonup> bytes)" where
  "replica view a = (ap_lastApplied a, view (ap_db a))"

text \<open>The cursor in memory is the one a restart would read.\<close>

definition cursor_durable :: "('db \<Rightarrow> bytes \<rightharpoonup> bytes) \<Rightarrow> 'db Applier \<Rightarrow> bool" where
  "cursor_durable view a \<longleftrightarrow>
     (case view (ap_db a) lastAppliedKey of
        None \<Rightarrow> ap_lastApplied a = 0
      | Some v \<Rightarrow> v = PutUint64 (ap_lastApplied a))"

lemma replica_simps [simp]: "fst (replica view a) = ap_lastApplied a" "snd (replica view a) = view (ap_db a)"
  by (simp_all add: replica_def)

lemma after_commit_effect:
  assumes "pebble_spec pb view" "after_commit pb s a = (a', r)"
  shows "replica view a' = (s, view (ap_db a))"
  using assms spec_sync[of pb view "ap_db a"]
  by (auto simp: after_commit_def Let_def replica_def split: if_splits sum.splits)

lemma after_commit_reliable: "pebble_reliable pb \<Longrightarrow> snd (after_commit pb s a) = None"
  by (auto simp: after_commit_def Let_def pebble_reliable_def split: sum.splits)

text \<open>Every outcome of \<open>Apply\<close>: the entry is applied as specified, or nothing moved, or only the
  data part of a batch did.\<close>

lemma Apply_cases:
  assumes pb: "pebble_spec pb view" and ap: "Apply pb repr e a = (a', r)"
  obtains (applied) "replica view a' = replay1 repr e (replica view a)"
  | (failed) "r \<noteq> None" "a' = a"
  | (half) ops where "r \<noteq> None" "Op e = OpBatch" "repr (Value e) = Inr ops" "ap_lastApplied a < Seq e"
      "replica view a' = (ap_lastApplied a, apply_batch ops (view (ap_db a)))"
proof -
  consider "Seq e \<le> ap_lastApplied a"
    | "ap_lastApplied a < Seq e" "Op e = OpBatch" | "ap_lastApplied a < Seq e" "Op e \<noteq> OpBatch"
    by fastforce
  then show thesis
  proof cases
    case 1
    with ap have "a' = a" by (simp add: Apply_def)
    with 1 applied show thesis by (simp add: replay1_def)
  next
    case 2
    have nle: "\<not> Seq e \<le> ap_lastApplied a" using 2(1) by simp
    show thesis
    proof (cases "repr (Value e)")
      case (Inl x)
      with 2 nle ap failed show thesis by (auto simp: Apply_def)
    next
      case (Inr ops)
      show thesis
      proof (cases "pb_commit pb (ap_db a) ops")
        case (Inl x)
        with Inr 2 nle ap failed show thesis by (auto simp: Apply_def)
      next
        case c1: (Inr db1)
        have v1: "view db1 = apply_batch ops (view (ap_db a))" by (rule spec_commit[OF pb c1])
        show thesis
        proof (cases "pb_commit pb db1 [BSet lastAppliedKey (PutUint64 (Seq e))]")
          case (Inl x)
          with c1 Inr 2 nle ap have "a' = a\<lparr>ap_db := db1\<rparr>" "r \<noteq> None" by (auto simp: Apply_def)
          with half Inr 2 v1 show thesis by (simp add: replica_def)
        next
          case c2: (Inr db2)
          with c1 Inr 2 nle ap have "after_commit pb (Seq e) (a\<lparr>ap_db := db2\<rparr>) = (a', r)"
            by (simp add: Apply_def)
          from after_commit_effect[OF pb this] spec_commit[OF pb c2] v1 Inr 2 nle applied
          show thesis by (simp add: replay1_def entry_ops_def)
        qed
      qed
    qed
  next
    case 3
    have nle: "\<not> Seq e \<le> ap_lastApplied a" using 3(1) by simp
    let ?op = "if Op e = OpDelete then BDelete (Key e) else BSet (Key e) (Value e)"
    show thesis
    proof (cases "pb_commit pb (ap_db a) [?op, BSet lastAppliedKey (PutUint64 (Seq e))]")
      case (Inl x)
      with 3 nle ap failed show thesis by (auto simp: Apply_def Let_def)
    next
      case (Inr db')
      with 3 nle ap have "after_commit pb (Seq e) (a\<lparr>ap_db := db'\<rparr>) = (a', r)"
        by (simp add: Apply_def Let_def)
      from after_commit_effect[OF pb this] spec_commit[OF pb Inr] 3 nle applied
      show thesis by (simp add: replay1_def entry_ops_def)
    qed
  qed
qed

section \<open>Replaying\<close>

text \<open>A batch fixes each key it touches and leaves the others, so applying it twice is applying it
  once.\<close>

lemma apply_batch_key: "(\<forall>m. apply_batch ops m k = m k) \<or> (\<exists>v. \<forall>m. apply_batch ops m k = v)"
proof (induction ops rule: rev_induct)
  case Nil
  then show ?case by simp
next
  case (snoc op ops)
  have "apply_batch (ops @ [op]) m = apply_op op (apply_batch ops m)" for m
    by (simp add: apply_batch_def)
  with snoc show ?case
    by (cases op) (auto simp: if_distrib)
qed

lemma apply_batch_idem: "apply_batch ops (apply_batch ops m) = apply_batch ops m"
proof
  show "apply_batch ops (apply_batch ops m) k = apply_batch ops m k" for k
    using apply_batch_key[of ops k] by auto
qed

lemma replay_simps [simp]: "replay repr [] st = st"
  "replay repr (e # es) st = replay repr es (replay1 repr e st)"
  "replay repr (xs @ ys) st = replay repr ys (replay repr xs st)"
  by (simp_all add: replay_def)

lemma fst_replay1 [simp]: "fst (replay1 repr e st) = max (fst st) (Seq e)"
  by (auto simp: replay1_def max_def)

lemma fst_replay: "fst (replay repr es st) = fold (\<lambda>e c. max c (Seq e)) es (fst st)"
  by (induction es arbitrary: st) auto

lemma fold_max_ge: "(c :: u64) \<le> fold (\<lambda>e c. max c (f e)) es c \<and>
    (\<forall>e \<in> set es. f e \<le> fold (\<lambda>e c. max c (f e)) es c)"
proof (induction es arbitrary: c)
  case Nil
  then show ?case by simp
next
  case (Cons e es)
  let ?r = "fold (\<lambda>e c. max c (f e)) es (max c (f e))"
  have "max c (f e) \<le> ?r" and "\<forall>x \<in> set es. f x \<le> ?r"
    using Cons.IH[of "max c (f e)"] by blast+
  then show ?case by simp
qed

lemma replay_cursor_ge: "e \<in> set es \<Longrightarrow> Seq e \<le> fst (replay repr es st)"
  using fold_max_ge[where f = Seq and es = es and c = "fst st"] by (simp add: fst_replay)

lemma replay_old: "\<forall>e \<in> set es. Seq e \<le> fst st \<Longrightarrow> replay repr es st = st"
  by (induction es) (auto simp: replay1_def)

lemma replay_resend:
  assumes "j \<le> k"
  shows "replay repr (take k es @ drop j es) st = replay repr es st"
proof -
  let ?mid = "drop j (take k es)"
  have "drop j es = ?mid @ drop k es"
  proof -
    have "drop j es = drop j (take k es @ drop k es)" by simp
    also have "\<dots> = ?mid @ drop (j - length (take k es)) (drop k es)"
      by (simp only: drop_append)
    also have "drop (j - length (take k es)) (drop k es) = drop k es"
      using assms by (cases "length es \<le> k") simp_all
    finally show ?thesis .
  qed
  moreover have "replay repr ?mid (replay repr (take k es) st) = replay repr (take k es) st"
    by (rule replay_old) (meson in_set_dropD replay_cursor_ge)
  ultimately have "replay repr (take k es @ drop j es) st = replay repr (take k es @ drop k es) st"
    by (simp only: replay_simps)
  then show ?thesis by simp
qed

definition apply_all :: "'db pebble \<Rightarrow> (bytes \<Rightarrow> nat + batch_op list) \<Rightarrow> ReplicationEntry list \<Rightarrow>
    'db Applier \<Rightarrow> 'db Applier" where
  "apply_all pb repr es a = fold (\<lambda>e a. fst (Apply pb repr e a)) es a"

definition decodes :: "(bytes \<Rightarrow> nat + batch_op list) \<Rightarrow> ReplicationEntry \<Rightarrow> bool" where
  "decodes repr e \<longleftrightarrow> (Op e = OpBatch \<longrightarrow> (\<exists>ops. repr (Value e) = Inr ops))"

lemma Apply_success:
  assumes "pebble_spec pb view" "Apply pb repr e a = (a', None)"
  shows "replica view a' = replay1 repr e (replica view a)"
  using assms by (cases rule: Apply_cases) auto

lemma Apply_reliable:
  assumes "pebble_reliable pb" "decodes repr e"
  shows "snd (Apply pb repr e a) = None"
proof -
  have c: "\<exists>d'. pb_commit pb d ops = Inr d'" for d ops by (rule reliable_commit[OF assms(1)])
  have s: "snd (after_commit pb x b) = None" for x b by (rule after_commit_reliable[OF assms(1)])
  obtain d1 d2 ops where "Op e = OpBatch \<longrightarrow> repr (Value e) = Inr ops \<and>
      pb_commit pb (ap_db a) ops = Inr d1 \<and>
      pb_commit pb d1 [BSet lastAppliedKey (PutUint64 (Seq e))] = Inr d2"
    using c assms(2) unfolding decodes_def by metis
  moreover obtain d3 where "pb_commit pb (ap_db a)
      [if Op e = OpDelete then BDelete (Key e) else BSet (Key e) (Value e),
       BSet lastAppliedKey (PutUint64 (Seq e))] = Inr d3"
    using c by metis
  ultimately show ?thesis
    using s by (simp add: Apply_def Let_def)
qed

lemma apply_all_replay:
  assumes "pebble_spec pb view" "pebble_reliable pb"
  shows "\<forall>e \<in> set es. decodes repr e \<Longrightarrow>
    replica view (apply_all pb repr es a) = replay repr es (replica view a)"
proof (induction es arbitrary: a)
  case Nil
  then show ?case by (simp add: apply_all_def)
next
  case (Cons e es)
  have "Apply pb repr e a = (fst (Apply pb repr e a), None)"
    using Apply_reliable[OF assms(2), of repr e a] Cons.prems by (simp add: prod_eq_iff)
  from Apply_success[OF assms(1) this] Cons show ?case by (simp add: apply_all_def)
qed

lemma replay1_durable:
  assumes "cursor_durable view a" "replica view a' = replay1 repr e (replica view a)"
  shows "cursor_durable view a'"
proof -
  have "ap_lastApplied a' = fst (replay1 repr e (replica view a))"
    and "view (ap_db a') = snd (replay1 repr e (replica view a))"
    using assms(2) by (metis replica_simps)+
  with assms(1) show ?thesis
    by (auto simp: cursor_durable_def replay1_def split: option.splits)
qed

lemma apply_all_durable:
  assumes "pebble_spec pb view" "pebble_reliable pb"
  shows "cursor_durable view a \<Longrightarrow> \<forall>e \<in> set es. decodes repr e \<Longrightarrow>
    cursor_durable view (apply_all pb repr es a)"
proof (induction es arbitrary: a)
  case Nil
  then show ?case by (simp add: apply_all_def)
next
  case (Cons e es)
  have "Apply pb repr e a = (fst (Apply pb repr e a), None)"
    using Apply_reliable[OF assms(2), of repr e a] Cons.prems by (simp add: prod_eq_iff)
  from replay1_durable[OF Cons.prems(1) Apply_success[OF assms(1) this]] Cons
  show ?case by (simp add: apply_all_def)
qed

lemma NewApplier_cursor:
  assumes "pebble_spec pb view" "pebble_reliable pb" "cursor_durable view a"
  shows "replica view (NewApplier pb (ap_db a)) = replica view a"
proof (cases "pb_get pb (ap_db a) lastAppliedKey")
  case (Found v)
  with spec_get_Found[OF assms(1)] have "view (ap_db a) lastAppliedKey = Some v" by blast
  with Found assms(3) show ?thesis by (simp add: cursor_durable_def NewApplier_def replica_def)
next
  case ErrNotFound
  with spec_get_NotFound[OF assms(1)] have "view (ap_db a) lastAppliedKey = None" by blast
  with ErrNotFound assms(3) show ?thesis by (simp add: cursor_durable_def NewApplier_def replica_def)
next
  case (GetErr e)
  with assms(2) show ?thesis by (simp add: pebble_reliable_def)
qed

end
