(* ===== verification/Stream_Props.thy ===== *)
theory Stream_Props
  imports Applier
begin

text \<open>
  Properties of the applier and of log shipping: retries and restarts are harmless, the cursor
  moves as specified, and a drained stream brings a replica to the head of the log.
\<close>

section \<open>Draining the log\<close>

text \<open>The entries of the abstract log after sequence \<open>a\<close>.\<close>

definition log_suffix :: "entry_codec \<Rightarrow> (bytes \<rightharpoonup> bytes) \<Rightarrow> u64 \<Rightarrow> u64 \<Rightarrow> u64 \<Rightarrow> ReplicationEntry list" where
  "log_suffix c m lo hi a =
     map (\<lambda>n. the (log_abs c m (word_of_nat n))) [Suc (max (unat lo) (unat a)) ..< Suc (unat hi)]"

lemma log_suffix_seqs: "log_suffix c m lo hi a =
    map (\<lambda>n. the (log_abs c m (word_of_nat n))) (seqs_after lo hi a)"
  by (simp add: log_suffix_def seqs_after_def)

lemma log_suffix_nth:
  assumes ok: "disk_ok c m lo hi" and i: "i < length (log_suffix c m lo hi a)"
  shows "unat (Seq (log_suffix c m lo hi a ! i)) = max (unat lo) (unat a) + Suc i"
proof -
  let ?n = "seqs_after lo hi a ! i"
  have len: "i < length (seqs_after lo hi a)" using i by (simp add: log_suffix_seqs)
  then have n: "?n = max (unat lo) (unat a) + Suc i"
    by (simp add: seqs_after_def del: upt_Suc)
  from len have "?n \<in> set (seqs_after lo hi a)" by simp
  then obtain s where s: "?n = unat s" "lo < s" "s \<le> hi" using seqs_after_iff by blast
  with ok obtain e where "log_abs c m s = Some e" "Seq e = s"
    unfolding disk_ok_def by blast
  with s len n show ?thesis by (simp add: log_suffix_seqs)
qed

lemma log_suffix_drop:
  assumes "disk_ok c m lo hi" "0 < n" "n \<le> length (log_suffix c m lo hi a)"
  shows "log_suffix c m lo hi (Seq (log_suffix c m lo hi a ! (n - 1))) = drop n (log_suffix c m lo hi a)"
proof -
  let ?b = "Seq (log_suffix c m lo hi a ! (n - 1))"
  have "unat ?b = max (unat lo) (unat a) + n"
    using log_suffix_nth[OF assms(1), of "n - 1" a] assms(2,3) by simp
  then have "max (unat lo) (unat ?b) = max (unat lo) (unat a) + n" by simp
  then show ?thesis
    by (simp add: log_suffix_def drop_map del: upt_Suc)
qed

lemma send_entries_all:
  assumes "\<And>p e. send p e = Inr (f e p)"
  shows "send_entries send es a p = (if es = [] then a else Seq (last es), fold f es p, None)"
  by (induction es arbitrary: a p) (auto simp: assms)

lemma drain_suffix:
  assumes pb: "pebble_spec pb view" "pebble_reliable pb" and send: "\<And>p e. send p e = Inr (f e p)"
  shows "log_inv view c lo hi l \<Longrightarrow> hi \<noteq> - 1 \<Longrightarrow> a \<le> hi \<Longrightarrow>
    length (log_suffix c (view (rl_db l)) lo hi a) < n \<Longrightarrow>
    \<exists>l'. drainAvailable pb c send n l a p =
      (l', if log_suffix c (view (rl_db l)) lo hi a = [] then a else hi,
       fold f (log_suffix c (view (rl_db l)) lo hi a) p, Drained)"
proof (induction n arbitrary: l a p)
  case 0
  then show ?case by simp
next
  case (Suc n)
  let ?es = "log_suffix c (view (rl_db l)) lo hi a"
  have amax: "a \<noteq> - 1" using Suc.prems(2,3) word_order.extremum_unique by blast
  obtain l1 where rd: "ReadSince pb c a 1000 l = (l1, Inr (take 1000 ?es))"
    using ReadSince_reliable[OF pb Suc.prems(1) amax, of 1000]
    by (auto simp: log_suffix_seqs take_map)
  have l1: "log_inv view c lo hi l1" "rl_db l1 = rl_db l"
    using ReadSince_inv[OF pb(1) Suc.prems(1) rd] by auto
  have ok: "disk_ok c (view (rl_db l)) lo hi" using Suc.prems(1) by (simp add: log_inv_def)
  show ?case
  proof (cases "?es = []")
    case True
    with rd show ?thesis by simp
  next
    case False
    let ?k = "min 1000 (length ?es)"
    let ?b = "Seq (last (take 1000 ?es))"
    have k: "0 < ?k" "?k \<le> length ?es" using False by auto
    have tk: "take 1000 ?es = take ?k ?es" by (simp add: min_def)
    have b: "?b = Seq (?es ! (?k - 1))"
    proof -
      have "take ?k ?es ! (?k - 1) = ?es ! (?k - 1)"
        by (rule nth_take) (use k in linarith)
      moreover have "length (take ?k ?es) = ?k" "take ?k ?es \<noteq> []" using k by auto
      ultimately show ?thesis unfolding tk by (metis last_conv_nth)
    qed
    have rest: "log_suffix c (view (rl_db l1)) lo hi ?b = drop ?k ?es"
      unfolding b l1(2) by (rule log_suffix_drop[OF ok k])
    have ub: "unat ?b = max (unat lo) (unat a) + ?k"
    proof -
      have i: "?k - 1 < length ?es" and Suc_k: "Suc (?k - 1) = ?k" using k by linarith+
      from log_suffix_nth[OF ok i] show ?thesis unfolding b Suc_k .
    qed
    have len: "length ?es = unat hi - max (unat lo) (unat a)"
      by (simp add: log_suffix_def del: upt_Suc)
    have "unat ?b \<le> unat hi" using ub len k by linarith
    then have ble: "?b \<le> hi" by (simp only: word_le_nat_alt)
    have bhi: "?b = hi" if "drop ?k ?es = []"
    proof -
      have "?k = length ?es" using that k by simp
      then have "unat ?b = unat hi" using ub len k by linarith
      then show ?thesis by (simp only: word_unat_eq_iff)
    qed

    have "\<exists>l'. drainAvailable pb c send n l1 ?b (fold f (take 1000 ?es) p) =
        (l', if drop ?k ?es = [] then ?b else hi, fold f (drop ?k ?es) (fold f (take 1000 ?es) p), Drained)"
    proof -
      have "length (drop ?k ?es) < n" using Suc.prems(4) k unfolding length_drop by linarith
      with Suc.IH[OF l1(1) Suc.prems(2) ble, of "fold f (take 1000 ?es) p"]
      show ?thesis unfolding rest by (simp only:)
    qed
    moreover have "fold f (drop ?k ?es) (fold f (take 1000 ?es) p) = fold f ?es p"
      unfolding tk by (metis append_take_drop_id fold_append comp_apply)
    ultimately show ?thesis
      using rd False bhi by (auto simp: send_entries_all[where f = f, OF send])
  qed
qed

text \<open>A link to a replica that applies what arrives, and that may go down: \<open>up sent\<close> says whether the
  next transmission after the entries \<open>sent\<close> succeeds.  Its state is what was sent and the replica.\<close>

definition link_send :: "(ReplicationEntry list \<Rightarrow> bool) \<Rightarrow> (ReplicationEntry \<Rightarrow> 'a \<Rightarrow> 'a) \<Rightarrow>
    ReplicationEntry list \<times> 'a \<Rightarrow> ReplicationEntry \<Rightarrow> nat + ReplicationEntry list \<times> 'a" where
  "link_send up f p e = (if up (fst p) then Inr (fst p @ [e], f e (snd p)) else Inl 0)"

fun while_up :: "(ReplicationEntry list \<Rightarrow> bool) \<Rightarrow> ReplicationEntry list \<Rightarrow> ReplicationEntry list \<Rightarrow>
    ReplicationEntry list" where
  "while_up up sent [] = []"
| "while_up up sent (e # es) = (if up sent then e # while_up up (sent @ [e]) es else [])"

lemma while_up_append: "while_up up sent (xs @ ys) =
    (if while_up up sent xs = xs then xs @ while_up up (sent @ xs) ys else while_up up sent xs)"
  by (induction xs arbitrary: sent) auto

lemma while_up_prefix: "\<exists>rest. es = while_up up sent es @ rest \<and>
    (rest \<noteq> [] \<longrightarrow> \<not> up (sent @ while_up up sent es))"
proof (induction es arbitrary: sent)
  case (Cons e es)
  show ?case using Cons[of "sent @ [e]"] by auto
qed simp

lemma while_up_all: "(\<And>s. up s) \<Longrightarrow> while_up up sent es = es"
  by (induction es arbitrary: sent) auto

lemma send_entries_link:
  "send_entries (link_send up f) es a (sent, p) =
    (let pre = while_up up sent es
     in (if pre = [] then a else Seq (last pre), (sent @ pre, fold f pre p), if pre = es then None else Some 0))"
  by (induction es arbitrary: a sent p) (auto simp: link_send_def Let_def)

lemma drain_glue:
  assumes "T \<noteq> []" "pre' = T @ pre" "pre' = es \<longleftrightarrow> pre = ds"
  shows "(l', if pre = [] then Seq (last T) else Seq (last pre), ((sent @ T) @ pre, fold f pre (fold f T p)),
      if pre = ds then Drained else DrainSend 0) =
    (l', if pre' = [] then a else Seq (last pre'), (sent @ pre', fold f pre' p),
      if pre' = es then Drained else DrainSend 0)"
  using assms(1,2) unfolding assms(3) by simp

lemma drain_link:
  assumes pb: "pebble_spec pb view" "pebble_reliable pb"
  shows "log_inv view c lo hi l \<Longrightarrow> hi \<noteq> - 1 \<Longrightarrow> a \<le> hi \<Longrightarrow>
    length (log_suffix c (view (rl_db l)) lo hi a) < n \<Longrightarrow>
    \<exists>l'. drainAvailable pb c (link_send up f) n l a (sent, p) =
      (let es = log_suffix c (view (rl_db l)) lo hi a; pre = while_up up sent es
       in (l', if pre = [] then a else Seq (last pre), (sent @ pre, fold f pre p),
           if pre = es then Drained else DrainSend 0))"
proof (induction n arbitrary: l a sent p)
  case 0
  then show ?case by simp
next
  case (Suc n)
  let ?es = "log_suffix c (view (rl_db l)) lo hi a"
  have amax: "a \<noteq> - 1" using Suc.prems(2,3) word_order.extremum_unique by blast
  obtain l1 where rd: "ReadSince pb c a 1000 l = (l1, Inr (take 1000 ?es))"
    using ReadSince_reliable[OF pb Suc.prems(1) amax, of 1000]
    by (auto simp: log_suffix_seqs take_map)
  have l1: "log_inv view c lo hi l1" "rl_db l1 = rl_db l"
    using ReadSince_inv[OF pb(1) Suc.prems(1) rd] by auto
  have ok: "disk_ok c (view (rl_db l)) lo hi" using Suc.prems(1) by (simp add: log_inv_def)
  show ?case
  proof (cases "?es = []")
    case True
    with rd show ?thesis by simp
  next
    case False
    let ?k = "min 1000 (length ?es)"
    let ?b = "Seq (last (take 1000 ?es))"
    have k: "0 < ?k" "?k \<le> length ?es" using False by auto
    have tk: "take 1000 ?es = take ?k ?es" by (simp add: min_def)
    have b: "?b = Seq (?es ! (?k - 1))"
    proof -
      have "take ?k ?es ! (?k - 1) = ?es ! (?k - 1)"
        by (rule nth_take) (use k in linarith)
      moreover have "length (take ?k ?es) = ?k" "take ?k ?es \<noteq> []" using k by auto
      ultimately show ?thesis unfolding tk by (metis last_conv_nth)
    qed
    have rest: "log_suffix c (view (rl_db l1)) lo hi ?b = drop ?k ?es"
      unfolding b l1(2) by (rule log_suffix_drop[OF ok k])
    have ble: "?b \<le> hi"
    proof -
      have i: "?k - 1 < length ?es" and Suc_k: "Suc (?k - 1) = ?k" using k by linarith+
      have "unat ?b = max (unat lo) (unat a) + ?k"
        using log_suffix_nth[OF ok i] unfolding b Suc_k .
      moreover have "length ?es = unat hi - max (unat lo) (unat a)"
        by (simp add: log_suffix_def del: upt_Suc)
      ultimately have "unat ?b \<le> unat hi" using k by linarith
      then show ?thesis by (simp only: word_le_nat_alt)
    qed
    let ?T = "take 1000 ?es" and ?D = "drop ?k ?es"
    have split: "?es = ?T @ ?D" unfolding tk by simp
    have wu: "while_up up sent ?es = (if while_up up sent ?T = ?T then ?T @ while_up up (sent @ ?T) ?D
        else while_up up sent ?T)"
      by (subst split) (rule while_up_append)
    show ?thesis
    proof (cases "while_up up sent ?T = ?T")
      case False
      then have eqF: "while_up up sent ?es = while_up up sent ?T" using wu by presburger
      obtain rest where rest: "?T = while_up up sent ?T @ rest" using while_up_prefix by blast
      then have "rest \<noteq> []" using False by auto
      with arg_cong[OF rest, of length] have "length (while_up up sent ?T) < length ?T" by simp
      moreover have "length ?T \<le> length ?es" by simp
      ultimately have ne: "while_up up sent ?T \<noteq> ?es" by (metis not_less)
      have "drainAvailable pb c (link_send up f) (Suc n) l a (sent, p) =
          (l1, if while_up up sent ?T = [] then a else Seq (last (while_up up sent ?T)),
           (sent @ while_up up sent ?T, fold f (while_up up sent ?T) p), DrainSend 0)"
        using rd \<open>?es \<noteq> []\<close> False by (simp add: send_entries_link Let_def)
      then show ?thesis unfolding Let_def eqF if_not_P[OF ne] by (rule exI)
    next
      case True
      have "length ?D < n" using Suc.prems(4) k unfolding length_drop by linarith
      with Suc.IH[OF l1(1) Suc.prems(2) ble, of "sent @ ?T" "fold f ?T p"]
      obtain l' where dr: "drainAvailable pb c (link_send up f) n l1 ?b (sent @ ?T, fold f ?T p) =
          (let pre = while_up up (sent @ ?T) ?D
           in (l', if pre = [] then ?b else Seq (last pre), ((sent @ ?T) @ pre, fold f pre (fold f ?T p)),
               if pre = ?D then Drained else DrainSend 0))"
        unfolding rest by (auto simp: Let_def)
      have eq: "while_up up sent ?es = ?T @ while_up up (sent @ ?T) ?D" using wu True by simp
      have ne: "?T \<noteq> []" using False by simp
      have iff: "while_up up sent ?es = ?es \<longleftrightarrow> while_up up (sent @ ?T) ?D = ?D"
        unfolding eq by (metis split same_append_eq)
      have "drainAvailable pb c (link_send up f) (Suc n) l a (sent, p) =
          drainAvailable pb c (link_send up f) n l1 ?b (sent @ ?T, fold f ?T p)"
        using rd False True by (simp add: send_entries_link Let_def)
      also note dr[unfolded Let_def]
      also note drain_glue[OF ne eq iff]
      finally show ?thesis unfolding Let_def by (rule exI)
    qed
  qed
qed

section \<open>Properties\<close>

text \<open>C5. An entry whose application fails and is then retried is applied exactly once, wherever the
  first attempt failed: in the decoding, in the commit of the data, between the data of a batch
  and the marker that records it, or in the periodic sync after the commit.\<close>
theorem apply_retry:
  assumes pb: "pebble_spec pb view" and pb': "pebble_spec pb' view"
    and first: "Apply pb repr e a = (a1, Some err)" and retry: "Apply pb' repr e a1 = (a2, None)"
  shows "replica view a2 = replay1 repr e (replica view a)"
proof -
  have two: "replica view a2 = replay1 repr e (replica view a1)"
    by (rule Apply_success[OF pb' retry])
  from pb first show ?thesis
  proof (cases rule: Apply_cases)
    case applied
    moreover have "replay1 repr e (replay1 repr e st) = replay1 repr e st" for st
      by (simp add: replay1_def[of _ _ "replay1 repr e st"])
    ultimately show ?thesis using two by simp
  next
    case failed
    with two show ?thesis by simp
  next
    case (half ops)
    then have "entry_ops repr e = ops" by (simp add: entry_ops_def)
    with two half show ?thesis by (simp add: replay1_def apply_batch_idem not_le[symmetric])
  qed
qed

definition demo_repr :: "bytes \<Rightarrow> nat + batch_op list" where
  "demo_repr v = (if v = [] then Inl 1 else Inr [BSet v [1], BDelete [9]])"

definition demo_entry :: "u64 \<Rightarrow> WALOp \<Rightarrow> bytes \<Rightarrow> bytes \<Rightarrow> ReplicationEntry" where
  "demo_entry s op k v = \<lparr>Seq = s, Op = op, Key = k, Value = v, TimestampNS = 0\<rparr>"

lemma lastAppliedKey_hd: "\<exists>k. lastAppliedKey = 47 # 2 # k"
  by (simp add: lastAppliedKey_def metaKey_def prefix_defs)

lemma lastAppliedKey_neq [simp]: "b \<noteq> 47 \<Longrightarrow> lastAppliedKey \<noteq> b # k" "b \<noteq> 47 \<Longrightarrow> b # k \<noteq> lastAppliedKey"
  by (metis lastAppliedKey_hd list.inject)+

lemmas apply_eval = Apply_def NewApplier_def after_commit_def applierSyncInterval_def mem_pebble_def
  demo_repr_def demo_entry_def WALOp_defs Let_def

text \<open>A batch whose marker cannot be written at first: the retry leaves what one application does.\<close>

lemma apply_retry_witness:
  "\<exists>a1 a2 err.
     Apply (refusing (\<lambda>d ops. ops = [BSet lastAppliedKey (PutUint64 1)]) mem_pebble) demo_repr
       (demo_entry 1 OpBatch [] [7]) (NewApplier mem_pebble []) = (a1, Some err) \<and>
     map_of (ap_db a1) [7] = Some [1] \<and> ap_lastApplied a1 = 0 \<and>
     Apply mem_pebble demo_repr (demo_entry 1 OpBatch [] [7]) a1 = (a2, None) \<and>
     replica map_of a2 = replay1 demo_repr (demo_entry 1 OpBatch [] [7]) (0, Map.empty)"
proof -
  let ?pb = "refusing (\<lambda>d ops. ops = [BSet lastAppliedKey (PutUint64 1)]) mem_pebble"
  let ?e = "demo_entry 1 OpBatch [] [7]" and ?a = "NewApplier mem_pebble []"
  obtain a1 err where 1: "Apply ?pb demo_repr ?e ?a = (a1, Some err)"
    and a1: "map_of (ap_db a1) [7] = Some [1]" "ap_lastApplied a1 = 0"
    by (simp add: apply_eval refusing_def)
  have "decodes demo_repr ?e" by (simp add: decodes_def demo_entry_def demo_repr_def)
  from Apply_reliable[OF mem_pebble_reliable this] obtain a2
    where 2: "Apply mem_pebble demo_repr ?e a1 = (a2, None)" by (metis prod.collapse)
  have "replica map_of ?a = (0, Map.empty)" by (simp add: replica_def apply_eval)
  with apply_retry[OF refusing_spec[OF mem_pebble_spec] mem_pebble_spec 1 2] 1 2 a1 show ?thesis
    by auto
qed

text \<open>A replica that stops after \<open>k\<close> entries, restarts from its store and is sent the stream
  again from any earlier point reaches the same data and the same cursor as one that received
  the stream once without interruption.\<close>
theorem restart_and_resend:
  assumes "pebble_spec pb view" "pebble_reliable pb" "cursor_durable view a"
    and "\<forall>e \<in> set es. decodes repr e" "j \<le> k"
  shows "replica view (apply_all pb repr (drop j es)
           (NewApplier pb (ap_db (apply_all pb repr (take k es) a)))) =
         replay repr es (replica view a)"
proof -
  let ?a = "apply_all pb repr (take k es) a"
  have dec: "\<forall>e \<in> set (take k es). decodes repr e" "\<forall>e \<in> set (drop j es). decodes repr e"
    using assms(4) by (meson in_set_takeD in_set_dropD)+
  have "replica view (NewApplier pb (ap_db ?a)) = replica view ?a"
    by (rule NewApplier_cursor[OF assms(1,2) apply_all_durable[OF assms(1-3) dec(1)]])
  then have "replica view (apply_all pb repr (drop j es) (NewApplier pb (ap_db ?a))) =
      replay repr (take k es @ drop j es) (replica view a)"
    using apply_all_replay[OF assms(1,2) dec(2)] apply_all_replay[OF assms(1,2) dec(1)] by simp
  then show ?thesis using replay_resend[OF assms(5)] by simp
qed

definition demo_stream :: "ReplicationEntry list" where
  "demo_stream = [demo_entry 1 OpSet [1] [5], demo_entry 2 OpDelete [1] [], demo_entry 3 OpBatch [] [7]]"

lemma demo_replica_durable: "cursor_durable map_of (NewApplier mem_pebble [])"
  by (simp add: cursor_durable_def apply_eval)

lemma restart_and_resend_witness:
  "replica map_of (apply_all mem_pebble demo_repr (drop 1 demo_stream)
      (NewApplier mem_pebble (ap_db (apply_all mem_pebble demo_repr (take 2 demo_stream)
        (NewApplier mem_pebble []))))) =
   replay demo_repr demo_stream (replica map_of (NewApplier mem_pebble []))"
proof -
  have "\<forall>e \<in> set demo_stream. decodes demo_repr e"
    by (simp add: demo_stream_def decodes_def demo_repr_def demo_entry_def WALOp_defs)
  from restart_and_resend[OF mem_pebble_spec mem_pebble_reliable demo_replica_durable this, of 1 2]
  show ?thesis by simp
qed

text \<open>C3. The streamer's drain loop terminates, sends the log in order and each entry once, and loses its
  place to no failure.  With more fuel than there are entries after \<open>lastSeq\<close>, over a link that may go
  down before any entry, what it has put on the wire is the list of stored entries after \<open>lastSeq\<close>, in
  order, up to the failure, and all of them when the link stays up; its cursor is then the last entry
  sent, so that the entries after the cursor are exactly those not sent yet; and the replica that
  applied what arrived holds the replay of exactly that.\<close>
theorem drain_catches_up:
  assumes "pebble_spec pb view" "pebble_reliable pb" "log_inv view c lo hi l" "hi \<noteq> - 1"
    and "pebble_spec pb' view'" "pebble_reliable pb'"
    and "lastSeq \<le> hi" "unat hi - unat lastSeq < fuel"
    and "\<forall>e \<in> set (log_suffix c (view (rl_db l)) lo hi lastSeq). decodes repr e"
  shows "\<exists>l' cur sent a' rest res.
    drainAvailable pb c (link_send up (\<lambda>e a. fst (Apply pb' repr e a))) fuel l lastSeq ([], a) =
      (l', cur, (sent, a'), res) \<and>
    log_suffix c (view (rl_db l)) lo hi lastSeq = sent @ rest \<and>
    log_suffix c (view (rl_db l)) lo hi cur = rest \<and>
    (if rest = [] then res = Drained else res = DrainSend 0 \<and> \<not> up sent) \<and>
    replica view' a' = replay repr sent (replica view' a)"
proof -
  let ?es = "log_suffix c (view (rl_db l)) lo hi lastSeq"
  let ?f = "\<lambda>e a. fst (Apply pb' repr e a)"
  let ?pre = "while_up up [] ?es"
  have len: "length ?es < fuel" using assms(8) by (auto simp: log_suffix_def simp del: upt_Suc)
  obtain l' where dr: "drainAvailable pb c (link_send up ?f) fuel l lastSeq ([], a) =
      (l', if ?pre = [] then lastSeq else Seq (last ?pre), (?pre, fold ?f ?pre a),
       if ?pre = ?es then Drained else DrainSend 0)"
    using drain_link[OF assms(1,2,3,4,7) len, of up ?f "[]" a] by (auto simp: Let_def)
  obtain rest where rest: "?es = ?pre @ rest" "rest \<noteq> [] \<longrightarrow> \<not> up ?pre"
    using while_up_prefix[of ?es up "[]"] by auto
  have ok: "disk_ok c (view (rl_db l)) lo hi" using assms(3) by (simp add: log_inv_def)
  have cur: "log_suffix c (view (rl_db l)) lo hi (if ?pre = [] then lastSeq else Seq (last ?pre)) = rest"
  proof (cases "?pre = []")
    case True
    then show ?thesis using rest(1) by simp
  next
    case False
    let ?n = "length ?pre"
    have n: "0 < ?n" "?n \<le> length ?es" using False arg_cong[OF rest(1), of length] by simp_all
    have "last ?pre = ?es ! (?n - 1)" using False by (subst rest(1)) (simp add: nth_append last_conv_nth)
    then show ?thesis
      using log_suffix_drop[OF ok n] False by (metis append_eq_conv_conj rest(1))
  qed
  have "\<forall>e \<in> set ?pre. decodes repr e" using assms(9) rest(1) by (metis Un_iff set_append)
  from apply_all_replay[OF assms(5,6) this]
  have rep: "replica view' (fold ?f ?pre a) = replay repr ?pre (replica view' a)"
    by (simp add: apply_all_def)
  have res: "(if ?pre = ?es then Drained else DrainSend 0) = (if rest = [] then Drained else DrainSend 0)"
    using rest(1) by (metis append_Nil2 append_self_conv)
  show ?thesis
    by (rule exI[of _ l'], rule exI, rule exI[of _ ?pre], rule exI, rule exI[of _ rest], rule exI, intro conjI)
      (rule dr, rule rest(1), rule cur, use res rest(2) in simp, rule rep)
qed

lemma drain_catches_up_witness:
  "\<exists>lo l' cur sent a' rest. log_inv map_of demo_codec lo 3 demo_log \<and>
    log_suffix demo_codec (map_of (rl_db demo_log)) lo 3 1 = sent @ rest \<and>
    drainAvailable mem_pebble demo_codec
      (link_send (\<lambda>s. length s < 1) (\<lambda>e a. fst (Apply mem_pebble demo_repr e a))) 4
      demo_log 1 ([], NewApplier mem_pebble []) = (l', cur, (sent, a'), if rest = [] then Drained else DrainSend 0)"
proof -
  obtain lo where inv: "log_inv map_of demo_codec lo 3 demo_log" using demo_log_inv by blast
  have ops: "Op (the (log_abs demo_codec (map_of (rl_db demo_log)) s)) \<noteq> OpBatch"
    if "s = 2 \<or> s = 3" for s
    using that unfolding demo_log_def
    by (auto simp: log_eval log_abs_def WALOp_defs nth_append)
  have "decodes demo_repr e" if e: "e \<in> set (log_suffix demo_codec (map_of (rl_db demo_log)) lo 3 1)" for e
  proof -
    from e obtain n where "e = the (log_abs demo_codec (map_of (rl_db demo_log)) (word_of_nat n))"
        "1 < n" "n < 4"
      by (auto simp: log_suffix_def simp del: upt_Suc)
    moreover from this have "n = 2 \<or> n = 3" by auto
    ultimately show ?thesis using ops by (auto simp: decodes_def)
  qed
  then have "\<forall>e \<in> set (log_suffix demo_codec (map_of (rl_db demo_log)) lo 3 1). decodes demo_repr e"
    by blast
  from drain_catches_up[OF mem_pebble_spec mem_pebble_reliable inv _ mem_pebble_spec
      mem_pebble_reliable _ _ this, of 4 "\<lambda>s. length s < 1" "NewApplier mem_pebble []"]
  obtain l' cur sent a' rest res where
    "drainAvailable mem_pebble demo_codec
      (link_send (\<lambda>s. length s < 1) (\<lambda>e a. fst (Apply mem_pebble demo_repr e a))) 4
      demo_log 1 ([], NewApplier mem_pebble []) = (l', cur, (sent, a'), res)"
    "log_suffix demo_codec (map_of (rl_db demo_log)) lo 3 1 = sent @ rest"
    "if rest = [] then res = Drained else res = DrainSend 0 \<and> \<not> length sent < 1"
    by auto
  moreover from this(3) have "res = (if rest = [] then Drained else DrainSend 0)" by (auto split: if_splits)
  ultimately show ?thesis using inv by blast
qed

text \<open>Rebasing the cursor is durable and exact, downwards too: after a successful \<open>ResetTo\<close> the
  cursor in memory is the given sequence, a restarted applier reads the same one, nothing else
  in the store has changed, and the next entry above it is applied while one at or below it is
  skipped.\<close>
theorem reset_rebases:
  assumes "pebble_spec pb view" "pebble_reliable pb" "cursor_durable view a"
    and "ResetTo pb s a = (a', None)"
  shows "ap_lastApplied a' = s \<and> ap_lastApplied (NewApplier pb (ap_db a')) = s \<and>
    (\<forall>k. k \<noteq> lastAppliedKey \<longrightarrow> view (ap_db a') k = view (ap_db a) k) \<and>
    (\<forall>e. decodes repr e \<longrightarrow> ap_lastApplied (fst (Apply pb repr e a')) = max s (Seq e))"
proof -
  have s: "ap_lastApplied a' = s" and dur: "cursor_durable view a'"
    and keys: "\<forall>k. k \<noteq> lastAppliedKey \<longrightarrow> view (ap_db a') k = view (ap_db a) k"
    using assms(3,4) spec_set[OF assms(1)]
    by (auto simp: ResetTo_def cursor_durable_def split: if_splits sum.splits)
  have "ap_lastApplied (NewApplier pb (ap_db a')) = s"
    using NewApplier_cursor[OF assms(1,2) dur] s by (metis replica_simps(1))
  moreover have "ap_lastApplied (fst (Apply pb repr e a')) = max s (Seq e)" if "decodes repr e" for e
  proof -
    have "Apply pb repr e a' = (fst (Apply pb repr e a'), None)"
      using Apply_reliable[OF assms(2) that] by (simp add: prod_eq_iff)
    from Apply_success[OF assms(1) this] s show ?thesis
      by (metis fst_replay1 replica_simps(1))
  qed
  ultimately show ?thesis using s keys by blast
qed

lemma reset_rebases_witness:
  "\<exists>a'. ResetTo mem_pebble 2 (apply_all mem_pebble demo_repr demo_stream (NewApplier mem_pebble [])) = (a', None) \<and>
     ap_lastApplied (fst (Apply mem_pebble demo_repr (demo_entry 3 OpSet [1] [6]) a')) = 3"
proof -
  let ?a = "apply_all mem_pebble demo_repr demo_stream (NewApplier mem_pebble [])"
  have dec: "\<forall>e \<in> set demo_stream. decodes demo_repr e"
    by (simp add: demo_stream_def decodes_def demo_repr_def demo_entry_def WALOp_defs)
  have dur: "cursor_durable map_of ?a"
    by (rule apply_all_durable[OF mem_pebble_spec mem_pebble_reliable demo_replica_durable dec])
  have "\<exists>a'. ResetTo mem_pebble 2 x = (a', None)" for x
    by (cases "ap_lastApplied x = 2") (simp_all add: ResetTo_def pb_set_def mem_pebble_def)
  then obtain a' where r: "ResetTo mem_pebble 2 ?a = (a', None)" by blast
  have "decodes demo_repr (demo_entry 3 OpSet [1] [6])"
    by (simp add: decodes_def demo_entry_def WALOp_defs)
  with reset_rebases[OF mem_pebble_spec mem_pebble_reliable dur r, of demo_repr] r
  show ?thesis by (auto simp: demo_entry_def)
qed

end
