(* ===== verification/Msp.thy ===== *)
theory Msp
  imports Replication_Types "HOL-Library.AList" "HOL-Library.Signed_Division"
begin

text \<open>
  Failure detection (\<open>internal/replication/msp.go\<close>): every node pings its peers, takes a peer as
  subjectively down (SDOWN) when it has been silent for too long, gossips that as a vote, and
  takes it as objectively down (ODOWN) when its own observation and the votes of others reach a
  quorum of the non-observers.

  The state is the record \<open>MSP\<close>; the two maps are association lists with distinct keys, whose
  order stands for Go's unspecified iteration order.  What the code starts as goroutines or
  broadcasts is returned as a list of outputs.  The clock and the decoding of a ping payload
  are arguments.
\<close>

record PeerState =
  ps_NodeID :: node_id
  ps_Addr :: string
  ps_Role :: NodeRole
  ps_LastSeen :: int
  ps_MissedBeats :: int
  ps_SDown :: bool
  ps_odownFired :: bool

record MSP =
  msp_localNodeID :: node_id
  msp_localAddr :: string
  msp_peers :: "(node_id \<times> PeerState) list"
  msp_interval :: int
  msp_missedThreshold :: int
  msp_votedDown :: "(node_id \<times> node_id list) list"
  msp_OnSDown :: bool
  msp_OnODown :: bool
  msp_OnRecover :: bool
  msp_OnAddrChanged :: bool

datatype msp_output =
    BroadcastPing
  | GossipSDown node_id
  | EvSDown node_id
  | EvODown node_id
  | EvRecover node_id
  | EvAddrChanged node_id string

definition NewMSP :: "node_id \<Rightarrow> string \<Rightarrow> MSP" where
  "NewMSP localNodeID localAddr = \<lparr>msp_localNodeID = localNodeID, msp_localAddr = localAddr,
     msp_peers = [], msp_interval = 0, msp_missedThreshold = 0, msp_votedDown = [],
     msp_OnSDown = False, msp_OnODown = False, msp_OnRecover = False, msp_OnAddrChanged = False\<rparr>"

definition AddPeer :: "int \<Rightarrow> node_id \<Rightarrow> string \<Rightarrow> NodeRole \<Rightarrow> MSP \<Rightarrow> MSP" where
  "AddPeer now n addr role m = m\<lparr>msp_peers := AList.update n
     \<lparr>ps_NodeID = n, ps_Addr = addr, ps_Role = role, ps_LastSeen = now, ps_MissedBeats = 0,
      ps_SDown = False, ps_odownFired = False\<rparr> (msp_peers m)\<rparr>"

definition RemovePeer :: "node_id \<Rightarrow> MSP \<Rightarrow> MSP" where
  "RemovePeer n m = m\<lparr>msp_peers := AList.delete n (msp_peers m),
     msp_votedDown := AList.delete n (msp_votedDown m)\<rparr>"

definition decodeAddr :: "(bytes \<Rightarrow> nat + node_id \<times> string) \<Rightarrow> bytes \<Rightarrow> string" where
  "decodeAddr unmarshal payload =
     (if length payload = 0 then ''''
      else case unmarshal payload of Inl err \<Rightarrow> '''' | Inr (n, addr) \<Rightarrow> addr)"

definition handleHeartbeat :: "int \<Rightarrow> node_id \<Rightarrow> string \<Rightarrow> MSP \<Rightarrow> MSP \<times> msp_output list" where
  "handleHeartbeat now from addr m =
     (case map_of (msp_peers m) from of
        None \<Rightarrow> (m, [])
      | Some p \<Rightarrow>
          (let wasSDown = ps_SDown p;
               p1 = p\<lparr>ps_LastSeen := now, ps_MissedBeats := 0, ps_SDown := False\<rparr>;
               p2 = (if wasSDown then p1\<lparr>ps_odownFired := False\<rparr> else p1);
               voted = (if wasSDown then AList.delete from (msp_votedDown m) else msp_votedDown m);
               moved = (addr \<noteq> '''' \<and> addr \<noteq> ps_Addr p2);
               p3 = (if moved then p2\<lparr>ps_Addr := addr\<rparr> else p2)
           in (m\<lparr>msp_peers := AList.update from p3 (msp_peers m), msp_votedDown := voted\<rparr>,
               (if moved \<and> msp_OnAddrChanged m then [EvAddrChanged from addr] else []) @
               (if wasSDown \<and> msp_OnRecover m then [EvRecover from] else []))))"

definition HandlePing ::
  "(bytes \<Rightarrow> nat + node_id \<times> string) \<Rightarrow> int \<Rightarrow> node_id \<Rightarrow> bytes \<Rightarrow> MSP \<Rightarrow> MSP \<times> msp_output list" where
  "HandlePing unmarshal now from payload m = handleHeartbeat now from (decodeAddr unmarshal payload) m"

definition HandlePong ::
  "(bytes \<Rightarrow> nat + node_id \<times> string) \<Rightarrow> int \<Rightarrow> node_id \<Rightarrow> bytes \<Rightarrow> MSP \<Rightarrow> MSP \<times> msp_output list" where
  "HandlePong unmarshal now from payload m = handleHeartbeat now from (decodeAddr unmarshal payload) m"

definition IsSDown :: "node_id \<Rightarrow> MSP \<Rightarrow> bool" where
  "IsSDown n m = (case map_of (msp_peers m) n of None \<Rightarrow> False | Some p \<Rightarrow> ps_SDown p)"

text \<open>The votes held against a node, without this node's own.\<close>

definition down_votes :: "node_id \<Rightarrow> MSP \<Rightarrow> node_id list" where
  "down_votes n m = (case map_of (msp_votedDown m) n of None \<Rightarrow> [] | Some vs \<Rightarrow> vs)"

definition IsODown :: "node_id \<Rightarrow> int \<Rightarrow> MSP \<Rightarrow> bool" where
  "IsODown n quorum m =
     (case map_of (msp_peers m) n of
        None \<Rightarrow> False
      | Some p \<Rightarrow> if \<not> ps_SDown p then False else 1 + int (length (down_votes n m)) \<ge> quorum)"

definition LivePeers :: "MSP \<Rightarrow> PeerState list" where
  "LivePeers m = filter (\<lambda>p. \<not> ps_SDown p) (map snd (msp_peers m))"

definition AllPeers :: "MSP \<Rightarrow> PeerState list" where
  "AllPeers m = map snd (msp_peers m)"

definition SetMissedThreshold :: "int \<Rightarrow> MSP \<Rightarrow> MSP" where
  "SetMissedThreshold n m = m\<lparr>msp_missedThreshold := wrap32 n\<rparr>"

definition SetHeartbeatInterval :: "int \<Rightarrow> MSP \<Rightarrow> MSP" where
  "SetHeartbeatInterval d m = m\<lparr>msp_interval := d\<rparr>"

definition nonObserverQuorumLocked :: "MSP \<Rightarrow> nat" where
  "nonObserverQuorumLocked m =
     (1 + length (filter (\<lambda>(n, p). ps_Role p \<noteq> RoleObserver) (msp_peers m))) div 2 + 1"

definition NonObserverQuorum :: "MSP \<Rightarrow> nat" where
  "NonObserverQuorum m = nonObserverQuorumLocked m"

text \<open>One turn of the loop of \<open>tick\<close>.\<close>

definition tick_peer :: "int \<Rightarrow> int \<Rightarrow> int \<Rightarrow> nat \<Rightarrow> MSP \<Rightarrow> PeerState \<Rightarrow> PeerState \<times> msp_output list" where
  "tick_peer now pingInterval sdownThreshold effectiveQuorum m p =
     (let p1 = p\<lparr>ps_MissedBeats := (now - ps_LastSeen p) sdiv pingInterval\<rparr>
      in if now - ps_LastSeen p1 > sdownThreshold \<and> \<not> ps_SDown p1 then
           (let p2 = p1\<lparr>ps_SDown := True\<rparr>;
                n = ps_NodeID p2;
                sdown = (if msp_OnSDown m then [EvSDown n] else [])
            in if ps_Role p2 \<noteq> RoleObserver then
                 (let fire = (1 + length (down_votes n m) \<ge> effectiveQuorum \<and>
                              \<not> ps_odownFired p2 \<and> msp_OnODown m)
                  in (if fire then p2\<lparr>ps_odownFired := True\<rparr> else p2,
                      sdown @ [GossipSDown n] @ (if fire then [EvODown n] else [])))
               else (p2, sdown))
         else (p1, []))"

definition msp_tick :: "int \<Rightarrow> int \<Rightarrow> int \<Rightarrow> MSP \<Rightarrow> MSP \<times> msp_output list" where
  "msp_tick now pingInterval missedThreshold m =
     (let effectiveQuorum = nonObserverQuorumLocked m;
          sdownThreshold = wrap64 (missedThreshold * pingInterval);
          step = (\<lambda>p. tick_peer now pingInterval sdownThreshold effectiveQuorum m p)
      in (m\<lparr>msp_peers := map (\<lambda>(n, p). (n, fst (step p))) (msp_peers m)\<rparr>,
          BroadcastPing # concat (map (\<lambda>(n, p). snd (step p)) (msp_peers m))))"

text \<open>\<open>Run\<close> installs the threshold once and then ticks with the interval it was given.\<close>

definition Run_start :: "int \<Rightarrow> MSP \<Rightarrow> MSP" where
  "Run_start missedThreshold m = m\<lparr>msp_missedThreshold := wrap32 missedThreshold\<rparr>"

definition Run_tick :: "int \<Rightarrow> int \<Rightarrow> MSP \<Rightarrow> MSP \<times> msp_output list" where
  "Run_tick now pingInterval m = msp_tick now pingInterval (msp_missedThreshold m) m"

definition RecordDownVote :: "node_id \<Rightarrow> node_id \<Rightarrow> MSP \<Rightarrow> MSP \<times> msp_output list" where
  "RecordDownVote sender target m =
     (if sender = '''' \<or> target = '''' \<or> sender = msp_localNodeID m then (m, [])
      else if (case map_of (msp_peers m) sender of Some sp \<Rightarrow> ps_Role sp = RoleObserver | None \<Rightarrow> False)
      then (m, [])
      else
        (let m1 = m\<lparr>msp_votedDown :=
                 AList.update target (List.insert sender (down_votes target m)) (msp_votedDown m)\<rparr>
         in case map_of (msp_peers m1) target of
              None \<Rightarrow> (m1, [])
            | Some p \<Rightarrow>
                if ps_SDown p \<and> \<not> ps_odownFired p \<and> ps_Role p \<noteq> RoleObserver \<and>
                   1 + length (down_votes target m1) \<ge> nonObserverQuorumLocked m1
                then (m1\<lparr>msp_peers := AList.update target (p\<lparr>ps_odownFired := True\<rparr>) (msp_peers m1)\<rparr>,
                      if msp_OnODown m1 then [EvODown target] else [])
                else (m1, [])))"

end
