(* ===== verification/Msp_Props.thy ===== *)
theory Msp_Props
  imports Msp
begin

text \<open>
  Properties of failure detection: an objective failure is announced at most once per episode,
  only by a quorum, never of an observer; the tick marks exactly the silent peers.  Two
  theorems show votes that count although they should not.
\<close>

section \<open>Calls and well-formed states\<close>

datatype msp_call =
    CAddPeer int node_id string NodeRole
  | CRemovePeer node_id
  | CHeartbeat int node_id string
  | CTick int int
  | CVote node_id node_id
  | CThreshold int

fun msp_step :: "msp_call \<Rightarrow> MSP \<Rightarrow> MSP \<times> msp_output list" where
  "msp_step (CAddPeer now n addr role) m = (AddPeer now n addr role m, [])"
| "msp_step (CRemovePeer n) m = (RemovePeer n m, [])"
| "msp_step (CHeartbeat now n addr) m = handleHeartbeat now n addr m"
| "msp_step (CTick now iv) m = Run_tick now iv m"
| "msp_step (CVote sender target) m = RecordDownVote sender target m"
| "msp_step (CThreshold n) m = (SetMissedThreshold n m, [])"

fun msp_run :: "msp_call list \<Rightarrow> MSP \<Rightarrow> MSP \<times> msp_output list" where
  "msp_run [] m = (m, [])"
| "msp_run (c # cs) m =
     (let (m1, o1) = msp_step c m; (m2, o2) = msp_run cs m1 in (m2, o1 @ o2))"

definition msp_wf :: "MSP \<Rightarrow> bool" where
  "msp_wf m \<longleftrightarrow>
     distinct (map fst (msp_peers m)) \<and>
     (\<forall>n p. map_of (msp_peers m) n = Some p \<longrightarrow> ps_NodeID p = n) \<and>
     (\<forall>t. distinct (down_votes t m) \<and> msp_localNodeID m \<notin> set (down_votes t m))"

lemma down_votes_delete: "set (case map_of (AList.delete n vs) t of None \<Rightarrow> [] | Some x \<Rightarrow> x)
    \<subseteq> set (case map_of vs t of None \<Rightarrow> [] | Some x \<Rightarrow> x)"
  by (auto simp: delete_conv' split: option.splits if_splits)

lemma down_votes_simps [simp]:
  "down_votes t (m\<lparr>msp_peers := ps\<rparr>) = down_votes t m"
  "down_votes t (m\<lparr>msp_missedThreshold := k\<rparr>) = down_votes t m"
  "down_votes t (m\<lparr>msp_votedDown := AList.delete n (msp_votedDown m)\<rparr>) = (if t = n then [] else down_votes t m)"
  "down_votes t (m\<lparr>msp_votedDown := AList.update n vs (msp_votedDown m)\<rparr>) = (if t = n then vs else down_votes t m)"
  by (auto simp: down_votes_def delete_conv' update_conv')

lemma tick_peer_id [simp]:
  "ps_NodeID (fst (tick_peer now iv thr q m p)) = ps_NodeID p"
  "ps_Role (fst (tick_peer now iv thr q m p)) = ps_Role p"
  by (simp_all add: tick_peer_def Let_def)

lemma map_of_tick: "map_of (map (\<lambda>(n, p). (n, f p)) ps) t = map_option f (map_of ps t)"
  by (induction ps) auto

lemma map_fst_tick: "map fst (map (\<lambda>(n, p). (n, f p)) ps) = map fst ps"
  by (induction ps) auto

lemma fst_comp_tick: "fst \<circ> (\<lambda>(n, p). (n, f p)) = fst"
  by auto

lemma msp_step_wf:
  assumes "msp_wf m"
  shows "msp_wf (fst (msp_step c m))"
proof (cases c)
  case (CAddPeer now n addr role)
  with assms show ?thesis
    by (auto simp: msp_wf_def AddPeer_def distinct_update update_conv')
next
  case (CRemovePeer n)
  have "down_votes t (RemovePeer n m) = (if t = n then [] else down_votes t m)" for t
    by (simp add: RemovePeer_def down_votes_def delete_conv')
  with CRemovePeer assms show ?thesis
    by (auto simp: msp_wf_def RemovePeer_def distinct_delete delete_conv')
next
  case (CHeartbeat now n addr)
  show ?thesis
  proof (cases "map_of (msp_peers m) n")
    case None
    with CHeartbeat assms show ?thesis by (simp add: handleHeartbeat_def)
  next
    case (Some p)
    obtain p' vs where st: "fst (msp_step c m) = m\<lparr>msp_peers := AList.update n p' (msp_peers m), msp_votedDown := vs\<rparr>"
      and p': "ps_NodeID p' = ps_NodeID p" and vs: "vs = AList.delete n (msp_votedDown m) \<or> vs = msp_votedDown m"
      using CHeartbeat Some by (auto simp: handleHeartbeat_def Let_def)
    have "distinct (down_votes t (fst (msp_step c m))) \<and>
        msp_localNodeID m \<notin> set (down_votes t (fst (msp_step c m)))" for t
    proof -
      have "down_votes t (fst (msp_step c m)) = [] \<or> down_votes t (fst (msp_step c m)) = down_votes t m"
        unfolding st using vs by (auto simp: down_votes_def delete_conv')
      moreover have "distinct (down_votes t m) \<and> msp_localNodeID m \<notin> set (down_votes t m)"
        using assms by (simp add: msp_wf_def)
      ultimately show ?thesis by auto
    qed
    moreover have "ps_NodeID p = n" using assms Some by (simp add: msp_wf_def)
    moreover have "msp_localNodeID (fst (msp_step c m)) = msp_localNodeID m"
      "msp_peers (fst (msp_step c m)) = AList.update n p' (msp_peers m)" by (simp_all add: st)
    ultimately show ?thesis
      using assms p' unfolding msp_wf_def by (simp add: distinct_update update_conv')
  qed
next
  case (CTick now iv)
  with assms show ?thesis
    by (auto simp: msp_wf_def Run_tick_def msp_tick_def Let_def map_of_tick fst_comp_tick)
next
  case (CVote s t)
  with assms show ?thesis
    by (auto simp: msp_wf_def RecordDownVote_def Let_def distinct_update update_conv' simp del: map_of_eq_Some_iff
        split: option.splits)
next
  case (CThreshold n)
  with assms show ?thesis by (simp add: msp_wf_def SetMissedThreshold_def)
qed

lemma msp_run_wf: "msp_wf m \<Longrightarrow> msp_wf (fst (msp_run cs m))"
proof (induction cs arbitrary: m)
  case Nil
  then show ?case by simp
next
  case (Cons c cs)
  obtain m1 o1 where st: "msp_step c m = (m1, o1)" by fastforce
  have "msp_wf m1" using msp_step_wf[OF Cons.prems, of c] st by simp
  from Cons.IH[OF this] st show ?case by (simp add: Let_def split_beta)
qed

section \<open>Announcements of a failure\<close>

definition fired :: "node_id \<Rightarrow> MSP \<Rightarrow> bool" where
  "fired t m = (case map_of (msp_peers m) t of None \<Rightarrow> False | Some p \<Rightarrow> ps_odownFired p)"

text \<open>The calls that end an episode of failure of \<open>t\<close>.\<close>

fun resets :: "node_id \<Rightarrow> msp_call \<Rightarrow> bool" where
  "resets t (CAddPeer now n addr role) = (n = t)"
| "resets t (CRemovePeer n) = (n = t)"
| "resets t (CHeartbeat now n addr) = (n = t)"
| "resets t c = False"

lemma tick_peer_odown:
  "count_list (snd (tick_peer now iv thr q m p)) (EvODown t) =
     (if ps_NodeID p = t \<and> \<not> ps_odownFired p \<and> ps_odownFired (fst (tick_peer now iv thr q m p))
      then 1 else 0)"
  "ps_odownFired p \<Longrightarrow> ps_odownFired (fst (tick_peer now iv thr q m p))"
  by (auto simp: tick_peer_def Let_def)

lemma count_list_tick:
  assumes "distinct (map fst ps)" "\<forall>n p. map_of ps n = Some p \<longrightarrow> ps_NodeID p = n"
    and "\<And>p. ps_NodeID p \<noteq> t \<Longrightarrow> count_list (f p) x = 0"
  shows "count_list (concat (map (\<lambda>(n, p). f p) ps)) x =
    (case map_of ps t of None \<Rightarrow> 0 | Some p \<Rightarrow> count_list (f p) x)"
  using assms(1,2)
proof (induction ps)
  case Nil
  then show ?case by simp
next
  case (Cons np ps)
  obtain n p where np: "np = (n, p)" by fastforce
  have p: "ps_NodeID p = n" using Cons.prems(2) np by auto
  have ids: "\<forall>n p. map_of ps n = Some p \<longrightarrow> ps_NodeID p = n"
  proof (intro allI impI)
    fix n' p'
    assume h: "map_of ps n' = Some p'"
    then have "n' \<in> fst ` set ps" by (metis map_of_eq_None_iff option.distinct(1))
    then have "n' \<noteq> n" using Cons.prems(1) np by auto
    with h np have "map_of (np # ps) n' = Some p'" by simp
    with Cons.prems(2) show "ps_NodeID p' = n'" by blast
  qed
  have dist: "distinct (map fst ps)" using Cons.prems(1) by simp
  have IH: "count_list (concat (map (\<lambda>(n, p). f p) ps)) x =
    (case map_of ps t of None \<Rightarrow> 0 | Some p \<Rightarrow> count_list (f p) x)" by (rule Cons.IH[OF dist ids])
  show ?case
  proof (cases "n = t")
    case True
    then have "map_of ps t = None"
      using Cons.prems(1) np by (simp add: map_of_eq_None_iff)
    with IH np True show ?thesis by simp
  next
    case False
    with assms(3)[of p] p IH np show ?thesis by simp
  qed
qed

lemma Run_tick_odown:
  assumes "msp_wf m" "Run_tick now iv m = (m', outs)"
  shows "count_list outs (EvODown t) = (if \<not> fired t m \<and> fired t m' then 1 else 0)"
    and "fired t m \<Longrightarrow> fired t m'"
proof -
  let ?q = "nonObserverQuorumLocked m" and ?thr = "wrap64 (msp_missedThreshold m * iv)"
  let ?f = "\<lambda>p. tick_peer now iv ?thr ?q m p"
  have m': "msp_peers m' = map (\<lambda>(n, p). (n, fst (?f p))) (msp_peers m)"
    and outs: "outs = BroadcastPing # concat (map (\<lambda>(n, p). snd (?f p)) (msp_peers m))"
    using assms(2) by (auto simp: Run_tick_def msp_tick_def Let_def)
  have dist: "distinct (map fst (msp_peers m))"
    and ids: "\<forall>n p. map_of (msp_peers m) n = Some p \<longrightarrow> ps_NodeID p = n"
    using assms(1) by (auto simp: msp_wf_def)
  have "count_list outs (EvODown t) =
      (case map_of (msp_peers m) t of None \<Rightarrow> 0 | Some p \<Rightarrow> count_list (snd (?f p)) (EvODown t))"
    unfolding outs using count_list_tick[OF dist ids, of t "\<lambda>p. snd (?f p)" "EvODown t"]
    by (simp add: tick_peer_odown(1))
  then show "count_list outs (EvODown t) = (if \<not> fired t m \<and> fired t m' then 1 else 0)"
    using ids tick_peer_odown(2)
    by (auto simp: fired_def m' map_of_tick tick_peer_odown(1) split: option.splits)
  show "fired t m \<Longrightarrow> fired t m'"
    using tick_peer_odown(2) by (auto simp: fired_def m' map_of_tick split: option.splits)
qed

lemma vote_odown:
  assumes "RecordDownVote s u m = (m', outs)"
  shows "count_list outs (EvODown t) \<le> (if \<not> fired t m \<and> fired t m' then 1 else 0)"
    and "fired t m \<Longrightarrow> fired t m'"
  using assms by (auto simp: RecordDownVote_def Let_def fired_def update_conv' split: option.splits if_splits)

lemma heartbeat_odown: "count_list (snd (handleHeartbeat now n addr m)) (EvODown t) = 0"
  by (auto simp: handleHeartbeat_def Let_def split: option.splits)

lemma msp_step_odown:
  assumes "msp_wf m" "\<not> resets t c" "msp_step c m = (m', outs)"
  shows "count_list outs (EvODown t) \<le> (if \<not> fired t m \<and> fired t m' then 1 else 0) \<and>
    (fired t m \<longrightarrow> fired t m')"
proof (cases c)
  case (CHeartbeat now n addr)
  with assms heartbeat_odown[of now n addr m t] show ?thesis
    by (auto simp: fired_def handleHeartbeat_def Let_def update_conv' split: option.splits)
next
  case (CTick now iv)
  with assms have "Run_tick now iv m = (m', outs)" by simp
  from Run_tick_odown[OF assms(1) this, of t] show ?thesis by auto
next
  case (CVote s u)
  with assms have "RecordDownVote s u m = (m', outs)" by simp
  from vote_odown[OF this, of t] show ?thesis by auto
qed (use assms in \<open>auto simp: fired_def AddPeer_def RemovePeer_def SetMissedThreshold_def
  update_conv' delete_conv' split: option.splits\<close>)

lemma msp_run_odown:
  "msp_wf m \<Longrightarrow> \<forall>c \<in> set cs. \<not> resets t c \<Longrightarrow> msp_run cs m = (m', outs) \<Longrightarrow>
   count_list outs (EvODown t) \<le> (if \<not> fired t m \<and> fired t m' then 1 else 0) \<and>
   (fired t m \<longrightarrow> fired t m')"
proof (induction cs arbitrary: m outs)
  case Nil
  then show ?case by simp
next
  case (Cons c cs)
  obtain m1 o1 where st: "msp_step c m = (m1, o1)" by fastforce
  obtain o2 where run: "msp_run cs m1 = (m', o2)" and outs: "outs = o1 @ o2"
    using Cons.prems(3) st by (auto simp: Let_def split: prod.splits)
  have wf: "msp_wf m1" using msp_step_wf[OF Cons.prems(1), of c] st by simp
  have "\<not> resets t c" "\<forall>c \<in> set cs. \<not> resets t c" using Cons.prems(2) by auto
  with msp_step_odown[OF Cons.prems(1) _ st, of t] Cons.IH[OF wf _ run] outs
  show ?case by (fastforce split: if_splits)
qed

lemma vote_needs_quorum:
  assumes "msp_wf m" "RecordDownVote s u m = (m', outs)" "EvODown t \<in> set outs"
  shows "\<exists>p. map_of (msp_peers m') t = Some p \<and> ps_SDown p \<and> ps_Role p \<noteq> RoleObserver \<and> ps_odownFired p"
    and "nonObserverQuorumLocked m \<le> 1 + length (down_votes t m')"
  using assms
  by (auto simp: RecordDownVote_def Let_def update_conv' nonObserverQuorumLocked_def
      split: option.splits if_splits)

lemma tick_peer_quorum:
  assumes "EvODown t \<in> set (snd (tick_peer now iv thr q m p))"
  shows "ps_NodeID p = t \<and> ps_SDown (fst (tick_peer now iv thr q m p)) \<and> ps_Role p \<noteq> RoleObserver \<and>
    ps_odownFired (fst (tick_peer now iv thr q m p)) \<and> q \<le> 1 + length (down_votes t m)"
  using assms by (auto simp: tick_peer_def Let_def split: if_splits)

lemma tick_needs_quorum:
  assumes wf: "msp_wf m" and tick: "Run_tick now iv m = (m', outs)" and out: "EvODown t \<in> set outs"
  shows "\<exists>p. map_of (msp_peers m') t = Some p \<and> ps_SDown p \<and> ps_Role p \<noteq> RoleObserver \<and> ps_odownFired p"
    and "nonObserverQuorumLocked m \<le> 1 + length (down_votes t m')"
proof -
  let ?f = "\<lambda>p. tick_peer now iv (wrap64 (msp_missedThreshold m * iv)) (nonObserverQuorumLocked m) m p"
  have m': "m' = m\<lparr>msp_peers := map (\<lambda>(n, p). (n, fst (?f p))) (msp_peers m)\<rparr>"
    and outs: "outs = BroadcastPing # concat (map (\<lambda>(n, p). snd (?f p)) (msp_peers m))"
    using tick by (auto simp: Run_tick_def msp_tick_def Let_def)
  from out obtain n p where p: "(n, p) \<in> set (msp_peers m)" "EvODown t \<in> set (snd (?f p))"
    by (auto simp: outs)
  have "map_of (msp_peers m) n = Some p" using wf p(1) by (simp add: msp_wf_def)
  moreover from this have "ps_NodeID p = n" using wf by (simp add: msp_wf_def)
  moreover note tick_peer_quorum[OF p(2)]
  ultimately show "\<exists>p. map_of (msp_peers m') t = Some p \<and> ps_SDown p \<and> ps_Role p \<noteq> RoleObserver \<and> ps_odownFired p"
    and "nonObserverQuorumLocked m \<le> 1 + length (down_votes t m')"
    by (auto simp: m' map_of_tick)
qed

section \<open>Properties\<close>

text \<open>Within one episode of failure of a peer -- as long as no heartbeat of it arrives and it is
  neither added again nor removed -- its objective failure is announced at most once, whatever
  ticks, votes and other calls happen.\<close>
theorem odown_once_per_episode:
  assumes "msp_wf m" "\<forall>c \<in> set cs. \<not> resets t c" "msp_run cs m = (m', outs)"
  shows "count_list outs (EvODown t) \<le> 1"
  using msp_run_odown[OF assms] by (auto split: if_splits)

definition demo_msp :: MSP where
  "demo_msp = (NewMSP ''a'' ''h:1'')\<lparr>msp_missedThreshold := 3, msp_OnODown := True\<rparr>"

definition demo_peers :: "msp_call list" where
  "demo_peers = [CAddPeer 0 ''b'' ''h:2'' RoleReplica, CAddPeer 0 ''t'' ''h:3'' RolePrimary]"

definition demo_msp2 :: MSP where
  "demo_msp2 = fst (msp_run demo_peers demo_msp)"

lemma demo_msp_wf: "msp_wf demo_msp"
  by (simp add: msp_wf_def demo_msp_def NewMSP_def down_votes_def)

lemmas msp_eval = demo_msp_def demo_msp2_def demo_peers_def NewMSP_def AddPeer_def RemovePeer_def
  RecordDownVote_def handleHeartbeat_def Run_tick_def msp_tick_def tick_peer_def down_votes_def
  nonObserverQuorumLocked_def NodeRole_defs Let_def wrap64_def wrap32_def

lemma demo_odown_run: "snd (msp_run [CTick 20 5, CVote ''b'' ''t'', CVote ''b'' ''t'', CTick 30 5] demo_msp2)
    = [BroadcastPing, GossipSDown ''b'', GossipSDown ''t'', EvODown ''t'', BroadcastPing]"
  by (simp add: msp_eval)

lemma odown_once_per_episode_witness:
  "count_list (snd (msp_run [CTick 20 5, CVote ''b'' ''t'', CVote ''b'' ''t'', CTick 30 5] demo_msp2)) (EvODown ''t'') \<le> 1
   \<and> EvODown ''t'' \<in> set (snd (msp_run [CTick 20 5, CVote ''b'' ''t'', CVote ''b'' ''t'', CTick 30 5] demo_msp2))"
proof -
  let ?cs = "[CTick 20 5, CVote ''b'' ''t'', CVote ''b'' ''t'', CTick 30 5]"
  have "msp_wf demo_msp2" unfolding demo_msp2_def by (rule msp_run_wf[OF demo_msp_wf])
  moreover have "\<forall>c \<in> set ?cs. \<not> resets ''t'' c" by simp
  moreover have "msp_run ?cs demo_msp2 = (fst (msp_run ?cs demo_msp2), snd (msp_run ?cs demo_msp2))" by simp
  ultimately have "count_list (snd (msp_run ?cs demo_msp2)) (EvODown ''t'') \<le> 1"
    by (rule odown_once_per_episode)
  then show ?thesis by (simp only: demo_odown_run) simp
qed

text \<open>C8. An objective failure is only ever announced of a monitored peer that this node itself sees
  as down and that is not an observer, and only when the ids this node has recorded votes from against
  it, all different and none its own, are together with this node more than half as many as there are
  non-observers, this node included.  Whether a recorded sender is itself one of the non-observers is not
  looked at: a vote is refused from a registered observer only.\<close>
theorem odown_needs_majority:
  assumes "msp_peers m0 = []" "msp_votedDown m0 = []" "msp_run cs m0 = (m, o1)"
    and "msp_step c m = (m', outs)" "EvODown t \<in> set outs"
  shows "(\<exists>p. map_of (msp_peers m') t = Some p \<and> ps_SDown p \<and> ps_Role p \<noteq> RoleObserver) \<and>
    distinct (down_votes t m') \<and> msp_localNodeID m' \<notin> set (down_votes t m') \<and>
    2 * (1 + length (down_votes t m')) > 1 + length (filter (\<lambda>(n, p). ps_Role p \<noteq> RoleObserver) (msp_peers m))"
proof -
  have "msp_wf m0" using assms(1,2) by (simp add: msp_wf_def down_votes_def)
  from msp_run_wf[OF this, of cs] assms(3) have wf: "msp_wf m" by simp
  from msp_step_wf[OF wf, of c] assms(4) have wf': "msp_wf m'" by simp
  have "(\<exists>p. map_of (msp_peers m') t = Some p \<and> ps_SDown p \<and> ps_Role p \<noteq> RoleObserver) \<and>
      nonObserverQuorumLocked m \<le> 1 + length (down_votes t m')"
  proof (cases c)
    case (CHeartbeat now n addr)
    with assms(4,5) heartbeat_odown[of now n addr m t] show ?thesis
      by (simp add: count_list_0_iff)
  next
    case (CTick now iv)
    with assms(4,5) tick_needs_quorum[OF wf, of now iv m' outs t] show ?thesis by auto
  next
    case (CVote s u)
    with assms(4,5) vote_needs_quorum[OF wf, of s u m' outs t] show ?thesis by auto
  qed (use assms(4,5) in auto)
  moreover have "k < 2 * v" if "k div 2 + 1 \<le> v" for k v :: nat
    using that by linarith
  ultimately show ?thesis
    using wf' unfolding msp_wf_def nonObserverQuorumLocked_def by blast
qed

lemma odown_needs_majority_witness:
  "length (down_votes ''t'' (fst (msp_step (CVote ''b'' ''t'') (fst (msp_run [CTick 20 5] demo_msp2))))) \<ge> 1"
proof -
  let ?cs = "demo_peers @ [CTick 20 5]"
  let ?m = "fst (msp_run ?cs demo_msp)" and ?c = "CVote ''b'' ''t''"
  have m: "?m = fst (msp_run [CTick 20 5] demo_msp2)"
    by (simp add: msp_eval)
  have "EvODown ''t'' \<in> set (snd (msp_step ?c ?m))" by (simp add: msp_eval)
  with odown_needs_majority[of demo_msp ?cs ?m "snd (msp_run ?cs demo_msp)" ?c
      "fst (msp_step ?c ?m)" "snd (msp_step ?c ?m)" "''t''"]
  have "2 * (1 + length (down_votes ''t'' (fst (msp_step ?c ?m)))) >
      1 + length (filter (\<lambda>(n, p). ps_Role p \<noteq> RoleObserver) (msp_peers ?m))"
    by (simp add: demo_msp_def NewMSP_def)
  moreover have "length (filter (\<lambda>(n, p). ps_Role p \<noteq> RoleObserver) (msp_peers ?m)) = 2"
    by (simp add: msp_eval)
  moreover have "1 \<le> v" if "k = 2" "2 * (1 + v) > 1 + k" for k v :: nat
    using that by presburger
  ultimately show ?thesis unfolding m by blast
qed

text \<open>A tick marks exactly the peers that have been silent for longer than the threshold: after it
  a peer is subjectively down iff it was before or its last heartbeat is more than
  \<open>missedThreshold * interval\<close> ago, the transition is reported exactly for those that it newly
  marks, and nothing else about a peer changes but its observability counter and the latch.\<close>
theorem tick_marks_silent:
  assumes "msp_wf m" "map_of (msp_peers m) n = Some p" "Run_tick now iv m = (m', outs)"
    and "0 \<le> msp_missedThreshold m * iv" "msp_missedThreshold m * iv < 2 ^ 63"
  shows "(\<exists>p'. map_of (msp_peers m') n = Some p' \<and>
      (ps_SDown p' \<longleftrightarrow> ps_SDown p \<or> now - ps_LastSeen p > msp_missedThreshold m * iv) \<and>
      ps_Addr p' = ps_Addr p \<and> ps_Role p' = ps_Role p \<and> ps_LastSeen p' = ps_LastSeen p) \<and>
    (EvSDown n \<in> set outs \<longleftrightarrow>
      msp_OnSDown m \<and> \<not> ps_SDown p \<and> now - ps_LastSeen p > msp_missedThreshold m * iv)"
proof -
  let ?thr = "msp_missedThreshold m * iv"
  let ?f = "\<lambda>p. tick_peer now iv ?thr (nonObserverQuorumLocked m) m p"
  have thr: "wrap64 ?thr = ?thr"
    using assms(4,5) by (intro wrap64_id) linarith+
  have m': "msp_peers m' = map (\<lambda>(n, p). (n, fst (?f p))) (msp_peers m)"
    and outs: "outs = BroadcastPing # concat (map (\<lambda>(n, p). snd (?f p)) (msp_peers m))"
    using assms(3) by (auto simp: Run_tick_def msp_tick_def Let_def thr)
  have evs: "EvSDown n \<in> set (snd (?f q)) \<longleftrightarrow>
      ps_NodeID q = n \<and> msp_OnSDown m \<and> \<not> ps_SDown q \<and> now - ps_LastSeen q > ?thr" for q
    by (auto simp: tick_peer_def Let_def)
  have only: "(k, q) \<in> set (msp_peers m) \<Longrightarrow> ps_NodeID q = n \<Longrightarrow> q = p" for k q
    using assms(1,2) by (metis map_of_eq_Some_iff msp_wf_def option.inject)
  have pin: "(n, p) \<in> set (msp_peers m)" "ps_NodeID p = n"
    using assms(1,2) by (auto simp: msp_wf_def)
  have "EvSDown n \<in> set outs \<longleftrightarrow> (\<exists>(k, q) \<in> set (msp_peers m). EvSDown n \<in> set (snd (?f q)))"
    by (auto simp: outs)
  also have "\<dots> \<longleftrightarrow> EvSDown n \<in> set (snd (?f p))"
    using only pin evs by fastforce
  finally have "EvSDown n \<in> set outs \<longleftrightarrow>
      msp_OnSDown m \<and> \<not> ps_SDown p \<and> now - ps_LastSeen p > ?thr"
    using evs pin(2) by simp
  moreover have "map_of (msp_peers m') n = Some (fst (?f p))"
    using assms(2) by (simp add: m' map_of_tick)
  moreover have "(ps_SDown (fst (?f p)) \<longleftrightarrow> ps_SDown p \<or> now - ps_LastSeen p > ?thr) \<and>
      ps_Addr (fst (?f p)) = ps_Addr p \<and> ps_Role (fst (?f p)) = ps_Role p \<and>
      ps_LastSeen (fst (?f p)) = ps_LastSeen p"
    by (auto simp: tick_peer_def Let_def)
  ultimately show ?thesis by blast
qed

lemma tick_marks_silent_witness:
  "IsSDown ''b'' (fst (Run_tick 20 5 demo_msp2)) \<and> \<not> IsSDown ''b'' (fst (Run_tick 15 5 demo_msp2))"
proof -
  have wf: "msp_wf demo_msp2" unfolding demo_msp2_def by (rule msp_run_wf[OF demo_msp_wf])
  have thr: "msp_missedThreshold demo_msp2 = 3" by (simp add: msp_eval)
  obtain p where p: "map_of (msp_peers demo_msp2) ''b'' = Some p" "ps_LastSeen p = 0" "\<not> ps_SDown p"
    by (simp add: msp_eval)
  note at = tick_marks_silent[where iv = 5, OF wf p(1) prod.collapse[symmetric]]
  show ?thesis using at[where now = 20] at[where now = 15] p thr by (auto simp: IsSDown_def)
qed

text \<open>A vote against a healthy peer never expires: it is recorded although this node hears from
  the peer, and later heartbeats do not clear it.  When the peer is silent much later, the old
  vote of a node that has long seen it recover counts, and one node announces the objective
  failure on its own -- here 1000 time units after the vote, with the voter alive and hearing
  from the peer.\<close>
theorem stale_vote_counts:
  "snd (msp_run [CVote ''b'' ''t'', CHeartbeat 900 ''t'' '''', CHeartbeat 999 ''b'' '''', CTick 1000 5] demo_msp2)
     = [BroadcastPing, GossipSDown ''t'', EvODown ''t'']"
  by (simp add: msp_eval)

text \<open>The sender of a vote need not be a known node: the vote of an id that was never registered
  as a peer is counted toward the quorum of the registered ones.\<close>
theorem unknown_voter_counts:
  "map_of (msp_peers demo_msp2) ''zz'' = None \<and>
   snd (msp_run [CTick 20 5, CVote ''zz'' ''t''] demo_msp2)
     = [BroadcastPing, GossipSDown ''b'', GossipSDown ''t'', EvODown ''t'']"
  by (simp add: msp_eval)

end
