(* ===== verification/Circuit_Breaker.thy ===== *)
theory Circuit_Breaker
  imports Prelude
begin

text \<open>
  The three-state circuit breaker of \<open>internal/engine/circuit/circuit.go\<close>, which guards the calls
  to language models.  Each method runs under the breaker's lock and is one function; the
  callback is invoked after the lock is released and is returned as an event.  Times and
  durations are nanoseconds.  \<open>DoIgnoring\<close> is given what the guarded function returns and
  whether it takes it as ignorable; \<open>call_step\<close> interleaves the two halves of concurrent calls.
\<close>

datatype State = StateClosed | StateHalfOpen | StateOpen

datatype circuit_error = ErrOpen

record StateChangeEvent =
  ev_From :: State
  ev_To :: State
  ev_FailureCount :: nat
  ev_OutageDuration :: int

record Breaker =
  br_state :: State
  br_consecutiveFails :: nat
  br_lastFailTime :: int
  br_openedAt :: int
  br_halfOpenUsed :: bool
  br_maxFails :: int
  br_resetAfter :: int
  br_OnStateChange :: bool

definition New :: "int \<Rightarrow> int \<Rightarrow> Breaker" where
  "New maxFails resetAfter =
     \<lparr>br_state = StateClosed, br_consecutiveFails = 0, br_lastFailTime = 0, br_openedAt = 0,
      br_halfOpenUsed = False,
      br_maxFails = (if maxFails \<le> 0 then 5 else maxFails),
      br_resetAfter = (if resetAfter \<le> 0 then 30 * 1000000000 else resetAfter),
      br_OnStateChange = False\<rparr>"

definition Allow :: "int \<Rightarrow> Breaker \<Rightarrow> Breaker \<times> circuit_error option" where
  "Allow now b =
     (case br_state b of
        StateClosed \<Rightarrow> (b, None)
      | StateOpen \<Rightarrow>
          if now - br_lastFailTime b \<ge> br_resetAfter b
          then (b\<lparr>br_state := StateHalfOpen, br_halfOpenUsed := True\<rparr>, None)
          else (b, Some ErrOpen)
      | StateHalfOpen \<Rightarrow>
          if br_halfOpenUsed b then (b, Some ErrOpen)
          else (b\<lparr>br_halfOpenUsed := True\<rparr>, None))"

definition RecordSuccess :: "int \<Rightarrow> Breaker \<Rightarrow> Breaker \<times> StateChangeEvent option" where
  "RecordSuccess now b =
     (let prev = br_state b;
          fails = br_consecutiveFails b;
          outage = (if prev = StateOpen \<or> prev = StateHalfOpen then now - br_openedAt b else 0)
      in (b\<lparr>br_consecutiveFails := 0, br_state := StateClosed, br_halfOpenUsed := False\<rparr>,
          if br_OnStateChange b \<and> prev \<noteq> StateClosed
          then Some \<lparr>ev_From = prev, ev_To = StateClosed, ev_FailureCount = fails,
                     ev_OutageDuration = outage\<rparr>
          else None))"

definition RecordFailure :: "int \<Rightarrow> Breaker \<Rightarrow> Breaker \<times> StateChangeEvent option" where
  "RecordFailure now b =
     (let prev = br_state b;
          b1 = b\<lparr>br_consecutiveFails := br_consecutiveFails b + 1, br_lastFailTime := now\<rparr>
      in if br_state b1 = StateHalfOpen \<or> int (br_consecutiveFails b1) \<ge> br_maxFails b1 then
           (let failCount = br_consecutiveFails b1;
                b2 = (if br_state b1 = StateHalfOpen then b1\<lparr>br_consecutiveFails := 0\<rparr> else b1);
                b3 = (if br_state b2 \<noteq> StateOpen then b2\<lparr>br_openedAt := now\<rparr> else b2)
            in (b3\<lparr>br_state := StateOpen, br_halfOpenUsed := False\<rparr>,
                if prev \<noteq> StateOpen \<and> br_OnStateChange b
                then Some \<lparr>ev_From = prev, ev_To = StateOpen, ev_FailureCount = failCount,
                           ev_OutageDuration = 0\<rparr>
                else None))
         else (b1, None))"

definition RecordIgnore :: "Breaker \<Rightarrow> Breaker" where
  "RecordIgnore b = (if br_state b = StateHalfOpen then b\<lparr>br_halfOpenUsed := False\<rparr> else b)"

definition StateString :: "Breaker \<Rightarrow> string" where
  "StateString b =
     (case br_state b of StateClosed \<Rightarrow> ''closed'' | StateHalfOpen \<Rightarrow> ''half-open'' | StateOpen \<Rightarrow> ''open'')"

datatype outcome = Succeeded | Failed nat | Ignored nat

definition record_outcome :: "int \<Rightarrow> outcome \<Rightarrow> Breaker \<Rightarrow> Breaker \<times> StateChangeEvent option" where
  "record_outcome now r b =
     (case r of
        Succeeded \<Rightarrow> RecordSuccess now b
      | Ignored e \<Rightarrow> (RecordIgnore b, None)
      | Failed e \<Rightarrow> RecordFailure now b)"

datatype do_result = DoRejected | DoReturned outcome

definition DoIgnoring :: "int \<Rightarrow> int \<Rightarrow> outcome \<Rightarrow> Breaker \<Rightarrow> Breaker \<times> do_result \<times> StateChangeEvent option" where
  "DoIgnoring start finish r b =
     (case Allow start b of
        (b1, Some ErrOpen) \<Rightarrow> (b1, DoRejected, None)
      | (b1, None) \<Rightarrow> (let (b2, ev) = record_outcome finish r b1 in (b2, DoReturned r, ev)))"

text \<open>\<open>Do\<close> is \<open>DoIgnoring\<close> without a predicate, so no error is ignored.\<close>

definition Do :: "int \<Rightarrow> int \<Rightarrow> nat option \<Rightarrow> Breaker \<Rightarrow> Breaker \<times> do_result \<times> StateChangeEvent option" where
  "Do start finish err b =
     DoIgnoring start finish (case err of None \<Rightarrow> Succeeded | Some e \<Rightarrow> Failed e) b"

section \<open>Concurrent calls\<close>

datatype call_event = Begin int | End int outcome

text \<open>The second component counts the calls that were let through and have not been recorded.\<close>

fun call_step :: "call_event \<Rightarrow> Breaker \<times> nat \<Rightarrow> Breaker \<times> nat" where
  "call_step (Begin now) (b, n) =
     (case Allow now b of (b', None) \<Rightarrow> (b', n + 1) | (b', Some e) \<Rightarrow> (b', n))"
| "call_step (End now r) (b, n) =
     (if n = 0 then (b, n) else (fst (record_outcome now r b), n - 1))"

definition call_run :: "call_event list \<Rightarrow> Breaker \<times> nat \<Rightarrow> Breaker \<times> nat" where
  "call_run evs s = fold call_step evs s"

fun succeeds :: "call_event \<Rightarrow> bool" where
  "succeeds (End now Succeeded) = True"
| "succeeds ev = False"

lemmas breaker_defs = Allow_def RecordSuccess_def RecordFailure_def RecordIgnore_def
  record_outcome_def Let_def

definition probe_inv :: "Breaker \<times> nat \<Rightarrow> bool" where
  "probe_inv s = (case s of (b, n) \<Rightarrow>
     case br_state b of
       StateClosed \<Rightarrow> False
     | StateOpen \<Rightarrow> n = 0
     | StateHalfOpen \<Rightarrow> n = (if br_halfOpenUsed b then 1 else 0))"

lemma probe_step: "probe_inv s \<Longrightarrow> \<not> succeeds ev \<Longrightarrow> probe_inv (call_step ev s)"
proof (cases s; cases ev)
  fix b n now
  assume "probe_inv s" "s = (b, n)" "ev = Begin now"
  then show ?thesis
    by (cases "br_state b") (auto simp: probe_inv_def Allow_def)
next
  fix b n now r
  assume "probe_inv s" "\<not> succeeds ev" "s = (b, n)" "ev = End now r"
  then show ?thesis
    by (cases "br_state b"; cases r) (auto simp: probe_inv_def breaker_defs)
qed

lemma probe_run: "probe_inv s \<Longrightarrow> \<forall>ev \<in> set evs. \<not> succeeds ev \<Longrightarrow> probe_inv (call_run evs s)"
  by (induction evs arbitrary: s) (auto simp: call_run_def probe_step)

text \<open>Consecutive failures of a closed breaker.\<close>

lemma failures_closed:
  assumes "br_state b = StateClosed" "int (br_consecutiveFails b + length ts) < br_maxFails b"
  shows "br_state (fold (\<lambda>t b. fst (RecordFailure t b)) ts b) = StateClosed \<and>
    br_consecutiveFails (fold (\<lambda>t b. fst (RecordFailure t b)) ts b) = br_consecutiveFails b + length ts \<and>
    br_maxFails (fold (\<lambda>t b. fst (RecordFailure t b)) ts b) = br_maxFails b"
  using assms
proof (induction ts arbitrary: b)
  case Nil
  then show ?case by simp
next
  case (Cons t ts)
  let ?b = "fst (RecordFailure t b)"
  have "br_state ?b = StateClosed" "br_consecutiveFails ?b = br_consecutiveFails b + 1"
    "br_maxFails ?b = br_maxFails b"
    using Cons.prems by (auto simp: RecordFailure_def Let_def)
  with Cons.IH[of ?b] Cons.prems(2) show ?case by simp
qed

section \<open>Properties\<close>

text \<open>A breaker opens at its threshold and not before: after fewer than \<open>maxFails\<close> failures in a
  row it is closed and lets calls through, and the failure that makes them \<open>maxFails\<close> opens it,
  so that calls are rejected, without reaching the guarded function, until \<open>resetAfter\<close> has
  passed since that failure.\<close>
theorem opens_at_threshold:
  assumes "0 < k" "0 < reset" "int (Suc (length ts)) = k"
  shows "let b = fold (\<lambda>t b. fst (RecordFailure t b)) ts (New k reset);
             b' = fst (RecordFailure t b)
         in br_state b = StateClosed \<and> snd (Allow now b) = None \<and> br_state b' = StateOpen \<and>
            (now - t < reset \<longrightarrow> Do now fin err b' = (b', DoRejected, None))"
proof -
  let ?b = "fold (\<lambda>t b. fst (RecordFailure t b)) ts (New k reset)"
  have new: "br_state (New k reset) = StateClosed" "br_consecutiveFails (New k reset) = 0"
      "br_maxFails (New k reset) = k"
    using assms(1) by (simp_all add: New_def)
  have b: "br_state ?b = StateClosed" "br_consecutiveFails ?b = length ts" "br_maxFails ?b = k"
    using failures_closed[OF new(1), of ts] new assms(3) by auto
  have "br_resetAfter (fold (\<lambda>t b. fst (RecordFailure t b)) ts b0) = br_resetAfter b0" for b0
    by (induction ts arbitrary: b0) (auto simp: RecordFailure_def Let_def)
  then have r: "br_resetAfter ?b = reset" using assms(2) by (simp add: New_def)
  have b': "br_state (fst (RecordFailure t ?b)) = StateOpen"
      "br_lastFailTime (fst (RecordFailure t ?b)) = t" "br_resetAfter (fst (RecordFailure t ?b)) = reset"
    using b r assms(3) by (auto simp: RecordFailure_def Let_def)
  have "Do now fin err (fst (RecordFailure t ?b)) = (fst (RecordFailure t ?b), DoRejected, None)"
    if "now - t < reset"
    using that b' by (simp add: Do_def DoIgnoring_def Allow_def)
  moreover have "snd (Allow now ?b) = None" using b(1) by (simp add: Allow_def)
  ultimately show ?thesis using b(1) b'(1) by (simp add: Let_def)
qed

lemma opens_at_threshold_witness:
  "br_state (fst (RecordFailure 7 (fst (RecordFailure 3 (New 2 10))))) = StateOpen"
  using opens_at_threshold[of 2 10 "[3]" 7 0 0 None] by (simp add: Let_def)

text \<open>An open breaker with no call in flight lets probes through one at a time: as long as no
  call succeeds, there is never more than one call in flight, whatever the interleaving of
  attempts, failures and ignored outcomes.\<close>
theorem single_probe:
  assumes "br_state b = StateOpen" "\<forall>ev \<in> set evs. \<not> succeeds ev"
    and "call_run evs (b, 0) = (b', n)"
  shows "n \<le> 1 \<and> br_state b' \<noteq> StateClosed"
proof -
  have "probe_inv (b, 0)" using assms(1) by (simp add: probe_inv_def)
  from probe_run[OF this assms(2)] assms(3) show ?thesis
    by (auto simp: probe_inv_def split: State.splits if_splits)
qed

definition demo_open :: Breaker where
  "demo_open = fst (RecordFailure 0 (New 1 10))"

lemma single_probe_witness:
  "snd (call_run [Begin 20, Begin 21, End 22 (Ignored 1), Begin 23, Begin 24] (demo_open, 0)) \<le> 1"
  using single_probe[of demo_open "[Begin 20, Begin 21, End 22 (Ignored 1), Begin 23, Begin 24]"
      "fst (call_run [Begin 20, Begin 21, End 22 (Ignored 1), Begin 23, Begin 24] (demo_open, 0))"
      "snd (call_run [Begin 20, Begin 21, End 22 (Ignored 1), Begin 23, Begin 24] (demo_open, 0))"]
  by (simp add: demo_open_def RecordFailure_def New_def)

text \<open>An open breaker recovers: once \<open>resetAfter\<close> has passed since the last failure the next call
  is let through; if it succeeds the breaker is closed with its failure count cleared, if it
  fails the breaker is open again for another period, and if it is ignored the next call may
  probe at once.\<close>
theorem probe_outcomes:
  assumes "br_state b = StateOpen" "now - br_lastFailTime b \<ge> br_resetAfter b"
    and "DoIgnoring now fin r b = (b', res, ev)"
  shows "res = DoReturned r \<and>
    (case r of
       Succeeded \<Rightarrow> br_state b' = StateClosed \<and> br_consecutiveFails b' = 0
     | Failed e \<Rightarrow> br_state b' = StateOpen \<and> br_lastFailTime b' = fin \<and> br_consecutiveFails b' = 0
     | Ignored e \<Rightarrow> br_state b' = StateHalfOpen \<and> snd (Allow t b') = None)"
  using assms by (cases r) (auto simp: DoIgnoring_def breaker_defs split: prod.splits)

lemma probe_outcomes_witness:
  "\<exists>b' ev. DoIgnoring 20 25 Succeeded demo_open = (b', DoReturned Succeeded, ev) \<and> br_state b' = StateClosed"
proof -
  obtain b' res ev where d: "DoIgnoring 20 25 Succeeded demo_open = (b', res, ev)"
    by (metis prod.collapse)
  have "br_state demo_open = StateOpen" "20 - br_lastFailTime demo_open \<ge> br_resetAfter demo_open"
    by (simp_all add: demo_open_def RecordFailure_def New_def)
  from probe_outcomes[OF this d] d show ?thesis by auto
qed

text \<open>An ignored call that was let through while the breaker was closed and returns during a probe
  releases the slot of that probe: a second probe is let through while the first is in flight.\<close>
theorem ignored_call_frees_foreign_probe:
  "\<exists>b. call_run [Begin 1, Begin 2, End 3 (Failed 1), Begin 20, End 21 (Ignored 2), Begin 22] (New 1 10, 0)
     = (b, 2) \<and> br_state b = StateHalfOpen \<and>
   snd (call_run [Begin 1, Begin 2, End 3 (Failed 1), Begin 20] (New 1 10, 0)) = 2"
  by (simp add: call_run_def breaker_defs New_def)

end
