(* ===== verification/Mbp_Frame.thy ===== *)
theory Mbp_Frame
  imports Prelude
begin

text \<open>
  The wire frames of the binary protocol (\<open>internal/transport/mbp/frame.go\<close>): a prefix of 16
  bytes and a payload of at most 16 MB.  A reader is the list of the bytes still to come until
  the connection closes; \<open>ReadFull\<close> is \<open>io.ReadFull\<close> on it.  The writer is the parameter
  \<open>write\<close>.  Everything that is written is read back, and everything that is accepted is what
  the writer would have produced.
\<close>

section \<open>Frames\<close>

record Frame =
  Version :: u8
  Type :: u8
  Flags :: u16
  PayloadLength :: u32
  CorrelationID :: u64
  Payload :: bytes

definition FramePrefixSize :: nat where "FramePrefixSize = 16"
definition MaxPayloadSize :: nat where "MaxPayloadSize = 16 * 1024 * 1024"

definition FlagCompressed :: u16 where "FlagCompressed = push_bit 0 1"
definition FlagStreaming :: u16 where "FlagStreaming = push_bit 1 1"
definition FlagLastFrame :: u16 where "FlagLastFrame = push_bit 2 1"
definition FlagVault :: u16 where "FlagVault = push_bit 3 1"
definition FlagUrgent :: u16 where "FlagUrgent = push_bit 4 1"

definition frame_types :: "(string \<times> u8) list" where
  "frame_types =
    [(''TypeHello'', 0x01),
     (''TypeHelloOK'', 0x02),
     (''TypeWrite'', 0x03),
     (''TypeWriteOK'', 0x04),
     (''TypeRead'', 0x05),
     (''TypeReadResp'', 0x06),
     (''TypeActivate'', 0x07),
     (''TypeActivateResp'', 0x08),
     (''TypeSubscribe'', 0x09),
     (''TypeSubOK'', 0x0A),
     (''TypeActivation'', 0x0B),
     (''TypeLink'', 0x0C),
     (''TypeLinkOK'', 0x0D),
     (''TypeForget'', 0x0E),
     (''TypeForgetOK'', 0x0F),
     (''TypeUnsub'', 0x10),
     (''TypeUnsubOK'', 0x11),
     (''TypeStat'', 0x12),
     (''TypeStatResp'', 0x13),
     (''TypePing'', 0x14),
     (''TypePong'', 0x15),
     (''TypeError'', 0xFF),
     (''TypeReplEntry'', 0x20),
     (''TypeReplBatch'', 0x21),
     (''TypeReplAck'', 0x22),
     (''TypeReplNack'', 0x23),
     (''TypeSnapHeader'', 0x24),
     (''TypeSnapChunk'', 0x25),
     (''TypeSnapAck'', 0x26),
     (''TypeSnapComplete'', 0x27),
     (''TypeCogForward'', 0x28),
     (''TypeCogAck'', 0x29),
     (''TypeVoteRequest'', 0x30),
     (''TypeVoteResponse'', 0x31),
     (''TypeCortexClaim'', 0x32),
     (''TypeSDown'', 0x33),
     (''TypeODown'', 0x34),
     (''TypeGossip'', 0x35),
     (''TypeJoinRequest'', 0x36),
     (''TypeJoinResponse'', 0x37),
     (''TypeLeave'', 0x38),
     (''TypeHandoff'', 0x39),
     (''TypeHandoffAck'', 0x3A),
     (''TypeCCSProbe'', 0x3B),
     (''TypeCCSResponse'', 0x3C),
     (''TypeReconProbe'', 0x3D),
     (''TypeReconReply'', 0x3E),
     (''TypeReconSync'', 0x3F),
     (''TypeReconAck'', 0x40),
     (''TypePeerHello'', 0x41)]"

datatype frame_error = ErrPayloadTooLarge | ErrVersionMismatch | EOF | ErrUnexpectedEOF | WriteErr nat

definition ReadFull :: "nat \<Rightarrow> bytes \<Rightarrow> (frame_error + bytes) \<times> bytes" where
  "ReadFull n r =
     (if n \<le> length r then (Inr (take n r), drop n r)
      else if r = [] then (Inl EOF, [])
      else (Inl ErrUnexpectedEOF, []))"

definition ReadFrame :: "bytes \<Rightarrow> (frame_error + Frame) \<times> bytes" where
  "ReadFrame r =
     (case ReadFull FramePrefixSize r of
        (Inl err, r1) \<Rightarrow> (Inl err, r1)
      | (Inr prefixBuf, r1) \<Rightarrow>
          (let frame = \<lparr>Version = prefixBuf ! 0, Type = prefixBuf ! 1,
                 Flags = Uint16 (take 2 (drop 2 prefixBuf)),
                 PayloadLength = Uint32 (take 4 (drop 4 prefixBuf)),
                 CorrelationID = Uint64 (take 8 (drop 8 prefixBuf)), Payload = []\<rparr>
           in if Version frame \<noteq> 0x01 then (Inl ErrVersionMismatch, r1)
              else if unat (PayloadLength frame) > MaxPayloadSize then (Inl ErrPayloadTooLarge, r1)
              else if PayloadLength frame = 0 then (Inr frame, r1)
              else case ReadFull (unat (PayloadLength frame)) r1 of
                     (Inl err, r2) \<Rightarrow> (Inl err, r2)
                   | (Inr payload, r2) \<Rightarrow> (Inr (frame\<lparr>Payload := payload\<rparr>), r2)))"

definition frame_bytes :: "Frame \<Rightarrow> bytes" where
  "frame_bytes f = [Version f, Type f] @ PutUint16 (Flags f) @
     PutUint32 (word_of_nat (length (Payload f))) @ PutUint64 (CorrelationID f) @ Payload f"

definition WriteFrame :: "('w \<Rightarrow> bytes \<Rightarrow> nat + 'w) \<Rightarrow> 'w \<Rightarrow> Frame \<Rightarrow> frame_error + 'w" where
  "WriteFrame write w f =
     (if length (Payload f) > MaxPayloadSize then Inl ErrPayloadTooLarge
      else case write w (frame_bytes f) of Inl e \<Rightarrow> Inl (WriteErr e) | Inr w' \<Rightarrow> Inr w')"

text \<open>A writer that fills a buffer, and the loop of a reader until the stream ends or errs.\<close>

definition buf_write :: "bytes \<Rightarrow> bytes \<Rightarrow> nat + bytes" where
  "buf_write w bs = Inr (w @ bs)"

fun WriteFrames :: "('w \<Rightarrow> bytes \<Rightarrow> nat + 'w) \<Rightarrow> 'w \<Rightarrow> Frame list \<Rightarrow> frame_error + 'w" where
  "WriteFrames write w [] = Inr w"
| "WriteFrames write w (f # fs) =
     (case WriteFrame write w f of Inl e \<Rightarrow> Inl e | Inr w' \<Rightarrow> WriteFrames write w' fs)"

lemma ReadFull_shorter: "ReadFull n r = (x, r') \<Longrightarrow> length r' \<le> length r"
  by (auto simp: ReadFull_def split: if_splits)

lemma ReadFrame_shorter:
  assumes "ReadFrame r = (Inr f, r')"
  shows "length r' < length r"
proof -
  from assms obtain p r1 where p: "ReadFull FramePrefixSize r = (Inr p, r1)"
    by (auto simp: ReadFrame_def split: prod.splits sum.splits)
  then have "length r1 < length r" by (auto simp: ReadFull_def FramePrefixSize_def split: if_splits)
  moreover have "length r' \<le> length r1"
    using assms p ReadFull_shorter[of _ r1 _ r']
    by (auto simp: ReadFrame_def Let_def split: prod.splits sum.splits if_splits)
  ultimately show ?thesis by simp
qed

function ReadFrames :: "bytes \<Rightarrow> Frame list \<times> frame_error" where
  "ReadFrames r =
     (case ReadFrame r of
        (Inl err, r') \<Rightarrow> ([], err)
      | (Inr f, r') \<Rightarrow> (let (fs, err) = ReadFrames r' in (f # fs, err)))"
  by pat_completeness auto
termination
  by (relation "measure length") (auto dest: ReadFrame_shorter[OF sym])

declare ReadFrames.simps [simp del]

section \<open>Round trips\<close>

text \<open>The frame the reader builds from the bytes of \<open>f\<close>.\<close>

definition stamped :: "Frame \<Rightarrow> Frame" where
  "stamped f = f\<lparr>PayloadLength := word_of_nat (length (Payload f))\<rparr>"

definition frame_head :: "Frame \<Rightarrow> bytes" where
  "frame_head f = [Version f, Type f] @ PutUint16 (Flags f) @
     PutUint32 (word_of_nat (length (Payload f))) @ PutUint64 (CorrelationID f)"

lemma frame_bytes_head: "frame_bytes f = frame_head f @ Payload f"
  by (simp add: frame_bytes_def frame_head_def)

lemma length_frame_head [simp]: "length (frame_head f) = 16"
  by (simp add: frame_head_def)

lemma frame_prefix: "ReadFull FramePrefixSize (frame_head f @ rest) = (Inr (frame_head f), rest)"
  by (simp add: ReadFull_def FramePrefixSize_def)

lemma payload_length_word: "n \<le> MaxPayloadSize \<Longrightarrow> unat (word_of_nat n :: u32) = n"
  by (simp add: unat_of_nat MaxPayloadSize_def)

lemma payload_length_zero: "n \<le> MaxPayloadSize \<Longrightarrow> (word_of_nat n :: u32) = 0 \<longleftrightarrow> n = 0"
  by (simp only: word_unat_eq_iff payload_length_word unat_0)

lemma ReadFull_payload: "ReadFull (length p) (p @ rest) = (Inr p, rest)"
  by (simp add: ReadFull_def)

lemma ReadFrame_head:
  assumes "Version f = 1" "length (Payload f) \<le> MaxPayloadSize"
  shows "ReadFrame (frame_head f @ x) =
    (if Payload f = [] then (Inr (stamped f), x)
     else case ReadFull (length (Payload f)) x of
            (Inl err, r) \<Rightarrow> (Inl err, r)
          | (Inr p, r) \<Rightarrow> (Inr ((stamped f)\<lparr>Payload := p\<rparr>), r))"
proof (cases f)
  case (fields v t fl pl cid p)
  have n: "\<not> MaxPayloadSize < length p" "v = 1" using assms fields by simp_all
  have len: "unat (word_of_nat (length p) :: u32) = length p"
    using assms fields payload_length_word by simp
  have z: "(word_of_nat (length p) :: u32) = 0 \<longleftrightarrow> p = []"
    using assms fields payload_length_zero[of "length p"] by simp
  have hd: "frame_head f ! 0 = v" "frame_head f ! 1 = t" "take 2 (drop 2 (frame_head f)) = PutUint16 fl"
    "take 4 (drop 4 (frame_head f)) = PutUint32 (word_of_nat (length p))"
    "take 8 (drop 8 (frame_head f)) = PutUint64 cid"
    by (simp_all add: frame_head_def fields)
  have st: "stamped f = \<lparr>Version = 1, Type = t, Flags = fl, PayloadLength = word_of_nat (length p),
      CorrelationID = cid, Payload = p\<rparr>" and pf: "Payload f = p"
    by (simp_all add: stamped_def fields n)
  show ?thesis
    unfolding ReadFrame_def frame_prefix prod.case sum.case hd Let_def st pf
    by (simp add: len z n split: prod.split sum.split)
qed

lemma ReadFrame_frame_bytes:
  assumes "Version f = 1" "length (Payload f) \<le> MaxPayloadSize"
  shows "ReadFrame (frame_bytes f @ rest) = (Inr (stamped f), rest)"
  using ReadFrame_head[OF assms, of "Payload f @ rest"]
  by (simp add: frame_bytes_head ReadFull_payload stamped_def)

text \<open>What is accepted is canonical.\<close>

lemma ReadFrame_canonical:
  assumes "ReadFrame r = (Inr f, rest)"
  shows "r = frame_bytes f @ rest \<and> Version f = 1 \<and> length (Payload f) \<le> MaxPayloadSize \<and>
    unat (PayloadLength f) = length (Payload f)"
proof -
  obtain p r1 where p: "ReadFull FramePrefixSize r = (Inr p, r1)"
    using assms by (auto simp: ReadFrame_def split: prod.splits sum.splits)
  then have r: "r = p @ r1" and len: "length p = 16"
    by (auto simp: ReadFull_def FramePrefixSize_def split: if_splits)
  let ?pl = "Uint32 (take 4 (drop 4 p))"
  let ?f0 = "\<lparr>Version = p ! 0, Type = p ! 1, Flags = Uint16 (take 2 (drop 2 p)), PayloadLength = ?pl,
      CorrelationID = Uint64 (take 8 (drop 8 p)), Payload = []\<rparr>"
  have v: "p ! 0 = 1" and max: "unat ?pl \<le> MaxPayloadSize"
    using assms p by (auto simp: ReadFrame_def Let_def split: if_splits)
  obtain q where q: "r1 = q @ rest" "length q = unat ?pl" "f = ?f0\<lparr>Payload := q\<rparr>"
  proof (cases "?pl = 0")
    case True
    with assms p v max have "f = ?f0" "rest = r1" by (auto simp: ReadFrame_def Let_def)
    with True that[of "[]"] show thesis by simp
  next
    case False
    with assms p v max obtain q where "ReadFull (unat ?pl) r1 = (Inr q, rest)" "f = ?f0\<lparr>Payload := q\<rparr>"
      by (auto simp: ReadFrame_def Let_def split: prod.splits sum.splits)
    with that[of q] show thesis
      by (auto simp: ReadFull_def split: if_splits)
  qed
  have d4: "drop 4 p = take 4 (drop 4 p) @ take 8 (drop 8 p)"
    using append_take_drop_id[of 4 "drop 4 p"] len by simp
  have d2: "drop 2 p = take 2 (drop 2 p) @ drop 4 p"
    using append_take_drop_id[of 2 "drop 2 p"] by simp
  have "p = [p ! 0, p ! 1] @ drop 2 p"
    using len by (cases p; cases "tl p") auto
  then have split: "p = [p ! 0, p ! 1] @ take 2 (drop 2 p) @ take 4 (drop 4 p) @ take 8 (drop 8 p)"
    using d2 d4 by metis
  have "word_of_nat (length q) = ?pl" using q(2) by simp
  then have "frame_bytes f = [p ! 0, p ! 1] @ PutUint16 (Uint16 (take 2 (drop 2 p))) @
      PutUint32 ?pl @ PutUint64 (Uint64 (take 8 (drop 8 p))) @ q"
    using q(3) by (simp add: frame_bytes_def)
  also have "\<dots> = p @ q"
    using len by (subst (3) split) (simp add: Uint16_bytes Uint32_bytes Uint64_bytes)
  finally have "r = frame_bytes f @ rest" using r q(1) by simp
  then show ?thesis using q v max by simp
qed

lemma frame_types_distinct: "distinct (map snd frame_types) \<and> distinct (map fst frame_types)"
  by (simp add: frame_types_def)

section \<open>Properties\<close>

lemma WriteFrames_bytes:
  "WriteFrames buf_write w fs = Inr w' \<Longrightarrow>
   w' = w @ concat (map frame_bytes fs) \<and> (\<forall>f \<in> set fs. length (Payload f) \<le> MaxPayloadSize)"
  by (induction fs arbitrary: w) (fastforce simp: WriteFrame_def buf_write_def split: if_splits)+

text \<open>Any sequence of frames of protocol version 1 that the writer accepts is read back from the
  byte stream as the same sequence, with the payload length filled in, and then the clean end of
  the stream is reported.\<close>
theorem frames_round_trip:
  assumes "WriteFrames buf_write [] fs = Inr w" "\<forall>f \<in> set fs. Version f = 1"
  shows "ReadFrames w = (map stamped fs, EOF)"
proof -
  have w: "w = concat (map frame_bytes fs)" and len: "\<forall>f \<in> set fs. length (Payload f) \<le> MaxPayloadSize"
    using WriteFrames_bytes[OF assms(1)] by simp_all
  have "ReadFrames (concat (map frame_bytes gs)) = (map stamped gs, EOF)" if "set gs \<subseteq> set fs" for gs
    using that
  proof (induction gs)
    case Nil
    show ?case by (simp add: ReadFrames.simps[of "[]"] ReadFrame_def ReadFull_def FramePrefixSize_def)
  next
    case (Cons f gs)
    have "ReadFrame (frame_bytes f @ concat (map frame_bytes gs)) = (Inr (stamped f), concat (map frame_bytes gs))"
      using Cons.prems assms(2) len by (intro ReadFrame_frame_bytes) auto
    with Cons show ?case by (simp add: ReadFrames.simps[of "frame_bytes f @ _"])
  qed
  with w show ?thesis by simp
qed

definition demo_frame :: "u8 \<Rightarrow> bytes \<Rightarrow> Frame" where
  "demo_frame t p = \<lparr>Version = 1, Type = t, Flags = FlagCompressed, PayloadLength = 0,
     CorrelationID = 7, Payload = p\<rparr>"

lemma frames_round_trip_witness:
  "\<exists>w. WriteFrames buf_write [] [demo_frame 0x14 [], demo_frame 0x20 [1, 2, 3]] = Inr w \<and>
     ReadFrames w = ([demo_frame 0x14 [], (demo_frame 0x20 [1, 2, 3])\<lparr>PayloadLength := 3\<rparr>], EOF)"
proof -
  let ?fs = "[demo_frame 0x14 [], demo_frame 0x20 [1, 2, 3]]"
  obtain w where w: "WriteFrames buf_write [] ?fs = Inr w"
    by (simp add: WriteFrame_def buf_write_def demo_frame_def MaxPayloadSize_def)
  have "\<forall>f \<in> set ?fs. Version f = 1" by (simp add: demo_frame_def)
  from frames_round_trip[OF w this] w show ?thesis by (simp add: stamped_def demo_frame_def)
qed

text \<open>Whatever bytes a peer sends, a frame that the reader accepts has version 1 and a payload of
  at most 16 MB whose length is the announced one, and the bytes consumed are exactly the ones
  the writer produces for that frame: no two byte strings are read as one frame and nothing
  beyond the frame is consumed.\<close>
theorem read_frame_canonical:
  assumes "ReadFrame r = (Inr f, rest)"
  shows "Version f = 1 \<and> length (Payload f) \<le> MaxPayloadSize \<and>
    unat (PayloadLength f) = length (Payload f) \<and> WriteFrame buf_write [] f = Inr (take (length r - length rest) r) \<and>
    rest = drop (length r - length rest) r"
  using ReadFrame_canonical[OF assms] by (auto simp: WriteFrame_def buf_write_def)

lemma read_frame_canonical_witness:
  "\<exists>f rest. ReadFrame (frame_bytes (demo_frame 0x20 [1, 2, 3]) @ [9]) = (Inr f, rest) \<and>
     length (Payload f) = 3 \<and> rest = [9]"
proof -
  let ?f = "demo_frame 0x20 [1, 2, 3]"
  have "ReadFrame (frame_bytes ?f @ [9]) = (Inr (stamped ?f), [9])"
    by (rule ReadFrame_frame_bytes) (simp_all add: demo_frame_def MaxPayloadSize_def)
  from read_frame_canonical[OF this] this show ?thesis
    by (auto simp: stamped_def demo_frame_def)
qed

text \<open>A connection that breaks right after the prefix of a frame that announces a payload is
  reported as closed cleanly: the reader returns the same end-of-file as between two frames,
  while a break anywhere else inside the frame is reported as unexpected.\<close>
theorem cut_frame_reads_as_clean_close:
  assumes "Version f = 1" "Payload f \<noteq> []" "length (Payload f) \<le> MaxPayloadSize" "n < length (frame_bytes f)"
  shows "fst (ReadFrame (take n (frame_bytes f))) =
    Inl (if n = 0 \<or> n = 16 then EOF else ErrUnexpectedEOF)"
proof -
  have len: "length (frame_bytes f) = 16 + length (Payload f)" by (simp add: frame_bytes_def)
  consider "n < 16" | "16 \<le> n" by linarith
  then show ?thesis
  proof cases
    case 1
    then have "ReadFull FramePrefixSize (take n (frame_bytes f)) =
        (Inl (if n = 0 then EOF else ErrUnexpectedEOF), [])"
      using len by (auto simp: ReadFull_def FramePrefixSize_def)
    with 1 show ?thesis by (simp add: ReadFrame_def)
  next
    case 2
    let ?p = "take (n - 16) (Payload f)"
    have "take n (frame_bytes f) = frame_head f @ ?p"
      using 2 by (simp add: frame_bytes_head)
    moreover have "ReadFull (length (Payload f)) ?p = (Inl (if n = 16 then EOF else ErrUnexpectedEOF), [])"
      using 2 assms(2,4) len by (auto simp: ReadFull_def)
    ultimately show ?thesis
      using 2 assms(2) ReadFrame_head[OF assms(1,3), of ?p] by simp
  qed
qed

lemma cut_frame_reads_as_clean_close_witness:
  "fst (ReadFrame (take 16 (frame_bytes (demo_frame 0x20 [1, 2, 3])))) = Inl EOF \<and>
   fst (ReadFrame (take 18 (frame_bytes (demo_frame 0x20 [1, 2, 3])))) = Inl ErrUnexpectedEOF"
proof -
  let ?f = "demo_frame 0x20 [1, 2, 3]"
  have f: "Version ?f = 1" "Payload ?f \<noteq> []" "length (Payload ?f) \<le> MaxPayloadSize"
    and len: "length (frame_bytes ?f) = 19"
    by (simp_all add: demo_frame_def MaxPayloadSize_def frame_bytes_def)
  show ?thesis
    using cut_frame_reads_as_clean_close[OF f, of 16] cut_frame_reads_as_clean_close[OF f, of 18] len by simp
qed

end
