(* ===== verification/Ring_Buffer.thy ===== *)
theory Ring_Buffer
  imports Prelude
begin

text \<open>
  The bounded log buffer of \<open>internal/logging/ring.go\<close> and the handler that fills it.  The
  buffer is an array written in a circle; \<open>None\<close> stands for a panic (an index out of range).
  Its specification is the list of the entries since the last \<open>Clear\<close>: a snapshot is the last
  \<open>cap\<close> of them.  The base handler and the rendering of values are parameters.
\<close>

record LogEntry =
  Level :: string
  Time :: int
  Msg :: string
  Attrs :: "(string \<times> string) list"

record 'e RingBuffer =
  rb_entries :: "'e list"
  rb_cap :: nat
  rb_head :: nat
  rb_count :: nat
  rb_onAdd :: bool

text \<open>\<open>zero\<close> is the zero value that \<open>make\<close> fills the array with; \<open>make\<close> panics on a negative size.\<close>

definition NewRingBuffer :: "'e \<Rightarrow> int \<Rightarrow> bool \<Rightarrow> 'e RingBuffer option" where
  "NewRingBuffer zero cap onAdd =
     (if cap < 0 then None
      else Some \<lparr>rb_entries = replicate (nat cap) zero, rb_cap = nat cap, rb_head = 0, rb_count = 0,
                 rb_onAdd = onAdd\<rparr>)"

definition SetOnAdd :: "bool \<Rightarrow> 'e RingBuffer \<Rightarrow> 'e RingBuffer" where
  "SetOnAdd fn rb = rb\<lparr>rb_onAdd := fn\<rparr>"

text \<open>The second component is the entry the callback is invoked with, if there is one.\<close>

definition Add :: "'e \<Rightarrow> 'e RingBuffer \<Rightarrow> ('e RingBuffer \<times> 'e option) option" where
  "Add e rb =
     (if rb_head rb \<ge> length (rb_entries rb) then None
      else let rb1 = rb\<lparr>rb_entries := (rb_entries rb)[rb_head rb := e]\<rparr>;
               rb2 = rb1\<lparr>rb_head := (rb_head rb1 + 1) mod rb_cap rb1\<rparr>;
               rb3 = (if rb_count rb2 < rb_cap rb2 then rb2\<lparr>rb_count := rb_count rb2 + 1\<rparr> else rb2)
           in Some (rb3, if rb_onAdd rb3 then Some e else None))"

definition Clear :: "'e RingBuffer \<Rightarrow> 'e RingBuffer" where
  "Clear rb = rb\<lparr>rb_head := 0, rb_count := 0\<rparr>"

definition Snapshot :: "'e RingBuffer \<Rightarrow> 'e list" where
  "Snapshot rb =
     (if rb_count rb = 0 then []
      else let start = (if rb_count rb = rb_cap rb then rb_head rb else 0)
           in map (\<lambda>i. rb_entries rb ! ((start + i) mod rb_cap rb)) [0 ..< rb_count rb])"

section \<open>The handler\<close>

record RingHandler =
  rh_attrs :: "(string \<times> string) list"
  rh_groups :: "string list"

definition NewRingHandler :: RingHandler where
  "NewRingHandler = \<lparr>rh_attrs = [], rh_groups = []\<rparr>"

definition WithAttrs :: "(string \<times> string) list \<Rightarrow> RingHandler \<Rightarrow> RingHandler" where
  "WithAttrs attrs h = h\<lparr>rh_attrs := rh_attrs h @ attrs\<rparr>"

definition WithGroup :: "string \<Rightarrow> RingHandler \<Rightarrow> RingHandler" where
  "WithGroup name h = h\<lparr>rh_groups := rh_groups h @ [name]\<rparr>"

fun join_dot :: "string list \<Rightarrow> string" where
  "join_dot [] = ''''"
| "join_dot [g] = g"
| "join_dot (g # gs) = g @ ''.'' @ join_dot gs"

definition groupKey :: "RingHandler \<Rightarrow> string \<Rightarrow> string" where
  "groupKey h key = (if rh_groups h = [] then key else join_dot (rh_groups h) @ ''.'' @ key)"

text \<open>A Go map that is filled from a list: a later value of a key replaces an earlier one.\<close>

definition handle_attrs :: "RingHandler \<Rightarrow> (string \<times> string) list \<Rightarrow> (string \<rightharpoonup> string)" where
  "handle_attrs h recattrs =
     fold (\<lambda>(k, v) m. m(groupKey h k \<mapsto> v)) recattrs
       (fold (\<lambda>(k, v) m. m(groupKey h k \<mapsto> v)) (rh_attrs h) Map.empty)"

section \<open>The specification\<close>

text \<open>\<open>ring_abs rb xs\<close>: the buffer holds the last entries of the history \<open>xs\<close>.\<close>

definition ring_abs :: "'e RingBuffer \<Rightarrow> 'e list \<Rightarrow> bool" where
  "ring_abs rb xs \<longleftrightarrow>
     0 < rb_cap rb \<and> length (rb_entries rb) = rb_cap rb \<and>
     rb_head rb = length xs mod rb_cap rb \<and> rb_count rb = min (length xs) (rb_cap rb) \<and>
     (\<forall>i < rb_count rb. rb_entries rb ! ((length xs - 1 - i) mod rb_cap rb) = xs ! (length xs - 1 - i))"

definition last_n :: "nat \<Rightarrow> 'a list \<Rightarrow> 'a list" where
  "last_n n xs = drop (length xs - n) xs"

lemma ring_abs_snapshot:
  assumes "ring_abs rb xs"
  shows "Snapshot rb = last_n (rb_cap rb) xs"
proof -
  let ?c = "rb_cap rb" and ?n = "rb_count rb"
  let ?start = "if ?n = ?c then rb_head rb else 0"
  have inv: "0 < ?c" "length (rb_entries rb) = ?c" "rb_head rb = length xs mod ?c" "?n = min (length xs) ?c"
    and ent: "\<And>i. i < ?n \<Longrightarrow> rb_entries rb ! ((length xs - 1 - i) mod ?c) = xs ! (length xs - 1 - i)"
    using assms by (simp_all add: ring_abs_def)
  have pos: "(?start + i) mod ?c = (length xs - ?n + i) mod ?c" if "i < ?n" for i
  proof (cases "?n = ?c")
    case True
    then have "?c \<le> length xs" using inv(4) by simp
    then have "length xs mod ?c = (length xs - ?c) mod ?c" by (simp add: mod_if le_mod_geq)
    then have "(length xs mod ?c + i) mod ?c = ((length xs - ?c) mod ?c + i) mod ?c" by simp
    then show ?thesis using True inv(3) by (simp add: mod_add_left_eq)
  next
    case False
    then have "length xs - ?n = 0" using inv(4) by simp
    with False show ?thesis by simp
  qed
  have "rb_entries rb ! ((?start + i) mod ?c) = last_n ?c xs ! i" if i: "i < ?n" for i
  proof -
    let ?j = "length xs - 1 - (?n - 1 - i)"
    have "?n \<le> length xs" using inv(4) by simp
    then have j: "length xs - ?n + i = ?j" using i by linarith
    have "rb_entries rb ! (?j mod ?c) = xs ! ?j" by (rule ent) (use i in linarith)
    moreover have "last_n ?c xs ! i = xs ! (length xs - ?n + i)"
      using inv(4) i by (simp add: last_n_def nth_drop min_def split: if_splits)
    ultimately show ?thesis using pos[OF i] j by simp
  qed
  moreover have "length (last_n ?c xs) = ?n" using inv(4) by (simp add: last_n_def)
  ultimately have "map (\<lambda>i. rb_entries rb ! ((?start + i) mod ?c)) [0 ..< ?n] = last_n ?c xs"
    by (intro nth_equalityI) simp_all
  moreover have "last_n ?c xs = []" if "?n = 0"
    using that inv by (auto simp: last_n_def min_def split: if_splits)
  ultimately show ?thesis by (simp add: Snapshot_def Let_def)
qed

lemma ring_abs_add:
  assumes "ring_abs rb xs"
  shows "\<exists>rb'. Add e rb = Some (rb', if rb_onAdd rb then Some e else None) \<and> ring_abs rb' (xs @ [e]) \<and>
    rb_cap rb' = rb_cap rb \<and> rb_onAdd rb' = rb_onAdd rb"
proof -
  let ?c = "rb_cap rb"
  have inv: "0 < ?c" "length (rb_entries rb) = ?c" "rb_head rb = length xs mod ?c"
      "rb_count rb = min (length xs) ?c"
    and ent: "\<And>i. i < rb_count rb \<Longrightarrow> rb_entries rb ! ((length xs - 1 - i) mod ?c) = xs ! (length xs - 1 - i)"
    using assms by (simp_all add: ring_abs_def)
  let ?es = "(rb_entries rb)[rb_head rb := e]"
  let ?rb = "rb\<lparr>rb_entries := ?es, rb_head := (rb_head rb + 1) mod ?c, rb_count := min (Suc (length xs)) ?c\<rparr>"
  have hd: "rb_head rb < ?c" using inv by simp
  have "Add e rb = Some (?rb, if rb_onAdd rb then Some e else None)"
    using inv hd by (simp add: Add_def Let_def min_def)
  moreover have "ring_abs ?rb (xs @ [e])"
  proof -
    have "?es ! ((length xs - i) mod ?c) = (xs @ [e]) ! (length xs - i)" if i: "i < min (Suc (length xs)) ?c" for i
    proof (cases i)
      case 0
      then show ?thesis using inv hd by simp
    next
      case (Suc k)
      have k: "k < rb_count rb" using Suc i inv(4) by simp
      have lt: "length xs - i < length xs" "length xs - i = length xs - 1 - k" using Suc i by auto
      have "(length xs - i) mod ?c \<noteq> length xs mod ?c"
      proof
        assume "(length xs - i) mod ?c = length xs mod ?c"
        then have "?c dvd length xs - (length xs - i)"
          by (metis diff_le_self mod_eq_dvd_iff_nat)
        then have "?c dvd i" using i by simp
        with i Suc show False by (auto dest: dvd_imp_le)
      qed
      then have "?es ! ((length xs - i) mod ?c) = rb_entries rb ! ((length xs - i) mod ?c)"
        using inv(3) by simp
      with ent[OF k] lt show ?thesis by (simp add: nth_append)
    qed
    then show ?thesis
      using inv by (auto simp: ring_abs_def mod_Suc_eq)
  qed
  ultimately show ?thesis by force
qed

datatype 'e ring_call = RAdd 'e | RClear

fun ring_run :: "'e ring_call list \<Rightarrow> 'e RingBuffer \<Rightarrow> 'e RingBuffer option" where
  "ring_run [] rb = Some rb"
| "ring_run (RAdd e # cs) rb = (case Add e rb of None \<Rightarrow> None | Some (rb', cb) \<Rightarrow> ring_run cs rb')"
| "ring_run (RClear # cs) rb = ring_run cs (Clear rb)"

text \<open>The entries added since the last clear.\<close>

fun history :: "'e ring_call list \<Rightarrow> 'e list \<Rightarrow> 'e list" where
  "history [] xs = xs"
| "history (RAdd e # cs) xs = history cs (xs @ [e])"
| "history (RClear # cs) xs = history cs []"

lemma ring_run_abs:
  "ring_abs rb xs \<Longrightarrow> \<exists>rb'. ring_run cs rb = Some rb' \<and> ring_abs rb' (history cs xs) \<and> rb_cap rb' = rb_cap rb"
proof (induction cs arbitrary: rb xs)
  case Nil
  then show ?case by simp
next
  case (Cons c cs)
  show ?case
  proof (cases c)
    case (RAdd e)
    obtain rb' where rb': "Add e rb = Some (rb', if rb_onAdd rb then Some e else None)"
        "ring_abs rb' (xs @ [e])" "rb_cap rb' = rb_cap rb"
      using ring_abs_add[OF Cons.prems] by blast
    from Cons.IH[OF rb'(2)] rb' RAdd show ?thesis by simp
  next
    case RClear
    have "ring_abs (Clear rb) []" using Cons.prems by (simp add: ring_abs_def Clear_def)
    from Cons.IH[OF this] RClear show ?thesis by (simp add: Clear_def)
  qed
qed

section \<open>Properties\<close>

text \<open>A buffer of positive capacity never panics, and after any sequence of additions and clears
  its snapshot is the last \<open>cap\<close> of the entries added since the last clear, oldest first.\<close>
theorem snapshot_last_entries:
  assumes "0 < cap" "NewRingBuffer zero cap onAdd = Some rb"
  shows "\<exists>rb'. ring_run cs rb = Some rb' \<and> Snapshot rb' = last_n (nat cap) (history cs [])"
proof -
  have "ring_abs rb []" "rb_cap rb = nat cap"
    using assms by (auto simp: NewRingBuffer_def ring_abs_def split: if_splits)
  with ring_run_abs[of rb "[]" cs] ring_abs_snapshot show ?thesis by metis
qed

lemma snapshot_last_entries_witness:
  "\<exists>rb rb'. NewRingBuffer 0 3 False = Some rb \<and>
     ring_run [RAdd 9, RClear, RAdd 1, RAdd 2, RAdd 3, RAdd (4 :: nat)] rb = Some rb' \<and> Snapshot rb' = [2, 3, 4]"
proof -
  obtain rb where rb: "NewRingBuffer 0 3 False = Some (rb :: nat RingBuffer)"
    by (simp add: NewRingBuffer_def)
  from snapshot_last_entries[OF _ rb, of "[RAdd 9, RClear, RAdd 1, RAdd 2, RAdd 3, RAdd 4]"] rb
  show ?thesis by (auto simp: last_n_def)
qed

text \<open>The handler qualifies an attribute with the groups that are open when the record is logged,
  not with those that were open when the attribute was added: an attribute added before a group
  is opened is stored under the group's name, and one added at the top level may overwrite or be
  overwritten by one of the group.\<close>
theorem attrs_move_into_later_groups:
  "handle_attrs (WithGroup g (WithAttrs [(k, v)] NewRingHandler)) [] = [g @ ''.'' @ k \<mapsto> v] \<and>
   handle_attrs (WithGroup g (WithAttrs [(k, v)] NewRingHandler)) [(k, w)] = [g @ ''.'' @ k \<mapsto> w]"
  by (simp add: handle_attrs_def WithGroup_def WithAttrs_def NewRingHandler_def groupKey_def)

end
