(* ===== verification/Mql_Lexer.thy ===== *)
theory Mql_Lexer
  imports Prelude
begin

text \<open>
  The lexer of the query language (\<open>internal/query/mql/token.go\<close>, \<open>lexer.go\<close>).  A Go string is
  a list of bytes, a \<open>char\<close> each; the lexer reads byte by byte and takes each byte as a rune, so
  the character classes below are those of \<open>unicode\<close> on the first 256 code points, and
  \<open>WriteRune\<close> encodes the rune as UTF-8 again.  A character 0 stands for the end of the input,
  as in the code.  The loops of the lexer terminate because every turn reads a character.
\<close>

section \<open>Tokens\<close>

datatype TokenType =
    TokenActivate | TokenFrom | TokenContext | TokenWhere | TokenMaxResults | TokenHops
  | TokenMinRelevance | TokenAnd | TokenOr | TokenState | TokenRelevance | TokenConfidence
  | TokenTag | TokenCreator | TokenCreatedAfter | TokenRecall | TokenEpisode | TokenFrames
  | TokenTraverse | TokenConsolidate | TokenVault | TokenWorkingMemory | TokenSession
  | TokenDryRun | TokenProvenance | TokenSource | TokenAgent | TokenMinWeight | TokenDot
  | TokenEQ | TokenGT | TokenGTE | TokenLParen | TokenRParen | TokenLBracket | TokenRBracket
  | TokenComma | TokenString | TokenNumber | TokenIdent | TokenEOF

record Token =
  tk_Type :: TokenType
  tk_Value :: string
  tk_Pos :: int

section \<open>Characters\<close>

abbreviation code :: "char \<Rightarrow> nat" where "code c \<equiv> of_char c"

definition IsSpace :: "char \<Rightarrow> bool" where
  "IsSpace c = (9 \<le> code c \<and> code c \<le> 13 \<or> code c = 32 \<or> code c = 0x85 \<or> code c = 0xA0)"

definition IsDigit :: "char \<Rightarrow> bool" where
  "IsDigit c = (48 \<le> code c \<and> code c \<le> 57)"

definition IsLetter :: "char \<Rightarrow> bool" where
  "IsLetter c = (65 \<le> code c \<and> code c \<le> 90 \<or> 97 \<le> code c \<and> code c \<le> 122 \<or>
     code c = 0xAA \<or> code c = 0xB5 \<or> code c = 0xBA \<or>
     0xC0 \<le> code c \<and> code c \<noteq> 0xD7 \<and> code c \<noteq> 0xF7)"

definition WriteRune :: "char \<Rightarrow> string" where
  "WriteRune c = (if code c < 0x80 then [c]
     else [char_of (0xC0 + code c div 64), char_of (0x80 + code c mod 64 :: nat)])"

text \<open>\<open>strings.ToUpper\<close> on the bytes an identifier is made of: a keyword is ASCII, and no letter of
  the first 256 code points but an ASCII one has an ASCII upper case.\<close>

definition upper_char :: "char \<Rightarrow> char" where
  "upper_char c = (if 97 \<le> code c \<and> code c \<le> 122 then char_of (code c - 32) else c)"

lemma class_not_NUL: "IsDigit c \<Longrightarrow> c \<noteq> CHR 0x00" "IsLetter c \<Longrightarrow> c \<noteq> CHR 0x00"
  "IsSpace c \<Longrightarrow> c \<noteq> CHR 0x00"
  by (auto simp: IsDigit_def IsLetter_def IsSpace_def)

section \<open>The lexer\<close>

abbreviation (input) NUL :: char where "NUL \<equiv> CHR 0x00"

record Lexer =
  lx_input :: string
  lx_pos :: nat
  lx_ch :: char

definition readChar :: "Lexer \<Rightarrow> Lexer" where
  "readChar l =
     (let l1 = (if lx_pos l \<ge> length (lx_input l) then l\<lparr>lx_ch := NUL\<rparr>
                else l\<lparr>lx_ch := lx_input l ! lx_pos l\<rparr>)
      in l1\<lparr>lx_pos := lx_pos l1 + 1\<rparr>)"

definition NewLexer :: "string \<Rightarrow> Lexer" where
  "NewLexer input = readChar \<lparr>lx_input = input, lx_pos = 0, lx_ch = NUL\<rparr>"

definition peekChar :: "Lexer \<Rightarrow> char" where
  "peekChar l = (if lx_pos l \<ge> length (lx_input l) then NUL else lx_input l ! lx_pos l)"

text \<open>How much there is left to read.\<close>

definition left :: "Lexer \<Rightarrow> nat" where
  "left l = (if lx_ch l = NUL then 0 else Suc (Suc (length (lx_input l)) - lx_pos l))"

lemma left_readChar: "lx_ch l \<noteq> NUL \<Longrightarrow> left (readChar l) < left l"
  by (auto simp: left_def readChar_def Let_def)

lemma left_readChar2: "lx_ch l \<noteq> NUL \<Longrightarrow> left (readChar (readChar l)) < left l"
  by (auto simp: left_def readChar_def Let_def)

lemma left_readChar_le: "left (readChar l) \<le> left l \<or> lx_ch l = NUL"
  using left_readChar[of l] by fastforce

function skipComment :: "Lexer \<Rightarrow> Lexer" where
  "skipComment l =
     (if lx_ch l \<noteq> NUL \<and> lx_ch l \<noteq> CHR 0x0A then skipComment (readChar l) else l)"
  by pat_completeness auto
termination
  by (relation "measure left") (auto simp: left_readChar)

declare skipComment.simps [simp del]

lemma left_skipComment: "left (skipComment l) \<le> left l"
proof (induction l rule: skipComment.induct)
  case (1 l)
  then show ?case
    using left_readChar[of l] by (subst skipComment.simps) (fastforce split: if_splits)
qed

lemma skipComment_end: "lx_ch (skipComment l) = NUL \<or> lx_ch (skipComment l) = CHR 0x0A"
proof (induction l rule: skipComment.induct)
  case (1 l)
  then show ?case by (subst (1 2) skipComment.simps) (auto split: if_splits)
qed

lemma skipComment_left_less:
  assumes "lx_ch l = CHR ''-''"
  shows "left (let l1 = skipComment l in if lx_ch l1 = CHR 0x0A then readChar l1 else l1) < left l"
proof -
  have "skipComment l = skipComment (readChar l)"
    using assms by (subst skipComment.simps) simp
  then have "left (skipComment l) < left l"
    using left_skipComment[of "readChar l"] left_readChar[of l] assms by simp
  with left_readChar[of "skipComment l"] show ?thesis by (auto simp: Let_def)
qed

function skipWhitespace :: "Lexer \<Rightarrow> Lexer" where
  "skipWhitespace l =
     (if lx_ch l = NUL then l
      else if IsSpace (lx_ch l) then skipWhitespace (readChar l)
      else if lx_ch l = CHR ''-'' \<and> peekChar l = CHR ''-'' then
        skipWhitespace (let l1 = skipComment l in if lx_ch l1 = CHR 0x0A then readChar l1 else l1)
      else l)"
  by pat_completeness auto
termination
  by (relation "measure left") (auto simp: left_readChar skipComment_left_less simp del: Let_def)

declare skipWhitespace.simps [simp del]

text \<open>The character an escape sequence stands for: \<open>\n\<close> and \<open>\t\<close>, and any other for itself.\<close>

definition escape :: "char \<Rightarrow> string" where
  "escape c = (if c = CHR ''n'' then [CHR 0x0A]
     else if c = CHR ''t'' then [CHR 0x09]
     else if c = CHR 0x22 then [CHR 0x22]
     else if c = CHR 0x5C then [CHR 0x5C]
     else WriteRune c)"

function readString_loop :: "Lexer \<Rightarrow> string \<times> Lexer" where
  "readString_loop l =
     (if lx_ch l \<noteq> NUL \<and> lx_ch l \<noteq> CHR 0x22 then
        (if lx_ch l = CHR 0x5C then
           (let l1 = readChar l; (s, l2) = readString_loop (readChar l1) in (escape (lx_ch l1) @ s, l2))
         else
           (let (s, l2) = readString_loop (readChar l) in (WriteRune (lx_ch l) @ s, l2)))
      else ([], l))"
  by pat_completeness auto

termination
  by (relation "measure left") (auto simp: left_readChar left_readChar2)

declare readString_loop.simps [simp del]

definition readString :: "Lexer \<Rightarrow> string \<times> Lexer" where
  "readString l =
     (let (s, l1) = readString_loop (readChar l)
      in (s, if lx_ch l1 = CHR 0x22 then readChar l1 else l1))"

function readDigits :: "Lexer \<Rightarrow> string \<times> Lexer" where
  "readDigits l =
     (if IsDigit (lx_ch l) then
        (let (s, l1) = readDigits (readChar l) in (WriteRune (lx_ch l) @ s, l1))
      else ([], l))"
  by pat_completeness auto
termination
  by (relation "measure left") (auto intro!: left_readChar dest: class_not_NUL)

declare readDigits.simps [simp del]

definition readNumber :: "Lexer \<Rightarrow> string \<times> Lexer" where
  "readNumber l =
     (let (s, l1) = readDigits l
      in if lx_ch l1 = CHR ''.'' \<and> IsDigit (peekChar l1) then
           (let (t, l2) = readDigits (readChar l1) in (s @ WriteRune (lx_ch l1) @ t, l2))
         else (s, l1))"

function readIdent :: "Lexer \<Rightarrow> string \<times> Lexer" where
  "readIdent l =
     (if IsLetter (lx_ch l) \<or> IsDigit (lx_ch l) \<or> lx_ch l = CHR ''_'' then
        (let (s, l1) = readIdent (readChar l) in (WriteRune (lx_ch l) @ s, l1))
      else ([], l))"
  by pat_completeness auto
termination
  by (relation "measure left") (auto intro!: left_readChar dest: class_not_NUL)

declare readIdent.simps [simp del]

definition keyword_table :: "(string \<times> TokenType) list" where
  "keyword_table =
    [(''ACTIVATE'', TokenActivate), (''FROM'', TokenFrom), (''CONTEXT'', TokenContext),
     (''WHERE'', TokenWhere), (''MAX_RESULTS'', TokenMaxResults), (''HOPS'', TokenHops),
     (''MIN_RELEVANCE'', TokenMinRelevance), (''AND'', TokenAnd), (''OR'', TokenOr),
     (''STATE'', TokenState), (''RELEVANCE'', TokenRelevance), (''CONFIDENCE'', TokenConfidence),
     (''TAG'', TokenTag), (''CREATOR'', TokenCreator), (''CREATED_AFTER'', TokenCreatedAfter),
     (''RECALL'', TokenRecall), (''EPISODE'', TokenEpisode), (''FRAMES'', TokenFrames),
     (''TRAVERSE'', TokenTraverse), (''CONSOLIDATE'', TokenConsolidate), (''VAULT'', TokenVault),
     (''WORKING_MEMORY'', TokenWorkingMemory), (''SESSION'', TokenSession), (''DRY_RUN'', TokenDryRun),
     (''PROVENANCE'', TokenProvenance), (''SOURCE'', TokenSource), (''AGENT'', TokenAgent),
     (''MIN_WEIGHT'', TokenMinWeight)]"

definition lookupKeyword :: "string \<Rightarrow> TokenType" where
  "lookupKeyword ident =
     (case map_of keyword_table (map upper_char ident) of Some tt \<Rightarrow> tt | None \<Rightarrow> TokenIdent)"

text \<open>The one-byte operators and delimiters.\<close>

definition punctuation :: "(char \<times> TokenType) list" where
  "punctuation = [(CHR ''='', TokenEQ), (CHR ''('', TokenLParen), (CHR '')'', TokenRParen),
     (CHR ''['', TokenLBracket), (CHR '']'', TokenRBracket), (CHR '','', TokenComma),
     (CHR ''.'', TokenDot)]"

definition lex_value :: "Lexer \<Rightarrow> (TokenType \<times> string) \<times> Lexer" where
  "lex_value l =
     (let c = lx_ch l
      in if c = NUL then ((TokenEOF, ''''), l)
         else if c = CHR ''>'' then
           (if peekChar l = CHR ''='' then ((TokenGTE, ''>=''), readChar (readChar l))
            else ((TokenGT, ''>''), readChar l))
         else case map_of punctuation c of
           Some tt \<Rightarrow> ((tt, [c]), readChar l)
         | None \<Rightarrow>
             if c = CHR 0x22 then (let (s, l1) = readString l in ((TokenString, s), l1))
             else if IsDigit c then (let (s, l1) = readNumber l in ((TokenNumber, s), l1))
             else if IsLetter c \<or> c = CHR ''_'' then
               (let (s, l1) = readIdent l in ((lookupKeyword s, s), l1))
             else ((TokenIdent, ''''), readChar l))"

definition NextToken :: "Lexer \<Rightarrow> Token \<times> Lexer" where
  "NextToken l =
     (let l1 = skipWhitespace l;
          start = int (lx_pos l1) - 1;
          ((tt, val), l2) = lex_value l1
      in (\<lparr>tk_Type = tt, tk_Value = val, tk_Pos = start\<rparr>, l2))"

section \<open>Termination of the token loop\<close>

lemma left_skipWhitespace: "left (skipWhitespace l) \<le> left l"
proof (induction l rule: skipWhitespace.induct)
  case (1 l)
  show ?case
    using 1 left_readChar[of l] skipComment_left_less[of l]
    by (subst skipWhitespace.simps) (auto simp del: Let_def)
qed

lemma left_readString_loop: "left (snd (readString_loop l)) \<le> left l"
proof (induction l rule: readString_loop.induct)
  case (1 l)
  show ?case
    using 1 left_readChar[of l] left_readChar2[of l]
    by (subst readString_loop.simps) (auto simp: Let_def split: prod.splits)
qed

lemma left_readDigits: "left (snd (readDigits l)) \<le> left l"
proof (induction l rule: readDigits.induct)
  case (1 l)
  show ?case
    using 1 left_readChar[of l] class_not_NUL[of "lx_ch l"]
    by (subst readDigits.simps) (auto simp: Let_def split: prod.splits)
qed

lemma left_readIdent: "left (snd (readIdent l)) \<le> left l"
proof (induction l rule: readIdent.induct)
  case (1 l)
  show ?case
    using 1 left_readChar[of l] class_not_NUL[of "lx_ch l"]
    by (subst readIdent.simps) (auto simp: Let_def split: prod.splits)
qed

lemma lookupKeyword_not_EOF: "lookupKeyword s \<noteq> TokenEOF"
proof -
  have "(k, TokenEOF) \<notin> set keyword_table" for k by (simp add: keyword_table_def)
  then show ?thesis
    by (auto simp: lookupKeyword_def split: option.split dest: map_of_SomeD)
qed

lemma lex_value_EOF: "fst (fst (lex_value l)) = TokenEOF \<longleftrightarrow> lx_ch l = NUL"
  using lookupKeyword_not_EOF
  by (auto simp: lex_value_def Let_def punctuation_def split: prod.splits option.splits if_splits)

lemma left_readString: "lx_ch l \<noteq> NUL \<Longrightarrow> left (snd (readString l)) < left l"
  using left_readChar[of l] left_readString_loop[of "readChar l"]
    left_readChar[of "snd (readString_loop (readChar l))"]
  by (auto simp: readString_def Let_def split: prod.splits)

lemma left_readDigits_less: "IsDigit (lx_ch l) \<Longrightarrow> left (snd (readDigits l)) < left l"
  using left_readChar[of l] left_readDigits[of "readChar l"] class_not_NUL[of "lx_ch l"]
  by (subst readDigits.simps) (auto simp: Let_def split: prod.splits)

lemma left_readNumber: "IsDigit (lx_ch l) \<Longrightarrow> left (snd (readNumber l)) < left l"
  using left_readDigits_less[of l] left_readChar[of "snd (readDigits l)"]
    left_readDigits[of "readChar (snd (readDigits l))"]
  by (auto simp: readNumber_def Let_def split: prod.splits)

lemma left_readIdent_less:
  "IsLetter (lx_ch l) \<or> lx_ch l = CHR ''_'' \<Longrightarrow> left (snd (readIdent l)) < left l"
  using left_readChar[of l] left_readIdent[of "readChar l"] class_not_NUL[of "lx_ch l"]
  by (subst readIdent.simps) (auto simp: Let_def split: prod.splits)

lemma left_lex_value: "lx_ch l \<noteq> NUL \<Longrightarrow> left (snd (lex_value l)) < left l"
  using left_readChar[of l] left_readChar2[of l] left_readString[of l] left_readNumber[of l]
    left_readIdent_less[of l]
  by (auto simp: lex_value_def Let_def split: prod.splits option.splits)

lemma left_NextToken:
  assumes "NextToken l = (t, l')" "tk_Type t \<noteq> TokenEOF"
  shows "left l' < left l"
proof -
  let ?l1 = "skipWhitespace l"
  have "tk_Type t = fst (fst (lex_value ?l1))" and l': "l' = snd (lex_value ?l1)"
    using assms(1) by (auto simp: NextToken_def Let_def split: prod.splits)
  with assms(2) have "lx_ch ?l1 \<noteq> NUL" using lex_value_EOF by metis
  with l' left_lex_value[of ?l1] left_skipWhitespace[of l] show ?thesis by simp
qed

function Tokenize_loop :: "Lexer \<Rightarrow> Token list" where
  "Tokenize_loop l =
     (let (tok, l') = NextToken l
      in if tk_Type tok = TokenEOF then [tok] else tok # Tokenize_loop l')"
  by pat_completeness auto
termination
  by (relation "measure left") (auto dest: left_NextToken[OF sym])

declare Tokenize_loop.simps [simp del]

definition Tokenize :: "string \<Rightarrow> Token list" where
  "Tokenize input = Tokenize_loop (NewLexer input)"

section \<open>Reading at a position\<close>

text \<open>The lexer that has just read the character at position \<open>p\<close>; every state of a run has this
  form, and reading is moving on by one.\<close>

definition lex_at :: "string \<Rightarrow> nat \<Rightarrow> Lexer" where
  "lex_at xs p = \<lparr>lx_input = xs, lx_pos = Suc p, lx_ch = (if p < length xs then xs ! p else NUL)\<rparr>"

lemma NewLexer_at: "NewLexer xs = lex_at xs 0"
  by (simp add: NewLexer_def readChar_def lex_at_def)

lemma readChar_at [simp]: "readChar (lex_at xs p) = lex_at xs (Suc p)"
  by (simp add: readChar_def lex_at_def Let_def)

lemma pos_at [simp]: "lx_pos (lex_at xs p) = Suc p"
  by (simp add: lex_at_def)

lemma ch_at: "drop p xs = c # rest \<Longrightarrow> lx_ch (lex_at xs p) = c"
  by (metis append_take_drop_id drop_all leI lex_at_def lx_ch_def list.distinct(1) nth_via_drop
      Lexer.select_convs(3))

lemma ch_end: "drop p xs = [] \<Longrightarrow> lx_ch (lex_at xs p) = NUL"
  by (simp add: lex_at_def)

lemma drop_Suc_at: "drop p xs = c # rest \<Longrightarrow> drop (Suc p) xs = rest"
  by (metis drop_Suc drop_tl list.sel(3))

lemma peek_at: "drop p xs = c # d # rest \<Longrightarrow> peekChar (lex_at xs p) = d"
proof -
  assume "drop p xs = c # d # rest"
  then have d: "drop (Suc p) xs = d # rest" by (rule drop_Suc_at)
  then have "Suc p < length xs" by (metis drop_all leI list.distinct(1))
  with d show ?thesis by (simp add: peekChar_def lex_at_def nth_via_drop)
qed

lemma peek_end: "drop p xs = [c] \<Longrightarrow> peekChar (lex_at xs p) = NUL"
proof -
  assume "drop p xs = [c]"
  then have "drop (Suc p) xs = []" by (rule drop_Suc_at)
  then show ?thesis by (simp add: peekChar_def lex_at_def)
qed

end
