(* ===== verification/Mql_Parser.thy ===== *)
theory Mql_Parser
  imports Mql_Lexer
begin

text \<open>
  The syntax tree (\<open>internal/query/mql/ast.go\<close>) and the recursive descent parser
  (\<open>parser.go\<close>) of the query language.  A parsing function maps the parser's state to an error
  or to a result and the new state, and \<open>pbind\<close> is the code's "return the error at once".  The
  error carries the current token's value and position, as \<open>Parser.error\<close> prints them, and the
  reason.  The mutually recursive part and the two loops run on fuel; \<open>Parse_tokens\<close> gives
  as much as any input needs.  \<open>strconv.ParseFloat\<close> and \<open>time.Parse\<close> are the parameters \<open>pf\<close>
  and \<open>pt\<close>, over abstract types of floats and times.
\<close>

section \<open>ast.go\<close>

datatype ('f, 't) Predicate =
    StatePredicate string
  | ScorePredicate string string 'f
  | TagPredicate string
  | CreatorPredicate string
  | CreatedAfterPredicate 't
  | AndPredicate "('f, 't) Predicate" "('f, 't) Predicate"
  | OrPredicate "('f, 't) Predicate" "('f, 't) Predicate"
  | ProvenanceSourcePredicate string
  | ProvenanceAgentPredicate string

record ('f, 't) ActivateQuery =
  aq_Vault :: string
  aq_Context :: "string list"
  aq_Where :: "('f, 't) Predicate option"
  aq_MaxResults :: int
  aq_Hops :: int
  aq_MinRelevance :: 'f

record RecallEpisodeQuery =
  rq_EpisodeID :: string
  rq_Frames :: int

record 'f TraverseQuery =
  tq_StartID :: string
  tq_Hops :: int
  tq_MinWeight :: 'f

record ConsolidateQuery =
  cq_Vault :: string
  cq_DryRun :: bool

record WorkingMemoryQuery =
  wq_SessionID :: string

datatype ('f, 't) Query =
    QActivate "('f, 't) ActivateQuery"
  | QRecall RecallEpisodeQuery
  | QTraverse "'f TraverseQuery"
  | QConsolidate ConsolidateQuery
  | QWorkingMemory WorkingMemoryQuery

section \<open>The parser's state and errors\<close>

record Parser =
  pa_tokens :: "Token list"
  pa_pos :: nat
  pa_depth :: nat

datatype parse_reason =
    Expected TokenType TokenType
  | Msg string
  | MsgTok string TokenType
  | MsgVal string string

datatype parse_error = ParseError string int parse_reason | OutOfFuel

type_synonym 'a presult = "parse_error + 'a \<times> Parser"

definition NewParser :: "Token list \<Rightarrow> Parser" where
  "NewParser tokens = \<lparr>pa_tokens = tokens, pa_pos = 0, pa_depth = 0\<rparr>"

definition eof_token :: Token where
  "eof_token = \<lparr>tk_Type = TokenEOF, tk_Value = '''', tk_Pos = 0\<rparr>"

definition current :: "Parser \<Rightarrow> Token" where
  "current p = (if pa_pos p < length (pa_tokens p) then pa_tokens p ! pa_pos p else eof_token)"

definition peek :: "Parser \<Rightarrow> Token" where
  "peek p = (if pa_pos p + 1 < length (pa_tokens p) then pa_tokens p ! (pa_pos p + 1) else eof_token)"

definition advance :: "Parser \<Rightarrow> Parser" where
  "advance p = (if pa_pos p < length (pa_tokens p) then p\<lparr>pa_pos := pa_pos p + 1\<rparr> else p)"

definition perror :: "parse_reason \<Rightarrow> Parser \<Rightarrow> 'a presult" where
  "perror r p = Inl (ParseError (tk_Value (current p)) (tk_Pos (current p)) r)"

definition expect :: "TokenType \<Rightarrow> Parser \<Rightarrow> Token presult" where
  "expect tt p =
     (if tk_Type (current p) \<noteq> tt then perror (Expected tt (tk_Type (current p))) p
      else Inr (current p, advance p))"

definition pbind :: "(Parser \<Rightarrow> 'a presult) \<Rightarrow> ('a \<Rightarrow> Parser \<Rightarrow> 'b presult) \<Rightarrow> Parser \<Rightarrow> 'b presult" where
  "pbind m f p = (case m p of Inl e \<Rightarrow> Inl e | Inr (a, p') \<Rightarrow> f a p')"

text \<open>The value of the current token if its type is admitted, and on to the next.\<close>

definition take_value :: "TokenType list \<Rightarrow> parse_reason \<Rightarrow> Parser \<Rightarrow> string presult" where
  "take_value tts r p =
     (if tk_Type (current p) \<in> set tts then Inr (tk_Value (current p), advance p) else perror r p)"

text \<open>The same, converted; the conversion fails before the token is passed.\<close>

definition take_conv :: "(string \<Rightarrow> 'a option) \<Rightarrow> TokenType \<Rightarrow> parse_reason \<Rightarrow> parse_reason \<Rightarrow> Parser \<Rightarrow>
    'a presult" where
  "take_conv conv tt r r' p =
     (if tk_Type (current p) \<noteq> tt then perror r p
      else case conv (tk_Value (current p)) of
             None \<Rightarrow> perror r' p
           | Some x \<Rightarrow> Inr (x, advance p))"

section \<open>Conversions\<close>

definition digit_val :: "char \<Rightarrow> int" where
  "digit_val c = int (code c) - 48"

definition digits_val :: "string \<Rightarrow> int" where
  "digits_val s = foldl (\<lambda>a c. a * 10 + digit_val c) 0 s"

definition atoi_digits :: "string \<Rightarrow> int option" where
  "atoi_digits s = (if s = '''' \<or> \<not> list_all IsDigit s then None else Some (digits_val s))"

text \<open>\<open>strconv.Atoi\<close>, which reports a range error outside 64 bits.\<close>

definition Atoi :: "string \<Rightarrow> int option" where
  "Atoi s =
     (let v = (case s of
          [] \<Rightarrow> None
        | c # cs \<Rightarrow>
            if c = CHR ''-'' then map_option uminus (atoi_digits cs)
            else if c = CHR ''+'' then atoi_digits cs
            else atoi_digits s)
      in case v of None \<Rightarrow> None
         | Some n \<Rightarrow> if - (2 ^ 63) \<le> n \<and> n < 2 ^ 63 then Some n else None)"

text \<open>\<open>strings.ToLower\<close> on the UTF-8 text of code points below 256, which is what an identifier is.\<close>

fun ToLower :: "string \<Rightarrow> string" where
  "ToLower [] = []"
| "ToLower (c # cs) =
     (if 65 \<le> code c \<and> code c \<le> 90 then char_of (code c + 32) # ToLower cs
      else if code c = 0xC3 then
        (case cs of
           [] \<Rightarrow> [c]
         | d # ds \<Rightarrow>
             if 0x80 \<le> code d \<and> code d \<le> 0x9E \<and> code d \<noteq> 0x97
             then c # char_of (code d + 0x20) # ToLower ds
             else c # d # ToLower ds)
      else c # ToLower cs)"

section \<open>Predicates\<close>

definition parseState :: "Parser \<Rightarrow> ('f, 't) Predicate presult" where
  "parseState p =
     pbind (expect TokenEQ) (\<lambda>_.
     pbind (take_value [TokenIdent] (Msg ''expected state name after state ='')) (\<lambda>v p.
       Inr (StatePredicate (ToLower v), p))) (advance p)"

text \<open>\<open>relevance\<close> and \<open>confidence\<close> have one branch each in the code, alike but for the name.\<close>

definition parseScore :: "(string \<Rightarrow> 'f option) \<Rightarrow> string \<Rightarrow> Parser \<Rightarrow> ('f, 't) Predicate presult" where
  "parseScore pf field p =
     pbind (take_value [TokenGT, TokenGTE] (Msg (''expected > or >= after '' @ field))) (\<lambda>op.
     pbind (take_conv pf TokenNumber (Msg (''expected number after '' @ field @ '' operator''))
        (Msg (''invalid float for '' @ field @ '' threshold''))) (\<lambda>f p.
       Inr (ScorePredicate field op f, p))) (advance p)"

definition parseTag :: "Parser \<Rightarrow> ('f, 't) Predicate presult" where
  "parseTag p =
     pbind (expect TokenEQ) (\<lambda>_.
     pbind (take_value [TokenString] (Msg ''expected string after tag ='')) (\<lambda>v p.
       Inr (TagPredicate v, p))) (advance p)"

definition parseCreator :: "Parser \<Rightarrow> ('f, 't) Predicate presult" where
  "parseCreator p =
     pbind (expect TokenEQ) (\<lambda>_.
     pbind (take_value [TokenString] (Msg ''expected string after creator ='')) (\<lambda>v p.
       Inr (CreatorPredicate v, p))) (advance p)"

definition parseCreatedAfter :: "(string \<Rightarrow> 't option) \<Rightarrow> Parser \<Rightarrow> ('f, 't) Predicate presult" where
  "parseCreatedAfter pt p =
     pbind (take_conv pt TokenString (Msg ''expected RFC3339 string after created_after'')
        (Msg ''invalid RFC3339 timestamp'')) (\<lambda>t p.
       Inr (CreatedAfterPredicate t, p)) (advance p)"

definition parseProvenance :: "Parser \<Rightarrow> ('f, 't) Predicate presult" where
  "parseProvenance p =
     pbind (expect TokenDot) (\<lambda>_ p.
       let fieldTok = current p
       in if tk_Type fieldTok = TokenSource then
            pbind (expect TokenEQ) (\<lambda>_.
            pbind (take_value [TokenIdent] (Msg ''expected source name after provenance.source ='')) (\<lambda>v p.
              Inr (ProvenanceSourcePredicate (ToLower v), p))) (advance p)
          else if tk_Type fieldTok = TokenAgent then
            pbind (expect TokenEQ) (\<lambda>_.
            pbind (take_value [TokenString] (Msg ''expected string after provenance.agent ='')) (\<lambda>v p.
              Inr (ProvenanceAgentPredicate v, p))) (advance p)
          else perror (MsgTok ''expected 'source' or 'agent' after provenance.'' (tk_Type fieldTok)) p)
       (advance p)"

text \<open>The predicates without parentheses.\<close>

definition parseLeaf :: "(string \<Rightarrow> 'f option) \<Rightarrow> (string \<Rightarrow> 't option) \<Rightarrow> Parser \<Rightarrow>
    ('f, 't) Predicate presult" where
  "parseLeaf pf pt p =
     (case tk_Type (current p) of
        TokenState \<Rightarrow> parseState p
      | TokenRelevance \<Rightarrow> parseScore pf ''relevance'' p
      | TokenConfidence \<Rightarrow> parseScore pf ''confidence'' p
      | TokenTag \<Rightarrow> parseTag p
      | TokenCreator \<Rightarrow> parseCreator p
      | TokenCreatedAfter \<Rightarrow> parseCreatedAfter pt p
      | TokenProvenance \<Rightarrow> parseProvenance p
      | _ \<Rightarrow> perror (MsgVal ''unexpected in predicate'' (tk_Value (current p))) p)"

fun parseOr parseOr_loop parseAnd parseAnd_loop parsePrimary where
  "parseOr pf pt 0 p = Inl OutOfFuel"
| "parseOr pf pt (Suc n) p = pbind (parseAnd pf pt n) (\<lambda>l. parseOr_loop pf pt n l) p"
| "parseOr_loop pf pt 0 l p = Inl OutOfFuel"
| "parseOr_loop pf pt (Suc n) l p =
     (if tk_Type (current p) = TokenOr then
        pbind (parseAnd pf pt n) (\<lambda>r. parseOr_loop pf pt n (OrPredicate l r)) (advance p)
      else Inr (l, p))"
| "parseAnd pf pt 0 p = Inl OutOfFuel"
| "parseAnd pf pt (Suc n) p = pbind (parsePrimary pf pt n) (\<lambda>l. parseAnd_loop pf pt n l) p"
| "parseAnd_loop pf pt 0 l p = Inl OutOfFuel"
| "parseAnd_loop pf pt (Suc n) l p =
     (if tk_Type (current p) = TokenAnd then
        pbind (parsePrimary pf pt n) (\<lambda>r. parseAnd_loop pf pt n (AndPredicate l r)) (advance p)
      else Inr (l, p))"
| "parsePrimary pf pt 0 p = Inl OutOfFuel"
| "parsePrimary pf pt (Suc n) p =
     (if tk_Type (current p) = TokenLParen then
        (if pa_depth p + 1 > 50 then perror (Msg ''expression nesting too deep (max 50)'') p
         else pbind (parseOr pf pt n) (\<lambda>pred p1.
                pbind (expect TokenRParen) (\<lambda>_ p2. Inr (pred, p2))
                  (p1\<lparr>pa_depth := pa_depth p1 - 1\<rparr>))
              (advance (p\<lparr>pa_depth := pa_depth p + 1\<rparr>)))
      else parseLeaf pf pt p)"

definition parsePredicate :: "(string \<Rightarrow> 'f option) \<Rightarrow> (string \<Rightarrow> 't option) \<Rightarrow> nat \<Rightarrow> Parser \<Rightarrow>
    ('f, 't) Predicate presult" where
  "parsePredicate pf pt n p = parseOr pf pt n p"

section \<open>Queries\<close>

fun parseContext_loop :: "nat \<Rightarrow> string list \<Rightarrow> Parser \<Rightarrow> string list presult" where
  "parseContext_loop 0 ctxt p = Inl OutOfFuel"
| "parseContext_loop (Suc n) ctxt p =
     (let tok = current p
      in if tk_Type tok = TokenRBracket \<or> tk_Type tok = TokenEOF then Inr (ctxt, p)
         else if tk_Type tok = TokenString \<or> tk_Type tok = TokenIdent then
           (let p1 = advance p;
                p2 = (if tk_Type (current p1) = TokenComma then advance p1 else p1)
            in parseContext_loop n (ctxt @ [tk_Value tok]) p2)
         else perror (MsgTok ''expected string or identifier in context, got'' (tk_Type tok)) p)"

definition parseContextList :: "nat \<Rightarrow> Parser \<Rightarrow> string list presult" where
  "parseContextList n p =
     (if tk_Type (current p) \<noteq> TokenLBracket then perror (Msg ''expected [ after CONTEXT'') p
      else pbind (parseContext_loop n []) (\<lambda>ctxt.
           pbind (expect TokenRBracket) (\<lambda>_ p.
             if ctxt = [] then perror (Msg ''context list cannot be empty'') p
             else Inr (ctxt, p))) (advance p))"

text \<open>One optional clause of \<open>ACTIVATE\<close>.\<close>

definition parseClause :: "(string \<Rightarrow> 'f option) \<Rightarrow> (string \<Rightarrow> 't option) \<Rightarrow> nat \<Rightarrow>
    ('f, 't) ActivateQuery \<Rightarrow> Parser \<Rightarrow> ('f, 't) ActivateQuery presult" where
  "parseClause pf pt n q p =
     (case tk_Type (current p) of
        TokenWhere \<Rightarrow>
          pbind (parsePredicate pf pt n) (\<lambda>pred p. Inr (q\<lparr>aq_Where := Some pred\<rparr>, p)) (advance p)
      | TokenMaxResults \<Rightarrow>
          pbind (take_conv Atoi TokenNumber (Msg ''expected number after MAX_RESULTS'')
              (Msg ''invalid number for MAX_RESULTS''))
            (\<lambda>k p. Inr (q\<lparr>aq_MaxResults := (if k > 1000 then 1000 else k)\<rparr>, p)) (advance p)
      | TokenHops \<Rightarrow>
          pbind (take_conv Atoi TokenNumber (Msg ''expected number after HOPS'')
              (Msg ''invalid number for HOPS''))
            (\<lambda>k p. Inr (q\<lparr>aq_Hops := (if k > 10 then 10 else k)\<rparr>, p)) (advance p)
      | TokenMinRelevance \<Rightarrow>
          pbind (take_conv pf TokenNumber (Msg ''expected number after MIN_RELEVANCE'')
              (Msg ''invalid float for MIN_RELEVANCE''))
            (\<lambda>f p. Inr (q\<lparr>aq_MinRelevance := f\<rparr>, p)) (advance p)
      | _ \<Rightarrow> perror (MsgVal ''unexpected in ACTIVATE clause'' (tk_Value (current p))) p)"

fun parseClauses :: "(string \<Rightarrow> 'f option) \<Rightarrow> (string \<Rightarrow> 't option) \<Rightarrow> nat \<Rightarrow>
    ('f, 't) ActivateQuery \<Rightarrow> Parser \<Rightarrow> ('f, 't) ActivateQuery presult" where
  "parseClauses pf pt 0 q p = Inl OutOfFuel"
| "parseClauses pf pt (Suc n) q p =
     (if tk_Type (current p) \<noteq> TokenEOF
      then pbind (parseClause pf pt n q) (parseClauses pf pt n) p
      else Inr (q, p))"

definition parseActivate :: "(string \<Rightarrow> 'f :: zero option) \<Rightarrow> (string \<Rightarrow> 't option) \<Rightarrow> nat \<Rightarrow> Parser \<Rightarrow>
    ('f, 't) ActivateQuery presult" where
  "parseActivate pf pt n p =
     pbind (expect TokenActivate) (\<lambda>_.
     pbind (expect TokenFrom) (\<lambda>_.
     pbind (take_value [TokenIdent, TokenString] (Msg ''expected vault name'')) (\<lambda>vault.
     pbind (expect TokenContext) (\<lambda>_.
     pbind (parseContextList n) (\<lambda>ctxt.
       parseClauses pf pt n
         \<lparr>aq_Vault = vault, aq_Context = ctxt, aq_Where = None, aq_MaxResults = 0, aq_Hops = 0,
          aq_MinRelevance = 0\<rparr>))))) p"

text \<open>The end of a query that admits nothing more.\<close>

definition at_end :: "string \<Rightarrow> 'a \<Rightarrow> Parser \<Rightarrow> 'a presult" where
  "at_end what q p =
     (if tk_Type (current p) \<noteq> TokenEOF
      then perror (MsgVal (''unexpected after '' @ what) (tk_Value (current p))) p
      else Inr (q, p))"

definition parseRecallEpisode :: "Parser \<Rightarrow> RecallEpisodeQuery presult" where
  "parseRecallEpisode p =
     pbind (expect TokenRecall) (\<lambda>_.
     pbind (expect TokenEpisode) (\<lambda>_.
     pbind (take_value [TokenString, TokenIdent] (Msg ''expected episode ID after EPISODE'')) (\<lambda>eid.
     pbind (\<lambda>p. if tk_Type (current p) = TokenFrames
                then take_conv Atoi TokenNumber (Msg ''expected number after FRAMES'')
                       (Msg ''invalid number for FRAMES'') (advance p)
                else Inr (0, p)) (\<lambda>k.
       at_end ''RECALL EPISODE'' \<lparr>rq_EpisodeID = eid, rq_Frames = k\<rparr>)))) p"

definition parseTraverse :: "(string \<Rightarrow> 'f :: zero option) \<Rightarrow> Parser \<Rightarrow> 'f TraverseQuery presult" where
  "parseTraverse pf p =
     pbind (expect TokenTraverse) (\<lambda>_.
     pbind (expect TokenFrom) (\<lambda>_.
     pbind (take_value [TokenString, TokenIdent] (Msg ''expected engram ID after FROM'')) (\<lambda>sid.
     pbind (expect TokenHops) (\<lambda>_.
     pbind (take_conv Atoi TokenNumber (Msg ''expected number after HOPS'')
        (Msg ''invalid number for HOPS'')) (\<lambda>hops.
     pbind (\<lambda>p. if tk_Type (current p) = TokenMinWeight
                then take_conv pf TokenNumber (Msg ''expected number after MIN_WEIGHT'')
                       (Msg ''invalid float for MIN_WEIGHT'') (advance p)
                else Inr (0, p)) (\<lambda>w.
       at_end ''TRAVERSE'' \<lparr>tq_StartID = sid, tq_Hops = hops, tq_MinWeight = w\<rparr>)))))) p"

definition parseConsolidate :: "Parser \<Rightarrow> ConsolidateQuery presult" where
  "parseConsolidate p =
     pbind (expect TokenConsolidate) (\<lambda>_.
     pbind (expect TokenVault) (\<lambda>_.
     pbind (take_value [TokenString, TokenIdent] (Msg ''expected vault name after VAULT'')) (\<lambda>vault p.
       let dry = (tk_Type (current p) = TokenDryRun)
       in at_end ''CONSOLIDATE'' \<lparr>cq_Vault = vault, cq_DryRun = dry\<rparr>
            (if dry then advance p else p)))) p"

definition parseWorkingMemory :: "Parser \<Rightarrow> WorkingMemoryQuery presult" where
  "parseWorkingMemory p =
     pbind (expect TokenWorkingMemory) (\<lambda>_.
     pbind (expect TokenSession) (\<lambda>_.
     pbind (take_value [TokenString, TokenIdent] (Msg ''expected session ID after SESSION'')) (\<lambda>sid.
       at_end ''WORKING_MEMORY'' \<lparr>wq_SessionID = sid\<rparr>))) p"

definition wrap :: "('a \<Rightarrow> 'b) \<Rightarrow> 'a presult \<Rightarrow> 'b presult" where
  "wrap f r = map_sum id (map_prod f id) r"

definition Parse_from :: "(string \<Rightarrow> 'f :: zero option) \<Rightarrow> (string \<Rightarrow> 't option) \<Rightarrow> nat \<Rightarrow> Parser \<Rightarrow>
    ('f, 't) Query presult" where
  "Parse_from pf pt n p =
     (case tk_Type (current p) of
        TokenActivate \<Rightarrow> wrap QActivate (parseActivate pf pt n p)
      | TokenRecall \<Rightarrow> wrap QRecall (parseRecallEpisode p)
      | TokenTraverse \<Rightarrow> wrap QTraverse (parseTraverse pf p)
      | TokenConsolidate \<Rightarrow> wrap QConsolidate (parseConsolidate p)
      | TokenWorkingMemory \<Rightarrow> wrap QWorkingMemory (parseWorkingMemory p)
      | _ \<Rightarrow> perror (MsgVal ''unexpected: expected one of the query keywords'' (tk_Value (current p))) p)"

text \<open>Every turn of a loop and every pair of parentheses takes a token, and at most four calls lie
  between two tokens.\<close>

definition parse_fuel :: "Token list \<Rightarrow> nat" where
  "parse_fuel tokens = 5 * length tokens + 10"

definition Parse_tokens :: "(string \<Rightarrow> 'f :: zero option) \<Rightarrow> (string \<Rightarrow> 't option) \<Rightarrow> Token list \<Rightarrow>
    parse_error + ('f, 't) Query" where
  "Parse_tokens pf pt tokens =
     map_sum id fst (Parse_from pf pt (parse_fuel tokens) (NewParser tokens))"

definition Parse :: "(string \<Rightarrow> 'f :: zero option) \<Rightarrow> (string \<Rightarrow> 't option) \<Rightarrow> string \<Rightarrow>
    parse_error + ('f, 't) Query" where
  "Parse pf pt input = Parse_tokens pf pt (Tokenize input)"

section \<open>The fuel is enough\<close>

text \<open>The tokens from the current one on.\<close>

definition rest :: "Parser \<Rightarrow> Token list" where
  "rest p = drop (pa_pos p) (pa_tokens p)"

abbreviation todo :: "Parser \<Rightarrow> nat" where "todo p \<equiv> length (rest p)"

lemma current_rest: "current p = (case rest p of [] \<Rightarrow> eof_token | t # ts \<Rightarrow> t)"
proof (cases "pa_pos p < length (pa_tokens p)")
  case True
  then have "rest p = pa_tokens p ! pa_pos p # drop (Suc (pa_pos p)) (pa_tokens p)"
    by (simp add: rest_def Cons_nth_drop_Suc)
  with True show ?thesis by (simp add: current_def)
next
  case False
  then show ?thesis by (simp add: current_def rest_def)
qed

lemma rest_advance [simp]: "rest (advance p) = tl (rest p)"
  by (simp add: rest_def advance_def tl_drop drop_Suc)

lemma rest_depth [simp]: "rest (p\<lparr>pa_depth := d\<rparr>) = rest p"
  by (simp add: rest_def)

lemma current_depth [simp]: "current (p\<lparr>pa_depth := d\<rparr>) = current p"
  by (simp add: current_rest)

lemma depth_advance [simp]: "pa_depth (advance p) = pa_depth p"
  by (simp add: advance_def)

lemma not_eof_todo: "tk_Type (current p) \<noteq> TokenEOF \<Longrightarrow> 0 < todo p"
  by (auto simp: current_rest eof_token_def split: list.splits)

text \<open>A parsing function that never runs out of fuel and never goes back; \<open>strict\<close> ones take a
  token when they succeed.\<close>

definition total_on :: "(Parser \<Rightarrow> 'a presult) \<Rightarrow> Parser \<Rightarrow> nat \<Rightarrow> bool" where
  "total_on m p k \<longleftrightarrow> m p \<noteq> Inl OutOfFuel \<and> (\<forall>a p'. m p = Inr (a, p') \<longrightarrow> todo p' + k \<le> todo p)"

lemma total_pbind:
  assumes "total_on m p k" "\<And>a p'. m p = Inr (a, p') \<Longrightarrow> todo p' + k \<le> todo p \<Longrightarrow> total_on (f a) p' j"
    and "i \<le> k + j"
  shows "total_on (pbind m f) p i"
  using assms by (fastforce simp: total_on_def pbind_def split: sum.splits)

lemma total_step: "f p = m q \<Longrightarrow> total_on m q j \<Longrightarrow> todo q + k \<le> todo p \<Longrightarrow> i \<le> k + j \<Longrightarrow> total_on f p i"
  by (fastforce simp: total_on_def)

lemma total_perror: "f p = perror r p' \<Longrightarrow> total_on f p k"
  by (simp add: total_on_def perror_def)

lemma total_return: "f p = Inr (x, p) \<Longrightarrow> total_on f p 0"
  by (simp add: total_on_def)

lemma todo_advance: "tk_Type (current p) \<noteq> TokenEOF \<Longrightarrow> todo (advance p) + 1 \<le> todo p"
  using not_eof_todo[of p] by simp

lemma todo_advance_le: "todo (advance p) + 0 \<le> todo p"
  by simp

lemma total_expect: "tt \<noteq> TokenEOF \<Longrightarrow> total_on (expect tt) p 1"
  using todo_advance[of p] by (auto simp: total_on_def expect_def perror_def)

lemma total_take_value: "TokenEOF \<notin> set tts \<Longrightarrow> total_on (take_value tts r) p 1"
  using todo_advance[of p]
  by (cases "tk_Type (current p) = TokenEOF") (auto simp: total_on_def take_value_def perror_def)

lemma total_take_conv: "tt \<noteq> TokenEOF \<Longrightarrow> total_on (take_conv conv tt r r') p 1"
  using todo_advance[of p]
  by (auto simp: total_on_def take_conv_def perror_def split: option.splits)

lemmas total_takes = total_expect total_take_value total_take_conv

lemma total0_pbind: "total_on m p 1 \<Longrightarrow> (\<And>a p'. total_on (f a) p' 0) \<Longrightarrow> total_on (pbind m f) p 0"
  by (rule total_pbind) auto

lemma total0_return: "total_on (\<lambda>p. Inr (x, p)) q 0"
  by (simp add: total_on_def)

lemma total0_shift:
  assumes "f p = m (advance p)" "total_on m (advance p) 0" "tk_Type (current p) \<noteq> TokenEOF"
  shows "total_on f p 1"
  by (rule total_step[where m = m and q = "advance p" and k = 1 and j = 0])
    (use assms todo_advance[OF assms(3)] in simp_all)

lemma total_shift0:
  assumes "total_on m (advance p) 0" "f p = m (advance p)"
  shows "total_on f p 0"
  by (rule total_step[where m = m and q = "advance p" and k = 0 and j = 0]) (use assms in simp_all)

lemma total_provenance_field:
  "total_on (\<lambda>p. let fieldTok = current p
       in if tk_Type fieldTok = TokenSource then
            pbind (expect TokenEQ) (\<lambda>_. pbind (take_value [TokenIdent] r1) (\<lambda>v p.
              Inr (ProvenanceSourcePredicate (ToLower v), p))) (advance p)
          else if tk_Type fieldTok = TokenAgent then
            pbind (expect TokenEQ) (\<lambda>_. pbind (take_value [TokenString] r2) (\<lambda>v p.
              Inr (ProvenanceAgentPredicate v, p))) (advance p)
          else perror (r3 fieldTok) p) p 0"
    (is "total_on ?f p 0")
proof -
  have s: "total_on (pbind (expect TokenEQ) (\<lambda>_. pbind (take_value [TokenIdent] r1) (\<lambda>v p.
      Inr (ProvenanceSourcePredicate (ToLower v), p)))) q 0" for q
    by (intro total0_pbind total_takes total0_return) simp_all
  have a: "total_on (pbind (expect TokenEQ) (\<lambda>_. pbind (take_value [TokenString] r2) (\<lambda>v p.
      Inr (ProvenanceAgentPredicate v, p)))) q 0" for q
    by (intro total0_pbind total_takes total0_return) simp_all
  consider "tk_Type (current p) = TokenSource" | "tk_Type (current p) = TokenAgent"
    | "tk_Type (current p) \<noteq> TokenSource" "tk_Type (current p) \<noteq> TokenAgent" by blast
  then show ?thesis
  proof cases
    case 1
    then show ?thesis by (intro total_shift0[OF s]) simp
  next
    case 2
    then show ?thesis by (intro total_shift0[OF a]) simp
  next
    case 3
    then show ?thesis by (intro total_perror) simp
  qed
qed

lemma total_leaf: "total_on (parseLeaf pf pt) p 1"
proof (cases "tk_Type (current p) \<in> {TokenState, TokenRelevance, TokenConfidence, TokenTag,
    TokenCreator, TokenCreatedAfter, TokenProvenance}")
  case True
  then have ne: "tk_Type (current p) \<noteq> TokenEOF" by auto
  consider "tk_Type (current p) = TokenState" | fld where "parseLeaf pf pt p = parseScore pf fld p"
    | "tk_Type (current p) = TokenTag" | "tk_Type (current p) = TokenCreator"
    | "tk_Type (current p) = TokenCreatedAfter" | "tk_Type (current p) = TokenProvenance"
    using True by (auto simp: parseLeaf_def)
  then show ?thesis
  proof cases
    case 1
    then show ?thesis
      by (intro total0_shift[OF _ _ ne])
        (simp add: parseLeaf_def parseState_def, intro total0_pbind total_takes total0_return, simp_all)
  next
    case 2
    then show ?thesis
      by (intro total0_shift[OF _ _ ne])
        (simp add: parseScore_def, intro total0_pbind total_takes total0_return, simp_all)
  next
    case 3
    then show ?thesis
      by (intro total0_shift[OF _ _ ne])
        (simp add: parseLeaf_def parseTag_def, intro total0_pbind total_takes total0_return, simp_all)
  next
    case 4
    then show ?thesis
      by (intro total0_shift[OF _ _ ne])
        (simp add: parseLeaf_def parseCreator_def, intro total0_pbind total_takes total0_return, simp_all)
  next
    case 5
    then show ?thesis
      by (intro total0_shift[OF _ _ ne])
        (simp add: parseLeaf_def parseCreatedAfter_def, intro total0_pbind total_takes total0_return, simp_all)
  next
    case 6
    then show ?thesis
      by (intro total0_shift[OF _ _ ne])
        (simp add: parseLeaf_def parseProvenance_def, intro total0_pbind total_takes total_provenance_field, simp_all)
  qed
next
  case False
  then have "parseLeaf pf pt p = perror (MsgVal ''unexpected in predicate'' (tk_Value (current p))) p"
    by (auto simp: parseLeaf_def split: TokenType.splits)
  then show ?thesis by (rule total_perror)
qed

lemma total_predicates:
  "(\<forall>p. 4 * todo p + 3 \<le> n \<longrightarrow> total_on (parseOr pf pt n) p 1) \<and>
   (\<forall>l p. 4 * todo p + 1 \<le> n \<longrightarrow> total_on (parseOr_loop pf pt n l) p 0) \<and>
   (\<forall>p. 4 * todo p + 2 \<le> n \<longrightarrow> total_on (parseAnd pf pt n) p 1) \<and>
   (\<forall>l p. 4 * todo p + 1 \<le> n \<longrightarrow> total_on (parseAnd_loop pf pt n l) p 0) \<and>
   (\<forall>p. 4 * todo p + 1 \<le> n \<longrightarrow> total_on (parsePrimary pf pt n) p 1)"
proof (induction n)
  case 0
  then show ?case by simp
next
  case (Suc n)
  then have Or: "\<And>p. 4 * todo p + 3 \<le> n \<Longrightarrow> total_on (parseOr pf pt n) p 1"
    and OrL: "\<And>l p. 4 * todo p + 1 \<le> n \<Longrightarrow> total_on (parseOr_loop pf pt n l) p 0"
    and And: "\<And>p. 4 * todo p + 2 \<le> n \<Longrightarrow> total_on (parseAnd pf pt n) p 1"
    and AndL: "\<And>l p. 4 * todo p + 1 \<le> n \<Longrightarrow> total_on (parseAnd_loop pf pt n l) p 0"
    and Prim: "\<And>p. 4 * todo p + 1 \<le> n \<Longrightarrow> total_on (parsePrimary pf pt n) p 1"
    by auto
  show ?case
  proof (intro conjI allI impI)
    fix p :: Parser
    assume f: "4 * todo p + 3 \<le> Suc n"
    have "total_on (pbind (parseAnd pf pt n) (\<lambda>l. parseOr_loop pf pt n l)) p 1"
      by (rule total_pbind[OF And OrL]) (use f in auto)
    then show "total_on (parseOr pf pt (Suc n)) p 1" by (simp add: total_on_def)
  next
    fix l and p :: Parser
    assume f: "4 * todo p + 1 \<le> Suc n"
    show "total_on (parseOr_loop pf pt (Suc n) l) p 0"
    proof (cases "tk_Type (current p) = TokenOr")
      case True
      then have h: "todo (advance p) + 1 = todo p" using not_eof_todo[of p] by simp
      have "total_on (pbind (parseAnd pf pt n) (\<lambda>r. parseOr_loop pf pt n (OrPredicate l r))) (advance p) 0"
        by (rule total_pbind[OF And OrL]) (use f h in linarith)+
      from total_shift0[OF this] True show ?thesis by simp
    next
      case False
      then show ?thesis by (intro total_return) simp
    qed
  next
    fix p :: Parser
    assume f: "4 * todo p + 2 \<le> Suc n"
    have "total_on (pbind (parsePrimary pf pt n) (\<lambda>l. parseAnd_loop pf pt n l)) p 1"
      by (rule total_pbind[OF Prim AndL]) (use f in auto)
    then show "total_on (parseAnd pf pt (Suc n)) p 1" by (simp add: total_on_def)
  next
    fix l and p :: Parser
    assume f: "4 * todo p + 1 \<le> Suc n"
    show "total_on (parseAnd_loop pf pt (Suc n) l) p 0"
    proof (cases "tk_Type (current p) = TokenAnd")
      case True
      then have h: "todo (advance p) + 1 = todo p" using not_eof_todo[of p] by simp
      have "total_on (pbind (parsePrimary pf pt n) (\<lambda>r. parseAnd_loop pf pt n (AndPredicate l r))) (advance p) 0"
        by (rule total_pbind[OF Prim AndL]) (use f h in linarith)+
      from total_shift0[OF this] True show ?thesis by simp
    next
      case False
      then show ?thesis by (intro total_return) simp
    qed
  next
    fix p :: Parser
    assume f: "4 * todo p + 1 \<le> Suc n"
    show "total_on (parsePrimary pf pt (Suc n)) p 1"
    proof (cases "tk_Type (current p) = TokenLParen")
      case False
      then have "parsePrimary pf pt (Suc n) p = parseLeaf pf pt p" by simp
      then show ?thesis using total_leaf[of pf pt p] by (simp add: total_on_def)
    next
      case True
      then have t: "todo p \<noteq> 0" using not_eof_todo[of p] by simp
      show ?thesis
      proof (cases "pa_depth p + 1 > 50")
        case True
        with \<open>tk_Type (current p) = TokenLParen\<close> show ?thesis by (intro total_perror) simp
      next
        case False
        let ?q = "advance (p\<lparr>pa_depth := pa_depth p + 1\<rparr>)"
        have close: "total_on (\<lambda>p1. pbind (expect TokenRParen) (\<lambda>_ p2. Inr (pred, p2))
            (p1\<lparr>pa_depth := pa_depth p1 - 1\<rparr>)) q 0" for pred and q :: Parser
        proof -
          have "total_on (pbind (expect TokenRParen) (\<lambda>_ p2. Inr (pred, p2)))
              (q\<lparr>pa_depth := pa_depth q - 1\<rparr>) 0"
            by (intro total0_pbind total_takes total0_return) simp
          then show ?thesis by (rule total_step[OF refl, where k = 0]) simp_all
        qed
        have q: "todo ?q + 1 = todo p" using t by simp
        have "total_on (pbind (parseOr pf pt n) (\<lambda>pred p1. pbind (expect TokenRParen) (\<lambda>_ p2. Inr (pred, p2))
            (p1\<lparr>pa_depth := pa_depth p1 - 1\<rparr>))) ?q 0"
          by (intro total_pbind[OF Or close]) (use f q in auto)
        then show ?thesis
          by (rule total_step[where k = 1, rotated]) (use True False q in simp_all)
      qed
    qed
  qed
qed

lemma total_context_loop: "todo p + 1 \<le> n \<Longrightarrow> total_on (parseContext_loop n ctxt) p 0"
proof (induction n arbitrary: ctxt p)
  case 0
  then show ?case by simp
next
  case (Suc n)
  let ?tok = "current p"
  consider "tk_Type ?tok = TokenRBracket \<or> tk_Type ?tok = TokenEOF"
    | "tk_Type ?tok = TokenString \<or> tk_Type ?tok = TokenIdent"
    | "tk_Type ?tok \<notin> {TokenRBracket, TokenEOF, TokenString, TokenIdent}" by auto
  then show ?case
  proof cases
    case 1
    then show ?thesis by (intro total_return) (simp add: Let_def)
  next
    case 2
    then have t: "todo (advance p) + 1 = todo p" using not_eof_todo[of p] by auto
    let ?q = "if tk_Type (current (advance p)) = TokenComma then advance (advance p) else advance p"
    have q: "todo ?q \<le> todo (advance p)" by (cases "tk_Type (current (advance p)) = TokenComma") simp_all
    have "total_on (parseContext_loop n (ctxt @ [tk_Value ?tok])) ?q 0"
      by (rule Suc.IH) (use Suc.prems t q in linarith)
    moreover have "parseContext_loop (Suc n) ctxt p = parseContext_loop n (ctxt @ [tk_Value ?tok]) ?q"
      using 2 by (auto simp: Let_def)
    moreover have "todo ?q + 0 \<le> todo p" using q t by linarith
    ultimately show ?thesis
      using total_step[where f = "parseContext_loop (Suc n) ctxt" and k = 0 and j = 0 and i = 0] by blast
  next
    case 3
    then have "parseContext_loop (Suc n) ctxt p =
        perror (MsgTok ''expected string or identifier in context, got'' (tk_Type ?tok)) p"
      by (simp add: Let_def)
    then show ?thesis by (rule total_perror)
  qed
qed

lemma total_contextList: "todo p + 1 \<le> n \<Longrightarrow> total_on (parseContextList n) p 0"
proof (cases "tk_Type (current p) = TokenLBracket")
  case False
  then show ?thesis by (intro total_perror) (simp add: parseContextList_def)
next
  case True
  assume n: "todo p + 1 \<le> n"
  let ?close = "\<lambda>ctxt. pbind (expect TokenRBracket) (\<lambda>_ p.
      if ctxt = [] then perror (Msg ''context list cannot be empty'') p else Inr (ctxt, p))"
  have c: "total_on (?close ctxt) q 0" for ctxt and q :: Parser
    by (intro total0_pbind total_takes) (auto simp: total_on_def perror_def)
  have "todo (advance p) + 1 \<le> n" using n by simp
  from total_context_loop[OF this]
  have "total_on (pbind (parseContext_loop n []) ?close) (advance p) 0"
    by (rule total_pbind[where k = 0 and j = 0]) (simp_all add: c)
  from total_shift0[OF this] True show ?thesis by (simp add: parseContextList_def)
qed

lemma total_clause:
  assumes "4 * todo p + 3 \<le> n"
  shows "total_on (parseClause pf pt n q) p 1"
proof (cases "tk_Type (current p) \<in> {TokenWhere, TokenMaxResults, TokenHops, TokenMinRelevance}")
  case False
  then have "parseClause pf pt n q p = perror (MsgVal ''unexpected in ACTIVATE clause'' (tk_Value (current p))) p"
    by (auto simp: parseClause_def split: TokenType.splits)
  then show ?thesis by (rule total_perror)
next
  case True
  then have ne: "tk_Type (current p) \<noteq> TokenEOF" by auto
  have "4 * todo (advance p) + 3 \<le> n" using assms by simp
  then have "total_on (parseOr pf pt n) (advance p) 1"
    using total_predicates[of n pf pt] by blast
  then have pred: "total_on (parsePredicate pf pt n) (advance p) 1"
    unfolding total_on_def parsePredicate_def .
  show ?thesis
    using True
  proof (elim insertE emptyE)
    assume "tk_Type (current p) = TokenWhere"
    then show ?thesis
      by (intro total0_shift[OF _ _ ne])
        (simp add: parseClause_def, intro total0_pbind pred total0_return)
  qed (intro total0_shift[OF _ _ ne], simp add: parseClause_def,
      intro total0_pbind total_takes total0_return, simp)+
qed

lemma total_clauses: "4 * todo p + 4 \<le> n \<Longrightarrow> total_on (parseClauses pf pt n q) p 0"
proof (induction n arbitrary: q p)
  case 0
  then show ?case by simp
next
  case (Suc n)
  show ?case
  proof (cases "tk_Type (current p) = TokenEOF")
    case True
    then show ?thesis by (intro total_return) simp
  next
    case False
    have fuel: "4 * todo p + 3 \<le> n" using Suc.prems by simp
    have "total_on (pbind (parseClause pf pt n q) (parseClauses pf pt n)) p 0"
    proof (rule total_pbind[where k = 1 and j = 0])
      show "total_on (parseClause pf pt n q) p 1" by (rule total_clause[OF fuel])
      fix q' and p' :: Parser
      assume "todo p' + 1 \<le> todo p"
      then show "total_on (parseClauses pf pt n q') p' 0"
        by (intro Suc.IH) (use fuel in linarith)
    qed simp
    then show ?thesis using False by (simp add: total_on_def)
  qed
qed

lemma total_at_end: "total_on (at_end what q) p 0"
  by (simp add: total_on_def at_end_def perror_def)

lemma total_option: "tt \<noteq> TokenEOF \<Longrightarrow> total_on (\<lambda>p. if tk_Type (current p) = tt'
    then take_conv conv tt r r' (advance p) else Inr (x, p)) p 0"
  using total_take_conv[of tt conv r r' "advance p"]
  by (auto simp: total_on_def)

lemma total_pbind_00: "total_on m p 0 \<Longrightarrow> (\<And>a p'. total_on (f a) p' 0) \<Longrightarrow> total_on (pbind m f) p 0"
  by (rule total_pbind) auto

lemma total_simple_queries:
  "total_on parseRecallEpisode p 0" "total_on (parseTraverse pf) p 0"
  "total_on parseConsolidate p 0" "total_on parseWorkingMemory p 0"
proof -
  have "total_on (\<lambda>p. parseRecallEpisode p) p 0"
    unfolding parseRecallEpisode_def
    by (intro total0_pbind total_takes total_pbind_00[OF total_option] total_at_end) simp_all
  then show "total_on parseRecallEpisode p 0" .
  have "total_on (\<lambda>p. parseTraverse pf p) p 0"
    unfolding parseTraverse_def
    by (intro total0_pbind total_takes total_pbind_00[OF total_option] total_at_end) simp_all
  then show "total_on (parseTraverse pf) p 0" .
  have tail: "total_on (\<lambda>p. let dry = (tk_Type (current p) = TokenDryRun)
       in at_end ''CONSOLIDATE'' \<lparr>cq_Vault = vault, cq_DryRun = dry\<rparr> (if dry then advance p else p)) q 0" for vault q
    by (auto simp: total_on_def at_end_def perror_def Let_def)
  have "total_on (\<lambda>p. parseConsolidate p) p 0"
    unfolding parseConsolidate_def
    by (intro total0_pbind total_takes tail) simp_all
  then show "total_on parseConsolidate p 0" .
  have "total_on (\<lambda>p. parseWorkingMemory p) p 0"
    unfolding parseWorkingMemory_def
    by (intro total0_pbind total_takes total_at_end) simp_all
  then show "total_on parseWorkingMemory p 0" .
qed

definition total_upto :: "nat \<Rightarrow> (Parser \<Rightarrow> 'a presult) \<Rightarrow> bool" where
  "total_upto T m \<longleftrightarrow> (\<forall>p. todo p \<le> T \<longrightarrow> total_on m p 0)"

lemma upto_pbind: "total_upto T m \<Longrightarrow> (\<And>a. total_upto T (f a)) \<Longrightarrow> total_upto T (pbind m f)"
  unfolding total_upto_def by (auto intro!: total_pbind[where k = 0 and j = 0])

lemma total_on_weaken: "total_on m p k \<Longrightarrow> total_on m p 0"
  by (fastforce simp: total_on_def)

lemma upto_expect: "tt \<noteq> TokenEOF \<Longrightarrow> total_upto T (expect tt)"
  unfolding total_upto_def by (blast intro: total_on_weaken total_expect)

lemma upto_take_value: "TokenEOF \<notin> set tts \<Longrightarrow> total_upto T (take_value tts r)"
  unfolding total_upto_def by (blast intro: total_on_weaken total_take_value)

lemma upto_context: "T + 1 \<le> n \<Longrightarrow> total_upto T (parseContextList n)"
  unfolding total_upto_def by (auto intro: total_contextList)

lemma upto_clauses: "4 * T + 4 \<le> n \<Longrightarrow> total_upto T (parseClauses pf pt n q)"
  unfolding total_upto_def by (auto intro!: total_clauses)

lemma total_activate:
  assumes "4 * todo p + 4 \<le> n"
  shows "total_on (parseActivate pf pt n) p 0"
proof -
  have "total_upto (todo p) (\<lambda>p. parseActivate pf pt n p)"
    unfolding parseActivate_def
    by (intro upto_pbind upto_expect upto_take_value upto_context upto_clauses) (use assms in simp_all)
  then show ?thesis by (simp add: total_upto_def)
qed

lemma wrap_fuel: "wrap f r = Inl OutOfFuel \<longleftrightarrow> r = Inl OutOfFuel"
  by (cases r) (auto simp: wrap_def)

lemma Parse_from_total:
  assumes "4 * todo p + 4 \<le> n"
  shows "Parse_from pf pt n p \<noteq> Inl OutOfFuel"
  using total_activate[OF assms, of pf pt] total_simple_queries(1,3,4)[of p] total_simple_queries(2)[of pf p]
  by (auto simp: Parse_from_def wrap_fuel total_on_def perror_def split: TokenType.split)

lemma Parse_tokens_total: "Parse_tokens pf pt tokens \<noteq> Inl OutOfFuel"
proof -
  have "4 * todo (NewParser tokens) + 4 \<le> parse_fuel tokens"
    by (simp add: NewParser_def rest_def parse_fuel_def)
  from Parse_from_total[OF this, of pf pt] show ?thesis
    by (cases "Parse_from pf pt (parse_fuel tokens) (NewParser tokens)") (auto simp: Parse_tokens_def)
qed

end
