(* ===== verification/Mql_Lexer_Props.thy ===== *)
theory Mql_Lexer_Props
  imports Mql_Lexer
begin

text \<open>
  The lexer inverts printing: a list of tokens written out with a space after each is read back
  as the same types and values.  This is the part of the parser's round trip that concerns
  characters, and the place where the treatment of bytes as runes shows.
\<close>

section \<open>Printing tokens\<close>

definition ascii :: "char \<Rightarrow> bool" where
  "ascii c \<longleftrightarrow> code c < 128 \<and> c \<noteq> CHR 0x00"

definition esc_char :: "char \<Rightarrow> string" where
  "esc_char c = (if c = CHR 0x22 \<or> c = CHR 0x5C then [CHR 0x5C, c] else [c])"

definition quote_string :: "string \<Rightarrow> string" where
  "quote_string s = CHR 0x22 # concat (map esc_char s) @ [CHR 0x22]"

definition token_text :: "TokenType \<times> string \<Rightarrow> string" where
  "token_text tv = (if fst tv = TokenString then quote_string (snd tv) else snd tv)"

definition unlex :: "(TokenType \<times> string) list \<Rightarrow> string" where
  "unlex tvs = concat (map (\<lambda>tv. token_text tv @ '' '') tvs)"

definition ident_char :: "char \<Rightarrow> bool" where
  "ident_char c \<longleftrightarrow> ascii c \<and> (IsLetter c \<or> IsDigit c \<or> c = CHR ''_'')"

fun ident_form :: "string \<Rightarrow> bool" where
  "ident_form [] = False"
| "ident_form (c # cs) \<longleftrightarrow> ascii c \<and> (IsLetter c \<or> c = CHR ''_'') \<and> list_all ident_char cs"

definition number_form :: "string \<Rightarrow> bool" where
  "number_form v \<longleftrightarrow> (\<exists>ds es. ds \<noteq> [] \<and> list_all IsDigit ds \<and> list_all IsDigit es \<and>
     (v = ds \<or> es \<noteq> [] \<and> v = ds @ ''.'' @ es))"

definition token_ok :: "TokenType \<times> string \<Rightarrow> bool" where
  "token_ok tv \<longleftrightarrow> (case tv of (ty, v) \<Rightarrow>
     ty = TokenString \<and> list_all ascii v \<or>
     ty = TokenNumber \<and> number_form v \<or>
     ty = TokenGT \<and> v = ''>'' \<or> ty = TokenGTE \<and> v = ''>='' \<or>
     (\<exists>c. map_of punctuation c = Some ty \<and> v = [c]) \<or>
     ident_form v \<and> lookupKeyword v = ty)"

section \<open>Reading what was printed\<close>

lemma WriteRune_ascii [simp]: "ascii c \<Longrightarrow> WriteRune c = [c]"
  by (simp add: WriteRune_def ascii_def)

lemma drop_add_at: "drop p xs = ys @ zs \<Longrightarrow> drop (p + length ys) xs = zs"
  by (metis add.commute append_eq_conv_conj drop_drop)

lemma escape_ascii: "c = CHR 0x22 \<or> c = CHR 0x5C \<Longrightarrow> escape c = [c]"
  by (auto simp: escape_def)

lemma esc_char_cases:
  "c = CHR 0x22 \<or> c = CHR 0x5C \<Longrightarrow> esc_char c = [CHR 0x5C, c]"
  "\<not> (c = CHR 0x22 \<or> c = CHR 0x5C) \<Longrightarrow> esc_char c = [c]"
  by (auto simp: esc_char_def)

lemma readString_loop_at:
  "list_all ascii s \<Longrightarrow> drop p xs = concat (map esc_char s) @ CHR 0x22 # rest \<Longrightarrow>
   readString_loop (lex_at xs p) = (s, lex_at xs (p + length (concat (map esc_char s))))"
proof (induction s arbitrary: p)
  case Nil
  then show ?case by (subst readString_loop.simps) (simp add: ch_at)
next
  case (Cons c s)
  show ?case
  proof (cases "c = CHR 0x22 \<or> c = CHR 0x5C")
    case True
    then have d: "drop p xs = CHR 0x5C # c # concat (map esc_char s) @ CHR 0x22 # rest"
      using Cons.prems(2) by (simp add: esc_char_cases)
    note d1 = drop_Suc_at[OF d]
    note d2 = drop_Suc_at[OF d1]
    have IH: "readString_loop (lex_at xs (Suc (Suc p))) =
        (s, lex_at xs (Suc (Suc p) + length (concat (map esc_char s))))"
      using Cons.prems(1) d2 by (intro Cons.IH) auto
    show ?thesis
      by (subst readString_loop.simps)
        (use True in \<open>simp add: ch_at[OF d] ch_at[OF d1] IH escape_ascii esc_char_cases\<close>)
  next
    case False
    then have d: "drop p xs = c # concat (map esc_char s) @ CHR 0x22 # rest"
      using Cons.prems(2) by (simp add: esc_char_cases)
    note d1 = drop_Suc_at[OF d]
    have IH: "readString_loop (lex_at xs (Suc p)) =
        (s, lex_at xs (Suc p + length (concat (map esc_char s))))"
      using Cons.prems(1) d1 by (intro Cons.IH) auto
    have "ascii c" using Cons.prems(1) by simp
    moreover from this have "c \<noteq> CHR 0x00" by (simp add: ascii_def)
    ultimately show ?thesis
      by (subst readString_loop.simps)
        (use False in \<open>simp add: ch_at[OF d] IH esc_char_cases\<close>)
  qed
qed

lemma readString_at:
  assumes "list_all ascii s" "drop p xs = quote_string s @ rest"
  shows "readString (lex_at xs p) = (s, lex_at xs (p + length (quote_string s)))"
proof -
  let ?e = "concat (map esc_char s)"
  have d: "drop p xs = CHR 0x22 # ?e @ CHR 0x22 # rest" using assms(2) by (simp add: quote_string_def)
  note d1 = drop_Suc_at[OF d]
  have loop: "readString_loop (lex_at xs (Suc p)) = (s, lex_at xs (Suc p + length ?e))"
    by (rule readString_loop_at[OF assms(1) d1])
  have "drop (Suc p + length ?e) xs = CHR 0x22 # rest" by (rule drop_add_at[OF d1])
  from ch_at[OF this] show ?thesis
    by (simp add: readString_def loop quote_string_def)
qed

lemma readDigits_at:
  "list_all IsDigit ds \<Longrightarrow> drop p xs = ds @ c # rest \<Longrightarrow> \<not> IsDigit c \<Longrightarrow>
   readDigits (lex_at xs p) = (ds, lex_at xs (p + length ds))"
proof (induction ds arbitrary: p)
  case Nil
  then show ?case by (subst readDigits.simps) (simp add: ch_at)
next
  case (Cons d ds)
  then have dr: "drop p xs = d # ds @ c # rest" by simp
  have "readDigits (lex_at xs (Suc p)) = (ds, lex_at xs (Suc p + length ds))"
    using Cons.prems drop_Suc_at[OF dr] by (intro Cons.IH) auto
  moreover have "IsDigit d" "ascii d" using Cons.prems(1) by (auto simp: IsDigit_def ascii_def)
  ultimately show ?case by (subst readDigits.simps) (simp add: ch_at[OF dr])
qed

lemma readIdent_at:
  "list_all ident_char v \<Longrightarrow> drop p xs = v @ c # rest \<Longrightarrow> \<not> (IsLetter c \<or> IsDigit c \<or> c = CHR ''_'') \<Longrightarrow>
   readIdent (lex_at xs p) = (v, lex_at xs (p + length v))"
proof (induction v arbitrary: p)
  case Nil
  then show ?case by (subst readIdent.simps) (simp add: ch_at)
next
  case (Cons d v)
  then have dr: "drop p xs = d # v @ c # rest" by simp
  have "readIdent (lex_at xs (Suc p)) = (v, lex_at xs (Suc p + length v))"
    using Cons.prems drop_Suc_at[OF dr] by (intro Cons.IH) auto
  moreover have "IsLetter d \<or> IsDigit d \<or> d = CHR ''_''" "ascii d"
    using Cons.prems(1) by (auto simp: ident_char_def)
  ultimately show ?case by (subst readIdent.simps) (auto simp add: ch_at[OF dr])
qed

lemma space_not_class: "\<not> IsDigit CHR '' ''" "\<not> IsLetter CHR '' ''" "IsSpace CHR '' ''"
  by (simp_all add: IsDigit_def IsLetter_def IsSpace_def)

lemma dot_not_digit: "\<not> IsDigit CHR ''.''"
  by (simp add: IsDigit_def)

lemma readNumber_at:
  assumes "number_form v" "drop p xs = v @ CHR '' '' # rest"
  shows "readNumber (lex_at xs p) = (v, lex_at xs (p + length v))"
proof -
  from assms(1) obtain ds es where ds: "ds \<noteq> []" "list_all IsDigit ds" "list_all IsDigit es"
    and v: "v = ds \<or> es \<noteq> [] \<and> v = ds @ ''.'' @ es" by (auto simp: number_form_def)
  from v show ?thesis
  proof
    assume "v = ds"
    with assms(2) have d: "drop p xs = ds @ CHR '' '' # rest" by simp
    have "readDigits (lex_at xs p) = (ds, lex_at xs (p + length ds))"
      by (rule readDigits_at[OF ds(2) d space_not_class(1)])
    moreover have "lx_ch (lex_at xs (p + length ds)) = CHR '' ''"
      by (rule ch_at[OF drop_add_at[OF d]])
    ultimately show ?thesis using \<open>v = ds\<close> by (simp add: readNumber_def)
  next
    assume "es \<noteq> [] \<and> v = ds @ ''.'' @ es"
    then obtain e es' where es: "es = e # es'" and v: "v = ds @ ''.'' @ es" by (cases es) auto
    with assms(2) have d: "drop p xs = ds @ CHR ''.'' # es @ CHR '' '' # rest" by simp
    have 1: "readDigits (lex_at xs p) = (ds, lex_at xs (p + length ds))"
      by (rule readDigits_at[OF ds(2) d dot_not_digit])
    let ?q = "p + length ds"
    have dq: "drop ?q xs = CHR ''.'' # es @ CHR '' '' # rest" by (rule drop_add_at[OF d])
    have 2: "readDigits (lex_at xs (Suc ?q)) = (es, lex_at xs (Suc ?q + length es))"
      by (rule readDigits_at[OF ds(3) drop_Suc_at[OF dq] space_not_class(1)])
    have "peekChar (lex_at xs ?q) = e"
      using dq es by (intro peek_at) simp
    moreover have "IsDigit e" using ds(3) es by simp
    ultimately show ?thesis
      using 1 2 ch_at[OF dq] v by (simp add: readNumber_def WriteRune_def add.assoc)
  qed
qed

section \<open>One token\<close>

definition token_start :: "char \<Rightarrow> bool" where
  "token_start c \<longleftrightarrow> ascii c \<and> \<not> IsSpace c \<and> c \<noteq> CHR ''-''"

lemma skipWhitespace_token:
  assumes "token_start (lx_ch l)"
  shows "skipWhitespace l = l"
  using assms by (subst skipWhitespace.simps) (auto simp: token_start_def ascii_def)

lemma skipWhitespace_space: "IsSpace (lx_ch l) \<Longrightarrow> skipWhitespace l = skipWhitespace (readChar l)"
  using class_not_NUL(3) by (subst skipWhitespace.simps) auto

lemma punctuation_cases: "map_of punctuation c = Some ty \<Longrightarrow>
    (c, ty) \<in> {(CHR ''='', TokenEQ), (CHR ''('', TokenLParen), (CHR '')'', TokenRParen),
     (CHR ''['', TokenLBracket), (CHR '']'', TokenRBracket), (CHR '','', TokenComma),
     (CHR ''.'', TokenDot)}"
  by (drule map_of_SomeD) (simp add: punctuation_def)

lemma not_punctuation: "IsLetter c \<or> IsDigit c \<or> c = CHR ''_'' \<or> c = CHR 0x22 \<Longrightarrow> map_of punctuation c = None"
proof (rule ccontr)
  assume c: "IsLetter c \<or> IsDigit c \<or> c = CHR ''_'' \<or> c = CHR 0x22" "map_of punctuation c \<noteq> None"
  then obtain ty where "map_of punctuation c = Some ty" by blast
  from punctuation_cases[OF this] c(1) show False
    by (auto simp: IsLetter_def IsDigit_def)
qed

lemma ident_not_other: "IsLetter c \<or> c = CHR ''_'' \<Longrightarrow>
    c \<noteq> CHR 0x00 \<and> c \<noteq> CHR ''>'' \<and> c \<noteq> CHR 0x22 \<and> \<not> IsDigit c \<and> \<not> IsSpace c \<and> c \<noteq> CHR ''-''"
  by (auto simp: IsLetter_def IsDigit_def IsSpace_def)

lemma digit_not_other: "IsDigit c \<Longrightarrow>
    ascii c \<and> c \<noteq> CHR 0x00 \<and> c \<noteq> CHR ''>'' \<and> c \<noteq> CHR 0x22 \<and> \<not> IsSpace c \<and> c \<noteq> CHR ''-''"
  by (auto simp: IsDigit_def IsSpace_def ascii_def)

text \<open>The lexer on the text of a token that is followed by a space.\<close>

lemma lex_value_at:
  assumes ok: "token_ok tv" and d: "drop p xs = token_text tv @ CHR '' '' # rest"
  shows "lex_value (lex_at xs p) = (tv, lex_at xs (p + length (token_text tv))) \<and>
    token_start (lx_ch (lex_at xs p))"
proof -
  obtain ty v where tv: "tv = (ty, v)" by fastforce
  from ok tv consider (str) "ty = TokenString" "list_all ascii v"
    | (num) "ty = TokenNumber" "number_form v"
    | (gt) "ty = TokenGT" "v = ''>''" | (gte) "ty = TokenGTE" "v = ''>=''"
    | (punct) c where "map_of punctuation c = Some ty" "v = [c]"
    | (ident) "ident_form v" "lookupKeyword v = ty"
    by (auto simp: token_ok_def)
  then show ?thesis
  proof cases
    case str
    with d tv have dq: "drop p xs = quote_string v @ CHR '' '' # rest" by (simp add: token_text_def)
    then have ch: "lx_ch (lex_at xs p) = CHR 0x22" by (intro ch_at) (simp add: quote_string_def)
    have "token_start CHR 0x22" by (simp add: token_start_def ascii_def IsSpace_def)
    with readString_at[OF str(2) dq] str tv ch show ?thesis
      by (simp add: lex_value_def token_text_def not_punctuation)
  next
    case num
    with d tv have dv: "drop p xs = v @ CHR '' '' # rest" by (simp add: token_text_def)
    from num(2) obtain c v' where v: "v = c # v'" "IsDigit c"
      by (auto simp: number_form_def neq_Nil_conv)
    with dv have ch: "lx_ch (lex_at xs p) = c" by (intro ch_at) simp
    from readNumber_at[OF num(2) dv] num tv ch v(2) digit_not_other[OF v(2)] show ?thesis
      by (simp add: lex_value_def token_text_def not_punctuation token_start_def)
  next
    case gt
    with d tv have d: "drop p xs = CHR ''>'' # CHR '' '' # rest" by (simp add: token_text_def)
    from ch_at[OF d] peek_at[OF d] gt tv show ?thesis
      by (simp add: lex_value_def token_text_def token_start_def ascii_def IsSpace_def)
  next
    case gte
    with d tv have d: "drop p xs = CHR ''>'' # CHR ''='' # CHR '' '' # rest" by (simp add: token_text_def)
    from ch_at[OF d] peek_at[OF d] gte tv show ?thesis
      by (simp add: lex_value_def token_text_def token_start_def ascii_def IsSpace_def)
  next
    case punct
    then have ty: "ty \<noteq> TokenString" using punctuation_cases by fastforce
    with d tv punct have d: "drop p xs = c # CHR '' '' # rest" by (simp add: token_text_def)
    from punctuation_cases[OF punct(1)] have "c \<noteq> CHR 0x00 \<and> c \<noteq> CHR ''>'' \<and> token_start c"
      by (auto simp: token_start_def ascii_def IsSpace_def)
    with ch_at[OF d] punct tv ty show ?thesis by (simp add: lex_value_def token_text_def)
  next
    case ident
    have "(k, TokenString) \<notin> set keyword_table" for k by (simp add: keyword_table_def)
    then have "lookupKeyword v \<noteq> TokenString"
      by (auto simp: lookupKeyword_def split: option.split dest: map_of_SomeD)
    with ident have ty: "ty \<noteq> TokenString" by simp
    with d tv have dv: "drop p xs = v @ CHR '' '' # rest" by (simp add: token_text_def)
    from ident(1) obtain c v' where v: "v = c # v'" "IsLetter c \<or> c = CHR ''_''" "ascii c"
      by (cases v) auto
    have all: "list_all ident_char v" using ident(1) v by (auto simp: ident_char_def)
    have rd: "readIdent (lex_at xs p) = (v, lex_at xs (p + length v))"
      by (rule readIdent_at[OF all dv]) (simp add: space_not_class)
    have ch: "lx_ch (lex_at xs p) = c" using dv v by (intro ch_at) simp
    from rd ch v(2,3) ident_not_other[OF v(2)] ident(2) tv ty show ?thesis
      by (auto simp: lex_value_def token_text_def not_punctuation token_start_def)
  qed
qed

lemma NextToken_at:
  assumes "token_ok tv" "drop p xs = token_text tv @ CHR '' '' # rest"
  shows "NextToken (lex_at xs p) =
    (\<lparr>tk_Type = fst tv, tk_Value = snd tv, tk_Pos = int p\<rparr>, lex_at xs (p + length (token_text tv)))"
  using lex_value_at[OF assms] skipWhitespace_token[of "lex_at xs p"]
  by (simp add: NextToken_def split: prod.splits)

lemma NextToken_space:
  "drop p xs = CHR '' '' # rest \<Longrightarrow> NextToken (lex_at xs p) = NextToken (lex_at xs (Suc p))"
  using ch_at[of p xs "CHR '' ''" rest] skipWhitespace_space[of "lex_at xs p"] space_not_class(3)
  by (simp add: NextToken_def)

lemma Tokenize_loop_space:
  "drop p xs = CHR '' '' # rest \<Longrightarrow> Tokenize_loop (lex_at xs p) = Tokenize_loop (lex_at xs (Suc p))"
  using NextToken_space[of p xs rest]
  by (simp only: Tokenize_loop.simps[of "lex_at xs p"] Tokenize_loop.simps[of "lex_at xs (Suc p)"])

definition tv_of :: "Token \<Rightarrow> TokenType \<times> string" where
  "tv_of t = (tk_Type t, tk_Value t)"

lemma Tokenize_unlex:
  "list_all token_ok tvs \<Longrightarrow> drop p xs = unlex tvs \<Longrightarrow>
   map tv_of (Tokenize_loop (lex_at xs p)) = tvs @ [(TokenEOF, '''')]"
proof (induction tvs arbitrary: p)
  case Nil
  then have ch: "lx_ch (lex_at xs p) = CHR 0x00" by (intro ch_end) (simp add: unlex_def)
  then have "skipWhitespace (lex_at xs p) = lex_at xs p" by (subst skipWhitespace.simps) simp
  with ch show ?case
    by (subst Tokenize_loop.simps) (simp add: NextToken_def lex_value_def tv_of_def)
next
  case (Cons tv tvs)
  have d: "drop p xs = token_text tv @ CHR '' '' # unlex tvs"
    using Cons.prems(2) by (simp add: unlex_def)
  have ok: "token_ok tv" using Cons.prems(1) by simp
  let ?q = "p + length (token_text tv)"
  have dq: "drop ?q xs = CHR '' '' # unlex tvs" by (rule drop_add_at[OF d])
  have "map tv_of (Tokenize_loop (lex_at xs (Suc ?q))) = tvs @ [(TokenEOF, '''')]"
    using Cons.prems(1) drop_Suc_at[OF dq] by (intro Cons.IH) simp_all
  moreover have "fst tv \<noteq> TokenEOF"
    using ok lookupKeyword_not_EOF punctuation_cases by (fastforce simp: token_ok_def)
  ultimately show ?case
    using Tokenize_loop_space[OF dq]
    by (subst Tokenize_loop.simps) (simp add: NextToken_at[OF ok d] tv_of_def)
qed

end
