(* ===== verification/Mql_Print.thy ===== *)
theory Mql_Print
  imports Mql_Parser Mql_Lexer_Props
begin

text \<open>
  A printer for the query language and its correctness: what is printed parses back to the same
  query.  The printer writes parentheses only where the precedence of AND over OR and the left
  association of both need them.  The fuel of the parser is handled by \<open>good\<close>: a result that is
  obtained with every large enough fuel; fuel that does not run out gives that same result.
\<close>

section \<open>More fuel changes nothing\<close>

lemma pbind_stable:
  assumes "pbind m f p \<noteq> Inl OutOfFuel"
    and "m p \<noteq> Inl OutOfFuel \<Longrightarrow> m' p = m p"
    and "\<And>a q. f a q \<noteq> Inl OutOfFuel \<Longrightarrow> f' a q = f a q"
  shows "pbind m' f' p = pbind m f p"
proof (cases "m p")
  case (Inl e)
  with assms(1) have "m p \<noteq> Inl OutOfFuel" by (auto simp: pbind_def)
  from assms(2)[OF this] Inl show ?thesis by (simp add: pbind_def)
next
  case (Inr x)
  then obtain a q where x: "m p = Inr (a, q)" by (cases x) auto
  with assms(1) have "f a q \<noteq> Inl OutOfFuel" by (simp add: pbind_def)
  with assms(2,3) x show ?thesis by (simp add: pbind_def)
qed

lemma predicates_stable:
  "(\<forall>p. parseOr pf pt n p \<noteq> Inl OutOfFuel \<longrightarrow> parseOr pf pt (Suc n) p = parseOr pf pt n p) \<and>
   (\<forall>l p. parseOr_loop pf pt n l p \<noteq> Inl OutOfFuel \<longrightarrow> parseOr_loop pf pt (Suc n) l p = parseOr_loop pf pt n l p) \<and>
   (\<forall>p. parseAnd pf pt n p \<noteq> Inl OutOfFuel \<longrightarrow> parseAnd pf pt (Suc n) p = parseAnd pf pt n p) \<and>
   (\<forall>l p. parseAnd_loop pf pt n l p \<noteq> Inl OutOfFuel \<longrightarrow> parseAnd_loop pf pt (Suc n) l p = parseAnd_loop pf pt n l p) \<and>
   (\<forall>p. parsePrimary pf pt n p \<noteq> Inl OutOfFuel \<longrightarrow> parsePrimary pf pt (Suc n) p = parsePrimary pf pt n p)"
proof (induction n)
  case 0
  then show ?case by simp
next
  case (Suc n)
  then have Or: "\<And>p. parseOr pf pt n p \<noteq> Inl OutOfFuel \<Longrightarrow> parseOr pf pt (Suc n) p = parseOr pf pt n p"
    and OrL: "\<And>l p. parseOr_loop pf pt n l p \<noteq> Inl OutOfFuel \<Longrightarrow> parseOr_loop pf pt (Suc n) l p = parseOr_loop pf pt n l p"
    and And: "\<And>p. parseAnd pf pt n p \<noteq> Inl OutOfFuel \<Longrightarrow> parseAnd pf pt (Suc n) p = parseAnd pf pt n p"
    and AndL: "\<And>l p. parseAnd_loop pf pt n l p \<noteq> Inl OutOfFuel \<Longrightarrow> parseAnd_loop pf pt (Suc n) l p = parseAnd_loop pf pt n l p"
    and Prim: "\<And>p. parsePrimary pf pt n p \<noteq> Inl OutOfFuel \<Longrightarrow> parsePrimary pf pt (Suc n) p = parsePrimary pf pt n p"
    by auto
  show ?case
  proof (intro conjI allI impI)
    fix p
    assume h: "parseOr pf pt (Suc n) p \<noteq> Inl OutOfFuel"
    show "parseOr pf pt (Suc (Suc n)) p = parseOr pf pt (Suc n) p"
      unfolding parseOr.simps(2)
      by (rule pbind_stable[OF h[unfolded parseOr.simps(2)]]) (auto dest: And OrL)
  next
    fix l p
    assume h: "parseOr_loop pf pt (Suc n) l p \<noteq> Inl OutOfFuel"
    show "parseOr_loop pf pt (Suc (Suc n)) l p = parseOr_loop pf pt (Suc n) l p"
      unfolding parseOr_loop.simps(2)
      by (rule if_cong[OF refl _ refl], rule pbind_stable)
        (use h in \<open>auto dest: And OrL simp del: parseOr_loop.simps parseAnd.simps simp: parseOr_loop.simps(2)[of pf pt n]\<close>)
  next
    fix p
    assume h: "parseAnd pf pt (Suc n) p \<noteq> Inl OutOfFuel"
    show "parseAnd pf pt (Suc (Suc n)) p = parseAnd pf pt (Suc n) p"
      unfolding parseAnd.simps(2)
      by (rule pbind_stable[OF h[unfolded parseAnd.simps(2)]]) (auto dest: Prim AndL)
  next
    fix l p
    assume h: "parseAnd_loop pf pt (Suc n) l p \<noteq> Inl OutOfFuel"
    show "parseAnd_loop pf pt (Suc (Suc n)) l p = parseAnd_loop pf pt (Suc n) l p"
      unfolding parseAnd_loop.simps(2)
      by (rule if_cong[OF refl _ refl], rule pbind_stable)
        (use h in \<open>auto dest: Prim AndL simp del: parseAnd_loop.simps parsePrimary.simps simp: parseAnd_loop.simps(2)[of pf pt n]\<close>)
  next
    fix p
    assume h: "parsePrimary pf pt (Suc n) p \<noteq> Inl OutOfFuel"
    show "parsePrimary pf pt (Suc (Suc n)) p = parsePrimary pf pt (Suc n) p"
      unfolding parsePrimary.simps(2)
      by (rule if_cong[OF refl _ refl], rule if_cong[OF refl refl], rule pbind_stable)
        (use h in \<open>auto dest: Or simp del: parsePrimary.simps parseOr.simps simp: parsePrimary.simps(2)[of pf pt n]\<close>)
  qed
qed

lemma context_loop_stable:
  "parseContext_loop n ctxt p \<noteq> Inl OutOfFuel \<Longrightarrow> parseContext_loop (Suc n) ctxt p = parseContext_loop n ctxt p"
proof (induction n arbitrary: ctxt p)
  case 0
  then show ?case by simp
next
  case (Suc n)
  let ?tok = "current p"
  let ?q = "if tk_Type (current (advance p)) = TokenComma then advance (advance p) else advance p"
  show ?case
  proof (cases "tk_Type ?tok = TokenString \<or> tk_Type ?tok = TokenIdent")
    case True
    then have eq: "parseContext_loop (Suc m) ctxt p = parseContext_loop m (ctxt @ [tk_Value ?tok]) ?q" for m
      by (auto simp: Let_def)
    show ?thesis
      unfolding eq by (rule Suc.IH) (use Suc.prems in \<open>simp only: eq not_False_eq_True\<close>)
  next
    case False
    then show ?thesis by (simp add: Let_def)
  qed
qed

lemma contextList_stable:
  "parseContextList n p \<noteq> Inl OutOfFuel \<Longrightarrow> parseContextList (Suc n) p = parseContextList n p"
  unfolding parseContextList_def
  by (rule if_cong[OF refl refl], rule pbind_stable) (auto dest: context_loop_stable)

lemma clause_stable:
  assumes "parseClause pf pt n q p \<noteq> Inl OutOfFuel"
  shows "parseClause pf pt (Suc n) q p = parseClause pf pt n q p"
proof (cases "tk_Type (current p) = TokenWhere")
  case True
  have "pbind (parsePredicate pf pt (Suc n)) (\<lambda>pred p. Inr (q\<lparr>aq_Where := Some pred\<rparr>, p)) (advance p) =
      pbind (parsePredicate pf pt n) (\<lambda>pred p. Inr (q\<lparr>aq_Where := Some pred\<rparr>, p)) (advance p)"
    by (rule pbind_stable)
      (use assms True predicates_stable[of pf pt n] in \<open>auto simp: parseClause_def parsePredicate_def\<close>)
  with True show ?thesis by (simp add: parseClause_def)
next
  case False
  then show ?thesis by (simp add: parseClause_def split: TokenType.split)
qed

lemma clauses_stable:
  "parseClauses pf pt n q p \<noteq> Inl OutOfFuel \<Longrightarrow> parseClauses pf pt (Suc n) q p = parseClauses pf pt n q p"
proof (induction n arbitrary: q p)
  case 0
  then show ?case by simp
next
  case (Suc n)
  show ?case
    unfolding parseClauses.simps(2)
    by (rule if_cong[OF refl _ refl], rule pbind_stable)
      (use Suc.prems in \<open>auto dest: clause_stable Suc.IH simp del: parseClauses.simps
        simp: parseClauses.simps(2)[of pf pt n]\<close>)
qed

lemma activate_stable:
  "parseActivate pf pt n p \<noteq> Inl OutOfFuel \<Longrightarrow> parseActivate pf pt (Suc n) p = parseActivate pf pt n p"
  unfolding parseActivate_def
  by (intro pbind_stable refl) (assumption | rule contextList_stable clauses_stable refl)+

lemma Parse_from_stable:
  "Parse_from pf pt n p \<noteq> Inl OutOfFuel \<Longrightarrow> Parse_from pf pt (Suc n) p = Parse_from pf pt n p"
  using activate_stable[of pf pt n p]
  by (auto simp: Parse_from_def wrap_fuel split: TokenType.split)

lemma Parse_from_stable_le:
  assumes "Parse_from pf pt n p \<noteq> Inl OutOfFuel" "n \<le> m"
  shows "Parse_from pf pt m p = Parse_from pf pt n p"
  using assms(2)
proof (induction m rule: dec_induct)
  case base
  then show ?case by simp
next
  case (step m)
  with assms(1) Parse_from_stable[of pf pt m p] show ?case by simp
qed

section \<open>Results with enough fuel\<close>

definition good :: "(nat \<Rightarrow> Parser \<Rightarrow> 'a presult) \<Rightarrow> Parser \<Rightarrow> 'a \<Rightarrow> Parser \<Rightarrow> bool" where
  "good m p a q \<longleftrightarrow> (\<exists>n0. \<forall>n \<ge> n0. m n p = Inr (a, q))"

lemma good_const: "m p = Inr (a, q) \<Longrightarrow> good (\<lambda>n. m) p a q"
  by (simp add: good_def)

lemma good_pbind:
  assumes "good m p a q" "good (\<lambda>n. f n a) q b r"
  shows "good (\<lambda>n. pbind (m n) (f n)) p b r"
proof -
  from assms obtain n1 n2 where "\<forall>n \<ge> n1. m n p = Inr (a, q)" "\<forall>n \<ge> n2. f n a q = Inr (b, r)"
    by (auto simp: good_def)
  then have "\<forall>n \<ge> max n1 n2. pbind (m n) (f n) p = Inr (b, r)" by (simp add: pbind_def)
  then show ?thesis unfolding good_def by (rule exI)
qed

lemma good_Suc:
  assumes "good m p a q" "\<And>n. m' (Suc n) p' = m n p"
  shows "good m' p' a q"
proof -
  from assms(1) obtain n0 where n0: "\<forall>n \<ge> n0. m n p = Inr (a, q)" by (auto simp: good_def)
  have "m' n p' = Inr (a, q)" if "n \<ge> Suc n0" for n
    using that n0 assms(2) by (cases n) auto
  then show ?thesis by (auto simp: good_def)
qed

lemma good_eq: "good m p a q \<Longrightarrow> (\<And>n. m' n p' = m n p) \<Longrightarrow> good m' p' a q"
  by (simp add: good_def)

lemma good_Or:
  assumes "good (parseAnd pf pt) p l q" "good (\<lambda>n. parseOr_loop pf pt n l) q a r"
  shows "good (parseOr pf pt) p a r"
  by (rule good_Suc[OF good_pbind[OF assms(1), where f = "\<lambda>n l. parseOr_loop pf pt n l", OF assms(2)]]) simp

lemma good_Or_loop:
  assumes "tk_Type (current p) = TokenOr" "good (parseAnd pf pt) (advance p) r q"
    and "good (\<lambda>n. parseOr_loop pf pt n (OrPredicate l r)) q a s"
  shows "good (\<lambda>n. parseOr_loop pf pt n l) p a s"
  by (rule good_Suc[OF good_pbind[OF assms(2), where f = "\<lambda>n r. parseOr_loop pf pt n (OrPredicate l r)"]])
    (use assms in simp_all)

lemma good_Or_stop:
  assumes "tk_Type (current p) \<noteq> TokenOr"
  shows "good (\<lambda>n. parseOr_loop pf pt n l) p l p"
proof -
  have "good (\<lambda>n p. Inr (l, p)) p l p" by (simp add: good_def)
  then show ?thesis by (rule good_Suc) (simp add: assms)
qed

lemma good_And:
  assumes "good (parsePrimary pf pt) p l q" "good (\<lambda>n. parseAnd_loop pf pt n l) q a r"
  shows "good (parseAnd pf pt) p a r"
  by (rule good_Suc[OF good_pbind[OF assms(1), where f = "\<lambda>n l. parseAnd_loop pf pt n l", OF assms(2)]]) simp

lemma good_And_loop:
  assumes "tk_Type (current p) = TokenAnd" "good (parsePrimary pf pt) (advance p) r q"
    and "good (\<lambda>n. parseAnd_loop pf pt n (AndPredicate l r)) q a s"
  shows "good (\<lambda>n. parseAnd_loop pf pt n l) p a s"
  by (rule good_Suc[OF good_pbind[OF assms(2), where f = "\<lambda>n r. parseAnd_loop pf pt n (AndPredicate l r)"]])
    (use assms in simp_all)

lemma good_And_stop:
  assumes "tk_Type (current p) \<noteq> TokenAnd"
  shows "good (\<lambda>n. parseAnd_loop pf pt n l) p l p"
proof -
  have "good (\<lambda>n p. Inr (l, p)) p l p" by (simp add: good_def)
  then show ?thesis by (rule good_Suc) (simp add: assms)
qed

lemma good_paren:
  assumes "tk_Type (current p) = TokenLParen" "pa_depth p < 50"
    and "good (parseOr pf pt) (advance (p\<lparr>pa_depth := pa_depth p + 1\<rparr>)) a q"
    and "tk_Type (current q) = TokenRParen"
  shows "good (parsePrimary pf pt) p a (advance (q\<lparr>pa_depth := pa_depth q - 1\<rparr>))"
proof -
  let ?close = "\<lambda>n pred p1. pbind (expect TokenRParen) (\<lambda>_ p2. Inr (pred, p2)) (p1\<lparr>pa_depth := pa_depth p1 - 1\<rparr>)"
  have "good (\<lambda>n. ?close n a) q a (advance (q\<lparr>pa_depth := pa_depth q - 1\<rparr>))"
    using assms(4) by (simp add: good_def pbind_def expect_def)
  from good_Suc[OF good_pbind[OF assms(3), where f = ?close, OF this], of "parsePrimary pf pt" p]
  show ?thesis using assms(1,2) by simp
qed

lemma good_leaf:
  assumes "tk_Type (current p) \<noteq> TokenLParen" "parseLeaf pf pt p = Inr (a, q)"
  shows "good (parsePrimary pf pt) p a q"
proof -
  have "good (\<lambda>n. parseLeaf pf pt) p a q" using assms(2) by (simp add: good_def)
  then show ?thesis by (rule good_Suc) (simp add: assms(1))
qed

section \<open>The printer\<close>

type_synonym tv = "TokenType \<times> string"

text \<open>Level 0 is an operand of OR on the left (or the whole predicate), 1 one of OR on the right or
  of AND on the left, 2 one of AND on the right.\<close>

fun print_pred :: "('f \<Rightarrow> string) \<Rightarrow> ('t \<Rightarrow> string) \<Rightarrow> nat \<Rightarrow> ('f, 't) Predicate \<Rightarrow> tv list" where
  "print_pred ff ft l (StatePredicate s) = [(TokenState, ''STATE''), (TokenEQ, ''=''), (TokenIdent, s)]"
| "print_pred ff ft l (ScorePredicate field op f) =
     [(if field = ''relevance'' then (TokenRelevance, ''RELEVANCE'') else (TokenConfidence, ''CONFIDENCE'')),
      (if op = ''>'' then (TokenGT, ''>'') else (TokenGTE, ''>='')), (TokenNumber, ff f)]"
| "print_pred ff ft l (TagPredicate s) = [(TokenTag, ''TAG''), (TokenEQ, ''=''), (TokenString, s)]"
| "print_pred ff ft l (CreatorPredicate s) = [(TokenCreator, ''CREATOR''), (TokenEQ, ''=''), (TokenString, s)]"
| "print_pred ff ft l (CreatedAfterPredicate t) = [(TokenCreatedAfter, ''CREATED_AFTER''), (TokenString, ft t)]"
| "print_pred ff ft l (ProvenanceSourcePredicate s) =
     [(TokenProvenance, ''PROVENANCE''), (TokenDot, ''.''), (TokenSource, ''SOURCE''), (TokenEQ, ''=''), (TokenIdent, s)]"
| "print_pred ff ft l (ProvenanceAgentPredicate s) =
     [(TokenProvenance, ''PROVENANCE''), (TokenDot, ''.''), (TokenAgent, ''AGENT''), (TokenEQ, ''=''), (TokenString, s)]"
| "print_pred ff ft l (AndPredicate a b) =
     (let t = print_pred ff ft 1 a @ (TokenAnd, ''AND'') # print_pred ff ft 2 b
      in if l \<le> 1 then t else (TokenLParen, ''('') # t @ [(TokenRParen, '')'')])"
| "print_pred ff ft l (OrPredicate a b) =
     (let t = print_pred ff ft 0 a @ (TokenOr, ''OR'') # print_pred ff ft 1 b
      in if l = 0 then t else (TokenLParen, ''('') # t @ [(TokenRParen, '')'')])"

text \<open>How deep the printed parentheses nest.\<close>

fun nesting :: "nat \<Rightarrow> ('f, 't) Predicate \<Rightarrow> nat" where
  "nesting l (AndPredicate a b) = max (nesting 1 a) (nesting 2 b) + (if l \<le> 1 then 0 else 1)"
| "nesting l (OrPredicate a b) = max (nesting 0 a) (nesting 1 b) + (if l = 0 then 0 else 1)"
| "nesting l _ = 0"

definition name_ok :: "string \<Rightarrow> bool" where
  "name_ok s \<longleftrightarrow> ident_form s \<and> lookupKeyword s = TokenIdent \<and> ToLower s = s"

text \<open>What the printer can write: names the lexer reads as identifiers, ASCII strings, and numbers
  and times whose text reads back.\<close>

fun pred_ok :: "(string \<Rightarrow> 'f option) \<Rightarrow> (string \<Rightarrow> 't option) \<Rightarrow> ('f \<Rightarrow> string) \<Rightarrow> ('t \<Rightarrow> string) \<Rightarrow>
    ('f, 't) Predicate \<Rightarrow> bool" where
  "pred_ok pf pt ff ft (StatePredicate s) \<longleftrightarrow> name_ok s"
| "pred_ok pf pt ff ft (ScorePredicate field op f) \<longleftrightarrow>
     (field = ''relevance'' \<or> field = ''confidence'') \<and> (op = ''>'' \<or> op = ''>='') \<and>
     number_form (ff f) \<and> pf (ff f) = Some f"
| "pred_ok pf pt ff ft (TagPredicate s) \<longleftrightarrow> list_all ascii s"
| "pred_ok pf pt ff ft (CreatorPredicate s) \<longleftrightarrow> list_all ascii s"
| "pred_ok pf pt ff ft (CreatedAfterPredicate t) \<longleftrightarrow> list_all ascii (ft t) \<and> pt (ft t) = Some t"
| "pred_ok pf pt ff ft (ProvenanceSourcePredicate s) \<longleftrightarrow> name_ok s"
| "pred_ok pf pt ff ft (ProvenanceAgentPredicate s) \<longleftrightarrow> list_all ascii s"
| "pred_ok pf pt ff ft (AndPredicate a b) \<longleftrightarrow> pred_ok pf pt ff ft a \<and> pred_ok pf pt ff ft b"
| "pred_ok pf pt ff ft (OrPredicate a b) \<longleftrightarrow> pred_ok pf pt ff ft a \<and> pred_ok pf pt ff ft b"

section \<open>Reading the predicates back\<close>

definition tvs :: "Parser \<Rightarrow> tv list" where
  "tvs p = map tv_of (rest p)"

lemma tvs_advance [simp]: "tvs (advance p) = tl (tvs p)"
  by (simp add: tvs_def map_tl)

lemma tvs_depth [simp]: "tvs (p\<lparr>pa_depth := d\<rparr>) = tvs p"
  by (simp add: tvs_def)

lemma depth_depth [simp]: "pa_depth (advance (p\<lparr>pa_depth := d\<rparr>)) = d"
  by simp

lemma current_tvs:
  "tk_Type (current p) = (case tvs p of [] \<Rightarrow> TokenEOF | tv # _ \<Rightarrow> fst tv)"
  "tk_Value (current p) = (case tvs p of [] \<Rightarrow> '''' | tv # _ \<Rightarrow> snd tv)"
  by (auto simp: current_rest tvs_def tv_of_def eof_token_def split: list.split)

definition reads :: "(nat \<Rightarrow> Parser \<Rightarrow> 'a presult) \<Rightarrow> tv list \<Rightarrow> nat \<Rightarrow> 'a \<Rightarrow> bool" where
  "reads m toks d a \<longleftrightarrow> (\<forall>p ts. tvs p = toks @ ts \<longrightarrow> pa_depth p + d \<le> 50 \<longrightarrow>
     (\<exists>q. tvs q = ts \<and> pa_depth q = pa_depth p \<and> good m p a q))"

definition no_and :: "tv list \<Rightarrow> bool" where
  "no_and ts \<longleftrightarrow> (case ts of [] \<Rightarrow> True | tv # _ \<Rightarrow> fst tv \<noteq> TokenAnd)"

text \<open>A chain parser \<open>m\<close> reads the tokens as its accumulated operand and goes on with its loop \<open>ml\<close>.\<close>

definition chain_reads :: "(tv list \<Rightarrow> bool) \<Rightarrow> (nat \<Rightarrow> Parser \<Rightarrow> 'a presult) \<Rightarrow>
    (nat \<Rightarrow> 'a \<Rightarrow> Parser \<Rightarrow> 'a presult) \<Rightarrow> tv list \<Rightarrow> nat \<Rightarrow> 'a \<Rightarrow> bool" where
  "chain_reads ok m ml toks d a \<longleftrightarrow> (\<forall>p ts. tvs p = toks @ ts \<longrightarrow> ok ts \<longrightarrow> pa_depth p + d \<le> 50 \<longrightarrow>
     (\<exists>q. tvs q = ts \<and> pa_depth q = pa_depth p \<and>
        (\<forall>b r. good (\<lambda>n. ml n a) q b r \<longrightarrow> good m p b r)))"

abbreviation "and_reads pf pt \<equiv> chain_reads (\<lambda>_. True) (parseAnd pf pt) (parseAnd_loop pf pt)"
abbreviation "or_reads pf pt \<equiv> chain_reads no_and (parseOr pf pt) (parseOr_loop pf pt)"

lemma and_from_primary: "reads (parsePrimary pf pt) toks d a \<Longrightarrow> and_reads pf pt toks d a"
  unfolding chain_reads_def
proof (intro allI impI)
  fix p ts
  assume "reads (parsePrimary pf pt) toks d a" "tvs p = toks @ ts" "pa_depth p + d \<le> 50"
  then obtain q where "tvs q = ts" "pa_depth q = pa_depth p" "good (parsePrimary pf pt) p a q"
    unfolding reads_def by blast
  from good_And[OF this(3)] this(1,2) show "\<exists>q. tvs q = ts \<and> pa_depth q = pa_depth p \<and>
      (\<forall>b r. good (\<lambda>n. parseAnd_loop pf pt n a) q b r \<longrightarrow> good (parseAnd pf pt) p b r)"
    by blast
qed

lemma and_stop:
  assumes "and_reads pf pt toks d a" "tvs p = toks @ ts" "pa_depth p + d \<le> 50" "no_and ts"
  obtains q where "tvs q = ts" "pa_depth q = pa_depth p" "good (parseAnd pf pt) p a q"
proof -
  from assms(1-3) obtain q where q: "tvs q = ts" "pa_depth q = pa_depth p"
    and g: "\<And>b r. good (\<lambda>n. parseAnd_loop pf pt n a) q b r \<Longrightarrow> good (parseAnd pf pt) p b r"
    unfolding chain_reads_def by blast
  have "tk_Type (current q) \<noteq> TokenAnd"
    using q(1) assms(4) by (auto simp: current_tvs no_and_def split: list.splits)
  from g[OF good_And_stop[OF this]] q that show ?thesis by blast
qed

lemma or_from_and:
  assumes "and_reads pf pt toks d a"
  shows "or_reads pf pt toks d a"
  unfolding chain_reads_def
proof (intro allI impI)
  fix p ts
  assume h: "tvs p = toks @ ts" "no_and ts" "pa_depth p + d \<le> 50"
  from and_stop[OF assms h(1,3,2)] obtain q
    where "tvs q = ts" "pa_depth q = pa_depth p" "good (parseAnd pf pt) p a q" .
  from good_Or[OF this(3)] this(1,2) show "\<exists>q. tvs q = ts \<and> pa_depth q = pa_depth p \<and>
      (\<forall>b r. good (\<lambda>n. parseOr_loop pf pt n a) q b r \<longrightarrow> good (parseOr pf pt) p b r)"
    by blast
qed

lemma or_stop:
  assumes "or_reads pf pt toks d a" "tvs p = toks @ ts" "pa_depth p + d \<le> 50"
    and "no_and ts" "\<And>tv ts'. ts = tv # ts' \<Longrightarrow> fst tv \<noteq> TokenOr"
  obtains q where "tvs q = ts" "pa_depth q = pa_depth p" "good (parseOr pf pt) p a q"
proof -
  from assms(1-4) obtain q where q: "tvs q = ts" "pa_depth q = pa_depth p"
    and g: "\<And>b r. good (\<lambda>n. parseOr_loop pf pt n a) q b r \<Longrightarrow> good (parseOr pf pt) p b r"
    unfolding chain_reads_def by blast
  have "tk_Type (current q) \<noteq> TokenOr"
    using q(1) assms(5) by (auto simp: current_tvs split: list.splits)
  from g[OF good_Or_stop[OF this]] q that show ?thesis by blast
qed

lemma primary_from_or:
  assumes "or_reads pf pt toks d a"
  shows "reads (parsePrimary pf pt) ((TokenLParen, ''('') # toks @ [(TokenRParen, '')'')]) (d + 1) a"
  unfolding reads_def
proof (intro allI impI)
  fix p ts
  assume h: "tvs p = ((TokenLParen, ''('') # toks @ [(TokenRParen, '')'')]) @ ts" "pa_depth p + (d + 1) \<le> 50"
  let ?p = "advance (p\<lparr>pa_depth := pa_depth p + 1\<rparr>)"
  from h have "tvs ?p = toks @ (TokenRParen, '')'') # ts" "pa_depth ?p + d \<le> 50" by simp_all
  from or_stop[OF assms this] obtain q
    where q: "tvs q = (TokenRParen, '')'') # ts" "pa_depth q = pa_depth p + 1" "good (parseOr pf pt) ?p a q"
    by (auto simp: no_and_def)
  let ?r = "advance (q\<lparr>pa_depth := pa_depth q - 1\<rparr>)"
  have "good (parsePrimary pf pt) p a ?r"
    by (rule good_paren[OF _ _ q(3)]) (use h q in \<open>simp_all add: current_tvs\<close>)
  moreover have "tvs ?r = ts" "pa_depth ?r = pa_depth p" using q by simp_all
  ultimately show "\<exists>q. tvs q = ts \<and> pa_depth q = pa_depth p \<and> good (parsePrimary pf pt) p a q" by blast
qed

lemma leaf_reads:
  assumes "pred_ok pf pt ff ft a" "\<And>x y. a \<noteq> AndPredicate x y" "\<And>x y. a \<noteq> OrPredicate x y"
  shows "reads (parsePrimary pf pt) (print_pred ff ft l a) 0 a"
  unfolding reads_def
proof (intro allI impI)
  fix p ts
  assume h: "tvs p = print_pred ff ft l a @ ts"
  have "tk_Type (current p) \<noteq> TokenLParen"
    using h assms(2,3) by (cases a) (simp_all add: current_tvs, blast+)
  moreover have "\<exists>q. parseLeaf pf pt p = Inr (a, q) \<and> tvs q = ts \<and> pa_depth q = pa_depth p"
    using h assms
    by (cases a) (auto simp: parseLeaf_def parseState_def parseScore_def parseTag_def parseCreator_def
        parseCreatedAfter_def parseProvenance_def current_tvs pbind_def expect_def take_value_def
        take_conv_def name_ok_def)
  ultimately show "\<exists>q. tvs q = ts \<and> pa_depth q = pa_depth p \<and> good (parsePrimary pf pt) p a q"
    using good_leaf by blast
qed

lemma and_step:
  assumes "and_reads pf pt s d a" "reads (parsePrimary pf pt) t e b"
  shows "and_reads pf pt (s @ (TokenAnd, ''AND'') # t) (max d e) (AndPredicate a b)"
  unfolding chain_reads_def
proof (intro allI impI)
  fix p ts
  assume h: "tvs p = (s @ (TokenAnd, ''AND'') # t) @ ts" "pa_depth p + max d e \<le> 50"
  from h have h1: "tvs p = s @ (TokenAnd, ''AND'') # t @ ts" "pa_depth p + d \<le> 50" by simp_all
  then obtain q where q: "tvs q = (TokenAnd, ''AND'') # t @ ts" "pa_depth q = pa_depth p"
    and g: "\<And>c r. good (\<lambda>n. parseAnd_loop pf pt n a) q c r \<Longrightarrow> good (parseAnd pf pt) p c r"
    using assms(1) unfolding chain_reads_def by blast
  from q h have "tvs (advance q) = t @ ts" "pa_depth (advance q) + e \<le> 50" by simp_all
  then obtain r where r: "tvs r = ts" "pa_depth r = pa_depth (advance q)"
    "good (parsePrimary pf pt) (advance q) b r" using assms(2) unfolding reads_def by blast
  have "tk_Type (current q) = TokenAnd" using q by (simp add: current_tvs)
  from g[OF good_And_loop[OF this r(3)]] r(1,2) q(2)
  show "\<exists>q. tvs q = ts \<and> pa_depth q = pa_depth p \<and>
      (\<forall>c r. good (\<lambda>n. parseAnd_loop pf pt n (AndPredicate a b)) q c r \<longrightarrow> good (parseAnd pf pt) p c r)"
    by (intro exI[of _ r]) simp
qed

lemma or_step:
  assumes "or_reads pf pt s d a" "and_reads pf pt t e b"
  shows "or_reads pf pt (s @ (TokenOr, ''OR'') # t) (max d e) (OrPredicate a b)"
  unfolding chain_reads_def
proof (intro allI impI)
  fix p ts
  assume h: "tvs p = (s @ (TokenOr, ''OR'') # t) @ ts" "no_and ts" "pa_depth p + max d e \<le> 50"
  from h have h1: "tvs p = s @ (TokenOr, ''OR'') # t @ ts" "pa_depth p + d \<le> 50"
    "no_and ((TokenOr, ''OR'') # t @ ts)" by (simp_all add: no_and_def)
  then obtain q where q: "tvs q = (TokenOr, ''OR'') # t @ ts" "pa_depth q = pa_depth p"
    and g: "\<And>c r. good (\<lambda>n. parseOr_loop pf pt n a) q c r \<Longrightarrow> good (parseOr pf pt) p c r"
    using assms(1) unfolding chain_reads_def by blast
  from q h have "tvs (advance q) = t @ ts" "pa_depth (advance q) + e \<le> 50" by simp_all
  from and_stop[OF assms(2) this h(2)] obtain r where r: "tvs r = ts" "pa_depth r = pa_depth (advance q)"
    "good (parseAnd pf pt) (advance q) b r" .
  have "tk_Type (current q) = TokenOr" using q by (simp add: current_tvs)
  from g[OF good_Or_loop[OF this r(3)]] r(1,2) q(2)
  show "\<exists>q. tvs q = ts \<and> pa_depth q = pa_depth p \<and>
      (\<forall>c r. good (\<lambda>n. parseOr_loop pf pt n (OrPredicate a b)) q c r \<longrightarrow> good (parseOr pf pt) p c r)"
    by (intro exI[of _ r]) simp
qed

lemma leaf_pred_reads:
  assumes "pred_ok pf pt ff ft a" "\<And>x y. a \<noteq> AndPredicate x y" "\<And>x y. a \<noteq> OrPredicate x y"
  shows "reads (parsePrimary pf pt) (print_pred ff ft 2 a) (nesting 2 a) a \<and>
    and_reads pf pt (print_pred ff ft 1 a) (nesting 1 a) a \<and>
    or_reads pf pt (print_pred ff ft 0 a) (nesting 0 a) a"
proof -
  have n: "nesting l a = 0" for l using assms(2,3) by (cases a) auto
  note r = leaf_reads[OF assms]
  show ?thesis
    unfolding n using r[of 2] and_from_primary[OF r[of 1]] or_from_and[OF and_from_primary[OF r[of 0]]]
    by (intro conjI)
qed

lemma pred_reads:
  assumes "pred_ok pf pt ff ft a"
  shows "reads (parsePrimary pf pt) (print_pred ff ft 2 a) (nesting 2 a) a \<and>
    and_reads pf pt (print_pred ff ft 1 a) (nesting 1 a) a \<and>
    or_reads pf pt (print_pred ff ft 0 a) (nesting 0 a) a"
  using assms
proof (induction a)
  case (AndPredicate a b)
  then have "and_reads pf pt (print_pred ff ft 1 (AndPredicate a b)) (max (nesting 1 a) (nesting 2 b)) (AndPredicate a b)"
    by (simp add: and_step)
  with primary_from_or[OF or_from_and[OF this]] or_from_and[OF this] show ?case by simp
next
  case (OrPredicate a b)
  then have "or_reads pf pt (print_pred ff ft 0 (OrPredicate a b)) (max (nesting 0 a) (nesting 1 b)) (OrPredicate a b)"
    by (simp add: or_step)
  with primary_from_or[OF this] and_from_primary[OF primary_from_or[OF this]] show ?case by simp
qed (rule leaf_pred_reads; simp)+

section \<open>Numbers\<close>

lemma digits_val_snoc: "digits_val (s @ [c]) = digits_val s * 10 + digit_val c"
  by (simp add: digits_val_def)

lemma digit_char:
  assumes "k < 10"
  shows "IsDigit (char_of (48 + k))" "digit_val (char_of (48 + k)) = int k"
  using assms by (simp_all add: IsDigit_def digit_val_def)

lemma num_text_digits: "num_text n \<noteq> [] \<and> list_all IsDigit (num_text n) \<and> digits_val (num_text n) = int n"
proof (induction n rule: num_text.induct)
  case (1 n)
  show ?case
  proof (cases "n < 10")
    case True
    then show ?thesis
      using digit_char[OF True] by (subst (1 2 3) num_text.simps) (simp add: digits_val_def)
  next
    case False
    have r: "n mod 10 < 10" by simp
    have "int (n div 10) * 10 + int (n mod 10) = int n"
      by (metis div_mult_mod_eq of_nat_add of_nat_mult of_nat_numeral)
    with 1[OF False] digit_char[OF r] False show ?thesis
      by (subst (1 2 3) num_text.simps) (simp add: digits_val_snoc)
  qed
qed

lemma number_form_num_text: "number_form (num_text n)"
  using num_text_digits[of n] unfolding number_form_def by (intro exI[of _ "num_text n"] exI[of _ "[]"]) simp

lemma Atoi_num_text:
  assumes "int n < 2 ^ 63"
  shows "Atoi (num_text n) = Some (int n)"
proof -
  from num_text_digits[of n] obtain c cs where c: "num_text n = c # cs" "IsDigit c"
    by (cases "num_text n") auto
  from c(2) have "c \<noteq> CHR ''-''" "c \<noteq> CHR ''+''" by (auto simp: IsDigit_def)
  with c num_text_digits[of n] assms show ?thesis
    by (simp add: Atoi_def atoi_digits_def)
qed

section \<open>Queries\<close>

text \<open>A query is written with every optional part whose value is not the absent one.\<close>

fun print_terms :: "string list \<Rightarrow> tv list" where
  "print_terms [] = []"
| "print_terms [s] = [(TokenString, s)]"
| "print_terms (s # t # ss) = (TokenString, s) # (TokenComma, '','') # print_terms (t # ss)"

definition print_where :: "('f \<Rightarrow> string) \<Rightarrow> ('t \<Rightarrow> string) \<Rightarrow> ('f, 't) Predicate option \<Rightarrow> tv list" where
  "print_where ff ft w = (case w of None \<Rightarrow> [] | Some a \<Rightarrow> (TokenWhere, ''WHERE'') # print_pred ff ft 0 a)"

fun print_query :: "('f \<Rightarrow> string) \<Rightarrow> ('t \<Rightarrow> string) \<Rightarrow> ('f, 't) Query \<Rightarrow> tv list" where
  "print_query ff ft (QActivate q) =
     [(TokenActivate, ''ACTIVATE''), (TokenFrom, ''FROM''), (TokenString, aq_Vault q),
      (TokenContext, ''CONTEXT''), (TokenLBracket, ''['')] @ print_terms (aq_Context q) @
     [(TokenRBracket, '']'')] @ print_where ff ft (aq_Where q) @
     [(TokenMaxResults, ''MAX_RESULTS''), (TokenNumber, num_text (nat (aq_MaxResults q))),
      (TokenHops, ''HOPS''), (TokenNumber, num_text (nat (aq_Hops q))),
      (TokenMinRelevance, ''MIN_RELEVANCE''), (TokenNumber, ff (aq_MinRelevance q))]"
| "print_query ff ft (QRecall q) =
     [(TokenRecall, ''RECALL''), (TokenEpisode, ''EPISODE''), (TokenString, rq_EpisodeID q),
      (TokenFrames, ''FRAMES''), (TokenNumber, num_text (nat (rq_Frames q)))]"
| "print_query ff ft (QTraverse q) =
     [(TokenTraverse, ''TRAVERSE''), (TokenFrom, ''FROM''), (TokenString, tq_StartID q),
      (TokenHops, ''HOPS''), (TokenNumber, num_text (nat (tq_Hops q))),
      (TokenMinWeight, ''MIN_WEIGHT''), (TokenNumber, ff (tq_MinWeight q))]"
| "print_query ff ft (QConsolidate q) =
     [(TokenConsolidate, ''CONSOLIDATE''), (TokenVault, ''VAULT''), (TokenString, cq_Vault q)] @
     (if cq_DryRun q then [(TokenDryRun, ''DRY_RUN'')] else [])"
| "print_query ff ft (QWorkingMemory q) =
     [(TokenWorkingMemory, ''WORKING_MEMORY''), (TokenSession, ''SESSION''), (TokenString, wq_SessionID q)]"

definition float_ok :: "(string \<Rightarrow> 'f option) \<Rightarrow> ('f \<Rightarrow> string) \<Rightarrow> 'f \<Rightarrow> bool" where
  "float_ok pf ff f \<longleftrightarrow> number_form (ff f) \<and> pf (ff f) = Some f"

text \<open>The caps of the code: at most 1000 results and 10 hops of an activation.\<close>

fun query_ok :: "(string \<Rightarrow> 'f option) \<Rightarrow> (string \<Rightarrow> 't option) \<Rightarrow> ('f \<Rightarrow> string) \<Rightarrow> ('t \<Rightarrow> string) \<Rightarrow>
    ('f, 't) Query \<Rightarrow> bool" where
  "query_ok pf pt ff ft (QActivate q) \<longleftrightarrow>
     list_all ascii (aq_Vault q) \<and> aq_Context q \<noteq> [] \<and> list_all (list_all ascii) (aq_Context q) \<and>
     (case aq_Where q of None \<Rightarrow> True | Some a \<Rightarrow> pred_ok pf pt ff ft a \<and> nesting 0 a \<le> 50) \<and>
     0 \<le> aq_MaxResults q \<and> aq_MaxResults q \<le> 1000 \<and> 0 \<le> aq_Hops q \<and> aq_Hops q \<le> 10 \<and>
     float_ok pf ff (aq_MinRelevance q)"
| "query_ok pf pt ff ft (QRecall q) \<longleftrightarrow>
     list_all ascii (rq_EpisodeID q) \<and> 0 \<le> rq_Frames q \<and> rq_Frames q < 2 ^ 63"
| "query_ok pf pt ff ft (QTraverse q) \<longleftrightarrow>
     list_all ascii (tq_StartID q) \<and> 0 \<le> tq_Hops q \<and> tq_Hops q < 2 ^ 63 \<and> float_ok pf ff (tq_MinWeight q)"
| "query_ok pf pt ff ft (QConsolidate q) \<longleftrightarrow> list_all ascii (cq_Vault q)"
| "query_ok pf pt ff ft (QWorkingMemory q) \<longleftrightarrow> list_all ascii (wq_SessionID q)"

lemma context_reads:
  "ss \<noteq> [] \<Longrightarrow> tvs p = print_terms ss @ (TokenRBracket, '']'') # ts \<Longrightarrow>
   \<exists>q. tvs q = (TokenRBracket, '']'') # ts \<and> pa_depth q = pa_depth p \<and>
     good (\<lambda>n. parseContext_loop n acc) p (acc @ ss) q"
proof (induction ss arbitrary: p acc rule: print_terms.induct)
  case 1
  then show ?case by simp
next
  case (2 s)
  have "good (\<lambda>n p. Inr (acc @ [s], p)) (advance p) (acc @ [s]) (advance p)" by (simp add: good_def)
  then have "good (\<lambda>n. parseContext_loop n (acc @ [s])) (advance p) (acc @ [s]) (advance p)"
    by (rule good_Suc) (use 2 in \<open>simp add: current_tvs\<close>)
  then have "good (\<lambda>n. parseContext_loop n acc) p (acc @ [s]) (advance p)"
    by (rule good_Suc) (use 2 in \<open>simp add: current_tvs\<close>)
  with 2 show ?case by (intro exI[of _ "advance p"]) simp
next
  case (3 s t ss)
  let ?p = "advance (advance p)"
  have "tvs ?p = print_terms (t # ss) @ (TokenRBracket, '']'') # ts" using 3(3) by simp
  from 3(1)[OF _ this, of "acc @ [s]"] obtain q where q: "tvs q = (TokenRBracket, '']'') # ts"
    "pa_depth q = pa_depth ?p" "good (\<lambda>n. parseContext_loop n (acc @ [s])) ?p ((acc @ [s]) @ t # ss) q"
    by auto
  have "good (\<lambda>n. parseContext_loop n acc) p ((acc @ [s]) @ t # ss) q"
    by (rule good_Suc[OF q(3)]) (use 3(3) in \<open>simp add: current_tvs\<close>)
  with q show ?case by (intro exI[of _ q]) simp
qed

lemma good_pbind_const:
  assumes "m p = Inr (a, q)" "good (\<lambda>n. f n a) q b r"
  shows "good (\<lambda>n. pbind m (f n)) p b r"
  using assms by (simp add: good_def pbind_def)

lemma contextList_reads:
  assumes "ss \<noteq> []" "tvs p = (TokenLBracket, ''['') # print_terms ss @ (TokenRBracket, '']'') # ts"
  obtains q where "tvs q = ts" "pa_depth q = pa_depth p" "good parseContextList p ss q"
proof -
  from context_reads[OF assms(1), of "advance p" ts "[]"] assms(2) obtain q
    where q: "tvs q = (TokenRBracket, '']'') # ts" "pa_depth q = pa_depth p"
      "good (\<lambda>n. parseContext_loop n []) (advance p) ss q" by auto
  let ?close = "\<lambda>(n :: nat) ctxt. pbind (expect TokenRBracket) (\<lambda>_ p.
      if ctxt = [] then perror (Msg ''context list cannot be empty'') p else Inr (ctxt, p))"
  have "good (\<lambda>n. ?close n ss) q ss (advance q)"
    using assms(1) q(1) by (simp add: good_def pbind_def expect_def current_tvs)
  from good_pbind[OF q(3), where f = ?close, OF this]
  have "good parseContextList p ss (advance q)"
    by (rule good_eq) (use assms(2) in \<open>simp add: parseContextList_def current_tvs\<close>)
  then show ?thesis using q that[of "advance q"] by simp
qed

lemma good_clauses_end: "tvs p = (TokenEOF, v) # ts \<Longrightarrow> good (\<lambda>n. parseClauses pf pt n q) p q p"
proof -
  assume "tvs p = (TokenEOF, v) # ts"
  moreover have "good (\<lambda>n p. Inr (q, p)) p q p" by (simp add: good_def)
  ultimately show ?thesis by (elim good_Suc) (simp add: current_tvs)
qed

lemma good_clauses_step:
  assumes "good (\<lambda>n. parseClause pf pt n q) p q' p'" "good (\<lambda>n. parseClauses pf pt n q') p' b r"
    and "tk_Type (current p) \<noteq> TokenEOF"
  shows "good (\<lambda>n. parseClauses pf pt n q) p b r"
  by (rule good_Suc[OF good_pbind[OF assms(1), where f = "\<lambda>n q'. parseClauses pf pt n q'", OF assms(2)]])
    (use assms(3) in simp)

lemma good_number_clauses:
  "tvs p = (TokenMaxResults, v) # (TokenNumber, t) # ts \<Longrightarrow> Atoi t = Some k \<Longrightarrow> k \<le> 1000 \<Longrightarrow>
     good (\<lambda>n. parseClause pf pt n q) p (q\<lparr>aq_MaxResults := k\<rparr>) (advance (advance p))"
  "tvs p = (TokenHops, v) # (TokenNumber, t) # ts \<Longrightarrow> Atoi t = Some k \<Longrightarrow> k \<le> 10 \<Longrightarrow>
     good (\<lambda>n. parseClause pf pt n q) p (q\<lparr>aq_Hops := k\<rparr>) (advance (advance p))"
  "tvs p = (TokenMinRelevance, v) # (TokenNumber, t) # ts \<Longrightarrow> pf t = Some f \<Longrightarrow>
     good (\<lambda>n. parseClause pf pt n q) p (q\<lparr>aq_MinRelevance := f\<rparr>) (advance (advance p))"
  by (simp_all add: good_def parseClause_def current_tvs pbind_def take_conv_def)

lemma good_where_clause:
  assumes "tvs p = (TokenWhere, v) # print_pred ff ft 0 a @ ts" "pred_ok pf pt ff ft a"
    and "pa_depth p + nesting 0 a \<le> 50" "no_and ts" "\<And>tv ts'. ts = tv # ts' \<Longrightarrow> fst tv \<noteq> TokenOr"
  obtains r where "tvs r = ts" "pa_depth r = pa_depth p"
    "good (\<lambda>n. parseClause pf pt n q) p (q\<lparr>aq_Where := Some a\<rparr>) r"
proof -
  from pred_reads[OF assms(2)] have "or_reads pf pt (print_pred ff ft 0 a) (nesting 0 a) a" by simp
  moreover have "tvs (advance p) = print_pred ff ft 0 a @ ts" "pa_depth (advance p) + nesting 0 a \<le> 50"
    using assms(1,3) by simp_all
  ultimately obtain r where r: "tvs r = ts" "pa_depth r = pa_depth (advance p)"
    "good (parseOr pf pt) (advance p) a r" using or_stop assms(4,5) by metis
  let ?f = "\<lambda>(n :: nat) pred p. Inr (q\<lparr>aq_Where := Some pred\<rparr>, p)"
  have "good (parsePredicate pf pt) (advance p) a r" using r(3) by (simp add: good_def parsePredicate_def)
  moreover have "good (\<lambda>n. ?f n a) r (q\<lparr>aq_Where := Some a\<rparr>) r" by (simp add: good_def)
  ultimately have "good (\<lambda>n. pbind (parsePredicate pf pt n) (?f n)) (advance p) (q\<lparr>aq_Where := Some a\<rparr>) r"
    by (rule good_pbind[where f = ?f])
  then have "good (\<lambda>n. parseClause pf pt n q) p (q\<lparr>aq_Where := Some a\<rparr>) r"
    by (rule good_eq) (use assms(1) in \<open>simp add: parseClause_def current_tvs\<close>)
  with r that show ?thesis by simp
qed

text \<open>The three number clauses, up to the end.\<close>

lemma tail_reads:
  assumes "tvs p = [(TokenMaxResults, ''MAX_RESULTS''), (TokenNumber, t), (TokenHops, ''HOPS''),
      (TokenNumber, u), (TokenMinRelevance, ''MIN_RELEVANCE''), (TokenNumber, v), (TokenEOF, '''')]"
    and "Atoi t = Some k" "k \<le> 1000" "Atoi u = Some h" "h \<le> 10" "pf v = Some f"
  shows "\<exists>r. good (\<lambda>n. parseClauses pf pt n q) p
    (q\<lparr>aq_MaxResults := k, aq_Hops := h, aq_MinRelevance := f\<rparr>) r"
proof -
  let ?p1 = "advance (advance p)"
  let ?p2 = "advance (advance ?p1)"
  let ?p3 = "advance (advance ?p2)"
  let ?q1 = "q\<lparr>aq_MaxResults := k\<rparr>"
  let ?q2 = "?q1\<lparr>aq_Hops := h\<rparr>"
  let ?q3 = "?q2\<lparr>aq_MinRelevance := f\<rparr>"
  have 1: "good (\<lambda>n. parseClause pf pt n q) p ?q1 ?p1"
    and 2: "good (\<lambda>n. parseClause pf pt n ?q1) ?p1 ?q2 ?p2"
    and 3: "good (\<lambda>n. parseClause pf pt n ?q2) ?p2 ?q3 ?p3"
    by (rule good_number_clauses; use assms in simp)+
  have "good (\<lambda>n. parseClauses pf pt n ?q3) ?p3 ?q3 ?p3"
    by (rule good_clauses_end) (use assms(1) in simp)
  with 3 have "good (\<lambda>n. parseClauses pf pt n ?q2) ?p2 ?q3 ?p3"
    by (rule good_clauses_step) (use assms(1) in \<open>simp add: current_tvs\<close>)
  with 2 have "good (\<lambda>n. parseClauses pf pt n ?q1) ?p1 ?q3 ?p3"
    by (rule good_clauses_step) (use assms(1) in \<open>simp add: current_tvs\<close>)
  with 1 have "good (\<lambda>n. parseClauses pf pt n q) p ?q3 ?p3"
    by (rule good_clauses_step) (use assms(1) in \<open>simp add: current_tvs\<close>)
  then show ?thesis by blast
qed

text \<open>From the WHERE clause on.\<close>

lemma clauses_read:
  assumes "tvs p = print_where ff ft w @
      [(TokenMaxResults, ''MAX_RESULTS''), (TokenNumber, t), (TokenHops, ''HOPS''),
      (TokenNumber, u), (TokenMinRelevance, ''MIN_RELEVANCE''), (TokenNumber, v), (TokenEOF, '''')]"
    and "Atoi t = Some k" "k \<le> 1000" "Atoi u = Some h" "h \<le> 10" "pf v = Some f"
    and "case w of None \<Rightarrow> True | Some a \<Rightarrow> pred_ok pf pt ff ft a \<and> pa_depth p + nesting 0 a \<le> 50"
    and "aq_Where q = None"
  shows "\<exists>r. good (\<lambda>n. parseClauses pf pt n q) p
    (q\<lparr>aq_Where := w, aq_MaxResults := k, aq_Hops := h, aq_MinRelevance := f\<rparr>) r"
proof (cases w)
  case None
  then have "q\<lparr>aq_Where := w\<rparr> = q" using assms(8) by simp
  with tail_reads[where pf = pf and v = v and f = f, OF _ assms(2-6), of p pt q] assms(1) None
  show ?thesis by (simp add: print_where_def)
next
  case (Some a)
  let ?ts = "[(TokenMaxResults, ''MAX_RESULTS''), (TokenNumber, t), (TokenHops, ''HOPS''),
      (TokenNumber, u), (TokenMinRelevance, ''MIN_RELEVANCE''), (TokenNumber, v), (TokenEOF, '''')]"
  have "tvs p = (TokenWhere, ''WHERE'') # print_pred ff ft 0 a @ ?ts"
    "pred_ok pf pt ff ft a" "pa_depth p + nesting 0 a \<le> 50" "no_and ?ts"
    using assms(1,7) Some by (simp_all add: print_where_def no_and_def)
  from good_where_clause[OF this, of q] obtain r where r: "tvs r = ?ts"
    "good (\<lambda>n. parseClause pf pt n q) p (q\<lparr>aq_Where := w\<rparr>) r"
    using Some by auto
  from tail_reads[where pf = pf and v = v and f = f, OF r(1) assms(2-6), of pt "q\<lparr>aq_Where := w\<rparr>"] obtain s
    where "good (\<lambda>n. parseClauses pf pt n (q\<lparr>aq_Where := w\<rparr>)) r
      (q\<lparr>aq_Where := w, aq_MaxResults := k, aq_Hops := h, aq_MinRelevance := f\<rparr>) s" by auto
  with r(2) have "good (\<lambda>n. parseClauses pf pt n q) p
      (q\<lparr>aq_Where := w, aq_MaxResults := k, aq_Hops := h, aq_MinRelevance := f\<rparr>) s"
    by (rule good_clauses_step) (use assms(1) Some in \<open>simp add: print_where_def current_tvs\<close>)
  then show ?thesis by blast
qed

lemma good_activate_head:
  assumes "tvs p = (TokenActivate, a) # (TokenFrom, b) # (TokenString, vault) # (TokenContext, c) # ts"
    and "good parseContextList (advance (advance (advance (advance p)))) ss q"
    and "good (\<lambda>n. parseClauses pf pt n \<lparr>aq_Vault = vault, aq_Context = ss, aq_Where = None,
        aq_MaxResults = 0, aq_Hops = 0, aq_MinRelevance = 0\<rparr>) q x r"
  shows "good (parseActivate pf pt) p x r"
proof -
  let ?f = "\<lambda>n ctxt. parseClauses pf pt n \<lparr>aq_Vault = vault, aq_Context = ctxt, aq_Where = None,
        aq_MaxResults = 0, aq_Hops = 0, aq_MinRelevance = 0\<rparr>"
  from good_pbind[OF assms(2), where f = ?f, OF assms(3)]
  show ?thesis
    by (rule good_eq)
      (use assms(1) in \<open>simp add: parseActivate_def pbind_def expect_def take_value_def current_tvs\<close>)
qed

lemma good_wrap:
  assumes "good m p a r" "\<And>n. m' n p = wrap f (m n p)"
  shows "good m' p (f a) r"
proof -
  from assms(1) obtain n0 where "\<And>n. n0 \<le> n \<Longrightarrow> m n p = Inr (a, r)" by (auto simp: good_def)
  then have "\<forall>n \<ge> n0. m' n p = Inr (f a, r)" using assms(2) by (simp add: wrap_def)
  then show ?thesis unfolding good_def by (rule exI)
qed

lemma query_reads:
  assumes "query_ok pf pt ff ft q" "tvs p = print_query ff ft q @ [(TokenEOF, '''')]" "pa_depth p = 0"
  shows "\<exists>r. good (Parse_from pf pt) p q r"
proof (cases q)
  case (QActivate a)
  let ?p = "advance (advance (advance (advance p)))"
  let ?mr = "aq_MaxResults a" and ?h = "aq_Hops a"
  let ?ts = "print_where ff ft (aq_Where a) @
     [(TokenMaxResults, ''MAX_RESULTS''), (TokenNumber, num_text (nat ?mr)),
      (TokenHops, ''HOPS''), (TokenNumber, num_text (nat ?h)),
      (TokenMinRelevance, ''MIN_RELEVANCE''), (TokenNumber, ff (aq_MinRelevance a)), (TokenEOF, '''')]"
  have ok: "aq_Context a \<noteq> []" "0 \<le> ?mr" "?mr \<le> 1000" "0 \<le> ?h" "?h \<le> 10"
    "pf (ff (aq_MinRelevance a)) = Some (aq_MinRelevance a)"
    using assms(1) QActivate by (simp_all add: float_ok_def)
  have nums: "Atoi (num_text (nat ?mr)) = Some ?mr" "Atoi (num_text (nat ?h)) = Some ?h"
    using ok Atoi_num_text[of "nat ?mr"] Atoi_num_text[of "nat ?h"] by simp_all
  have t: "tvs p = (TokenActivate, ''ACTIVATE'') # (TokenFrom, ''FROM'') # (TokenString, aq_Vault a) #
      (TokenContext, ''CONTEXT'') # (TokenLBracket, ''['') # print_terms (aq_Context a) @ (TokenRBracket, '']'') # ?ts"
    using assms(2) QActivate by simp
  then have "tvs ?p = (TokenLBracket, ''['') # print_terms (aq_Context a) @ (TokenRBracket, '']'') # ?ts"
    by simp
  from contextList_reads[OF ok(1) this] obtain c
    where c: "tvs c = ?ts" "pa_depth c = pa_depth ?p" "good parseContextList ?p (aq_Context a) c" .
  let ?q0 = "\<lparr>aq_Vault = aq_Vault a, aq_Context = aq_Context a, aq_Where = None,
    aq_MaxResults = 0, aq_Hops = 0, aq_MinRelevance = 0\<rparr>"
  have "case aq_Where a of None \<Rightarrow> True | Some w \<Rightarrow> pred_ok pf pt ff ft w \<and> pa_depth c + nesting 0 w \<le> 50"
    using assms(1,3) QActivate c(2) by (cases "aq_Where a") simp_all
  from clauses_read[OF c(1) nums(1) ok(3) nums(2) ok(5,6) this, of ?q0]
  obtain r where "good (\<lambda>n. parseClauses pf pt n ?q0) c a r" by (cases a) auto
  from good_activate_head[OF t c(3) this]
  have "good (Parse_from pf pt) p (QActivate a) r"
    by (rule good_wrap) (use t in \<open>simp add: Parse_from_def current_tvs\<close>)
  with QActivate show ?thesis by blast
next
  case (QRecall a)
  then have "Parse_from pf pt n p = Inr (QRecall a, advance (advance (advance (advance (advance p)))))" for n
    using assms Atoi_num_text[of "nat (rq_Frames a)"]
    by (simp add: Parse_from_def current_tvs wrap_def parseRecallEpisode_def pbind_def expect_def
        take_value_def take_conv_def at_end_def)
  then show ?thesis using QRecall by (auto simp: good_def)
next
  case (QTraverse a)
  then have "Parse_from pf pt n p = Inr (QTraverse a,
      advance (advance (advance (advance (advance (advance (advance p)))))))" for n
    using assms Atoi_num_text[of "nat (tq_Hops a)"]
    by (simp add: Parse_from_def current_tvs wrap_def parseTraverse_def pbind_def expect_def
        take_value_def take_conv_def at_end_def float_ok_def)
  then show ?thesis using QTraverse by (auto simp: good_def)
next
  case (QConsolidate a)
  then have "\<exists>r. \<forall>n. Parse_from pf pt n p = Inr (QConsolidate a, r)"
    using assms
    by (cases "cq_DryRun a") (simp_all add: Parse_from_def current_tvs wrap_def parseConsolidate_def
        pbind_def expect_def take_value_def at_end_def)
  then show ?thesis using QConsolidate by (auto simp: good_def)
next
  case (QWorkingMemory a)
  then have "Parse_from pf pt n p = Inr (QWorkingMemory a, advance (advance (advance p)))" for n
    using assms
    by (simp add: Parse_from_def current_tvs wrap_def parseWorkingMemory_def pbind_def expect_def
        take_value_def at_end_def)
  then show ?thesis using QWorkingMemory by (auto simp: good_def)
qed

lemma Parse_tokens_print:
  assumes "query_ok pf pt ff ft q" "map tv_of tokens = print_query ff ft q @ [(TokenEOF, '''')]"
  shows "Parse_tokens pf pt tokens = Inr q"
proof -
  let ?p = "NewParser tokens"
  have "tvs ?p = print_query ff ft q @ [(TokenEOF, '''')]" "pa_depth ?p = 0"
    using assms(2) by (simp_all add: tvs_def rest_def NewParser_def)
  from query_reads[OF assms(1) this] obtain r n0 where r: "\<And>n. n0 \<le> n \<Longrightarrow> Parse_from pf pt n ?p = Inr (q, r)"
    by (auto simp: good_def)
  have fuel: "4 * todo ?p + 4 \<le> parse_fuel tokens"
    by (simp add: NewParser_def rest_def parse_fuel_def)
  have "Parse_from pf pt (parse_fuel tokens) ?p = Parse_from pf pt (max n0 (parse_fuel tokens)) ?p"
    by (rule Parse_from_stable_le[OF Parse_from_total[OF fuel], symmetric]) simp
  then show ?thesis by (simp add: Parse_tokens_def r)
qed

section \<open>From characters to queries\<close>

lemma keywords_ok: "list_all (\<lambda>(k, ty). ident_form k \<and> lookupKeyword k = ty) keyword_table"
  by code_simp

lemma keyword_token: "(k, ty) \<in> set keyword_table \<Longrightarrow> token_ok (ty, k)"
  using keywords_ok by (auto simp: list_all_iff token_ok_def)

lemma printed_tokens_ok:
  "token_ok (TokenAnd, ''AND'')" "token_ok (TokenOr, ''OR'')" "token_ok (TokenState, ''STATE'')"
  "token_ok (TokenRelevance, ''RELEVANCE'')" "token_ok (TokenConfidence, ''CONFIDENCE'')"
  "token_ok (TokenTag, ''TAG'')" "token_ok (TokenCreator, ''CREATOR'')"
  "token_ok (TokenCreatedAfter, ''CREATED_AFTER'')" "token_ok (TokenProvenance, ''PROVENANCE'')"
  "token_ok (TokenSource, ''SOURCE'')" "token_ok (TokenAgent, ''AGENT'')"
  "token_ok (TokenActivate, ''ACTIVATE'')" "token_ok (TokenFrom, ''FROM'')"
  "token_ok (TokenContext, ''CONTEXT'')" "token_ok (TokenWhere, ''WHERE'')"
  "token_ok (TokenMaxResults, ''MAX_RESULTS'')" "token_ok (TokenHops, ''HOPS'')"
  "token_ok (TokenMinRelevance, ''MIN_RELEVANCE'')" "token_ok (TokenRecall, ''RECALL'')"
  "token_ok (TokenEpisode, ''EPISODE'')" "token_ok (TokenFrames, ''FRAMES'')"
  "token_ok (TokenTraverse, ''TRAVERSE'')" "token_ok (TokenMinWeight, ''MIN_WEIGHT'')"
  "token_ok (TokenConsolidate, ''CONSOLIDATE'')" "token_ok (TokenVault, ''VAULT'')"
  "token_ok (TokenDryRun, ''DRY_RUN'')" "token_ok (TokenWorkingMemory, ''WORKING_MEMORY'')"
  "token_ok (TokenSession, ''SESSION'')"
  by (rule keyword_token, simp add: keyword_table_def)+

lemma punctuation_tokens_ok:
  "token_ok (TokenEQ, ''='')" "token_ok (TokenDot, ''.'')" "token_ok (TokenLParen, ''('')"
  "token_ok (TokenRParen, '')'')" "token_ok (TokenLBracket, ''['')" "token_ok (TokenRBracket, '']'')"
  "token_ok (TokenComma, '','')" "token_ok (TokenGT, ''>'')" "token_ok (TokenGTE, ''>='')"
  by (simp_all add: token_ok_def punctuation_def)

lemma value_tokens_ok:
  "list_all ascii s \<Longrightarrow> token_ok (TokenString, s)"
  "number_form s \<Longrightarrow> token_ok (TokenNumber, s)"
  "name_ok s \<Longrightarrow> token_ok (TokenIdent, s)"
  by (simp_all add: token_ok_def name_ok_def)

lemmas tokens_ok = printed_tokens_ok punctuation_tokens_ok value_tokens_ok number_form_num_text

lemma print_pred_ok: "pred_ok pf pt ff ft a \<Longrightarrow> list_all token_ok (print_pred ff ft l a)"
  by (induction a arbitrary: l) (auto simp: tokens_ok Let_def)

lemma print_terms_ok: "list_all (list_all ascii) ss \<Longrightarrow> list_all token_ok (print_terms ss)"
  by (induction ss rule: print_terms.induct) (simp_all add: tokens_ok)

lemma print_query_ok: "query_ok pf pt ff ft q \<Longrightarrow> list_all token_ok (print_query ff ft q)"
  by (cases q) (auto simp: tokens_ok print_terms_ok print_where_def print_pred_ok float_ok_def
      split: option.splits)

lemma Parse_print:
  assumes "query_ok pf pt ff ft q"
  shows "Parse pf pt (unlex (print_query ff ft q)) = Inr q"
  unfolding Parse_def
proof (rule Parse_tokens_print[OF assms])
  show "map tv_of (Tokenize (unlex (print_query ff ft q))) = print_query ff ft q @ [(TokenEOF, '''')]"
    unfolding Tokenize_def NewLexer_at by (rule Tokenize_unlex[OF print_query_ok[OF assms]]) simp
qed

end
