(* ===== verification/Mql_Props.thy ===== *)
theory Mql_Props
  imports Mql_Print
begin

text \<open>
  The properties of the query language's parser: it returns on every input, what it accepts is
  bounded, and it inverts printing.
\<close>

section \<open>Bounds of what is accepted\<close>

lemma nesting_levels: "nesting 0 a \<le> nesting (Suc 0) a \<and> nesting (Suc 0) a \<le> nesting 2 a \<and> nesting 2 a \<le> nesting 0 a + 1"
  by (cases a) auto

lemma pbind_Inr: "pbind m f p = Inr (b, r) \<longleftrightarrow> (\<exists>a q. m p = Inr (a, q) \<and> f a q = Inr (b, r))"
  by (auto simp: pbind_def split: sum.splits)

lemma takes_depth:
  "expect tt p = Inr (t, q) \<Longrightarrow> pa_depth q = pa_depth p"
  "take_value tts r p = Inr (v, q) \<Longrightarrow> pa_depth q = pa_depth p"
  "take_conv conv tt r r' p = Inr (x, q) \<Longrightarrow> pa_depth q = pa_depth p"
  by (auto simp: expect_def take_value_def take_conv_def perror_def split: if_splits option.splits)

lemma leaf_depth: "parseLeaf pf pt p = Inr (a, q) \<Longrightarrow> pa_depth q = pa_depth p \<and> nesting l a = 0"
  by (auto simp: parseLeaf_def parseState_def parseScore_def parseTag_def parseCreator_def
      parseCreatedAfter_def parseProvenance_def pbind_Inr perror_def Let_def
      dest!: takes_depth split: TokenType.splits if_splits)

lemma predicates_bounded:
  "(\<forall>p a q. parseOr pf pt n p = Inr (a, q) \<longrightarrow> pa_depth p \<le> 50 \<longrightarrow>
      pa_depth q = pa_depth p \<and> pa_depth p + nesting 0 a \<le> 50) \<and>
   (\<forall>l p a q. parseOr_loop pf pt n l p = Inr (a, q) \<longrightarrow> pa_depth p + nesting 0 l \<le> 50 \<longrightarrow>
      pa_depth q = pa_depth p \<and> pa_depth p + nesting 0 a \<le> 50) \<and>
   (\<forall>p a q. parseAnd pf pt n p = Inr (a, q) \<longrightarrow> pa_depth p \<le> 50 \<longrightarrow>
      pa_depth q = pa_depth p \<and> pa_depth p + nesting 1 a \<le> 50) \<and>
   (\<forall>l p a q. parseAnd_loop pf pt n l p = Inr (a, q) \<longrightarrow> pa_depth p + nesting 1 l \<le> 50 \<longrightarrow>
      pa_depth q = pa_depth p \<and> pa_depth p + nesting 1 a \<le> 50) \<and>
   (\<forall>p a q. parsePrimary pf pt n p = Inr (a, q) \<longrightarrow> pa_depth p \<le> 50 \<longrightarrow>
      pa_depth q = pa_depth p \<and> pa_depth p + nesting 2 a \<le> 50)"
proof (induction n)
  case 0
  then show ?case by simp
next
  case (Suc n)
  then have Or: "\<And>p a q. parseOr pf pt n p = Inr (a, q) \<Longrightarrow> pa_depth p \<le> 50 \<Longrightarrow>
      pa_depth q = pa_depth p \<and> pa_depth p + nesting 0 a \<le> 50"
    and OrL: "\<And>l p a q. parseOr_loop pf pt n l p = Inr (a, q) \<Longrightarrow> pa_depth p + nesting 0 l \<le> 50 \<Longrightarrow>
      pa_depth q = pa_depth p \<and> pa_depth p + nesting 0 a \<le> 50"
    and And: "\<And>p a q. parseAnd pf pt n p = Inr (a, q) \<Longrightarrow> pa_depth p \<le> 50 \<Longrightarrow>
      pa_depth q = pa_depth p \<and> pa_depth p + nesting 1 a \<le> 50"
    and AndL: "\<And>l p a q. parseAnd_loop pf pt n l p = Inr (a, q) \<Longrightarrow> pa_depth p + nesting 1 l \<le> 50 \<Longrightarrow>
      pa_depth q = pa_depth p \<and> pa_depth p + nesting 1 a \<le> 50"
    and Prim: "\<And>p a q. parsePrimary pf pt n p = Inr (a, q) \<Longrightarrow> pa_depth p \<le> 50 \<Longrightarrow>
      pa_depth q = pa_depth p \<and> pa_depth p + nesting 2 a \<le> 50"
    by blast+
  show ?case
  proof (intro conjI allI impI)
    fix p :: Parser and a q
    assume "parseOr pf pt (Suc n) p = Inr (a, q)" "pa_depth p \<le> 50"
    then obtain l r where lr: "parseAnd pf pt n p = Inr (l, r)" "parseOr_loop pf pt n l r = Inr (a, q)"
      by (auto simp: pbind_Inr)
    from And[OF lr(1) \<open>pa_depth p \<le> 50\<close>] have l: "pa_depth r = pa_depth p" "pa_depth p + nesting 1 l \<le> 50"
      by auto
    then have "pa_depth r + nesting 0 l \<le> 50" using nesting_levels[of l] by simp
    from OrL[OF lr(2) this] l(1) show "pa_depth q = pa_depth p" "pa_depth p + nesting 0 a \<le> 50" by auto
  next
    fix l a and p q :: Parser
    assume h: "parseOr_loop pf pt (Suc n) l p = Inr (a, q)" "pa_depth p + nesting 0 l \<le> 50"
    have "pa_depth q = pa_depth p \<and> pa_depth p + nesting 0 a \<le> 50"
    proof (cases "tk_Type (current p) = TokenOr")
      case True
      with h(1) obtain b r where br: "parseAnd pf pt n (advance p) = Inr (b, r)"
        "parseOr_loop pf pt n (OrPredicate l b) r = Inr (a, q)" by (auto simp: pbind_Inr)
      from And[OF br(1)] h(2) have r: "pa_depth r = pa_depth p" "pa_depth p + nesting 1 b \<le> 50" by auto
      then have "pa_depth r + nesting 0 (OrPredicate l b) \<le> 50" using h(2) by simp
      from OrL[OF br(2) this] r(1) show ?thesis by simp
    next
      case False
      with h show ?thesis by simp
    qed
    then show "pa_depth q = pa_depth p" "pa_depth p + nesting 0 a \<le> 50" by auto
  next
    fix p :: Parser and a q
    assume "parseAnd pf pt (Suc n) p = Inr (a, q)" "pa_depth p \<le> 50"
    then obtain l r where lr: "parsePrimary pf pt n p = Inr (l, r)" "parseAnd_loop pf pt n l r = Inr (a, q)"
      by (auto simp: pbind_Inr)
    from Prim[OF lr(1) \<open>pa_depth p \<le> 50\<close>] have l: "pa_depth r = pa_depth p" "pa_depth p + nesting 2 l \<le> 50"
      by auto
    then have "pa_depth r + nesting 1 l \<le> 50" using nesting_levels[of l] by simp
    from AndL[OF lr(2) this] l(1) show "pa_depth q = pa_depth p" "pa_depth p + nesting 1 a \<le> 50" by auto
  next
    fix l a and p q :: Parser
    assume h: "parseAnd_loop pf pt (Suc n) l p = Inr (a, q)" "pa_depth p + nesting 1 l \<le> 50"
    have "pa_depth q = pa_depth p \<and> pa_depth p + nesting 1 a \<le> 50"
    proof (cases "tk_Type (current p) = TokenAnd")
      case True
      with h(1) obtain b r where br: "parsePrimary pf pt n (advance p) = Inr (b, r)"
        "parseAnd_loop pf pt n (AndPredicate l b) r = Inr (a, q)" by (auto simp: pbind_Inr)
      from Prim[OF br(1)] h(2) have r: "pa_depth r = pa_depth p" "pa_depth p + nesting 2 b \<le> 50" by auto
      then have "pa_depth r + nesting 1 (AndPredicate l b) \<le> 50" using h(2) by simp
      from AndL[OF br(2) this] r(1) show ?thesis by simp
    next
      case False
      with h show ?thesis by simp
    qed
    then show "pa_depth q = pa_depth p" "pa_depth p + nesting 1 a \<le> 50" by auto
  next
    fix p :: Parser and a q
    assume h: "parsePrimary pf pt (Suc n) p = Inr (a, q)" "pa_depth p \<le> 50"
    have "pa_depth q = pa_depth p \<and> pa_depth p + nesting 2 a \<le> 50"
    proof (cases "tk_Type (current p) = TokenLParen")
      case True
      let ?p = "advance (p\<lparr>pa_depth := pa_depth p + 1\<rparr>)"
      from True h(1) have d: "pa_depth p < 50" by (auto simp: perror_def split: if_splits)
      from True h(1) d obtain r t where r: "parseOr pf pt n ?p = Inr (a, r)"
        "expect TokenRParen (r\<lparr>pa_depth := pa_depth r - 1\<rparr>) = Inr (t, q)"
        by (auto simp: pbind_Inr)
      from Or[OF r(1)] d have "pa_depth r = pa_depth p + 1" "pa_depth p + 1 + nesting 0 a \<le> 50" by auto
      moreover from takes_depth(1)[OF r(2)] have "pa_depth q = pa_depth r - 1" by simp
      ultimately show ?thesis using nesting_levels[of a] by simp
    next
      case False
      with h(1) have "parseLeaf pf pt p = Inr (a, q)" by simp
      from leaf_depth[OF this, of 2] h(2) show ?thesis by simp
    qed
    then show "pa_depth q = pa_depth p" "pa_depth p + nesting 2 a \<le> 50" by auto
  qed
qed

definition activate_bounds :: "('f, 't) ActivateQuery \<Rightarrow> bool" where
  "activate_bounds q \<longleftrightarrow> aq_Context q \<noteq> [] \<and> aq_MaxResults q \<le> 1000 \<and> aq_Hops q \<le> 10 \<and>
     (case aq_Where q of None \<Rightarrow> True | Some a \<Rightarrow> nesting 0 a \<le> 50)"

lemma predicate_bounded:
  assumes "parsePredicate pf pt n p = Inr (a, r)" "pa_depth p = 0"
  shows "pa_depth r = 0 \<and> nesting 0 a \<le> 50"
proof -
  from assms(1) have "parseOr pf pt n p = Inr (a, r)" by (simp add: parsePredicate_def)
  with predicates_bounded[of pf pt n] assms(2) show ?thesis by (metis add_0 zero_le)
qed

lemma clause_bounded:
  assumes "parseClause pf pt n q p = Inr (q', r)" "activate_bounds q" "pa_depth p = 0"
  shows "activate_bounds q' \<and> pa_depth r = 0"
  using assms predicate_bounded[of pf pt n "advance p"]
  by (auto simp: parseClause_def pbind_Inr perror_def activate_bounds_def dest!: takes_depth
      split: TokenType.splits)

lemma clauses_bounded:
  "parseClauses pf pt n q p = Inr (q', r) \<Longrightarrow> activate_bounds q \<Longrightarrow> pa_depth p = 0 \<Longrightarrow> activate_bounds q'"
proof (induction n arbitrary: q p)
  case 0
  then show ?case by simp
next
  case (Suc n)
  show ?case
  proof (cases "tk_Type (current p) = TokenEOF")
    case True
    with Suc.prems show ?thesis by simp
  next
    case False
    with Suc.prems(1) obtain q1 p1 where 1: "parseClause pf pt n q p = Inr (q1, p1)"
      "parseClauses pf pt n q1 p1 = Inr (q', r)" by (auto simp: pbind_Inr)
    from clause_bounded[OF 1(1) Suc.prems(2,3)] Suc.IH[OF 1(2)] show ?thesis by simp
  qed
qed

lemma context_loop_depth: "parseContext_loop n acc p = Inr (ss, r) \<Longrightarrow> pa_depth r = pa_depth p"
proof (induction n arbitrary: acc p)
  case (Suc n)
  then show ?case by (fastforce simp: Let_def perror_def split: if_splits)
qed simp

lemma contextList_bounded: "parseContextList n p = Inr (ss, r) \<Longrightarrow> ss \<noteq> [] \<and> pa_depth r = pa_depth p"
  by (auto simp: parseContextList_def pbind_Inr perror_def dest!: takes_depth context_loop_depth
      split: if_splits)

lemma activate_bounded:
  assumes "parseActivate pf pt n p = Inr (q, r)" "pa_depth p = 0"
  shows "activate_bounds q"
proof -
  from assms(1) obtain v ss p1 p2 where 1: "parseContextList n p1 = Inr (ss, p2)" "pa_depth p1 = pa_depth p"
    "parseClauses pf pt n \<lparr>aq_Vault = v, aq_Context = ss, aq_Where = None, aq_MaxResults = 0,
      aq_Hops = 0, aq_MinRelevance = 0\<rparr> p2 = Inr (q, r)"
    unfolding parseActivate_def pbind_Inr by (metis takes_depth(1,2))
  from contextList_bounded[OF 1(1)] 1(2) assms(2) have "ss \<noteq> []" "pa_depth p2 = 0" by auto
  then show ?thesis by (intro clauses_bounded[OF 1(3)]) (simp_all add: activate_bounds_def)
qed

lemma Parse_bounded:
  assumes "Parse pf pt input = Inr (QActivate q)"
  shows "activate_bounds q"
proof -
  let ?p = "NewParser (Tokenize input)"
  from assms obtain r where "Parse_from pf pt (parse_fuel (Tokenize input)) ?p = Inr (QActivate q, r)"
    by (auto simp: Parse_def Parse_tokens_def map_sum_def split: sum.splits)
  then have "parseActivate pf pt (parse_fuel (Tokenize input)) ?p = Inr (q, r)"
    by (auto simp: Parse_from_def wrap_def perror_def map_sum_def split: TokenType.splits sum.splits)
  then show ?thesis by (rule activate_bounded) (simp add: NewParser_def)
qed

section \<open>Bytes as runes\<close>

definition plain_byte :: "char \<Rightarrow> bool" where
  "plain_byte c \<longleftrightarrow> c \<noteq> CHR 0x00 \<and> c \<noteq> CHR 0x22 \<and> c \<noteq> CHR 0x5C"

lemma readString_loop_plain:
  "list_all plain_byte s \<Longrightarrow> drop p xs = s @ CHR 0x22 # ys \<Longrightarrow>
   readString_loop (lex_at xs p) = (concat (map WriteRune s), lex_at xs (p + length s))"
proof (induction s arbitrary: p)
  case Nil
  then show ?case by (subst readString_loop.simps) (simp add: ch_at)
next
  case (Cons c s)
  then have d: "drop p xs = c # s @ CHR 0x22 # ys" by simp
  have "readString_loop (lex_at xs (Suc p)) = (concat (map WriteRune s), lex_at xs (Suc p + length s))"
    using Cons.prems drop_Suc_at[OF d] by (intro Cons.IH) auto
  moreover have "plain_byte c" using Cons.prems(1) by simp
  ultimately show ?case
    by (subst readString_loop.simps) (simp add: ch_at[OF d] plain_byte_def)
qed

lemma Tokenize_plain_literal:
  assumes "list_all plain_byte s"
  shows "map tv_of (Tokenize (CHR 0x22 # s @ [CHR 0x22])) =
    [(TokenString, concat (map WriteRune s)), (TokenEOF, '''')]"
proof -
  let ?xs = "CHR 0x22 # s @ [CHR 0x22]"
  let ?fin = "lex_at ?xs (Suc (Suc (length s)))"
  have d0: "drop 0 ?xs = CHR 0x22 # s @ [CHR 0x22]" by simp
  have d1: "drop 1 ?xs = s @ [CHR 0x22]" by simp
  have q: "drop (1 + length s) ?xs = [CHR 0x22]" by (rule drop_add_at[OF d1])
  have ch: "lx_ch (lex_at ?xs 0) = CHR 0x22" by (rule ch_at[OF d0])
  have start: "skipWhitespace (lex_at ?xs 0) = lex_at ?xs 0"
    by (rule skipWhitespace_token) (simp add: ch token_start_def ascii_def IsSpace_def)
  have "readString_loop (lex_at ?xs 1) = (concat (map WriteRune s), lex_at ?xs (1 + length s))"
    by (rule readString_loop_plain[OF assms d1])
  then have "readString (lex_at ?xs 0) = (concat (map WriteRune s), ?fin)"
    using ch_at[OF q] by (simp add: readString_def)
  then have nt: "NextToken (lex_at ?xs 0) =
      (\<lparr>tk_Type = TokenString, tk_Value = concat (map WriteRune s), tk_Pos = 0\<rparr>, ?fin)"
    using start ch by (simp add: NextToken_def lex_value_def not_punctuation Let_def)
  have "lx_ch ?fin = CHR 0x00" by (rule ch_end) simp
  then have "skipWhitespace ?fin = ?fin \<and> lex_value ?fin = ((TokenEOF, ''''), ?fin)"
    by (subst skipWhitespace.simps) (simp add: lex_value_def)
  then have "map tv_of (Tokenize_loop ?fin) = [(TokenEOF, '''')]"
    by (subst Tokenize_loop.simps) (simp add: NextToken_def tv_of_def)
  then show ?thesis
    unfolding Tokenize_def NewLexer_at
    by (subst Tokenize_loop.simps) (simp add: nt tv_of_def)
qed

lemma length_WriteRune: "length (concat (map WriteRune s)) = length s + length (filter (\<lambda>c. 128 \<le> code c) s)"
  by (induction s) (auto simp: WriteRune_def)

section \<open>Instances for the examples\<close>

text \<open>Natural numbers as the floats and the times of the examples.\<close>

definition nat_of_text :: "string \<Rightarrow> nat option" where
  "nat_of_text s = map_option nat (Atoi s)"

lemma nat_of_text_num: "int n < 2 ^ 63 \<Longrightarrow> nat_of_text (num_text n) = Some n"
  by (simp add: nat_of_text_def Atoi_num_text)

definition demo_pred :: "(nat, nat) Predicate" where
  "demo_pred = AndPredicate (StatePredicate ''active'')
     (OrPredicate (TagPredicate ''a b'') (ScorePredicate ''relevance'' ''>='' 3))"

definition demo_query :: "(nat, nat) Query" where
  "demo_query = QActivate \<lparr>aq_Vault = ''v'', aq_Context = [''x'', ''y''], aq_Where = Some demo_pred,
     aq_MaxResults = 10, aq_Hops = 2, aq_MinRelevance = 1\<rparr>"

lemma name_active: "name_ok ''active''"
  by code_simp

lemma demo_query_ok: "query_ok nat_of_text nat_of_text num_text num_text demo_query"
  by (simp add: demo_query_def demo_pred_def float_ok_def number_form_num_text nat_of_text_num
      name_active ascii_def)

section \<open>Properties\<close>

text \<open>C9. Printing a query and parsing the text gives the query back.  The printer writes the clauses
  with their values and parentheses only where the precedence of AND over OR and the left
  association of both require them; the query may be any the language can write: ASCII strings,
  lower-case identifiers that are no keywords, a context that is not empty, at most 1000 results and
  10 hops, parentheses at most 50 deep, and numbers and times whose text reads back.\<close>

theorem mql_round_trip:
  assumes "query_ok pf pt ff ft q"
  shows "Parse pf pt (unlex (print_query ff ft q)) = Inr q"
  by (rule Parse_print[OF assms])

theorem mql_round_trip_witness:
  "Parse nat_of_text nat_of_text (unlex (print_query num_text num_text demo_query)) = Inr demo_query"
  by (rule mql_round_trip[OF demo_query_ok])

text \<open>C10. The parser returns a query or a syntax error on every input, however long and however
  deeply nested: the fuel it is given never runs out.\<close>

theorem mql_parse_terminates: "Parse pf pt input \<noteq> Inl OutOfFuel"
  unfolding Parse_def by (rule Parse_tokens_total)

text \<open>What the parser accepts is bounded: the context of an ACTIVATE query is not empty, at most
  1000 results and 10 hops are asked for whatever numbers the text holds, and the parentheses that
  the WHERE predicate needs are at most 50 deep.\<close>

theorem mql_accepted_is_bounded:
  assumes "Parse pf pt input = Inr (QActivate q)"
  shows "aq_Context q \<noteq> [] \<and> aq_MaxResults q \<le> 1000 \<and> aq_Hops q \<le> 10 \<and>
    (case aq_Where q of None \<Rightarrow> True | Some a \<Rightarrow> nesting 0 a \<le> 50)"
  using Parse_bounded[OF assms] by (simp add: activate_bounds_def)

theorem mql_accepted_is_bounded_witness: "nesting 0 demo_pred \<le> 50"
proof -
  from demo_query_ok have "Parse nat_of_text nat_of_text (unlex (print_query num_text num_text demo_query)) =
      Inr (QActivate \<lparr>aq_Vault = ''v'', aq_Context = [''x'', ''y''], aq_Where = Some demo_pred,
     aq_MaxResults = 10, aq_Hops = 2, aq_MinRelevance = 1\<rparr>)"
    using Parse_print unfolding demo_query_def by blast
  from mql_accepted_is_bounded[OF this] show ?thesis by simp
qed

text \<open>A string literal with bytes beyond ASCII is not the string that stands in the query: the
  lexer takes every byte as a rune of its own and encodes it as UTF-8 again, so each such byte
  becomes two.  The literal is the text itself exactly when it is ASCII.\<close>

theorem mql_literal_bytes:
  assumes "list_all plain_byte s"
  shows "map tv_of (Tokenize (CHR 0x22 # s @ [CHR 0x22])) =
      [(TokenString, concat (map WriteRune s)), (TokenEOF, '''')] \<and>
    length (concat (map WriteRune s)) = length s + length (filter (\<lambda>c. 128 \<le> code c) s)"
  using Tokenize_plain_literal[OF assms] length_WriteRune by simp

theorem mql_literal_bytes_witness:
  "map tv_of (Tokenize [CHR 0x22, CHR 0xC3, CHR 0xA9, CHR 0x22]) =
    [(TokenString, [CHR 0xC3, CHR 0x83, CHR 0xC2, CHR 0xA9]), (TokenEOF, '''')]"
  using mql_literal_bytes[of "[CHR 0xC3, CHR 0xA9]"] by (simp add: plain_byte_def WriteRune_def char_of_def bit_iff_odd)

end
