(* ===== verification/Storage_Types.thy ===== *)
theory Storage_Types
  imports Prelude
begin

text \<open>
  The data types of the store (\<open>internal/storage/types.go\<close>): the engram, its metadata and
  associations, the lifecycle states, relation types, memory types and trust levels with their
  names, and the validity window.  A \<open>time.Time\<close> is the number of nanoseconds since the zero
  time, a float an element of the type parameter; a ULID is its 16 bytes.
\<close>

type_synonym time = int
type_synonym ULID = bytes
type_synonym LifecycleState = u8
type_synonym RelType = u16
type_synonym EmbedDimension = u8
type_synonym MemoryType = u8
type_synonym TrustLevel = u8

definition IsZero :: "time \<Rightarrow> bool" where
  "IsZero t = (t = 0)"

definition CompareULIDs :: "ULID \<Rightarrow> ULID \<Rightarrow> int" where
  "CompareULIDs a b = (if a < b then -1 else if a = b then 0 else 1)"

record 'f Association =
  as_TargetID :: ULID
  as_RelType :: RelType
  as_Weight :: 'f
  as_Confidence :: 'f
  as_CreatedAt :: time
  as_LastActivated :: int
  as_PeakWeight :: 'f
  as_CoActivationCount :: u32
  as_RestoredAt :: int

record 'f Engram =
  en_ID :: ULID
  en_CreatedAt :: time
  en_UpdatedAt :: time
  en_LastAccess :: time
  en_Confidence :: 'f
  en_Relevance :: 'f
  en_Stability :: 'f
  en_AccessCount :: u32
  en_State :: LifecycleState
  en_EmbedDim :: EmbedDimension
  en_Concept :: string
  en_CreatedBy :: string
  en_Content :: string
  en_Tags :: "string list"
  en_Associations :: "'f Association list"
  en_Embedding :: "'f list"
  en_Summary :: string
  en_KeyPoints :: "string list"
  en_MemoryType :: MemoryType
  en_TypeLabel :: string
  en_Classification :: u16
  en_Trust :: TrustLevel
  en_ValidFrom :: time
  en_ValidUntil :: time
  en_Importance :: 'f

record 'f EngramMeta =
  em_ID :: ULID
  em_CreatedAt :: time
  em_UpdatedAt :: time
  em_LastAccess :: time
  em_Confidence :: 'f
  em_Relevance :: 'f
  em_Stability :: 'f
  em_AccessCount :: u32
  em_State :: LifecycleState
  em_AssocCount :: u16
  em_EmbedDim :: EmbedDimension
  em_MemoryType :: MemoryType
  em_Trust :: TrustLevel
  em_ValidFrom :: time
  em_ValidUntil :: time
  em_Importance :: 'f

section \<open>The validity window\<close>

definition validAt :: "time \<Rightarrow> time \<Rightarrow> time \<Rightarrow> bool" where
  "validAt start until t =
     (if \<not> IsZero start \<and> t < start then False else IsZero until \<or> t < until)"

definition isExpired :: "time \<Rightarrow> time \<Rightarrow> bool" where
  "isExpired until now = (\<not> IsZero until \<and> \<not> until > now)"

definition EffectiveValidFrom :: "'f Engram \<Rightarrow> time" where
  "EffectiveValidFrom e = (if IsZero (en_ValidFrom e) then en_CreatedAt e else en_ValidFrom e)"

definition ValidAt :: "'f Engram \<Rightarrow> time \<Rightarrow> bool" where
  "ValidAt e t = validAt (EffectiveValidFrom e) (en_ValidUntil e) t"

definition IsExpired :: "'f Engram \<Rightarrow> time \<Rightarrow> bool" where
  "IsExpired e now = isExpired (en_ValidUntil e) now"

definition meta_EffectiveValidFrom :: "'f EngramMeta \<Rightarrow> time" where
  "meta_EffectiveValidFrom m = (if IsZero (em_ValidFrom m) then em_CreatedAt m else em_ValidFrom m)"

definition meta_ValidAt :: "'f EngramMeta \<Rightarrow> time \<Rightarrow> bool" where
  "meta_ValidAt m t = validAt (meta_EffectiveValidFrom m) (em_ValidUntil m) t"

definition meta_IsExpired :: "'f EngramMeta \<Rightarrow> time \<Rightarrow> bool" where
  "meta_IsExpired m now = isExpired (em_ValidUntil m) now"

text \<open>\<open>PassesValidity\<close> of \<open>internal/engine/activation/engine.go\<close>, the gate of recall.\<close>

definition PassesValidity :: "'f Engram \<Rightarrow> time option \<Rightarrow> bool \<Rightarrow> time \<Rightarrow> bool" where
  "PassesValidity eng asOf includeInvalid now =
     (if includeInvalid then True
      else case asOf of Some t \<Rightarrow> ValidAt eng t | None \<Rightarrow> \<not> IsExpired eng now)"

section \<open>Lifecycle states\<close>

definition StatePlanning :: LifecycleState where
  "StatePlanning = 0x00"

definition StateActive :: LifecycleState where
  "StateActive = 0x01"

definition StatePaused :: LifecycleState where
  "StatePaused = 0x02"

definition StateBlocked :: LifecycleState where
  "StateBlocked = 0x03"

definition StateCompleted :: LifecycleState where
  "StateCompleted = 0x04"

definition StateCancelled :: LifecycleState where
  "StateCancelled = 0x05"

definition StateArchived :: LifecycleState where
  "StateArchived = 0x06"

definition StateSoftDeleted :: LifecycleState where
  "StateSoftDeleted = 0x7F"

definition LifecycleState_String :: "LifecycleState \<Rightarrow> string" where
  "LifecycleState_String s =
     (if s = StatePlanning then ''planning''
      else if s = StateActive then ''active''
      else if s = StatePaused then ''paused''
      else if s = StateBlocked then ''blocked''
      else if s = StateCompleted then ''completed''
      else if s = StateCancelled then ''cancelled''
      else if s = StateArchived then ''archived''
      else if s = StateSoftDeleted then ''soft_deleted''
      else ''unknown('' @ num_text (unat s) @ '')'')"

definition lifecycle_names :: "(string \<times> LifecycleState) list" where
  "lifecycle_names = [(''planning'', StatePlanning),
     (''active'', StateActive),
     (''paused'', StatePaused),
     (''blocked'', StateBlocked),
     (''completed'', StateCompleted),
     (''cancelled'', StateCancelled),
     (''archived'', StateArchived)]"

definition ParseLifecycleState :: "string \<Rightarrow> string + LifecycleState" where
  "ParseLifecycleState s =
     (case map_of lifecycle_names s of
        Some st \<Rightarrow> Inr st
      | None \<Rightarrow> Inl (''unknown lifecycle state '' @ s))"

section \<open>Relation types\<close>

definition RelCoActivated :: RelType where
  "RelCoActivated = 0x0000"

definition RelSupports :: RelType where
  "RelSupports = 0x0001"

definition RelContradicts :: RelType where
  "RelContradicts = 0x0002"

definition RelDependsOn :: RelType where
  "RelDependsOn = 0x0003"

definition RelSupersedes :: RelType where
  "RelSupersedes = 0x0004"

definition RelRelatesTo :: RelType where
  "RelRelatesTo = 0x0005"

definition RelIsPartOf :: RelType where
  "RelIsPartOf = 0x0006"

definition RelCauses :: RelType where
  "RelCauses = 0x0007"

definition RelPrecededBy :: RelType where
  "RelPrecededBy = 0x0008"

definition RelFollowedBy :: RelType where
  "RelFollowedBy = 0x0009"

definition RelCreatedByPerson :: RelType where
  "RelCreatedByPerson = 0x000A"

definition RelBelongsToProject :: RelType where
  "RelBelongsToProject = 0x000B"

definition RelReferences :: RelType where
  "RelReferences = 0x000C"

definition RelImplements :: RelType where
  "RelImplements = 0x000D"

definition RelBlocks :: RelType where
  "RelBlocks = 0x000E"

definition RelResolves :: RelType where
  "RelResolves = 0x000F"

definition RelRefines :: RelType where
  "RelRefines = 0x0010"

definition RelUserDefined :: RelType where
  "RelUserDefined = 0x8000"

definition IsSymmetric :: "RelType \<Rightarrow> bool" where
  "IsSymmetric r = (r = RelCoActivated \<or> r = RelRelatesTo \<or> r = RelContradicts)"

definition BidirectionalForRanking :: "RelType \<Rightarrow> bool" where
  "BidirectionalForRanking r = (IsSymmetric r \<or> r \<ge> RelUserDefined)"

section \<open>Embedding dimensions\<close>

definition EmbedNone :: EmbedDimension where
  "EmbedNone = 0"

definition Embed384 :: EmbedDimension where
  "Embed384 = 1"

definition Embed768 :: EmbedDimension where
  "Embed768 = 2"

definition Embed1536 :: EmbedDimension where
  "Embed1536 = 3"

section \<open>Memory types\<close>

definition TypeFact :: MemoryType where
  "TypeFact = 0"

definition TypeDecision :: MemoryType where
  "TypeDecision = 1"

definition TypeObservation :: MemoryType where
  "TypeObservation = 2"

definition TypePreference :: MemoryType where
  "TypePreference = 3"

definition TypeIssue :: MemoryType where
  "TypeIssue = 4"

definition TypeTask :: MemoryType where
  "TypeTask = 5"

definition TypeProcedure :: MemoryType where
  "TypeProcedure = 6"

definition TypeEvent :: MemoryType where
  "TypeEvent = 7"

definition TypeGoal :: MemoryType where
  "TypeGoal = 8"

definition TypeConstraint :: MemoryType where
  "TypeConstraint = 9"

definition TypeIdentity :: MemoryType where
  "TypeIdentity = 10"

definition TypeReference :: MemoryType where
  "TypeReference = 11"

definition MemoryType_String :: "MemoryType \<Rightarrow> string" where
  "MemoryType_String m =
     (if m = TypeFact then ''fact''
      else if m = TypeDecision then ''decision''
      else if m = TypeObservation then ''observation''
      else if m = TypePreference then ''preference''
      else if m = TypeIssue then ''issue''
      else if m = TypeTask then ''task''
      else if m = TypeProcedure then ''procedure''
      else if m = TypeEvent then ''event''
      else if m = TypeGoal then ''goal''
      else if m = TypeConstraint then ''constraint''
      else if m = TypeIdentity then ''identity''
      else if m = TypeReference then ''reference''
      else ''fact'')"

definition ParseMemoryType :: "string \<Rightarrow> MemoryType \<times> bool" where
  "ParseMemoryType s =
     (if s = ''fact'' then (TypeFact, True)
      else if s = ''decision'' then (TypeDecision, True)
      else if s = ''observation'' then (TypeObservation, True)
      else if s = ''preference'' then (TypePreference, True)
      else if s = ''issue'' then (TypeIssue, True)
      else if s = ''bugfix'' \<or> s = ''bug_report'' then (TypeIssue, True)
      else if s = ''task'' then (TypeTask, True)
      else if s = ''procedure'' then (TypeProcedure, True)
      else if s = ''event'' \<or> s = ''experience'' then (TypeEvent, True)
      else if s = ''goal'' then (TypeGoal, True)
      else if s = ''constraint'' then (TypeConstraint, True)
      else if s = ''identity'' then (TypeIdentity, True)
      else if s = ''reference'' then (TypeReference, True)
      else (TypeFact, False))"

section \<open>Trust levels\<close>

definition TrustUnset :: TrustLevel where
  "TrustUnset = 0"

definition TrustVerified :: TrustLevel where
  "TrustVerified = 1"

definition TrustInferred :: TrustLevel where
  "TrustInferred = 2"

definition TrustExternal :: TrustLevel where
  "TrustExternal = 3"

definition TrustUntrusted :: TrustLevel where
  "TrustUntrusted = 4"

definition TrustLevel_String :: "TrustLevel \<Rightarrow> string" where
  "TrustLevel_String t =
     (if t = TrustVerified then ''verified''
      else if t = TrustInferred then ''inferred''
      else if t = TrustExternal then ''external''
      else if t = TrustUntrusted then ''untrusted''
      else ''inferred'')"

definition ParseTrustLevel :: "string \<Rightarrow> string + TrustLevel" where
  "ParseTrustLevel s =
     (if s = ''verified'' then Inr TrustVerified
      else if s = ''inferred'' then Inr TrustInferred
      else if s = ''external'' then Inr TrustExternal
      else if s = ''untrusted'' then Inr TrustUntrusted
      else Inl (''unknown trust level '' @ s))"

section \<open>Flags of a stored record\<close>

definition FlagHasEmbedding :: u8 where
  "FlagHasEmbedding = 1"

definition FlagContentCompressed :: u8 where
  "FlagContentCompressed = 2"

definition FlagEmbedQuantized :: u8 where
  "FlagEmbedQuantized = 4"

definition FlagDormant :: u8 where
  "FlagDormant = 8"

definition FlagSoftDeleted :: u8 where
  "FlagSoftDeleted = 16"

definition FlagDirty :: u8 where
  "FlagDirty = 32"

lemmas lifecycle_defs = StatePlanning_def StateActive_def StatePaused_def StateBlocked_def StateCompleted_def StateCancelled_def StateArchived_def StateSoftDeleted_def

lemmas reltype_defs = RelCoActivated_def RelSupports_def RelContradicts_def RelDependsOn_def RelSupersedes_def RelRelatesTo_def RelIsPartOf_def RelCauses_def RelPrecededBy_def RelFollowedBy_def RelCreatedByPerson_def RelBelongsToProject_def RelReferences_def RelImplements_def RelBlocks_def RelResolves_def RelRefines_def RelUserDefined_def

lemmas memtype_defs = TypeFact_def TypeDecision_def TypeObservation_def TypePreference_def TypeIssue_def TypeTask_def TypeProcedure_def TypeEvent_def TypeGoal_def TypeConstraint_def TypeIdentity_def TypeReference_def

lemmas trust_defs = TrustUnset_def TrustVerified_def TrustInferred_def TrustExternal_def TrustUntrusted_def

section \<open>Names read back\<close>

lemma ParseLifecycleState_String:
  "ParseLifecycleState s = Inr st \<Longrightarrow> LifecycleState_String st = s"
  by (auto simp: ParseLifecycleState_def lifecycle_names_def LifecycleState_String_def lifecycle_defs
      split: if_splits)

lemma u8_less_cases: "(w :: u8) < 7 \<longleftrightarrow> w \<in> {0, 1, 2, 3, 4, 5, 6}"
    "(w :: u8) < 12 \<longleftrightarrow> w \<in> {0, 1, 2, 3, 4, 5, 6, 7, 8, 9, 10, 11}"
    "1 \<le> (w :: u8) \<and> w \<le> 4 \<longleftrightarrow> w \<in> {1, 2, 3, 4}"
  by (simp add: word_less_nat_alt word_le_nat_alt word_unat_eq_iff, arith)+

lemma String_ParseLifecycleState:
  "ParseLifecycleState (LifecycleState_String st) = (if st < 7 then Inr st
     else Inl (''unknown lifecycle state '' @ LifecycleState_String st))"
  unfolding u8_less_cases
  by (auto simp: ParseLifecycleState_def lifecycle_names_def LifecycleState_String_def lifecycle_defs)

lemma ParseMemoryType_String: "ParseMemoryType (MemoryType_String m) = (if m < 12 then m else 0, True)"
  unfolding u8_less_cases by (auto simp: ParseMemoryType_def MemoryType_String_def memtype_defs)

lemma ParseTrustLevel_String:
  "ParseTrustLevel (TrustLevel_String t) = Inr (if 1 \<le> t \<and> t \<le> 4 then t else TrustInferred)"
  unfolding u8_less_cases by (auto simp: ParseTrustLevel_def TrustLevel_String_def trust_defs)

end
