(* ===== verification/Query_Filter.thy ===== *)
theory Query_Filter
  imports Storage_Types
begin

text \<open>
  The post-retrieval filter (\<open>internal/query/filter.go\<close>): validation, the match of an engram,
  and filtering with pagination.  Scores are elements of a linear order with zero and one, so a
  NaN is outside the model; a \<open>nil\<close> time is \<open>None\<close>.  \<open>Filter_Apply\<close> returns \<open>None\<close> where the slice
  expression of the code panics.
\<close>

record 'f Filter =
  fl_CreatedAfter :: "time option"
  fl_CreatedBefore :: "time option"
  fl_UpdatedAfter :: "time option"
  fl_States :: "LifecycleState list"
  fl_Tags :: "string list"
  fl_Creator :: string
  fl_MinRelevance :: 'f
  fl_MinConfidence :: 'f
  fl_MinStability :: 'f
  fl_Vaults :: "string list"
  fl_CrossVault :: bool
  fl_Limit :: int
  fl_Offset :: int

definition empty_filter :: "'f :: zero Filter" where
  "empty_filter = \<lparr>fl_CreatedAfter = None, fl_CreatedBefore = None, fl_UpdatedAfter = None,
     fl_States = [], fl_Tags = [], fl_Creator = '''', fl_MinRelevance = 0, fl_MinConfidence = 0,
     fl_MinStability = 0, fl_Vaults = [], fl_CrossVault = False, fl_Limit = 0, fl_Offset = 0\<rparr>"

text \<open>\<open>None\<close> is the nil error.\<close>

definition Validate :: "'f :: {linorder, zero, one} Filter \<Rightarrow> string option" where
  "Validate f =
     (if fl_Limit f < 0 \<or> fl_Limit f > 200 then Some ''limit must be between 0 and 200''
      else if fl_Offset f < 0 then Some ''offset must be non-negative''
      else if fl_MinRelevance f < 0 \<or> fl_MinRelevance f > 1 then
        Some ''min_relevance must be between 0.0 and 1.0''
      else if fl_MinConfidence f < 0 \<or> fl_MinConfidence f > 1 then
        Some ''min_confidence must be between 0.0 and 1.0''
      else if fl_MinStability f < 0 then Some ''min_stability must be non-negative''
      else None)"

definition Match :: "'f :: {linorder, zero} Filter \<Rightarrow> 'f Engram \<Rightarrow> bool" where
  "Match f e =
     (if (case fl_CreatedAfter f of None \<Rightarrow> False | Some t \<Rightarrow> \<not> en_CreatedAt e > t) then False
      else if (case fl_CreatedBefore f of None \<Rightarrow> False | Some t \<Rightarrow> \<not> en_CreatedAt e < t) then False
      else if (case fl_UpdatedAfter f of None \<Rightarrow> False | Some t \<Rightarrow> \<not> en_UpdatedAt e > t) then False
      else if length (fl_States f) > 0 \<and> \<not> list_ex (\<lambda>s. en_State e = s) (fl_States f) then False
      else if length (fl_Tags f) > 0 \<and> \<not> list_all (\<lambda>r. r \<in> set (en_Tags e)) (fl_Tags f) then False
      else if fl_Creator f \<noteq> '''' \<and> en_CreatedBy e \<noteq> fl_Creator f then False
      else if fl_MinRelevance f > 0 \<and> en_Relevance e < fl_MinRelevance f then False
      else if fl_MinConfidence f > 0 \<and> en_Confidence e < fl_MinConfidence f then False
      else if fl_MinStability f > 0 \<and> en_Stability e < fl_MinStability f then False
      else True)"

text \<open>The first loop of \<open>Filter_Apply\<close>, over pointers that may be nil.\<close>

fun Apply_filtered :: "'f :: {linorder, zero} Filter \<Rightarrow> 'f Engram option list \<Rightarrow> 'f Engram list" where
  "Apply_filtered f [] = []"
| "Apply_filtered f (None # es) = Apply_filtered f es"
| "Apply_filtered f (Some e # es) =
     (if Match f e then e # Apply_filtered f es else Apply_filtered f es)"

definition Filter_Apply :: "'f :: {linorder, zero} Filter \<Rightarrow> 'f Engram option list \<Rightarrow> 'f Engram list option" where
  "Filter_Apply f engrams =
     (let filtered = Apply_filtered f engrams;
          n = int (length filtered);
          limit = fl_Limit f;
          limit = (if limit = 0 then 20 else limit);
          limit = (if limit > 200 then 200 else limit);
          start = fl_Offset f
      in if start \<ge> n then Some []
         else (let stop = start + limit;
                   stop = (if stop > n then n else stop)
               in if start < 0 \<or> stop < start then None
                  else Some (take (nat (stop - start)) (drop (nat start) filtered))))"

section \<open>What a filter admits\<close>

lemma Match_iff:
  "Match f e \<longleftrightarrow>
     (\<forall>t \<in> set_option (fl_CreatedAfter f). t < en_CreatedAt e) \<and>
     (\<forall>t \<in> set_option (fl_CreatedBefore f). en_CreatedAt e < t) \<and>
     (\<forall>t \<in> set_option (fl_UpdatedAfter f). t < en_UpdatedAt e) \<and>
     (fl_States f = [] \<or> en_State e \<in> set (fl_States f)) \<and>
     set (fl_Tags f) \<subseteq> set (en_Tags e) \<and>
     (fl_Creator f = '''' \<or> en_CreatedBy e = fl_Creator f) \<and>
     (fl_MinRelevance f \<le> 0 \<or> fl_MinRelevance f \<le> en_Relevance e) \<and>
     (fl_MinConfidence f \<le> 0 \<or> fl_MinConfidence f \<le> en_Confidence e) \<and>
     (fl_MinStability f \<le> 0 \<or> fl_MinStability f \<le> en_Stability e)"
proof -
  have opt: "(case x of None \<Rightarrow> False | Some t \<Rightarrow> \<not> P t) = (\<not> (\<forall>t \<in> set_option x. P t))"
    for x :: "time option" and P
    by (cases x) simp_all
  have st: "(length ss > 0 \<and> \<not> list_ex (\<lambda>s. en_State e = s) ss) = (\<not> (ss = [] \<or> en_State e \<in> set ss))" for ss
    by (auto simp: list_ex_iff)
  have tg: "(length ss > 0 \<and> \<not> list_all (\<lambda>r. r \<in> set (en_Tags e)) ss) = (\<not> set ss \<subseteq> set (en_Tags e))" for ss
    by (auto simp: list_all_iff)
  have sc: "(x > 0 \<and> y < x) = (\<not> (x \<le> 0 \<or> x \<le> y))" for x y :: 'a
    by auto
  have cr: "(fl_Creator f \<noteq> '''' \<and> en_CreatedBy e \<noteq> fl_Creator f) =
      (\<not> (fl_Creator f = '''' \<or> en_CreatedBy e = fl_Creator f))" by simp
  have if_not: "(if \<not> b then False else c) = (b \<and> c)" for b c by simp
  show ?thesis
    unfolding Match_def opt st tg sc cr if_not by (simp only: simp_thms)
qed

lemma Match_empty: "Match empty_filter e"
  by (simp add: Match_iff empty_filter_def)

lemma Apply_filtered_eq: "Apply_filtered f es = filter (Match f) (map the (filter (\<lambda>p. p \<noteq> None) es))"
  by (induction f es rule: Apply_filtered.induct) simp_all

definition page_size :: "'f Filter \<Rightarrow> nat" where
  "page_size f = nat (if fl_Limit f = 0 then 20 else min 200 (fl_Limit f))"

lemma Apply_page:
  assumes "0 \<le> fl_Limit f" "0 \<le> fl_Offset f"
  shows "Filter_Apply f es = Some (take (page_size f) (drop (nat (fl_Offset f)) (Apply_filtered f es)))"
proof (cases "int (length (Apply_filtered f es)) \<le> fl_Offset f")
  case True
  then show ?thesis by (simp add: Filter_Apply_def)
next
  case False
  let ?xs = "Apply_filtered f es" and ?l = "page_size f"
  obtain k where k0: "fl_Offset f = int k" using assms(2) nonneg_int_cases by blast
  then have k: "k < length ?xs" using False by simp
  have l: "(let l = (if fl_Limit f = 0 then 20 else fl_Limit f) in if l > 200 then 200 else l) = int ?l"
    using assms(1) by (simp add: page_size_def Let_def)
  have "Filter_Apply f es = (let e = (if int k + int ?l > int (length ?xs) then int (length ?xs) else int k + int ?l)
      in if e < int k then None else Some (take (nat (e - int k)) (drop k ?xs)))"
    using False l unfolding Filter_Apply_def Let_def k0 by simp
  also have "\<dots> = Some (take ?l (drop k ?xs))"
    using k by (auto simp: Let_def nat_diff_distrib nat_int_add)
  finally show ?thesis using k0 by simp
qed

lemma Apply_panics:
  assumes "fl_Offset f < 0"
  shows "Filter_Apply f es = None"
  using assms by (simp add: Filter_Apply_def Let_def)

lemma Validate_ranges:
  "Validate f = None \<Longrightarrow> 0 \<le> fl_Limit f \<and> fl_Limit f \<le> 200 \<and> 0 \<le> fl_Offset f"
  by (auto simp: Validate_def split: if_splits)

end
