(* ===== verification/Activation_Filter.thy ===== *)
theory Activation_Filter
  imports Storage_Types "HOL-Library.Sublist"
begin

text \<open>
  The filters of an activation request (\<open>mbp.Filter\<close> of \<open>internal/transport/mbp/types.go\<close>) and
  their evaluation in recall (\<open>PassesMetaFilter\<close> and its helpers in
  \<open>internal/engine/activation/engine.go\<close>).  The dynamic types that the code's type switches
  distinguish are the constructors of \<open>fvalue\<close>; \<open>VOther\<close> is any other.
\<close>

datatype 'f fvalue =
    VState LifecycleState
  | VTime time
  | VString string
  | VStrings "string list"
  | VPair string string
  | VFloat 'f
  | VList "'f fvalue list"
  | VOther

record 'f MFilter =
  mf_Field :: string
  mf_Op :: string
  mf_Value :: "'f fvalue"

definition VString_of :: "'f fvalue \<Rightarrow> string option" where
  "VString_of v = (case v of VString s \<Rightarrow> Some s | _ \<Rightarrow> None)"

definition asStringSlice :: "'f fvalue \<Rightarrow> string list" where
  "asStringSlice v =
     (case v of
        VStrings s \<Rightarrow> s
      | VList es \<Rightarrow> List.map_filter VString_of es
      | _ \<Rightarrow> [])"

definition asPair :: "'f fvalue \<Rightarrow> (string \<times> string) option" where
  "asPair v =
     (case v of
        VPair a b \<Rightarrow> Some (a, b)
      | VStrings p \<Rightarrow> if length p = 2 then Some (p ! 0, p ! 1) else None
      | VList p \<Rightarrow>
          if length p = 2 then
            (case (VString_of (p ! 0), VString_of (p ! 1)) of
               (Some a, Some b) \<Rightarrow> Some (a, b)
             | _ \<Rightarrow> None)
          else None
      | _ \<Rightarrow> None)"

definition tagSet :: "string list \<Rightarrow> string set" where
  "tagSet tags = set tags"

definition engramHasExcludedTag :: "'f Engram \<Rightarrow> string set \<Rightarrow> bool" where
  "engramHasExcludedTag eng excludeSet = list_ex (\<lambda>t. t \<in> excludeSet) (en_Tags eng)"

text \<open>The inner loop of the \<open>tag_prefix\<close> case; an unknown operator leaves \<open>matched\<close> false.\<close>

fun tag_prefix_matched :: "string \<Rightarrow> string \<Rightarrow> string \<Rightarrow> string list \<Rightarrow> bool" where
  "tag_prefix_matched op pre bound [] = False"
| "tag_prefix_matched op pre bound (tag # tags) =
     (if \<not> prefix pre tag then tag_prefix_matched op pre bound tags
      else
        (let v = drop (length pre) tag;
             matched =
               (if op = ''lte'' then v \<le> bound
                else if op = ''gte'' then v \<ge> bound
                else if op = ''lt'' then v < bound
                else if op = ''gt'' then v > bound
                else if op = ''eq'' \<or> op = '''' then v = bound
                else False)
         in if matched then True else tag_prefix_matched op pre bound tags))"

text \<open>One turn of the loop of \<open>PassesMetaFilter\<close>: whether the filter lets the engram pass.\<close>

definition passes_one :: "'f Engram \<Rightarrow> 'f MFilter \<Rightarrow> bool" where
  "passes_one eng f =
     (if mf_Field f = ''state'' then
        (case mf_Value f of
           VState s \<Rightarrow>
             if mf_Op f = ''eq'' then en_State eng = s
             else if mf_Op f = ''neq'' then en_State eng \<noteq> s
             else True
         | _ \<Rightarrow> True)
      else if mf_Field f = ''created_after'' then
        (case mf_Value f of VTime t \<Rightarrow> en_CreatedAt eng > t | _ \<Rightarrow> True)
      else if mf_Field f = ''created_before'' then
        (case mf_Value f of VTime t \<Rightarrow> en_CreatedAt eng < t | _ \<Rightarrow> True)
      else if mf_Field f = ''tags_all'' then
        (let want = asStringSlice (mf_Value f)
         in if length want > 0 then list_all (\<lambda>w. w \<in> tagSet (en_Tags eng)) want else True)
      else if mf_Field f = ''tags_any'' then
        (let want = asStringSlice (mf_Value f)
         in if length want > 0 then list_ex (\<lambda>w. w \<in> tagSet (en_Tags eng)) want else True)
      else if mf_Field f = ''tag_prefix'' then
        (case asPair (mf_Value f) of
           None \<Rightarrow> True
         | Some (pre, bound) \<Rightarrow> tag_prefix_matched (mf_Op f) pre bound (en_Tags eng))
      else True)"

fun PassesMetaFilter :: "'f Engram \<Rightarrow> 'f MFilter list \<Rightarrow> bool" where
  "PassesMetaFilter eng [] = True"
| "PassesMetaFilter eng (f # fs) = (if \<not> passes_one eng f then False else PassesMetaFilter eng fs)"

text \<open>\<open>extractTimeBounds\<close>: the last bounds win; a zero time is no bound.\<close>

fun time_bounds_loop :: "'f MFilter list \<Rightarrow> time \<times> time \<times> bool \<Rightarrow> time \<times> time \<times> bool" where
  "time_bounds_loop [] acc = acc"
| "time_bounds_loop (f # fs) (since, before, hasBounds) =
     time_bounds_loop fs
       (if mf_Field f = ''created_after'' then
          (case mf_Value f of VTime t \<Rightarrow> (t, before, True) | _ \<Rightarrow> (since, before, hasBounds))
        else if mf_Field f = ''created_before'' then
          (case mf_Value f of VTime t \<Rightarrow> (since, t, True) | _ \<Rightarrow> (since, before, hasBounds))
        else (since, before, hasBounds))"

definition extractTimeBounds :: "'f MFilter list \<Rightarrow> time \<times> time \<times> bool" where
  "extractTimeBounds filters = time_bounds_loop filters (0, 0, False)"

type_synonym tagPrefixFilter = "string \<times> string \<times> string"

fun extractTagFilters :: "'f MFilter list \<Rightarrow> string list \<times> string list \<times> tagPrefixFilter list" where
  "extractTagFilters [] = ([], [], [])"
| "extractTagFilters (f # fs) =
     (let (tagsAll, tagsAny, tagPrefix) = extractTagFilters fs
      in if mf_Field f = ''tags_all'' then (asStringSlice (mf_Value f) @ tagsAll, tagsAny, tagPrefix)
         else if mf_Field f = ''tags_any'' then (tagsAll, asStringSlice (mf_Value f) @ tagsAny, tagPrefix)
         else if mf_Field f = ''tag_prefix'' then
           (case asPair (mf_Value f) of
              Some (p, b) \<Rightarrow> (tagsAll, tagsAny, (p, mf_Op f, b) # tagPrefix)
            | None \<Rightarrow> (tagsAll, tagsAny, tagPrefix))
         else (tagsAll, tagsAny, tagPrefix))"

section \<open>Facts\<close>

lemma PassesMetaFilter_iff: "PassesMetaFilter eng fs \<longleftrightarrow> list_all (passes_one eng) fs"
  by (induction fs) auto

lemma PassesMetaFilter_append [simp]:
  "PassesMetaFilter eng (fs @ gs) \<longleftrightarrow> PassesMetaFilter eng fs \<and> PassesMetaFilter eng gs"
  by (simp add: PassesMetaFilter_iff)

end
