(* ===== verification/Mql_Executor.thy ===== *)
theory Mql_Executor
  imports Mql_Parser Query_Filter Activation_Filter
begin

text \<open>
  The executor of the query language (\<open>internal/query/mql/executor.go\<close>): the translation of a
  WHERE predicate to a structured filter and to the filters of an activation request, the
  defaults of a request, and the dispatch over the kinds of query.  The engine is a parameter:
  its \<open>Activate\<close> and, when it offers a method of exactly the asserted signature, its
  \<open>ActivateWithStructuredFilter\<close>.  A nil pointer is \<open>None\<close>.
\<close>

record 'f ActivateRequest =
  ar_Vault :: string
  ar_Context :: "string list"
  ar_MaxResults :: int
  ar_MaxHops :: int
  ar_Filters :: "'f MFilter list"

datatype 'e exec_error =
    EngineNil | QueryNil | StoreNil string
  | InvalidState string | UnknownScoreField string | OrUnsupported
  | NotActivate | ParseFailed parse_error | EngineError 'e

record ('f, 'r, 'e) Engine =
  eg_Activate :: "'f ActivateRequest \<Rightarrow> 'e + 'r"
  eg_ActivateWithStructuredFilter :: "('f ActivateRequest \<Rightarrow> 'f Filter \<Rightarrow> 'e + 'r) option"

datatype 'f rvalue = RStr string | RInt int | RFloat 'f | RBool bool

datatype ('f, 'r) exec_result = RActivate 'r | RMap "(string \<times> 'f rvalue) list"

section \<open>Filters from predicates\<close>

fun buildFilter :: "'f Filter \<Rightarrow> ('f, time) Predicate \<Rightarrow> 'e exec_error + 'f Filter" where
  "buildFilter f (StatePredicate s) =
     (case ParseLifecycleState s of
        Inl err \<Rightarrow> Inl (InvalidState err)
      | Inr st \<Rightarrow> Inr (f\<lparr>fl_States := fl_States f @ [st]\<rparr>))"
| "buildFilter f (ScorePredicate field op v) =
     (if field = ''relevance'' then
        (if op = ''>'' then Inr (f\<lparr>fl_MinRelevance := v\<rparr>)
         else if op = ''>='' then Inr (f\<lparr>fl_MinRelevance := v\<rparr>)
         else Inr f)
      else if field = ''confidence'' then
        (if op = ''>'' then Inr (f\<lparr>fl_MinConfidence := v\<rparr>)
         else if op = ''>='' then Inr (f\<lparr>fl_MinConfidence := v\<rparr>)
         else Inr f)
      else Inl (UnknownScoreField field))"
| "buildFilter f (TagPredicate t) = Inr (f\<lparr>fl_Tags := fl_Tags f @ [t]\<rparr>)"
| "buildFilter f (CreatorPredicate c) = Inr (f\<lparr>fl_Creator := c\<rparr>)"
| "buildFilter f (CreatedAfterPredicate t) = Inr (f\<lparr>fl_CreatedAfter := Some t\<rparr>)"
| "buildFilter f (AndPredicate a b) =
     (case buildFilter f a of
        Inl err \<Rightarrow> Inl err
      | Inr g \<Rightarrow> buildFilter g b)"
| "buildFilter f (OrPredicate a b) = Inl OrUnsupported"
| "buildFilter f (ProvenanceSourcePredicate s) = Inr f"
| "buildFilter f (ProvenanceAgentPredicate s) = Inr f"

definition mfilter :: "string \<Rightarrow> string \<Rightarrow> 'f fvalue \<Rightarrow> 'f MFilter" where
  "mfilter field op v = \<lparr>mf_Field = field, mf_Op = op, mf_Value = v\<rparr>"

definition convertFilterToMBPFilters :: "'f :: {linorder, zero} Filter \<Rightarrow> 'f MFilter list" where
  "convertFilterToMBPFilters f =
     map (\<lambda>state. mfilter ''state'' ''='' (VState state)) (fl_States f) @
     map (\<lambda>tag. mfilter ''tag'' ''='' (VString tag)) (fl_Tags f) @
     (if fl_Creator f \<noteq> '''' then [mfilter ''creator'' ''='' (VString (fl_Creator f))] else []) @
     (case fl_CreatedAfter f of None \<Rightarrow> [] | Some t \<Rightarrow> [mfilter ''created_after'' ''>='' (VTime t)]) @
     (if fl_MinRelevance f > 0 then [mfilter ''relevance'' ''>='' (VFloat (fl_MinRelevance f))] else []) @
     (if fl_MinConfidence f > 0 then [mfilter ''confidence'' ''>='' (VFloat (fl_MinConfidence f))] else []) @
     (if fl_MinStability f > 0 then [mfilter ''stability'' ''>='' (VFloat (fl_MinStability f))] else [])"

section \<open>Requests\<close>

text \<open>The request \<open>Execute\<close> builds, and the structured filter it keeps.\<close>

definition activate_request :: "('f :: {linorder, zero}, time) ActivateQuery \<Rightarrow>
    'e exec_error + 'f ActivateRequest \<times> 'f Filter option" where
  "activate_request q =
     (let req = \<lparr>ar_Vault = aq_Vault q, ar_Context = aq_Context q,
            ar_MaxResults = (if aq_MaxResults q > 0 then aq_MaxResults q else 20),
            ar_MaxHops = (if aq_Hops q > 0 then aq_Hops q else 2), ar_Filters = []\<rparr>;
          filtered = (case aq_Where q of
              None \<Rightarrow> Inr (req, None)
            | Some p \<Rightarrow>
                (case buildFilter empty_filter p of
                   Inl err \<Rightarrow> Inl err
                 | Inr flt \<Rightarrow>
                     Inr (req\<lparr>ar_Filters := convertFilterToMBPFilters flt\<rparr>, Some flt)))
      in case filtered of
           Inl err \<Rightarrow> Inl err
         | Inr (req, structuredFilter) \<Rightarrow>
             Inr (if aq_MinRelevance q > 0
                  then req\<lparr>ar_Filters := ar_Filters req @
                             [mfilter ''relevance'' ''>='' (VFloat (aq_MinRelevance q))]\<rparr>
                  else req, structuredFilter))"

definition engine_result :: "'e + 'r \<Rightarrow> 'e exec_error + 'r" where
  "engine_result r = map_sum EngineError id r"

definition Execute :: "('f :: {linorder, zero}, 'r, 'e) Engine option \<Rightarrow>
    ('f, time) ActivateQuery option \<Rightarrow> 'e exec_error + 'r" where
  "Execute eng q =
     (case eng of
        None \<Rightarrow> Inl EngineNil
      | Some eng \<Rightarrow>
          (case q of
             None \<Rightarrow> Inl QueryNil
           | Some q \<Rightarrow>
               (case activate_request q of
                  Inl err \<Rightarrow> Inl err
                | Inr (req, structuredFilter) \<Rightarrow>
                    (case (structuredFilter, eg_ActivateWithStructuredFilter eng) of
                       (Some f, Some ext) \<Rightarrow> engine_result (ext req f)
                     | _ \<Rightarrow> engine_result (eg_Activate eng req)))))"

section \<open>The other queries, which answer with a placeholder\<close>

definition not_yet :: "string \<times> 'f rvalue" where
  "not_yet = (''status'', RStr ''not_yet_implemented'')"

definition executeRecallEpisode :: "'s option \<Rightarrow> RecallEpisodeQuery \<Rightarrow>
    'e exec_error + ('f, 'r) exec_result" where
  "executeRecallEpisode episodicStore q =
     (if episodicStore = None then Inl (StoreNil ''episodic store is nil'')
      else Inr (RMap [(''query_type'', RStr ''recall_episode''), (''episode_id'', RStr (rq_EpisodeID q)),
             (''frames'', RInt (rq_Frames q)), not_yet]))"

definition executeTraverse :: "('f, 'r, 'e) Engine option \<Rightarrow> 'f TraverseQuery \<Rightarrow>
    'e exec_error + ('f, 'r) exec_result" where
  "executeTraverse eng q =
     (if eng = None then Inl EngineNil
      else Inr (RMap [(''query_type'', RStr ''traverse''), (''start_id'', RStr (tq_StartID q)),
             (''hops'', RInt (tq_Hops q)), (''min_weight'', RFloat (tq_MinWeight q)), not_yet]))"

definition executeConsolidate :: "'w option \<Rightarrow> ConsolidateQuery \<Rightarrow>
    'e exec_error + ('f, 'r) exec_result" where
  "executeConsolidate consolidationWorker q =
     (if consolidationWorker = None then Inl (StoreNil ''consolidation worker is nil'')
      else Inr (RMap [(''query_type'', RStr ''consolidate''), (''vault'', RStr (cq_Vault q)),
             (''dry_run'', RBool (cq_DryRun q)), not_yet]))"

definition executeWorkingMemory :: "'m option \<Rightarrow> WorkingMemoryQuery \<Rightarrow>
    'e exec_error + ('f, 'r) exec_result" where
  "executeWorkingMemory workingManager q =
     (if workingManager = None then Inl (StoreNil ''working memory manager is nil'')
      else Inr (RMap [(''query_type'', RStr ''working_memory''), (''session_id'', RStr (wq_SessionID q)),
             not_yet]))"

definition ExecuteQuery :: "('f :: {linorder, zero}, 'r, 'e) Engine option \<Rightarrow> ('f, time) Query option \<Rightarrow>
    's option \<Rightarrow> 'm option \<Rightarrow> 'w option \<Rightarrow> 'e exec_error + ('f, 'r) exec_result" where
  "ExecuteQuery eng q episodicStore workingManager consolidationWorker =
     (case q of
        None \<Rightarrow> Inl QueryNil
      | Some (QActivate a) \<Rightarrow> map_sum id RActivate (Execute eng (Some a))
      | Some (QRecall a) \<Rightarrow> executeRecallEpisode episodicStore a
      | Some (QTraverse a) \<Rightarrow> executeTraverse eng a
      | Some (QConsolidate a) \<Rightarrow> executeConsolidate consolidationWorker a
      | Some (QWorkingMemory a) \<Rightarrow> executeWorkingMemory workingManager a)"

section \<open>ParseAndExecute\<close>

text \<open>\<open>strings.TrimSpace\<close> cuts the UTF-8 encodings of the code points of Unicode's White_Space
  from both ends.\<close>

definition space_encodings :: "string list" where
  "space_encodings =
     map (\<lambda>c. [c]) [CHR 0x09, CHR 0x0A, CHR 0x0B, CHR 0x0C, CHR 0x0D, CHR 0x20] @
     [[CHR 0xC2, CHR 0x85], [CHR 0xC2, CHR 0xA0], [CHR 0xE1, CHR 0x9A, CHR 0x80]] @
     map (\<lambda>n. [CHR 0xE2, CHR 0x80, char_of (n :: nat)]) [0x80..<0x8B] @
     [[CHR 0xE2, CHR 0x80, CHR 0xA8], [CHR 0xE2, CHR 0x80, CHR 0xA9], [CHR 0xE2, CHR 0x80, CHR 0xAF],
      [CHR 0xE2, CHR 0x81, CHR 0x9F], [CHR 0xE3, CHR 0x80, CHR 0x80]]"

fun trim_left :: "string list \<Rightarrow> nat \<Rightarrow> string \<Rightarrow> string" where
  "trim_left spaces 0 s = s"
| "trim_left spaces (Suc n) s =
     (case find (\<lambda>e. prefix e s) spaces of
        None \<Rightarrow> s
      | Some e \<Rightarrow> trim_left spaces n (drop (length e) s))"

definition TrimSpace :: "string \<Rightarrow> string" where
  "TrimSpace s =
     (let l = trim_left space_encodings (length s) s
      in rev (trim_left (map rev space_encodings) (length l) (rev l)))"

definition ParseAndExecute :: "(string \<Rightarrow> 'f :: {linorder, zero} option) \<Rightarrow> (string \<Rightarrow> time option) \<Rightarrow>
    ('f, 'r, 'e) Engine option \<Rightarrow> string \<Rightarrow> 'e exec_error + 'r" where
  "ParseAndExecute pf pt eng mqlStr =
     (case Parse pf pt (TrimSpace mqlStr) of
        Inl err \<Rightarrow> Inl (ParseFailed err)
      | Inr (QActivate q) \<Rightarrow> Execute eng (Some q)
      | Inr _ \<Rightarrow> Inl NotActivate)"

section \<open>What a predicate means, and which ones the filter expresses\<close>

fun holds :: "('f :: linorder, time) Predicate \<Rightarrow> 'f Engram \<Rightarrow> bool" where
  "holds (StatePredicate s) e \<longleftrightarrow> ParseLifecycleState s = Inr (en_State e)"
| "holds (ScorePredicate field op v) e \<longleftrightarrow>
     (let score = (if field = ''relevance'' then en_Relevance e else en_Confidence e)
      in if op = ''>'' then v < score else v \<le> score)"
| "holds (TagPredicate t) e \<longleftrightarrow> t \<in> set (en_Tags e)"
| "holds (CreatorPredicate c) e \<longleftrightarrow> en_CreatedBy e = c"
| "holds (CreatedAfterPredicate t) e \<longleftrightarrow> t < en_CreatedAt e"
| "holds (AndPredicate a b) e \<longleftrightarrow> holds a e \<and> holds b e"
| "holds (OrPredicate a b) e \<longleftrightarrow> holds a e \<or> holds b e"
| "holds (ProvenanceSourcePredicate s) e \<longleftrightarrow> True"
| "holds (ProvenanceAgentPredicate s) e \<longleftrightarrow> True"

datatype slot = SState | SRelevance | SConfidence | SCreator | SAfter

text \<open>The single-valued fields of the filter that a predicate sets; the filter expresses a
  conjunction that sets each at most once.\<close>

fun slots :: "('f, time) Predicate \<Rightarrow> slot list" where
  "slots (StatePredicate s) = [SState]"
| "slots (ScorePredicate field op v) = [if field = ''relevance'' then SRelevance else SConfidence]"
| "slots (CreatorPredicate c) = [SCreator]"
| "slots (CreatedAfterPredicate t) = [SAfter]"
| "slots (AndPredicate a b) = slots a @ slots b"
| "slots _ = []"

fun expressible :: "('f :: {linorder, zero}, time) Predicate \<Rightarrow> bool" where
  "expressible (StatePredicate s) \<longleftrightarrow> s \<in> fst ` set lifecycle_names"
| "expressible (ScorePredicate field op v) \<longleftrightarrow>
     (field = ''relevance'' \<or> field = ''confidence'') \<and> op = ''>='' \<and> 0 < v"
| "expressible (TagPredicate t) \<longleftrightarrow> True"
| "expressible (CreatorPredicate c) \<longleftrightarrow> c \<noteq> ''''"
| "expressible (CreatedAfterPredicate t) \<longleftrightarrow> True"
| "expressible (AndPredicate a b) \<longleftrightarrow> expressible a \<and> expressible b"
| "expressible (OrPredicate a b) \<longleftrightarrow> False"
| "expressible (ProvenanceSourcePredicate s) \<longleftrightarrow> False"
| "expressible (ProvenanceAgentPredicate s) \<longleftrightarrow> False"

fun unset :: "'f :: zero Filter \<Rightarrow> slot \<Rightarrow> bool" where
  "unset f SState \<longleftrightarrow> fl_States f = []"
| "unset f SRelevance \<longleftrightarrow> fl_MinRelevance f = 0"
| "unset f SConfidence \<longleftrightarrow> fl_MinConfidence f = 0"
| "unset f SCreator \<longleftrightarrow> fl_Creator f = ''''"
| "unset f SAfter \<longleftrightarrow> fl_CreatedAfter f = None"

lemma ParseLifecycleState_ok: "s \<in> fst ` set lifecycle_names \<Longrightarrow> \<exists>st. ParseLifecycleState s = Inr st"
  by (cases "map_of lifecycle_names s") (simp_all add: ParseLifecycleState_def map_of_eq_None_iff)

lemma buildFilter_sound:
  "expressible p \<Longrightarrow> distinct (slots p) \<Longrightarrow> list_all (unset f) (slots p) \<Longrightarrow>
   \<exists>g. (buildFilter f p :: 'e exec_error + _) = Inr g \<and> (Match g e \<longleftrightarrow> Match f e \<and> holds p e) \<and>
     (\<forall>k. k \<notin> set (slots p) \<longrightarrow> unset f k \<longrightarrow> unset g k)"
proof (induction p arbitrary: f)
  case (StatePredicate s)
  then obtain st where st: "ParseLifecycleState s = Inr st" using ParseLifecycleState_ok by auto
  have "unset (f\<lparr>fl_States := fl_States f @ [st]\<rparr>) k" if "k \<noteq> SState" "unset f k" for k
    using that by (cases k) simp_all
  moreover have "Match (f\<lparr>fl_States := [st]\<rparr>) e \<longleftrightarrow> Match f e \<and> en_State e = st" if "fl_States f = []"
    using that by (simp add: Match_iff conj_ac)
  ultimately show ?case
    using StatePredicate st by (intro exI[of _ "f\<lparr>fl_States := [st]\<rparr>"]) auto
next
  case (ScorePredicate field op v)
  have "unset (f\<lparr>fl_MinRelevance := v\<rparr>) k" if "k \<noteq> SRelevance" "unset f k" for k
    using that by (cases k) simp_all
  moreover have "unset (f\<lparr>fl_MinConfidence := v\<rparr>) k" if "k \<noteq> SConfidence" "unset f k" for k
    using that by (cases k) simp_all
  moreover have "Match (f\<lparr>fl_MinRelevance := v\<rparr>) e \<longleftrightarrow> Match f e \<and> v \<le> en_Relevance e"
    if "fl_MinRelevance f = 0" "0 < v"
    using that[folded not_le] by (simp add: Match_iff conj_ac del: not_le)
  moreover have "Match (f\<lparr>fl_MinConfidence := v\<rparr>) e \<longleftrightarrow> Match f e \<and> v \<le> en_Confidence e"
    if "fl_MinConfidence f = 0" "0 < v"
    using that[folded not_le] by (simp add: Match_iff conj_ac del: not_le)
  moreover from ScorePredicate.prems have "op = ''>=''" "0 < v"
    "field = ''relevance'' \<and> fl_MinRelevance f = 0 \<or> field = ''confidence'' \<and> fl_MinConfidence f = 0"
    by auto
  ultimately show ?case
  proof (elim disjE conjE, goal_cases)
    case 1
    then show ?case by (intro exI[of _ "f\<lparr>fl_MinRelevance := v\<rparr>"]) simp
  next
    case 2
    then show ?case by (intro exI[of _ "f\<lparr>fl_MinConfidence := v\<rparr>"]) simp
  qed
next
  case (TagPredicate t)
  have "unset (f\<lparr>fl_Tags := fl_Tags f @ [t]\<rparr>) k" if "unset f k" for k
    using that by (cases k) simp_all
  then show ?case by (auto simp: Match_iff)
next
  case (CreatorPredicate c)
  have "unset (f\<lparr>fl_Creator := c\<rparr>) k" if "k \<noteq> SCreator" "unset f k" for k
    using that by (cases k) simp_all
  with CreatorPredicate show ?case by (auto simp: Match_iff)
next
  case (CreatedAfterPredicate t)
  have "unset (f\<lparr>fl_CreatedAfter := Some t\<rparr>) k" if "k \<noteq> SAfter" "unset f k" for k
    using that by (cases k) simp_all
  with CreatedAfterPredicate show ?case by (auto simp: Match_iff)
next
  case (AndPredicate a b)
  have p: "expressible a" "expressible b" "distinct (slots a)" "distinct (slots b)"
    "list_all (unset f) (slots a)" "list_all (unset f) (slots b)" "set (slots a) \<inter> set (slots b) = {}"
    using AndPredicate.prems by simp_all
  obtain g where
    g: "(buildFilter f a :: 'e exec_error + _) = Inr g" "Match g e \<longleftrightarrow> Match f e \<and> holds a e"
      "\<And>k. k \<notin> set (slots a) \<Longrightarrow> unset f k \<Longrightarrow> unset g k"
    using AndPredicate.IH(1)[OF p(1,3,5)] by blast
  have "list_all (unset g) (slots b)"
    using p(6,7) g(3) by (auto simp: list_all_iff)
  from AndPredicate.IH(2)[OF p(2,4) this] obtain h where
    h: "(buildFilter g b :: 'e exec_error + _) = Inr h" "Match h e \<longleftrightarrow> Match g e \<and> holds b e"
      "\<And>k. k \<notin> set (slots b) \<Longrightarrow> unset g k \<Longrightarrow> unset h k"
    by blast
  show ?case
    using g(3) h(3) by (intro exI[of _ h]) (simp add: g(1,2) h(1,2))
qed auto

section \<open>What recall sees of a translated filter\<close>

lemma passes_state_eq: "PassesMetaFilter e (map (\<lambda>s. mfilter ''state'' ''='' (VState s)) ss)"
  by (induction ss) (simp_all add: passes_one_def mfilter_def)

lemma passes_tag: "PassesMetaFilter e (map (\<lambda>t. mfilter ''tag'' ''='' (VString t)) ts)"
  by (induction ts) (simp_all add: passes_one_def mfilter_def)

lemma passes_converted:
  "PassesMetaFilter e (convertFilterToMBPFilters f) \<longleftrightarrow>
     (\<forall>t \<in> set_option (fl_CreatedAfter f). t < en_CreatedAt e)"
  by (simp add: convertFilterToMBPFilters_def passes_state_eq passes_tag split: option.split)
    (simp add: passes_one_def mfilter_def)

end
