(* ===== verification/Query_Props.thy ===== *)
theory Query_Props
  imports Mql_Executor
begin

text \<open>
  The properties of the query executor and of the filters: where the structured filter means
  what the predicate says and where not, what recall sees of the translated request, and
  pagination.
\<close>

section \<open>An example engram\<close>

definition demo_engram :: "int Engram" where
  "demo_engram = \<lparr>en_ID = replicate 16 0, en_CreatedAt = 100, en_UpdatedAt = 100, en_LastAccess = 100,
     en_Confidence = 5, en_Relevance = 5, en_Stability = 5, en_AccessCount = 0, en_State = StateActive,
     en_EmbedDim = EmbedNone, en_Concept = ''c'', en_CreatedBy = ''a'', en_Content = ''x'',
     en_Tags = [''t''], en_Associations = [], en_Embedding = [], en_Summary = '''', en_KeyPoints = [],
     en_MemoryType = TypeFact, en_TypeLabel = '''', en_Classification = 0, en_Trust = TrustUnset,
     en_ValidFrom = 0, en_ValidUntil = 0, en_Importance = 0\<rparr>"

section \<open>Lemmas\<close>

lemma activate_request_filters:
  assumes "activate_request q = Inr (req, Some f)"
  shows "\<exists>extra. ar_Filters req = convertFilterToMBPFilters f @ extra \<and> PassesMetaFilter e extra"
  using assms
  by (auto simp: activate_request_def Let_def passes_one_def mfilter_def
      split: option.splits sum.splits if_splits)

lemma parse_names: "ParseLifecycleState ''active'' = Inr StateActive"
  "ParseLifecycleState ''archived'' = Inr StateArchived"
  by (simp_all add: ParseLifecycleState_def lifecycle_names_def)

lemma buildFilter_two:
  "buildFilter f (AndPredicate a b) = (case buildFilter f a of Inl err \<Rightarrow> Inl err | Inr g \<Rightarrow> buildFilter g b)"
  by simp

section \<open>Properties\<close>

text \<open>The conjuncts of a predicate, and what the filter makes of a list of conjuncts: several states are an
  alternative; the last relevance, confidence, creator and creation time count; a score is compared with
  \<open>\<le>\<close> whichever of \<open>>\<close> and \<open>>=\<close> was written; an empty creator and a threshold that is not positive
  restrict nothing; provenance is not looked at.\<close>

fun conjuncts :: "('f, time) Predicate \<Rightarrow> ('f, time) Predicate list" where
  "conjuncts (AndPredicate a b) = conjuncts a @ conjuncts b"
| "conjuncts p = [p]"

definition last_or :: "'a \<Rightarrow> 'a list \<Rightarrow> 'a" where
  "last_or d xs = (if xs = [] then d else last xs)"

fun states_of :: "('f, time) Predicate \<Rightarrow> LifecycleState list" where
  "states_of (StatePredicate s) = (case ParseLifecycleState s of Inl err \<Rightarrow> [] | Inr st \<Rightarrow> [st])"
| "states_of p = []"

fun tags_of :: "('f, time) Predicate \<Rightarrow> string list" where
  "tags_of (TagPredicate t) = [t]"
| "tags_of p = []"

fun creators_of :: "('f, time) Predicate \<Rightarrow> string list" where
  "creators_of (CreatorPredicate c) = [c]"
| "creators_of p = []"

fun afters_of :: "('f, time) Predicate \<Rightarrow> time list" where
  "afters_of (CreatedAfterPredicate t) = [t]"
| "afters_of p = []"

fun scores_of :: "string \<Rightarrow> ('f, time) Predicate \<Rightarrow> 'f list" where
  "scores_of field (ScorePredicate g op v) = (if g = field \<and> (op = ''>'' \<or> op = ''>='') then [v] else [])"
| "scores_of field p = []"

fun convertible :: "('f, time) Predicate \<Rightarrow> bool" where
  "convertible (StatePredicate s) \<longleftrightarrow> s \<in> fst ` set lifecycle_names"
| "convertible (ScorePredicate g op v) \<longleftrightarrow> g = ''relevance'' \<or> g = ''confidence''"
| "convertible (OrPredicate a b) \<longleftrightarrow> False"
| "convertible p \<longleftrightarrow> True"

definition admits :: "('f :: {linorder, zero}, time) Predicate list \<Rightarrow> 'f Engram \<Rightarrow> bool" where
  "admits ps e \<longleftrightarrow>
     (let states = concat (map states_of ps); creator = last_or '''' (concat (map creators_of ps));
          rel = last_or 0 (concat (map (scores_of ''relevance'') ps));
          con = last_or 0 (concat (map (scores_of ''confidence'') ps));
          afters = concat (map afters_of ps)
      in (states = [] \<or> en_State e \<in> set states) \<and>
         set (concat (map tags_of ps)) \<subseteq> set (en_Tags e) \<and>
         (creator = '''' \<or> en_CreatedBy e = creator) \<and>
         (rel \<le> 0 \<or> rel \<le> en_Relevance e) \<and> (con \<le> 0 \<or> con \<le> en_Confidence e) \<and>
         (afters = [] \<or> last afters < en_CreatedAt e))"

lemma last_or_append: "last_or d (xs @ ys) = last_or (last_or d xs) ys"
  by (simp add: last_or_def)

lemma last_or_simps [simp]: "last_or d [] = d" "last_or d [x] = x"
  by (simp_all add: last_or_def)

lemma ParseLifecycleState_Inr: "ParseLifecycleState s = Inr st \<Longrightarrow> s \<in> fst ` set lifecycle_names"
  by (auto simp: ParseLifecycleState_def split: option.splits dest!: map_of_SomeD intro: rev_image_eqI)

lemma ParseLifecycleState_Inl: "ParseLifecycleState s = Inl err \<Longrightarrow> s \<notin> fst ` set lifecycle_names"
  by (auto dest!: ParseLifecycleState_ok)

lemma buildFilter_fields:
  "case (buildFilter f p :: 'e exec_error + _) of
     Inl err \<Rightarrow> \<exists>q \<in> set (conjuncts p). \<not> convertible q
   | Inr g \<Rightarrow> (\<forall>q \<in> set (conjuncts p). convertible q) \<and>
      g = f\<lparr>fl_States := fl_States f @ concat (map states_of (conjuncts p)),
            fl_Tags := fl_Tags f @ concat (map tags_of (conjuncts p)),
            fl_Creator := last_or (fl_Creator f) (concat (map creators_of (conjuncts p))),
            fl_MinRelevance := last_or (fl_MinRelevance f) (concat (map (scores_of ''relevance'') (conjuncts p))),
            fl_MinConfidence := last_or (fl_MinConfidence f) (concat (map (scores_of ''confidence'') (conjuncts p))),
            fl_CreatedAfter := last_or (fl_CreatedAfter f) (map Some (concat (map afters_of (conjuncts p))))\<rparr>"
proof (induction p arbitrary: f)
  case (StatePredicate s)
  then show ?case
    using ParseLifecycleState_Inr[of s] ParseLifecycleState_Inl[of s]
    by (cases "ParseLifecycleState s") simp_all
next
  case (AndPredicate a b)
  show ?case
  proof (cases "buildFilter f a :: 'e exec_error + _")
    case (Inl err)
    then show ?thesis using AndPredicate.IH(1)[of f] by auto
  next
    case (Inr g)
    show ?thesis
    proof (cases "buildFilter g b :: 'e exec_error + _")
      case (Inl err)
      then show ?thesis using AndPredicate.IH(2)[of g] Inr by auto
    next
      case (Inr h)
      then show ?thesis
        using AndPredicate.IH(1)[of f] AndPredicate.IH(2)[of g] \<open>buildFilter f a = Inr g\<close>
        by (auto simp: last_or_append)
    qed
  qed
qed auto

text \<open>C11. What a WHERE predicate becomes.  \<open>buildFilter\<close> fails exactly when some conjunct is a
  disjunction, names a state that does not exist or a score other than relevance and confidence;
  otherwise the filter admits exactly the engrams that the reading of the conjuncts above admits.  For a
  predicate whose conjuncts name each of state, relevance, confidence, creator and creation time at most
  once, with thresholds above zero under \<open>>=\<close>, a creator that is not empty and no provenance, that
  reading is the predicate's own meaning.\<close>

theorem where_filter_exact:
  "(case (buildFilter empty_filter p :: unit exec_error + 'f :: {linorder, zero} Filter) of
      Inl err \<Rightarrow> \<not> (\<forall>q \<in> set (conjuncts p). convertible q)
    | Inr g \<Rightarrow> (\<forall>q \<in> set (conjuncts p). convertible q) \<and> (Match g e \<longleftrightarrow> admits (conjuncts p) e)) \<and>
   (expressible p \<and> distinct (slots p) \<longrightarrow> (admits (conjuncts p) e \<longleftrightarrow> holds p e))"
proof -
  let ?b = "buildFilter empty_filter p :: unit exec_error + 'f Filter"
  have after: "(\<forall>t \<in> set_option (last_or None (map Some ts)). t < x) \<longleftrightarrow> ts = [] \<or> last ts < x"
    for ts :: "time list" and x
    by (auto simp: last_or_def last_map)
  have m: "Match g e \<longleftrightarrow> admits (conjuncts p) e" if "?b = Inr g" for g
    using buildFilter_fields[of p empty_filter, where 'e = unit] that
    by (auto simp: Match_iff admits_def empty_filter_def Let_def after)
  have "case ?b of Inl err \<Rightarrow> \<not> (\<forall>q \<in> set (conjuncts p). convertible q)
      | Inr g \<Rightarrow> (\<forall>q \<in> set (conjuncts p). convertible q) \<and> (Match g e \<longleftrightarrow> admits (conjuncts p) e)"
    using buildFilter_fields[of p empty_filter, where 'e = unit] m by (auto split: sum.splits)
  moreover have "admits (conjuncts p) e \<longleftrightarrow> holds p e" if "expressible p" "distinct (slots p)"
  proof -
    have "unset (empty_filter :: 'f Filter) k" for k by (cases k) (simp_all add: empty_filter_def)
    then have "list_all (unset (empty_filter :: 'f Filter)) (slots p)" by (simp add: list_all_iff)
    from buildFilter_sound[OF that this, where e = e and 'e = unit] m show ?thesis
      by (auto simp: Match_empty)
  qed
  ultimately show ?thesis by blast
qed

lemma where_filter_exact_witness:
  "case (buildFilter empty_filter (AndPredicate (StatePredicate ''active'') (TagPredicate ''t''))
      :: unit exec_error + int Filter) of
     Inl err \<Rightarrow> False | Inr g \<Rightarrow> Match g demo_engram"
proof -
  let ?p = "AndPredicate (StatePredicate ''active'') (TagPredicate ''t'') :: (int, time) Predicate"
  have "expressible ?p" "distinct (slots ?p)" by (simp_all add: lifecycle_names_def)
  moreover have "holds ?p demo_engram" by (simp add: demo_engram_def parse_names)
  moreover have "\<forall>q \<in> set (conjuncts ?p). convertible q" by (simp add: lifecycle_names_def)
  ultimately show ?thesis using where_filter_exact[of ?p demo_engram] by (auto split: sum.splits)
qed

text \<open>A conjunction that names a field twice is not what the filter tests: two states are an
  alternative instead of a contradiction, and of two thresholds only the later counts, so that
  \<open>relevance >= u AND relevance >= v\<close> admits what \<open>relevance >= v\<close> alone does.  A strict threshold
  is tested as a weak one.\<close>

theorem where_filter_repeats:
  assumes "ParseLifecycleState a = Inr s" "ParseLifecycleState b = Inr t" "0 < v"
  shows "(case (buildFilter empty_filter (AndPredicate (StatePredicate a) (StatePredicate b))
      :: unit exec_error + 'f :: {linorder, zero} Filter) of
        Inl err \<Rightarrow> False | Inr g \<Rightarrow> Match g e \<longleftrightarrow> en_State e = s \<or> en_State e = t) \<and>
    (case (buildFilter empty_filter
        (AndPredicate (ScorePredicate ''relevance'' ''>='' u) (ScorePredicate ''relevance'' ''>'' v))
      :: unit exec_error + 'f Filter) of
        Inl err \<Rightarrow> False | Inr g \<Rightarrow> Match g e \<longleftrightarrow> v \<le> en_Relevance e)"
  using assms by (auto simp: Match_iff empty_filter_def)

theorem where_filter_repeats_witness:
  "case (buildFilter empty_filter (AndPredicate (StatePredicate ''active'') (StatePredicate ''archived''))
      :: unit exec_error + int Filter) of
     Inl err \<Rightarrow> False
   | Inr g \<Rightarrow> Match g demo_engram \<and> \<not> holds (AndPredicate (StatePredicate ''active'') (StatePredicate ''archived'')) demo_engram"
  using where_filter_repeats[OF parse_names, of 1 demo_engram 2]
  by (simp add: parse_names demo_engram_def lifecycle_defs split: sum.splits)

text \<open>C12. On an engine that does not offer a structured-filter method of exactly the asserted
  signature, as the one of \<open>internal/engine\<close> does not, the WHERE clause is all but ignored: the
  request is sent with the translated filters, and of those recall tests the creation time only.  The
  state filter carries the operator \<open>=\<close> where recall knows \<open>eq\<close> and \<open>neq\<close>, and the fields tag,
  creator, relevance, confidence and stability are unknown to it.\<close>

theorem where_clause_lost_in_recall:
  fixes act :: "'f :: {linorder, zero} ActivateRequest \<Rightarrow> 'e + 'r"
  assumes "(activate_request q :: 'e exec_error + _) = Inr (req, Some f)"
  shows "Execute (Some \<lparr>eg_Activate = act, eg_ActivateWithStructuredFilter = None\<rparr>) (Some q) =
      engine_result (act req) \<and>
    (PassesMetaFilter e (ar_Filters req) \<longleftrightarrow>
      (case fl_CreatedAfter f of None \<Rightarrow> True | Some t \<Rightarrow> t < en_CreatedAt e))"
proof -
  from activate_request_filters[OF assms, of e] obtain extra where
    "ar_Filters req = convertFilterToMBPFilters f @ extra" "PassesMetaFilter e extra" by blast
  then have "PassesMetaFilter e (ar_Filters req) \<longleftrightarrow>
      (case fl_CreatedAfter f of None \<Rightarrow> True | Some t \<Rightarrow> t < en_CreatedAt e)"
    by (simp add: passes_converted split: option.split)
  then show ?thesis using assms by (simp add: Execute_def)
qed

definition archived_query :: "(int, time) ActivateQuery" where
  "archived_query = \<lparr>aq_Vault = ''v'', aq_Context = [''x''],
     aq_Where = Some (StatePredicate ''archived''), aq_MaxResults = 0, aq_Hops = 0, aq_MinRelevance = 0\<rparr>"

theorem where_clause_lost_in_recall_witness:
  "case (activate_request archived_query :: unit exec_error + _) of
     Inl err \<Rightarrow> False
   | Inr (req, f) \<Rightarrow> PassesMetaFilter demo_engram (ar_Filters req) \<and>
       \<not> holds (StatePredicate ''archived'') demo_engram"
proof -
  obtain req f where r: "activate_request archived_query = (Inr (req, Some f) :: unit exec_error + _)"
    "fl_CreatedAfter f = None"
    by (simp add: activate_request_def archived_query_def parse_names empty_filter_def)
  from where_clause_lost_in_recall[OF r(1), where act = "\<lambda>req. Inr () :: unit + unit" and e = demo_engram] r
  show ?thesis by (simp add: parse_names demo_engram_def lifecycle_defs)
qed

text \<open>Pagination is exact for a filter that \<open>Validate\<close> accepts: \<open>Filter_Apply\<close> does not panic and
  returns the page of \<open>Limit\<close> engrams (20 when it is 0) that starts at \<open>Offset\<close>, in the order given,
  of the engrams that match, nil ones left out.  Without validation a negative offset panics.\<close>

theorem apply_is_the_page:
  assumes "Validate f = None" "fl_Offset g < 0"
  shows "Filter_Apply f es = Some (take (nat (if fl_Limit f = 0 then 20 else fl_Limit f))
      (drop (nat (fl_Offset f)) (filter (Match f) (map the (filter (\<lambda>p. p \<noteq> None) es))))) \<and>
    Filter_Apply g es = None"
proof -
  from Validate_ranges[OF assms(1)] have r: "0 \<le> fl_Limit f" "fl_Limit f \<le> 200" "0 \<le> fl_Offset f" by auto
  from r(2) have "page_size f = nat (if fl_Limit f = 0 then 20 else fl_Limit f)"
    by (simp add: page_size_def min_def)
  with Apply_page[OF r(1,3), of es] Apply_panics[OF assms(2)] show ?thesis
    by (simp only: Apply_filtered_eq simp_thms)
qed

theorem apply_is_the_page_witness:
  "Filter_Apply (empty_filter\<lparr>fl_Limit := 1, fl_Offset := 1\<rparr>) [Some demo_engram, None, Some (demo_engram\<lparr>en_State := 0\<rparr>)] =
    Some [demo_engram\<lparr>en_State := 0\<rparr>]"
  using apply_is_the_page[of "empty_filter\<lparr>fl_Limit := 1, fl_Offset := 1\<rparr>" "empty_filter\<lparr>fl_Offset := -1\<rparr>"
      "[Some demo_engram, None, Some (demo_engram\<lparr>en_State := 0\<rparr>)]"]
  by (simp add: Validate_def empty_filter_def Match_iff)

end
