(* ===== verification/Erf_Format.thy ===== *)
theory Erf_Format
  imports Storage_Types
begin

unbundle bit_operations_syntax

text \<open>
  The record format of the store (\<open>internal/storage/erf\<close>): \<open>format.go\<close>, \<open>crc.go\<close> and the types.
  A float32 is its IEEE bit pattern, which is all the codec moves.  \<open>UnixNano\<close> wraps to 64 bits as
  Go's does; a time is the number of nanoseconds since the zero time, the year 1.
\<close>

section \<open>format.go\<close>

definition Magic :: u32 where "Magic = 0x4D554E4E"
definition ErfVersion1 :: u8 where "ErfVersion1 = 1"
definition ErfVersion2 :: u8 where "ErfVersion2 = 2"

abbreviation FixedOverhead :: nat where "FixedOverhead \<equiv> 152"
abbreviation OffsetTablePos :: nat where "OffsetTablePos \<equiv> 108"
abbreviation VariableDataStart :: nat where "VariableDataStart \<equiv> 152"
abbreviation TrailerSize :: nat where "TrailerSize \<equiv> 4"
abbreviation AssocRecordSize :: nat where "AssocRecordSize \<equiv> 40"
abbreviation MaxConceptBytes :: nat where "MaxConceptBytes \<equiv> 512"
abbreviation MaxCreatedByBytes :: nat where "MaxCreatedByBytes \<equiv> 64"
abbreviation MaxContentBytes :: nat where "MaxContentBytes \<equiv> 16 * 1024"
abbreviation ContentCompressThreshold :: nat where "ContentCompressThreshold \<equiv> 512"
abbreviation MetaKeySize :: nat where "MetaKeySize \<equiv> VariableDataStart + MaxConceptBytes"

definition MetaKeySlice :: "bytes \<Rightarrow> bytes" where
  "MetaKeySlice data =
     (let n = MetaKeySize; n = (if n > length data then length data else n) in take n data)"

definition TagTypeLabel :: u8 where "TagTypeLabel = 0x19"
definition TagSummary :: u8 where "TagSummary = 0x1A"
definition TagKeyPoints :: u8 where "TagKeyPoints = 0x1B"

definition appendTaggedBytes :: "bytes \<Rightarrow> u8 \<Rightarrow> bytes \<Rightarrow> bytes" where
  "appendTaggedBytes buf tag data =
     (let data = (if length data > 0xFFFF then take 0xFFFF data else data)
      in buf @ [tag] @ [word_of_nat (length data div 256), word_of_nat (length data)] @ data)"

definition appendTaggedString :: "bytes \<Rightarrow> u8 \<Rightarrow> string \<Rightarrow> bytes" where
  "appendTaggedString buf tag s =
     (let data = str_bytes s;
          data = (if length data > 0xFFFF then take 0xFFFF data else data)
      in buf @ [tag] @ [word_of_nat (length data div 256), word_of_nat (length data)] @ data)"

section \<open>Fields of a buffer\<close>

text \<open>\<open>copy\<close> and the \<open>Put\<close> functions overwrite a part of the buffer; \<open>sub\<close> is a slice of it.\<close>

definition put :: "nat \<Rightarrow> bytes \<Rightarrow> bytes \<Rightarrow> bytes" where
  "put off bs buf = take off buf @ bs @ drop (off + length bs) buf"

definition sub :: "bytes \<Rightarrow> nat \<Rightarrow> nat \<Rightarrow> bytes" where
  "sub data off n = take n (drop off data)"

lemma length_put [simp]: "off + length bs \<le> length buf \<Longrightarrow> length (put off bs buf) = length buf"
  by (simp add: put_def)

lemma sub_put_same: "off + length bs \<le> length buf \<Longrightarrow> n = length bs \<Longrightarrow> sub (put off bs buf) off n = bs"
  by (simp add: put_def sub_def)

lemma sub_put_before: "off + n \<le> o' \<Longrightarrow> o' \<le> length buf \<Longrightarrow> sub (put o' bs buf) off n = sub buf off n"
  by (cases "off \<le> length buf") (auto simp: put_def sub_def drop_take min_def)

lemma sub_put_after:
  "o' + length bs \<le> off \<Longrightarrow> o' + length bs \<le> length buf \<Longrightarrow> sub (put o' bs buf) off n = sub buf off n"
  by (simp add: put_def sub_def)

lemma nth_put_same: "off < length buf \<Longrightarrow> put off [b] buf ! off = b"
  by (simp add: put_def nth_append)

lemma nth_put_other:
  "i < off \<or> off + length bs \<le> i \<Longrightarrow> off + length bs \<le> length buf \<Longrightarrow> i < length buf \<Longrightarrow>
   put off bs buf ! i = buf ! i"
  by (auto simp: put_def nth_append)

lemma put_append: "off + length bs \<le> length buf \<Longrightarrow> put off bs (buf @ ys) = put off bs buf @ ys"
  by (simp add: put_def)

lemma sub_append: "off + n \<le> length buf \<Longrightarrow> sub (buf @ ys) off n = sub buf off n"
  by (simp add: sub_def)

section \<open>crc.go\<close>

definition crc16_bit :: "u32 \<Rightarrow> u32" where
  "crc16_bit crc =
     (let crc = push_bit 1 crc
      in if crc AND 0x10000 \<noteq> 0 then crc XOR 0x1021 else crc)"

definition crc16_byte :: "u32 \<Rightarrow> u8 \<Rightarrow> u32" where
  "crc16_byte crc b = (crc16_bit ^^ 8) (crc XOR push_bit 8 (ucast b))"

definition ComputeCRC16 :: "bytes \<Rightarrow> u16" where
  "ComputeCRC16 data = ucast (foldl crc16_byte 0xFFFF data XOR 0xFFFF)"

definition VerifyCRC16 :: "bytes \<Rightarrow> bool" where
  "VerifyCRC16 data =
     (if length data < 8 then False
      else Uint16 (sub data 6 2) = ComputeCRC16 (sub data 0 6))"

text \<open>\<open>crc32.Checksum\<close> with the Castagnoli table, bit by bit.\<close>

definition crc32_bit :: "u32 \<Rightarrow> u32" where
  "crc32_bit crc = (drop_bit 1 crc) XOR (if crc AND 1 \<noteq> 0 then 0x82F63B78 else 0)"

definition crc32_byte :: "u32 \<Rightarrow> u8 \<Rightarrow> u32" where
  "crc32_byte crc b = (crc32_bit ^^ 8) (crc XOR ucast b)"

definition ComputeCRC32 :: "bytes \<Rightarrow> u32" where
  "ComputeCRC32 data = NOT (foldl crc32_byte 0xFFFFFFFF data)"

definition VerifyCRC32 :: "bytes \<Rightarrow> bool" where
  "VerifyCRC32 data =
     (if length data < 5 then False
      else let trailerPos = length data - 4
           in Uint32 (sub data trailerPos 4) = ComputeCRC32 (take trailerPos data))"

lemma crc_of_nothing: "ComputeCRC16 [] = 0" "ComputeCRC32 [] = 0"
  by (simp_all add: ComputeCRC16_def ComputeCRC32_def)

section \<open>A changed byte changes the checksum\<close>

lemma and_one_bit: "c AND 1 \<noteq> 0 \<longleftrightarrow> bit c 0" for c :: u32
  by (simp add: and_one_eq mod2_eq_if bit_0)

lemma bit_crc32_bit:
  "bit (crc32_bit c) n \<longleftrightarrow> bit c (Suc n) \<noteq> (bit c 0 \<and> bit (0x82F63B78 :: u32) n)"
  by (simp add: crc32_bit_def and_one_bit bit_xor_iff bit_drop_bit_eq)

lemma crc32_bit_inject: "crc32_bit c = crc32_bit d \<Longrightarrow> c = d"
proof -
  assume eq: "crc32_bit c = crc32_bit d"
  have top: "\<not> bit c 32" "\<not> bit d 32" by (auto dest: bit_imp_le_length)
  have "bit (0x82F63B78 :: u32) 31" by simp
  with top bit_crc32_bit[of c 31] bit_crc32_bit[of d 31] eq have z: "bit c 0 = bit d 0" by simp
  have "bit c n = bit d n" for n
  proof (cases n)
    case 0
    with z show ?thesis by simp
  next
    case (Suc m)
    with z eq bit_crc32_bit[of c m] bit_crc32_bit[of d m] show ?thesis by auto
  qed
  then show "c = d" by (simp add: bit_eq_iff)
qed

lemma crc32_bits_inject: "(crc32_bit ^^ n) c = (crc32_bit ^^ n) d \<longleftrightarrow> c = d"
  by (induction n) (auto dest: crc32_bit_inject)

lemma xor_cancel: "c XOR x = d XOR x \<longleftrightarrow> c = d" "x XOR c = x XOR d \<longleftrightarrow> c = d" for c d x :: u32
proof -
  have "(c XOR x) XOR x = c" for c x :: u32 by (simp add: xor.assoc)
  then show "c XOR x = d XOR x \<longleftrightarrow> c = d" by metis
  then show "x XOR c = x XOR d \<longleftrightarrow> c = d" by (simp add: xor.commute)
qed

lemma crc32_byte_inject: "crc32_byte c b = crc32_byte d b \<longleftrightarrow> c = d"
  by (simp add: crc32_byte_def crc32_bits_inject xor_cancel)

lemma crc32_byte_inject_byte: "crc32_byte c a = crc32_byte c b \<longleftrightarrow> a = b"
proof -
  have "unat (ucast x :: u32) = unat x" for x :: u8
    using unat_8_lt[of x] by (simp add: unsigned_ucast_eq take_bit_nat_eq_self)
  then have "ucast a = (ucast b :: u32) \<longleftrightarrow> a = b" by (metis word_unat_eq_iff)
  then show ?thesis by (simp add: crc32_byte_def crc32_bits_inject xor_cancel)
qed

lemma crc32_fold_inject: "foldl crc32_byte c xs = foldl crc32_byte d xs \<longleftrightarrow> c = d"
  by (induction xs arbitrary: c d) (auto simp: crc32_byte_inject)

lemma ComputeCRC32_changed_byte:
  "ComputeCRC32 (xs @ a # ys) = ComputeCRC32 (xs @ b # ys) \<longleftrightarrow> a = b"
  by (simp add: ComputeCRC32_def crc32_fold_inject crc32_byte_inject_byte)

end
