(* ===== verification/Erf_Codec.thy ===== *)
theory Erf_Codec
  imports Erf_Format
begin

text \<open>
  Encoding, decoding and patching of records (\<open>internal/storage/erf\<close>: \<open>types.go\<close>, \<open>assoc.go\<close>,
  \<open>encode.go\<close>, \<open>decode.go\<close>, \<open>decode_meta.go\<close>, \<open>patch.go\<close>, \<open>compress.go\<close>).  The packages the code
  imports are the parameter \<open>ErfLib\<close>: zstd, msgpack, and the float arithmetic of \<open>quantize.go\<close>.  A
  slice or index expression out of range is the error \<open>ErfPanic\<close>.  The pool of buffers is left out:
  a buffer is empty when it is taken and the result is a copy.
\<close>

record ErfAssociation =
  ea_TargetID :: bytes
  ea_RelType :: u16
  ea_Weight :: f32
  ea_Confidence :: f32
  ea_CreatedAt :: time
  ea_LastActivated :: u32

record ErfEngram =
  ee_ID :: bytes
  ee_CreatedAt :: time
  ee_UpdatedAt :: time
  ee_LastAccess :: time
  ee_Confidence :: f32
  ee_Relevance :: f32
  ee_Stability :: f32
  ee_AccessCount :: u32
  ee_State :: u8
  ee_EmbedDim :: u8
  ee_Concept :: string
  ee_CreatedBy :: string
  ee_Content :: string
  ee_Tags :: "string list"
  ee_Associations :: "ErfAssociation list"
  ee_Embedding :: "f32 list"
  ee_Summary :: string
  ee_KeyPoints :: "string list"
  ee_MemoryType :: u8
  ee_TypeLabel :: string
  ee_Classification :: u16
  ee_Trust :: u8
  ee_ValidFrom :: time
  ee_ValidUntil :: time
  ee_Importance :: f32

record ErfMeta =
  me_ID :: bytes
  me_CreatedAt :: time
  me_UpdatedAt :: time
  me_LastAccess :: time
  me_Confidence :: f32
  me_Relevance :: f32
  me_Stability :: f32
  me_AccessCount :: u32
  me_State :: u8
  me_AssocCount :: u16
  me_EmbedDim :: u8
  me_MemoryType :: u8
  me_Trust :: u8
  me_ValidFrom :: time
  me_ValidUntil :: time
  me_Importance :: f32

record ErfLib =
  zs_compress :: "bytes \<Rightarrow> bytes"
  zs_decompress :: "bytes \<Rightarrow> nat + bytes"
  mp_marshal :: "string list \<Rightarrow> nat + bytes"
  mp_unmarshal :: "bytes \<Rightarrow> nat + string list"
  qz_Quantize :: "f32 list \<Rightarrow> (f32 \<times> f32) \<times> u8 list"
  qz_Dequantize :: "u8 list \<Rightarrow> f32 \<times> f32 \<Rightarrow> f32 list"

datatype erf_error =
    ErfConceptLen nat | ErfCreatedByLen nat | ErfContentLen nat | ErfTooLarge nat
  | ErfTooShort | ErfCRC16 | ErfVersion u8 | ErfBounds string | ErfZstd nat | ErfMsgpack nat
  | ErfAssocLen | ErfAssocBuf | ErfQuantShort | ErfEmbedLen | ErfCRC32 | ErfPanic

definition sbind :: "'e + 'a \<Rightarrow> ('a \<Rightarrow> 'e + 'b) \<Rightarrow> 'e + 'b" where
  "sbind m f = (case m of Inl e \<Rightarrow> Inl e | Inr a \<Rightarrow> f a)"

section \<open>Times\<close>

definition unix_epoch :: time where
  "unix_epoch = 62135596800 * 10 ^ 9"

definition UnixNano :: "time \<Rightarrow> u64" where
  "UnixNano t = word_of_int (t - unix_epoch)"

definition Unix_ns :: "u64 \<Rightarrow> time" where
  "Unix_ns w = sint w + unix_epoch"

definition ZeroTimeSentinelNanos :: int where
  "ZeroTimeSentinelNanos = sint (UnixNano 0)"

definition decodeTimestamp :: "u64 \<Rightarrow> time" where
  "decodeTimestamp raw = (if sint raw = ZeroTimeSentinelNanos then 0 else Unix_ns raw)"

section \<open>assoc.go\<close>

definition EncodeAssociation :: "bytes \<Rightarrow> ErfAssociation \<Rightarrow> erf_error + bytes" where
  "EncodeAssociation buf a =
     (if length buf \<noteq> AssocRecordSize then Inl ErfAssocBuf
      else let buf = put 0 (take 16 (ea_TargetID a)) buf;
               buf = put 16 (PutUint16 (ea_RelType a)) buf;
               buf = put 18 (PutUint32 (ea_Weight a)) buf;
               buf = put 22 (PutUint32 (ea_Confidence a)) buf;
               buf = put 26 (PutUint64 (UnixNano (ea_CreatedAt a))) buf;
               buf = put 34 (PutUint32 (ea_LastActivated a)) buf;
               buf = put 38 [0] buf;
               buf = put 39 [0] buf
           in Inr buf)"

definition DecodeAssociation :: "bytes \<Rightarrow> erf_error + ErfAssociation" where
  "DecodeAssociation buf =
     (if length buf \<noteq> AssocRecordSize then Inl ErfAssocBuf
      else Inr \<lparr>ea_TargetID = sub buf 0 16, ea_RelType = Uint16 (sub buf 16 2),
             ea_Weight = Uint32 (sub buf 18 4), ea_Confidence = Uint32 (sub buf 22 4),
             ea_CreatedAt = Unix_ns (Uint64 (sub buf 26 8)), ea_LastActivated = Uint32 (sub buf 34 4)\<rparr>)"

section \<open>quantize.go: the parameters\<close>

definition EncodeQuantizeParams :: "f32 \<times> f32 \<Rightarrow> bytes" where
  "EncodeQuantizeParams p = PutUint32 (fst p) @ PutUint32 (snd p)"

definition DecodeQuantizeParams :: "bytes \<Rightarrow> f32 \<times> f32" where
  "DecodeQuantizeParams buf = (Uint32 (sub buf 0 4), Uint32 (sub buf 4 4))"

section \<open>compress.go\<close>

definition Compress :: "ErfLib \<Rightarrow> bytes \<Rightarrow> bytes \<times> bool" where
  "Compress lib content =
     (if length content \<le> ContentCompressThreshold then (content, False)
      else (zs_compress lib content, True))"

definition Decompress :: "ErfLib \<Rightarrow> bytes \<Rightarrow> erf_error + bytes" where
  "Decompress lib compressed = map_sum ErfZstd id (zs_decompress lib compressed)"

section \<open>encode.go\<close>

definition check_sizes :: "ErfEngram \<Rightarrow> erf_error option" where
  "check_sizes eng =
     (if length (ee_Concept eng) > MaxConceptBytes then Some (ErfConceptLen (length (ee_Concept eng)))
      else if length (ee_CreatedBy eng) > MaxCreatedByBytes then
        Some (ErfCreatedByLen (length (ee_CreatedBy eng)))
      else if length (ee_Content eng) > MaxContentBytes then
        Some (ErfContentLen (length (ee_Content eng)))
      else None)"

text \<open>The fixed metadata, alike in both versions; version 1 also writes the number of associations.\<close>

definition encode_meta :: "u8 \<Rightarrow> ErfEngram \<Rightarrow> bytes \<Rightarrow> bytes" where
  "encode_meta version eng buf =
     (let buf = put 0 (PutUint32 Magic) buf;
          buf = put 4 [version] buf;
          buf = put 8 (take 16 (ee_ID eng)) buf;
          buf = put 24 (PutUint64 (UnixNano (ee_CreatedAt eng))) buf;
          buf = put 32 (PutUint64 (UnixNano (ee_UpdatedAt eng))) buf;
          buf = put 40 (PutUint64 (UnixNano (ee_LastAccess eng))) buf;
          buf = put 48 (PutUint32 (ee_Confidence eng)) buf;
          buf = put 52 (PutUint32 (ee_Relevance eng)) buf;
          buf = put 56 (PutUint32 (ee_Stability eng)) buf;
          buf = put 60 (PutUint32 (ee_AccessCount eng)) buf;
          buf = put 64 [ee_State eng] buf;
          buf = put 67 [ee_EmbedDim eng] buf;
          buf = put 68 [ee_MemoryType eng] buf;
          buf = put 69 (PutUint16 (ee_Classification eng)) buf
      in put 71 [ee_Trust eng] buf)"

definition encodeValidityAndImportance :: "bytes \<Rightarrow> ErfEngram \<Rightarrow> bytes" where
  "encodeValidityAndImportance buf eng =
     (let rawFrom = (if \<not> IsZero (ee_ValidFrom eng) then UnixNano (ee_ValidFrom eng) else 0);
          rawUntil = (if \<not> IsZero (ee_ValidUntil eng) then UnixNano (ee_ValidUntil eng) else 0);
          buf = put 72 (PutUint64 rawFrom) buf;
          buf = put 80 (PutUint64 rawUntil) buf
      in put 88 (PutUint32 (ee_Importance eng)) buf)"

definition encode_content :: "ErfLib \<Rightarrow> ErfEngram \<Rightarrow> u8 \<Rightarrow> bytes \<times> u8" where
  "encode_content lib eng flags =
     (let contentBytes = str_bytes (ee_Content eng)
      in if length contentBytes > ContentCompressThreshold then
           (let (compressed, wasCompressed) = Compress lib contentBytes
            in if wasCompressed then (compressed, flags OR FlagContentCompressed)
               else (contentBytes, flags))
         else (contentBytes, flags))"

text \<open>The offsets and lengths of concept, creator, content and tags.\<close>

definition put_offsets :: "nat \<Rightarrow> nat \<Rightarrow> nat \<Rightarrow> nat \<Rightarrow> bytes \<Rightarrow> bytes" where
  "put_offsets nConcept nCreatedBy nContent nTags buf =
     (let varStart = VariableDataStart;
          buf = put 108 (PutUint32 (word_of_nat varStart)) buf;
          buf = put 112 (PutUint16 (word_of_nat nConcept)) buf;
          buf = put 114 (PutUint32 (word_of_nat (varStart + nConcept))) buf;
          buf = put 118 (PutUint16 (word_of_nat nCreatedBy)) buf;
          buf = put 120 (PutUint32 (word_of_nat (varStart + nConcept + nCreatedBy))) buf;
          buf = put 124 (PutUint32 (word_of_nat nContent)) buf;
          buf = put 128 (PutUint32 (word_of_nat (varStart + nConcept + nCreatedBy + nContent))) buf
      in put 132 (PutUint32 (word_of_nat nTags)) buf)"

definition append_tagged :: "ErfLib \<Rightarrow> ErfEngram \<Rightarrow> bytes \<Rightarrow> bytes" where
  "append_tagged lib eng buf =
     (let buf = (if ee_TypeLabel eng \<noteq> '''' then appendTaggedString buf TagTypeLabel (ee_TypeLabel eng) else buf);
          buf = (if ee_Summary eng \<noteq> '''' then appendTaggedString buf TagSummary (ee_Summary eng) else buf)
      in if length (ee_KeyPoints eng) > 0 then
           (case mp_marshal lib (ee_KeyPoints eng) of
              Inl err \<Rightarrow> buf
            | Inr kpBytes \<Rightarrow> appendTaggedBytes buf TagKeyPoints kpBytes)
         else buf)"

text \<open>Flags, header checksum and trailer.\<close>

definition finish_record :: "u8 \<Rightarrow> bytes \<Rightarrow> bytes" where
  "finish_record flags buf =
     (let buf = put 5 [flags] buf;
          buf = put 6 (PutUint16 (ComputeCRC16 (sub buf 0 6))) buf
      in buf @ PutUint32 (ComputeCRC32 buf))"

definition EncodeV2 :: "ErfLib \<Rightarrow> ErfEngram \<Rightarrow> erf_error + bytes" where
  "EncodeV2 lib eng =
     (case check_sizes eng of
        Some err \<Rightarrow> Inl err
      | None \<Rightarrow>
          (let buf = replicate FixedOverhead 0;
               buf = encode_meta ErfVersion2 eng buf;
               buf = encodeValidityAndImportance buf eng;
               conceptBytes = str_bytes (ee_Concept eng);
               createdByBytes = str_bytes (ee_CreatedBy eng);
               (contentBytes, flags) = encode_content lib eng 0
           in case mp_marshal lib (ee_Tags eng) of
                Inl err \<Rightarrow> Inl (ErfMsgpack err)
              | Inr tagsBytes \<Rightarrow>
                  (let buf = put_offsets (length conceptBytes) (length createdByBytes)
                               (length contentBytes) (length tagsBytes) buf;
                       buf = buf @ conceptBytes @ createdByBytes @ contentBytes @ tagsBytes
                   in Inr (finish_record flags (append_tagged lib eng buf)))))"

fun encode_assocs :: "ErfAssociation list \<Rightarrow> erf_error + bytes" where
  "encode_assocs [] = Inr []"
| "encode_assocs (a # as) =
     sbind (EncodeAssociation (replicate AssocRecordSize 0) a) (\<lambda>b.
     sbind (encode_assocs as) (\<lambda>bs. Inr (b @ bs)))"

definition encode_embedding :: "ErfLib \<Rightarrow> ErfEngram \<Rightarrow> u8 \<Rightarrow> bytes \<times> u8" where
  "encode_embedding lib eng flags =
     (if length (ee_Embedding eng) > 0 then
        (let (params, quantized) = qz_Quantize lib (ee_Embedding eng)
         in (EncodeQuantizeParams params @ quantized, flags OR FlagEmbedQuantized))
      else ([], flags))"

definition Encode :: "ErfLib \<Rightarrow> ErfEngram \<Rightarrow> erf_error + bytes" where
  "Encode lib eng =
     (case check_sizes eng of
        Some err \<Rightarrow> Inl err
      | None \<Rightarrow>
          (let buf = replicate FixedOverhead 0;
               flags = (if length (ee_Embedding eng) > 0 then 0 OR 1 else 0);
               buf = encode_meta ErfVersion1 eng buf;
               buf = put 65 (PutUint16 (word_of_nat (length (ee_Associations eng)))) buf;
               buf = encodeValidityAndImportance buf eng;
               conceptBytes = str_bytes (ee_Concept eng);
               createdByBytes = str_bytes (ee_CreatedBy eng);
               (contentBytes, flags) = encode_content lib eng flags
           in case mp_marshal lib (ee_Tags eng) of
                Inl err \<Rightarrow> Inl (ErfMsgpack err)
              | Inr tagsBytes \<Rightarrow>
                  sbind (encode_assocs (ee_Associations eng)) (\<lambda>assocBytes.
                    let (embedBytes, flags) = encode_embedding lib eng flags;
                        varSize = length conceptBytes + length createdByBytes + length contentBytes +
                          length tagsBytes + length assocBytes + length embedBytes
                    in if varSize > 2 ^ 32 - 1 then Inl (ErfTooLarge varSize)
                       else
                         (let buf = put_offsets (length conceptBytes) (length createdByBytes)
                                (length contentBytes) (length tagsBytes) buf;
                              assocOff = VariableDataStart + length conceptBytes + length createdByBytes +
                                length contentBytes + length tagsBytes;
                              buf = put 136 (PutUint32 (word_of_nat assocOff)) buf;
                              buf = put 140 (PutUint32 (word_of_nat (length assocBytes))) buf;
                              buf = put 144 (PutUint32 (word_of_nat (assocOff + length assocBytes))) buf;
                              buf = put 148 (PutUint32 (word_of_nat (length embedBytes))) buf;
                              buf = buf @ conceptBytes @ createdByBytes @ contentBytes @ tagsBytes @
                                assocBytes @ embedBytes
                          in Inr (finish_record flags (append_tagged lib eng buf))))))"

section \<open>decode.go\<close>

abbreviation be16 :: "bytes \<Rightarrow> nat \<Rightarrow> u16" where "be16 data off \<equiv> Uint16 (sub data off 2)"
abbreviation be32 :: "bytes \<Rightarrow> nat \<Rightarrow> u32" where "be32 data off \<equiv> Uint32 (sub data off 4)"
abbreviation be64 :: "bytes \<Rightarrow> nat \<Rightarrow> u64" where "be64 data off \<equiv> Uint64 (sub data off 8)"

record OffsetTable =
  ot_ConceptOff :: u32
  ot_ConceptLen :: u32
  ot_CreatedByOff :: u32
  ot_CreatedByLen :: u32
  ot_ContentOff :: u32
  ot_ContentLen :: u32
  ot_TagsOff :: u32
  ot_TagsLen :: u32
  ot_AssocOff :: u32
  ot_AssocLen :: u32
  ot_EmbedOff :: u32
  ot_EmbedLen :: u32

definition read_offsets :: "bytes \<Rightarrow> OffsetTable" where
  "read_offsets data =
     \<lparr>ot_ConceptOff = be32 data 108, ot_ConceptLen = ucast (be16 data 112),
      ot_CreatedByOff = be32 data 114, ot_CreatedByLen = ucast (be16 data 118),
      ot_ContentOff = be32 data 120, ot_ContentLen = be32 data 124,
      ot_TagsOff = be32 data 128, ot_TagsLen = be32 data 132,
      ot_AssocOff = be32 data 136, ot_AssocLen = be32 data 140,
      ot_EmbedOff = be32 data 144, ot_EmbedLen = be32 data 148\<rparr>"

definition in_bounds :: "bytes \<Rightarrow> u32 \<Rightarrow> u32 \<Rightarrow> bool" where
  "in_bounds data off len = (unat off + unat len \<le> length data)"

definition check_bounds :: "bytes \<Rightarrow> OffsetTable \<Rightarrow> erf_error option" where
  "check_bounds data ot =
     (if \<not> in_bounds data (ot_ConceptOff ot) (ot_ConceptLen ot) then Some (ErfBounds ''concept'')
      else if \<not> in_bounds data (ot_CreatedByOff ot) (ot_CreatedByLen ot) then Some (ErfBounds ''createdBy'')
      else if \<not> in_bounds data (ot_ContentOff ot) (ot_ContentLen ot) then Some (ErfBounds ''content'')
      else if \<not> in_bounds data (ot_TagsOff ot) (ot_TagsLen ot) then Some (ErfBounds ''tags'')
      else if \<not> in_bounds data (ot_AssocOff ot) (ot_AssocLen ot) then Some (ErfBounds ''associations'')
      else if \<not> in_bounds data (ot_EmbedOff ot) (ot_EmbedLen ot) then Some (ErfBounds ''embedding'')
      else None)"

definition slice :: "bytes \<Rightarrow> u32 \<Rightarrow> u32 \<Rightarrow> erf_error + bytes" where
  "slice data a b =
     (if a \<le> b \<and> unat b \<le> length data then Inr (sub data (unat a) (unat b - unat a)) else Inl ErfPanic)"

definition byte_at :: "bytes \<Rightarrow> u32 \<Rightarrow> erf_error + u8" where
  "byte_at data i = (if unat i < length data then Inr (data ! unat i) else Inl ErfPanic)"

text \<open>The reads at fixed places.  \<open>index_at\<close>, \<open>slice_from\<close> and \<open>slice_to\<close> are \<open>b[i]\<close>, \<open>b[i:]\<close> and
  \<open>b[:i]\<close>; \<open>need n\<close> stands before a group of reads at constant offsets the last of which ends at
  byte \<open>n\<close>: one of them panics when the buffer is shorter.\<close>

definition index_at :: "bytes \<Rightarrow> nat \<Rightarrow> erf_error + u8" where
  "index_at data i = (if i < length data then Inr (data ! i) else Inl ErfPanic)"

definition slice_from :: "bytes \<Rightarrow> nat \<Rightarrow> erf_error + bytes" where
  "slice_from data i = (if i \<le> length data then Inr (drop i data) else Inl ErfPanic)"

definition slice_to :: "bytes \<Rightarrow> nat \<Rightarrow> erf_error + bytes" where
  "slice_to data i = (if i \<le> length data then Inr (take i data) else Inl ErfPanic)"

definition need :: "nat \<Rightarrow> bytes \<Rightarrow> erf_error + unit" where
  "need n data = (if n \<le> length data then Inr () else Inl ErfPanic)"

text \<open>\<open>loop n i f\<close> is the list of \<open>f i\<close>, \<open>f (i + 1)\<close>, ... over \<open>n\<close> turns, up to the first error.\<close>

fun loop :: "nat \<Rightarrow> nat \<Rightarrow> (nat \<Rightarrow> 'e + 'a) \<Rightarrow> 'e + 'a list" where
  "loop 0 i f = Inr []"
| "loop (Suc n) i f = sbind (f i) (\<lambda>a. sbind (loop n (Suc i) f) (\<lambda>as. Inr (a # as)))"

definition decode_content :: "ErfLib \<Rightarrow> bytes \<Rightarrow> u8 \<Rightarrow> OffsetTable \<Rightarrow> erf_error + bytes" where
  "decode_content lib data flags ot =
     sbind (slice data (ot_ContentOff ot) (ot_ContentOff ot + ot_ContentLen ot)) (\<lambda>content.
       if flags AND FlagContentCompressed \<noteq> 0 then Decompress lib content else Inr content)"

definition decode_tags :: "ErfLib \<Rightarrow> bytes \<Rightarrow> OffsetTable \<Rightarrow> erf_error + string list" where
  "decode_tags lib data ot =
     (if ot_TagsLen ot > 0 then
        sbind (slice data (ot_TagsOff ot) (ot_TagsOff ot + ot_TagsLen ot)) (\<lambda>b.
          map_sum ErfMsgpack id (mp_unmarshal lib b))
      else Inr [])"

definition decode_assocs :: "bytes \<Rightarrow> OffsetTable \<Rightarrow> erf_error + ErfAssociation list" where
  "decode_assocs data ot =
     (if ot_AssocLen ot > 0 then
        (if ot_AssocLen ot mod 40 \<noteq> 0 then Inl ErfAssocLen
         else loop (unat (ot_AssocLen ot div 40)) 0 (\<lambda>i.
           let offset = ot_AssocOff ot + word_of_nat i * 40
           in sbind (slice data offset (offset + 40)) DecodeAssociation))
      else Inr [])"

definition decode_embedding :: "ErfLib \<Rightarrow> bytes \<Rightarrow> u8 \<Rightarrow> OffsetTable \<Rightarrow> erf_error + f32 list" where
  "decode_embedding lib data flags ot =
     (if flags AND FlagHasEmbedding \<noteq> 0 \<and> ot_EmbedLen ot > 0 then
        (if flags AND FlagEmbedQuantized \<noteq> 0 then
           (if ot_EmbedLen ot < 8 then Inl ErfQuantShort
            else sbind (slice data (ot_EmbedOff ot) (ot_EmbedOff ot + 8)) (\<lambda>p.
                 sbind (loop (unat (ot_EmbedLen ot - 8)) 0 (\<lambda>i.
                     byte_at data (ot_EmbedOff ot + 8 + word_of_nat i))) (\<lambda>quantized.
                   Inr (qz_Dequantize lib quantized (DecodeQuantizeParams p)))))
         else if ot_EmbedLen ot mod 4 \<noteq> 0 then Inl ErfEmbedLen
         else loop (unat (ot_EmbedLen ot div 4)) 0 (\<lambda>i.
           let off = ot_EmbedOff ot + word_of_nat i * 4
           in map_sum id Uint32 (slice data off (off + 4))))
      else Inr [])"

definition decodeValidity :: "bytes \<Rightarrow> time \<Rightarrow> time \<times> time" where
  "decodeValidity data createdAt =
     (let rawFrom = be64 data 72; rawUntil = be64 data 80
      in (if rawFrom = 0 then createdAt else Unix_ns rawFrom,
          if rawUntil \<noteq> 0 then Unix_ns rawUntil else 0))"

fun maxVarEnd :: "u32 list \<Rightarrow> u32" where
  "maxVarEnd (off # len # pairs) =
     (let m = maxVarEnd pairs; stop = off + len in if stop > m then stop else m)"
| "maxVarEnd _ = 0"

text \<open>One turn of the loop: the field of \<open>len\<close> bytes at the start of \<open>buf\<close>.\<close>

definition tagged_switch :: "ErfLib \<Rightarrow> u8 \<Rightarrow> bytes \<Rightarrow> nat \<Rightarrow> ErfEngram \<Rightarrow> erf_error + ErfEngram" where
  "tagged_switch lib tag buf len eng =
     (if tag = TagTypeLabel then
        sbind (slice_to buf len) (\<lambda>field. Inr (eng\<lparr>ee_TypeLabel := bytes_str field\<rparr>))
      else if tag = TagSummary then
        sbind (slice_to buf len) (\<lambda>field. Inr (eng\<lparr>ee_Summary := bytes_str field\<rparr>))
      else if tag = TagKeyPoints then
        sbind (slice_to buf len) (\<lambda>field.
          case mp_unmarshal lib field of
            Inl err \<Rightarrow> Inr eng
          | Inr kp \<Rightarrow> Inr (eng\<lparr>ee_KeyPoints := kp\<rparr>))
      else Inr eng)"

lemma sbind_cong [fundef_cong]:
  "m = m' \<Longrightarrow> (\<And>a. m' = Inr a \<Longrightarrow> f a = f' a) \<Longrightarrow> sbind m f = sbind m' f'"
  by (auto simp: sbind_def split: sum.splits)

function parseTaggedFields :: "ErfLib \<Rightarrow> bytes \<Rightarrow> ErfEngram \<Rightarrow> erf_error + ErfEngram" where
  "parseTaggedFields lib buf eng =
     (if length buf \<ge> 3 then
        sbind (index_at buf 0) (\<lambda>tag.
        sbind (index_at buf 1) (\<lambda>hi.
        sbind (index_at buf 2) (\<lambda>lo.
        sbind (slice_from buf 3) (\<lambda>rest.
          let len = unat hi * 256 + unat lo
          in if length rest < len then Inr eng
             else sbind (tagged_switch lib tag rest len eng) (\<lambda>eng.
                  sbind (slice_from rest len) (\<lambda>rest. parseTaggedFields lib rest eng))))))
      else Inr eng)"
  by pat_completeness auto
termination
  by (relation "measure (\<lambda>(lib, buf, eng). length buf)") (auto simp: slice_from_def split: if_splits)

declare parseTaggedFields.simps [simp del]

definition var_end :: "OffsetTable \<Rightarrow> u32" where
  "var_end ot = maxVarEnd [ot_ConceptOff ot, ot_ConceptLen ot, ot_CreatedByOff ot, ot_CreatedByLen ot,
     ot_ContentOff ot, ot_ContentLen ot, ot_TagsOff ot, ot_TagsLen ot, ot_AssocOff ot, ot_AssocLen ot,
     ot_EmbedOff ot, ot_EmbedLen ot]"

text \<open>The tagged fields after the variable ones.\<close>

definition decode_tagged :: "ErfLib \<Rightarrow> bytes \<Rightarrow> OffsetTable \<Rightarrow> ErfEngram \<Rightarrow> erf_error + ErfEngram" where
  "decode_tagged lib data ot eng =
     (let varEnd = var_end ot; trailer = word_of_nat (length data) - 4
      in if varEnd < trailer then
           sbind (slice data varEnd trailer) (\<lambda>b. parseTaggedFields lib b eng)
         else Inr eng)"

text \<open>The fields read from the fixed metadata, around the variable ones.\<close>

definition decode_fixed :: "bytes \<Rightarrow> string \<Rightarrow> string \<Rightarrow> string \<Rightarrow> string list \<Rightarrow> ErfAssociation list \<Rightarrow>
    f32 list \<Rightarrow> ErfEngram" where
  "decode_fixed data concept createdBy content tags associations embedding =
     (let createdAt = decodeTimestamp (be64 data 24);
          (validFrom, validUntil) = decodeValidity data createdAt
      in \<lparr>ee_ID = sub data 8 16, ee_CreatedAt = createdAt,
          ee_UpdatedAt = decodeTimestamp (be64 data 32), ee_LastAccess = decodeTimestamp (be64 data 40),
          ee_Confidence = be32 data 48, ee_Relevance = be32 data 52, ee_Stability = be32 data 56,
          ee_AccessCount = be32 data 60, ee_State = data ! 64, ee_EmbedDim = data ! 67,
          ee_Concept = concept, ee_CreatedBy = createdBy, ee_Content = content, ee_Tags = tags,
          ee_Associations = associations, ee_Embedding = embedding, ee_Summary = '''', ee_KeyPoints = [],
          ee_MemoryType = data ! 68, ee_TypeLabel = '''', ee_Classification = be16 data 69,
          ee_Trust = data ! 71, ee_ValidFrom = validFrom, ee_ValidUntil = validUntil,
          ee_Importance = be32 data 88\<rparr>)"

definition Decode :: "ErfLib \<Rightarrow> bytes \<Rightarrow> erf_error + ErfEngram" where
  "Decode lib data =
     (if length data < FixedOverhead then Inl ErfTooShort
      else
        sbind (slice_to data 8) (\<lambda>header.
        if \<not> VerifyCRC16 header then Inl ErfCRC16
        else
          sbind (index_at data 4) (\<lambda>ver.
          if ver \<noteq> ErfVersion1 \<and> ver \<noteq> ErfVersion2 then Inl (ErfVersion ver)
          else
            sbind (index_at data 5) (\<lambda>flags.
            sbind (need 152 data) (\<lambda>_.
            let ot = read_offsets data
            in case check_bounds data ot of
                 Some err \<Rightarrow> Inl err
               | None \<Rightarrow>
                   sbind (slice data (ot_ConceptOff ot) (ot_ConceptOff ot + ot_ConceptLen ot)) (\<lambda>concept.
                   sbind (slice data (ot_CreatedByOff ot) (ot_CreatedByOff ot + ot_CreatedByLen ot)) (\<lambda>createdBy.
                   sbind (decode_content lib data flags ot) (\<lambda>content.
                   sbind (decode_tags lib data ot) (\<lambda>tags.
                   sbind (decode_assocs data ot) (\<lambda>associations.
                   sbind (decode_embedding lib data flags ot) (\<lambda>embedding.
                   sbind (need 92 data) (\<lambda>_.
                   sbind (decode_tagged lib data ot
                       (decode_fixed data (bytes_str concept) (bytes_str createdBy) (bytes_str content)
                          tags associations embedding)) (\<lambda>eng.
                     if \<not> VerifyCRC32 data then Inl ErfCRC32 else Inr eng)))))))))))))"

section \<open>decode_meta.go\<close>

definition DecodeMeta :: "bytes \<Rightarrow> erf_error + ErfMeta" where
  "DecodeMeta data =
     (if length data < OffsetTablePos then Inl ErfTooShort
      else
        sbind (slice_to data 8) (\<lambda>header.
        if \<not> VerifyCRC16 header then Inl ErfCRC16
        else
          sbind (need 92 data) (\<lambda>_.
          let createdAt = decodeTimestamp (be64 data 24);
              (validFrom, validUntil) = decodeValidity data createdAt
          in Inr \<lparr>me_ID = sub data 8 16, me_CreatedAt = createdAt,
               me_UpdatedAt = decodeTimestamp (be64 data 32), me_LastAccess = decodeTimestamp (be64 data 40),
               me_Confidence = be32 data 48, me_Relevance = be32 data 52, me_Stability = be32 data 56,
               me_AccessCount = be32 data 60, me_State = data ! 64, me_AssocCount = be16 data 65,
               me_EmbedDim = data ! 67, me_MemoryType = data ! 68, me_Trust = data ! 71,
               me_ValidFrom = validFrom, me_ValidUntil = validUntil, me_Importance = be32 data 88\<rparr>)))"

definition DecodeMetaConcept :: "bytes \<Rightarrow> erf_error + ErfMeta \<times> string" where
  "DecodeMetaConcept data =
     sbind (DecodeMeta data) (\<lambda>meta.
       if length data < VariableDataStart then Inr (meta, '''')
       else if length data < 112 + 2 then Inr (meta, '''')
       else
         sbind (need 114 data) (\<lambda>_.
         let conceptOff = be32 data 108; conceptLen = be16 data 112;
             stop = unat conceptOff + unat conceptLen
         in if unat conceptOff < VariableDataStart \<or> stop > length data then Inr (meta, '''')
            else if unat conceptOff \<le> stop \<and> stop \<le> length data then
              Inr (meta, bytes_str (sub data (unat conceptOff) (stop - unat conceptOff)))
            else Inl ErfPanic))"

section \<open>patch.go\<close>

definition reseal :: "bytes \<Rightarrow> bytes" where
  "reseal raw = put (length raw - TrailerSize) (PutUint32 (ComputeCRC32 (take (length raw - TrailerSize) raw))) raw"

definition PatchEmbedDim :: "bytes \<Rightarrow> u8 \<Rightarrow> erf_error + bytes" where
  "PatchEmbedDim raw dim =
     (if length raw < VariableDataStart + TrailerSize then Inl ErfTooShort
      else Inr (reseal (put 67 [dim] raw)))"

definition PatchRelevance :: "bytes \<Rightarrow> time \<Rightarrow> f32 \<Rightarrow> f32 \<Rightarrow> erf_error + bytes" where
  "PatchRelevance raw updatedAt relevance stability =
     (if length raw < VariableDataStart + TrailerSize then Inl ErfTooShort
      else let raw = put 32 (PutUint64 (UnixNano updatedAt)) raw;
               raw = put 52 (PutUint32 relevance) raw;
               raw = put 56 (PutUint32 stability) raw
           in Inr (reseal raw))"

definition PatchAllMeta :: "bytes \<Rightarrow> time \<Rightarrow> time \<Rightarrow> f32 \<Rightarrow> f32 \<Rightarrow> f32 \<Rightarrow> u32 \<Rightarrow> u8 \<Rightarrow> erf_error + bytes" where
  "PatchAllMeta raw updatedAt lastAccess confidence relevance stability accessCount state =
     (if length raw < VariableDataStart + TrailerSize then Inl ErfTooShort
      else let raw = put 32 (PutUint64 (UnixNano updatedAt)) raw;
               raw = put 40 (PutUint64 (UnixNano lastAccess)) raw;
               raw = put 48 (PutUint32 confidence) raw;
               raw = put 52 (PutUint32 relevance) raw;
               raw = put 56 (PutUint32 stability) raw;
               raw = put 60 (PutUint32 accessCount) raw;
               raw = put 64 [state] raw
           in Inr (reseal raw))"

definition GetValidUntil :: "bytes \<Rightarrow> time" where
  "GetValidUntil raw =
     (if length raw < VariableDataStart + TrailerSize then 0
      else let rawUntil = be64 raw 80 in if rawUntil = 0 then 0 else Unix_ns rawUntil)"

definition PatchValidUntil :: "bytes \<Rightarrow> time \<Rightarrow> erf_error + bytes" where
  "PatchValidUntil raw until =
     (if length raw < VariableDataStart + TrailerSize then Inl ErfTooShort
      else let rawUntil = (if \<not> IsZero until then UnixNano until else 0)
           in Inr (reseal (put 80 (PutUint64 rawUntil) raw)))"

definition GetTrust :: "bytes \<Rightarrow> u8" where
  "GetTrust raw = (if length raw < VariableDataStart + TrailerSize then 0 else raw ! 71)"

definition PatchTrust :: "bytes \<Rightarrow> u8 \<Rightarrow> erf_error + bytes" where
  "PatchTrust raw trust =
     (if length raw < VariableDataStart + TrailerSize then Inl ErfTooShort
      else Inr (reseal (put 71 [trust] raw)))"

end
