(* ===== verification/Erf_Lemmas.thy ===== *)
theory Erf_Lemmas
  imports Erf_Codec
begin

text \<open>
  The library for the record codec: words and slices, times, the tagged fields, the fixed area,
  and what decoding makes of a buffer with given parts.
\<close>

section \<open>Words and slices\<close>

lemma unat_add_nat: "unat (a :: u32) + n < 2 ^ 32 \<Longrightarrow> unat (a + word_of_nat n) = unat a + n"
  by (simp add: unat_word_ariths unat_of_nat)

lemma unat_word_nat: "n < 2 ^ 32 \<Longrightarrow> unat (word_of_nat n :: u32) = n"
  by (simp add: unat_of_nat)

lemma unat_add_u32: "unat (a :: u32) + unat b < 2 ^ 32 \<Longrightarrow> unat (a + b) = unat a + unat b"
  by (simp add: unat_word_ariths)

lemma length_sub [simp]: "length (sub d o' n) = min n (length d - o')"
  by (simp add: sub_def)

lemma sub_sub: "a + n \<le> m \<Longrightarrow> sub (sub d 0 m) a n = sub d a n"
  by (simp add: sub_def drop_take min_def)

lemma sub_nth: "i < n \<Longrightarrow> o' + n \<le> length d \<Longrightarrow> sub d o' n ! i = d ! (o' + i)"
  by (simp add: sub_def)

lemma nth_sub1: "i < length d \<Longrightarrow> d ! i = sub d i 1 ! 0"
  by (simp add: sub_def)

lemma sub_mid: "length xs = off \<Longrightarrow> length ys = n \<Longrightarrow> sub (xs @ ys @ zs) off n = ys"
  by (simp add: sub_def)

lemma slice_in_bounds:
  assumes "in_bounds d off len" "length d < 2 ^ 32"
  shows "slice d off (off + len) = Inr (sub d (unat off) (unat len))"
proof -
  have "unat (off + len) = unat off + unat len"
    using assms by (intro unat_add_u32) (simp add: in_bounds_def)
  then show ?thesis using assms(1) by (simp add: slice_def in_bounds_def word_le_nat_alt)
qed

lemma sbind_Inr: "sbind m f = Inr b \<longleftrightarrow> (\<exists>a. m = Inr a \<and> f a = Inr b)"
  by (auto simp: sbind_def split: sum.splits)

lemma sbind_simps [simp]: "sbind (Inl e) f = Inl e" "sbind (Inr a) f = f a"
  by (simp_all add: sbind_def)

section \<open>Times\<close>

text \<open>The times the codec stores exactly: the zero time, and those within 64 bits of nanoseconds
  around 1970 other than the one instant the zero time wraps to.\<close>

definition unix_range :: "time \<Rightarrow> bool" where
  "unix_range t \<longleftrightarrow> - (2 ^ 63) \<le> t - unix_epoch \<and> t - unix_epoch < 2 ^ 63"

definition time_ok :: "time \<Rightarrow> bool" where
  "time_ok t \<longleftrightarrow> t = 0 \<or> unix_range t \<and> t - unix_epoch \<noteq> ZeroTimeSentinelNanos"

lemma sint_UnixNano: "unix_range t \<Longrightarrow> sint (UnixNano t) = t - unix_epoch"
  by (simp add: UnixNano_def unix_range_def signed_of_int signed_take_bit_int_eq_self del: of_int_diff)

lemma decode_UnixNano: "time_ok t \<Longrightarrow> decodeTimestamp (UnixNano t) = t"
  by (auto simp: time_ok_def decodeTimestamp_def ZeroTimeSentinelNanos_def Unix_ns_def sint_UnixNano)

lemma UnixNano_zero_iff: "unix_range t \<Longrightarrow> UnixNano t = 0 \<longleftrightarrow> t = unix_epoch"
  using sint_UnixNano[of t] by (auto simp: UnixNano_def)

lemma Unix_UnixNano: "unix_range t \<Longrightarrow> Unix_ns (UnixNano t) = t"
  by (simp add: Unix_ns_def sint_UnixNano)


section \<open>Tagged fields\<close>

definition tagged_field :: "u8 \<Rightarrow> bytes \<Rightarrow> bytes" where
  "tagged_field tag data = appendTaggedBytes [] tag data"

lemma appendTagged_eq:
  "appendTaggedBytes buf tag data = buf @ tagged_field tag data"
  "appendTaggedString buf tag s = buf @ tagged_field tag (str_bytes s)"
  by (simp_all add: tagged_field_def appendTaggedBytes_def appendTaggedString_def Let_def)

lemma two_bytes: "n \<le> 0xFFFF \<Longrightarrow>
    unat (word_of_nat (n div 256) :: u8) * 256 + unat (word_of_nat n :: u8) = n"
  by (simp add: unat_of_nat)

definition set_tagged :: "ErfLib \<Rightarrow> u8 \<Rightarrow> bytes \<Rightarrow> ErfEngram \<Rightarrow> ErfEngram" where
  "set_tagged lib tag field eng =
     (if tag = TagTypeLabel then eng\<lparr>ee_TypeLabel := bytes_str field\<rparr>
      else if tag = TagSummary then eng\<lparr>ee_Summary := bytes_str field\<rparr>
      else if tag = TagKeyPoints then
        (case mp_unmarshal lib field of Inl err \<Rightarrow> eng | Inr kp \<Rightarrow> eng\<lparr>ee_KeyPoints := kp\<rparr>)
      else eng)"

text \<open>The loop over the tagged fields without the bounds checks, which never fail.\<close>

function parse_tagged :: "ErfLib \<Rightarrow> bytes \<Rightarrow> ErfEngram \<Rightarrow> ErfEngram" where
  "parse_tagged lib buf eng =
     (if length buf < 3 then eng
      else let len = unat (buf ! 1) * 256 + unat (buf ! 2)
           in if length buf < len + 3 then eng
              else parse_tagged lib (drop (len + 3) buf) (set_tagged lib (buf ! 0) (take len (drop 3 buf)) eng))"
  by pat_completeness auto
termination
  by (relation "measure (\<lambda>(lib, buf, eng). length buf)") auto

declare parse_tagged.simps [simp del]

lemma tagged_switch_ok:
  "len \<le> length buf \<Longrightarrow> tagged_switch lib tag buf len eng = Inr (set_tagged lib tag (take len buf) eng)"
  by (simp add: tagged_switch_def slice_to_def set_tagged_def split: sum.split)

lemma parseTaggedFields_total: "parseTaggedFields lib buf eng = Inr (parse_tagged lib buf eng)"
proof (induction lib buf eng rule: parse_tagged.induct)
  case (1 lib buf eng)
  show ?case
  proof (cases "length buf < 3")
    case True
    then show ?thesis by (subst parseTaggedFields.simps, subst parse_tagged.simps) simp
  next
    case False
    define len where "len = unat (buf ! 1) * 256 + unat (buf ! 2)"
    have reads: "index_at buf 0 = Inr (buf ! 0)" "index_at buf 1 = Inr (buf ! 1)" "index_at buf 2 = Inr (buf ! 2)"
      "slice_from buf 3 = Inr (drop 3 buf)"
      using False by (auto simp: index_at_def slice_from_def)
    show ?thesis
    proof (cases "length buf < len + 3")
      case True
      then have "length (drop 3 buf) < len" using False by simp
      with True show ?thesis using False reads
        by (subst parseTaggedFields.simps, subst parse_tagged.simps) (simp add: Let_def flip: len_def One_nat_def)
    next
      case fits: False
      then have "len \<le> length (drop 3 buf)" by simp
      note field = tagged_switch_ok[OF this]
      have "slice_from (drop 3 buf) len = Inr (drop (len + 3) buf)" using fits by (simp add: slice_from_def)
      then show ?thesis
        using False fits reads field "1.IH"[OF False len_def fits]
        by (subst parseTaggedFields.simps, subst parse_tagged.simps) (simp add: Let_def less_diff_conv flip: len_def One_nat_def)
    qed
  qed
qed

lemma drop_three: "drop (n + 3) (a # b # c # xs) = drop n xs"
  by (simp add: numeral_3_eq_3)

lemma parse_tagged_field:
  assumes "length data \<le> 0xFFFF"
  shows "parse_tagged lib (tagged_field tag data @ rest) eng =
    parse_tagged lib rest (set_tagged lib tag data eng)"
  using assms two_bytes[OF assms]
  by (subst parse_tagged.simps) (simp add: tagged_field_def appendTaggedBytes_def Let_def drop_three)

lemma parse_tagged_Nil [simp]: "parse_tagged lib [] eng = eng"
  by (subst parse_tagged.simps) simp

lemma parse_tagged_field0:
  "length data \<le> 0xFFFF \<Longrightarrow> parse_tagged lib (tagged_field tag data) eng = set_tagged lib tag data eng"
  using parse_tagged_field[of data lib tag "[]" eng] by simp

definition tagged_part :: "ErfLib \<Rightarrow> ErfEngram \<Rightarrow> bytes" where
  "tagged_part lib eng =
     (if ee_TypeLabel eng \<noteq> '''' then tagged_field TagTypeLabel (str_bytes (ee_TypeLabel eng)) else []) @
     (if ee_Summary eng \<noteq> '''' then tagged_field TagSummary (str_bytes (ee_Summary eng)) else []) @
     (if ee_KeyPoints eng \<noteq> [] then
        (case mp_marshal lib (ee_KeyPoints eng) of Inl err \<Rightarrow> [] | Inr b \<Rightarrow> tagged_field TagKeyPoints b)
      else [])"

lemma append_tagged_eq: "append_tagged lib eng buf = buf @ tagged_part lib eng"
  by (simp add: append_tagged_def tagged_part_def appendTagged_eq Let_def split: sum.split)

text \<open>What the two packages are relied on for: decompression inverts compression, and a list of
  strings is marshalled to some bytes, which are unmarshalled to itself.\<close>

definition lib_ok :: "ErfLib \<Rightarrow> bool" where
  "lib_ok lib \<longleftrightarrow> (\<forall>b. zs_decompress lib (zs_compress lib b) = Inr b) \<and>
     (\<forall>ss b. mp_marshal lib ss = Inr b \<longrightarrow> b \<noteq> [] \<and> mp_unmarshal lib b = Inr ss)"

definition tags_fit :: "ErfLib \<Rightarrow> ErfEngram \<Rightarrow> bool" where
  "tags_fit lib eng \<longleftrightarrow> length (ee_TypeLabel eng) \<le> 0xFFFF \<and> length (ee_Summary eng) \<le> 0xFFFF \<and>
     (ee_KeyPoints eng = [] \<or>
      (case mp_marshal lib (ee_KeyPoints eng) of Inl err \<Rightarrow> False | Inr b \<Rightarrow> length b \<le> 0xFFFF))"

lemma length_str_bytes [simp]: "length (str_bytes s) = length s"
  by (simp add: str_bytes_def)

lemma parse_tagged_part:
  assumes "lib_ok lib" "tags_fit lib eng" "ee_TypeLabel e = ''''" "ee_Summary e = ''''" "ee_KeyPoints e = []"
  shows "parse_tagged lib (tagged_part lib eng) e =
    e\<lparr>ee_TypeLabel := ee_TypeLabel eng, ee_Summary := ee_Summary eng, ee_KeyPoints := ee_KeyPoints eng\<rparr>"
proof -
  let ?kp = "if ee_KeyPoints eng \<noteq> [] then
        (case mp_marshal lib (ee_KeyPoints eng) of Inl err \<Rightarrow> [] | Inr b \<Rightarrow> tagged_field TagKeyPoints b)
      else []"
  let ?sm = "if ee_Summary eng \<noteq> '''' then tagged_field TagSummary (str_bytes (ee_Summary eng)) else []"
  have kp: "parse_tagged lib ?kp e' = e'\<lparr>ee_KeyPoints := ee_KeyPoints eng\<rparr>" if "ee_KeyPoints e' = []" for e'
  proof (cases "ee_KeyPoints eng = []")
    case True
    with that show ?thesis by (cases e') simp
  next
    case False
    then obtain b where b: "mp_marshal lib (ee_KeyPoints eng) = Inr b" "length b \<le> 0xFFFF"
      using assms(2) by (auto simp: tags_fit_def split: sum.splits)
    then have "mp_unmarshal lib b = Inr (ee_KeyPoints eng)" using assms(1) by (simp add: lib_ok_def)
    with b False parse_tagged_field[of b lib TagKeyPoints "[]" e'] show ?thesis
      by (simp add: set_tagged_def TagTypeLabel_def TagSummary_def TagKeyPoints_def)
  qed
  have sm: "parse_tagged lib (?sm @ ys) e' = parse_tagged lib ys (e'\<lparr>ee_Summary := ee_Summary eng\<rparr>)"
    if "ee_Summary e' = ''''" for e' ys
    using that assms(2)
    by (cases e') (simp add: parse_tagged_field tags_fit_def set_tagged_def TagTypeLabel_def TagSummary_def
        bytes_str_str_bytes)
  have "parse_tagged lib (tagged_part lib eng) e =
      parse_tagged lib (?sm @ ?kp) (e\<lparr>ee_TypeLabel := ee_TypeLabel eng\<rparr>)"
    using assms(2,3)
    by (cases e) (simp add: tagged_part_def parse_tagged_field parse_tagged_field0 tags_fit_def set_tagged_def
        bytes_str_str_bytes)
  also have "\<dots> = e\<lparr>ee_TypeLabel := ee_TypeLabel eng, ee_Summary := ee_Summary eng, ee_KeyPoints := ee_KeyPoints eng\<rparr>"
    using assms(4,5) by (simp add: sm kp)
  finally show ?thesis .
qed

section \<open>The fixed area\<close>

text \<open>The fixed area has 152 bytes; the rules for \<open>put\<close> at that length are linear in the number of
  fields written, where the general rule is not.\<close>

lemma put152: "length buf = 152 \<Longrightarrow> off + length bs \<le> 152 \<Longrightarrow> length (put off bs buf) = 152"
  by simp

lemma sub152_same:
  "length buf = 152 \<Longrightarrow> off + length bs \<le> 152 \<Longrightarrow> length bs = n \<Longrightarrow> sub (put off bs buf) off n = bs"
  by (simp add: sub_put_same)

lemma sub152_other:
  "length buf = 152 \<Longrightarrow> o' + length bs \<le> 152 \<Longrightarrow> off + n \<le> o' \<or> o' + length bs \<le> off \<Longrightarrow>
   sub (put o' bs buf) off n = sub buf off n"
  by (auto simp: sub_put_before sub_put_after)

lemmas put152_simps = put152 sub152_same sub152_other

definition seal_header :: "u8 \<Rightarrow> bytes \<Rightarrow> bytes" where
  "seal_header flags buf =
     (let buf = put 5 [flags] buf in put 6 (PutUint16 (ComputeCRC16 (sub buf 0 6))) buf)"

lemma finish_record_eq:
  "FixedOverhead \<le> length buf \<Longrightarrow>
   finish_record flags (buf @ body) =
     seal_header flags buf @ body @ PutUint32 (ComputeCRC32 (seal_header flags buf @ body))"
  by (simp add: finish_record_def seal_header_def Let_def put_append sub_append)

lemma length_encode_meta: "length buf = 152 \<Longrightarrow> length (encode_meta v eng buf) = 152"
  by (simp add: encode_meta_def Let_def put152 del: length_put)

lemma length_encode_validity: "length buf = 152 \<Longrightarrow> length (encodeValidityAndImportance buf eng) = 152"
  by (simp add: encodeValidityAndImportance_def Let_def put152 del: length_put)

lemma length_put_offsets: "length buf = 152 \<Longrightarrow> length (put_offsets a b c d buf) = 152"
  by (simp add: put_offsets_def Let_def put152 del: length_put)

lemma length_seal_header: "length buf = 152 \<Longrightarrow> length (seal_header flags buf) = 152"
  by (simp add: seal_header_def Let_def put152 del: length_put)

lemmas length152 = length_encode_meta length_encode_validity length_put_offsets length_seal_header

definition v2_fixed :: "ErfEngram \<Rightarrow> u8 \<Rightarrow> nat \<Rightarrow> nat \<Rightarrow> nat \<Rightarrow> nat \<Rightarrow> bytes" where
  "v2_fixed eng flags nConcept nCreatedBy nContent nTags =
     seal_header flags (put_offsets nConcept nCreatedBy nContent nTags
       (encodeValidityAndImportance (encode_meta ErfVersion2 eng (replicate FixedOverhead 0)) eng))"

lemma length_v2_fixed [simp]: "length (v2_fixed eng flags a b c d) = 152"
  by (simp add: v2_fixed_def length152)

lemma EncodeV2_form:
  assumes "EncodeV2 lib eng = Inr data" "encode_content lib eng 0 = (content, flags)"
    "mp_marshal lib (ee_Tags eng) = Inr tags"
  defines "fixd \<equiv> v2_fixed eng flags (length (ee_Concept eng)) (length (ee_CreatedBy eng)) (length content)
    (length tags)"
  defines "body \<equiv> str_bytes (ee_Concept eng) @ str_bytes (ee_CreatedBy eng) @ content @ tags @ tagged_part lib eng"
  shows "data = fixd @ body @ PutUint32 (ComputeCRC32 (fixd @ body))"
proof -
  let ?buf = "put_offsets (length (ee_Concept eng)) (length (ee_CreatedBy eng)) (length content) (length tags)
       (encodeValidityAndImportance (encode_meta ErfVersion2 eng (replicate FixedOverhead 0)) eng)"
  have "FixedOverhead \<le> length ?buf" by (simp add: length152)
  from finish_record_eq[OF this, of flags body] assms(1-3) show ?thesis
    by (auto simp: EncodeV2_def Let_def append_tagged_eq v2_fixed_def fixd_def body_def split: option.splits)
qed

lemma sub_encode_meta:
  assumes "length buf = 152" "length (ee_ID eng) = 16"
  shows "sub (encode_meta v eng buf) 4 1 = [v]"
    "sub (encode_meta v eng buf) 8 16 = ee_ID eng"
    "sub (encode_meta v eng buf) 24 8 = PutUint64 (UnixNano (ee_CreatedAt eng))"
    "sub (encode_meta v eng buf) 32 8 = PutUint64 (UnixNano (ee_UpdatedAt eng))"
    "sub (encode_meta v eng buf) 40 8 = PutUint64 (UnixNano (ee_LastAccess eng))"
    "sub (encode_meta v eng buf) 48 4 = PutUint32 (ee_Confidence eng)"
    "sub (encode_meta v eng buf) 52 4 = PutUint32 (ee_Relevance eng)"
    "sub (encode_meta v eng buf) 56 4 = PutUint32 (ee_Stability eng)"
    "sub (encode_meta v eng buf) 60 4 = PutUint32 (ee_AccessCount eng)"
    "sub (encode_meta v eng buf) 64 1 = [ee_State eng]"
    "sub (encode_meta v eng buf) 65 2 = sub buf 65 2"
    "sub (encode_meta v eng buf) 67 1 = [ee_EmbedDim eng]"
    "sub (encode_meta v eng buf) 68 1 = [ee_MemoryType eng]"
    "sub (encode_meta v eng buf) 69 2 = PutUint16 (ee_Classification eng)"
    "sub (encode_meta v eng buf) 71 1 = [ee_Trust eng]"
    "72 \<le> off \<Longrightarrow> sub (encode_meta v eng buf) off n = sub buf off n"
  using assms by (simp_all add: encode_meta_def Let_def put152_simps del: length_put)

definition raw_time :: "time \<Rightarrow> u64" where
  "raw_time t = (if IsZero t then 0 else UnixNano t)"

lemma sub_encode_validity:
  assumes "length buf = 152"
  shows "sub (encodeValidityAndImportance buf eng) 72 8 = PutUint64 (raw_time (ee_ValidFrom eng))"
    "sub (encodeValidityAndImportance buf eng) 80 8 = PutUint64 (raw_time (ee_ValidUntil eng))"
    "sub (encodeValidityAndImportance buf eng) 88 4 = PutUint32 (ee_Importance eng)"
    "off + n \<le> 72 \<or> 92 \<le> off \<Longrightarrow> sub (encodeValidityAndImportance buf eng) off n = sub buf off n"
  using assms
  by (auto simp: encodeValidityAndImportance_def Let_def put152_simps raw_time_def simp del: length_put)

lemma sub_put_offsets:
  assumes "length buf = 152"
  shows "sub (put_offsets a b c d buf) 108 4 = PutUint32 152"
    "sub (put_offsets a b c d buf) 112 2 = PutUint16 (word_of_nat a)"
    "sub (put_offsets a b c d buf) 114 4 = PutUint32 (word_of_nat (152 + a))"
    "sub (put_offsets a b c d buf) 118 2 = PutUint16 (word_of_nat b)"
    "sub (put_offsets a b c d buf) 120 4 = PutUint32 (word_of_nat (152 + a + b))"
    "sub (put_offsets a b c d buf) 124 4 = PutUint32 (word_of_nat c)"
    "sub (put_offsets a b c d buf) 128 4 = PutUint32 (word_of_nat (152 + a + b + c))"
    "sub (put_offsets a b c d buf) 132 4 = PutUint32 (word_of_nat d)"
    "off + n \<le> 108 \<or> 136 \<le> off \<Longrightarrow> sub (put_offsets a b c d buf) off n = sub buf off n"
  using assms by (auto simp: put_offsets_def Let_def put152_simps simp del: length_put)

lemma sub_seal_header:
  assumes "length buf = 152"
  shows "sub (seal_header flags buf) 5 1 = [flags]"
    "sub (seal_header flags buf) 6 2 = PutUint16 (ComputeCRC16 (sub (seal_header flags buf) 0 6))"
    "off + n \<le> 5 \<or> 8 \<le> off \<Longrightarrow> sub (seal_header flags buf) off n = sub buf off n"
  using assms by (auto simp: seal_header_def Let_def put152_simps simp del: length_put)

lemmas sub_stages = sub_encode_meta sub_encode_validity sub_put_offsets sub_seal_header length152

lemma sub_zeros: "off + n \<le> 152 \<Longrightarrow> sub (replicate 152 0) off n = replicate n 0"
  by (simp add: sub_def)

lemma v2_fixed_sub:
  fixes eng flags a b c d
  assumes "length (ee_ID eng) = 16"
  defines "fx \<equiv> v2_fixed eng flags a b c d"
  shows "sub fx 4 1 = [ErfVersion2]" "sub fx 5 1 = [flags]"
    "sub fx 6 2 = PutUint16 (ComputeCRC16 (sub fx 0 6))"
    "sub fx 8 16 = ee_ID eng"
    "sub fx 24 8 = PutUint64 (UnixNano (ee_CreatedAt eng))"
    "sub fx 32 8 = PutUint64 (UnixNano (ee_UpdatedAt eng))"
    "sub fx 40 8 = PutUint64 (UnixNano (ee_LastAccess eng))"
    "sub fx 48 4 = PutUint32 (ee_Confidence eng)" "sub fx 52 4 = PutUint32 (ee_Relevance eng)"
    "sub fx 56 4 = PutUint32 (ee_Stability eng)" "sub fx 60 4 = PutUint32 (ee_AccessCount eng)"
    "sub fx 64 1 = [ee_State eng]" "sub fx 67 1 = [ee_EmbedDim eng]" "sub fx 68 1 = [ee_MemoryType eng]"
    "sub fx 69 2 = PutUint16 (ee_Classification eng)" "sub fx 71 1 = [ee_Trust eng]"
    "sub fx 72 8 = PutUint64 (raw_time (ee_ValidFrom eng))"
    "sub fx 80 8 = PutUint64 (raw_time (ee_ValidUntil eng))"
    "sub fx 88 4 = PutUint32 (ee_Importance eng)"
    "sub fx 108 4 = PutUint32 152" "sub fx 112 2 = PutUint16 (word_of_nat a)"
    "sub fx 114 4 = PutUint32 (word_of_nat (152 + a))" "sub fx 118 2 = PutUint16 (word_of_nat b)"
    "sub fx 120 4 = PutUint32 (word_of_nat (152 + a + b))" "sub fx 124 4 = PutUint32 (word_of_nat c)"
    "sub fx 128 4 = PutUint32 (word_of_nat (152 + a + b + c))" "sub fx 132 4 = PutUint32 (word_of_nat d)"
    "sub fx 136 4 = replicate 4 0" "sub fx 140 4 = replicate 4 0"
    "sub fx 144 4 = replicate 4 0" "sub fx 148 4 = replicate 4 0"
  using assms(1) unfolding fx_def v2_fixed_def
  by (simp_all add: sub_stages sub_zeros del: One_nat_def)

section \<open>Decoding a buffer whose parts are known\<close>

lemma ucast16: "n < 65536 \<Longrightarrow> ucast (word_of_nat n :: u16) = (word_of_nat n :: u32)"
  by (rule word_unat_eq_iff[THEN iffD2]) (simp add: unat_of_nat unsigned_ucast_eq take_bit_nat_def)

lemma slice_nat:
  assumes "i \<le> j" "j \<le> length d" "length d < 2 ^ 32"
  shows "slice d (word_of_nat i) (word_of_nat j) = Inr (sub d i (j - i))"
  using assms by (simp add: slice_def word_le_nat_alt unat_word_nat)

lemma in_bounds_nat:
  "i < 2 ^ 32 \<Longrightarrow> n < 2 ^ 32 \<Longrightarrow> in_bounds d (word_of_nat i) (word_of_nat n) \<longleftrightarrow> i + n \<le> length d"
  by (simp add: in_bounds_def unat_word_nat)

lemma VerifyCRC32_sealed: "xs \<noteq> [] \<Longrightarrow> VerifyCRC32 (xs @ PutUint32 (ComputeCRC32 xs))"
  by (cases xs) (simp_all add: VerifyCRC32_def Let_def sub_def)

lemma VerifyCRC16_head:
  assumes "8 \<le> length d" "sub d 6 2 = PutUint16 (ComputeCRC16 (sub d 0 6))"
  shows "VerifyCRC16 (sub d 0 8)"
  using assms by (simp add: VerifyCRC16_def sub_sub)

lemma word_nat_less: "i < 2 ^ 32 \<Longrightarrow> j < 2 ^ 32 \<Longrightarrow> (word_of_nat i :: u32) < word_of_nat j \<longleftrightarrow> i < j"
  by (simp add: word_less_nat_alt unat_word_nat)

definition v2_table :: "nat \<Rightarrow> nat \<Rightarrow> nat \<Rightarrow> nat \<Rightarrow> OffsetTable" where
  "v2_table a b c d =
     \<lparr>ot_ConceptOff = word_of_nat 152, ot_ConceptLen = word_of_nat a,
      ot_CreatedByOff = word_of_nat (152 + a), ot_CreatedByLen = word_of_nat b,
      ot_ContentOff = word_of_nat (152 + a + b), ot_ContentLen = word_of_nat c,
      ot_TagsOff = word_of_nat (152 + a + b + c), ot_TagsLen = word_of_nat d,
      ot_AssocOff = 0, ot_AssocLen = 0, ot_EmbedOff = 0, ot_EmbedLen = 0\<rparr>"

lemma read_offsets_v2:
  assumes "length (ee_ID eng) = 16" "a < 65536" "b < 65536"
  shows "read_offsets (v2_fixed eng flags a b c d @ ys) = v2_table a b c d"
proof -
  have z: "Uint32 (replicate 4 0) = 0" by (simp add: Uint32_def numeral_eq_Suc be_val_def)
  show ?thesis using assms
    by (simp add: read_offsets_def v2_table_def sub_append v2_fixed_sub z ucast16)
qed

lemma var_end_v2:
  assumes "152 + a + b + c + d < 2 ^ 32"
  shows "var_end (v2_table a b c d) = word_of_nat (152 + a + b + c + d)"
proof -
  have m: "(if word_of_nat i > (word_of_nat j :: u32) then word_of_nat i else word_of_nat j) =
      (word_of_nat (max i j) :: u32)" if "i < 2 ^ 32" "j < 2 ^ 32" for i j :: nat
    using that by (auto simp: word_nat_less max_def)
  have s: "word_of_nat i + word_of_nat j = (word_of_nat (i + j) :: u32)" for i j :: nat by simp
  have "var_end (v2_table a b c d) =
      (let m = (word_of_nat 0 :: u32); m = (if word_of_nat (152 + a + b + c + d) > m then word_of_nat (152 + a + b + c + d) else m);
         m = (if word_of_nat (152 + a + b + c) > m then word_of_nat (152 + a + b + c) else m);
         m = (if word_of_nat (152 + a + b) > m then word_of_nat (152 + a + b) else m)
       in (if word_of_nat (152 + a) > m then word_of_nat (152 + a) else m))"
    by (simp only: var_end_def v2_table_def maxVarEnd.simps OffsetTable.simps s Let_def) simp
  also have "\<dots> = word_of_nat (152 + a + b + c + d)"
    using assms unfolding Let_def by (simp only: m) (simp add: m max_def)
  finally show ?thesis .
qed

lemma check_bounds_v2:
  assumes "152 + a + b + c + d \<le> length data" "length data < 2 ^ 32"
  shows "check_bounds data (v2_table a b c d) = None"
proof -
  have "in_bounds data 0 0" by (simp add: in_bounds_def)
  then show ?thesis
    using assms unfolding check_bounds_def v2_table_def OffsetTable.simps by (simp only: in_bounds_nat) simp
qed

lemma slice_slot:
  assumes "length d < 2 ^ 32" "i + n \<le> length d"
  shows "slice d (word_of_nat i) (word_of_nat i + word_of_nat n) = Inr (sub d i n)"
  using slice_nat[of i "i + n" d] assms by simp

lemma validity_decoded:
  assumes "sub data 72 8 = PutUint64 (raw_time from)" "sub data 80 8 = PutUint64 (raw_time until)"
    "from = 0 \<or> unix_range from \<and> from \<noteq> unix_epoch" "until = 0 \<or> unix_range until \<and> until \<noteq> unix_epoch"
  shows "decodeValidity data created = (if from = 0 then created else from, until)"
proof -
  have r: "raw_time t = 0 \<longleftrightarrow> t = 0" "t \<noteq> 0 \<Longrightarrow> Unix_ns (raw_time t) = t"
    if "t = 0 \<or> unix_range t \<and> t \<noteq> unix_epoch" for t
    using that by (auto simp: raw_time_def IsZero_def UnixNano_zero_iff Unix_UnixNano)
  show ?thesis using assms(1,2) r[OF assms(3)] r[OF assms(4)] by (auto simp: decodeValidity_def)
qed

definition times_ok :: "ErfEngram \<Rightarrow> bool" where
  "times_ok eng \<longleftrightarrow> time_ok (ee_CreatedAt eng) \<and> time_ok (ee_UpdatedAt eng) \<and> time_ok (ee_LastAccess eng) \<and>
     (ee_ValidFrom eng = 0 \<or> unix_range (ee_ValidFrom eng) \<and> ee_ValidFrom eng \<noteq> unix_epoch) \<and>
     (ee_ValidUntil eng = 0 \<or> unix_range (ee_ValidUntil eng) \<and> ee_ValidUntil eng \<noteq> unix_epoch)"

definition valid_from :: "ErfEngram \<Rightarrow> time" where
  "valid_from eng = (if ee_ValidFrom eng = 0 then ee_CreatedAt eng else ee_ValidFrom eng)"

lemma decode_fixed_v2:
  assumes "length (ee_ID eng) = 16" "times_ok eng"
  shows "decode_fixed (v2_fixed eng flags a b c d @ ys) concept createdBy content tags as emb =
    eng\<lparr>ee_Concept := concept, ee_CreatedBy := createdBy, ee_Content := content, ee_Tags := tags,
       ee_Associations := as, ee_Embedding := emb, ee_Summary := '''', ee_KeyPoints := [], ee_TypeLabel := '''',
       ee_ValidFrom := valid_from eng\<rparr>"
proof -
  let ?d = "v2_fixed eng flags a b c d @ ys"
  have s: "i + n \<le> 152 \<Longrightarrow> sub ?d i n = sub (v2_fixed eng flags a b c d) i n" for i n
    by (rule sub_append) simp
  have n: "i < 152 \<Longrightarrow> ?d ! i = sub (v2_fixed eng flags a b c d) i 1 ! 0" for i
    using nth_sub1[of i "v2_fixed eng flags a b c d"] by (simp add: nth_append)
  note f = v2_fixed_sub[OF assms(1)]
  have v: "decodeValidity ?d created = (if ee_ValidFrom eng = 0 then created else ee_ValidFrom eng, ee_ValidUntil eng)"
    for created
    using assms(2) by (intro validity_decoded) (simp_all add: s f times_ok_def)
  have t: "decodeTimestamp (be64 ?d 24) = ee_CreatedAt eng" "decodeTimestamp (be64 ?d 32) = ee_UpdatedAt eng"
    "decodeTimestamp (be64 ?d 40) = ee_LastAccess eng"
    using assms(2) by (simp_all add: s f times_ok_def decode_UnixNano)
  have g: "sub ?d 8 16 = ee_ID eng" "be32 ?d 48 = ee_Confidence eng" "be32 ?d 52 = ee_Relevance eng"
    "be32 ?d 56 = ee_Stability eng" "be32 ?d 60 = ee_AccessCount eng" "be16 ?d 69 = ee_Classification eng"
    "be32 ?d 88 = ee_Importance eng"
    by (simp_all add: s f)
  have h: "?d ! 64 = ee_State eng" "?d ! 67 = ee_EmbedDim eng" "?d ! 68 = ee_MemoryType eng"
    "?d ! 71 = ee_Trust eng"
    by (simp_all add: n f del: One_nat_def)
  have "decode_fixed ?d concept createdBy content tags as emb =
    \<lparr>ee_ID = ee_ID eng, ee_CreatedAt = ee_CreatedAt eng, ee_UpdatedAt = ee_UpdatedAt eng,
     ee_LastAccess = ee_LastAccess eng, ee_Confidence = ee_Confidence eng, ee_Relevance = ee_Relevance eng,
     ee_Stability = ee_Stability eng, ee_AccessCount = ee_AccessCount eng, ee_State = ee_State eng,
     ee_EmbedDim = ee_EmbedDim eng, ee_Concept = concept, ee_CreatedBy = createdBy, ee_Content = content,
     ee_Tags = tags, ee_Associations = as, ee_Embedding = emb, ee_Summary = '''', ee_KeyPoints = [],
     ee_MemoryType = ee_MemoryType eng, ee_TypeLabel = '''', ee_Classification = ee_Classification eng,
     ee_Trust = ee_Trust eng, ee_ValidFrom = valid_from eng, ee_ValidUntil = ee_ValidUntil eng,
     ee_Importance = ee_Importance eng\<rparr>"
    unfolding decode_fixed_def Let_def t v g h valid_from_def by simp
  then show ?thesis by simp
qed

section \<open>The decoders without the bounds checks\<close>

text \<open>With the length guards at the start of the decoders no read of the fixed area can panic.\<close>

lemma decode_tagged_eq:
  "decode_tagged lib data ot eng =
     (let varEnd = var_end ot; trailer = word_of_nat (length data) - 4
      in if varEnd < trailer then
           sbind (slice data varEnd trailer) (\<lambda>b. Inr (parse_tagged lib b eng))
         else Inr eng)"
  unfolding decode_tagged_def parseTaggedFields_total ..

lemma header_read: "8 \<le> length data \<Longrightarrow> slice_to data 8 = Inr (sub data 0 8)"
  by (simp add: slice_to_def sub_def)

lemma Decode_eq:
  "Decode lib data =
     (if length data < FixedOverhead then Inl ErfTooShort
      else if \<not> VerifyCRC16 (sub data 0 8) then Inl ErfCRC16
      else
        (let ver = data ! 4; flags = data ! 5; ot = read_offsets data
         in if ver \<noteq> ErfVersion1 \<and> ver \<noteq> ErfVersion2 then Inl (ErfVersion ver)
            else case check_bounds data ot of
              Some err \<Rightarrow> Inl err
            | None \<Rightarrow>
                sbind (slice data (ot_ConceptOff ot) (ot_ConceptOff ot + ot_ConceptLen ot)) (\<lambda>concept.
                sbind (slice data (ot_CreatedByOff ot) (ot_CreatedByOff ot + ot_CreatedByLen ot)) (\<lambda>createdBy.
                sbind (decode_content lib data flags ot) (\<lambda>content.
                sbind (decode_tags lib data ot) (\<lambda>tags.
                sbind (decode_assocs data ot) (\<lambda>associations.
                sbind (decode_embedding lib data flags ot) (\<lambda>embedding.
                sbind (decode_tagged lib data ot
                    (decode_fixed data (bytes_str concept) (bytes_str createdBy) (bytes_str content)
                       tags associations embedding)) (\<lambda>eng.
                  if \<not> VerifyCRC32 data then Inl ErfCRC32 else Inr eng)))))))))"
proof (cases "length data < FixedOverhead")
  case True
  then show ?thesis by (simp add: Decode_def)
next
  case False
  then have "slice_to data 8 = Inr (sub data 0 8)" "index_at data 4 = Inr (data ! 4)" "index_at data 5 = Inr (data ! 5)"
    "need 152 data = Inr ()" "need 92 data = Inr ()"
    by (simp_all add: header_read index_at_def need_def)
  then show ?thesis unfolding Decode_def by (simp add: Let_def split: option.split)
qed

lemma DecodeMeta_eq:
  "DecodeMeta data =
     (if length data < OffsetTablePos then Inl ErfTooShort
      else if \<not> VerifyCRC16 (sub data 0 8) then Inl ErfCRC16
      else
        (let createdAt = decodeTimestamp (be64 data 24);
             (validFrom, validUntil) = decodeValidity data createdAt
         in Inr \<lparr>me_ID = sub data 8 16, me_CreatedAt = createdAt,
              me_UpdatedAt = decodeTimestamp (be64 data 32), me_LastAccess = decodeTimestamp (be64 data 40),
              me_Confidence = be32 data 48, me_Relevance = be32 data 52, me_Stability = be32 data 56,
              me_AccessCount = be32 data 60, me_State = data ! 64, me_AssocCount = be16 data 65,
              me_EmbedDim = data ! 67, me_MemoryType = data ! 68, me_Trust = data ! 71,
              me_ValidFrom = validFrom, me_ValidUntil = validUntil, me_Importance = be32 data 88\<rparr>))"
proof (cases "length data < OffsetTablePos")
  case True
  then show ?thesis by (simp add: DecodeMeta_def)
next
  case False
  then have "slice_to data 8 = Inr (sub data 0 8)" "need 92 data = Inr ()"
    by (simp_all add: header_read need_def)
  then show ?thesis unfolding DecodeMeta_def by simp
qed

end
