(* ===== verification/Erf_Props.thy ===== *)
theory Erf_Props
  imports Erf_Lemmas
begin

text \<open>What the record codec guarantees: round trip, no panic on any input, detection of a changed
  byte, patches as updates of a field, and the metadata view.\<close>

section \<open>Round trip\<close>

lemma decode_content_v2:
  assumes "lib_ok lib" "encode_content lib eng 0 = (content, flags)"
    "slice data (ot_ContentOff ot) (ot_ContentOff ot + ot_ContentLen ot) = Inr content"
  shows "decode_content lib data flags ot = Inr (str_bytes (ee_Content eng))"
    "flags AND FlagHasEmbedding = 0"
  using assms
  by (auto simp: decode_content_def encode_content_def Compress_def Decompress_def lib_ok_def Let_def
      FlagContentCompressed_def FlagHasEmbedding_def split: if_splits)

lemma decode_tags_v2:
  assumes "lib_ok lib" "mp_marshal lib ss = Inr tags" "length tags < 2 ^ 32" "ot_TagsLen ot = word_of_nat (length tags)"
    "slice data (ot_TagsOff ot) (ot_TagsOff ot + ot_TagsLen ot) = Inr tags"
  shows "decode_tags lib data ot = Inr ss"
proof -
  have "tags \<noteq> []" "mp_unmarshal lib tags = Inr ss" using assms(1,2) by (auto simp: lib_ok_def)
  moreover have "ot_TagsLen ot > 0"
    using assms(3,4) \<open>tags \<noteq> []\<close> by (simp add: word_less_nat_alt unat_word_nat)
  ultimately show ?thesis using assms(5) by (simp add: decode_tags_def)
qed

lemma Decode_steps:
  assumes "FixedOverhead \<le> length data" "VerifyCRC16 (sub data 0 8)" "data ! 4 = ErfVersion1 \<or> data ! 4 = ErfVersion2"
    "read_offsets data = ot" "check_bounds data ot = None"
    "slice data (ot_ConceptOff ot) (ot_ConceptOff ot + ot_ConceptLen ot) = Inr concept"
    "slice data (ot_CreatedByOff ot) (ot_CreatedByOff ot + ot_CreatedByLen ot) = Inr createdBy"
    "decode_content lib data (data ! 5) ot = Inr content" "decode_tags lib data ot = Inr tags"
    "decode_assocs data ot = Inr as" "decode_embedding lib data (data ! 5) ot = Inr emb"
    "decode_tagged lib data ot (decode_fixed data (bytes_str concept) (bytes_str createdBy) (bytes_str content)
      tags as emb) = Inr eng"
    "VerifyCRC32 data"
  shows "Decode lib data = Inr eng"
  using assms by (auto simp: Decode_eq Let_def)

text \<open>A version 2 buffer: fixed area, the four variable fields, tagged fields, trailer.\<close>

definition v2_buffer :: "bytes \<Rightarrow> bytes \<Rightarrow> bytes \<Rightarrow> bytes \<Rightarrow> bytes \<Rightarrow> bytes \<Rightarrow> bytes \<Rightarrow> bytes" where
  "v2_buffer fx concept createdBy content tags tg crc = fx @ concept @ createdBy @ content @ tags @ tg @ crc"

lemma v2_slots:
  assumes "data = v2_buffer fx concept createdBy content tags tg crc" "length fx = 152" "length data < 2 ^ 32"
  defines "ot \<equiv> v2_table (length concept) (length createdBy) (length content) (length tags)"
  shows "slice data (ot_ConceptOff ot) (ot_ConceptOff ot + ot_ConceptLen ot) = Inr concept"
    "slice data (ot_CreatedByOff ot) (ot_CreatedByOff ot + ot_CreatedByLen ot) = Inr createdBy"
    "slice data (ot_ContentOff ot) (ot_ContentOff ot + ot_ContentLen ot) = Inr content"
    "slice data (ot_TagsOff ot) (ot_TagsOff ot + ot_TagsLen ot) = Inr tags"
proof -
  have *: "slice data (word_of_nat i) (word_of_nat i + word_of_nat n) = Inr ys"
    if "data = xs @ ys @ zs" "length xs = i" "length ys = n" for i n xs ys zs
    using that assms(3) sub_mid[OF that(2,3)] slice_slot[of data i n] by simp
  show "slice data (ot_ConceptOff ot) (ot_ConceptOff ot + ot_ConceptLen ot) = Inr concept"
    using *[of fx concept _ 152] assms(1,2) by (simp add: ot_def v2_table_def v2_buffer_def)
  show "slice data (ot_CreatedByOff ot) (ot_CreatedByOff ot + ot_CreatedByLen ot) = Inr createdBy"
    using *[of "fx @ concept" createdBy _ "152 + length concept"] assms(1,2)
    by (simp add: ot_def v2_table_def v2_buffer_def)
  show "slice data (ot_ContentOff ot) (ot_ContentOff ot + ot_ContentLen ot) = Inr content"
    using *[of "fx @ concept @ createdBy" content _ "152 + length concept + length createdBy"] assms(1,2)
    by (simp add: ot_def v2_table_def v2_buffer_def)
  show "slice data (ot_TagsOff ot) (ot_TagsOff ot + ot_TagsLen ot) = Inr tags"
    using *[of "fx @ concept @ createdBy @ content" tags _ "152 + length concept + length createdBy + length content"]
      assms(1,2)
    by (simp add: ot_def v2_table_def v2_buffer_def)
qed

lemma decode_tagged_v2:
  assumes data: "data = v2_buffer fx concept createdBy content tags tg crc" "length fx = 152" "length crc = 4"
    "length data < 2 ^ 32"
  shows "decode_tagged lib data (v2_table (length concept) (length createdBy) (length content) (length tags)) eng =
    Inr (parse_tagged lib tg eng)"
proof -
  let ?ot = "v2_table (length concept) (length createdBy) (length content) (length tags)"
  define n where "n = 152 + length concept + length createdBy + length content + length tags"
  have len: "length data = n + length tg + 4" using data(2,3) by (simp add: data(1) v2_buffer_def n_def)
  have ve: "var_end ?ot = word_of_nat n" using len data(4) unfolding n_def by (intro var_end_v2) simp
  have tr: "word_of_nat (length data) - 4 = (word_of_nat (n + length tg) :: u32)" by (simp add: len)
  have less: "(word_of_nat n :: u32) < word_of_nat (n + length tg) \<longleftrightarrow> tg \<noteq> []"
    using len data(4) by (subst word_nat_less) auto
  have "sub data n (length tg) = tg"
    using sub_mid[of "fx @ concept @ createdBy @ content @ tags" n tg "length tg" crc] data(2)
    by (simp add: data(1) v2_buffer_def n_def)
  then have "slice data (word_of_nat n) (word_of_nat (n + length tg)) = Inr tg"
    using slice_nat[of n "n + length tg" data] data(4) len by simp
  then show ?thesis
    unfolding decode_tagged_eq Let_def ve tr less by simp
qed

lemma v2_header:
  assumes "length (ee_ID eng) = 16" "fx = v2_fixed eng flags a b c d"
  shows "VerifyCRC16 (sub (fx @ ys) 0 8)" "(fx @ ys) ! 4 = ErfVersion2" "(fx @ ys) ! 5 = flags"
proof -
  have fx: "length fx = 152" by (simp add: assms(2))
  show "VerifyCRC16 (sub (fx @ ys) 0 8)"
    using v2_fixed_sub(3)[OF assms(1), of flags a b c d] fx
    by (intro VerifyCRC16_head) (simp_all add: sub_append assms(2))
  show "(fx @ ys) ! 4 = ErfVersion2" "(fx @ ys) ! 5 = flags"
    using v2_fixed_sub(1,2)[OF assms(1), of flags a b c d] nth_sub1[of 4 fx] nth_sub1[of 5 fx] fx
    by (simp_all add: nth_append assms(2) del: One_nat_def)
qed

lemma Decode_v2:
  assumes ok: "lib_ok lib" "tags_fit lib eng" "length (ee_ID eng) = 16" "times_ok eng"
    and parts: "encode_content lib eng 0 = (content, flags)" "mp_marshal lib (ee_Tags eng) = Inr tags"
    and small: "length (ee_Concept eng) \<le> 512" "length (ee_CreatedBy eng) \<le> 64" "length data < 2 ^ 32"
    and data: "data = v2_buffer fx (str_bytes (ee_Concept eng)) (str_bytes (ee_CreatedBy eng)) content tags
        (tagged_part lib eng) crc"
      "fx = v2_fixed eng flags (length (ee_Concept eng)) (length (ee_CreatedBy eng)) (length content) (length tags)"
    and ends: "length crc = 4" "VerifyCRC32 data"
  shows "Decode lib data = Inr (eng\<lparr>ee_Associations := [], ee_Embedding := [], ee_ValidFrom := valid_from eng\<rparr>)"
proof -
  let ?t = "v2_table (length (ee_Concept eng)) (length (ee_CreatedBy eng)) (length content) (length tags)"
  have fx: "length fx = 152" by (simp add: data(2))
  note slots = v2_slots[OF data(1) fx small(3), unfolded length_str_bytes]
  have len: "length data = 152 + length (ee_Concept eng) + length (ee_CreatedBy eng) + length content + length tags +
      length (tagged_part lib eng) + 4"
    using ends(1) fx by (simp add: data(1) v2_buffer_def)
  have head: "VerifyCRC16 (sub data 0 8)" "data ! 4 = ErfVersion2" "data ! 5 = flags"
    unfolding data(1) v2_buffer_def using v2_header[OF ok(3) data(2)] by auto
  have ot: "read_offsets data = ?t"
    unfolding data v2_buffer_def using small by (intro read_offsets_v2[OF ok(3)]) simp_all
  note content = decode_content_v2[OF ok(1) parts(1) slots(3)]
  have tags: "decode_tags lib data ?t = Inr (ee_Tags eng)"
    using len small(3) slots(4) by (intro decode_tags_v2[OF ok(1) parts(2)]) (simp_all add: v2_table_def)
  let ?e = "decode_fixed data (ee_Concept eng) (ee_CreatedBy eng) (ee_Content eng) (ee_Tags eng) [] []"
  have "?e = eng\<lparr>ee_Associations := [], ee_Embedding := [], ee_Summary := '''', ee_KeyPoints := [],
      ee_TypeLabel := '''', ee_ValidFrom := valid_from eng\<rparr>"
    unfolding data v2_buffer_def by (simp add: decode_fixed_v2[OF ok(3,4)])
  then have "parse_tagged lib (tagged_part lib eng) ?e =
      eng\<lparr>ee_Associations := [], ee_Embedding := [], ee_ValidFrom := valid_from eng\<rparr>"
    by (simp add: parse_tagged_part[OF ok(1,2)])
  then have tail: "decode_tagged lib data ?t ?e =
      Inr (eng\<lparr>ee_Associations := [], ee_Embedding := [], ee_ValidFrom := valid_from eng\<rparr>)"
    using decode_tagged_v2[OF data(1) fx ends(1) small(3), of lib ?e] by simp
  show ?thesis
    by (rule Decode_steps[OF _ head(1) _ ot check_bounds_v2 slots(1,2) _ tags _ _ _ ends(2), where as = "[]" and emb = "[]"
          and content = "str_bytes (ee_Content eng)"])
      (use len small(3) head content tail in
       \<open>simp_all add: decode_assocs_def decode_embedding_def v2_table_def bytes_str_str_bytes\<close>)
qed

lemma Decode_EncodeV2:
  assumes "lib_ok lib" "tags_fit lib eng" "length (ee_ID eng) = 16" "times_ok eng"
    "EncodeV2 lib eng = Inr data" "length data < 2 ^ 32"
  shows "Decode lib data = Inr (eng\<lparr>ee_Associations := [], ee_Embedding := [], ee_ValidFrom := valid_from eng\<rparr>)"
proof -
  obtain content flags where c: "encode_content lib eng 0 = (content, flags)" by force
  from assms(5) c obtain tags where t: "mp_marshal lib (ee_Tags eng) = Inr tags" and sz: "check_sizes eng = None"
    by (auto simp: EncodeV2_def Let_def split: option.splits sum.splits)
  note form = EncodeV2_form[OF assms(5) c t]
  from sz have "length (ee_Concept eng) \<le> 512" "length (ee_CreatedBy eng) \<le> 64"
    by (auto simp: check_sizes_def split: if_splits)
  moreover have "VerifyCRC32 data"
    by (subst form, subst append.assoc[symmetric], rule VerifyCRC32_sealed)
      (simp add: v2_fixed_def length152 flip: length_greater_0_conv)
  ultimately show ?thesis
    by (intro Decode_v2[OF assms(1-4) c t _ _ assms(6) _ refl PutUint32_length])
      (simp_all add: v2_buffer_def form)
qed

text \<open>C13.  A record that \<open>EncodeV2\<close> writes decodes to what was written: every field of the engram
  comes back, except the associations and the embedding, which version 2 does not store, and the
  start of validity, which falls back to the creation time when it was not set.\<close>

theorem erf_v2_round_trip:
  assumes "lib_ok lib" "tags_fit lib eng" "length (ee_ID eng) = 16" "times_ok eng"
    "EncodeV2 lib eng = Inr data" "length data < 2 ^ 32"
  shows "Decode lib data = Inr (eng\<lparr>ee_Associations := [], ee_Embedding := [], ee_ValidFrom := valid_from eng\<rparr>)"
  using assms by (rule Decode_EncodeV2)

section \<open>No input makes the decoder panic\<close>

lemma sbind_Inl: "sbind m f = Inl e \<longleftrightarrow> m = Inl e \<or> (\<exists>a. m = Inr a \<and> f a = Inl e)"
  by (auto simp: sbind_def split: sum.splits)

lemma loop_Inl: "loop n i f = Inl e \<Longrightarrow> \<exists>j. i \<le> j \<and> j < i + n \<and> f j = Inl e"
proof (induction n i f rule: loop.induct)
  case (2 n i f)
  then consider "f i = Inl e" | "loop n (Suc i) f = Inl e" by (auto simp: sbind_Inl)
  then show ?case
  proof cases
    case 2
    with "2.IH" obtain j where "Suc i \<le> j" "j < Suc i + n" "f j = Inl e" by auto
    then show ?thesis by (intro exI[of _ j]) simp
  qed auto
qed simp

lemma check_bounds_None:
  "check_bounds data ot = None \<longleftrightarrow>
    in_bounds data (ot_ConceptOff ot) (ot_ConceptLen ot) \<and> in_bounds data (ot_CreatedByOff ot) (ot_CreatedByLen ot) \<and>
    in_bounds data (ot_ContentOff ot) (ot_ContentLen ot) \<and> in_bounds data (ot_TagsOff ot) (ot_TagsLen ot) \<and>
    in_bounds data (ot_AssocOff ot) (ot_AssocLen ot) \<and> in_bounds data (ot_EmbedOff ot) (ot_EmbedLen ot)"
  by (simp add: check_bounds_def)

lemma check_bounds_error: "check_bounds data ot = Some e \<Longrightarrow> \<exists>field. e = ErfBounds field"
  by (auto simp: check_bounds_def split: if_splits)

lemma slice_panic: "slice data i j = Inl e \<Longrightarrow> e = ErfPanic"
  by (simp add: slice_def split: if_splits)

text \<open>An element of a table inside the buffer is inside the buffer, without wrap-around.\<close>

lemma slice_element:
  assumes "in_bounds data off len" "length data < 2 ^ 32" "i < unat len div k" "k < 2 ^ 32"
  shows "slice data (off + word_of_nat i * word_of_nat k) (off + word_of_nat i * word_of_nat k + word_of_nat k) =
    Inr (sub data (unat off + i * k) k)"
proof -
  have "(i + 1) * k \<le> unat len div k * k" using assms(3) by (intro mult_right_mono) simp_all
  also have "\<dots> \<le> unat len" by simp
  finally have *: "i * k + k \<le> unat len" by simp
  have o': "off = word_of_nat (unat off)" by simp
  have "slice data (word_of_nat (unat off + i * k)) (word_of_nat (unat off + i * k) + word_of_nat k) =
      Inr (sub data (unat off + i * k) k)"
    using assms(1,2) * by (intro slice_slot) (simp_all add: in_bounds_def)
  then show ?thesis by simp
qed

lemma decode_assocs_no_panic:
  assumes "in_bounds data (ot_AssocOff ot) (ot_AssocLen ot)" "length data < 2 ^ 32"
  shows "decode_assocs data ot \<noteq> Inl ErfPanic"
proof
  assume "decode_assocs data ot = Inl ErfPanic"
  then obtain i where i: "i < unat (ot_AssocLen ot div 40)" and
    "sbind (slice data (ot_AssocOff ot + word_of_nat i * 40) (ot_AssocOff ot + word_of_nat i * 40 + 40))
      DecodeAssociation = Inl ErfPanic"
    by (auto simp: decode_assocs_def Let_def dest!: loop_Inl split: if_splits)
  moreover have "i < unat (ot_AssocLen ot) div 40" using i by (simp add: unat_div)
  from slice_element[OF assms this]
  have "slice data (ot_AssocOff ot + word_of_nat i * 40) (ot_AssocOff ot + word_of_nat i * 40 + 40) =
    Inr (sub data (unat (ot_AssocOff ot) + i * 40) 40)" by simp
  ultimately show False by (simp add: DecodeAssociation_def Let_def split: if_splits)
qed

lemma decode_embedding_no_panic:
  assumes "in_bounds data (ot_EmbedOff ot) (ot_EmbedLen ot)" "length data < 2 ^ 32"
  shows "decode_embedding lib data flags ot \<noteq> Inl ErfPanic"
proof
  assume p: "decode_embedding lib data flags ot = Inl ErfPanic"
  let ?o = "ot_EmbedOff ot" and ?l = "ot_EmbedLen ot"
  have quant: False if "8 \<le> ?l" "slice data ?o (?o + 8) = Inl ErfPanic \<or>
      (\<exists>i < unat (?l - 8). byte_at data (?o + 8 + word_of_nat i) = Inl ErfPanic)"
  proof -
    have l: "8 \<le> unat ?l" "unat (?l - 8) = unat ?l - 8"
      using that(1) by (simp_all add: word_le_nat_alt unat_sub)
    then have "in_bounds data ?o 8" using assms(1) by (simp add: in_bounds_def)
    then have "slice data ?o (?o + 8) \<noteq> Inl ErfPanic" using slice_in_bounds[OF _ assms(2)] by simp
    with that(2) obtain i where i: "i < unat ?l - 8" "byte_at data (?o + 8 + word_of_nat i) = Inl ErfPanic"
      using l by auto
    have "?o + 8 + word_of_nat i = ?o + word_of_nat (8 + i)" by simp
    also have "unat \<dots> = unat ?o + (8 + i)"
      using assms i(1) by (intro unat_add_nat) (simp add: in_bounds_def)
    finally show False using assms(1) i by (simp add: byte_at_def in_bounds_def split: if_splits)
  qed
  have plain: "slice data (?o + word_of_nat i * 4) (?o + word_of_nat i * 4 + 4) \<noteq> Inl ErfPanic"
    if "i < unat (?l div 4)" for i
    using slice_element[OF assms, of i 4] that by (simp add: unat_div)
  have q1: "8 \<le> ?l \<Longrightarrow> slice data ?o (?o + 8) \<noteq> Inl ErfPanic" using quant by blast
  have q2: "8 \<le> ?l \<Longrightarrow> j < unat (?l - 8) \<Longrightarrow> byte_at data (?o + 8 + word_of_nat j) \<noteq> Inl ErfPanic" for j
    using quant by blast
  show False using p q1 q2 plain
    by (auto simp: decode_embedding_def Let_def sbind_Inl not_less map_sum_def split: if_splits sum.splits
        dest!: loop_Inl)
qed

lemma decode_tagged_no_panic:
  assumes "4 \<le> length data" "length data < 2 ^ 32"
  shows "decode_tagged lib data ot eng \<noteq> Inl e"
proof -
  have "unat (word_of_nat (length data) - 4 :: u32) \<le> length data"
    using assms by (simp add: unat_word_nat unat_sub word_le_nat_alt)
  then show ?thesis by (auto simp: decode_tagged_eq Let_def sbind_Inl slice_def)
qed

lemma DecodeMeta_no_panic: "DecodeMeta data \<noteq> Inl ErfPanic"
  by (simp add: DecodeMeta_eq Let_def split: prod.split)

lemma DecodeMetaConcept_no_panic: "DecodeMetaConcept data \<noteq> Inl ErfPanic"
  using DecodeMeta_no_panic[of data] by (auto simp: DecodeMetaConcept_def sbind_Inl need_def Let_def split: if_splits)

lemma Decode_no_panic:
  assumes "length data < 2 ^ 32"
  shows "Decode lib data \<noteq> Inl ErfPanic"
proof
  assume p: "Decode lib data = Inl ErfPanic"
  define ot where "ot = read_offsets data"
  from p have len: "152 \<le> length data" by (auto simp: Decode_eq split: if_splits)
  from p have cb: "check_bounds data ot = None"
    by (auto simp: Decode_eq Let_def ot_def split: if_splits option.splits dest: check_bounds_error)
  then have ib: "in_bounds data (ot_ConceptOff ot) (ot_ConceptLen ot)" "in_bounds data (ot_CreatedByOff ot) (ot_CreatedByLen ot)"
    "in_bounds data (ot_ContentOff ot) (ot_ContentLen ot)" "in_bounds data (ot_TagsOff ot) (ot_TagsLen ot)"
    "in_bounds data (ot_AssocOff ot) (ot_AssocLen ot)" "in_bounds data (ot_EmbedOff ot) (ot_EmbedLen ot)"
    by (simp_all add: check_bounds_None)
  note sl = slice_in_bounds[OF _ assms]
  have "decode_content lib data flags ot \<noteq> Inl ErfPanic" for flags
    by (auto simp: decode_content_def sl[OF ib(3)] Decompress_def map_sum_def split: sum.splits)
  moreover have "decode_tags lib data ot \<noteq> Inl ErfPanic"
    by (auto simp: decode_tags_def sl[OF ib(4)] map_sum_def split: sum.splits)
  ultimately show False
    using p len cb decode_assocs_no_panic[OF ib(5) assms] decode_embedding_no_panic[OF ib(6) assms]
      decode_tagged_no_panic[OF _ assms]
    by (auto simp: Decode_eq Let_def sbind_Inl ot_def[symmetric] sl[OF ib(1)] sl[OF ib(2)] split: if_splits)
qed

text \<open>C14.  Decoding never panics, whatever the bytes are.  Every read of the decoders is an index or
  a slice expression that panics out of range: of the header, the version, the flags, the offset table
  and the fixed metadata, of the variable fields at the offsets the record itself gives, of the records
  of the association and embedding tables, and of the tagged fields.  The length guards at the start,
  the bounds checks of the six fields and the checks inside the tagged fields leave none of them out of
  range on a buffer below 4 GiB; the decoders of the metadata need no bound at all.\<close>

theorem erf_decode_never_panics:
  assumes "length data < 2 ^ 32"
  shows "Decode lib data \<noteq> Inl ErfPanic \<and> DecodeMeta data \<noteq> Inl ErfPanic \<and>
    DecodeMetaConcept data \<noteq> Inl ErfPanic"
  using Decode_no_panic[OF assms] DecodeMeta_no_panic DecodeMetaConcept_no_panic by blast

section \<open>A changed byte is detected\<close>

lemma VerifyCRC32_split:
  assumes "5 \<le> length data"
  shows "VerifyCRC32 data \<longleftrightarrow> drop (length data - 4) data = PutUint32 (ComputeCRC32 (take (length data - 4) data))"
proof -
  have l: "length (drop (length data - 4) data) = 4" using assms by simp
  have "Uint32 (drop (length data - 4) data) = c \<longleftrightarrow> drop (length data - 4) data = PutUint32 c" for c
    using Uint32_bytes[OF l] by (metis Uint32_Put0)
  then show ?thesis using assms by (simp add: VerifyCRC32_def Let_def sub_def)
qed

lemma changed_byte_fails:
  assumes ok: "VerifyCRC32 data" and i: "i < length data" "b \<noteq> data ! i"
  shows "\<not> VerifyCRC32 (data[i := b])"
proof
  assume ok': "VerifyCRC32 (data[i := b])"
  define n where "n = length data - 4"
  have len: "5 \<le> length data" using ok by (simp add: VerifyCRC32_def split: if_splits)
  have t: "drop n data = PutUint32 (ComputeCRC32 (take n data))"
    "drop n (data[i := b]) = PutUint32 (ComputeCRC32 (take n (data[i := b])))"
    using ok ok' len VerifyCRC32_split[of data] VerifyCRC32_split[of "data[i := b]"] by (simp_all add: n_def)
  show False
  proof (cases "i < n")
    case True
    then have "drop n (data[i := b]) = drop n data" "take n (data[i := b]) = (take n data)[i := b]"
      by (simp_all add: drop_update_cancel take_update_swap)
    with t have e: "ComputeCRC32 ((take n data)[i := b]) = ComputeCRC32 (take n data)"
      by (metis Uint32_Put0)
    have il: "i < length (take n data)" using True i by simp
    have "take n data = take i data @ data ! i # drop (Suc i) (take n data)"
      using id_take_nth_drop[OF il] True by (simp add: min_def)
    moreover have "(take n data)[i := b] = take i data @ b # drop (Suc i) (take n data)"
      using upd_conv_take_nth_drop[OF il] True by (simp add: min_def)
    ultimately show False using e i(2) ComputeCRC32_changed_byte by metis
  next
    case False
    then have "take n (data[i := b]) = take n data" by (simp add: take_update_cancel)
    with t have "drop n (data[i := b]) = drop n data" by simp
    moreover have "drop n (data[i := b]) ! (i - n) = b" "drop n data ! (i - n) = data ! i"
      using False i(1) by (simp_all add: nth_append)
    ultimately show False using i(2) by simp
  qed
qed

text \<open>C15.  Changing any single byte of a stored record makes it undecodable: the trailer's checksum
  covers every byte before it, and a changed byte always changes it.\<close>

theorem erf_changed_byte_rejected:
  assumes "Decode lib data = Inr eng" "i < length data" "b \<noteq> data ! i"
  shows "Decode lib (data[i := b]) \<noteq> Inr eng'"
proof -
  have v: "Decode lib d = Inr e \<Longrightarrow> VerifyCRC32 d" for d e
    by (auto simp: Decode_eq Let_def sbind_Inr split: if_splits option.splits)
  from changed_byte_fails[OF v[OF assms(1)] assms(2,3)] v show ?thesis by blast
qed

section \<open>Patches\<close>

lemma nth_put:
  "off + length bs \<le> length buf \<Longrightarrow> i < length buf \<Longrightarrow>
   put off bs buf ! i = (if off \<le> i \<and> i < off + length bs then bs ! (i - off) else buf ! i)"
  by (auto simp: put_def nth_append)

lemma put152_swap:
  assumes "length buf = 152" "off + length bs \<le> 152" "o' + length cs \<le> 152"
    "off + length bs \<le> o' \<or> o' + length cs \<le> off"
  shows "put off bs (put o' cs buf) = put o' cs (put off bs buf)"
  using assms by (intro nth_equalityI) (auto simp: nth_put)

lemma put152_sink:
  "off + length bs \<le> o' \<Longrightarrow> o' + length cs \<le> 152 \<Longrightarrow> length buf = 152 \<Longrightarrow>
   put off bs (put o' cs buf) = put o' cs (put off bs buf)"
  by (rule put152_swap) auto

text \<open>The rule is permutative, so it is given at the offsets that occur.\<close>

lemmas sinks = put152_sink[where o' = 40]
  put152_sink[where o' = 48]
  put152_sink[where o' = 52]
  put152_sink[where o' = 56]
  put152_sink[where o' = 60]
  put152_sink[where o' = 64]
  put152_sink[where o' = 67]
  put152_sink[where o' = 68]
  put152_sink[where o' = 69]
  put152_sink[where o' = 71]
  put152_sink[where o' = 72]
  put152_sink[where o' = 80]
  put152_sink[where o' = 88]
  put152_sink[where o' = 108]
  put152_sink[where o' = 112]
  put152_sink[where o' = 114]
  put152_sink[where o' = 118]
  put152_sink[where o' = 120]
  put152_sink[where o' = 124]
  put152_sink[where o' = 128]
  put152_sink[where o' = 132]

lemma put152_again:
  assumes "length buf = 152" "off + length bs \<le> 152" "length cs = length bs"
  shows "put off bs (put off cs buf) = put off bs buf"
  using assms by (simp add: put_def)

lemma put152_seal:
  assumes "length buf = 152" "8 \<le> off" "off + length bs \<le> 152"
  shows "put off bs (seal_header flags buf) = seal_header flags (put off bs buf)"
proof -
  have "put 5 [flags] (put off bs buf) = put off bs (put 5 [flags] buf)"
    using assms by (intro put152_swap) simp_all
  moreover have "sub (put off bs (put 5 [flags] buf)) 0 6 = sub (put 5 [flags] buf) 0 6"
    using assms by (intro sub152_other) simp_all
  ultimately show ?thesis
    unfolding seal_header_def Let_def using assms
    by (simp add: put152_swap[of "put 5 [flags] buf" off bs 6])
qed

lemma put152_offsets:
  assumes "length buf = 152" "off + length bs \<le> 108"
  shows "put off bs (put_offsets a b c d buf) = put_offsets a b c d (put off bs buf)"
  using assms by (simp add: put_offsets_def Let_def sinks put152 del: length_put)

lemma put152_validity:
  assumes "length buf = 152" "off + length bs \<le> 72"
  shows "put off bs (encodeValidityAndImportance buf eng) = encodeValidityAndImportance (put off bs buf) eng"
  using assms by (simp add: encodeValidityAndImportance_def Let_def sinks put152 del: length_put)

lemma meta_put:
  assumes "length buf = 152"
  shows "put 32 (PutUint64 (UnixNano t)) (encode_meta v eng buf) = encode_meta v (eng\<lparr>ee_UpdatedAt := t\<rparr>) buf"
    "put 40 (PutUint64 (UnixNano t)) (encode_meta v eng buf) = encode_meta v (eng\<lparr>ee_LastAccess := t\<rparr>) buf"
    "put 48 (PutUint32 x) (encode_meta v eng buf) = encode_meta v (eng\<lparr>ee_Confidence := x\<rparr>) buf"
    "put 52 (PutUint32 x) (encode_meta v eng buf) = encode_meta v (eng\<lparr>ee_Relevance := x\<rparr>) buf"
    "put 56 (PutUint32 x) (encode_meta v eng buf) = encode_meta v (eng\<lparr>ee_Stability := x\<rparr>) buf"
    "put 60 (PutUint32 x) (encode_meta v eng buf) = encode_meta v (eng\<lparr>ee_AccessCount := x\<rparr>) buf"
    "put 64 [y] (encode_meta v eng buf) = encode_meta v (eng\<lparr>ee_State := y\<rparr>) buf"
    "put 67 [y] (encode_meta v eng buf) = encode_meta v (eng\<lparr>ee_EmbedDim := y\<rparr>) buf"
    "put 71 [y] (encode_meta v eng buf) = encode_meta v (eng\<lparr>ee_Trust := y\<rparr>) buf"
  using assms by (simp_all add: encode_meta_def Let_def put152 sinks put152_again del: length_put)

lemma meta_other:
  "encode_meta v (eng\<lparr>ee_ValidUntil := t\<rparr>) buf = encode_meta v eng buf"
  "encodeValidityAndImportance buf (eng\<lparr>ee_UpdatedAt := t\<rparr>) = encodeValidityAndImportance buf eng"
  "encodeValidityAndImportance buf (eng\<lparr>ee_LastAccess := t\<rparr>) = encodeValidityAndImportance buf eng"
  "encodeValidityAndImportance buf (eng\<lparr>ee_Confidence := x\<rparr>) = encodeValidityAndImportance buf eng"
  "encodeValidityAndImportance buf (eng\<lparr>ee_Relevance := x\<rparr>) = encodeValidityAndImportance buf eng"
  "encodeValidityAndImportance buf (eng\<lparr>ee_Stability := x\<rparr>) = encodeValidityAndImportance buf eng"
  "encodeValidityAndImportance buf (eng\<lparr>ee_AccessCount := x\<rparr>) = encodeValidityAndImportance buf eng"
  "encodeValidityAndImportance buf (eng\<lparr>ee_State := y\<rparr>) = encodeValidityAndImportance buf eng"
  "encodeValidityAndImportance buf (eng\<lparr>ee_EmbedDim := y\<rparr>) = encodeValidityAndImportance buf eng"
  "encodeValidityAndImportance buf (eng\<lparr>ee_Trust := y\<rparr>) = encodeValidityAndImportance buf eng"
  by (simp_all add: encode_meta_def encodeValidityAndImportance_def)

lemma validity_put:
  assumes "length buf = 152"
  shows "put 80 (PutUint64 (raw_time t)) (encodeValidityAndImportance buf eng) =
    encodeValidityAndImportance buf (eng\<lparr>ee_ValidUntil := t\<rparr>)"
  using assms by (simp add: encodeValidityAndImportance_def Let_def raw_time_def put152 sinks put152_again del: length_put)

text \<open>Writing a field of the fixed area is encoding the engram with that field.\<close>

lemma v2_fixed_put:
  fixes eng flags a b c d
  defines "F \<equiv> \<lambda>e. v2_fixed e flags a b c d"
  shows "put 32 (PutUint64 (UnixNano t)) (F eng) = F (eng\<lparr>ee_UpdatedAt := t\<rparr>)"
    "put 40 (PutUint64 (UnixNano t)) (F eng) = F (eng\<lparr>ee_LastAccess := t\<rparr>)"
    "put 48 (PutUint32 x) (F eng) = F (eng\<lparr>ee_Confidence := x\<rparr>)"
    "put 52 (PutUint32 x) (F eng) = F (eng\<lparr>ee_Relevance := x\<rparr>)"
    "put 56 (PutUint32 x) (F eng) = F (eng\<lparr>ee_Stability := x\<rparr>)"
    "put 60 (PutUint32 x) (F eng) = F (eng\<lparr>ee_AccessCount := x\<rparr>)"
    "put 64 [y] (F eng) = F (eng\<lparr>ee_State := y\<rparr>)"
    "put 67 [y] (F eng) = F (eng\<lparr>ee_EmbedDim := y\<rparr>)"
    "put 71 [y] (F eng) = F (eng\<lparr>ee_Trust := y\<rparr>)"
    "put 80 (PutUint64 (raw_time t)) (F eng) = F (eng\<lparr>ee_ValidUntil := t\<rparr>)"
  by (simp_all add: F_def v2_fixed_def length152 put152_seal put152_offsets put152_validity meta_put meta_other
      validity_put)

lemma v2_fixed_put_until:
  "IsZero t \<Longrightarrow> put 80 (PutUint64 0) (v2_fixed eng flags a b c d) =
    v2_fixed (eng\<lparr>ee_ValidUntil := t\<rparr>) flags a b c d"
  "\<not> IsZero t \<Longrightarrow> put 80 (PutUint64 (UnixNano t)) (v2_fixed eng flags a b c d) =
    v2_fixed (eng\<lparr>ee_ValidUntil := t\<rparr>) flags a b c d"
  using v2_fixed_put(10)[of t eng flags a b c d] by (simp_all add: raw_time_def)

lemma patch_put:
  "length fx = 152 \<Longrightarrow> off + length bs \<le> 152 \<Longrightarrow> put off bs (fx @ body) = put off bs fx @ body"
  by (simp add: put_append)

lemma patch_reseal:
  assumes "length fx = 152" "length crc = 4"
  shows "reseal (fx @ body @ crc) = fx @ body @ PutUint32 (ComputeCRC32 (fx @ body))"
proof -
  have "length (fx @ body @ crc) - TrailerSize = length (fx @ body)" using assms by simp
  then show ?thesis using assms by (simp add: reseal_def put_def)
qed

text \<open>Engrams with the same variable fields: encoding them differs in the fixed area alone.\<close>

definition same_variable :: "ErfEngram \<Rightarrow> ErfEngram \<Rightarrow> bool" where
  "same_variable e e' \<longleftrightarrow> ee_Concept e' = ee_Concept e \<and> ee_CreatedBy e' = ee_CreatedBy e \<and>
     ee_Content e' = ee_Content e \<and> ee_Tags e' = ee_Tags e \<and> ee_TypeLabel e' = ee_TypeLabel e \<and>
     ee_Summary e' = ee_Summary e \<and> ee_KeyPoints e' = ee_KeyPoints e"

lemma EncodeV2_shape:
  assumes "EncodeV2 lib eng = Inr data"
  obtains flags a b c d body where
    "data = v2_fixed eng flags a b c d @ body @ PutUint32 (ComputeCRC32 (v2_fixed eng flags a b c d @ body))"
    "\<And>e. same_variable eng e \<Longrightarrow> EncodeV2 lib e =
      Inr (v2_fixed e flags a b c d @ body @ PutUint32 (ComputeCRC32 (v2_fixed e flags a b c d @ body)))"
proof -
  obtain content flags where c: "encode_content lib eng 0 = (content, flags)" by force
  from assms c obtain tags where t: "mp_marshal lib (ee_Tags eng) = Inr tags" and sz: "check_sizes eng = None"
    by (auto simp: EncodeV2_def Let_def split: option.splits sum.splits)
  have again: "\<exists>d'. EncodeV2 lib e = Inr d'" if "same_variable eng e" for e
    using that sz t by (auto simp: EncodeV2_def same_variable_def check_sizes_def Let_def split: prod.splits if_splits)
  have c': "encode_content lib e 0 = (content, flags)" "mp_marshal lib (ee_Tags e) = Inr tags"
    if "same_variable eng e" for e
    using that c t by (simp_all add: same_variable_def encode_content_def)
  show thesis
  proof (rule that)
    show "data = v2_fixed eng flags (length (ee_Concept eng)) (length (ee_CreatedBy eng)) (length content) (length tags) @
        (str_bytes (ee_Concept eng) @ str_bytes (ee_CreatedBy eng) @ content @ tags @ tagged_part lib eng) @
        PutUint32 (ComputeCRC32 (v2_fixed eng flags (length (ee_Concept eng)) (length (ee_CreatedBy eng)) (length content) (length tags) @
          (str_bytes (ee_Concept eng) @ str_bytes (ee_CreatedBy eng) @ content @ tags @ tagged_part lib eng)))"
      using EncodeV2_form[OF assms c t] by simp
  next
    fix e assume e: "same_variable eng e"
    then obtain d' where d': "EncodeV2 lib e = Inr d'" using again by blast
    show "EncodeV2 lib e = Inr (v2_fixed e flags (length (ee_Concept eng)) (length (ee_CreatedBy eng)) (length content) (length tags) @
        (str_bytes (ee_Concept eng) @ str_bytes (ee_CreatedBy eng) @ content @ tags @ tagged_part lib eng) @
        PutUint32 (ComputeCRC32 (v2_fixed e flags (length (ee_Concept eng)) (length (ee_CreatedBy eng)) (length content) (length tags) @
          (str_bytes (ee_Concept eng) @ str_bytes (ee_CreatedBy eng) @ content @ tags @ tagged_part lib eng))))"
      using EncodeV2_form[OF d' c'(1)[OF e] c'(2)[OF e]] e d' by (simp add: same_variable_def tagged_part_def)
  qed
qed

text \<open>Patching is re-encoding: each patch function applied to a version 2 record gives, byte for
  byte, the record of the engram with the patched fields changed.\<close>

theorem erf_patch_is_reencode:
  assumes "EncodeV2 lib eng = Inr data"
  shows "PatchAllMeta data updatedAt lastAccess confidence relevance stability accessCount state =
      EncodeV2 lib (eng\<lparr>ee_UpdatedAt := updatedAt, ee_LastAccess := lastAccess, ee_Confidence := confidence,
        ee_Relevance := relevance, ee_Stability := stability, ee_AccessCount := accessCount, ee_State := state\<rparr>) \<and>
    PatchRelevance data updatedAt relevance stability =
      EncodeV2 lib (eng\<lparr>ee_UpdatedAt := updatedAt, ee_Relevance := relevance, ee_Stability := stability\<rparr>) \<and>
    PatchEmbedDim data dim = EncodeV2 lib (eng\<lparr>ee_EmbedDim := dim\<rparr>) \<and>
    PatchValidUntil data until = EncodeV2 lib (eng\<lparr>ee_ValidUntil := until\<rparr>) \<and>
    PatchTrust data trust = EncodeV2 lib (eng\<lparr>ee_Trust := trust\<rparr>)"
proof -
  from assms obtain flags a b c d body where
    data: "data = v2_fixed eng flags a b c d @ body @ PutUint32 (ComputeCRC32 (v2_fixed eng flags a b c d @ body))"
    and again: "\<And>e. same_variable eng e \<Longrightarrow> EncodeV2 lib e =
      Inr (v2_fixed e flags a b c d @ body @ PutUint32 (ComputeCRC32 (v2_fixed e flags a b c d @ body)))"
    by (rule EncodeV2_shape) blast
  have len: "\<not> length data < VariableDataStart + TrailerSize" by (simp add: data)
  show ?thesis
    using len by (cases "IsZero until") (simp_all add: PatchAllMeta_def PatchRelevance_def PatchEmbedDim_def
        PatchValidUntil_def PatchTrust_def data Let_def patch_put patch_reseal v2_fixed_put v2_fixed_put_until again
        same_variable_def)
qed

section \<open>The metadata view\<close>

definition meta_of :: "ErfEngram \<Rightarrow> u16 \<Rightarrow> ErfMeta" where
  "meta_of eng assocCount =
     \<lparr>me_ID = ee_ID eng, me_CreatedAt = ee_CreatedAt eng, me_UpdatedAt = ee_UpdatedAt eng,
      me_LastAccess = ee_LastAccess eng, me_Confidence = ee_Confidence eng, me_Relevance = ee_Relevance eng,
      me_Stability = ee_Stability eng, me_AccessCount = ee_AccessCount eng, me_State = ee_State eng,
      me_AssocCount = assocCount, me_EmbedDim = ee_EmbedDim eng, me_MemoryType = ee_MemoryType eng,
      me_Trust = ee_Trust eng, me_ValidFrom = ee_ValidFrom eng, me_ValidUntil = ee_ValidUntil eng,
      me_Importance = ee_Importance eng\<rparr>"

lemma meta_of_set_tagged: "meta_of (set_tagged lib tag field eng) n = meta_of eng n"
  by (simp add: set_tagged_def meta_of_def split: sum.split)

lemma meta_of_parseTagged: "meta_of (parse_tagged lib b eng) n = meta_of eng n"
proof (induction "length b" arbitrary: b eng rule: less_induct)
  case less
  then show ?case
    by (subst parse_tagged.simps) (simp add: Let_def meta_of_set_tagged)
qed

lemma MetaKeySlice_take: "MetaKeySlice data = take MetaKeySize data"
  by (simp add: MetaKeySlice_def Let_def)

lemma take_sub: "off + n \<le> m \<Longrightarrow> sub (take m data) off n = sub data off n"
  by (simp add: sub_def drop_take min_def)

lemma DecodeMeta_take:
  assumes "108 \<le> m" "108 \<le> length data" "VerifyCRC16 (sub data 0 8)"
  shows "DecodeMeta (take m data) = Inr (meta_of (decode_fixed data c cb ct tags as emb) (be16 data 65))"
proof -
  have v: "decodeValidity (take m data) t = decodeValidity data t" for t
    using assms(1) by (simp add: decodeValidity_def take_sub)
  show ?thesis
    using assms by (simp add: DecodeMeta_eq decode_fixed_def meta_of_def take_sub v Let_def split: prod.split)
qed

lemma Decode_meta_of:
  assumes "Decode lib data = Inr eng"
  obtains c cb ct tags as emb where "meta_of eng n = meta_of (decode_fixed data c cb ct tags as emb) n"
proof -
  from assms obtain c cb ct tags as emb where
    "decode_tagged lib data (read_offsets data) (decode_fixed data (bytes_str c) (bytes_str cb) (bytes_str ct) tags as emb) = Inr eng"
    by (auto simp: Decode_eq Let_def sbind_Inr split: if_splits option.splits)
  then have "meta_of eng n = meta_of (decode_fixed data (bytes_str c) (bytes_str cb) (bytes_str ct) tags as emb) n"
    by (auto simp: decode_tagged_eq Let_def sbind_Inr meta_of_parseTagged split: if_splits)
  then show thesis by (rule that)
qed

text \<open>The slim value agrees with the record: for every record that decodes, the metadata read from
  its prefix, as kept under the metadata key, has the very fields of the full decode.\<close>

theorem erf_meta_agrees:
  assumes "Decode lib data = Inr eng"
  shows "DecodeMeta (MetaKeySlice data) = Inr (meta_of eng (be16 data 65))"
proof -
  obtain c cb ct tags as emb where m: "meta_of eng (be16 data 65) = meta_of (decode_fixed data c cb ct tags as emb) (be16 data 65)"
    by (rule Decode_meta_of[OF assms])
  have "152 \<le> length data" "VerifyCRC16 (sub data 0 8)"
    using assms by (auto simp: Decode_eq Let_def split: if_splits)
  then show ?thesis unfolding m
    by (simp add: MetaKeySlice_take DecodeMeta_take)
qed

lemma erf_meta_concept:
  assumes "EncodeV2 lib eng = Inr data" "length (ee_ID eng) = 16" "DecodeMeta (MetaKeySlice data) = Inr m"
  shows "DecodeMetaConcept (MetaKeySlice data) = Inr (m, ee_Concept eng)"
proof -
  obtain content flags where c: "encode_content lib eng 0 = (content, flags)" by force
  from assms(1) c obtain tags where t: "mp_marshal lib (ee_Tags eng) = Inr tags" and sz: "check_sizes eng = None"
    by (auto simp: EncodeV2_def Let_def split: option.splits sum.splits)
  have n: "length (ee_Concept eng) \<le> 512" using sz by (auto simp: check_sizes_def split: if_splits)
  define fx where "fx = v2_fixed eng flags (length (ee_Concept eng)) (length (ee_CreatedBy eng)) (length content) (length tags)"
  obtain ys where data: "data = fx @ str_bytes (ee_Concept eng) @ ys"
    using EncodeV2_form[OF assms(1) c t] by (auto simp: fx_def)
  have fx: "length fx = 152" by (simp add: fx_def)
  have f: "sub data 108 4 = PutUint32 152" "sub data 112 2 = PutUint16 (word_of_nat (length (ee_Concept eng)))"
    by (simp_all add: data sub_append fx, simp_all add: fx_def v2_fixed_sub[OF assms(2)])
  have "sub data 152 (length (ee_Concept eng)) = str_bytes (ee_Concept eng)"
    unfolding data by (rule sub_mid[OF fx]) simp
  then have s: "be32 (MetaKeySlice data) 108 = 152" "be16 (MetaKeySlice data) 112 = word_of_nat (length (ee_Concept eng))"
    "sub (MetaKeySlice data) 152 (length (ee_Concept eng)) = str_bytes (ee_Concept eng)"
    using f n by (simp_all add: MetaKeySlice_take take_sub)
  have l: "152 + length (ee_Concept eng) \<le> length (MetaKeySlice data)"
    using n fx by (simp add: MetaKeySlice_take data)
  have u: "unat (word_of_nat (length (ee_Concept eng)) :: u16) = length (ee_Concept eng)"
    using n by (simp add: unat_of_nat)
  show ?thesis
    using l unfolding DecodeMetaConcept_def assms(3) sbind_simps Let_def s u by (simp add: s bytes_str_str_bytes need_def)
qed

section \<open>Witnesses\<close>

text \<open>A library that keeps its promises: content is stored as it is, and a list of strings is written
  with a marker before each byte and after each string.\<close>

fun demo_un :: "string \<Rightarrow> bytes \<Rightarrow> string list" where
  "demo_un cur [] = []"
| "demo_un cur (t # bs) =
     (if t = 0 then cur # demo_un [] bs
      else case bs of [] \<Rightarrow> [] | c # bs' \<Rightarrow> demo_un (cur @ bytes_str [c]) bs')"

definition demo_lib :: ErfLib where
  "demo_lib =
     \<lparr>zs_compress = id, zs_decompress = Inr,
      mp_marshal = \<lambda>ss. Inr (concat (map (\<lambda>s. concat (map (\<lambda>b. [1, b]) (str_bytes s)) @ [0]) ss) @ [1]),
      mp_unmarshal = \<lambda>b. Inr (demo_un [] b),
      qz_Quantize = \<lambda>xs. ((0, 0), []), qz_Dequantize = \<lambda>qs p. []\<rparr>"

lemma demo_un_string:
  "demo_un cur (concat (map (\<lambda>b. [1, b]) xs) @ 0 # bs) = (cur @ bytes_str xs) # demo_un [] bs"
  by (induction xs arbitrary: cur) (simp_all add: bytes_str_def)

lemma demo_lib_ok: "lib_ok demo_lib"
proof -
  have "demo_un [] (concat (map (\<lambda>s. concat (map (\<lambda>b. [1, b]) (str_bytes s)) @ [0]) ss) @ [1]) = ss" for ss
    by (induction ss) (simp_all add: demo_un_string bytes_str_str_bytes)
  then show ?thesis by (auto simp: lib_ok_def demo_lib_def)
qed

definition demo_eng :: ErfEngram where
  "demo_eng =
     \<lparr>ee_ID = replicate 16 7, ee_CreatedAt = unix_epoch + 5, ee_UpdatedAt = unix_epoch + 6, ee_LastAccess = 0,
      ee_Confidence = 1, ee_Relevance = 2, ee_Stability = 3, ee_AccessCount = 4, ee_State = 1, ee_EmbedDim = 0,
      ee_Concept = ''go'', ee_CreatedBy = ''me'', ee_Content = ''x'', ee_Tags = [''a'', ''b''],
      ee_Associations = [], ee_Embedding = [], ee_Summary = ''s'', ee_KeyPoints = [''k''],
      ee_MemoryType = 2, ee_TypeLabel = ''t'', ee_Classification = 9, ee_Trust = 3,
      ee_ValidFrom = 0, ee_ValidUntil = unix_epoch + 7, ee_Importance = 8\<rparr>"

lemma demo_eng_ok: "tags_fit demo_lib demo_eng" "length (ee_ID demo_eng) = 16" "times_ok demo_eng"
proof -
  show "tags_fit demo_lib demo_eng" "length (ee_ID demo_eng) = 16"
    by (simp_all add: tags_fit_def demo_lib_def demo_eng_def str_bytes_def)
  have "ZeroTimeSentinelNanos \<noteq> 5" "ZeroTimeSentinelNanos \<noteq> 6"
    by (simp_all add: ZeroTimeSentinelNanos_def UnixNano_def unix_epoch_def signed_of_int)
  then show "times_ok demo_eng"
    by (simp add: times_ok_def time_ok_def demo_eng_def unix_range_def unix_epoch_def)
qed

lemma demo_encodes: obtains data where "EncodeV2 demo_lib demo_eng = Inr data" "length data < 2 ^ 32" "data \<noteq> []"
proof -
  obtain data where e: "EncodeV2 demo_lib demo_eng = Inr data"
    by (simp add: EncodeV2_def check_sizes_def demo_eng_def demo_lib_def Let_def encode_content_def str_bytes_def)
  have "data \<noteq> [] \<and> length data < 2 ^ 32"
    using EncodeV2_form[OF e, of "str_bytes ''x''" 0]
    by (simp add: demo_eng_def demo_lib_def encode_content_def tagged_part_def tagged_field_def appendTaggedBytes_def
        str_bytes_def Let_def flip: length_greater_0_conv)
  with e show thesis using that[OF e] by simp
qed

lemma demo_decodes: obtains data eng where "EncodeV2 demo_lib demo_eng = Inr data" "Decode demo_lib data = Inr eng"
  "length data < 2 ^ 32" "data \<noteq> []"
  by (rule demo_encodes) (use Decode_EncodeV2[OF demo_lib_ok demo_eng_ok] in blast)

lemma erf_v2_round_trip_witness:
  "\<exists>data eng. EncodeV2 demo_lib demo_eng = Inr data \<and> Decode demo_lib data = Inr eng \<and>
     ee_Tags eng = [''a'', ''b''] \<and> ee_KeyPoints eng = [''k''] \<and> ee_ValidFrom eng = unix_epoch + 5"
proof -
  obtain data where d: "EncodeV2 demo_lib demo_eng = Inr data" "length data < 2 ^ 32" by (rule demo_encodes)
  show ?thesis using erf_v2_round_trip[OF demo_lib_ok demo_eng_ok d] d(1) by (auto simp: demo_eng_def valid_from_def)
qed

lemma erf_decode_never_panics_witness:
  "Decode demo_lib (replicate 300 255) \<noteq> Inl ErfPanic \<and> DecodeMeta (replicate 300 255) \<noteq> Inl ErfPanic \<and>
   DecodeMetaConcept (replicate 300 255) \<noteq> Inl ErfPanic"
  by (rule erf_decode_never_panics) simp

lemma erf_changed_byte_rejected_witness:
  "\<exists>data. EncodeV2 demo_lib demo_eng = Inr data \<and> Decode demo_lib (data[0 := data ! 0 + 1]) \<noteq> Inr demo_eng"
  by (rule demo_decodes) (use erf_changed_byte_rejected in fastforce)

lemma erf_patch_is_reencode_witness:
  "\<exists>data. EncodeV2 demo_lib demo_eng = Inr data \<and>
     PatchTrust data 1 = EncodeV2 demo_lib (demo_eng\<lparr>ee_Trust := 1\<rparr>)"
  by (rule demo_encodes) (use erf_patch_is_reencode in blast)

lemma erf_meta_agrees_witness:
  "\<exists>data eng. Decode demo_lib data = Inr eng \<and> DecodeMeta (MetaKeySlice data) = Inr (meta_of eng (be16 data 65))"
  by (rule demo_decodes) (use erf_meta_agrees in blast)

end
