(* ===== verification/Key_Prefix.thy ===== *)
theory Key_Prefix
  imports Storage_Keys
begin

text \<open>
  The registry of key prefixes (\<open>internal/prefix/prefix.go\<close>): the byte that every constructor of a
  key puts first, with its owner and its category.
\<close>

section \<open>Prefix bytes\<close>

definition pfx_Engram :: u8 where "pfx_Engram = 0x01"
definition pfx_Meta :: u8 where "pfx_Meta = 0x02"
definition pfx_AssocFwd :: u8 where "pfx_AssocFwd = 0x03"
definition pfx_AssocRev :: u8 where "pfx_AssocRev = 0x04"
definition pfx_FTSPosting :: u8 where "pfx_FTSPosting = 0x05"
definition pfx_Trigram :: u8 where "pfx_Trigram = 0x06"
definition pfx_HNSWNode :: u8 where "pfx_HNSWNode = 0x07"
definition pfx_FTSStats :: u8 where "pfx_FTSStats = 0x08"
definition pfx_TermStats :: u8 where "pfx_TermStats = 0x09"
definition pfx_Contradiction :: u8 where "pfx_Contradiction = 0x0A"
definition pfx_StateIndex :: u8 where "pfx_StateIndex = 0x0B"
definition pfx_TagIndex :: u8 where "pfx_TagIndex = 0x0C"
definition pfx_CreatorIndex :: u8 where "pfx_CreatorIndex = 0x0D"
definition pfx_VaultMeta :: u8 where "pfx_VaultMeta = 0x0E"
definition pfx_VaultNameIndex :: u8 where "pfx_VaultNameIndex = 0x0F"
definition pfx_RelevanceBucket :: u8 where "pfx_RelevanceBucket = 0x10"
definition pfx_DigestFlags :: u8 where "pfx_DigestFlags = 0x11"
definition pfx_Coherence :: u8 where "pfx_Coherence = 0x12"
definition pfx_VaultWeights :: u8 where "pfx_VaultWeights = 0x13"
definition pfx_AssocWeightIndex :: u8 where "pfx_AssocWeightIndex = 0x14"
definition pfx_VaultCount :: u8 where "pfx_VaultCount = 0x15"
definition pfx_Provenance :: u8 where "pfx_Provenance = 0x16"
definition pfx_BucketMigration :: u8 where "pfx_BucketMigration = 0x17"
definition pfx_Embedding :: u8 where "pfx_Embedding = 0x18"
definition pfx_Idempotency :: u8 where "pfx_Idempotency = 0x19"
definition pfx_Episode :: u8 where "pfx_Episode = 0x1A"
definition pfx_FTSVersion :: u8 where "pfx_FTSVersion = 0x1B"
definition pfx_Transition :: u8 where "pfx_Transition = 0x1C"
definition pfx_EmbedModel :: u8 where "pfx_EmbedModel = 0x1D"
definition pfx_Ordinal :: u8 where "pfx_Ordinal = 0x1E"
definition pfx_Entity :: u8 where "pfx_Entity = 0x1F"
definition pfx_EntityEngramLink :: u8 where "pfx_EntityEngramLink = 0x20"
definition pfx_Relationship :: u8 where "pfx_Relationship = 0x21"
definition pfx_LastAccess :: u8 where "pfx_LastAccess = 0x22"
definition pfx_EntityReverseIndex :: u8 where "pfx_EntityReverseIndex = 0x23"
definition pfx_CoOccurrence :: u8 where "pfx_CoOccurrence = 0x24"
definition pfx_ArchiveAssoc :: u8 where "pfx_ArchiveAssoc = 0x25"
definition pfx_RelEntityIndex :: u8 where "pfx_RelEntityIndex = 0x26"
definition pfx_DreamState :: u8 where "pfx_DreamState = 0x27"
definition pfx_ContentHash :: u8 where "pfx_ContentHash = 0x28"
definition pfx_RecallEvent :: u8 where "pfx_RecallEvent = 0x29"
definition pfx_Lease :: u8 where "pfx_Lease = 0x2A"
definition pfx_EvolveRepairMark :: u8 where "pfx_EvolveRepairMark = 0x2B"
definition pfx_RawTagRange :: u8 where "pfx_RawTagRange = 0x2C"
definition pfx_ProspectiveIntent :: u8 where "pfx_ProspectiveIntent = 0x2D"
definition pfx_AssocWeightRepairMark :: u8 where "pfx_AssocWeightRepairMark = 0x2E"
definition pfx_Replication :: u8 where "pfx_Replication = 0x2F"
definition pfx_UpsertKey :: u8 where "pfx_UpsertKey = 0x30"
definition pfx_DeclaredContradictionMark :: u8 where "pfx_DeclaredContradictionMark = 0x31"
definition pfx_Capability :: u8 where "pfx_Capability = 0x40"
definition pfx_CapabilityVaultIdx :: u8 where "pfx_CapabilityVaultIdx = 0x41"
definition pfx_AdminUser :: u8 where "pfx_AdminUser = 0x42"
definition pfx_APIKey :: u8 where "pfx_APIKey = 0x43"
definition pfx_APIKeyVaultIdx :: u8 where "pfx_APIKeyVaultIdx = 0x44"
definition pfx_VaultConfig :: u8 where "pfx_VaultConfig = 0x45"
definition pfx_APIKeyGlobIdx :: u8 where "pfx_APIKeyGlobIdx = 0x46"

lemmas pfx_defs =
  pfx_Engram_def pfx_Meta_def pfx_AssocFwd_def pfx_AssocRev_def pfx_FTSPosting_def
  pfx_Trigram_def pfx_HNSWNode_def pfx_FTSStats_def pfx_TermStats_def pfx_Contradiction_def
  pfx_StateIndex_def pfx_TagIndex_def pfx_CreatorIndex_def pfx_VaultMeta_def
  pfx_VaultNameIndex_def pfx_RelevanceBucket_def pfx_DigestFlags_def pfx_Coherence_def
  pfx_VaultWeights_def pfx_AssocWeightIndex_def pfx_VaultCount_def pfx_Provenance_def
  pfx_BucketMigration_def pfx_Embedding_def pfx_Idempotency_def pfx_Episode_def
  pfx_FTSVersion_def pfx_Transition_def pfx_EmbedModel_def pfx_Ordinal_def pfx_Entity_def
  pfx_EntityEngramLink_def pfx_Relationship_def pfx_LastAccess_def pfx_EntityReverseIndex_def
  pfx_CoOccurrence_def pfx_ArchiveAssoc_def pfx_RelEntityIndex_def pfx_DreamState_def
  pfx_ContentHash_def pfx_RecallEvent_def pfx_Lease_def pfx_EvolveRepairMark_def
  pfx_RawTagRange_def pfx_ProspectiveIntent_def pfx_AssocWeightRepairMark_def pfx_Replication_def
  pfx_UpsertKey_def pfx_DeclaredContradictionMark_def pfx_Capability_def
  pfx_CapabilityVaultIdx_def pfx_AdminUser_def pfx_APIKey_def pfx_APIKeyVaultIdx_def
  pfx_VaultConfig_def pfx_APIKeyGlobIdx_def

section \<open>Registry\<close>

record prefix_entry =
  pe_Byte :: u8
  pe_Owner :: string
  pe_Name :: string
  pe_Cat :: string

abbreviation pe :: "u8 \<Rightarrow> string \<Rightarrow> string \<Rightarrow> string \<Rightarrow> prefix_entry" where
  "pe b owner name cat \<equiv> \<lparr>pe_Byte = b, pe_Owner = owner, pe_Name = name, pe_Cat = cat\<rparr>"

definition prefix_registry :: "prefix_entry list" where
  "prefix_registry = [
     pe pfx_Engram ''storage'' ''Engram'' ''vault-scoped-data'',
     pe pfx_Meta ''storage'' ''Meta'' ''vault-scoped-data'',
     pe pfx_AssocFwd ''storage'' ''AssocFwd'' ''vault-scoped-data'',
     pe pfx_AssocRev ''storage'' ''AssocRev'' ''vault-scoped-data'',
     pe pfx_FTSPosting ''storage'' ''FTSPosting'' ''vault-scoped-data'',
     pe pfx_Trigram ''storage'' ''Trigram'' ''vault-scoped-data'',
     pe pfx_HNSWNode ''storage'' ''HNSWNode'' ''vault-scoped-data'',
     pe pfx_FTSStats ''storage'' ''FTSStats'' ''vault-scoped-data'',
     pe pfx_TermStats ''storage'' ''TermStats'' ''vault-scoped-data'',
     pe pfx_Contradiction ''storage'' ''Contradiction'' ''vault-scoped-data'',
     pe pfx_StateIndex ''storage'' ''StateIndex'' ''vault-scoped-data'',
     pe pfx_TagIndex ''storage'' ''TagIndex'' ''vault-scoped-data'',
     pe pfx_CreatorIndex ''storage'' ''CreatorIndex'' ''vault-scoped-data'',
     pe pfx_VaultMeta ''storage'' ''VaultMeta'' ''name-key'',
     pe pfx_VaultNameIndex ''storage'' ''VaultNameIndex'' ''name-key'',
     pe pfx_RelevanceBucket ''storage'' ''RelevanceBucket'' ''vault-scoped-data'',
     pe pfx_DigestFlags ''storage'' ''DigestFlags'' ''global-by-ulid'',
     pe pfx_Coherence ''storage'' ''Coherence'' ''vault-scoped-data'',
     pe pfx_VaultWeights ''storage'' ''VaultWeights'' ''vault-scoped-data'',
     pe pfx_AssocWeightIndex ''storage'' ''AssocWeightIndex'' ''vault-scoped-data'',
     pe pfx_VaultCount ''storage'' ''VaultCount'' ''vault-scoped-data'',
     pe pfx_Provenance ''storage'' ''Provenance'' ''vault-scoped-data'',
     pe pfx_BucketMigration ''storage'' ''BucketMigration'' ''vault-scoped-data'',
     pe pfx_Embedding ''storage'' ''Embedding'' ''vault-scoped-data'',
     pe pfx_Idempotency ''storage'' ''Idempotency'' ''global-by-ulid'',
     pe pfx_Episode ''storage'' ''Episode'' ''vault-scoped-data'',
     pe pfx_FTSVersion ''storage'' ''FTSVersion'' ''vault-scoped-data'',
     pe pfx_Transition ''storage'' ''Transition'' ''vault-scoped-data'',
     pe pfx_EmbedModel ''storage'' ''EmbedModel'' ''vault-scoped-data'',
     pe pfx_Ordinal ''storage'' ''Ordinal'' ''vault-scoped-data'',
     pe pfx_Entity ''storage'' ''Entity'' ''global-by-ulid'',
     pe pfx_EntityEngramLink ''storage'' ''EntityEngramLink'' ''vault-scoped-data'',
     pe pfx_Relationship ''storage'' ''Relationship'' ''vault-scoped-data'',
     pe pfx_LastAccess ''storage'' ''LastAccess'' ''vault-scoped-data'',
     pe pfx_EntityReverseIndex ''storage'' ''EntityReverseIndex'' ''global-by-ulid'',
     pe pfx_CoOccurrence ''storage'' ''CoOccurrence'' ''vault-scoped-data'',
     pe pfx_ArchiveAssoc ''storage'' ''ArchiveAssoc'' ''vault-scoped-data'',
     pe pfx_RelEntityIndex ''storage'' ''RelEntityIndex'' ''vault-scoped-data'',
     pe pfx_DreamState ''storage'' ''DreamState'' ''vault-scoped-data'',
     pe pfx_ContentHash ''storage'' ''ContentHash'' ''vault-scoped-data'',
     pe pfx_RecallEvent ''storage'' ''RecallEvent'' ''vault-scoped-data'',
     pe pfx_Lease ''storage'' ''Lease'' ''lease'',
     pe pfx_EvolveRepairMark ''storage'' ''EvolveRepairMark'' ''vault-scoped-data'',
     pe pfx_RawTagRange ''storage'' ''RawTagRange'' ''vault-scoped-data'',
     pe pfx_ProspectiveIntent ''storage'' ''ProspectiveIntent'' ''vault-scoped-data'',
     pe pfx_AssocWeightRepairMark ''storage'' ''AssocWeightRepairMark'' ''vault-scoped-data'',
     pe pfx_Replication ''replication'' ''Replication'' ''replication'',
     pe pfx_UpsertKey ''storage'' ''UpsertKey'' ''vault-scoped-data'',
     pe pfx_DeclaredContradictionMark ''storage'' ''DeclaredContradictionMark'' ''vault-scoped-data'',
     pe pfx_Capability ''capability'' ''Capability'' ''capability'',
     pe pfx_CapabilityVaultIdx ''capability'' ''CapabilityVaultIdx'' ''capability'',
     pe pfx_AdminUser ''auth'' ''AdminUser'' ''auth'',
     pe pfx_APIKey ''auth'' ''APIKey'' ''auth'',
     pe pfx_APIKeyVaultIdx ''auth'' ''APIKeyVaultIdx'' ''auth'',
     pe pfx_VaultConfig ''auth'' ''VaultConfig'' ''auth'',
     pe pfx_APIKeyGlobIdx ''auth'' ''APIKeyGlobIdx'' ''auth'']"

definition Category :: "u8 \<Rightarrow> string" where
  "Category b =
     (case find (\<lambda>e. pe_Byte e = b) prefix_registry of None \<Rightarrow> '''' | Some e \<Rightarrow> pe_Cat e)"

text \<open>No byte is allocated twice.\<close>

lemma registry_distinct: "distinct (map pe_Byte prefix_registry)"
  by (simp add: prefix_registry_def pfx_defs)

end
