(* ===== verification/Store_Keys.thy ===== *)
theory Store_Keys
  imports Key_Prefix
begin

unbundle bit_operations_syntax

text \<open>
  The keys of the store (\<open>internal/storage/keys/keys.go\<close>).  A Go array of bytes is a list whose
  length the constructors take for granted; \<open>siphash\<close> is the hash of \<open>github.com/dchest/siphash\<close>, a
  parameter.  A float32 is its bit pattern; the conversions from it are computed exactly on
  integers, and where Go leaves a conversion to the implementation (a NaN, a value out of range)
  its result is a parameter.
\<close>

type_synonym siphash = "u64 \<Rightarrow> u64 \<Rightarrow> bytes \<Rightarrow> u64"

definition sipKey0 :: u64 where "sipKey0 = 0x736f6d6570736575"
definition sipKey1 :: u64 where "sipKey1 = 0x646f72616e646f6d"

section \<open>Floats\<close>

text \<open>A finite float32 is \<open>(-1) ^ sign * f32_scaled / 2 ^ 150\<close>.\<close>

definition f32_exp :: "f32 \<Rightarrow> nat" where
  "f32_exp w = (unat w div 2 ^ 23) mod 256"

definition f32_frac :: "f32 \<Rightarrow> nat" where
  "f32_frac w = unat w mod 2 ^ 23"

definition f32_neg :: "f32 \<Rightarrow> bool" where
  "f32_neg w = (2 ^ 31 \<le> unat w)"

definition f32_nan :: "f32 \<Rightarrow> bool" where
  "f32_nan w = (f32_exp w = 255 \<and> f32_frac w \<noteq> 0)"

definition f32_scaled :: "f32 \<Rightarrow> nat" where
  "f32_scaled w =
     (if f32_exp w = 0 then f32_frac w * 2 else (2 ^ 23 + f32_frac w) * 2 ^ f32_exp w)"

definition f32_ge1 :: "f32 \<Rightarrow> bool" where
  "f32_ge1 w = (\<not> f32_nan w \<and> \<not> f32_neg w \<and> f32_exp w \<ge> 127)"

definition f32_le0 :: "f32 \<Rightarrow> bool" where
  "f32_le0 w = (\<not> f32_nan w \<and> (f32_neg w \<or> f32_exp w = 0 \<and> f32_frac w = 0))"

text \<open>\<open>float32(math.MaxUint32)\<close> is \<open>2 ^ 32\<close>, so the product below is exact before it is cut off.\<close>

definition WeightComplement :: "(f32 \<Rightarrow> u32) \<Rightarrow> f32 \<Rightarrow> bytes" where
  "WeightComplement nanw weight =
     (let w = (if f32_ge1 weight then 0xFFFFFFFF
               else if f32_le0 weight then 0
               else if f32_nan weight then nanw weight
               else word_of_nat (f32_scaled weight * 2 ^ 32 div 2 ^ 150));
          c = 0xFFFFFFFF - w
      in PutUint32 c)"

text \<open>\<open>float32(n)\<close> rounds to the nearest float, ties to even; \<open>f32_of_u32 d n\<close> is its quotient by
  \<open>2 ^ d\<close>.\<close>

definition round_even :: "nat \<Rightarrow> nat \<Rightarrow> nat" where
  "round_even n d =
     (let q = n div 2 ^ d; r = n mod 2 ^ d; h = 2 ^ (d - 1)
      in if d > 0 \<and> (r > h \<or> r = h \<and> odd q) then q + 1 else q)"

fun top_bit :: "nat \<Rightarrow> nat" where
  "top_bit n = (if n < 2 then 0 else Suc (top_bit (n div 2)))"

declare top_bit.simps [simp del]

definition f32_of_u32 :: "nat \<Rightarrow> u32 \<Rightarrow> f32" where
  "f32_of_u32 d n =
     (if n = 0 then 0
      else let k = top_bit (unat n);
               m = (if k \<le> 23 then unat n * 2 ^ (23 - k) else round_even (unat n) (k - 23))
           in word_of_nat ((127 + k - d) * 2 ^ 23 + (m - 2 ^ 23)))"

definition WeightFromComplement :: "bytes \<Rightarrow> f32" where
  "WeightFromComplement wc =
     (let c = Uint32 wc; w = 0xFFFFFFFF - c in f32_of_u32 32 w)"

text \<open>\<open>int(math.Floor(float64(r) * 10))\<close>: the product has 28 significant bits and is exact.\<close>

definition floor_times10 :: "(f32 \<Rightarrow> int) \<Rightarrow> f32 \<Rightarrow> int" where
  "floor_times10 oor r =
     (let x = (if f32_neg r then - (10 * int (f32_scaled r)) else 10 * int (f32_scaled r)) div 2 ^ 150
      in if f32_exp r = 255 \<or> x < - (2 ^ 63) \<or> 2 ^ 63 \<le> x then oor r else x)"

section \<open>Key constructors\<close>

definition VaultPrefix :: "siphash \<Rightarrow> string \<Rightarrow> bytes" where
  "VaultPrefix sip vault = PutUint64 (sip sipKey0 sipKey1 (str_bytes vault))"

definition EngramKey :: "bytes \<Rightarrow> bytes \<Rightarrow> bytes" where
  "EngramKey ws i = pfx_Engram # ws @ i"

definition MetaKey :: "bytes \<Rightarrow> bytes \<Rightarrow> bytes" where
  "MetaKey ws i = pfx_Meta # ws @ i"

definition AssocFwdKey :: "(f32 \<Rightarrow> u32) \<Rightarrow> bytes \<Rightarrow> bytes \<Rightarrow> f32 \<Rightarrow> bytes \<Rightarrow> bytes" where
  "AssocFwdKey nanw ws src weight dst = pfx_AssocFwd # ws @ src @ WeightComplement nanw weight @ dst"

definition AssocRevKey :: "(f32 \<Rightarrow> u32) \<Rightarrow> bytes \<Rightarrow> bytes \<Rightarrow> f32 \<Rightarrow> bytes \<Rightarrow> bytes" where
  "AssocRevKey nanw ws dst weight src = pfx_AssocRev # ws @ dst @ WeightComplement nanw weight @ src"

definition FTSPostingKey :: "bytes \<Rightarrow> string \<Rightarrow> u8 \<Rightarrow> bytes \<Rightarrow> bytes" where
  "FTSPostingKey ws term field i = pfx_FTSPosting # ws @ str_bytes term @ [0] @ [field] @ i"

definition TrigramKey :: "bytes \<Rightarrow> bytes \<Rightarrow> bytes \<Rightarrow> bytes" where
  "TrigramKey ws trigram i = pfx_Trigram # ws @ trigram @ i"

definition HNSWNodeKey :: "bytes \<Rightarrow> bytes \<Rightarrow> u8 \<Rightarrow> bytes" where
  "HNSWNodeKey ws i layer = pfx_HNSWNode # ws @ i @ [layer]"

definition FTSStatsKey :: "bytes \<Rightarrow> bytes" where
  "FTSStatsKey ws = pfx_FTSStats # ws @ str_bytes ''stats''"

definition TermStatsKey :: "bytes \<Rightarrow> string \<Rightarrow> bytes" where
  "TermStatsKey ws term = pfx_TermStats # ws @ str_bytes term"

definition ContradictionKeyPrefix :: "bytes \<Rightarrow> bytes" where
  "ContradictionKeyPrefix ws = pfx_Contradiction # ws"

definition ContradictionKey :: "bytes \<Rightarrow> u32 \<Rightarrow> u16 \<Rightarrow> bytes \<Rightarrow> bytes" where
  "ContradictionKey ws conceptHash relType i = pfx_Contradiction # ws @ PutUint32 conceptHash @ PutUint16 relType @ i"

definition StateIndexKey :: "bytes \<Rightarrow> u8 \<Rightarrow> bytes \<Rightarrow> bytes" where
  "StateIndexKey ws state i = pfx_StateIndex # ws @ [state] @ i"

definition TagIndexKey :: "bytes \<Rightarrow> u32 \<Rightarrow> bytes \<Rightarrow> bytes" where
  "TagIndexKey ws tagHash i = pfx_TagIndex # ws @ PutUint32 tagHash @ i"

definition RawTagRangePrefix :: "bytes \<Rightarrow> u32 \<Rightarrow> bytes" where
  "RawTagRangePrefix ws tagKeyHash = pfx_RawTagRange # ws @ PutUint32 tagKeyHash"

definition RawTagRangeKey :: "bytes \<Rightarrow> u32 \<Rightarrow> bytes \<Rightarrow> bytes \<Rightarrow> bytes" where
  "RawTagRangeKey ws tagKeyHash value i = RawTagRangePrefix ws tagKeyHash @ value @ [0] @ i"

definition RawTagRangeBound :: "bytes \<Rightarrow> u32 \<Rightarrow> string \<Rightarrow> bytes \<Rightarrow> bytes \<times> bytes option" where
  "RawTagRangeBound ws tagKeyHash cmp value =
     (let prefixBytes = RawTagRangePrefix ws tagKeyHash;
          withSep = (\<lambda>sep. prefixBytes @ value @ [sep])
      in if cmp = ''lt'' then (prefixBytes, Some (withSep 0))
         else if cmp = ''lte'' then (prefixBytes, Some (withSep 1))
         else if cmp = ''gt'' then (withSep 1, PrefixUpperBound prefixBytes)
         else if cmp = ''gte'' then (withSep 0, PrefixUpperBound prefixBytes)
         else (withSep 0, Some (withSep 1)))"

text \<open>The upper bounds here are never \<open>nil\<close>; \<open>bytes.Compare\<close> takes \<open>nil\<close> for the empty slice.\<close>

definition nil_slice :: "bytes option \<Rightarrow> bytes" where
  "nil_slice b = (case b of None \<Rightarrow> [] | Some x \<Rightarrow> x)"

definition CombineRawTagRangeBounds ::
    "bytes \<Rightarrow> bytes option \<Rightarrow> bytes \<Rightarrow> bytes option \<Rightarrow> bytes \<times> bytes option" where
  "CombineRawTagRangeBounds lower1 upper1 lower2 upper2 =
     ((if lower2 > lower1 then lower2 else lower1),
      (if nil_slice upper2 < nil_slice upper1 then upper2 else upper1))"

definition CreatorIndexKey :: "bytes \<Rightarrow> u32 \<Rightarrow> bytes \<Rightarrow> bytes" where
  "CreatorIndexKey ws creatorHash i = pfx_CreatorIndex # ws @ PutUint32 creatorHash @ i"

definition VaultMetaKey :: "bytes \<Rightarrow> bytes" where
  "VaultMetaKey ws = pfx_VaultMeta # ws"

definition VaultNameIndexKey :: "siphash \<Rightarrow> string \<Rightarrow> bytes" where
  "VaultNameIndexKey sip name = pfx_VaultNameIndex # PutUint64 (sip sipKey0 sipKey1 (str_bytes name))"

definition RelevanceBucketKey :: "(f32 \<Rightarrow> int) \<Rightarrow> bytes \<Rightarrow> f32 \<Rightarrow> bytes \<Rightarrow> bytes" where
  "RelevanceBucketKey oor ws relevance i =
     (let floored = floor_times10 oor relevance;
          clamped = (if floored < 0 then 0 else floored);
          clamped = (if clamped > 9 then 9 else clamped);
          storedBucket = word_of_int (9 - clamped)
      in pfx_RelevanceBucket # ws @ [storedBucket] @ i)"

definition DigestFlagsKey :: "bytes \<Rightarrow> bytes" where
  "DigestFlagsKey i = pfx_DigestFlags # i"

definition CoherenceKey :: "bytes \<Rightarrow> bytes" where
  "CoherenceKey vaultPrefix = pfx_Coherence # vaultPrefix"

definition VaultWeightsKey :: "bytes \<Rightarrow> bytes" where
  "VaultWeightsKey ws = pfx_VaultWeights # ws"

definition AssocWeightIndexKey :: "bytes \<Rightarrow> bytes \<Rightarrow> bytes \<Rightarrow> bytes" where
  "AssocWeightIndexKey ws src dst = pfx_AssocWeightIndex # ws @ src @ dst"

definition AssocFwdRangeStart :: "bytes \<Rightarrow> bytes" where
  "AssocFwdRangeStart ws = pfx_AssocFwd # ws"

definition AssocFwdRangeEnd :: "bytes \<Rightarrow> bytes option" where
  "AssocFwdRangeEnd ws = PrefixUpperBound (AssocFwdRangeStart ws)"

definition AssocFwdPrefixForID :: "bytes \<Rightarrow> bytes \<Rightarrow> bytes" where
  "AssocFwdPrefixForID ws i = pfx_AssocFwd # ws @ i"

definition AssocRevRangeStart :: "bytes \<Rightarrow> bytes" where
  "AssocRevRangeStart ws = pfx_AssocRev # ws"

definition AssocRevRangeEnd :: "bytes \<Rightarrow> bytes option" where
  "AssocRevRangeEnd ws = PrefixUpperBound (AssocRevRangeStart ws)"

definition AssocRevPrefixForID :: "bytes \<Rightarrow> bytes \<Rightarrow> bytes" where
  "AssocRevPrefixForID ws i = pfx_AssocRev # ws @ i"

definition VaultCountKey :: "bytes \<Rightarrow> bytes" where
  "VaultCountKey ws = pfx_VaultCount # ws"

definition ProvenanceKey :: "bytes \<Rightarrow> bytes \<Rightarrow> bytes" where
  "ProvenanceKey ws i = pfx_Provenance # ws @ i"

text \<open>The carry loops increment bytes from the right until one does not wrap; the flag says that all did.\<close>

fun carry :: "bytes \<Rightarrow> bytes \<times> bool" where
  "carry [] = ([], True)"
| "carry (b # bs) =
     (let (bs', over) = carry bs
      in if over then (let b' = b + 1 in (b' # bs', b' = 0)) else (b # bs', False))"

definition ProvenanceKeyUpperBound :: "bytes \<Rightarrow> bytes \<Rightarrow> bytes" where
  "ProvenanceKeyUpperBound ws i =
     (let lower = ProvenanceKey ws i;
          (i', carried) = carry (drop 9 lower)
      in if carried then lower @ [0] else take 9 lower @ i')"

definition ProvenanceSuffixKey :: "bytes \<Rightarrow> bytes \<Rightarrow> u64 \<Rightarrow> u32 \<Rightarrow> bytes" where
  "ProvenanceSuffixKey ws i ts seq = pfx_Provenance # ws @ i @ PutUint64 ts @ PutUint32 seq"

definition EpisodeKey :: "bytes \<Rightarrow> bytes \<Rightarrow> bytes" where
  "EpisodeKey ws i = pfx_Episode # ws @ i"

definition EpisodeFrameKey :: "bytes \<Rightarrow> bytes \<Rightarrow> u32 \<Rightarrow> bytes" where
  "EpisodeFrameKey ws episodeID position = pfx_Episode # ws @ episodeID @ [0xFF] @ PutUint32 position"

definition BucketMigrationKey :: "bytes \<Rightarrow> bytes" where
  "BucketMigrationKey ws = pfx_BucketMigration # ws"

definition EmbeddingKey :: "bytes \<Rightarrow> bytes \<Rightarrow> bytes" where
  "EmbeddingKey ws i = pfx_Embedding # ws @ i"

definition FTSVersionKey :: "bytes \<Rightarrow> bytes" where
  "FTSVersionKey ws = pfx_FTSVersion # ws"

definition TransitionKey :: "bytes \<Rightarrow> bytes \<Rightarrow> bytes \<Rightarrow> bytes" where
  "TransitionKey ws src dst = pfx_Transition # ws @ src @ dst"

definition TransitionPrefixForSrc :: "bytes \<Rightarrow> bytes \<Rightarrow> bytes" where
  "TransitionPrefixForSrc ws src = pfx_Transition # ws @ src"

definition EmbedModelKey :: "bytes \<Rightarrow> bytes" where
  "EmbedModelKey ws = pfx_EmbedModel # ws"

definition OrdinalKey :: "bytes \<Rightarrow> bytes \<Rightarrow> bytes \<Rightarrow> bytes" where
  "OrdinalKey ws parentID childID = pfx_Ordinal # ws @ parentID @ childID"

definition OrdinalPrefixForParent :: "bytes \<Rightarrow> bytes \<Rightarrow> bytes" where
  "OrdinalPrefixForParent ws parentID = pfx_Ordinal # ws @ parentID"

definition OrdinalWorkspacePrefix :: "bytes \<Rightarrow> bytes" where
  "OrdinalWorkspacePrefix ws = pfx_Ordinal # ws"

definition IncrementWSPrefix :: "bytes \<Rightarrow> bytes option" where
  "IncrementWSPrefix ws = (let (result, over) = carry ws in if over then None else Some result)"

definition Hash :: "string \<Rightarrow> u32" where
  "Hash s = foldl (\<lambda>h c. (h XOR ucast c) * 16777619) 2166136261 (str_bytes s)"

definition EntityKey :: "bytes \<Rightarrow> bytes \<Rightarrow> bytes" where
  "EntityKey ws nameHash = pfx_Entity # ws @ nameHash"

definition EntityEngramLinkKey :: "bytes \<Rightarrow> bytes \<Rightarrow> bytes \<Rightarrow> bytes" where
  "EntityEngramLinkKey ws engramID nameHash = pfx_EntityEngramLink # ws @ engramID @ nameHash"

definition EntityEngramLinkPrefix :: "bytes \<Rightarrow> bytes \<Rightarrow> bytes" where
  "EntityEngramLinkPrefix ws engramID = pfx_EntityEngramLink # ws @ engramID"

definition RelationshipKey :: "bytes \<Rightarrow> bytes \<Rightarrow> bytes \<Rightarrow> u8 \<Rightarrow> bytes \<Rightarrow> bytes" where
  "RelationshipKey ws engramID fromHash relTypeByte toHash = pfx_Relationship # ws @ engramID @ fromHash @ [relTypeByte] @ toHash"

definition RelationshipPrefix :: "bytes \<Rightarrow> bytes" where
  "RelationshipPrefix ws = pfx_Relationship # ws"

definition RelationshipEngramPrefix :: "bytes \<Rightarrow> bytes \<Rightarrow> bytes" where
  "RelationshipEngramPrefix ws engramID = pfx_Relationship # ws @ engramID"

definition CoOccurrenceKey :: "bytes \<Rightarrow> bytes \<Rightarrow> bytes \<Rightarrow> bytes" where
  "CoOccurrenceKey ws hashA hashB = pfx_CoOccurrence # ws @ hashA @ hashB"

definition CoOccurrencePrefix :: "bytes \<Rightarrow> bytes" where
  "CoOccurrencePrefix ws = pfx_CoOccurrence # ws"

definition EntityReverseIndexKey :: "bytes \<Rightarrow> bytes \<Rightarrow> bytes \<Rightarrow> bytes" where
  "EntityReverseIndexKey nameHash ws engramID = pfx_EntityReverseIndex # nameHash @ ws @ engramID"

definition EntityReverseIndexPrefix :: "bytes \<Rightarrow> bytes" where
  "EntityReverseIndexPrefix nameHash = pfx_EntityReverseIndex # nameHash"

definition EntityReverseIndexVaultPrefix :: "bytes \<Rightarrow> bytes \<Rightarrow> bytes" where
  "EntityReverseIndexVaultPrefix nameHash ws = pfx_EntityReverseIndex # nameHash @ ws"

definition LastAccessIndexKey :: "bytes \<Rightarrow> int \<Rightarrow> bytes \<Rightarrow> bytes" where
  "LastAccessIndexKey ws lastAccessMillis engramID =
     (let inverted = NOT (word_of_int lastAccessMillis)
      in pfx_LastAccess # ws @ PutUint64 inverted @ engramID)"

definition LastAccessIndexPrefix :: "bytes \<Rightarrow> bytes" where
  "LastAccessIndexPrefix ws = pfx_LastAccess # ws"

definition IdempotencyKey :: "siphash \<Rightarrow> string \<Rightarrow> bytes" where
  "IdempotencyKey sip opID = pfx_Idempotency # PutUint64 (sip sipKey0 sipKey1 (str_bytes opID))"

definition RelEntityIndexKey :: "bytes \<Rightarrow> bytes \<Rightarrow> bytes \<Rightarrow> bytes" where
  "RelEntityIndexKey ws entityHash engramID = pfx_RelEntityIndex # ws @ entityHash @ engramID"

definition RelEntityIndexPrefix :: "bytes \<Rightarrow> bytes \<Rightarrow> bytes" where
  "RelEntityIndexPrefix ws entityHash = pfx_RelEntityIndex # ws @ entityHash"

definition ArchiveAssocKey :: "bytes \<Rightarrow> bytes \<Rightarrow> bytes \<Rightarrow> bytes" where
  "ArchiveAssocKey ws src dst = pfx_ArchiveAssoc # ws @ src @ dst"

definition ArchiveAssocPrefixForID :: "bytes \<Rightarrow> bytes \<Rightarrow> bytes" where
  "ArchiveAssocPrefixForID ws src = pfx_ArchiveAssoc # ws @ src"

definition ArchiveAssocRangeStart :: "bytes \<Rightarrow> bytes" where
  "ArchiveAssocRangeStart ws = pfx_ArchiveAssoc # ws"

definition ArchiveAssocRangeEnd :: "bytes \<Rightarrow> bytes" where
  "ArchiveAssocRangeEnd ws = pfx_ArchiveAssoc # fst (carry ws)"

definition DreamStateKey :: "bytes \<Rightarrow> bytes" where
  "DreamStateKey vaultPrefix = pfx_DreamState # vaultPrefix"

definition ContentHashKey :: "bytes \<Rightarrow> bytes \<Rightarrow> bytes" where
  "ContentHashKey ws hash = pfx_ContentHash # ws @ hash"

definition RecallEventKey :: "bytes \<Rightarrow> bytes \<Rightarrow> bytes" where
  "RecallEventKey ws eventID = pfx_RecallEvent # ws @ eventID"

definition RecallEventPrefix :: "bytes \<Rightarrow> bytes" where
  "RecallEventPrefix ws = pfx_RecallEvent # ws"

definition LeaseKey :: "bytes \<Rightarrow> bytes \<Rightarrow> bytes" where
  "LeaseKey ws i = pfx_Lease # ws @ i"

definition ProspectiveIntentKey :: "bytes \<Rightarrow> bytes \<Rightarrow> bytes \<Rightarrow> bytes" where
  "ProspectiveIntentKey ws cueHash intentionID = pfx_ProspectiveIntent # ws @ cueHash @ intentionID"

definition ProspectiveIntentPrefix :: "bytes \<Rightarrow> bytes \<Rightarrow> bytes" where
  "ProspectiveIntentPrefix ws cueHash = pfx_ProspectiveIntent # ws @ cueHash"

definition ProspectiveIntentWorkspacePrefix :: "bytes \<Rightarrow> bytes" where
  "ProspectiveIntentWorkspacePrefix ws = pfx_ProspectiveIntent # ws"

definition EvolveRepairMarkKey :: "bytes \<Rightarrow> bytes" where
  "EvolveRepairMarkKey ws = pfx_EvolveRepairMark # ws"

definition UpsertKeyKey :: "bytes \<Rightarrow> bytes \<Rightarrow> bytes" where
  "UpsertKeyKey ws hash = pfx_UpsertKey # ws @ hash"

definition AssocWeightRepairMarkKey :: "bytes \<Rightarrow> bytes" where
  "AssocWeightRepairMarkKey ws = pfx_AssocWeightRepairMark # ws"

definition DeclaredContradictionMarkKey :: "bytes \<Rightarrow> bytes" where
  "DeclaredContradictionMarkKey ws = pfx_DeclaredContradictionMark # ws"

lemmas key_defs =
  EngramKey_def MetaKey_def AssocFwdKey_def AssocRevKey_def FTSPostingKey_def TrigramKey_def
  HNSWNodeKey_def FTSStatsKey_def TermStatsKey_def ContradictionKeyPrefix_def
  ContradictionKey_def StateIndexKey_def TagIndexKey_def RawTagRangeKey_def
  CreatorIndexKey_def VaultMetaKey_def VaultNameIndexKey_def RelevanceBucketKey_def
  DigestFlagsKey_def CoherenceKey_def VaultWeightsKey_def AssocWeightIndexKey_def
  AssocFwdRangeStart_def AssocFwdPrefixForID_def AssocRevRangeStart_def
  AssocRevPrefixForID_def VaultCountKey_def ProvenanceKey_def ProvenanceSuffixKey_def
  EpisodeKey_def EpisodeFrameKey_def BucketMigrationKey_def EmbeddingKey_def FTSVersionKey_def
  TransitionKey_def TransitionPrefixForSrc_def EmbedModelKey_def OrdinalKey_def
  OrdinalPrefixForParent_def OrdinalWorkspacePrefix_def EntityKey_def EntityEngramLinkKey_def
  EntityEngramLinkPrefix_def RelationshipKey_def RelationshipPrefix_def
  RelationshipEngramPrefix_def CoOccurrenceKey_def CoOccurrencePrefix_def
  EntityReverseIndexKey_def EntityReverseIndexPrefix_def EntityReverseIndexVaultPrefix_def
  LastAccessIndexKey_def LastAccessIndexPrefix_def IdempotencyKey_def RelEntityIndexKey_def
  RelEntityIndexPrefix_def ArchiveAssocKey_def ArchiveAssocPrefixForID_def
  ArchiveAssocRangeStart_def DreamStateKey_def ContentHashKey_def RecallEventKey_def
  RecallEventPrefix_def LeaseKey_def ProspectiveIntentKey_def ProspectiveIntentPrefix_def
  ProspectiveIntentWorkspacePrefix_def EvolveRepairMarkKey_def UpsertKeyKey_def
  AssocWeightRepairMarkKey_def DeclaredContradictionMarkKey_def

end
