(* ===== verification/Vault_Store.thy ===== *)
theory Vault_Store
  imports Store_Keys
begin

text \<open>
  Vaults of the store: the registry of names (\<open>internal/storage/vault.go\<close>), the counter of a vault
  (\<open>impl.go\<close>), clearing and deleting a vault (\<open>vault_lifecycle.go\<close>) and the list of prefixes a vault
  owns.  The database, the hash, the cache library and the queue of provenance writes are the
  parameter \<open>VaultLib\<close>.  The entries of a cache are of any type: only their keys matter here.
\<close>

record ('db, 'v) VaultStore =
  vs_db :: 'db
  vs_vaultPrefixCache :: "string \<rightharpoonup> bytes"
  vs_vaultNameWritten :: "bytes set"
  vs_vaultCounters :: "bytes \<rightharpoonup> int"
  vs_counterFlush :: "bytes \<rightharpoonup> int"
  vs_cache :: "bytes \<times> bytes \<rightharpoonup> 'v"
  vs_assocCache :: "bytes \<rightharpoonup> 'v"
  vs_revAssocCache :: "bytes \<rightharpoonup> 'v"
  vs_metaCache :: "bytes \<rightharpoonup> 'v"
  vs_recentActiveCache :: "bytes \<rightharpoonup> 'v"

text \<open>\<open>vl_lru_add\<close> is \<open>Add\<close> of the LRU cache, which may evict other entries; \<open>vl_drain\<close> waits for the
  queued provenance writes, and \<open>vl_order\<close> is the order in which Go's \<open>range\<close> visits a map's keys.\<close>

record 'db VaultLib =
  vl_pebble :: "'db pebble"
  vl_sip :: siphash
  vl_lru_add :: "(string \<rightharpoonup> bytes) \<Rightarrow> string \<Rightarrow> bytes \<Rightarrow> (string \<rightharpoonup> bytes)"
  vl_drain :: "'db \<Rightarrow> 'db"
  vl_order :: "bytes set \<Rightarrow> bytes list"

datatype vault_error =
    VaultDb db_error | VaultOverflow | VaultPrefixNotFound
  | VaultNameMismatch string string | VaultNameExistsErr string

section \<open>Names\<close>

text \<open>\<open>db.Get\<close> returns an error both when the key is missing and when reading fails.\<close>

definition db_Get :: "'db VaultLib \<Rightarrow> ('db, 'v) VaultStore \<Rightarrow> bytes \<Rightarrow> bytes option" where
  "db_Get lib ps k = (case pb_get (vl_pebble lib) (vs_db ps) k of Found v \<Rightarrow> Some v | _ \<Rightarrow> None)"

definition cache_Add :: "'db VaultLib \<Rightarrow> string \<Rightarrow> bytes \<Rightarrow> ('db, 'v) VaultStore \<Rightarrow> ('db, 'v) VaultStore" where
  "cache_Add lib name ws ps =
     ps\<lparr>vs_vaultPrefixCache := vl_lru_add lib (vs_vaultPrefixCache ps) name ws\<rparr>"

definition WriteVaultName :: "'db VaultLib \<Rightarrow> ('db, 'v) VaultStore \<Rightarrow> bytes \<Rightarrow> string \<Rightarrow>
    ('db, 'v) VaultStore \<times> vault_error option" where
  "WriteVaultName lib ps wsPrefix name =
     (if wsPrefix \<in> vs_vaultNameWritten ps then (ps, None)
      else
        (let metaKey = VaultMetaKey wsPrefix
         in if db_Get lib ps metaKey \<noteq> None then
              (cache_Add lib name wsPrefix
                 (ps\<lparr>vs_vaultNameWritten := insert wsPrefix (vs_vaultNameWritten ps)\<rparr>), None)
            else
              (case pb_commit (vl_pebble lib) (vs_db ps)
                   [BSet metaKey (str_bytes name), BSet (VaultNameIndexKey (vl_sip lib) name) wsPrefix] of
                 Inl err \<Rightarrow> (ps, Some (VaultDb err))
               | Inr db' \<Rightarrow>
                   (cache_Add lib name wsPrefix
                      (ps\<lparr>vs_db := db', vs_vaultNameWritten := insert wsPrefix (vs_vaultNameWritten ps)\<rparr>),
                    None))))"

definition ResolveVaultPrefix :: "'db VaultLib \<Rightarrow> ('db, 'v) VaultStore \<Rightarrow> string \<Rightarrow>
    ('db, 'v) VaultStore \<times> bytes" where
  "ResolveVaultPrefix lib ps name =
     (case vs_vaultPrefixCache ps name of
        Some ws \<Rightarrow> (ps, ws)
      | None \<Rightarrow>
          (let fallback = VaultPrefix (vl_sip lib) name
           in case db_Get lib ps (VaultNameIndexKey (vl_sip lib) name) of
                Some val \<Rightarrow>
                  if length val = 8 then (cache_Add lib name val ps, val)
                  else (cache_Add lib name fallback ps, fallback)
              | None \<Rightarrow> (cache_Add lib name fallback ps, fallback)))"

definition VaultNameExists :: "'db VaultLib \<Rightarrow> ('db, 'v) VaultStore \<Rightarrow> string \<Rightarrow> bool" where
  "VaultNameExists lib ps name = (db_Get lib ps (VaultNameIndexKey (vl_sip lib) name) \<noteq> None)"

definition RenameVault :: "'db VaultLib \<Rightarrow> ('db, 'v) VaultStore \<Rightarrow> bytes \<Rightarrow> string \<Rightarrow> string \<Rightarrow>
    ('db, 'v) VaultStore \<times> vault_error option" where
  "RenameVault lib ps ws oldName newName =
     (case db_Get lib ps (VaultMetaKey ws) of
        None \<Rightarrow> (ps, Some VaultPrefixNotFound)
      | Some val \<Rightarrow>
          (let storedName = bytes_str val
           in if storedName \<noteq> oldName then (ps, Some (VaultNameMismatch storedName oldName))
              else if VaultNameExists lib ps newName then (ps, Some (VaultNameExistsErr newName))
              else
                (case pb_commit (vl_pebble lib) (vs_db ps)
                     [BSet (VaultMetaKey ws) (str_bytes newName),
                      BSet (VaultNameIndexKey (vl_sip lib) newName) ws,
                      BDelete (VaultNameIndexKey (vl_sip lib) oldName)] of
                   Inl err \<Rightarrow> (ps, Some (VaultDb err))
                 | Inr db' \<Rightarrow>
                     (let ps = ps\<lparr>vs_db := db',
                                   vs_vaultPrefixCache := (vs_vaultPrefixCache ps)(oldName := None)\<rparr>;
                          ps = cache_Add lib newName ws ps
                      in (ps\<lparr>vs_vaultNameWritten := vs_vaultNameWritten ps - {ws}\<rparr>, None)))))"

definition ListVaultNames :: "'db VaultLib \<Rightarrow> ('db, 'v) VaultStore \<Rightarrow> db_error + string list" where
  "ListVaultNames lib ps =
     (case pb_iter (vl_pebble lib) (vs_db ps) [pfx_VaultMeta] (Some [pfx_VaultNameIndex]) of
        Inl err \<Rightarrow> Inl err
      | Inr kvs \<Rightarrow>
          Inr (map (\<lambda>(k, v). bytes_str v)
             (filter (\<lambda>(k, v). length k = 9 \<and> k ! 0 = pfx_VaultMeta) kvs)))"

definition hex_digit :: "nat \<Rightarrow> char" where
  "hex_digit n = ''0123456789abcdef'' ! n"

definition hex_text :: "bytes \<Rightarrow> string" where
  "hex_text bs = concat (map (\<lambda>b. [hex_digit (unat b div 16), hex_digit (unat b mod 16)]) bs)"

definition backfill_one :: "'db VaultLib \<Rightarrow> bytes \<Rightarrow> ('db, 'v) VaultStore \<Rightarrow>
    ('db, 'v) VaultStore \<times> vault_error option" where
  "backfill_one lib ws ps =
     (let metaKey = VaultMetaKey ws;
          got = db_Get lib ps metaKey;
          name = (case got of Some val \<Rightarrow> bytes_str val | None \<Rightarrow> ''vault-'' @ hex_text (take 4 ws));
          idxKey = VaultNameIndexKey (vl_sip lib) name
      in if db_Get lib ps idxKey \<noteq> None then (ps, None)
         else
           (case pb_commit (vl_pebble lib) (vs_db ps)
                ((if got = None then [BSet metaKey (str_bytes name)] else []) @ [BSet idxKey ws]) of
              Inl err \<Rightarrow> (ps, Some (VaultDb err))
            | Inr db' \<Rightarrow> (ps\<lparr>vs_db := db'\<rparr>, None)))"

fun backfill_loop :: "'db VaultLib \<Rightarrow> bytes list \<Rightarrow> ('db, 'v) VaultStore \<Rightarrow>
    ('db, 'v) VaultStore \<times> vault_error option" where
  "backfill_loop lib [] ps = (ps, None)"
| "backfill_loop lib (ws # wss) ps =
     (case backfill_one lib ws ps of
        (ps', None) \<Rightarrow> backfill_loop lib wss ps'
      | (ps', Some err) \<Rightarrow> (ps', Some err))"

definition BackfillVaultNames :: "'db VaultLib \<Rightarrow> ('db, 'v) VaultStore \<Rightarrow>
    ('db, 'v) VaultStore \<times> vault_error option" where
  "BackfillVaultNames lib ps =
     (case pb_iter (vl_pebble lib) (vs_db ps) [pfx_Engram] (Some [pfx_Meta]) of
        Inl err \<Rightarrow> (ps, Some (VaultDb err))
      | Inr kvs \<Rightarrow>
          (let seen = (\<lambda>(k, v). take 8 (drop 1 k)) ` set (filter (\<lambda>(k, v). length k \<ge> 25) kvs)
           in backfill_loop lib (vl_order lib seen) ps))"

section \<open>Counters\<close>

definition countEngramsForVault :: "'db VaultLib \<Rightarrow> ('db, 'v) VaultStore \<Rightarrow> bytes \<Rightarrow> int + int" where
  "countEngramsForVault lib ps wsPrefix =
     (let lower = EngramKey wsPrefix (replicate 16 0);
          upper = pfx_Engram # fst (carry wsPrefix)
      in case pb_iter (vl_pebble lib) (vs_db ps) lower (Some upper) of
           Inl err \<Rightarrow> Inl 0
         | Inr kvs \<Rightarrow> Inr (int (length (filter (\<lambda>(k, v). length k \<ge> 25) kvs))))"

definition getOrInitCounter :: "'db VaultLib \<Rightarrow> ('db, 'v) VaultStore \<Rightarrow> bytes \<Rightarrow>
    ('db, 'v) VaultStore \<times> int" where
  "getOrInitCounter lib ps wsPrefix =
     (case vs_vaultCounters ps wsPrefix of
        Some n \<Rightarrow> (ps, n)
      | None \<Rightarrow>
          (let countKey = VaultCountKey wsPrefix;
               scan =
                 (let n = (case countEngramsForVault lib ps wsPrefix of Inl m \<Rightarrow> m | Inr m \<Rightarrow> m);
                      db = (case pb_set (vl_pebble lib) (vs_db ps) countKey (PutUint64 (word_of_int n)) of
                              Inl err \<Rightarrow> vs_db ps
                            | Inr db' \<Rightarrow> db')
                  in (ps\<lparr>vs_db := db, vs_vaultCounters := (vs_vaultCounters ps)(wsPrefix \<mapsto> n)\<rparr>, n))
           in case db_Get lib ps countKey of
                Some val \<Rightarrow>
                  if length val = 8 then
                    (let n = sint (Uint64 val)
                     in (ps\<lparr>vs_vaultCounters := (vs_vaultCounters ps)(wsPrefix \<mapsto> n)\<rparr>, n))
                  else scan
              | None \<Rightarrow> scan))"

definition GetVaultCount :: "'db VaultLib \<Rightarrow> ('db, 'v) VaultStore \<Rightarrow> bytes \<Rightarrow>
    ('db, 'v) VaultStore \<times> int" where
  "GetVaultCount lib ps wsPrefix = getOrInitCounter lib ps wsPrefix"

section \<open>Clearing and deleting\<close>

definition clearVaultDataPrefixes :: "u8 list" where
  "clearVaultDataPrefixes =
     [pfx_Engram, pfx_Meta, pfx_AssocFwd, pfx_AssocRev,
      pfx_FTSPosting, pfx_Trigram, pfx_HNSWNode, pfx_FTSStats,
      pfx_TermStats, pfx_Contradiction, pfx_StateIndex, pfx_TagIndex,
      pfx_CreatorIndex, pfx_RelevanceBucket, pfx_Coherence, pfx_VaultWeights,
      pfx_AssocWeightIndex, pfx_VaultCount, pfx_Provenance, pfx_BucketMigration,
      pfx_Entity, pfx_EntityEngramLink, pfx_Relationship, pfx_LastAccess, pfx_CoOccurrence,
      pfx_ArchiveAssoc, pfx_RelEntityIndex, pfx_DreamState, pfx_ContentHash,
      pfx_RecallEvent, pfx_Lease, pfx_EvolveRepairMark, pfx_RawTagRange, pfx_ProspectiveIntent,
      pfx_AssocWeightRepairMark, pfx_UpsertKey, pfx_DeclaredContradictionMark]"

definition incrementWS :: "bytes \<Rightarrow> bytes option" where
  "incrementWS ws = (if ws = replicate 8 0xFF then None else Some (fst (carry ws)))"

definition L1_DeleteByVault :: "bytes \<Rightarrow> (bytes \<times> bytes \<rightharpoonup> 'v) \<Rightarrow> (bytes \<times> bytes \<rightharpoonup> 'v)" where
  "L1_DeleteByVault ws c = (\<lambda>(w, i). if w = ws then None else c (w, i))"

text \<open>The deletions that \<open>deleteVaultEntityReverseIndex\<close> adds to the batch.\<close>

definition deleteVaultEntityReverseIndex :: "'db VaultLib \<Rightarrow> ('db, 'v) VaultStore \<Rightarrow> bytes \<Rightarrow>
    db_error + batch_op list" where
  "deleteVaultEntityReverseIndex lib ps ws =
     (case pb_iter (vl_pebble lib) (vs_db ps) [pfx_EntityReverseIndex] (Some [pfx_CoOccurrence]) of
        Inl err \<Rightarrow> Inl err
      | Inr kvs \<Rightarrow>
          Inr (map (\<lambda>(k, v). BDelete k)
             (filter (\<lambda>(k, v). length k = 33 \<and> take 8 (drop 9 k) = ws) kvs)))"

definition evict_caches :: "bytes \<Rightarrow> ('db, 'v) VaultStore \<Rightarrow> ('db, 'v) VaultStore" where
  "evict_caches ws ps =
     ps\<lparr>vs_cache := L1_DeleteByVault ws (vs_cache ps),
        vs_assocCache := (\<lambda>k. if take 8 k = ws then None else vs_assocCache ps k),
        vs_revAssocCache := (\<lambda>k. if take 8 k = ws then None else vs_revAssocCache ps k),
        vs_metaCache := Map.empty,
        vs_recentActiveCache := (vs_recentActiveCache ps)(ws := None)\<rparr>"

definition ClearVault :: "'db VaultLib \<Rightarrow> ('db, 'v) VaultStore \<Rightarrow> bytes \<Rightarrow>
    ('db, 'v) VaultStore \<times> (vault_error + int)" where
  "ClearVault lib ps ws =
     (let pb = vl_pebble lib;
          (ps, vaultCount) = GetVaultCount lib ps ws
      in case pb_commit pb (vs_db ps) [BDelete (VaultCountKey ws)] of
           Inl err \<Rightarrow> (ps, Inl (VaultDb err))
         | Inr db1 \<Rightarrow>
             (let ps = ps\<lparr>vs_db := db1,
                          vs_vaultCounters := (vs_vaultCounters ps)(ws := None),
                          vs_counterFlush := (vs_counterFlush ps)(ws := None)\<rparr>;
                  ps = ps\<lparr>vs_db := vl_drain lib (vs_db ps)\<rparr>
              in case incrementWS ws of
                   None \<Rightarrow> (ps, Inl VaultOverflow)
                 | Some wsPlus \<Rightarrow>
                     (let batch = map (\<lambda>p. BDeleteRange (p # ws) (p # wsPlus)) clearVaultDataPrefixes
                      in case deleteVaultEntityReverseIndex lib ps ws of
                           Inl err \<Rightarrow> (ps, Inl (VaultDb err))
                         | Inr dels \<Rightarrow>
                             (case pb_commit pb (vs_db ps) (batch @ dels) of
                                Inl err \<Rightarrow> (ps, Inl (VaultDb err))
                              | Inr db2 \<Rightarrow> (evict_caches ws (ps\<lparr>vs_db := db2\<rparr>), Inr vaultCount)))))"

definition DeleteVaultNameOnly :: "'db VaultLib \<Rightarrow> ('db, 'v) VaultStore \<Rightarrow> string \<Rightarrow> bytes \<Rightarrow>
    ('db, 'v) VaultStore \<times> vault_error option" where
  "DeleteVaultNameOnly lib ps name ws =
     (case pb_commit (vl_pebble lib) (vs_db ps) [BDelete (VaultMetaKey ws)] of
        Inl err \<Rightarrow> (ps, Some (VaultDb err))
      | Inr db1 \<Rightarrow>
          (case pb_commit (vl_pebble lib) db1 [BDelete (VaultNameIndexKey (vl_sip lib) name)] of
             Inl err \<Rightarrow> (ps\<lparr>vs_db := db1\<rparr>, Some (VaultDb err))
           | Inr db2 \<Rightarrow>
               (ps\<lparr>vs_db := db2,
                  vs_vaultPrefixCache := (vs_vaultPrefixCache ps)(name := None),
                  vs_vaultNameWritten := vs_vaultNameWritten ps - {ws}\<rparr>, None)))"

end
