(* ===== verification/Vault_Props.thy ===== *)
theory Vault_Props
  imports Vault_Store
begin

text \<open>What the vault operations guarantee: the ranges of a vault, what clearing removes and what it
  leaves, the registry of names under renaming, and the ranges of the tag index.\<close>

section \<open>Ranges of a vault\<close>

lemma u8_wrap: "b + 1 = 0 \<longleftrightarrow> b = (255 :: u8)"
proof -
  have "(- 1 :: u8) = 255" by simp
  then show ?thesis by (metis add.inverse_inverse eq_neg_iff_add_eq_0)
qed

lemma length_carry: "length (fst (carry bs)) = length bs"
  by (induction bs) (auto simp: Let_def split: prod.splits)

lemma carry_over: "snd (carry bs) \<longleftrightarrow> bs = replicate (length bs) 255"
  by (induction bs) (auto simp: Let_def u8_wrap split: prod.splits)

lemma carry_wrapped: "snd (carry bs) \<Longrightarrow> fst (carry bs) = replicate (length bs) 0"
  by (induction bs) (auto simp: Let_def u8_wrap split: prod.splits if_splits)

lemma not_below_zeros: "n \<le> length cs \<Longrightarrow> \<not> cs < replicate n (0 :: u8)"
proof (induction n arbitrary: cs)
  case (Suc n)
  then show ?case by (cases cs) auto
qed simp

lemma above_tops: "length bs \<le> length cs \<Longrightarrow> bs = replicate (length bs) (255 :: u8) \<Longrightarrow>
    bs \<le> cs \<longleftrightarrow> take (length bs) cs = bs"
proof (induction bs arbitrary: cs)
  case (Cons b bs)
  then have b: "b = 255" "bs = replicate (length bs) 255" by auto
  from Cons.prems obtain c cs' where cs: "cs = c # cs'" "length bs \<le> length cs'" by (cases cs) auto
  have "\<not> 255 < c" using u8_top[of c] by (metis less_irrefl not_less_iff_gr_or_eq word_not_simps(3) word_order.extremum_strict)
  with Cons.IH[OF cs(2) b(2)] b(1) cs(1) show ?case by auto
qed simp

lemma carry_range:
  "\<not> snd (carry ws) \<Longrightarrow> length ws \<le> length k \<Longrightarrow>
   ws \<le> k \<and> k < fst (carry ws) \<longleftrightarrow> take (length ws) k = ws"
proof (induction ws arbitrary: k)
  case (Cons b bs)
  from Cons.prems(2) obtain c cs where k: "k = c # cs" "length bs \<le> length cs" by (cases k) auto
  show ?case
  proof (cases "snd (carry bs)")
    case True
    with Cons.prems(1) have b: "b \<noteq> 255" by (auto simp: Let_def u8_wrap split: prod.splits)
    have bs: "bs = replicate (length bs) 255" using True by (simp add: carry_over)
    have nb: "\<not> cs < replicate (length bs) 0" by (rule not_below_zeros[OF k(2)])
    have lt: "b < 255" using b u8_top[of b] by blast
    have "fst (carry (b # bs)) = (b + 1) # replicate (length bs) 0"
      using carry_wrapped[OF True] True by (auto simp: Let_def split: prod.splits)
    then show ?thesis
      using above_tops[OF k(2) bs] nb lt u8_less_Suc[OF lt, of c]
      by (auto simp: k(1))
  next
    case False
    then have "fst (carry (b # bs)) = b # fst (carry bs)" by (auto simp: Let_def split: prod.splits)
    with Cons.IH[OF False k(2)] show ?thesis by (auto simp: k(1))
  qed
qed simp

text \<open>A range that runs from a vault's prefix to its successor holds the keys of that vault, and no
  others of at least nine bytes.\<close>

definition in_vault :: "u8 \<Rightarrow> bytes \<Rightarrow> bytes \<Rightarrow> bool" where
  "in_vault p ws k \<longleftrightarrow> take 9 k = p # ws"

lemma vault_range:
  assumes "length ws = 8" "ws \<noteq> replicate 8 255" "9 \<le> length k"
  shows "p # ws \<le> k \<and> k < p # fst (carry ws) \<longleftrightarrow> in_vault p ws k"
proof -
  from assms(3) obtain c cs where k: "k = c # cs" "8 \<le> length cs" by (cases k) auto
  have "\<not> snd (carry ws)" using assms(1,2) carry_over[of ws] by simp
  from carry_range[OF this, of cs] k assms(1) show ?thesis
    by (auto simp: in_vault_def)
qed

lemma vault_range_top:
  assumes "length ws = 8" "ws = replicate 8 255"
  shows "\<not> (p # ws \<le> k \<and> k < p # fst (carry ws))"
proof -
  have z: "fst (carry ws) = replicate 8 0" using carry_wrapped[of ws] carry_over[of ws] assms by simp
  have "p # replicate 8 0 \<le> p # replicate 8 (255 :: u8)" by (simp add: numeral_eq_Suc)
  then have "p # fst (carry ws) \<le> p # ws" using z assms(2) by metis
  then show ?thesis by (meson leD le_less_trans order.strict_trans2)
qed

lemma prefix_take: "prefix p k \<longleftrightarrow> take (length p) k = p"
  by (metis append_eq_conv_conj prefix_def take_is_prefix)

lemma in_vault_prefix: "length ws = 8 \<Longrightarrow> in_vault p ws k \<longleftrightarrow> prefix (p # ws) k"
  by (simp add: in_vault_def prefix_take)

section \<open>Clearing a vault\<close>

lemma apply_deletes:
  "apply_batch (map (\<lambda>p. BDeleteRange (lo p) (hi p)) ps @ map BDelete ks) m k =
    (if (\<exists>p \<in> set ps. lo p \<le> k \<and> k < hi p) \<or> k \<in> set ks then None else m k)"
proof (induction ps arbitrary: m)
  case Nil
  show ?case by (induction ks arbitrary: m) auto
qed auto

lemma GetVaultCount_db:
  assumes "pebble_spec (vl_pebble lib) view" "GetVaultCount lib ps ws = (ps', n)" "k \<noteq> VaultCountKey ws"
  shows "view (vs_db ps') k = view (vs_db ps) k"
  using assms spec_set[OF assms(1)]
  by (auto simp: GetVaultCount_def getOrInitCounter_def Let_def split: option.splits if_splits sum.splits)

text \<open>What the drain is relied on for: it writes provenance entries only.\<close>

definition drain_ok :: "'db VaultLib \<Rightarrow> ('db \<Rightarrow> bytes \<rightharpoonup> bytes) \<Rightarrow> bool" where
  "drain_ok lib view \<longleftrightarrow> (\<forall>d k. view (vl_drain lib d) k \<noteq> view d k \<longrightarrow> (\<exists>k'. k = pfx_Provenance # k'))"

definition reverse_entry :: "bytes \<Rightarrow> bytes \<Rightarrow> bool" where
  "reverse_entry ws k \<longleftrightarrow> length k = 33 \<and> k ! 0 = pfx_EntityReverseIndex \<and> take 8 (drop 9 k) = ws"

definition cleared :: "bytes \<Rightarrow> bytes \<Rightarrow> bool" where
  "cleared ws k \<longleftrightarrow> (\<exists>p \<in> set clearVaultDataPrefixes. in_vault p ws k) \<or> reverse_entry ws k"

lemma reverse_range: "[pfx_EntityReverseIndex] \<le> k \<and> k < [pfx_CoOccurrence] \<longleftrightarrow>
    (\<exists>s. k = pfx_EntityReverseIndex # s)"
proof -
  have "PrefixUpperBound [pfx_EntityReverseIndex] = Some [pfx_CoOccurrence]"
    by (simp add: PrefixUpperBound_def pfx_defs)
  then show ?thesis
    using bound_exact[of "[pfx_EntityReverseIndex]" k] by (simp add: prefix_def)
qed

lemma delete_reverse_db:
  "deleteVaultEntityReverseIndex lib (ps\<lparr>vs_vaultCounters := a, vs_counterFlush := b, vs_db := d\<rparr>) ws =
   deleteVaultEntityReverseIndex lib (ps\<lparr>vs_db := d\<rparr>) ws"
  by (simp add: deleteVaultEntityReverseIndex_def)

lemma deleteVaultEntityReverseIndex_keys:
  assumes "pebble_spec (vl_pebble lib) view" "deleteVaultEntityReverseIndex lib ps ws = Inr dels"
  obtains ks where "dels = map BDelete ks" "set ks = {k. reverse_entry ws k \<and> view (vs_db ps) k \<noteq> None}"
proof -
  from assms(2) obtain kvs where it: "pb_iter (vl_pebble lib) (vs_db ps) [pfx_EntityReverseIndex] (Some [pfx_CoOccurrence]) = Inr kvs"
    and dels: "dels = map (\<lambda>(k, v). BDelete k) (filter (\<lambda>(k, v). length k = 33 \<and> take 8 (drop 9 k) = ws) kvs)"
    by (auto simp: deleteVaultEntityReverseIndex_def split: sum.splits)
  from spec_iter[OF assms(1) it] have kvs: "\<And>k v. (k, v) \<in> set kvs \<longleftrightarrow>
      (\<exists>s. k = pfx_EntityReverseIndex # s) \<and> view (vs_db ps) k = Some v"
    by (auto simp: iter_ok_def reverse_range[symmetric])
  let ?ks = "map fst (filter (\<lambda>(k, v). length k = 33 \<and> take 8 (drop 9 k) = ws) kvs)"
  have "dels = map BDelete ?ks" by (simp add: dels case_prod_beta comp_def)
  moreover have "set ?ks = {k. reverse_entry ws k \<and> view (vs_db ps) k \<noteq> None}"
  proof (rule set_eqI)
    fix k
    have "(\<exists>s. k = pfx_EntityReverseIndex # s) \<longleftrightarrow> k ! 0 = pfx_EntityReverseIndex" if "length k = 33"
      using that by (cases k) auto
    then show "k \<in> set ?ks \<longleftrightarrow> k \<in> {k. reverse_entry ws k \<and> view (vs_db ps) k \<noteq> None}"
      by (force simp: kvs reverse_entry_def)
  qed
  ultimately show thesis by (rule that)
qed

lemma ClearVault_db:
  assumes spec: "pebble_spec (vl_pebble lib) view"
    and cv: "ClearVault lib ps ws = (ps', Inr n)" and ws: "length ws = 8" and k: "9 \<le> length k"
  obtains d where "view (vs_db ps') k = (if cleared ws k then None else view (vl_drain lib d) k)"
    "\<And>k. k \<noteq> VaultCountKey ws \<Longrightarrow> view d k = view (vs_db ps) k"
proof -
  from cv obtain ps1 m db1 db2 wsPlus dels where
    gc: "GetVaultCount lib ps ws = (ps1, m)" and c1: "pb_commit (vl_pebble lib) (vs_db ps1) [BDelete (VaultCountKey ws)] = Inr db1"
    and inc: "incrementWS ws = Some wsPlus"
    and rev: "deleteVaultEntityReverseIndex lib (ps1\<lparr>vs_db := vl_drain lib db1\<rparr>) ws = Inr dels"
    and c2: "pb_commit (vl_pebble lib) (vl_drain lib db1)
        (map (\<lambda>p. BDeleteRange (p # ws) (p # wsPlus)) clearVaultDataPrefixes @ dels) = Inr db2"
    and db: "vs_db ps' = db2"
    by (auto simp: ClearVault_def Let_def evict_caches_def delete_reverse_db
        split: prod.splits sum.splits option.splits)
  from inc have plus: "wsPlus = fst (carry ws)" "ws \<noteq> replicate 8 255"
    by (auto simp: incrementWS_def split: if_splits)
  from rev obtain ks where ks: "dels = map BDelete ks"
      "set ks = {k. reverse_entry ws k \<and> view (vl_drain lib db1) k \<noteq> None}"
    using deleteVaultEntityReverseIndex_keys[OF spec rev] by auto
  have "view db2 k = (if cleared ws k then None else view (vl_drain lib db1) k)"
    unfolding spec_commit[OF spec c2] ks(1) apply_deletes
    using vault_range[OF ws plus(2) k] by (auto simp: cleared_def plus(1) ks(2))
  moreover have "view db1 k = view (vs_db ps) k" if "k \<noteq> VaultCountKey ws" for k
    using spec_commit[OF spec c1] GetVaultCount_db[OF spec gc that] that by simp
  ultimately show thesis using that[of db1] db by simp
qed

text \<open>C16.  Clearing a vault removes every key of the vault under one of the listed prefixes and its
  entries of the entity reverse index, whatever the keys look like, and changes no other key: the
  data of other vaults, whose keys differ in the eight bytes of the workspace, is untouched.  (Keys
  of at least nine bytes; the drain before the deletion may still add provenance of other vaults.)\<close>

theorem clear_vault_exact:
  assumes "pebble_spec (vl_pebble lib) view" "drain_ok lib view"
    "ClearVault lib ps ws = (ps', Inr n)" "length ws = 8" "9 \<le> length k"
  shows "(cleared ws k \<longrightarrow> view (vs_db ps') k = None) \<and>
    (\<not> cleared ws k \<and> k ! 0 \<noteq> pfx_Provenance \<longrightarrow> view (vs_db ps') k = view (vs_db ps) k)"
proof -
  obtain d where d: "view (vs_db ps') k = (if cleared ws k then None else view (vl_drain lib d) k)"
    "\<And>k. k \<noteq> VaultCountKey ws \<Longrightarrow> view d k = view (vs_db ps) k"
    by (rule ClearVault_db[OF assms(1,3,4,5)]) blast
  have "view (vl_drain lib d) k = view d k" if "k ! 0 \<noteq> pfx_Provenance"
    using assms(2) that unfolding drain_ok_def by fastforce
  moreover have "cleared ws (VaultCountKey ws)"
    using assms(4) by (simp add: cleared_def in_vault_def VaultCountKey_def clearVaultDataPrefixes_def)
  ultimately show ?thesis using d by metis
qed

text \<open>What clearing leaves: the registry counts six more prefixes as data of a vault, and clearing
  keeps the keys under them.  The embeddings, episodes, transitions, sibling positions and the
  model and index version markers of the vault survive, although the list claims to name every
  prefix of a vault's data.\<close>

theorem clear_vault_leaves:
  assumes "pebble_spec (vl_pebble lib) view" "drain_ok lib view"
    "ClearVault lib ps ws = (ps', Inr n)" "length ws = 8"
  shows "map pe_Name (filter (\<lambda>e. pe_Cat e = ''vault-scoped-data'' \<and> pe_Byte e \<notin> set clearVaultDataPrefixes)
      prefix_registry) = [''Embedding'', ''Episode'', ''FTSVersion'', ''Transition'', ''EmbedModel'', ''Ordinal''] \<and>
    view (vs_db ps') (EmbeddingKey ws i) = view (vs_db ps) (EmbeddingKey ws i) \<and>
    view (vs_db ps') (EpisodeKey ws i) = view (vs_db ps) (EpisodeKey ws i) \<and>
    view (vs_db ps') (FTSVersionKey ws) = view (vs_db ps) (FTSVersionKey ws) \<and>
    view (vs_db ps') (TransitionKey ws i j) = view (vs_db ps) (TransitionKey ws i j) \<and>
    view (vs_db ps') (EmbedModelKey ws) = view (vs_db ps) (EmbedModelKey ws) \<and>
    view (vs_db ps') (OrdinalKey ws i j) = view (vs_db ps) (OrdinalKey ws i j)"
proof -
  have keep: "view (vs_db ps') (p # ws @ s) = view (vs_db ps) (p # ws @ s)"
    if "p \<notin> set clearVaultDataPrefixes" "p \<noteq> pfx_EntityReverseIndex" for p s
  proof -
    have "p \<noteq> pfx_Provenance" using that(1) by (auto simp: clearVaultDataPrefixes_def)
    moreover have "\<not> cleared ws (p # ws @ s)"
      using that assms(4) by (auto simp: cleared_def in_vault_def reverse_entry_def)
    moreover obtain d where "view (vs_db ps') (p # ws @ s) =
        (if cleared ws (p # ws @ s) then None else view (vl_drain lib d) (p # ws @ s))"
      "\<And>k. k \<noteq> VaultCountKey ws \<Longrightarrow> view d k = view (vs_db ps) k"
      by (rule ClearVault_db[OF assms(1,3,4)]) (use assms(4) in auto)
    moreover have "p # ws @ s \<noteq> VaultCountKey ws"
      using that(1) by (auto simp: VaultCountKey_def clearVaultDataPrefixes_def)
    ultimately show ?thesis using assms(2) unfolding drain_ok_def by (metis list.inject)
  qed
  have "map pe_Name (filter (\<lambda>e. pe_Cat e = ''vault-scoped-data'' \<and> pe_Byte e \<notin> set clearVaultDataPrefixes)
      prefix_registry) = [''Embedding'', ''Episode'', ''FTSVersion'', ''Transition'', ''EmbedModel'', ''Ordinal'']"
    by (simp add: prefix_registry_def clearVaultDataPrefixes_def pfx_defs)
  then show ?thesis
    using keep[of pfx_Embedding i] keep[of pfx_Episode i] keep[of pfx_FTSVersion "[]"] keep[of pfx_Transition "i @ j"]
      keep[of pfx_EmbedModel "[]"] keep[of pfx_Ordinal "i @ j"]
    by (simp add: key_defs clearVaultDataPrefixes_def pfx_defs)
qed

section \<open>Scans\<close>

text \<open>The bounds of a scan are exact.  The forward and the reverse associations of a vault lie
  between the start and the end computed for the vault and nothing else does; so do the archived
  ones unless the workspace is the last one, and the provenance of an engram unless its id is the
  last one, among keys that are long enough.\<close>

theorem scan_ranges_exact:
  assumes "length ws = 8" "length i = 16"
  shows "(AssocFwdRangeStart ws \<le> k \<and> below k (AssocFwdRangeEnd ws) \<longleftrightarrow> prefix (AssocFwdRangeStart ws) k) \<and>
    (AssocRevRangeStart ws \<le> k \<and> below k (AssocRevRangeEnd ws) \<longleftrightarrow> prefix (AssocRevRangeStart ws) k) \<and>
    (ws \<noteq> replicate 8 0xFF \<and> 9 \<le> length k \<longrightarrow>
       (ArchiveAssocRangeStart ws \<le> k \<and> k < ArchiveAssocRangeEnd ws \<longleftrightarrow> prefix (ArchiveAssocRangeStart ws) k)) \<and>
    (i \<noteq> replicate 16 0xFF \<and> 25 \<le> length k \<longrightarrow>
       (ProvenanceKey ws i \<le> k \<and> k < ProvenanceKeyUpperBound ws i \<longleftrightarrow> prefix (ProvenanceKey ws i) k))"
proof -
  have archive: "ArchiveAssocRangeStart ws \<le> k \<and> k < ArchiveAssocRangeEnd ws \<longleftrightarrow> prefix (ArchiveAssocRangeStart ws) k"
    if "ws \<noteq> replicate 8 0xFF" "9 \<le> length k"
    using vault_range[OF assms(1) that, of pfx_ArchiveAssoc] assms(1)
    by (simp add: key_defs ArchiveAssocRangeEnd_def in_vault_prefix)
  have prov: "ProvenanceKey ws i \<le> k \<and> k < ProvenanceKeyUpperBound ws i \<longleftrightarrow> prefix (ProvenanceKey ws i) k"
    if "i \<noteq> replicate 16 0xFF" "25 \<le> length k"
  proof -
    let ?p = "pfx_Provenance # ws"
    have nc: "\<not> snd (carry i)" using that(1) assms(2) by (simp add: carry_over)
    have up: "ProvenanceKeyUpperBound ws i = ?p @ fst (carry i)"
      using nc assms(1) by (simp add: ProvenanceKeyUpperBound_def ProvenanceKey_def case_prod_beta Let_def)
    show ?thesis
    proof (cases "take 9 k = ?p")
      case True
      then obtain r where r: "k = ?p @ r" by (metis append_take_drop_id)
      then have "16 \<le> length r" using that(2) assms(1) by simp
      with carry_range[OF nc, of r] assms show ?thesis
        by (simp add: up r ProvenanceKey_def prefix_take)
    next
      case False
      have "\<not> prefix (?p @ i) k" using False assms(1) by (auto simp: prefix_def)
      moreover have "\<not> (?p @ i \<le> k \<and> k < ?p @ fst (carry i))"
      proof
        assume a: "?p @ i \<le> k \<and> k < ?p @ fst (carry i)"
        then have "k < ?p" using less_append_iff[of k ?p "fst (carry i)"] False assms(1) by auto
        with a show False by (meson le_append leD order_trans)
      qed
      ultimately show ?thesis by (simp add: up ProvenanceKey_def)
    qed
  qed
  show ?thesis
    using archive prov bound_exact by (auto simp: AssocFwdRangeEnd_def AssocRevRangeEnd_def)
qed

text \<open>In the last workspace the range of the archived associations is empty, although the keys
  exist, and the provenance range of the last id misses every entry: the two bounds are computed
  by loops of their own, which wrap around or append a byte where the shared bound carries on.\<close>

theorem scan_ranges_wrap:
  "\<not> (ArchiveAssocRangeStart (replicate 8 0xFF) \<le> k \<and> k < ArchiveAssocRangeEnd (replicate 8 0xFF)) \<and>
   (length ws = 8 \<longrightarrow>
      \<not> ProvenanceSuffixKey ws (replicate 16 0xFF) ts seq < ProvenanceKeyUpperBound ws (replicate 16 0xFF))"
proof -
  have a: "\<not> (ArchiveAssocRangeStart (replicate 8 0xFF) \<le> k \<and> k < ArchiveAssocRangeEnd (replicate 8 0xFF))"
    using vault_range_top[of "replicate 8 255" pfx_ArchiveAssoc k]
    by (simp add: key_defs ArchiveAssocRangeEnd_def)
  have p: "\<not> ProvenanceSuffixKey ws (replicate 16 0xFF) ts seq < ProvenanceKeyUpperBound ws (replicate 16 0xFF)"
    if "length ws = 8"
  proof -
    let ?i = "replicate 16 (255 :: u8)"
    have "snd (carry ?i)" by (simp add: carry_over)
    then have "ProvenanceKeyUpperBound ws ?i = (pfx_Provenance # ws @ ?i) @ [0]"
      using that by (simp add: ProvenanceKeyUpperBound_def ProvenanceKey_def case_prod_beta Let_def)
    moreover have "ProvenanceSuffixKey ws ?i ts seq = (pfx_Provenance # ws @ ?i) @ PutUint64 ts @ PutUint32 seq"
      by (simp add: ProvenanceSuffixKey_def)
    moreover have "\<not> PutUint64 ts @ PutUint32 seq < [0]"
      using not_below_zeros[of 1 "PutUint64 ts @ PutUint32 seq"] by simp
    ultimately show ?thesis by (metis append_less_iff)
  qed
  from a p show ?thesis by blast
qed

section \<open>Ranges of the tag index\<close>

lemma above_zero: "c \<noteq> (0 :: u8) \<Longrightarrow> 0 < c"
  by (simp add: word_neq_0_conv)

lemma less_one_zero: "c < (1 :: u8) \<longleftrightarrow> c = 0"
  using above_zero[of c] by (metis inc_less_eq_iff add_0 leD neq_iff u8_less_Suc word_gt_0 word_less_1)

lemma tag_below0:
  "0 \<notin> set v \<Longrightarrow> 0 \<notin> set w \<Longrightarrow> v @ 0 # i < w @ [0] \<longleftrightarrow> v < (w :: bytes)"
proof (induction w arbitrary: v)
  case Nil
  then show ?case by (cases v) auto
next
  case (Cons c w)
  then show ?case by (cases v) (auto simp: above_zero)
qed

lemma tag_below1:
  "0 \<notin> set v \<Longrightarrow> 0 \<notin> set w \<Longrightarrow> v @ 0 # i < w @ [1] \<longleftrightarrow> v \<le> (w :: bytes)"
proof (induction w arbitrary: v)
  case Nil
  then show ?case by (cases v) (auto simp: less_one_zero)
next
  case (Cons c w)
  then show ?case by (cases v) (auto simp: above_zero)
qed

definition tag_test :: "string \<Rightarrow> bytes \<Rightarrow> bytes \<Rightarrow> bool" where
  "tag_test cmp v w =
     (if cmp = ''lt'' then v < w else if cmp = ''lte'' then v \<le> w else if cmp = ''gt'' then w < v
      else if cmp = ''gte'' then w \<le> v else v = w)"

definition in_bound :: "bytes \<Rightarrow> bytes \<times> bytes option \<Rightarrow> bool" where
  "in_bound k b \<longleftrightarrow> fst b \<le> k \<and> below k (snd b)"

lemma tag_bound:
  assumes "0 \<notin> set v" "0 \<notin> set w"
  shows "in_bound (RawTagRangeKey ws h v i) (RawTagRangeBound ws h cmp w) \<longleftrightarrow> tag_test cmp v w"
proof -
  let ?p = "RawTagRangePrefix ws h"
  have up: "below (?p @ s) (PrefixUpperBound ?p)" for s
    using bound_exact[of ?p "?p @ s"] by simp
  have b: "w @ [0] \<le> v @ 0 # i \<longleftrightarrow> w \<le> v" "w @ [1] \<le> v @ 0 # i \<longleftrightarrow> w < v"
    using tag_below0[OF assms, of i] tag_below1[OF assms, of i] by (metis not_less, metis not_less)
  show ?thesis
    using tag_below0[OF assms, of i] tag_below1[OF assms, of i] b up
    by (auto simp: in_bound_def RawTagRangeKey_def RawTagRangeBound_def tag_test_def Let_def)
qed

lemma tag_bound_upper: "\<exists>u. snd (RawTagRangeBound ws h cmp w) = Some u"
proof -
  have "PrefixUpperBound (RawTagRangePrefix ws h) \<noteq> None"
    using bound_exact[of "RawTagRangePrefix ws h" "[0xFF]"] 
    by (auto simp: RawTagRangePrefix_def pfx_defs below_def split: option.splits)
  then show ?thesis by (auto simp: RawTagRangeBound_def Let_def)
qed

text \<open>The bounds of a tag comparison admit exactly the keys whose value passes it, and the bounds
  of two comparisons combined admit exactly those that pass both, for values without a zero byte:
  the order of the keys is the order of the values whatever ids follow them.\<close>

theorem tag_range_exact:
  assumes "0 \<notin> set v" "0 \<notin> set w1" "0 \<notin> set w2"
  shows "in_bound (RawTagRangeKey ws h v i) (RawTagRangeBound ws h c1 w1) = tag_test c1 v w1 \<and>
    in_bound (RawTagRangeKey ws h v i)
      (let (l1, u1) = RawTagRangeBound ws h c1 w1; (l2, u2) = RawTagRangeBound ws h c2 w2
       in CombineRawTagRangeBounds l1 u1 l2 u2) = (tag_test c1 v w1 \<and> tag_test c2 v w2)"
proof -
  obtain l1 u1 l2 u2 where b: "RawTagRangeBound ws h c1 w1 = (l1, Some u1)" "RawTagRangeBound ws h c2 w2 = (l2, Some u2)"
    using tag_bound_upper[of ws h c1 w1] tag_bound_upper[of ws h c2 w2] by (metis prod.collapse)
  show ?thesis
    using tag_bound[OF assms(1,2), of ws h i c1] tag_bound[OF assms(1,3), of ws h i c2]
    by (auto simp: b in_bound_def CombineRawTagRangeBounds_def nil_slice_def)
qed

section \<open>Names\<close>

text \<open>The registry is consistent: a vault's name leads back to the vault.\<close>

definition registry_ok :: "siphash \<Rightarrow> (bytes \<rightharpoonup> bytes) \<Rightarrow> bool" where
  "registry_ok sip m \<longleftrightarrow>
     (\<forall>ws v. m (VaultMetaKey ws) = Some v \<longrightarrow> m (VaultNameIndexKey sip (bytes_str v)) = Some ws)"

text \<open>No read fails, other than for a missing key.\<close>

definition reads_ok :: "'db VaultLib \<Rightarrow> bool" where
  "reads_ok lib \<longleftrightarrow> (\<forall>d k e. pb_get (vl_pebble lib) d k \<noteq> GetErr e)"

lemma db_Get_view:
  assumes "pebble_spec (vl_pebble lib) view" "reads_ok lib"
  shows "db_Get lib ps k = view (vs_db ps) k"
  using assms spec_get[OF assms(1), of "vs_db ps" k]
  by (auto simp: db_Get_def reads_ok_def get_ok_def split: get_result.splits)

lemma name_keys_distinct [simp]:
  "VaultMetaKey ws \<noteq> VaultNameIndexKey sip name" "VaultNameIndexKey sip name \<noteq> VaultMetaKey ws"
  by (simp_all add: VaultMetaKey_def VaultNameIndexKey_def pfx_defs)

lemma VaultMetaKey_inject [simp]: "VaultMetaKey a = VaultMetaKey b \<longleftrightarrow> a = b"
  by (simp add: VaultMetaKey_def)

lemma RenameVault_db:
  assumes "pebble_spec (vl_pebble lib) view" "reads_ok lib" "RenameVault lib ps ws old new = (ps', None)"
  shows "view (vs_db ps) (VaultMetaKey ws) = Some val \<Longrightarrow> bytes_str val = old"
    "view (vs_db ps) (VaultMetaKey ws) \<noteq> None"
    "view (vs_db ps) (VaultNameIndexKey (vl_sip lib) new) = None"
    "view (vs_db ps') = (view (vs_db ps))(VaultMetaKey ws \<mapsto> str_bytes new,
       VaultNameIndexKey (vl_sip lib) new \<mapsto> ws, VaultNameIndexKey (vl_sip lib) old := None)"
    "vs_vaultPrefixCache ps' = vl_lru_add lib ((vs_vaultPrefixCache ps)(old := None)) new ws"
  using assms(3) db_Get_view[OF assms(1,2), of ps] spec_commit[OF assms(1)]
  by (auto simp: RenameVault_def VaultNameExists_def cache_Add_def Let_def
      split: option.splits if_splits sum.splits)

text \<open>Renaming a vault keeps the registry consistent: every registered name leads to its vault, the
  new name to the renamed one and the old name to none, even when two names have the same hash, and
  nothing but the two name records changes.\<close>

theorem rename_keeps_registry:
  assumes "pebble_spec (vl_pebble lib) view" "reads_ok lib" "registry_ok (vl_sip lib) (view (vs_db ps))"
    "RenameVault lib ps ws old new = (ps', None)"
  shows "registry_ok (vl_sip lib) (view (vs_db ps')) \<and>
    view (vs_db ps') (VaultMetaKey ws) = Some (str_bytes new) \<and>
    view (vs_db ps') (VaultNameIndexKey (vl_sip lib) new) = Some ws \<and>
    view (vs_db ps') (VaultNameIndexKey (vl_sip lib) old) = None \<and>
    (hd k \<noteq> pfx_VaultMeta \<and> hd k \<noteq> pfx_VaultNameIndex \<longrightarrow> view (vs_db ps') k = view (vs_db ps) k)"
proof -
  let ?idx = "VaultNameIndexKey (vl_sip lib)"
  note db = RenameVault_db[OF assms(1,2,4)]
  obtain val where val: "view (vs_db ps) (VaultMetaKey ws) = Some val" "bytes_str val = old"
    using db(1,2) by blast
  have old: "view (vs_db ps) (?idx old) = Some ws" using assms(3) val by (auto simp: registry_ok_def)
  with db(3) have ne: "?idx old \<noteq> ?idx new" by auto
  have "registry_ok (vl_sip lib) (view (vs_db ps'))"
    unfolding registry_ok_def
  proof (intro allI impI)
    fix w v assume w: "view (vs_db ps') (VaultMetaKey w) = Some v"
    show "view (vs_db ps') (?idx (bytes_str v)) = Some w"
    proof (cases "w = ws")
      case True
      with w ne show ?thesis by (auto simp: db(4))
    next
      case False
      with w have "view (vs_db ps) (VaultMetaKey w) = Some v" by (simp add: db(4))
      then have i: "view (vs_db ps) (?idx (bytes_str v)) = Some w" using assms(3) by (auto simp: registry_ok_def)
      with old db(3) False have "?idx (bytes_str v) \<noteq> ?idx old" "?idx (bytes_str v) \<noteq> ?idx new" by auto
      with i show ?thesis by (simp add: db(4))
    qed
  qed
  moreover have "view (vs_db ps') k = view (vs_db ps) k" if "hd k \<noteq> pfx_VaultMeta \<and> hd k \<noteq> pfx_VaultNameIndex"
    using that by (auto simp: db(4) VaultMetaKey_def VaultNameIndexKey_def)
  ultimately show ?thesis using ne by (simp add: db(4))
qed

text \<open>What the LRU cache is relied on for: the added entry is there, and no entry is invented.\<close>

definition lru_ok :: "'db VaultLib \<Rightarrow> bool" where
  "lru_ok lib \<longleftrightarrow> (\<forall>c n w. vl_lru_add lib c n w n = Some w \<and>
     (\<forall>m. m \<noteq> n \<longrightarrow> vl_lru_add lib c n w m = c m \<or> vl_lru_add lib c n w m = None))"

lemma lru_facts:
  assumes "lru_ok lib"
  shows "vl_lru_add lib c n w n = Some w" "m \<noteq> n \<Longrightarrow> c m = None \<Longrightarrow> vl_lru_add lib c n w m = None"
proof -
  note a = assms[unfolded lru_ok_def, rule_format, of c n w]
  from a show "vl_lru_add lib c n w n = Some w" by blast
  show "vl_lru_add lib c n w m = None" if "m \<noteq> n" "c m = None" using a that by metis
qed

text \<open>After a rename the old name still leads to the renamed vault: a vault lives in the workspace
  that its first name hashes to, and an unregistered name resolves to its hash.  Whoever uses the
  old name reads and writes the renamed vault, and registering a vault under the old name does
  nothing, as the workspace has a name.\<close>

theorem renamed_vault_keeps_old_name:
  assumes "pebble_spec (vl_pebble lib) view" "reads_ok lib" "lru_ok lib"
    "ws = VaultPrefix (vl_sip lib) old" "RenameVault lib ps ws old new = (ps', None)"
    "registry_ok (vl_sip lib) (view (vs_db ps))"
  shows "snd (ResolveVaultPrefix lib ps' old) = ws \<and> snd (ResolveVaultPrefix lib ps' new) = ws \<and>
    \<not> VaultNameExists lib ps' old \<and>
    vs_db (fst (WriteVaultName lib ps' ws old)) = vs_db ps' \<and> snd (WriteVaultName lib ps' ws old) = None"
proof -
  note db = RenameVault_db[OF assms(1,2,5)]
  have get: "db_Get lib ps' k = view (vs_db ps') k" for k by (rule db_Get_view[OF assms(1,2)])
  have ne: "old \<noteq> new"
    using db(1-3) assms(6) by (auto simp: registry_ok_def)
  have c: "vs_vaultPrefixCache ps' old = None" "vs_vaultPrefixCache ps' new = Some ws"
    using lru_facts[OF assms(3)] ne by (simp_all add: db(5))
  show ?thesis
    using c assms(4)
    by (auto simp: ResolveVaultPrefix_def get db(4) VaultNameExists_def WriteVaultName_def cache_Add_def Let_def)
qed

text \<open>A read that fails once while a name is resolved is taken for an unregistered name, and the
  answer is kept: the name of a renamed vault resolves to the workspace its own hash gives, a
  different vault, also after the store has recovered.\<close>

theorem resolve_read_error_sticks:
  assumes "pb_get (vl_pebble lib) (vs_db ps) (VaultNameIndexKey (vl_sip lib) name) = GetErr e"
    "vs_vaultPrefixCache ps name = None" "lru_ok lib"
  shows "snd (ResolveVaultPrefix lib ps name) = VaultPrefix (vl_sip lib) name \<and>
    snd (ResolveVaultPrefix lib (fst (ResolveVaultPrefix lib ps name)\<lparr>vs_db := d\<rparr>) name) = VaultPrefix (vl_sip lib) name"
  using assms(1,2) lru_facts(1)[OF assms(3)]
  by (simp add: ResolveVaultPrefix_def db_Get_def cache_Add_def Let_def)

section \<open>Witnesses\<close>

definition demo_vault_lib :: "(bytes \<times> bytes) list VaultLib" where
  "demo_vault_lib =
     \<lparr>vl_pebble = mem_pebble, vl_sip = (\<lambda>a b s. word_of_nat (foldl (\<lambda>h c. h * 256 + unat c) 0 s)),
      vl_lru_add = (\<lambda>c n w. c(n \<mapsto> w)), vl_drain = id, vl_order = (\<lambda>s. [])\<rparr>"

definition demo_ws :: bytes where "demo_ws = VaultPrefix (vl_sip demo_vault_lib) ''a''"
definition demo_id :: bytes where "demo_id = replicate 16 7"

definition demo_vaults :: "((bytes \<times> bytes) list, unit) VaultStore" where
  "demo_vaults =
     \<lparr>vs_db = [(VaultMetaKey demo_ws, str_bytes ''a''), (VaultNameIndexKey (vl_sip demo_vault_lib) ''a'', demo_ws),
         (EngramKey demo_ws demo_id, [1]), (EmbeddingKey demo_ws demo_id, [2]),
         (EngramKey (replicate 8 9) demo_id, [3])],
      vs_vaultPrefixCache = Map.empty, vs_vaultNameWritten = {}, vs_vaultCounters = [demo_ws \<mapsto> 1],
      vs_counterFlush = Map.empty, vs_cache = Map.empty, vs_assocCache = Map.empty,
      vs_revAssocCache = Map.empty, vs_metaCache = Map.empty, vs_recentActiveCache = Map.empty\<rparr>"

lemma demo_lib_facts:
  "pebble_spec (vl_pebble demo_vault_lib) map_of" "drain_ok demo_vault_lib map_of"
  "reads_ok demo_vault_lib" "lru_ok demo_vault_lib"
  using mem_pebble_reliable
  by (auto simp: demo_vault_lib_def mem_pebble_spec drain_ok_def reads_ok_def lru_ok_def pebble_reliable_def)

lemma be8: "be_nat 8 x = [word_of_nat (x div 256 div 256 div 256 div 256 div 256 div 256 div 256),
    word_of_nat (x div 256 div 256 div 256 div 256 div 256 div 256),
    word_of_nat (x div 256 div 256 div 256 div 256 div 256), word_of_nat (x div 256 div 256 div 256 div 256),
    word_of_nat (x div 256 div 256 div 256), word_of_nat (x div 256 div 256), word_of_nat (x div 256), word_of_nat x]"
proof -
  have "8 = Suc (Suc (Suc (Suc (Suc (Suc (Suc (Suc 0)))))))" by simp
  then show ?thesis by (simp only: be_nat.simps append.simps)
qed

lemma replicate8: "replicate 8 x = [x, x, x, x, x, x, x, x]"
  by (simp add: numeral_eq_Suc)

lemma demo_ws_val: "demo_ws = [0, 0, 0, 0, 0, 0, 0, 97]"
  by (simp add: demo_ws_def VaultPrefix_def demo_vault_lib_def str_bytes_def PutUint64_def be8)

lemma demo_names:
  "VaultNameIndexKey (vl_sip demo_vault_lib) ''a'' = [15, 0, 0, 0, 0, 0, 0, 0, 97]"
  "VaultNameIndexKey (vl_sip demo_vault_lib) ''b'' = [15, 0, 0, 0, 0, 0, 0, 0, 98]"
  by (simp_all add: VaultNameIndexKey_def demo_vault_lib_def str_bytes_def PutUint64_def be8 pfx_defs)

definition demo_cleared :: "((bytes \<times> bytes) list, unit) VaultStore" where
  "demo_cleared = fst (ClearVault demo_vault_lib demo_vaults demo_ws)"

lemma demo_clear: "ClearVault demo_vault_lib demo_vaults demo_ws = (demo_cleared, Inr 1)"
proof -
  have "incrementWS demo_ws = Some [0, 0, 0, 0, 0, 0, 0, 98]"
    by (simp add: incrementWS_def demo_ws_val replicate8)
  then have "snd (ClearVault demo_vault_lib demo_vaults demo_ws) = Inr 1"
    by (simp add: ClearVault_def GetVaultCount_def getOrInitCounter_def demo_vaults_def demo_vault_lib_def mem_pebble_def
        deleteVaultEntityReverseIndex_def Let_def)
  then show ?thesis by (simp add: demo_cleared_def prod_eq_iff)
qed

lemma demo_ws_length: "length demo_ws = 8"
  by (simp add: demo_ws_val)

lemma clear_vault_exact_witness:
  "map_of (vs_db demo_cleared) (EngramKey demo_ws demo_id) = None \<and>
   map_of (vs_db demo_cleared) (EngramKey (replicate 8 9) demo_id) = Some [3]"
proof -
  note clear = clear_vault_exact[OF demo_lib_facts(1,2) demo_clear demo_ws_length]
  have "cleared demo_ws (EngramKey demo_ws demo_id)"
    by (simp add: cleared_def in_vault_def EngramKey_def clearVaultDataPrefixes_def demo_ws_val)
  moreover have "\<not> cleared demo_ws (EngramKey (replicate 8 9) demo_id)"
    by (simp add: cleared_def in_vault_def reverse_entry_def EngramKey_def demo_ws_val demo_id_def replicate8)
  moreover have "map_of (vs_db demo_vaults) (EngramKey (replicate 8 9) demo_id) = Some [3]"
    by (simp add: demo_vaults_def EngramKey_def EmbeddingKey_def VaultMetaKey_def VaultNameIndexKey_def
        demo_ws_val replicate8 pfx_defs)
  ultimately show ?thesis
    using clear[of "EngramKey demo_ws demo_id"] clear[of "EngramKey (replicate 8 9) demo_id"]
    by (simp add: EngramKey_def demo_ws_length demo_id_def pfx_defs)
qed

lemma clear_vault_leaves_witness:
  "map_of (vs_db demo_cleared) (EmbeddingKey demo_ws demo_id) = Some [2]"
  using clear_vault_leaves[OF demo_lib_facts(1,2) demo_clear demo_ws_length, of demo_id]
  by (simp add: demo_vaults_def EngramKey_def EmbeddingKey_def VaultMetaKey_def VaultNameIndexKey_def pfx_defs)

lemma scan_ranges_exact_witness:
  "AssocFwdRangeStart demo_ws \<le> AssocFwdPrefixForID demo_ws demo_id \<and>
   below (AssocFwdPrefixForID demo_ws demo_id) (AssocFwdRangeEnd demo_ws)"
proof -
  have "length demo_id = 16" by (simp add: demo_id_def)
  then show ?thesis
    using scan_ranges_exact[OF demo_ws_length, of demo_id "AssocFwdPrefixForID demo_ws demo_id"]
    by (simp add: AssocFwdRangeStart_def AssocFwdPrefixForID_def)
qed

lemma scan_ranges_wrap_witness:
  "\<not> ProvenanceSuffixKey demo_ws (replicate 16 0xFF) 5 0 < ProvenanceKeyUpperBound demo_ws (replicate 16 0xFF)"
  using scan_ranges_wrap[of _ demo_ws 5 0] demo_ws_length by blast

lemma tag_range_exact_witness:
  "in_bound (RawTagRangeKey demo_ws 7 [50] demo_id)
     (let (l1, u1) = RawTagRangeBound demo_ws 7 ''gte'' [49]; (l2, u2) = RawTagRangeBound demo_ws 7 ''lt'' [50, 1]
      in CombineRawTagRangeBounds l1 u1 l2 u2)"
  using tag_range_exact[of "[50]" "[49]" "[50, 1]" demo_ws 7 demo_id "''gte''" "''lt''"]
  by (simp add: tag_test_def)

lemma demo_registry_ok: "registry_ok (vl_sip demo_vault_lib) (map_of (vs_db demo_vaults))"
  by (auto simp: registry_ok_def demo_vaults_def EngramKey_def EmbeddingKey_def VaultMetaKey_def VaultNameIndexKey_def
      pfx_defs split: if_splits)

definition demo_renamed :: "((bytes \<times> bytes) list, unit) VaultStore" where
  "demo_renamed = fst (RenameVault demo_vault_lib demo_vaults demo_ws ''a'' ''b'')"

lemma demo_rename: "RenameVault demo_vault_lib demo_vaults demo_ws ''a'' ''b'' = (demo_renamed, None)"
proof -
  have "snd (RenameVault demo_vault_lib demo_vaults demo_ws ''a'' ''b'') = None"
    using demo_names
    by (simp add: RenameVault_def VaultNameExists_def db_Get_def demo_vaults_def demo_vault_lib_def mem_pebble_def
        cache_Add_def Let_def EngramKey_def EmbeddingKey_def VaultMetaKey_def pfx_defs)
  then show ?thesis by (simp add: demo_renamed_def prod_eq_iff)
qed

lemma rename_keeps_registry_witness:
  "map_of (vs_db demo_renamed) (VaultNameIndexKey (vl_sip demo_vault_lib) ''b'') = Some demo_ws \<and>
   map_of (vs_db demo_renamed) (VaultNameIndexKey (vl_sip demo_vault_lib) ''a'') = None"
  using rename_keeps_registry[OF demo_lib_facts(1,3) demo_registry_ok demo_rename] by blast

lemma renamed_vault_keeps_old_name_witness:
  "snd (ResolveVaultPrefix demo_vault_lib demo_renamed ''a'') = demo_ws \<and>
   snd (ResolveVaultPrefix demo_vault_lib demo_renamed ''b'') = demo_ws"
  using renamed_vault_keeps_old_name[OF demo_lib_facts(1,3,4) demo_ws_def demo_rename demo_registry_ok] by blast

definition flaky_vault_lib :: "(bytes \<times> bytes) list VaultLib" where
  "flaky_vault_lib = demo_vault_lib\<lparr>vl_pebble := mem_pebble\<lparr>pb_get := (\<lambda>d k. GetErr (DbError 5))\<rparr>\<rparr>"

lemma resolve_read_error_sticks_witness:
  "snd (ResolveVaultPrefix flaky_vault_lib (demo_renamed\<lparr>vs_vaultPrefixCache := Map.empty\<rparr>) ''b'') =
     VaultPrefix (vl_sip demo_vault_lib) ''b''"
proof -
  have "lru_ok flaky_vault_lib" using demo_lib_facts(4) by (simp add: lru_ok_def flaky_vault_lib_def)
  then show ?thesis
    using resolve_read_error_sticks[of flaky_vault_lib "demo_renamed\<lparr>vs_vaultPrefixCache := Map.empty\<rparr>" "''b''" "DbError 5"]
    by (simp add: flaky_vault_lib_def)
qed

end
