(* ===== verification/Weight_Props.thy ===== *)
theory Weight_Props
  imports Store_Keys
begin

text \<open>The float parts of the keys: associations sort by descending weight, weights survive the way
  through a key, and the last-access index sorts by recency.\<close>

section \<open>Weights\<close>

definition weight_cut :: "f32 \<Rightarrow> nat" where
  "weight_cut w = (if f32_ge1 w then 2 ^ 32 - 1 else f32_scaled w * 2 ^ 32 div 2 ^ 150)"

lemma f32_split:
  assumes "\<not> f32_neg w"
  shows "f32_exp w = unat w div 2 ^ 23" "unat w = f32_exp w * 2 ^ 23 + f32_frac w" "f32_frac w < 2 ^ 23"
proof -
  have "unat w div 2 ^ 23 < 256" using assms by (simp add: f32_neg_def)
  then show e: "f32_exp w = unat w div 2 ^ 23" by (simp add: f32_exp_def)
  show "unat w = f32_exp w * 2 ^ 23 + f32_frac w" unfolding e f32_frac_def by (simp add: mult.commute)
  show "f32_frac w < 2 ^ 23" by (simp add: f32_frac_def)
qed

lemma f32_scaled_bounds:
  assumes "\<not> f32_neg w"
  shows "f32_scaled w < 2 ^ 24 * 2 ^ max 1 (f32_exp w)" "f32_exp w > 0 \<Longrightarrow> 2 ^ 23 * 2 ^ f32_exp w \<le> f32_scaled w"
    "f32_exp w = 0 \<Longrightarrow> f32_scaled w < 2 ^ 24"
  using f32_split(3)[OF assms] by (auto simp: f32_scaled_def max_def)

lemma f32_scaled_mono:
  assumes "\<not> f32_neg a" "\<not> f32_neg b" "a \<le> b"
  shows "f32_scaled a \<le> f32_scaled b"
proof -
  have n: "unat a \<le> unat b" using assms(3) by (simp add: word_le_nat_alt)
  then have e: "f32_exp a \<le> f32_exp b" by (simp add: f32_split(1)[OF assms(1)] f32_split(1)[OF assms(2)] div_le_mono)
  show ?thesis
  proof (cases "f32_exp a = f32_exp b")
    case True
    with n have "f32_frac a \<le> f32_frac b" using f32_split(2)[OF assms(1)] f32_split(2)[OF assms(2)] by simp
    with True show ?thesis by (simp add: f32_scaled_def)
  next
    case False
    with e have lt: "f32_exp a < f32_exp b" by simp
    have "f32_scaled a < 2 ^ 24 * 2 ^ max 1 (f32_exp a)" if "f32_exp a > 0"
      using f32_scaled_bounds(1)[OF assms(1)] .
    moreover have "2 ^ 24 * 2 ^ f32_exp a \<le> (2 ^ 23 * 2 ^ f32_exp b :: nat)"
    proof -
      have "(2 :: nat) ^ 24 * 2 ^ f32_exp a = 2 ^ 23 * 2 ^ Suc (f32_exp a)" by simp
      also have "\<dots> \<le> 2 ^ 23 * 2 ^ f32_exp b" using lt by (intro mult_left_mono power_increasing) auto
      finally show ?thesis .
    qed
    moreover have "(2 :: nat) ^ 24 \<le> 2 ^ 23 * 2 ^ f32_exp b"
    proof -
      have "(2 :: nat) ^ 1 \<le> 2 ^ f32_exp b" using lt by (intro power_increasing) auto
      then show ?thesis by simp
    qed
    ultimately show ?thesis
      using f32_scaled_bounds(2)[OF assms(2)] f32_scaled_bounds(3)[OF assms(1)] lt
      by (cases "f32_exp a = 0") (auto simp: max_def)
  qed
qed

lemma f32_le0_cut: "\<not> f32_neg w \<Longrightarrow> f32_le0 w \<Longrightarrow> weight_cut w = 0"
  by (auto simp: f32_le0_def weight_cut_def f32_scaled_def f32_ge1_def)

lemma cut_bound:
  assumes "\<not> f32_neg w" "\<not> f32_nan w"
  shows "weight_cut w < 2 ^ 32"
proof (cases "f32_ge1 w")
  case True
  then show ?thesis by (simp add: weight_cut_def)
next
  case False
  then have "f32_exp w \<le> 126" using assms by (simp add: f32_ge1_def)
  then have "(2 :: nat) ^ max 1 (f32_exp w) \<le> 2 ^ 126" by (intro power_increasing) auto
  then have "2 ^ 24 * 2 ^ max 1 (f32_exp w) \<le> (2 :: nat) ^ 24 * 2 ^ 126" by (rule mult_left_mono) simp
  then have "f32_scaled w < 2 ^ 24 * 2 ^ 126" using f32_scaled_bounds(1)[OF assms(1)] by linarith
  then have "f32_scaled w * 2 ^ 32 < 2 ^ 32 * 2 ^ 150" by simp
  then show ?thesis using False by (simp add: weight_cut_def less_mult_imp_div_less)
qed

lemma cut_mono:
  assumes "\<not> f32_neg a" "\<not> f32_neg b" "\<not> f32_nan a" "\<not> f32_nan b" "a \<le> b"
  shows "weight_cut a \<le> weight_cut b"
proof -
  have "f32_exp a \<le> f32_exp b"
    using assms(5) by (simp add: f32_split(1)[OF assms(1)] f32_split(1)[OF assms(2)] div_le_mono word_le_nat_alt)
  then have "f32_ge1 a \<Longrightarrow> f32_ge1 b" using assms by (simp add: f32_ge1_def)
  moreover have "f32_scaled a * 2 ^ 32 div 2 ^ 150 \<le> f32_scaled b * 2 ^ 32 div 2 ^ 150"
    using f32_scaled_mono[OF assms(1,2,5)] by (intro div_le_mono mult_right_mono) auto
  ultimately show ?thesis using cut_bound[OF assms(1,3)] by (auto simp: weight_cut_def)
qed

lemma WeightComplement_cut:
  assumes "\<not> f32_neg w" "\<not> f32_nan w"
  shows "WeightComplement nanw w = PutUint32 (word_of_nat (2 ^ 32 - 1 - weight_cut w))"
proof -
  have "weight_cut w \<le> 2 ^ 32 - 1" using cut_bound[OF assms] by simp
  then have s: "(0xFFFFFFFF - word_of_nat (weight_cut w) :: u32) = word_of_nat (2 ^ 32 - 1 - weight_cut w)"
    by (simp add: of_nat_diff)
  have "(if f32_ge1 w then 0xFFFFFFFF else if f32_le0 w then 0 else if f32_nan w then nanw w
      else word_of_nat (f32_scaled w * 2 ^ 32 div 2 ^ 150)) = (word_of_nat (weight_cut w) :: u32)"
    using assms f32_le0_cut[OF assms(1)] by (auto simp: weight_cut_def)
  then show ?thesis unfolding WeightComplement_def Let_def by (simp only: s)
qed

lemma PutUint32_less: "PutUint32 a < PutUint32 b \<longleftrightarrow> a < b"
proof -
  have "unat x < 256 ^ 4" for x :: u32 using unsigned_less[of x] by simp
  then show ?thesis by (simp add: bytes_less_be_val PutUint32_def be_val_be_nat word_less_nat_alt)
qed

lemma PutUint32_le: "PutUint32 a \<le> PutUint32 b \<longleftrightarrow> a \<le> b"
  by (metis PutUint32_less linorder_not_less)

lemma unat_small32: "n < 2 ^ 32 \<Longrightarrow> unat (word_of_nat n :: u32) = n"
  by (simp add: unat_of_nat)

lemma append_less: "length xs = length ys \<Longrightarrow> xs < ys \<Longrightarrow> xs @ u < ys @ (v :: bytes)"
  by (induction xs ys rule: list_induct2) auto

lemma WeightComplement_le:
  assumes "\<not> f32_neg a" "\<not> f32_neg b" "\<not> f32_nan a" "\<not> f32_nan b" "a \<le> b"
  shows "WeightComplement nanw b \<le> WeightComplement nanw a"
  using cut_mono[OF assms] cut_bound[OF assms(1,3)] cut_bound[OF assms(2,4)]
  by (simp add: WeightComplement_cut assms PutUint32_le word_le_nat_alt unat_small32 del: of_nat_diff)

section \<open>Round trip\<close>

lemma top_bit_eq: "2 ^ k \<le> n \<Longrightarrow> n < 2 ^ Suc k \<Longrightarrow> top_bit n = k"
proof (induction k arbitrary: n)
  case 0
  then have "n < 2" by simp
  then show ?case by (simp add: top_bit.simps)
next
  case (Suc k)
  have "(1 :: nat) \<le> 2 ^ k" by simp
  with Suc.prems(1) have "\<not> n < 2" unfolding power_Suc by linarith
  moreover have "top_bit (n div 2) = k" using Suc.prems by (intro Suc.IH) auto
  ultimately show ?case by (subst top_bit.simps) simp
qed

lemma round_even_exact: "round_even (s * 2 ^ d) d = s"
  by (simp add: round_even_def)

lemma f32_of_u32_exact:
  assumes "2 ^ 23 \<le> s" "s < 2 ^ 24" "d \<le> 8"
  shows "f32_of_u32 32 (word_of_nat (s * 2 ^ d)) = word_of_nat ((118 + d) * 2 ^ 23 + (s - 2 ^ 23))"
proof -
  have "s * 2 ^ d < 2 ^ 24 * 2 ^ d" using assms(2) by simp
  also have "(2 :: nat) ^ 24 * 2 ^ d \<le> 2 ^ 24 * 2 ^ 8"
    using assms(3) by (intro mult_left_mono power_increasing) auto
  finally have "s * 2 ^ d < 2 ^ 32" by simp
  then have u: "unat (word_of_nat (s * 2 ^ d) :: u32) = s * 2 ^ d" by (rule unat_small32)
  have tb: "top_bit (s * 2 ^ d) = 23 + d"
    using assms(1,2) by (intro top_bit_eq) (auto simp: power_add)
  have "s * 2 ^ d \<noteq> 0" using assms(1) by auto
  then have nz: "(word_of_nat (s * 2 ^ d) :: u32) \<noteq> 0" using u by (metis unsigned_0)
  have m: "(if 23 + d \<le> 23 then s * 2 ^ d * 2 ^ (23 - (23 + d)) else round_even (s * 2 ^ d) (23 + d - 23)) = s"
    by (simp add: round_even_exact)
  have k: "127 + (23 + d) - 32 = 118 + d" by simp
  show ?thesis using nz unfolding f32_of_u32_def u tb Let_def m k by simp
qed

lemma weight_back:
  assumes "\<not> f32_neg w" "118 \<le> f32_exp w" "f32_exp w \<le> 126"
  shows "WeightFromComplement (WeightComplement nanw w) = w"
proof -
  have nn: "\<not> f32_nan w" "\<not> f32_ge1 w" using assms by (auto simp: f32_nan_def f32_ge1_def)
  define s where "s = 2 ^ 23 + f32_frac w"
  define d where "d = f32_exp w - 118"
  have e: "f32_exp w = 118 + d" "d \<le> 8" using assms(2,3) by (simp_all add: d_def)
  have s: "2 ^ 23 \<le> s" "s < 2 ^ 24" using f32_split(3)[OF assms(1)] by (simp_all add: s_def)
  have "weight_cut w = s * 2 ^ (118 + d) * 2 ^ 32 div 2 ^ 150"
    using nn(2) e by (simp add: weight_cut_def f32_scaled_def s_def)
  also have "s * 2 ^ (118 + d) * 2 ^ 32 = s * 2 ^ d * 2 ^ 150" by (simp add: power_add)
  finally have c: "weight_cut w = s * 2 ^ d" by simp
  have "(0xFFFFFFFF - Uint32 (WeightComplement nanw w)) = (word_of_nat (weight_cut w) :: u32)"
    using cut_bound[OF assms(1) nn(1)] by (simp add: WeightComplement_cut[OF assms(1) nn(1)] of_nat_diff)
  then have "WeightFromComplement (WeightComplement nanw w) = f32_of_u32 32 (word_of_nat (s * 2 ^ d))"
    by (simp add: WeightFromComplement_def c)
  also have "\<dots> = word_of_nat ((118 + d) * 2 ^ 23 + (s - 2 ^ 23))"
    by (rule f32_of_u32_exact[OF s e(2)])
  also have "(118 + d) * 2 ^ 23 + (s - 2 ^ 23) = unat w"
    using f32_split(2)[OF assms(1)] e(1) by (simp add: s_def)
  finally show ?thesis by simp
qed

lemma weight_back_one: "WeightFromComplement (WeightComplement nanw 0x3F800000) = 0x3F800000"
proof -
  have "WeightComplement nanw 0x3F800000 = PutUint32 0"
    by (simp add: WeightComplement_def f32_ge1_def f32_nan_def f32_neg_def f32_exp_def f32_frac_def)
  moreover have "top_bit 4294967295 = 31" by (rule top_bit_eq) simp_all
  ultimately show ?thesis
    by (simp add: WeightFromComplement_def f32_of_u32_def round_even_def Let_def)
qed

text \<open>The keys of associations keep the weights.  For weights that are not negative the keys of
  one engram sort from the strongest association to the weakest; every weight between \<open>2 ^ -9\<close> and
  1 is read back from its key bit for bit, so that different weights there have different keys.\<close>

theorem association_weights_kept:
  assumes "a \<le> b" "b \<le> 0x7F800000"
  shows "(AssocFwdKey nanw ws src b dst < AssocFwdKey nanw ws src a dst' \<or>
      WeightComplement nanw a = WeightComplement nanw b) \<and>
    (0x3B000000 \<le> a \<and> a \<le> 0x3F800000 \<longrightarrow> WeightFromComplement (WeightComplement nanw a) = a)"
proof -
  have pos: "\<not> f32_neg w \<and> \<not> f32_nan w" if w: "w \<le> 0x7F800000" for w
  proof -
    have u: "unat w \<le> 0x7F800000" using w by (simp add: word_le_nat_alt)
    then have n: "\<not> f32_neg w" by (simp add: f32_neg_def)
    moreover have "f32_frac w = 0" if "f32_exp w = 255" using u f32_split(2)[OF n] that by simp
    ultimately show ?thesis by (auto simp: f32_nan_def)
  qed
  have a: "a \<le> 0x7F800000" using assms by (rule order_trans)
  have "WeightComplement nanw b \<le> WeightComplement nanw a"
    using pos[OF a] pos[OF assms(2)] assms(1) by (intro WeightComplement_le) auto
  moreover have "WeightComplement nanw b @ dst < WeightComplement nanw a @ dst'"
    if "WeightComplement nanw b < WeightComplement nanw a"
  proof -
    have "length (WeightComplement nanw b) = length (WeightComplement nanw a)"
      by (simp add: WeightComplement_def Let_def)
    from this that show ?thesis by (rule append_less)
  qed
  ultimately have "AssocFwdKey nanw ws src b dst < AssocFwdKey nanw ws src a dst' \<or>
      WeightComplement nanw a = WeightComplement nanw b"
    by (auto simp: AssocFwdKey_def)
  moreover have "WeightFromComplement (WeightComplement nanw a) = a" if r: "0x3B000000 \<le> a" "a \<le> 0x3F800000"
  proof (cases "a = 0x3F800000")
    case True
    then show ?thesis by (simp add: weight_back_one)
  next
    case False
    have u: "0x3B000000 \<le> unat a" "unat a < 0x3F800000"
      using r False by (simp_all add: word_le_nat_alt word_unat_eq_iff order_le_less)
    have n: "\<not> f32_neg a" using pos[OF a] by blast
    have "118 \<le> f32_exp a" using u f32_split(2,3)[OF n] by auto
    moreover have "f32_exp a \<le> 126" using u f32_split(2,3)[OF n] by auto
    ultimately show ?thesis by (rule weight_back[OF n])
  qed
  ultimately show ?thesis by blast
qed

lemma association_weights_kept_witness:
  "WeightFromComplement (WeightComplement (\<lambda>w. 0) 0x3F000000) = 0x3F000000"
  using association_weights_kept[of "0x3F000000" "0x3F400000"] by simp

end
