(* ===== verification/Snapshot.thy ===== *)
theory Snapshot
  imports Epoch_Store
begin

text \<open>
  Snapshot transfer (\<open>internal/replication/snapshot.go\<close>): the sender iterates a storage-engine
  snapshot and cuts it into chunks, the receiver wipes its store and writes the chunks in
  batches.  The wire is the list of frames the receiver reads, each already decoded; a list
  that ends early stands for a connection that fails there.  \<open>pb_commit\<close> stands for a commit
  with and without \<open>Sync\<close> alike.  The rate limiter and the deadlines only delay the transfer.
\<close>

section \<open>Sending\<close>

definition defaultChunkSize :: nat where "defaultChunkSize = 1048576"
definition maxBatchSize :: nat where "maxBatchSize = 10 * 1024 * 1024"
definition snapCompleteKey :: bytes where "snapCompleteKey = metaKey ''snap_complete''"

type_synonym KVPair = "bytes \<times> bytes"

record SnapChunk =
  sc_ChunkNum :: u32
  sc_LastChunk :: bool
  sc_Pairs :: "KVPair list"

datatype snap_frame = SnapHeader u64 nat | SnapChunkFrame SnapChunk | SnapComplete | SnapOther u8

datatype snap_error =
    ErrSnapshotInProgress
  | SnapDb db_error
  | SnapRead
  | SnapUnexpected

record SnapshotSender =
  ss_sending :: bool

definition Send_begin :: "SnapshotSender \<Rightarrow> snap_error + SnapshotSender" where
  "Send_begin s = (if ss_sending s then Inl ErrSnapshotInProgress else Inr (s\<lparr>ss_sending := True\<rparr>))"

definition skipFromSnapshot :: "bytes \<Rightarrow> bool" where
  "skipFromSnapshot k = snd (entrySeqFromKey k)"

definition countKeys :: "KVPair list \<Rightarrow> nat" where
  "countKeys kvs = length (filter (\<lambda>(k, v). \<not> skipFromSnapshot k) kvs)"

fun streamChunks :: "u32 \<Rightarrow> KVPair list \<Rightarrow> nat \<Rightarrow> KVPair list \<Rightarrow> SnapChunk list" where
  "streamChunks idx pairs sz [] = [\<lparr>sc_ChunkNum = idx, sc_LastChunk = True, sc_Pairs = pairs\<rparr>]"
| "streamChunks idx pairs sz ((k, v) # kvs) =
     (if skipFromSnapshot k then streamChunks idx pairs sz kvs
      else let pairs' = pairs @ [(k, v)]; sz' = sz + length k + length v
        in if sz' \<ge> defaultChunkSize then
             \<lparr>sc_ChunkNum = idx, sc_LastChunk = False, sc_Pairs = pairs'\<rparr> #
               streamChunks (idx + 1) [] 0 kvs
           else streamChunks idx pairs' sz' kvs)"

definition Snapshot_Send :: "'db pebble \<Rightarrow> u64 \<Rightarrow> 'db \<Rightarrow> snap_error + snap_frame list" where
  "Snapshot_Send pb snapshotSeq db =
     (case pb_iter pb db [] None of
        Inl e \<Rightarrow> Inl (SnapDb e)
      | Inr kvs \<Rightarrow>
          Inr (SnapHeader snapshotSeq (countKeys kvs) #
               map SnapChunkFrame (streamChunks 0 [] 0 kvs) @ [SnapComplete]))"

section \<open>Receiving\<close>

text \<open>A method that fails half way has written what it had committed so far: it returns the
  store and the error.\<close>

fun wipe_loop :: "'db pebble \<Rightarrow> batch_op list \<Rightarrow> nat \<Rightarrow> bytes list \<Rightarrow> 'db \<Rightarrow> 'db \<times> snap_error option" where
  "wipe_loop pb batch sz [] db =
     (case pb_commit pb db batch of Inl e \<Rightarrow> (db, Some (SnapDb e)) | Inr db' \<Rightarrow> (db', None))"
| "wipe_loop pb batch sz (k # ks) db =
     (if k = clusterEpochKey then wipe_loop pb batch sz ks db
      else let batch' = batch @ [BDelete k]; sz' = sz + length k
        in if sz' \<ge> maxBatchSize then
             (case pb_commit pb db batch' of
                Inl e \<Rightarrow> (db, Some (SnapDb e))
              | Inr db' \<Rightarrow> wipe_loop pb [] 0 ks db')
           else wipe_loop pb batch' sz' ks db)"

definition WipeForResnapshot :: "'db pebble \<Rightarrow> 'db \<Rightarrow> 'db \<times> snap_error option" where
  "WipeForResnapshot pb db =
     (case pb_iter pb db [] None of
        Inl e \<Rightarrow> (db, Some (SnapDb e))
      | Inr kvs \<Rightarrow> wipe_loop pb [] 0 (map fst kvs) db)"

fun apply_pairs :: "'db pebble \<Rightarrow> batch_op list \<Rightarrow> batch_op list \<Rightarrow> nat \<Rightarrow> KVPair list \<Rightarrow> 'db \<Rightarrow>
    'db \<times> snap_error option" where
  "apply_pairs pb sentinel batch sz [] db =
     (case pb_commit pb db (batch @ sentinel) of
        Inl e \<Rightarrow> (db, Some (SnapDb e)) | Inr db' \<Rightarrow> (db', None))"
| "apply_pairs pb sentinel batch sz ((k, v) # kvs) db =
     (let batch' = batch @ [BSet k v]; sz' = sz + length k + length v
      in if sz' \<ge> maxBatchSize then
           (case pb_commit pb db batch' of
              Inl e \<Rightarrow> (db, Some (SnapDb e))
            | Inr db' \<Rightarrow> apply_pairs pb sentinel [] 0 kvs db')
         else apply_pairs pb sentinel batch' sz' kvs db)"

definition applyChunk :: "'db pebble \<Rightarrow> u64 \<Rightarrow> KVPair list \<Rightarrow> bool \<Rightarrow> 'db \<Rightarrow> 'db \<times> snap_error option" where
  "applyChunk pb snapshotSeq pairs final db =
     apply_pairs pb (if final then [BSet snapCompleteKey (PutUint64 snapshotSeq)] else [])
       [] 0 pairs db"

fun recv_chunks :: "'db pebble \<Rightarrow> u64 \<Rightarrow> snap_frame list \<Rightarrow> 'db \<Rightarrow> 'db \<times> (snap_error + u64)" where
  "recv_chunks pb s [] db = (db, Inl SnapRead)"
| "recv_chunks pb s (f # fs) db =
     (case f of
        SnapComplete \<Rightarrow> (db, Inr s)
      | SnapChunkFrame ch \<Rightarrow>
          (case applyChunk pb s (sc_Pairs ch) (sc_LastChunk ch) db of
             (db', Some e) \<Rightarrow> (db', Inl e)
           | (db', None) \<Rightarrow> recv_chunks pb s fs db')
      | _ \<Rightarrow> (db, Inl SnapUnexpected))"

definition Receive :: "'db pebble \<Rightarrow> snap_frame list \<Rightarrow> 'db \<Rightarrow> 'db \<times> (snap_error + u64)" where
  "Receive pb frames db =
     (case WipeForResnapshot pb db of
        (db1, Some e) \<Rightarrow> (db1, Inl e)
      | (db1, None) \<Rightarrow>
          (case frames of
             [] \<Rightarrow> (db1, Inl SnapRead)
           | SnapHeader s n # fs \<Rightarrow> recv_chunks pb s fs db1
           | _ \<Rightarrow> (db1, Inl SnapUnexpected)))"

definition IsSnapshotComplete :: "'db pebble \<Rightarrow> 'db \<Rightarrow> bool" where
  "IsSnapshotComplete pb db = (case pb_get pb db snapCompleteKey of Found v \<Rightarrow> True | _ \<Rightarrow> False)"

end
