(* ===== verification/Snapshot_Props.thy ===== *)
theory Snapshot_Props
  imports Snapshot
begin

text \<open>
  What a snapshot transfer does to the receiving node: a completed transfer leaves exactly the
  sender's data without its log, whatever the batching and chunking; one that breaks off leaves
  an error, but may already have replaced the fencing state the node is meant to keep.
\<close>

section \<open>Chunks and batches\<close>

lemma streamChunks_pairs:
  "concat (map sc_Pairs (streamChunks idx ps sz kvs)) = ps @ filter (\<lambda>(k, v). \<not> skipFromSnapshot k) kvs"
  by (induction idx ps sz kvs rule: streamChunks.induct) (auto simp: Let_def)

lemma streamChunks_shape:
  "\<exists>cs c. streamChunks idx ps sz kvs = cs @ [c] \<and> list_all (\<lambda>x. \<not> sc_LastChunk x) cs \<and> sc_LastChunk c"
proof (induction idx ps sz kvs rule: streamChunks.induct)
  case (2 idx pairs sz k v kvs)
  show ?case
  proof (cases "skipFromSnapshot k")
    case True
    with 2(1) show ?thesis by simp
  next
    case skip: False
    show ?thesis
    proof (cases "defaultChunkSize \<le> sz + length k + length v")
      case True
      with 2(2)[OF skip refl refl] obtain cs c where
        "streamChunks (idx + 1) [] 0 kvs = cs @ [c]" "list_all (\<lambda>x. \<not> sc_LastChunk x) cs" "sc_LastChunk c"
        by auto
      with skip True show ?thesis
        by (intro exI[of _ "\<lparr>sc_ChunkNum = idx, sc_LastChunk = False, sc_Pairs = pairs @ [(k, v)]\<rparr> # cs"]
            exI[of _ c]) simp
    next
      case False
      with 2(3)[OF skip refl refl] skip show ?thesis by simp
    qed
  qed
qed simp

definition sets :: "KVPair list \<Rightarrow> batch_op list" where
  "sets kvs = map (\<lambda>(k, v). BSet k v) kvs"

lemma sets_simps [simp]: "sets [] = []" "sets ((k, v) # kvs) = BSet k v # sets kvs"
  "sets (kvs @ kvs') = sets kvs @ sets kvs'"
  by (simp_all add: sets_def)

lemma apply_batch_append [simp]: "apply_batch (xs @ ys) m = apply_batch ys (apply_batch xs m)"
  by (simp add: apply_batch_def)

lemma apply_sets: "distinct (map fst kvs) \<Longrightarrow> apply_batch (sets kvs) m = m ++ map_of kvs"
proof (induction kvs arbitrary: m)
  case (Cons kv kvs)
  obtain k v where kv: "kv = (k, v)" by (cases kv)
  with Cons.prems have "k \<notin> dom (map_of kvs)" by (simp add: dom_map_of_conv_image_fst)
  then have step: "m(k \<mapsto> v) ++ map_of kvs = m ++ map_of ((k, v) # kvs)"
    by (auto simp: fun_eq_iff map_add_def domIff split: option.split)
  have "apply_batch (sets kvs) (m(k \<mapsto> v)) = m(k \<mapsto> v) ++ map_of kvs"
    by (rule Cons.IH) (use Cons.prems in simp)
  then show ?case unfolding kv step sets_simps apply_batch_simps apply_op.simps .
qed simp

lemma apply_pairs_effect:
  assumes "pebble_spec pb view"
  shows "apply_pairs pb sentinel batch sz kvs db = (db', None) \<Longrightarrow>
    view db' = apply_batch (batch @ sets kvs @ sentinel) (view db)"
proof (induction kvs arbitrary: batch sz db)
  case Nil
  then show ?case using spec_commit[OF assms, of db "batch @ sentinel"] by (auto split: sum.splits)
next
  case (Cons kv kvs)
  obtain k v where kv: "kv = (k, v)" by (cases kv)
  have c: "view d = apply_batch (batch @ [BSet k v]) (view db)"
    if "pb_commit pb db (batch @ [BSet k v]) = Inr d" for d
    using spec_commit[OF assms that] .
  from Cons.prems kv Cons.IH c show ?case
    by (fastforce simp: Let_def split: sum.splits if_splits)
qed

lemma apply_pairs_reliable:
  assumes "pebble_reliable pb"
  shows "\<exists>db'. apply_pairs pb sentinel batch sz kvs db = (db', None)"
proof (induction kvs arbitrary: batch sz db)
  case Nil
  then show ?case using reliable_commit[OF assms, of db "batch @ sentinel"] by auto
next
  case (Cons kv kvs)
  obtain k v where kv: "kv = (k, v)" by (cases kv)
  obtain d where "pb_commit pb db (batch @ [BSet k v]) = Inr d"
    using reliable_commit[OF assms] by blast
  with Cons.IH[of "[]" 0 d] Cons.IH[of "batch @ [BSet k v]" "sz + length k + length v" db] kv
  show ?case by (simp add: Let_def)
qed

lemma wipe_loop_effect:
  assumes "pebble_spec pb view"
  shows "wipe_loop pb (map BDelete ds) sz ks db = (db', None) \<Longrightarrow>
    view db' = (\<lambda>k. if k \<in> set ds \<or> k \<in> set ks \<and> k \<noteq> clusterEpochKey then None else view db k)"
proof (induction ks arbitrary: ds sz db)
  case Nil
  have "apply_batch (map BDelete ds) m = (\<lambda>k. if k \<in> set ds then None else m k)" for m :: "bytes \<rightharpoonup> bytes"
    by (induction ds arbitrary: m) auto
  with Nil spec_commit[OF assms, of db "map BDelete ds"] show ?case by (auto split: sum.splits)
next
  case (Cons k ks)
  have del: "apply_batch (map BDelete ds) m = (\<lambda>k. if k \<in> set ds then None else m k)"
    for m :: "bytes \<rightharpoonup> bytes" and ds by (induction ds arbitrary: m) auto
  show ?case
  proof (cases "k = clusterEpochKey")
    case True
    with Cons.prems Cons.IH[of ds sz db] show ?thesis by (auto simp: fun_eq_iff)
  next
    case ne: False
    let ?ds = "ds @ [k]"
    show ?thesis
    proof (cases "sz + length k \<ge> maxBatchSize")
      case False
      with ne Cons.prems Cons.IH[of ?ds "sz + length k" db] show ?thesis by (auto simp: Let_def fun_eq_iff)
    next
      case True
      with ne Cons.prems obtain d where d: "pb_commit pb db (map BDelete ?ds) = Inr d"
        and w: "wipe_loop pb [] 0 ks d = (db', None)"
        by (auto simp: Let_def split: sum.splits)
      show ?thesis
        using Cons.IH[of "[]" 0 d] w spec_commit[OF assms d] ne by (auto simp: del fun_eq_iff)
    qed
  qed
qed

lemma wipe_loop_reliable:
  assumes "pebble_reliable pb"
  shows "\<exists>db'. wipe_loop pb batch sz ks db = (db', None)"
proof (induction ks arbitrary: batch sz db)
  case Nil
  then show ?case using reliable_commit[OF assms, of db batch] by auto
next
  case (Cons k ks)
  obtain d where "pb_commit pb db (batch @ [BDelete k]) = Inr d"
    using reliable_commit[OF assms] by blast
  with Cons.IH[of "[]" 0 d] Cons.IH[of "batch @ [BDelete k]" "sz + length k" db] Cons.IH[of batch sz db]
  show ?case by (simp add: Let_def)
qed

text \<open>The wipe keeps the epoch record and nothing else.\<close>

lemma wipe_exact:
  assumes "pebble_spec pb view" "WipeForResnapshot pb db = (db', None)"
  shows "view db' = (\<lambda>k. if k = clusterEpochKey then view db k else None)"
proof -
  obtain kvs where it: "pb_iter pb db [] None = Inr kvs"
    and w: "wipe_loop pb [] 0 (map fst kvs) db = (db', None)"
    using assms(2) by (auto simp: WipeForResnapshot_def split: sum.splits)
  have all: "k \<in> fst ` set kvs" if "view db k \<noteq> None" for k
    using spec_iter[OF assms(1) it] that by (force simp: iter_ok_def)
  show ?thesis
    using wipe_loop_effect[OF assms(1), of "[]" 0 "map fst kvs" db db'] w all
    by (force simp: fun_eq_iff)
qed

lemma wipe_reliable: "pebble_reliable pb \<Longrightarrow> \<exists>db'. WipeForResnapshot pb db = (db', None)"
  using wipe_loop_reliable[of pb] by (auto simp: WipeForResnapshot_def pebble_reliable_def split: sum.split)

section \<open>Receiving a complete stream of chunks\<close>

lemma recv_chunks_data:
  assumes "pebble_spec pb view"
  shows "list_all (\<lambda>x. \<not> sc_LastChunk x) cs \<Longrightarrow> sc_LastChunk c \<Longrightarrow>
    recv_chunks pb s (map SnapChunkFrame (cs @ [c]) @ [SnapComplete]) db = (db', Inr s') \<Longrightarrow>
    s' = s \<and> view db' = (apply_batch (sets (concat (map sc_Pairs (cs @ [c])))) (view db))
      (snapCompleteKey \<mapsto> PutUint64 s)"
proof (induction cs arbitrary: db)
  case Nil
  then show ?case using apply_pairs_effect[OF assms]
    by (auto simp: applyChunk_def split: prod.splits option.splits)
next
  case (Cons x cs)
  then obtain d where d: "apply_pairs pb [] [] 0 (sc_Pairs x) db = (d, None)"
    and r: "recv_chunks pb s (map SnapChunkFrame (cs @ [c]) @ [SnapComplete]) d = (db', Inr s')"
    by (auto simp: applyChunk_def split: prod.splits option.splits)
  have "view d = apply_batch (sets (sc_Pairs x)) (view db)"
    using apply_pairs_effect[OF assms d] by simp
  with Cons.IH[OF _ _ r] Cons.prems show ?case by simp
qed

lemma recv_chunks_reliable:
  assumes "pebble_reliable pb"
  shows "\<exists>db'. recv_chunks pb s (map SnapChunkFrame cs @ [SnapComplete]) db = (db', Inr s)"
proof (induction cs arbitrary: db)
  case (Cons c cs)
  obtain d where "applyChunk pb s (sc_Pairs c) (sc_LastChunk c) db = (d, None)"
    using apply_pairs_reliable[OF assms] unfolding applyChunk_def by blast
  with Cons.IH[of d] show ?case by simp
qed simp

section \<open>The transfer\<close>

text \<open>What the receiver holds after a transfer: the sender's data except its log entries, the
  sentinel, and its own epoch record if the sender has none.\<close>

definition after_snapshot :: "u64 \<Rightarrow> (bytes \<rightharpoonup> bytes) \<Rightarrow> (bytes \<rightharpoonup> bytes) \<Rightarrow> bytes \<rightharpoonup> bytes" where
  "after_snapshot s sender receiver k =
     (if k = snapCompleteKey then Some (PutUint64 s)
      else case (if skipFromSnapshot k then None else sender k) of
             Some v \<Rightarrow> Some v
           | None \<Rightarrow> if k = clusterEpochKey then receiver k else None)"

lemma shipped_pairs:
  assumes "iter_ok m [] None kvs"
  shows "distinct (map fst (filter (\<lambda>(k, v). \<not> skipFromSnapshot k) kvs))"
    and "map_of (filter (\<lambda>(k, v). \<not> skipFromSnapshot k) kvs) k = (if skipFromSnapshot k then None else m k)"
proof -
  let ?ps = "filter (\<lambda>(k, v). \<not> skipFromSnapshot k) kvs"
  show d: "distinct (map fst ?ps)"
    using iter_ok_distinct[OF assms] by (simp add: distinct_map_filter)
  have mem: "(k, v) \<in> set ?ps \<longleftrightarrow> \<not> skipFromSnapshot k \<and> m k = Some v" for k v
    using assms by (auto simp: iter_ok_def)
  show "map_of ?ps k = (if skipFromSnapshot k then None else m k)"
  proof (cases "map_of ?ps k")
    case None
    then have "(k, v) \<notin> set ?ps" for v by (metis weak_map_of_SomeI option.distinct(1))
    with None mem show ?thesis by (cases "m k") auto
  next
    case (Some v)
    then have "(k, v) \<in> set ?ps" by (rule map_of_SomeD)
    with mem Some show ?thesis by auto
  qed
qed

lemma Receive_complete:
  assumes spec: "pebble_spec pb view" and send: "Snapshot_Send pb s dbS = Inr frames"
    and recv: "Receive pb frames dbR = (db', Inr s')"
  shows "s' = s \<and> view db' = after_snapshot s (view dbS) (view dbR)"
proof -
  obtain kvs where it: "pb_iter pb dbS [] None = Inr kvs"
    and fr: "frames = SnapHeader s (countKeys kvs) # map SnapChunkFrame (streamChunks 0 [] 0 kvs) @ [SnapComplete]"
    using send by (auto simp: Snapshot_Send_def split: sum.splits)
  let ?ps = "filter (\<lambda>(k, v). \<not> skipFromSnapshot k) kvs"
  obtain cs c where ch: "streamChunks 0 [] 0 kvs = cs @ [c]" "list_all (\<lambda>x. \<not> sc_LastChunk x) cs" "sc_LastChunk c"
    using streamChunks_shape[of 0 "[]" 0 kvs] by blast
  have ps: "concat (map sc_Pairs (cs @ [c])) = ?ps"
    using streamChunks_pairs[of 0 "[]" 0 kvs] by (simp add: ch(1))
  from recv fr obtain d where w: "WipeForResnapshot pb dbR = (d, None)"
    and r: "recv_chunks pb s (map SnapChunkFrame (cs @ [c]) @ [SnapComplete]) d = (db', Inr s')"
    by (auto simp: Receive_def ch(1) split: prod.splits option.splits)
  note pairs = shipped_pairs[OF spec_iter[OF spec it]]
  have "s' = s \<and> view db' = (view d ++ map_of ?ps)(snapCompleteKey \<mapsto> PutUint64 s)"
    using recv_chunks_data[OF spec ch(2,3) r] unfolding ps apply_sets[OF pairs(1)] .
  then show ?thesis
    unfolding wipe_exact[OF spec w]
    by (auto simp: fun_eq_iff after_snapshot_def map_add_def pairs(2) split: option.split)
qed

lemma Receive_reliable:
  assumes "pebble_reliable pb" "Snapshot_Send pb s dbS = Inr frames"
  shows "\<exists>db'. Receive pb frames dbR = (db', Inr s)"
proof -
  obtain kvs where fr: "frames = SnapHeader s (countKeys kvs) # map SnapChunkFrame (streamChunks 0 [] 0 kvs) @ [SnapComplete]"
    using assms(2) by (auto simp: Snapshot_Send_def split: sum.splits)
  obtain d where "WipeForResnapshot pb dbR = (d, None)" using wipe_reliable[OF assms(1)] by blast
  with recv_chunks_reliable[OF assms(1), of s "streamChunks 0 [] 0 kvs" d] fr show ?thesis
    by (simp add: Receive_def)
qed

lemma Snapshot_Send_reliable:
  assumes "pebble_reliable pb"
  shows "\<exists>frames. Snapshot_Send pb s db = Inr frames"
proof -
  obtain kvs where "pb_iter pb db [] None = Inr kvs"
    using assms unfolding pebble_reliable_def by (metis obj_sumE)
  then show ?thesis by (simp add: Snapshot_Send_def)
qed

lemma meta_shipped [simp]: "\<not> skipFromSnapshot (metaKey name)" "skipFromSnapshot (replicationEntryKey q)"
  using entry_key.dec_enc by (auto simp: skipFromSnapshot_def entrySeqFromKey_def metaKey_def prefix_defs)

section \<open>A transfer that breaks off\<close>

lemma applyChunk_effect:
  assumes "pebble_spec pb view" "pebble_reliable pb"
  obtains d where "applyChunk pb s ps final db = (d, None)"
    and "view d = (if final then (apply_batch (sets ps) (view db))(snapCompleteKey \<mapsto> PutUint64 s)
                   else apply_batch (sets ps) (view db))"
proof -
  obtain d where d: "applyChunk pb s ps final db = (d, None)"
    using apply_pairs_reliable[OF assms(2)] unfolding applyChunk_def by blast
  with apply_pairs_effect[OF assms(1)] have "view d = apply_batch ([] @ sets ps @
      (if final then [BSet snapCompleteKey (PutUint64 s)] else [])) (view db)"
    unfolding applyChunk_def by blast
  with d that show ?thesis by simp
qed

lemma recv_chunks_prefix:
  assumes "pebble_spec pb view" "pebble_reliable pb" "list_all (\<lambda>x. \<not> sc_LastChunk x) cs"
  obtains d where "recv_chunks pb s (map SnapChunkFrame cs @ fs) db = recv_chunks pb s fs d"
    and "view d = apply_batch (sets (concat (map sc_Pairs cs))) (view db)"
  using assms(3)
proof (induction cs arbitrary: db thesis)
  case Nil
  then show ?case by simp
next
  case (Cons c cs)
  obtain d where d: "applyChunk pb s (sc_Pairs c) (sc_LastChunk c) db = (d, None)"
    "view d = apply_batch (sets (sc_Pairs c)) (view db)"
    using applyChunk_effect[OF assms(1,2), of s "sc_Pairs c" "sc_LastChunk c" db] Cons.prems(2)
    by (auto split: if_splits)
  obtain d' where "recv_chunks pb s (map SnapChunkFrame cs @ fs) d = recv_chunks pb s fs d'"
    "view d' = apply_batch (sets (concat (map sc_Pairs cs))) (view d)"
    using Cons.IH Cons.prems(2) by auto
  with d Cons.prems(1) show ?case by simp
qed

text \<open>Every chunk has arrived, the closing frame has not.\<close>

lemma Receive_unfinished:
  assumes spec: "pebble_spec pb view" "pebble_reliable pb" and send: "Snapshot_Send pb s dbS = Inr frames"
  obtains db' where "Receive pb (butlast frames) dbR = (db', Inl SnapRead)"
    and "view db' = after_snapshot s (view dbS) (view dbR)"
proof -
  obtain kvs where it: "pb_iter pb dbS [] None = Inr kvs"
    and fr: "frames = SnapHeader s (countKeys kvs) # map SnapChunkFrame (streamChunks 0 [] 0 kvs) @ [SnapComplete]"
    using send by (auto simp: Snapshot_Send_def split: sum.splits)
  let ?ps = "filter (\<lambda>(k, v). \<not> skipFromSnapshot k) kvs"
  obtain cs c where ch: "streamChunks 0 [] 0 kvs = cs @ [c]" "list_all (\<lambda>x. \<not> sc_LastChunk x) cs" "sc_LastChunk c"
    using streamChunks_shape[of 0 "[]" 0 kvs] by blast
  have ps: "sets (concat (map sc_Pairs cs)) @ sets (sc_Pairs c) = sets ?ps"
    using streamChunks_pairs[of 0 "[]" 0 kvs] by (simp add: ch(1) flip: sets_simps(3))
  obtain d where w: "WipeForResnapshot pb dbR = (d, None)" using wipe_reliable[OF spec(2)] by blast
  obtain d1 where r: "recv_chunks pb s (map SnapChunkFrame cs @ [SnapChunkFrame c]) d =
      recv_chunks pb s [SnapChunkFrame c] d1" "view d1 = apply_batch (sets (concat (map sc_Pairs cs))) (view d)"
    using recv_chunks_prefix[OF spec ch(2)] by blast
  obtain d2 where d2: "applyChunk pb s (sc_Pairs c) True d1 = (d2, None)"
    "view d2 = (apply_batch (sets (sc_Pairs c)) (view d1))(snapCompleteKey \<mapsto> PutUint64 s)"
    using applyChunk_effect[OF spec, of s "sc_Pairs c" True d1] by auto
  have bl: "butlast frames = SnapHeader s (countKeys kvs) # map SnapChunkFrame cs @ [SnapChunkFrame c]"
    unfolding fr ch(1) by (simp add: butlast_append)
  have 1: "Receive pb (butlast frames) dbR = (d2, Inl SnapRead)"
    using w r(1) d2(1) ch(3) by (simp add: Receive_def bl)
  note pairs = shipped_pairs[OF spec_iter[OF spec(1) it]]
  have "view d2 = (view d ++ map_of ?ps)(snapCompleteKey \<mapsto> PutUint64 s)"
    unfolding d2(2) r(2) apply_batch_append[symmetric] ps apply_sets[OF pairs(1)] ..
  then have "view d2 = after_snapshot s (view dbS) (view dbR)"
    unfolding wipe_exact[OF spec(1) w]
    by (auto simp: fun_eq_iff after_snapshot_def map_add_def pairs(2) split: option.split)
  with 1 that show ?thesis by blast
qed

lemma recv_chunks_cut: "\<exists>e. snd (recv_chunks pb s (map SnapChunkFrame cs) db) = Inl e"
proof (induction cs arbitrary: db)
  case (Cons c cs)
  then show ?case by (auto split: prod.split option.split)
qed simp

lemma Receive_cut:
  assumes "Snapshot_Send pb s dbS = Inr frames" "n < length frames"
  shows "\<exists>e. snd (Receive pb (take n frames) dbR) = Inl e"
proof -
  obtain hd cs where fr: "frames = SnapHeader s hd # map SnapChunkFrame cs @ [SnapComplete]"
    using assms(1) by (auto simp: Snapshot_Send_def split: sum.splits)
  show ?thesis
  proof (cases n)
    case 0
    then show ?thesis by (auto simp: Receive_def split: prod.split option.split)
  next
    case (Suc k)
    with assms(2) have "take n frames = SnapHeader s hd # map SnapChunkFrame (take k cs)"
      by (simp add: fr take_map)
    with recv_chunks_cut[of pb s "take k cs"] show ?thesis
      by (auto simp: Receive_def split: prod.split option.split)
  qed
qed

end
