(* ===== verification/Conn_Manager.thy ===== *)
theory Conn_Manager
  imports Replication_Types "HOL-Library.AList"
begin

text \<open>
  The connections of a cluster node: \<open>internal/replication/conn_manager.go\<close> and the state of a
  \<open>PeerConn\<close> (\<open>peer_conn.go\<close>).  A \<open>net.Conn\<close> is an identity, a number; a \<open>PeerConn\<close> is a pointer
  in the code, so its record carries the number of its allocation as identity.  Closing a
  connection is recorded in the manager's list of closed connections.  The peers are an
  association list with distinct keys, whose order stands for Go's iteration order.
\<close>

section \<open>Peer connections\<close>

datatype connKind = kindSeed | kindJoin | kindHello

record PeerConn =
  pc_nodeID :: node_id
  pc_addr :: string
  pc_conn :: "nat option"
  pc_kind :: connKind
  pc_closed :: bool
  pc_ref :: nat

definition NewPeerConn :: "nat \<Rightarrow> node_id \<Rightarrow> string \<Rightarrow> PeerConn" where
  "NewPeerConn ref n addr = \<lparr>pc_nodeID = n, pc_addr = addr, pc_conn = None, pc_kind = kindSeed,
     pc_closed = False, pc_ref = ref\<rparr>"

definition NewPeerConnFromConn :: "nat \<Rightarrow> node_id \<Rightarrow> string \<Rightarrow> nat \<Rightarrow> PeerConn" where
  "NewPeerConnFromConn ref n addr conn = \<lparr>pc_nodeID = n, pc_addr = addr, pc_conn = Some conn,
     pc_kind = kindSeed, pc_closed = False, pc_ref = ref\<rparr>"

definition IsConnected :: "PeerConn \<Rightarrow> bool" where
  "IsConnected p \<longleftrightarrow> pc_conn p \<noteq> None \<and> \<not> pc_closed p"

definition Is :: "PeerConn \<Rightarrow> nat \<Rightarrow> bool" where
  "Is p conn \<longleftrightarrow> pc_conn p = Some conn"

text \<open>Closing returns the connection that it closed, if any.\<close>

definition PeerConn_Close :: "PeerConn \<Rightarrow> PeerConn \<times> nat list" where
  "PeerConn_Close p =
     (if pc_closed p then (p, [])
      else (p\<lparr>pc_closed := True, pc_conn := None\<rparr>,
            (case pc_conn p of None \<Rightarrow> [] | Some conn \<Rightarrow> [conn])))"

section \<open>The manager\<close>

record ConnManager =
  cm_localNodeID :: node_id
  cm_peers :: "(node_id \<times> PeerConn) list"
  cm_closedConns :: "nat list"
  cm_next :: nat

definition NewConnManager :: "node_id \<Rightarrow> ConnManager" where
  "NewConnManager n = \<lparr>cm_localNodeID = n, cm_peers = [], cm_closedConns = [], cm_next = 0\<rparr>"

definition GetPeer :: "ConnManager \<Rightarrow> node_id \<Rightarrow> PeerConn option" where
  "GetPeer m n = map_of (cm_peers m) n"

text \<open>The steps the methods share: closing what is registered under an id, putting a new
  \<open>PeerConn\<close> there, and closing the \<open>PeerConn\<close> of an id in place.\<close>

definition close_existing :: "node_id \<Rightarrow> ConnManager \<Rightarrow> ConnManager" where
  "close_existing n m =
     (case GetPeer m n of
        None \<Rightarrow> m
      | Some p \<Rightarrow> m\<lparr>cm_closedConns := snd (PeerConn_Close p) @ cm_closedConns m\<rparr>)"

definition put_peer :: "node_id \<Rightarrow> PeerConn \<Rightarrow> ConnManager \<Rightarrow> ConnManager" where
  "put_peer n p m = m\<lparr>cm_peers := AList.update n p (cm_peers m), cm_next := cm_next m + 1\<rparr>"

definition close_peer :: "node_id \<Rightarrow> PeerConn \<Rightarrow> ConnManager \<Rightarrow> ConnManager" where
  "close_peer n p m =
     m\<lparr>cm_peers := AList.update n (fst (PeerConn_Close p)) (cm_peers m),
       cm_closedConns := snd (PeerConn_Close p) @ cm_closedConns m\<rparr>"

definition AddConnPeer :: "node_id \<Rightarrow> string \<Rightarrow> ConnManager \<Rightarrow> ConnManager" where
  "AddConnPeer n addr m = put_peer n (NewPeerConn (cm_next m) n addr) (close_existing n m)"

definition EvictIfConn :: "node_id \<Rightarrow> nat \<Rightarrow> ConnManager \<Rightarrow> ConnManager \<times> bool" where
  "EvictIfConn n conn m =
     (case GetPeer m n of
        None \<Rightarrow> (m, False)
      | Some p \<Rightarrow> if \<not> Is p conn then (m, False) else (close_peer n p m, True))"

definition EvictPeerConn :: "node_id \<Rightarrow> nat \<Rightarrow> ConnManager \<Rightarrow> ConnManager \<times> bool" where
  "EvictPeerConn n ref m =
     (case GetPeer m n of
        None \<Rightarrow> (m, False)
      | Some p \<Rightarrow> if pc_ref p \<noteq> ref then (m, False) else (close_peer n p m, True))"

definition HasLivePeerAt :: "string \<Rightarrow> ConnManager \<Rightarrow> bool" where
  "HasLivePeerAt addr m \<longleftrightarrow>
     list_ex (\<lambda>(n, p). pc_addr p = addr \<and> pc_conn p \<noteq> None \<and> \<not> pc_closed p) (cm_peers m)"

definition UpdatePeerAddr :: "node_id \<Rightarrow> string \<Rightarrow> ConnManager \<Rightarrow> ConnManager" where
  "UpdatePeerAddr n addr m =
     (case GetPeer m n of
        Some p \<Rightarrow> m\<lparr>cm_peers := AList.update n (p\<lparr>pc_addr := addr\<rparr>) (cm_peers m)\<rparr>
      | None \<Rightarrow> put_peer n (NewPeerConn (cm_next m) n addr) m)"

definition RegisterConn :: "node_id \<Rightarrow> string \<Rightarrow> nat \<Rightarrow> ConnManager \<Rightarrow> ConnManager" where
  "RegisterConn n addr conn m =
     put_peer n ((NewPeerConnFromConn (cm_next m) n addr conn)\<lparr>pc_kind := kindJoin\<rparr>)
       (close_existing n m)"

definition RegisterConnKind ::
  "node_id \<Rightarrow> string \<Rightarrow> nat \<Rightarrow> connKind \<Rightarrow> bool \<Rightarrow> ConnManager \<Rightarrow> ConnManager \<times> bool" where
  "RegisterConnKind n addr conn kind canonical m =
     (let refuse = (case GetPeer m n of
          None \<Rightarrow> False
        | Some p \<Rightarrow> IsConnected p \<and>
            (pc_kind p = kindJoin \<and> kind \<noteq> kindJoin \<or> kind = kindHello \<and> \<not> canonical))
      in if refuse then (m, False)
         else (put_peer n ((NewPeerConnFromConn (cm_next m) n addr conn)\<lparr>pc_kind := kind\<rparr>)
                 (close_existing n m), True))"

definition RemoveConnPeer :: "node_id \<Rightarrow> ConnManager \<Rightarrow> ConnManager" where
  "RemoveConnPeer n m =
     (close_existing n m)\<lparr>cm_peers := AList.delete n (cm_peers m)\<rparr>"

text \<open>The peers a broadcast is sent to.\<close>

definition broadcast_targets :: "ConnManager \<Rightarrow> node_id list" where
  "broadcast_targets m = map fst (filter (\<lambda>(n, p). IsConnected p) (cm_peers m))"

definition CloseAll :: "ConnManager \<Rightarrow> ConnManager" where
  "CloseAll m = m\<lparr>cm_peers := [],
     cm_closedConns := concat (map (\<lambda>(n, p). snd (PeerConn_Close p)) (cm_peers m)) @ cm_closedConns m\<rparr>"

text \<open>A frame's write gives up on the connection: it is closed and the peer marked so, provided it
  still is the connection that was written to.\<close>

definition send_failed :: "node_id \<Rightarrow> nat \<Rightarrow> ConnManager \<Rightarrow> ConnManager" where
  "send_failed n conn m =
     (case GetPeer m n of
        None \<Rightarrow> m
      | Some p \<Rightarrow> if Is p conn then
           m\<lparr>cm_peers := AList.update n (p\<lparr>pc_conn := None, pc_closed := True\<rparr>) (cm_peers m),
             cm_closedConns := conn # cm_closedConns m\<rparr>
         else m)"

section \<open>Lemmas\<close>

named_theorems conn_simps \<open>effects of the connection manager's steps\<close>

lemma close_existing_sel [conn_simps]:
  "cm_peers (close_existing n m) = cm_peers m" "cm_next (close_existing n m) = cm_next m"
  "cm_localNodeID (close_existing n m) = cm_localNodeID m"
  by (simp_all add: close_existing_def split: option.split)

lemma GetPeer_put [conn_simps]: "GetPeer (put_peer n p m) k = (if k = n then Some p else GetPeer m k)"
  by (simp add: GetPeer_def put_peer_def update_conv')

lemma GetPeer_close_existing [conn_simps]: "GetPeer (close_existing n m) k = GetPeer m k"
  by (simp add: GetPeer_def close_existing_sel)

lemma GetPeer_close_peer [conn_simps]:
  "GetPeer (close_peer n p m) k = (if k = n then Some (fst (PeerConn_Close p)) else GetPeer m k)"
  by (simp add: GetPeer_def close_peer_def update_conv')

lemma Close_not_connected [simp]: "\<not> IsConnected (fst (PeerConn_Close p))"
  by (simp add: PeerConn_Close_def IsConnected_def)

lemma IsConnected_Is: "Is p conn \<Longrightarrow> \<not> pc_closed p \<Longrightarrow> IsConnected p"
  by (simp add: IsConnected_def Is_def)

lemma GetPeer_RegisterConn [conn_simps]:
  "GetPeer (RegisterConn n addr conn m) k =
     (if k = n then Some ((NewPeerConnFromConn (cm_next m) n addr conn)\<lparr>pc_kind := kindJoin\<rparr>)
      else GetPeer m k)"
  by (simp add: RegisterConn_def conn_simps)

lemma GetPeer_RemoveConnPeer [conn_simps]:
  "GetPeer (RemoveConnPeer n m) k = (if k = n then None else GetPeer m k)"
  by (simp add: GetPeer_def RemoveConnPeer_def delete_conv')

text \<open>Is the registered connection of a peer this one, and live?\<close>

definition live_conn :: "ConnManager \<Rightarrow> node_id \<Rightarrow> nat option" where
  "live_conn m n =
     (case GetPeer m n of None \<Rightarrow> None | Some p \<Rightarrow> if pc_closed p then None else pc_conn p)"

lemma live_conn_refused:
  "RegisterConnKind n addr conn kind canonical m = (m', False) \<Longrightarrow> m' = m \<and> live_conn m n \<noteq> None"
  by (auto simp: RegisterConnKind_def Let_def live_conn_def IsConnected_def split: if_splits option.splits)

lemma live_conn_adopted:
  "RegisterConnKind n addr conn kind canonical m = (m', True) \<Longrightarrow>
     live_conn m' k = (if k = n then Some conn else live_conn m k)"
  by (auto simp: RegisterConnKind_def Let_def live_conn_def NewPeerConnFromConn_def conn_simps
      split: if_splits option.splits)

lemma canonical_hello_adopted:
  assumes "\<And>p. GetPeer m n = Some p \<Longrightarrow> IsConnected p \<Longrightarrow> pc_kind p \<noteq> kindJoin"
  shows "\<exists>m'. RegisterConnKind n addr conn kindHello True m = (m', True)"
  using assms by (auto simp: RegisterConnKind_def Let_def split: option.split)

lemma noncanonical_hello_refused:
  assumes "live_conn m n \<noteq> None"
  shows "RegisterConnKind n addr conn kindHello False m = (m, False)"
  using assms by (auto simp: RegisterConnKind_def live_conn_def IsConnected_def split: option.splits if_splits)

end
