(* ===== verification/Join.thy ===== *)
theory Join
  imports Snapshot_Props Applier Conn_Manager
begin

text \<open>
  The join handshake (\<open>internal/replication/join.go\<close>): the handler on the Cortex, which decides
  whether a node may join, and the client on the Lobe, which reconciles its epoch and its
  cursor with the answer.  The keyed hash \<open>hmac key message\<close> (HMAC-SHA256) is a parameter; the
  texts of the reject reasons are constructors.  The result of the dial, the write and the
  read of the response is the argument \<open>resp\<close> of \<open>joinConn\<close>.

  The epoch store and the applier of a node share one database: \<open>joinConn\<close> hands the handle
  from the record it has just changed to the other one.
\<close>

section \<open>Messages\<close>

definition CurrentProtocolVersion :: u16 where "CurrentProtocolVersion = 2"
definition MinSupportedProtocolVersion :: u16 where "MinSupportedProtocolVersion = 0"

record NodeInfo =
  ni_NodeID :: node_id
  ni_Addr :: string
  ni_Role :: NodeRole
  ni_LastSeq :: u64

record JoinRequest =
  jq_NodeID :: node_id
  jq_Addr :: string
  jq_LastApplied :: u64
  jq_SecretHash :: bytes
  jq_Role :: u8
  jq_Probe :: bool
  jq_ProtocolVersion :: u16

datatype RejectReason =
    NoReject
  | EmptyNodeID
  | InvalidSecret
  | VersionUnsupported u16 u16
  | VersionTooOld u16 u16 u16
  | NotBootstrapped
  | NotCortex

record JoinResponse =
  jr_Accepted :: bool
  jr_CortexID :: node_id
  jr_CortexAddr :: string
  jr_Epoch :: u64
  jr_RejectReason :: RejectReason
  jr_NeedsSnapshot :: bool
  jr_SnapshotSeq :: u64
  jr_MinProtocolVersion :: u16
  jr_CurrentProtocolVersion :: u16

definition no_response :: JoinResponse where
  "no_response = \<lparr>jr_Accepted = False, jr_CortexID = '''', jr_CortexAddr = '''', jr_Epoch = 0,
     jr_RejectReason = NoReject, jr_NeedsSnapshot = False, jr_SnapshotSeq = 0,
     jr_MinProtocolVersion = 0, jr_CurrentProtocolVersion = 0\<rparr>"

section \<open>The handler\<close>

record JoinHandler =
  jh_localNodeID :: node_id
  jh_localAddr :: string
  jh_clusterSecret :: string
  jh_db :: bool
  jh_members :: "(node_id \<times> NodeInfo) list"

definition NewJoinHandler :: "node_id \<Rightarrow> string \<Rightarrow> JoinHandler" where
  "NewJoinHandler n secret = \<lparr>jh_localNodeID = n, jh_localAddr = '''', jh_clusterSecret = secret,
     jh_db = False, jh_members = []\<rparr>"

definition NewJoinHandlerWithDB :: "node_id \<Rightarrow> string \<Rightarrow> JoinHandler" where
  "NewJoinHandlerWithDB n secret = (NewJoinHandler n secret)\<lparr>jh_db := True\<rparr>"

definition ValidSecret ::
  "(bytes \<Rightarrow> bytes \<Rightarrow> bytes) \<Rightarrow> string \<Rightarrow> node_id \<Rightarrow> u8 \<Rightarrow> u16 \<Rightarrow> bytes \<Rightarrow> bool" where
  "ValidSecret hmac secret n role protoVer secretHash \<longleftrightarrow>
     secret = '''' \<or>
     secretHash = hmac (str_bytes secret) (str_bytes n @ (if protoVer \<ge> 2 then [role] else []))"

definition HandleJoinRequest ::
  "(bytes \<Rightarrow> bytes \<Rightarrow> bytes) \<Rightarrow> u64 \<Rightarrow> u64 \<Rightarrow> (bool \<times> node_id \<times> string) option \<Rightarrow>
     JoinRequest \<Rightarrow> JoinHandler \<Rightarrow> JoinHandler \<times> JoinResponse" where
  "HandleJoinRequest hmac currentEpoch currentSeq leaderInfo req h =
     (let reject = (\<lambda>r. no_response\<lparr>jr_RejectReason := r, jr_Epoch := currentEpoch,
                           jr_CortexID := jh_localNodeID h\<rparr>);
          version = (\<lambda>r. no_response\<lparr>jr_RejectReason := r,
                           jr_MinProtocolVersion := MinSupportedProtocolVersion,
                           jr_CurrentProtocolVersion := CurrentProtocolVersion\<rparr>);
          ver = jq_ProtocolVersion req
      in if jq_NodeID req = '''' then (h, reject EmptyNodeID)
         else if \<not> ValidSecret hmac (jh_clusterSecret h) (jq_NodeID req) (jq_Role req) ver
                     (jq_SecretHash req) then (h, reject InvalidSecret)
         else if ver > CurrentProtocolVersion then
           (h, version (VersionUnsupported ver CurrentProtocolVersion))
         else if ver < MinSupportedProtocolVersion then
           (h, version (VersionTooOld ver MinSupportedProtocolVersion CurrentProtocolVersion))
         else if currentEpoch = 0 then (h, reject NotBootstrapped)
         else case leaderInfo of
             Some (False, ldr, addr) \<Rightarrow>
               (h, no_response\<lparr>jr_RejectReason := NotCortex, jr_Epoch := currentEpoch,
                     jr_CortexID := ldr, jr_CortexAddr := addr\<rparr>)
           | _ \<Rightarrow>
               (let info = \<lparr>ni_NodeID = jq_NodeID req, ni_Addr = jq_Addr req,
                            ni_Role = RoleReplica, ni_LastSeq = jq_LastApplied req\<rparr>;
                    h' = h\<lparr>jh_members := AList.update (jq_NodeID req) info (jh_members h)\<rparr>;
                    resp = no_response\<lparr>jr_Accepted := True, jr_CortexID := jh_localNodeID h,
                             jr_CortexAddr := jh_localAddr h, jr_Epoch := currentEpoch\<rparr>
                in (h', if jh_db h then resp\<lparr>jr_NeedsSnapshot := True, jr_SnapshotSeq := currentSeq\<rparr>
                        else resp)))"

text \<open>\<open>FireOnLobeJoined\<close> calls back with the member's record, if it is a member.\<close>

definition FireOnLobeJoined :: "node_id \<Rightarrow> JoinHandler \<Rightarrow> NodeInfo option" where
  "FireOnLobeJoined n h = map_of (jh_members h) n"

text \<open>\<open>HandleLeave\<close>: the new handler and manager, and whether \<open>OnLobeLeft\<close> is called.\<close>

definition HandleLeave :: "node_id \<Rightarrow> JoinHandler \<Rightarrow> ConnManager \<Rightarrow> JoinHandler \<times> ConnManager \<times> bool" where
  "HandleLeave n h mgr =
     (if map_of (jh_members h) n = None then (h, mgr, False)
      else (h\<lparr>jh_members := AList.delete n (jh_members h)\<rparr>, RemoveConnPeer n mgr, True))"

definition Members :: "JoinHandler \<Rightarrow> NodeInfo list" where
  "Members h = map snd (jh_members h)"

section \<open>The client\<close>

record JoinClient =
  jc_localNodeID :: node_id
  jc_localAddr :: string
  jc_localRole :: NodeRole
  jc_clusterSecret :: string
  jc_db :: bool

definition NewJoinClient :: "node_id \<Rightarrow> string \<Rightarrow> string \<Rightarrow> JoinClient" where
  "NewJoinClient n addr secret = \<lparr>jc_localNodeID = n, jc_localAddr = addr,
     jc_localRole = RoleUnknown, jc_clusterSecret = secret, jc_db = False\<rparr>"

definition client_hash :: "(bytes \<Rightarrow> bytes \<Rightarrow> bytes) \<Rightarrow> JoinClient \<Rightarrow> bytes" where
  "client_hash hmac c =
     (if jc_clusterSecret c = '''' then []
      else hmac (str_bytes (jc_clusterSecret c)) (str_bytes (jc_localNodeID c) @ [jc_localRole c]))"

definition join_request :: "(bytes \<Rightarrow> bytes \<Rightarrow> bytes) \<Rightarrow> JoinClient \<Rightarrow> u64 \<Rightarrow> JoinRequest" where
  "join_request hmac c lastApplied =
     \<lparr>jq_NodeID = jc_localNodeID c, jq_Addr = jc_localAddr c, jq_LastApplied = lastApplied,
      jq_SecretHash = client_hash hmac c, jq_Role = jc_localRole c, jq_Probe = False,
      jq_ProtocolVersion = CurrentProtocolVersion\<rparr>"

definition probe_request :: "(bytes \<Rightarrow> bytes \<Rightarrow> bytes) \<Rightarrow> JoinClient \<Rightarrow> JoinRequest" where
  "probe_request hmac c = (join_request hmac c 0)\<lparr>jq_Probe := True\<rparr>"

datatype join_error =
    JoinIO nat
  | JoinWipe snap_error
  | JoinRejected JoinResponse
  | JoinEpoch db_error
  | ErrEpochRegression
  | JoinNoDB
  | JoinSnapshot snap_error
  | JoinRebase apply_error
  | JoinAdopt db_error

record 'db lobe =
  lb_client :: JoinClient
  lb_epoch :: "'db EpochStore"
  lb_applier :: "'db Applier"
  lb_mgr :: ConnManager

definition set_db :: "'db \<Rightarrow> 'db lobe \<Rightarrow> 'db lobe" where
  "set_db d s = s\<lparr>lb_epoch := (lb_epoch s)\<lparr>es_db := d\<rparr>, lb_applier := (lb_applier s)\<lparr>ap_db := d\<rparr>\<rparr>"

definition set_epoch :: "'db EpochStore \<Rightarrow> 'db lobe \<Rightarrow> 'db lobe" where
  "set_epoch e s = set_db (es_db e) (s\<lparr>lb_epoch := e\<rparr>)"

definition set_applier :: "'db Applier \<Rightarrow> 'db lobe \<Rightarrow> 'db lobe" where
  "set_applier a s = set_db (ap_db a) (s\<lparr>lb_applier := a\<rparr>)"

text \<open>The first step: a partial snapshot of an earlier attempt is wiped.\<close>

definition heal_partial :: "'db pebble \<Rightarrow> 'db lobe \<Rightarrow> 'db lobe \<times> join_error option" where
  "heal_partial pb s =
     (let db = es_db (lb_epoch s)
      in if \<not> jc_db (lb_client s) \<or> IsSnapshotComplete pb db then (s, None)
         else let hasData = (case pb_iter pb db [] None of Inl e \<Rightarrow> False | Inr kvs \<Rightarrow> kvs \<noteq> [])
           in if hasData then
                (case WipeForResnapshot pb db of
                   (db', Some e) \<Rightarrow> (set_db db' s, Some (JoinWipe e))
                 | (db', None) \<Rightarrow> (set_db db' s, None))
              else (s, None))"

text \<open>The snapshot phase, and the adoption of a lower epoch behind it.\<close>

definition join_snapshot ::
  "'db pebble \<Rightarrow> snap_frame list \<Rightarrow> u64 \<Rightarrow> JoinResponse \<Rightarrow> 'db lobe \<Rightarrow> 'db lobe \<times> (join_error + u64)" where
  "join_snapshot pb frames localEpoch resp s =
     (if \<not> jc_db (lb_client s) then (s, Inl JoinNoDB)
      else case Receive pb frames (es_db (lb_epoch s)) of
             (db', Inl e) \<Rightarrow> (set_db db' s, Inl (JoinSnapshot e))
           | (db', Inr snapshotSeq) \<Rightarrow>
               (let s1 = set_db db' s
                in case ResetTo pb snapshotSeq (lb_applier s1) of
                     (a, Some e) \<Rightarrow> (set_applier a s1, Inl (JoinRebase e))
                   | (a, None) \<Rightarrow>
                       (let s2 = set_applier a s1
                        in if jr_Epoch resp < localEpoch then
                             (case AdoptForSnapshot pb (lb_epoch s2) (jr_Epoch resp) of
                                (e, Some err) \<Rightarrow> (set_epoch e s2, Inl (JoinAdopt err))
                              | (e, None) \<Rightarrow> (set_epoch e s2, Inr snapshotSeq))
                           else (s2, Inr snapshotSeq))))"

definition joinConn ::
  "'db pebble \<Rightarrow> (JoinRequest \<Rightarrow> nat + JoinResponse) \<Rightarrow> snap_frame list \<Rightarrow>
     (bytes \<Rightarrow> bytes \<Rightarrow> bytes) \<Rightarrow> 'db lobe \<Rightarrow> 'db lobe \<times> (join_error + u64)" where
  "joinConn pb ask frames hmac s0 =
     (case heal_partial pb s0 of
        (s, Some e) \<Rightarrow> (s, Inl e)
      | (s, None) \<Rightarrow>
          (let lastApplied = ap_lastApplied (lb_applier s)
           in case ask (join_request hmac (lb_client s) lastApplied) of
                Inl e \<Rightarrow> (s, Inl (JoinIO e))
              | Inr resp \<Rightarrow>
                  if \<not> jr_Accepted resp then (s, Inl (JoinRejected resp))
                  else
                    (let localEpoch = Load (lb_epoch s);
                         enter = (\<lambda>s1.
                           let s2 = (if jr_CortexID resp \<noteq> '''' \<and> jr_CortexAddr resp \<noteq> ''''
                                     then s1\<lparr>lb_mgr := AddConnPeer (jr_CortexID resp) (jr_CortexAddr resp) (lb_mgr s1)\<rparr>
                                     else s1)
                           in if jr_NeedsSnapshot resp then join_snapshot pb frames localEpoch resp s2
                              else (s2, Inr lastApplied))
                     in if jr_Epoch resp \<ge> localEpoch then
                          (case Advance pb (lb_epoch s) (jr_Epoch resp) of
                             (e, Inl err) \<Rightarrow> (set_epoch e s, Inl (JoinEpoch err))
                           | (e, Inr b) \<Rightarrow> enter (set_epoch e s))
                        else if \<not> jr_NeedsSnapshot resp then (s, Inl ErrEpochRegression)
                        else enter s)))"

end
