(* ===== verification/Join_Props.thy ===== *)
theory Join_Props
  imports Join
begin

text \<open>
  Properties of the join handshake and of the snapshot transfer behind it.
\<close>

section \<open>Admission\<close>

text \<open>The gates of the handler, as one condition.\<close>

definition admissible :: "(bytes \<Rightarrow> bytes \<Rightarrow> bytes) \<Rightarrow> string \<Rightarrow> u64 \<Rightarrow> bool \<Rightarrow> JoinRequest \<Rightarrow> bool" where
  "admissible hmac secret epoch isLeader req \<longleftrightarrow>
     jq_NodeID req \<noteq> '''' \<and>
     ValidSecret hmac secret (jq_NodeID req) (jq_Role req) (jq_ProtocolVersion req) (jq_SecretHash req) \<and>
     jq_ProtocolVersion req \<le> CurrentProtocolVersion \<and> epoch \<noteq> 0 \<and> isLeader"

lemma not_below_min [simp]: "\<not> v < MinSupportedProtocolVersion"
  by (simp add: MinSupportedProtocolVersion_def)

lemma HandleJoinRequest_cases:
  assumes "r = HandleJoinRequest hmac ep sq (Some (lead, ldr, addr)) req h"
  shows "admissible hmac (jh_clusterSecret h) ep lead req \<Longrightarrow>
      jr_Accepted (snd r) \<and> jr_Epoch (snd r) = ep \<and> jr_NeedsSnapshot (snd r) = jh_db h \<and>
      jr_CortexID (snd r) = jh_localNodeID h \<and>
      fst r = h\<lparr>jh_members := AList.update (jq_NodeID req)
        \<lparr>ni_NodeID = jq_NodeID req, ni_Addr = jq_Addr req, ni_Role = RoleReplica,
         ni_LastSeq = jq_LastApplied req\<rparr> (jh_members h)\<rparr>"
    and "\<not> admissible hmac (jh_clusterSecret h) ep lead req \<Longrightarrow> \<not> jr_Accepted (snd r) \<and> fst r = h"
  unfolding assms
  by (auto simp: HandleJoinRequest_def admissible_def Let_def no_response_def linorder_not_le
      split: bool.split)

text \<open>The client's request passes the handler's secret check when both hold the same secret, for a
  join and for a probe.\<close>

lemma client_hash_valid:
  "jc_clusterSecret c = jh_clusterSecret h \<Longrightarrow>
   ValidSecret hmac (jh_clusterSecret h) (jc_localNodeID c) (jc_localRole c) CurrentProtocolVersion (client_hash hmac c)"
  by (simp add: ValidSecret_def client_hash_def CurrentProtocolVersion_def)

section \<open>The client's epoch and cursor\<close>

lemma set_db_sel [simp]:
  "Load (lb_epoch (set_db d s)) = Load (lb_epoch s)"
  "ap_lastApplied (lb_applier (set_db d s)) = ap_lastApplied (lb_applier s)"
  "lb_client (set_db d s) = lb_client s" "es_db (lb_epoch (set_db d s)) = d"
  "ap_db (lb_applier (set_db d s)) = d" "lb_mgr (set_db d s) = lb_mgr s"
  by (simp_all add: set_db_def Load_def)

lemma set_epoch_sel [simp]:
  "Load (lb_epoch (set_epoch e s)) = Load e" "es_db (lb_epoch (set_epoch e s)) = es_db e"
  "lb_client (set_epoch e s) = lb_client s" "lb_mgr (set_epoch e s) = lb_mgr s"
  "ap_lastApplied (lb_applier (set_epoch e s)) = ap_lastApplied (lb_applier s)"
  by (simp_all add: set_epoch_def set_db_def Load_def)

lemma set_applier_sel [simp]:
  "Load (lb_epoch (set_applier a s)) = Load (lb_epoch s)" "es_db (lb_epoch (set_applier a s)) = ap_db a"
  "lb_client (set_applier a s) = lb_client s" "lb_mgr (set_applier a s) = lb_mgr s"
  "ap_lastApplied (lb_applier (set_applier a s)) = ap_lastApplied a"
  by (simp_all add: set_applier_def set_db_def Load_def)

lemma heal_partial_epoch: "heal_partial pb s = (s', r) \<Longrightarrow> Load (lb_epoch s') = Load (lb_epoch s) \<and>
    ap_lastApplied (lb_applier s') = ap_lastApplied (lb_applier s) \<and> lb_client s' = lb_client s"
  by (auto simp: heal_partial_def Let_def split: if_splits prod.splits option.splits)

lemma ResetTo_cursor: "ResetTo pb q a = (a', None) \<Longrightarrow> ap_lastApplied a' = q"
  by (auto simp: ResetTo_def split: if_splits sum.splits)

lemma AdoptForSnapshot_None: "AdoptForSnapshot pb e n = (e', None) \<Longrightarrow> Load e' = n"
  by (auto simp: AdoptForSnapshot_def Load_def split: if_splits sum.splits)

lemma AdoptForSnapshot_Some: "AdoptForSnapshot pb e n = (e', Some err) \<Longrightarrow> Load e' = Load e"
  by (auto simp: AdoptForSnapshot_def split: if_splits sum.splits)

lemma Advance_epoch: "Advance pb e n = (e', Inr b) \<Longrightarrow> Load e \<le> n \<Longrightarrow> Load e' = n"
  by (auto simp: Advance_def Load_def split: if_splits sum.splits)

lemma Advance_error: "Advance pb e n = (e', Inl x) \<Longrightarrow> Load e' = Load e"
  by (auto simp: Advance_def split: if_splits sum.splits)

lemma join_snapshot_ok:
  assumes "join_snapshot pb frames le resp s = (s', Inr q)"
  shows "ap_lastApplied (lb_applier s') = q \<and>
    Load (lb_epoch s') = (if jr_Epoch resp < le then jr_Epoch resp else Load (lb_epoch s))"
  using assms
  by (auto simp: join_snapshot_def Let_def dest: ResetTo_cursor AdoptForSnapshot_None
      split: if_splits prod.splits sum.splits option.splits)

lemma join_snapshot_err:
  "join_snapshot pb frames le resp s = (s', Inl e) \<Longrightarrow> Load (lb_epoch s') = Load (lb_epoch s)"
  by (auto simp: join_snapshot_def Let_def dest: AdoptForSnapshot_Some
      split: if_splits prod.splits sum.splits option.splits)

text \<open>The response a join has received.\<close>

definition join_answer ::
  "'db pebble \<Rightarrow> (JoinRequest \<Rightarrow> nat + JoinResponse) \<Rightarrow> (bytes \<Rightarrow> bytes \<Rightarrow> bytes) \<Rightarrow> 'db lobe \<Rightarrow> nat + JoinResponse" where
  "join_answer pb ask hmac s = ask (join_request hmac (lb_client s) (ap_lastApplied (lb_applier s)))"

lemma joinConn_ok:
  assumes "joinConn pb ask frames hmac s = (s', Inr q)"
  shows "\<exists>resp. join_answer pb ask hmac s = Inr resp \<and> jr_Accepted resp \<and>
    Load (lb_epoch s') = jr_Epoch resp \<and>
    (jr_Epoch resp < Load (lb_epoch s) \<longrightarrow> jr_NeedsSnapshot resp) \<and>
    (jr_NeedsSnapshot resp \<longrightarrow> ap_lastApplied (lb_applier s') = q) \<and>
    (\<not> jr_NeedsSnapshot resp \<longrightarrow> q = ap_lastApplied (lb_applier s))"
proof -
  obtain s1 where s1: "heal_partial pb s = (s1, None)"
    using assms by (auto simp: joinConn_def split: prod.splits option.splits)
  note h = heal_partial_epoch[OF s1]
  obtain resp where resp: "join_answer pb ask hmac s = Inr resp" "jr_Accepted resp"
    using assms s1 h by (auto simp: joinConn_def join_answer_def Let_def split: sum.splits if_splits)
  show ?thesis
    using assms s1 h resp
    by (auto simp: joinConn_def join_answer_def Let_def
        dest!: join_snapshot_ok dest: Advance_epoch split: if_splits prod.splits sum.splits)
qed

lemma joinConn_err:
  assumes "joinConn pb ask frames hmac s = (s', Inl e)"
  shows "Load (lb_epoch s) \<le> Load (lb_epoch s')"
proof (cases "heal_partial pb s")
  case (Pair s1 r)
  note h = heal_partial_epoch[OF Pair]
  show ?thesis
    using assms Pair h
    by (auto simp: joinConn_def Let_def dest!: join_snapshot_err dest: Advance_epoch Advance_error
        split: option.splits if_splits prod.splits sum.splits)
qed

section \<open>The handshake of the two sides\<close>

text \<open>The two sides on one connection: the client asks, the handler of a node that holds the given
  epoch and knows the given leader answers.\<close>

definition handler_answers ::
  "(bytes \<Rightarrow> bytes \<Rightarrow> bytes) \<Rightarrow> u64 \<Rightarrow> u64 \<Rightarrow> bool \<Rightarrow> node_id \<Rightarrow> string \<Rightarrow> JoinHandler \<Rightarrow> JoinRequest \<Rightarrow> nat + JoinResponse" where
  "handler_answers hmac ep sq lead ldr addr h req =
     Inr (snd (HandleJoinRequest hmac ep sq (Some (lead, ldr, addr)) req h))"

lemma Advance_succeeds:
  assumes "pebble_reliable pb"
  shows "\<exists>e' b. Advance pb e n = (e', Inr b)"
  using reliable_set[OF assms, of "es_db e" clusterEpochKey "PutUint64 n"]
  by (auto simp: Advance_def persist_def)

lemma join_request_admissible:
  assumes "jc_clusterSecret c = jh_clusterSecret h"
  shows "admissible hmac (jh_clusterSecret h) ep lead (join_request hmac c q) \<longleftrightarrow>
    jc_localNodeID c \<noteq> '''' \<and> ep \<noteq> 0 \<and> lead"
  using client_hash_valid[OF assms, of hmac] by (auto simp: admissible_def join_request_def)

lemma no_db_no_heal: "\<not> jc_db (lb_client s) \<Longrightarrow> heal_partial pb s = (s, None)"
  by (simp add: heal_partial_def)

lemma handler_rejects:
  assumes "\<not> admissible hmac (jh_clusterSecret h) ep lead req"
  obtains r where "handler_answers hmac ep sq lead ldr addr h req = Inr r" "\<not> jr_Accepted r"
  using HandleJoinRequest_cases(2)[OF refl assms] by (auto simp: handler_answers_def)

lemma handler_accepts:
  assumes "admissible hmac (jh_clusterSecret h) ep lead req"
  obtains r where "handler_answers hmac ep sq lead ldr addr h req = Inr r" "jr_Accepted r"
    "jr_Epoch r = ep" "jr_NeedsSnapshot r = jh_db h"
  using HandleJoinRequest_cases(1)[OF refl assms] by (auto simp: handler_answers_def)

text \<open>C20.  The join handshake between the two halves as the coordinator wires them (neither has a
  database): with the same secret, a named node is admitted by a leader with a non-zero epoch
  that is not behind the node's own, and then holds the leader's epoch and streams from its own
  cursor; a leader whose epoch is behind is refused by the node itself; and no other node
  admits it.\<close>

theorem join_handshake:
  assumes "pebble_reliable pb" "\<not> jc_db (lb_client s)" "\<not> jh_db h"
    and "jc_clusterSecret (lb_client s) = jh_clusterSecret h" "jc_localNodeID (lb_client s) \<noteq> ''''"
  shows "joinConn pb (handler_answers hmac ep sq lead ldr addr h) frames hmac s = (s', r) \<Longrightarrow>
    (if lead \<and> ep \<noteq> 0 then
       (if Load (lb_epoch s) \<le> ep
        then r = Inr (ap_lastApplied (lb_applier s)) \<and> Load (lb_epoch s') = ep
        else r = Inl ErrEpochRegression \<and> s' = s)
     else s' = s \<and> (\<exists>resp. r = Inl (JoinRejected resp)))"
proof -
  assume j: "joinConn pb (handler_answers hmac ep sq lead ldr addr h) frames hmac s = (s', r)"
  let ?req = "join_request hmac (lb_client s) (ap_lastApplied (lb_applier s))"
  note adm = join_request_admissible[OF assms(4), of hmac ep lead "ap_lastApplied (lb_applier s)"]
  note noheal = no_db_no_heal[OF assms(2), of pb]
  show ?thesis
  proof (cases "lead \<and> ep \<noteq> 0")
    case False
    with adm handler_rejects obtain resp where
      "handler_answers hmac ep sq lead ldr addr h ?req = Inr resp" "\<not> jr_Accepted resp" by metis
    with j noheal False show ?thesis by (auto simp: joinConn_def)
  next
    case True
    with adm assms(5) handler_accepts obtain resp where resp:
      "handler_answers hmac ep sq lead ldr addr h ?req = Inr resp" "jr_Accepted resp"
      "jr_Epoch resp = ep" "\<not> jr_NeedsSnapshot resp"
      using assms(3) by metis
    obtain e b where "Advance pb (lb_epoch s) ep = (e, Inr b)"
      using Advance_succeeds[OF assms(1)] by blast
    with Advance_epoch[OF this] resp j noheal True show ?thesis
      by (auto simp: joinConn_def Let_def split: if_splits)
  qed
qed

text \<open>The client's epoch after a join: a join that succeeds leaves it at the epoch the response
  names, which is lower than before only behind a snapshot, and then the apply cursor is the
  snapshot's sequence; a join that fails never lowers the epoch in memory.\<close>

theorem join_epoch_rule:
  "joinConn pb ask frames hmac s = (s', r) \<Longrightarrow>
     (case r of
        Inr q \<Rightarrow> \<exists>resp. join_answer pb ask hmac s = Inr resp \<and> jr_Accepted resp \<and>
          Load (lb_epoch s') = jr_Epoch resp \<and>
          (Load (lb_epoch s') < Load (lb_epoch s) \<longrightarrow>
             jr_NeedsSnapshot resp \<and> ap_lastApplied (lb_applier s') = q)
      | Inl e \<Rightarrow> Load (lb_epoch s) \<le> Load (lb_epoch s'))"
  using joinConn_ok[of pb ask frames hmac s s'] joinConn_err[of pb ask frames hmac s s']
  by (fastforce split: sum.split)

section \<open>The snapshot\<close>

text \<open>C21.  A snapshot transfer that completes gives the receiver exactly the sender's data at that
  moment without the replication log, whatever the chunks and batches it was cut into; of what
  the receiver had, only its epoch record survives, where the sender has none; and a transfer
  that is cut short anywhere reports an error.\<close>

theorem snapshot_exact:
  assumes "pebble_spec pb view" "pebble_reliable pb"
  shows "\<exists>frames db'. Snapshot_Send pb s dbS = Inr frames \<and> Receive pb frames dbR = (db', Inr s) \<and>
    view db' = after_snapshot s (view dbS) (view dbR) \<and> IsSnapshotComplete pb db' \<and>
    (\<forall>n < length frames. \<exists>e. snd (Receive pb (take n frames) dbR) = Inl e)"
proof -
  obtain frames where f: "Snapshot_Send pb s dbS = Inr frames"
    using Snapshot_Send_reliable[OF assms(2)] by blast
  obtain db' where r: "Receive pb frames dbR = (db', Inr s)"
    using Receive_reliable[OF assms(2) f] by blast
  have v: "view db' = after_snapshot s (view dbS) (view dbR)"
    using Receive_complete[OF assms(1) f r] by simp
  then have "view db' snapCompleteKey = Some (PutUint64 s)" by (simp add: after_snapshot_def)
  then have "IsSnapshotComplete pb db'"
    using spec_get_Some[OF assms(1)] assms(2) by (fastforce simp: IsSnapshotComplete_def pebble_reliable_def)
  with f r v Receive_cut[OF f] show ?thesis by blast
qed

lemma heal_partial_reliable:
  assumes "pebble_reliable pb"
  obtains s1 where "heal_partial pb s = (s1, None)"
  using wipe_reliable[OF assms, of "es_db (lb_epoch s)"] that
  by (fastforce simp: heal_partial_def Let_def split: if_splits)

lemma NewEpochStore_reads:
  assumes "pebble_spec pb view" "pebble_reliable pb" "view db clusterEpochKey = Some (PutUint64 e)"
  shows "NewEpochStore pb db = Inr \<lparr>es_db = db, es_current = e\<rparr>"
proof -
  have "pb_get pb db clusterEpochKey = Found (PutUint64 e)"
    using spec_get_Some[OF assms(1,3)] assms(2) by (auto simp: pebble_reliable_def)
  then show ?thesis by (simp add: NewEpochStore_def)
qed

lemma snapCompleteKey_neq [simp]: "clusterEpochKey \<noteq> snapCompleteKey" "nodeRoleKey \<noteq> snapCompleteKey"
    "lastAppliedKey \<noteq> snapCompleteKey"
  by (simp_all add: snapCompleteKey_def metaKey_defs metaKey_inject)

lemma metaKeys_shipped [simp]: "\<not> skipFromSnapshot clusterEpochKey" "\<not> skipFromSnapshot nodeRoleKey"
    "\<not> skipFromSnapshot lastAppliedKey" "\<not> skipFromSnapshot seqCounterKey"
  by (simp_all add: metaKey_defs)

text \<open>A snapshot from a leader whose epoch is behind, cut off before its last frame: the join
  fails and the node keeps its epoch in memory, but its disk already holds the leader's lower
  epoch and is marked as a complete snapshot, so that a restart of the process goes back to the
  lower epoch.\<close>

theorem failed_snapshot_replaces_epoch:
  assumes spec: "pebble_spec pb view" "pebble_reliable pb"
    and client: "jc_db (lb_client s)" "join_answer pb ask hmac s = Inr resp" "jr_Accepted resp"
      "jr_NeedsSnapshot resp" "jr_Epoch resp < Load (lb_epoch s)"
    and sender: "Snapshot_Send pb q dbS = Inr frames" "view dbS clusterEpochKey = Some (PutUint64 (jr_Epoch resp))"
    and run: "joinConn pb ask (butlast frames) hmac s = (s', r)"
  shows "r = Inl (JoinSnapshot SnapRead) \<and> Load (lb_epoch s') = Load (lb_epoch s) \<and>
    IsSnapshotComplete pb (es_db (lb_epoch s')) \<and>
    (\<exists>t. NewEpochStore pb (es_db (lb_epoch s')) = Inr t \<and> Load t = jr_Epoch resp)"
proof -
  obtain s1 where s1: "heal_partial pb s = (s1, None)" using heal_partial_reliable[OF spec(2)] .
  note h = heal_partial_epoch[OF s1]
  let ?s2 = "if jr_CortexID resp \<noteq> '''' \<and> jr_CortexAddr resp \<noteq> ''''
    then s1\<lparr>lb_mgr := AddConnPeer (jr_CortexID resp) (jr_CortexAddr resp) (lb_mgr s1)\<rparr> else s1"
  have s2: "lb_epoch ?s2 = lb_epoch s1" "lb_client ?s2 = lb_client s1" by simp_all
  have "\<not> Load (lb_epoch s) \<le> jr_Epoch resp" using client(5) by (simp add: linorder_not_le)
  then have js: "joinConn pb ask (butlast frames) hmac s = join_snapshot pb (butlast frames) (Load (lb_epoch s)) resp ?s2"
    using s1 client h by (simp add: joinConn_def join_answer_def Let_def)
  obtain d where d: "Receive pb (butlast frames) (es_db (lb_epoch ?s2)) = (d, Inl SnapRead)"
    and v: "view d = after_snapshot q (view dbS) (view (es_db (lb_epoch ?s2)))"
    using Receive_unfinished[OF spec sender(1)] .
  have "(s', r) = (set_db d ?s2, Inl (JoinSnapshot SnapRead))"
    using run d client(1) h s2(2) unfolding js join_snapshot_def by simp
  moreover have "view d clusterEpochKey = Some (PutUint64 (jr_Epoch resp))"
    using sender(2) by (simp add: v after_snapshot_def)
  moreover have "IsSnapshotComplete pb d"
    using spec_get_Some[OF spec(1), of d snapCompleteKey] spec(2)
    by (fastforce simp: IsSnapshotComplete_def pebble_reliable_def v after_snapshot_def)
  ultimately show ?thesis
    using NewEpochStore_reads[OF spec, of d "jr_Epoch resp"] h s2(1) by (simp add: Load_def set_db_def)
qed

section \<open>Witnesses\<close>

definition wit_hmac :: "bytes \<Rightarrow> bytes \<Rightarrow> bytes" where "wit_hmac key message = key @ message"

definition wit_lobe :: "bool \<Rightarrow> u64 \<Rightarrow> (bytes \<times> bytes) list lobe" where
  "wit_lobe hasdb e = \<lparr>lb_client = (NewJoinClient ''lobe'' ''10.0.0.2'' ''secret'')\<lparr>jc_db := hasdb\<rparr>,
     lb_epoch = \<lparr>es_db = [(clusterEpochKey, PutUint64 e)], es_current = e\<rparr>,
     lb_applier = \<lparr>ap_db = [(clusterEpochKey, PutUint64 e)], ap_lastApplied = 40, ap_appliedSince = 0\<rparr>,
     lb_mgr = NewConnManager ''lobe''\<rparr>"

lemma wit_lobe_sel [simp]:
  "jc_db (lb_client (wit_lobe hasdb e)) = hasdb" "Load (lb_epoch (wit_lobe hasdb e)) = e"
  "jc_clusterSecret (lb_client (wit_lobe hasdb e)) = ''secret''"
  "jc_localNodeID (lb_client (wit_lobe hasdb e)) = ''lobe''"
  "ap_lastApplied (lb_applier (wit_lobe hasdb e)) = 40"
  by (simp_all add: wit_lobe_def NewJoinClient_def Load_def)

theorem join_handshake_witness:
  "\<exists>s'. joinConn mem_pebble (handler_answers wit_hmac 3 90 True '''' '''' (NewJoinHandler ''cortex'' ''secret''))
      [] wit_hmac (wit_lobe False 2) = (s', Inr 40) \<and> Load (lb_epoch s') = 3"
proof -
  obtain s' r where j: "joinConn mem_pebble
      (handler_answers wit_hmac 3 90 True '''' '''' (NewJoinHandler ''cortex'' ''secret''))
      [] wit_hmac (wit_lobe False 2) = (s', r)" by fastforce
  from join_handshake[OF mem_pebble_reliable _ _ _ _ j] show ?thesis
    unfolding j by (simp add: NewJoinHandler_def)
qed

theorem join_epoch_rule_witness:
  "\<exists>s'. joinConn mem_pebble (handler_answers wit_hmac 3 90 True '''' '''' (NewJoinHandler ''cortex'' ''secret''))
      [] wit_hmac (wit_lobe False 9) = (s', Inl ErrEpochRegression) \<and> 9 \<le> Load (lb_epoch s')"
proof -
  have "\<exists>s'. joinConn mem_pebble (handler_answers wit_hmac 3 90 True '''' '''' (NewJoinHandler ''cortex'' ''secret''))
      [] wit_hmac (wit_lobe False 9) = (s', Inl ErrEpochRegression)"
    by (simp add: joinConn_def no_db_no_heal handler_answers_def HandleJoinRequest_def Let_def no_response_def
        NewJoinHandler_def join_request_def client_hash_def ValidSecret_def CurrentProtocolVersion_def)
  then obtain s' where j: "joinConn mem_pebble
      (handler_answers wit_hmac 3 90 True '''' '''' (NewJoinHandler ''cortex'' ''secret''))
      [] wit_hmac (wit_lobe False 9) = (s', Inl ErrEpochRegression)" by blast
  with join_epoch_rule[OF j] show ?thesis by simp
qed

theorem snapshot_exact_witness:
  "\<exists>frames db'. Snapshot_Send mem_pebble 7 [([1], [2])] = Inr frames \<and>
     Receive mem_pebble frames [([9], [9])] = (db', Inr 7) \<and> map_of db' [1] = Some [2] \<and> map_of db' [9] = None"
proof -
  have k: "snapCompleteKey \<noteq> [1]" "snapCompleteKey \<noteq> [9]" "clusterEpochKey \<noteq> [9]"
    "\<not> skipFromSnapshot [1]" "\<not> skipFromSnapshot [9]"
    by (simp_all add: snapCompleteKey_def clusterEpochKey_def metaKey_def skipFromSnapshot_def entrySeqFromKey_def)
  from snapshot_exact[OF mem_pebble_spec mem_pebble_reliable, of 7 "[([1], [2])]" "[([9], [9])]"] k
  show ?thesis by (fastforce simp: after_snapshot_def)
qed

theorem failed_snapshot_replaces_epoch_witness:
  "\<exists>frames s' t. Snapshot_Send mem_pebble 0 [(clusterEpochKey, PutUint64 2)] = Inr frames \<and>
     joinConn mem_pebble (\<lambda>req. Inr (no_response\<lparr>jr_Accepted := True, jr_Epoch := 2, jr_NeedsSnapshot := True\<rparr>))
       (butlast frames) wit_hmac (wit_lobe True 5) = (s', Inl (JoinSnapshot SnapRead)) \<and>
     Load (lb_epoch s') = 5 \<and> NewEpochStore mem_pebble (es_db (lb_epoch s')) = Inr t \<and> Load t = 2"
proof -
  let ?resp = "no_response\<lparr>jr_Accepted := True, jr_Epoch := 2, jr_NeedsSnapshot := True\<rparr>"
  obtain frames where f: "Snapshot_Send mem_pebble 0 [(clusterEpochKey, PutUint64 2)] = Inr frames"
    using Snapshot_Send_reliable[OF mem_pebble_reliable] by blast
  obtain s' r where j: "joinConn mem_pebble (\<lambda>req. Inr ?resp) (butlast frames) wit_hmac (wit_lobe True 5) = (s', r)"
    by fastforce
  have a: "join_answer mem_pebble (\<lambda>req. Inr ?resp) wit_hmac (wit_lobe True 5) = Inr ?resp"
    by (simp add: join_answer_def)
  from failed_snapshot_replaces_epoch[OF mem_pebble_spec mem_pebble_reliable _ a _ _ _ f _ j] f j
  show ?thesis by (auto simp: no_response_def)
qed

end
