(* ===== verification/Coordinator.thy ===== *)
theory Coordinator
  imports Join_Props Election Msp
begin

text \<open>
  The cluster coordinator (\<open>internal/replication/coordinator.go\<close>): the record of a node that
  owns the election, the failure detector, the connections, the join handler, the log and the
  applier, and the methods that change its role, watch its quorum, track its replicas and prune
  its log.  The coordinator's epoch store is the one of its election.  A method that calls
  another component returns, beside the new state, what it sends and calls, in order.  Locks
  are held for a whole method, except where the code works in separate critical sections with
  waiting between them; those are separate definitions.
\<close>

section \<open>State\<close>

record ClusterConfig =
  cc_NodeID :: node_id
  cc_Role :: string
  cc_Seeds :: "string list"
  cc_BindAddr :: string
  cc_AdvertiseAddr :: string
  cc_ClusterSecret :: string
  cc_QuorumLossTimeoutSec :: int
  cc_MaxLogBacklog :: int

datatype NodeState = StateNormal | StateDraining
datatype demotionCause = causeClaim | causeQuorumLoss
datatype runMode = modeLeading | modeFollowing | modeWaitingQuorum
datatype roleEvent = RolePromoted | RoleDemoted demotionCause

record HandoffMessage =
  ho_TargetID :: node_id
  ho_Epoch :: u64
  ho_CortexSeq :: u64

record HandoffAck =
  ha_TargetID :: node_id
  ha_Epoch :: u64
  ha_Success :: bool

datatype co_msg =
    MsgVoteResponse VoteResponse
  | MsgClaim CortexClaim
  | MsgJoinResponse JoinResponse
  | MsgReplAck node_id u64
  | MsgHandoff HandoffMessage
  | MsgHandoffAck HandoffAck

datatype co_out =
    OutBroadcast election_msg
  | OutSend node_id co_msg
  | OutReply co_msg
  | OutBecameCortex u64
  | OutBecameLobe
  | OutStream node_id u64
  | OutStreamSnapshot node_id
  | OutCloseConn node_id
  | OutMsp msp_output

record 'db ClusterCoordinator =
  co_cfg :: ClusterConfig
  co_advertiseAddr :: string
  co_role :: NodeRole
  co_election :: "'db Election"
  co_msp :: MSP
  co_mgr :: ConnManager
  co_joinHandler :: JoinHandler
  co_repLog :: "'db ReplicationLog"
  co_applier :: "'db Applier"
  co_roleCh :: "roleEvent list"
  co_streamers :: "node_id list"
  co_quorumLostSince :: "int option"
  co_hadQuorum :: bool
  co_electing :: bool
  co_nodeState :: NodeState
  co_reconcileOnHeal :: bool
  co_snapshotInProgress :: int
  co_replicaSeqs :: "(node_id \<times> u64) list"
  co_snapshotSeqs :: "(node_id \<times> u64) list"
  co_handoffAckCh :: "HandoffAck list option"
  co_lastLoggedPruneSeq :: u64

definition defaultQuorumLossTimeout :: int where "defaultQuorumLossTimeout = 5 * 1000000000"

definition roleFromConfigString :: "string \<Rightarrow> NodeRole" where
  "roleFromConfigString r =
     (if r = ''primary'' then RolePrimary
      else if r = ''replica'' then RoleReplica
      else if r = ''sentinel'' then RoleSentinel
      else if r = ''observer'' then RoleObserver
      else RolePrimary)"

definition NewClusterCoordinator ::
  "ClusterConfig \<Rightarrow> 'db ReplicationLog \<Rightarrow> 'db Applier \<Rightarrow> 'db EpochStore \<Rightarrow> 'db ClusterCoordinator" where
  "NewClusterCoordinator cfg repLog applier epochs =
     (let addr = (if cc_AdvertiseAddr cfg = '''' then cc_BindAddr cfg else cc_AdvertiseAddr cfg);
          n = cc_NodeID cfg
      in \<lparr>co_cfg = cfg, co_advertiseAddr = addr, co_role = RoleUnknown,
          co_election = NewElection n epochs,
          co_msp = (NewMSP n addr)\<lparr>msp_OnSDown := True, msp_OnODown := True,
                      msp_OnRecover := True, msp_OnAddrChanged := True\<rparr>,
          co_mgr = NewConnManager n,
          co_joinHandler = (NewJoinHandler n (cc_ClusterSecret cfg))\<lparr>jh_localAddr := addr\<rparr>,
          co_repLog = repLog, co_applier = applier, co_roleCh = [], co_streamers = [],
          co_quorumLostSince = None, co_hadQuorum = False, co_electing = False,
          co_nodeState = StateNormal, co_reconcileOnHeal = True, co_snapshotInProgress = 0,
          co_replicaSeqs = [], co_snapshotSeqs = [], co_handoffAckCh = None,
          co_lastLoggedPruneSeq = 0\<rparr>)"

definition IsLeader :: "'db ClusterCoordinator \<Rightarrow> bool" where
  "IsLeader c \<longleftrightarrow> co_role c = RolePrimary"

definition co_IsSentinel :: "'db ClusterCoordinator \<Rightarrow> bool" where
  "co_IsSentinel c \<longleftrightarrow> co_role c = RoleSentinel"

definition co_IsObserver :: "'db ClusterCoordinator \<Rightarrow> bool" where
  "co_IsObserver c \<longleftrightarrow> co_role c = RoleObserver"

definition IsFollower :: "'db ClusterCoordinator \<Rightarrow> bool" where
  "IsFollower c \<longleftrightarrow> co_role c = RoleReplica \<or> co_role c = RoleObserver"

definition CurrentEpoch :: "'db ClusterCoordinator \<Rightarrow> u64" where
  "CurrentEpoch c = Load (epochStore (co_election c))"

definition IsDraining :: "'db ClusterCoordinator \<Rightarrow> bool" where
  "IsDraining c \<longleftrightarrow> co_nodeState c = StateDraining"

section \<open>Role changes\<close>

text \<open>\<open>roleCh\<close> is a channel of capacity four; an event that finds it full is dropped.\<close>

definition pushRoleEvent :: "roleEvent \<Rightarrow> 'db ClusterCoordinator \<Rightarrow> 'db ClusterCoordinator" where
  "pushRoleEvent ev c =
     (if length (co_roleCh c) < 4 then c\<lparr>co_roleCh := co_roleCh c @ [ev]\<rparr> else c)"

definition handlePromotion :: "u64 \<Rightarrow> 'db ClusterCoordinator \<Rightarrow> 'db ClusterCoordinator \<times> co_out list" where
  "handlePromotion epoch c =
     (if state (co_election c) \<noteq> ElectionLeader then (c, [])
      else (pushRoleEvent RolePromoted (c\<lparr>co_role := RolePrimary\<rparr>), [OutBecameCortex epoch]))"

definition handleDemotion :: "demotionCause \<Rightarrow> 'db ClusterCoordinator \<Rightarrow> 'db ClusterCoordinator \<times> co_out list" where
  "handleDemotion cause c =
     (pushRoleEvent (RoleDemoted cause)
        (c\<lparr>co_role := RoleReplica, co_hadQuorum := False, co_quorumLostSince := None,
           co_streamers := [], co_nodeState := StateNormal\<rparr>),
      [OutBecameLobe])"

text \<open>The callbacks an election method makes, in its order, on the coordinator.\<close>

fun election_callbacks ::
  "election_out list \<Rightarrow> 'db ClusterCoordinator \<Rightarrow> 'db ClusterCoordinator \<times> co_out list" where
  "election_callbacks [] c = (c, [])"
| "election_callbacks (out # outs) c =
     (let (c1, o1) = (case out of
              Broadcast m \<Rightarrow> (c, [OutBroadcast m])
            | OnPromoted epoch \<Rightarrow> handlePromotion epoch c
            | OnDemoted \<Rightarrow> handleDemotion causeClaim c
            | OnNewLeader ldr epoch \<Rightarrow> (c, []));
          (c2, o2) = election_callbacks outs c1
      in (c2, o1 @ o2))"

definition on_election ::
  "('db Election \<times> election_out list) \<Rightarrow> 'db ClusterCoordinator \<Rightarrow> 'db ClusterCoordinator \<times> co_out list" where
  "on_election r c = election_callbacks (snd r) (c\<lparr>co_election := fst r\<rparr>)"

definition start_election ::
  "(election_msg \<Rightarrow> bytes option) \<Rightarrow> 'db pebble \<Rightarrow> 'db ClusterCoordinator \<Rightarrow>
     'db ClusterCoordinator \<times> co_out list \<times> election_error option" where
  "start_election marshal pb c =
     (case StartElection marshal pb (co_election c) of
        (e, outs, err) \<Rightarrow> (case on_election (e, outs) c of (c', o') \<Rightarrow> (c', o', err)))"

section \<open>Quorum health\<close>

definition aliveVoters :: "'db ClusterCoordinator \<Rightarrow> nat" where
  "aliveVoters c =
     1 + length (filter (\<lambda>p. IsVoter (co_election c) (ps_NodeID p)) (LivePeers (co_msp c)))"

definition quorumTimeout :: "'db ClusterCoordinator \<Rightarrow> int" where
  "quorumTimeout c =
     (let t = wrap64 (cc_QuorumLossTimeoutSec (co_cfg c) * 1000000000)
      in if t \<le> 0 then defaultQuorumLossTimeout else t)"

definition checkQuorumHealth :: "int \<Rightarrow> 'db ClusterCoordinator \<Rightarrow> 'db ClusterCoordinator \<times> co_out list" where
  "checkQuorumHealth now c =
     (if \<not> IsLeader c then (c, [])
      else if aliveVoters c \<ge> quorumLocked (co_election c) then
        (c\<lparr>co_hadQuorum := True, co_quorumLostSince := None\<rparr>, [])
      else if \<not> co_hadQuorum c then (c, [])
      else case co_quorumLostSince c of
          None \<Rightarrow> (c\<lparr>co_quorumLostSince := Some now\<rparr>, [])
        | Some since \<Rightarrow>
            if now - since \<ge> quorumTimeout c then
              handleDemotion causeQuorumLoss
                (c\<lparr>co_quorumLostSince := None, co_election := StepDown (co_election c)\<rparr>)
            else (c, []))"

section \<open>The supervisor\<close>

text \<open>\<open>supervise\<close> runs one term per mode.  Each function below is one turn of a term's loop: the
  case of its \<open>select\<close> that fires (the ticker, or a role event taken from the channel) and the
  mode the term returns, or \<open>None\<close> when it loops.\<close>

definition other_leader :: "'db ClusterCoordinator \<Rightarrow> bool" where
  "other_leader c \<longleftrightarrow>
     currentLeader (co_election c) \<noteq> '''' \<and> currentLeader (co_election c) \<noteq> cc_NodeID (co_cfg c)"

definition initialCortexMode :: "'db ClusterCoordinator \<Rightarrow> runMode" where
  "initialCortexMode c =
     (if IsLeader c then modeLeading else if other_leader c then modeFollowing else modeWaitingQuorum)"

definition take_event :: "'db ClusterCoordinator \<Rightarrow> (roleEvent \<times> 'db ClusterCoordinator) option" where
  "take_event c =
     (case co_roleCh c of [] \<Rightarrow> None | ev # evs \<Rightarrow> Some (ev, c\<lparr>co_roleCh := evs\<rparr>))"

definition leadTerm_tick :: "'db ClusterCoordinator \<Rightarrow> runMode option" where
  "leadTerm_tick c =
     (if \<not> IsLeader c then Some (if other_leader c then modeFollowing else modeWaitingQuorum)
      else None)"

definition leadTerm_event :: "roleEvent \<Rightarrow> runMode option" where
  "leadTerm_event ev =
     (case ev of
        RolePromoted \<Rightarrow> None
      | RoleDemoted cause \<Rightarrow>
          Some (if cause = causeQuorumLoss then modeWaitingQuorum else modeFollowing))"

definition followTerm_event :: "roleEvent \<Rightarrow> 'db ClusterCoordinator \<Rightarrow> runMode option" where
  "followTerm_event ev c =
     (case ev of
        RolePromoted \<Rightarrow> Some modeLeading
      | RoleDemoted cause \<Rightarrow> if \<not> other_leader c then Some modeWaitingQuorum else None)"

text \<open>\<open>waitQuorumTerm\<close> keeps the backoff and the time of its next election; the event, if that is
  what woke it, has already been looked at.\<close>

definition waitQuorumTerm_event :: "roleEvent \<Rightarrow> runMode option" where
  "waitQuorumTerm_event ev = (case ev of RolePromoted \<Rightarrow> Some modeLeading | _ \<Rightarrow> None)"

definition waitQuorumTerm_check ::
  "(election_msg \<Rightarrow> bytes option) \<Rightarrow> 'db pebble \<Rightarrow> int \<Rightarrow> int \<Rightarrow> int \<times> int option \<Rightarrow>
     'db ClusterCoordinator \<Rightarrow> 'db ClusterCoordinator \<times> co_out list \<times> (int \<times> int option) \<times> runMode option" where
  "waitQuorumTerm_check marshal pb hb now t c =
     (if IsLeader c then (c, [], t, Some modeLeading)
      else if other_leader c then (c, [], t, Some modeFollowing)
      else if \<not> co_electing c \<and> aliveVoters c \<ge> quorumLocked (co_election c) \<and>
              (case snd t of None \<Rightarrow> True | Some next \<Rightarrow> next \<le> now) then
        (case start_election marshal pb c of
           (c', outs, err) \<Rightarrow>
             (c', outs, (if fst t < 8 * hb then fst t * 2 else fst t, Some (now + fst t)), None))
      else (c, [], t, None))"

end
