(* ===== verification/Replica_Tracking.thy ===== *)
theory Replica_Tracking
  imports Coordinator
begin

text \<open>
  The coordinator's view of its replicas (\<open>coordinator.go\<close>, \<open>local_append.go\<close>): what each has
  acknowledged, from where a stream to it resumes, up to where the log may be pruned and who has
  to be dropped for it, and which nodes append to their own log.  The \<open>sync.Map\<close>s are
  association lists with distinct keys, in the order in which \<open>Range\<close> visits them.
\<close>

section \<open>Acknowledgements and lag\<close>

definition UpdateReplicaSeq :: "node_id \<Rightarrow> u64 \<Rightarrow> 'db ClusterCoordinator \<Rightarrow> 'db ClusterCoordinator" where
  "UpdateReplicaSeq n s c = c\<lparr>co_replicaSeqs := AList.update n s (co_replicaSeqs c)\<rparr>"

definition head_seq :: "'db pebble \<Rightarrow> 'db ClusterCoordinator \<Rightarrow> 'db ClusterCoordinator \<times> u64" where
  "head_seq pb c = (case CurrentSeq pb (co_repLog c) of (l, s) \<Rightarrow> (c\<lparr>co_repLog := l\<rparr>, s))"

definition ReplicaLag :: "'db pebble \<Rightarrow> node_id \<Rightarrow> 'db ClusterCoordinator \<Rightarrow> u64" where
  "ReplicaLag pb n c =
     (case map_of (co_replicaSeqs c) n of
        None \<Rightarrow> 0
      | Some replicaSeq \<Rightarrow>
          (let cortexSeq = snd (head_seq pb c)
           in if cortexSeq \<le> replicaSeq then 0 else cortexSeq - replicaSeq))"

definition ReplicationLag :: "'db pebble \<Rightarrow> 'db ClusterCoordinator \<Rightarrow> u64" where
  "ReplicationLag pb c =
     (if IsLeader c then 0
      else let cortexSeq = snd (head_seq pb c); lastApplied = ap_lastApplied (co_applier c)
        in if cortexSeq \<le> lastApplied then 0 else cortexSeq - lastApplied)"

definition MinReplicatedSeq :: "'db ClusterCoordinator \<Rightarrow> u64" where
  "MinReplicatedSeq c =
     (case fold (\<lambda>(n, s) acc. case acc of None \<Rightarrow> Some s | Some m \<Rightarrow> Some (if s < m then s else m))
             (co_replicaSeqs c) None of
        None \<Rightarrow> 0
      | Some m \<Rightarrow> m)"

definition allReplicasConverged :: "u64 \<Rightarrow> 'db ClusterCoordinator \<Rightarrow> bool" where
  "allReplicasConverged targetSeq c \<longleftrightarrow> list_all (\<lambda>(n, s). \<not> s < targetSeq) (co_replicaSeqs c)"

section \<open>Streams\<close>

definition streamStartSeq :: "node_id \<Rightarrow> 'db ClusterCoordinator \<Rightarrow> u64" where
  "streamStartSeq n c =
     (let start = (case map_of (co_replicaSeqs c) n of None \<Rightarrow> 0 | Some s \<Rightarrow> s)
      in case map_of (co_snapshotSeqs c) n of
           None \<Rightarrow> start
         | Some s \<Rightarrow> if s > start then s else start)"

definition startStreamerForLobe :: "node_id \<Rightarrow> 'db ClusterCoordinator \<Rightarrow> 'db ClusterCoordinator \<times> co_out list" where
  "startStreamerForLobe n c =
     (case GetPeer (co_mgr c) n of
        None \<Rightarrow> (c, [])
      | Some peer \<Rightarrow>
          (c\<lparr>co_streamers := List.insert n (co_streamers c)\<rparr>, [OutStream n (streamStartSeq n c)]))"

definition stopStreamerForLobe :: "node_id \<Rightarrow> 'db ClusterCoordinator \<Rightarrow> 'db ClusterCoordinator" where
  "stopStreamerForLobe n c = c\<lparr>co_streamers := removeAll n (co_streamers c)\<rparr>"

section \<open>Pruning\<close>

definition pruneWatermark :: "'db pebble \<Rightarrow> 'db ClusterCoordinator \<Rightarrow> 'db ClusterCoordinator \<times> u64 \<times> bool" where
  "pruneWatermark pb c =
     (let minSeq = MinReplicatedSeq c;
          maxBacklog = (if cc_MaxLogBacklog (co_cfg c) > 0
                        then word_of_int (cc_MaxLogBacklog (co_cfg c)) else 0)
      in if maxBacklog = 0 then (c, minSeq, False)
         else let (c1, head) = head_seq pb c
           in if head \<le> maxBacklog then (c1, minSeq, False)
              else if head - maxBacklog > minSeq then (c1, head - maxBacklog, True)
              else (c1, minSeq, False))"

definition evictLobe :: "node_id \<Rightarrow> 'db ClusterCoordinator \<Rightarrow> 'db ClusterCoordinator \<times> co_out list" where
  "evictLobe n c =
     (let c1 = stopStreamerForLobe n c;
          (c2, outs) = (case GetPeer (co_mgr c1) n of
              None \<Rightarrow> (c1, [])
            | Some p \<Rightarrow> (c1\<lparr>co_mgr := close_peer n p (co_mgr c1)\<rparr>, [OutCloseConn n]))
      in (c2\<lparr>co_replicaSeqs := AList.delete n (co_replicaSeqs c2)\<rparr>, outs))"

fun evict_all :: "node_id list \<Rightarrow> 'db ClusterCoordinator \<Rightarrow> 'db ClusterCoordinator \<times> co_out list" where
  "evict_all [] c = (c, [])"
| "evict_all (n # ns) c =
     (let (c1, o1) = evictLobe n c; (c2, o2) = evict_all ns c1 in (c2, o1 @ o2))"

definition lobes_behind :: "u64 \<Rightarrow> 'db ClusterCoordinator \<Rightarrow> node_id list" where
  "lobes_behind untilSeq c = map fst (filter (\<lambda>(n, s). s < untilSeq) (co_replicaSeqs c))"

definition evictLobesBehind :: "u64 \<Rightarrow> 'db ClusterCoordinator \<Rightarrow> 'db ClusterCoordinator \<times> co_out list" where
  "evictLobesBehind untilSeq c = evict_all (lobes_behind untilSeq c) c"

text \<open>One tick of the loop of \<open>startPeriodicPrune\<close>.  The prune of the operation log's segment files
  in between is logged only and touches nothing of this state.\<close>

definition prune_tick :: "'db pebble \<Rightarrow> 'db ClusterCoordinator \<Rightarrow> 'db ClusterCoordinator \<times> co_out list" where
  "prune_tick pb c =
     (if \<not> IsLeader c then (c, [])
      else if co_snapshotInProgress c > 0 then (c, [])
      else let (c1, pruneSeq, forced) = pruneWatermark pb c
        in if pruneSeq = 0 then (c1, [])
           else let (c2, outs) = (if forced then evictLobesBehind pruneSeq c1 else (c1, []))
             in case Prune pb pruneSeq (co_repLog c2) of
                  (l, Some e) \<Rightarrow> (c2\<lparr>co_repLog := l\<rparr>, outs)
                | (l, None) \<Rightarrow>
                    (c2\<lparr>co_repLog := l,
                        co_lastLoggedPruneSeq := (if pruneSeq > co_lastLoggedPruneSeq c2 then pruneSeq
                                                  else co_lastLoggedPruneSeq c2)\<rparr>, outs))"

section \<open>Local writes\<close>

text \<open>The callback the storage layer calls for every local write.\<close>

definition LocalAppendFunc ::
  "'db pebble \<Rightarrow> entry_codec \<Rightarrow> i64 \<Rightarrow> u8 \<Rightarrow> bytes \<Rightarrow> bytes \<Rightarrow> 'db ClusterCoordinator \<Rightarrow>
     'db ClusterCoordinator \<times> log_error option" where
  "LocalAppendFunc pb cdc now op key val c =
     (if IsFollower c then (c, None)
      else case Append pb cdc now op key val (co_repLog c) of
          (l, Inl e) \<Rightarrow> (c\<lparr>co_repLog := l\<rparr>, Some e)
        | (l, Inr s) \<Rightarrow> (c\<lparr>co_repLog := l\<rparr>, None))"

section \<open>Membership\<close>

datatype remove_error = ErrSelfRemoval

definition RemoveNode :: "node_id \<Rightarrow> 'db ClusterCoordinator \<Rightarrow> 'db ClusterCoordinator \<times> remove_error option" where
  "RemoveNode n c =
     (if n = cc_NodeID (co_cfg c) then (c, Some ErrSelfRemoval)
      else ((stopStreamerForLobe n c)
              \<lparr>co_msp := RemovePeer n (co_msp c),
               co_replicaSeqs := AList.delete n (co_replicaSeqs c),
               co_snapshotSeqs := AList.delete n (co_snapshotSeqs c),
               co_election := UnregisterVoter (co_election c) n,
               co_mgr := RemoveConnPeer n (co_mgr c)\<rparr>, None))"

definition KnownNodes :: "'db ClusterCoordinator \<Rightarrow> NodeInfo list" where
  "KnownNodes c =
     \<lparr>ni_NodeID = cc_NodeID (co_cfg c), ni_Addr = cc_BindAddr (co_cfg c), ni_Role = co_role c, ni_LastSeq = 0\<rparr> #
     map (\<lambda>p. \<lparr>ni_NodeID = ps_NodeID p, ni_Addr = ps_Addr p, ni_Role = ps_Role p, ni_LastSeq = 0\<rparr>)
       (AllPeers (co_msp c))"

text \<open>The last joined member of an address, as a map built by a loop of assignments keeps it.\<close>

definition joinedByAddr :: "NodeInfo list \<Rightarrow> string \<rightharpoonup> NodeInfo" where
  "joinedByAddr joined = map_of (rev (map (\<lambda>m. (ni_Addr m, m)) joined))"

fun append_unseen :: "string set \<Rightarrow> NodeInfo list \<Rightarrow> NodeInfo list" where
  "append_unseen seen [] = []"
| "append_unseen seen (m # ms) =
     (if ni_Addr m \<in> seen then append_unseen seen ms
      else m # append_unseen (insert (ni_Addr m) seen) ms)"

definition reconcileMembers :: "NodeInfo list \<Rightarrow> NodeInfo list \<Rightarrow> NodeInfo list" where
  "reconcileMembers base joined =
     (let byAddr = joinedByAddr joined;
          out = map (\<lambda>n. case byAddr (ni_Addr n) of Some m \<Rightarrow> m | None \<Rightarrow> n) base;
          seen = set (map ni_Addr (filter (\<lambda>n. byAddr (ni_Addr n) \<noteq> None) base))
      in out @ append_unseen seen joined)"

definition ReconciledMembers :: "'db ClusterCoordinator \<Rightarrow> NodeInfo list" where
  "ReconciledMembers c =
     map (\<lambda>m. case map_of (co_replicaSeqs c) (ni_NodeID m) of
            Some s \<Rightarrow> m\<lparr>ni_LastSeq := s\<rparr> | None \<Rightarrow> m)
       (reconcileMembers (KnownNodes c) (Members (co_joinHandler c)))"

definition followSeeds :: "'db ClusterCoordinator \<Rightarrow> string list" where
  "followSeeds c =
     (if other_leader c then
        (case GetPeer (co_mgr c) (currentLeader (co_election c)) of
           Some p \<Rightarrow> if pc_addr p \<noteq> '''' then pc_addr p # cc_Seeds (co_cfg c) else cc_Seeds (co_cfg c)
         | None \<Rightarrow> cc_Seeds (co_cfg c))
      else cc_Seeds (co_cfg c))"

end
