(* ===== verification/Cluster_Handlers.thy ===== *)
theory Cluster_Handlers
  imports Replica_Tracking
begin

text \<open>
  The coordinator's handlers (\<open>coordinator.go\<close>, \<open>hello.go\<close>): the callbacks of the failure
  detector, incoming joins and hellos, incoming frames, the planned handoff and the start-up of
  a designated leader.  A payload arrives decoded or as a decoding error.  \<open>send_ok\<close> says whether
  a frame can be written to a connected peer (a write that breaks its connection is the loss of
  that connection, an event of its own before the handler; a busy write slot is a peer that is not
  \<open>send_ok\<close>), \<open>marshal\<close> stands for \<open>msgpack.Marshal\<close>, \<open>conn\<close> is the identity of the connection a
  frame came in on.
\<close>

section \<open>Identities\<close>

definition starts_with :: "string \<Rightarrow> string \<Rightarrow> bool" where
  "starts_with p s \<longleftrightarrow> take (length p) s = p"

text \<open>The placeholder that a new join retires: the one at the joiner's address, otherwise, for a
  voter, the first one.\<close>

definition seed_to_retire :: "bool \<Rightarrow> node_id \<Rightarrow> string \<Rightarrow> PeerState list \<Rightarrow> node_id" where
  "seed_to_retire isVoter nodeID addr peers =
     (let seeds = filter (\<lambda>p. ps_NodeID p \<noteq> nodeID \<and> starts_with ''seed-'' (ps_NodeID p)) peers;
          matched = (case find (\<lambda>p. ps_Addr p = addr) seeds of Some p \<Rightarrow> ps_NodeID p | None \<Rightarrow> '''');
          anySeed = (case seeds of [] \<Rightarrow> '''' | p # ps \<Rightarrow> ps_NodeID p)
      in if matched \<noteq> '''' then matched else if isVoter then anySeed else '''')"

definition reconcileJoinedPeer ::
  "int \<Rightarrow> node_id \<Rightarrow> string \<Rightarrow> NodeRole \<Rightarrow> 'db ClusterCoordinator \<Rightarrow> 'db ClusterCoordinator" where
  "reconcileJoinedPeer now nodeID addr role c =
     (if nodeID = '''' then c
      else let isVoter = (cc_Role (co_cfg c) \<noteq> ''observer'' \<and> role \<noteq> RoleObserver);
               alreadyKnown = list_ex (\<lambda>p. ps_NodeID p = nodeID) (AllPeers (co_msp c));
               c1 = c\<lparr>co_msp := AddPeer now nodeID addr role (co_msp c)\<rparr>;
               c2 = (if isVoter then c1\<lparr>co_election := RegisterVoter (co_election c1) nodeID\<rparr> else c1)
           in if alreadyKnown then c2
              else let retire = seed_to_retire isVoter nodeID addr (AllPeers (co_msp c2))
                in if retire = '''' then c2
                   else c2\<lparr>co_msp := RemovePeer retire (co_msp c2),
                           co_mgr := RemoveConnPeer retire (co_mgr c2),
                           co_election := UnregisterVoter (co_election c2) retire\<rparr>)"

section \<open>Callbacks of the failure detector\<close>

definition on_sdown :: "int \<Rightarrow> 'db ClusterCoordinator \<Rightarrow> 'db ClusterCoordinator \<times> co_out list" where
  "on_sdown now c = checkQuorumHealth now c"

text \<open>The ODOWN callback says whether it goes on to run failover elections.\<close>

definition on_odown :: "node_id \<Rightarrow> 'db ClusterCoordinator \<Rightarrow> 'db ClusterCoordinator \<times> bool" where
  "on_odown n c =
     (let ldr = currentLeader (co_election c)
      in if co_IsSentinel c then (c, False)
         else if ldr \<noteq> '''' \<and> ldr \<noteq> n \<and> \<not> IsSDown ldr (co_msp c) then (c, False)
         else (c\<lparr>co_election := ClearLeader (co_election c) n\<rparr>, True))"

definition on_recover :: "node_id \<Rightarrow> 'db ClusterCoordinator \<Rightarrow> 'db ClusterCoordinator \<times> co_out list" where
  "on_recover n c =
     (if \<not> IsLeader c then (c, [])
      else if list_ex (\<lambda>p. ps_NodeID p = n) (AllPeers (co_msp c)) then startStreamerForLobe n c
      else (c, []))"

definition on_addr_changed :: "node_id \<Rightarrow> string \<Rightarrow> 'db ClusterCoordinator \<Rightarrow> 'db ClusterCoordinator" where
  "on_addr_changed n addr c = c\<lparr>co_mgr := UpdatePeerAddr n addr (co_mgr c)\<rparr>"

text \<open>\<open>startElectionWithJitter\<close>: the entry, which admits one driver at a time, and one round of its
  loop, which says whether the loop goes on.\<close>

definition election_driver_enter :: "'db ClusterCoordinator \<Rightarrow> 'db ClusterCoordinator \<times> bool" where
  "election_driver_enter c = (if co_electing c then (c, False) else (c\<lparr>co_electing := True\<rparr>, True))"

definition election_driver_round ::
  "(election_msg \<Rightarrow> bytes option) \<Rightarrow> 'db pebble \<Rightarrow> 'db ClusterCoordinator \<Rightarrow>
     'db ClusterCoordinator \<times> co_out list \<times> bool" where
  "election_driver_round marshal pb c =
     (let ldr = currentLeader (co_election c)
      in if IsLeader c \<or> other_leader c \<and> \<not> IsSDown ldr (co_msp c) then
           (c\<lparr>co_electing := False\<rparr>, [], False)
         else if aliveVoters c \<ge> quorumLocked (co_election c) then
           (case start_election marshal pb (c\<lparr>co_election := ResetCandidate (co_election c)\<rparr>) of
              (c', outs, err) \<Rightarrow> (c', outs, True))
         else (c, [], True))"

section \<open>Incoming joins\<close>

definition can_send :: "(node_id \<Rightarrow> bool) \<Rightarrow> 'db ClusterCoordinator \<Rightarrow> node_id \<Rightarrow> bool" where
  "can_send send_ok c n =
     (case GetPeer (co_mgr c) n of None \<Rightarrow> False | Some p \<Rightarrow> IsConnected p \<and> send_ok n)"

definition leader_addr :: "'db ClusterCoordinator \<Rightarrow> string" where
  "leader_addr c =
     (if other_leader c then
        (case GetPeer (co_mgr c) (currentLeader (co_election c)) of Some p \<Rightarrow> pc_addr p | None \<Rightarrow> '''')
      else '''')"

definition LeaderInfo :: "'db ClusterCoordinator \<Rightarrow> bool \<times> node_id \<times> string" where
  "LeaderInfo c =
     (if IsLeader c then (True, cc_NodeID (co_cfg c), co_advertiseAddr c)
      else (False, currentLeader (co_election c), leader_addr c))"

definition probe_response :: "'db ClusterCoordinator \<Rightarrow> JoinResponse" where
  "probe_response c =
     (case LeaderInfo c of
        (lead, ldr, addr) \<Rightarrow> no_response\<lparr>jr_Accepted := lead, jr_CortexID := ldr,
                              jr_CortexAddr := addr, jr_Epoch := CurrentEpoch c\<rparr>)"

definition redirect_response :: "'db ClusterCoordinator \<Rightarrow> JoinResponse" where
  "redirect_response c = no_response\<lparr>jr_RejectReason := NotCortex, jr_Epoch := CurrentEpoch c,
     jr_CortexID := currentLeader (co_election c), jr_CortexAddr := leader_addr c\<rparr>"

definition OnLobeJoined :: "node_id \<Rightarrow> 'db ClusterCoordinator \<Rightarrow> 'db ClusterCoordinator \<times> co_out list" where
  "OnLobeJoined n c =
     (case FireOnLobeJoined n (co_joinHandler c) of
        None \<Rightarrow> (c, [])
      | Some info \<Rightarrow> startStreamerForLobe (ni_NodeID info) c)"

datatype incoming_error = BadPayload nat | SendFailed node_id | HelloInvalid | HelloSecret | HelloWrite

text \<open>The node id, whether the connection now belongs to the coordinator, and the error.\<close>

definition HandleIncomingJoin ::
  "'db pebble \<Rightarrow> (bytes \<Rightarrow> bytes \<Rightarrow> bytes) \<Rightarrow> (node_id \<Rightarrow> bool) \<Rightarrow> int \<Rightarrow> nat \<Rightarrow> nat + JoinRequest \<Rightarrow>
     'db ClusterCoordinator \<Rightarrow> 'db ClusterCoordinator \<times> co_out list \<times> node_id \<times> bool \<times> incoming_error option" where
  "HandleIncomingJoin pb hmac send_ok now conn payload c =
     (case payload of
        Inl e \<Rightarrow> (c, [], '''', False, Some (BadPayload e))
      | Inr req \<Rightarrow>
          (let n = jq_NodeID req
           in if jq_Probe req then
                (if \<not> ValidSecret hmac (jh_clusterSecret (co_joinHandler c)) n (jq_Role req)
                       (jq_ProtocolVersion req) (jq_SecretHash req)
                 then (c, [], n, False, None)
                 else (c, [OutReply (MsgJoinResponse (probe_response c))], n, False, None))
              else if \<not> IsLeader c then
                (c, [OutReply (MsgJoinResponse (redirect_response c))], n, False, None)
              else
                (let c1 = c\<lparr>co_mgr := RegisterConn n (jq_Addr req) conn (co_mgr c)\<rparr>;
                     (c2, seq) = head_seq pb c1;
                     (h, resp) = HandleJoinRequest hmac (CurrentEpoch c2) seq (Some (LeaderInfo c2)) req
                                   (co_joinHandler c2);
                     c3 = c2\<lparr>co_joinHandler := h\<rparr>
                 in if \<not> can_send send_ok c3 n then
                      (c3\<lparr>co_mgr := send_failed n conn (co_mgr c3)\<rparr>, [], n, False, Some (SendFailed n))
                    else
                      (let role = (if jq_Role req = RoleUnknown then RoleReplica else jq_Role req);
                           c4 = (if jr_Accepted resp then reconcileJoinedPeer now n (jq_Addr req) role c3 else c3);
                           (c5, outs) = (if jr_NeedsSnapshot resp then
                               (c4\<lparr>co_snapshotSeqs := AList.update n (jr_SnapshotSeq resp) (co_snapshotSeqs c4),
                                   co_snapshotInProgress := co_snapshotInProgress c4 + 1\<rparr>,
                                [OutStreamSnapshot n])
                             else OnLobeJoined n c4)
                       in (c5, OutSend n (MsgJoinResponse resp) # outs, n, True, None)))))"

text \<open>The end of the goroutine that streams the snapshot.\<close>

definition snapshot_done :: "node_id \<Rightarrow> bool \<Rightarrow> 'db ClusterCoordinator \<Rightarrow> 'db ClusterCoordinator \<times> co_out list" where
  "snapshot_done n ok c =
     (let (c1, outs) = (if ok then OnLobeJoined n c
          else (case GetPeer (co_mgr c) n of
                  None \<Rightarrow> (c, [])
                | Some p \<Rightarrow> (c\<lparr>co_mgr := close_peer n p (co_mgr c)\<rparr>, [OutCloseConn n])))
      in (c1\<lparr>co_snapshotInProgress := co_snapshotInProgress c1 - 1\<rparr>, outs))"

definition EvictConn :: "node_id \<Rightarrow> nat \<Rightarrow> 'db ClusterCoordinator \<Rightarrow> 'db ClusterCoordinator" where
  "EvictConn n conn c = c\<lparr>co_mgr := fst (EvictIfConn n conn (co_mgr c))\<rparr>"

section \<open>Peer discovery\<close>

record PeerHello =
  ph_NodeID :: node_id
  ph_Addr :: string
  ph_Role :: u8
  ph_Epoch :: u64
  ph_SecretHash :: bytes
  ph_ProtocolVersion :: u16

definition helloHMAC :: "(bytes \<Rightarrow> bytes \<Rightarrow> bytes) \<Rightarrow> string \<Rightarrow> node_id \<Rightarrow> string \<Rightarrow> u8 \<Rightarrow> bytes" where
  "helloHMAC hmac secret n addr role =
     (if secret = '''' then []
      else hmac (str_bytes secret) (str_bytes n @ [10] @ str_bytes addr @ [10] @ [role]))"

definition localHello :: "(bytes \<Rightarrow> bytes \<Rightarrow> bytes) \<Rightarrow> 'db ClusterCoordinator \<Rightarrow> PeerHello" where
  "localHello hmac c =
     (let role = roleFromConfigString (cc_Role (co_cfg c)); n = cc_NodeID (co_cfg c)
      in \<lparr>ph_NodeID = n, ph_Addr = co_advertiseAddr c, ph_Role = role, ph_Epoch = CurrentEpoch c,
          ph_SecretHash = helloHMAC hmac (cc_ClusterSecret (co_cfg c)) n (co_advertiseAddr c) role,
          ph_ProtocolVersion = CurrentProtocolVersion\<rparr>)"

definition verifyHello :: "(bytes \<Rightarrow> bytes \<Rightarrow> bytes) \<Rightarrow> PeerHello \<Rightarrow> 'db ClusterCoordinator \<Rightarrow> bool" where
  "verifyHello hmac h c \<longleftrightarrow>
     cc_ClusterSecret (co_cfg c) = '''' \<or>
     ph_SecretHash h = helloHMAC hmac (cc_ClusterSecret (co_cfg c)) (ph_NodeID h) (ph_Addr h) (ph_Role h)"

definition sendClaim :: "node_id \<Rightarrow> 'db ClusterCoordinator \<Rightarrow> co_out" where
  "sendClaim n c = OutSend n (MsgClaim
     \<lparr>CortexID = cc_NodeID (co_cfg c), claim_Epoch = CurrentEpoch c, FencingToken = CurrentEpoch c\<rparr>)"

definition adoptHelloPeer ::
  "int \<Rightarrow> nat \<Rightarrow> PeerHello \<Rightarrow> bool \<Rightarrow> 'db ClusterCoordinator \<Rightarrow> 'db ClusterCoordinator \<times> co_out list \<times> bool" where
  "adoptHelloPeer now conn peer canonical c =
     (case RegisterConnKind (ph_NodeID peer) (ph_Addr peer) conn kindHello canonical (co_mgr c) of
        (m, False) \<Rightarrow> (c\<lparr>co_mgr := m\<lparr>cm_closedConns := conn # cm_closedConns m\<rparr>\<rparr>, [], False)
      | (m, True) \<Rightarrow>
          (let c1 = reconcileJoinedPeer now (ph_NodeID peer) (ph_Addr peer) (ph_Role peer) (c\<lparr>co_mgr := m\<rparr>)
           in (c1, if IsLeader c1 then [sendClaim (ph_NodeID peer) c1] else [], True)))"

text \<open>The accepting side; \<open>write_ok\<close> is the outcome of writing the reply.\<close>

definition HandleIncomingHello ::
  "(bytes \<Rightarrow> bytes \<Rightarrow> bytes) \<Rightarrow> bool \<Rightarrow> int \<Rightarrow> nat \<Rightarrow> nat + PeerHello \<Rightarrow> 'db ClusterCoordinator \<Rightarrow>
     'db ClusterCoordinator \<times> co_out list \<times> node_id \<times> bool \<times> incoming_error option" where
  "HandleIncomingHello hmac write_ok now conn payload c =
     (case payload of
        Inl e \<Rightarrow> (c, [], '''', False, Some (BadPayload e))
      | Inr peer \<Rightarrow>
          if ph_NodeID peer = '''' \<or> ph_NodeID peer = cc_NodeID (co_cfg c) then
            (c, [], '''', False, Some HelloInvalid)
          else if \<not> verifyHello hmac peer c then (c, [], ph_NodeID peer, False, Some HelloSecret)
          else if \<not> write_ok then (c, [], ph_NodeID peer, False, Some HelloWrite)
          else (case adoptHelloPeer now conn peer (ph_NodeID peer < cc_NodeID (co_cfg c)) c of
                  (c', outs, adopted) \<Rightarrow> (c', outs, ph_NodeID peer, adopted, None)))"

text \<open>The dialing side, once the reply has been read.\<close>

definition helloDial ::
  "(bytes \<Rightarrow> bytes \<Rightarrow> bytes) \<Rightarrow> int \<Rightarrow> nat \<Rightarrow> nat + PeerHello \<Rightarrow> 'db ClusterCoordinator \<Rightarrow>
     'db ClusterCoordinator \<times> co_out list \<times> node_id \<times> bool \<times> incoming_error option" where
  "helloDial hmac now conn reply c =
     (case reply of
        Inl e \<Rightarrow> (c, [], '''', False, Some (BadPayload e))
      | Inr peer \<Rightarrow>
          if ph_NodeID peer = '''' \<or> ph_NodeID peer = cc_NodeID (co_cfg c) \<or> \<not> verifyHello hmac peer c then
            (c, [], '''', False, Some HelloInvalid)
          else (case adoptHelloPeer now conn peer (cc_NodeID (co_cfg c) < ph_NodeID peer) c of
                  (c', outs, adopted) \<Rightarrow> (c', outs, ph_NodeID peer, adopted, None)))"

end
