(* ===== verification/Failover.thy ===== *)
theory Failover
  imports Cluster_Handlers
begin

text \<open>
  Leadership that changes hands without a vote, and the dispatch of frames (\<open>coordinator.go\<close>):
  the planned handoff on both sides, the start-up of a designated leader with its probe for an
  existing one, the follower's join loop, and \<open>HandleIncomingFrame\<close>.
\<close>

section \<open>The old leader's side of a handoff\<close>

datatype failover_error =
    FoNotCortex
  | FoUnknownTarget node_id
  | FoConvergence
  | FoMarshal
  | FoSend
  | FoRejected
  | FoAckTimeout

definition failover_begin ::
  "'db pebble \<Rightarrow> node_id \<Rightarrow> 'db ClusterCoordinator \<Rightarrow> 'db ClusterCoordinator \<times> (failover_error + u64)" where
  "failover_begin pb target c =
     (if \<not> IsLeader c then (c, Inl FoNotCortex)
      else if GetPeer (co_mgr c) target = None then (c, Inl (FoUnknownTarget target))
      else let (c1, cortexSeq) = head_seq pb (c\<lparr>co_nodeState := StateDraining\<rparr>) in (c1, Inr cortexSeq))"

definition failover_abort :: "'db ClusterCoordinator \<Rightarrow> 'db ClusterCoordinator" where
  "failover_abort c = c\<lparr>co_nodeState := StateNormal\<rparr>"

text \<open>One tick of \<open>waitForConvergence\<close>: has it converged?\<close>

definition waitForConvergence :: "u64 \<Rightarrow> 'db ClusterCoordinator \<Rightarrow> bool" where
  "waitForConvergence targetSeq c \<longleftrightarrow> targetSeq = 0 \<or> allReplicasConverged targetSeq c"

definition failover_send ::
  "(HandoffMessage \<Rightarrow> bytes option) \<Rightarrow> (node_id \<Rightarrow> bool) \<Rightarrow> node_id \<Rightarrow> u64 \<Rightarrow> 'db ClusterCoordinator \<Rightarrow>
     'db ClusterCoordinator \<times> co_out list \<times> failover_error option" where
  "failover_send mh send_ok target cortexSeq c =
     (let msg = \<lparr>ho_TargetID = target, ho_Epoch = CurrentEpoch c, ho_CortexSeq = cortexSeq\<rparr>
      in case mh msg of
           None \<Rightarrow> (failover_abort c, [], Some FoMarshal)
         | Some payload \<Rightarrow>
             (let c1 = c\<lparr>co_handoffAckCh := Some []\<rparr>
              in if can_send send_ok c1 target then (c1, [OutSend target (MsgHandoff msg)], None)
                 else (failover_abort c1, [], Some FoSend)))"

text \<open>The end of the wait: an acknowledgement, or \<open>None\<close> for the timeout.\<close>

definition failover_finish ::
  "HandoffAck option \<Rightarrow> 'db ClusterCoordinator \<Rightarrow> 'db ClusterCoordinator \<times> co_out list \<times> failover_error option" where
  "failover_finish ack c =
     (let c1 = c\<lparr>co_handoffAckCh := None\<rparr>
      in case ack of
           None \<Rightarrow> (failover_abort c1, [], Some FoAckTimeout)
         | Some a \<Rightarrow>
             if \<not> ha_Success a then (failover_abort c1, [], Some FoRejected)
             else (case handleDemotion causeClaim (c1\<lparr>co_nodeState := StateNormal\<rparr>) of
                     (c2, outs) \<Rightarrow> (c2, outs, None)))"

definition HandleHandoffAck :: "HandoffAck \<Rightarrow> 'db ClusterCoordinator \<Rightarrow> 'db ClusterCoordinator" where
  "HandleHandoffAck ack c =
     (case co_handoffAckCh c of
        Some [] \<Rightarrow> c\<lparr>co_handoffAckCh := Some [ack]\<rparr>
      | _ \<Rightarrow> c)"

section \<open>The target's side\<close>

datatype handoff_error =
    HoTarget node_id
  | HoAdvance db_error
  | HoEpochMoved u64
  | HoPersist db_error
  | HoMarshalClaim
  | HoMarshalAck
  | HoNoPeer node_id
  | HoSendAck node_id

text \<open>Taking the leadership without a vote: the election is told, then the coordinator.\<close>

definition take_leadership :: "u64 \<Rightarrow> 'db ClusterCoordinator \<Rightarrow> 'db ClusterCoordinator \<times> co_out list" where
  "take_leadership epoch c =
     handlePromotion epoch
       (c\<lparr>co_election := (co_election c)\<lparr>state := ElectionLeader, currentLeader := cc_NodeID (co_cfg c)\<rparr>\<rparr>)"

definition set_epochs :: "'db EpochStore \<Rightarrow> 'db ClusterCoordinator \<Rightarrow> 'db ClusterCoordinator" where
  "set_epochs st c = c\<lparr>co_election := (co_election c)\<lparr>epochStore := st\<rparr>\<rparr>"

definition co_PersistRole :: "'db pebble \<Rightarrow> string \<Rightarrow> 'db ClusterCoordinator \<Rightarrow> 'db ClusterCoordinator \<times> db_error option" where
  "co_PersistRole pb r c =
     (case PersistRole pb (epochStore (co_election c)) r of (st, e) \<Rightarrow> (set_epochs st c, e))"

definition HandleHandoff ::
  "'db pebble \<Rightarrow> (election_msg \<Rightarrow> bytes option) \<Rightarrow> (HandoffAck \<Rightarrow> bytes option) \<Rightarrow> (node_id \<Rightarrow> bool) \<Rightarrow>
     node_id \<Rightarrow> HandoffMessage \<Rightarrow> 'db ClusterCoordinator \<Rightarrow>
     'db ClusterCoordinator \<times> co_out list \<times> handoff_error option" where
  "HandleHandoff pb marshal mack send_ok from msg c =
     (let me = cc_NodeID (co_cfg c); newEpoch = ho_Epoch msg + 1
      in if ho_TargetID msg \<noteq> me then (c, [], Some (HoTarget (ho_TargetID msg)))
         else case Advance pb (epochStore (co_election c)) newEpoch of
             (st, Inl err) \<Rightarrow> (set_epochs st c, [], Some (HoAdvance err))
           | (st, Inr False) \<Rightarrow> (set_epochs st c, [], Some (HoEpochMoved (Load st)))
           | (st, Inr True) \<Rightarrow>
               (let c1 = set_epochs st c
                in if Load st \<noteq> newEpoch then (c1, [], Some (HoEpochMoved (Load st)))
                   else case co_PersistRole pb ''cortex'' c1 of
                       (c2, Some err) \<Rightarrow> (c2, [], Some (HoPersist err))
                     | (c2, None) \<Rightarrow>
                         (let claim = MCortexClaim \<lparr>CortexID = me, claim_Epoch = newEpoch, FencingToken = newEpoch\<rparr>
                          in case marshal claim of
                               None \<Rightarrow> (c2, [], Some HoMarshalClaim)
                             | Some payload \<Rightarrow>
                                 (let (c3, outs) = take_leadership newEpoch c2;
                                      ack = \<lparr>ha_TargetID = me, ha_Epoch = newEpoch, ha_Success = True\<rparr>;
                                      sent = OutBroadcast claim # outs
                                  in case mack ack of
                                       None \<Rightarrow> (c3, sent, Some HoMarshalAck)
                                     | Some payload' \<Rightarrow>
                                         if GetPeer (co_mgr c3) from = None then (c3, sent, Some (HoNoPeer from))
                                         else if \<not> can_send send_ok c3 from then (c3, sent, Some (HoSendAck from))
                                         else (fst (co_PersistRole pb '''' c3),
                                               sent @ [OutSend from (MsgHandoffAck ack)], None)))))"

section \<open>Start-up\<close>

definition bootstrapPromoteIfDesignatedPrimary ::
  "(election_msg \<Rightarrow> bytes option) \<Rightarrow> 'db ClusterCoordinator \<Rightarrow> 'db ClusterCoordinator \<times> co_out list" where
  "bootstrapPromoteIfDesignatedPrimary marshal c =
     (if cc_Role (co_cfg c) \<noteq> ''primary'' \<or> IsLeader c then (c, [])
      else if state (co_election c) \<noteq> ElectionCandidate then (c, [])
      else let epoch = candidateEpoch (co_election c);
               (c1, outs) = take_leadership epoch c;
               (c2, outs') = election_callbacks (broadcastClaim marshal (co_election c1) epoch) c1
           in (c2, outs @ outs'))"

text \<open>One pass of \<open>probeForLeader\<close> over the seeds: \<open>Inl\<close> is the leader found, with the highest epoch
  seen, \<open>Inr\<close> that highest epoch and whether any seed answered.\<close>

fun probe_pass ::
  "(string \<Rightarrow> nat + JoinResponse) \<Rightarrow> string \<Rightarrow> node_id \<Rightarrow> string list \<Rightarrow> u64 \<Rightarrow> bool \<Rightarrow>
     (node_id \<times> string \<times> u64 \<times> u64) + (u64 \<times> bool)" where
  "probe_pass ask self me [] maxEpoch any = Inr (maxEpoch, any)"
| "probe_pass ask self me (seed # seeds) maxEpoch any =
     (if seed = self then probe_pass ask self me seeds maxEpoch any
      else case ask seed of
          Inl e \<Rightarrow> probe_pass ask self me seeds maxEpoch any
        | Inr r \<Rightarrow>
            (let m1 = max maxEpoch (jr_Epoch r)
             in if jr_Accepted r \<and> jr_CortexID r \<noteq> '''' then Inl (jr_CortexID r, seed, jr_Epoch r, m1)
                else if jr_CortexID r \<noteq> '''' \<and> jr_CortexID r \<noteq> me \<and> jr_CortexAddr r \<noteq> '''' then
                  (case ask (jr_CortexAddr r) of
                     Inr rr \<Rightarrow>
                       if jr_Accepted rr \<and> jr_CortexID rr \<noteq> '''' then
                         Inl (jr_CortexID rr, jr_CortexAddr r, jr_Epoch rr, max m1 (jr_Epoch rr))
                       else probe_pass ask self me seeds m1 True
                   | Inl e \<Rightarrow> probe_pass ask self me seeds m1 True)
                else probe_pass ask self me seeds m1 True))"

fun probe_passes ::
  "(nat \<Rightarrow> string \<Rightarrow> nat + JoinResponse) \<Rightarrow> string \<Rightarrow> node_id \<Rightarrow> string list \<Rightarrow> nat \<Rightarrow> u64 \<Rightarrow>
     (node_id \<times> string \<times> u64) option \<times> u64" where
  "probe_passes ask self me seeds 0 maxEpoch = (None, maxEpoch)"
| "probe_passes ask self me seeds (Suc n) maxEpoch =
     (case probe_pass (ask n) self me seeds maxEpoch False of
        Inl (ldr, addr, ep, m) \<Rightarrow> (Some (ldr, addr, ep), m)
      | Inr (m, False) \<Rightarrow> (None, m)
      | Inr (m, True) \<Rightarrow> probe_passes ask self me seeds n m)"

definition probeForLeader ::
  "(nat \<Rightarrow> string \<Rightarrow> nat + JoinResponse) \<Rightarrow> 'db ClusterCoordinator \<Rightarrow> (node_id \<times> string \<times> u64) option \<times> u64" where
  "probeForLeader ask c =
     probe_passes ask (co_advertiseAddr c) (cc_NodeID (co_cfg c)) (cc_Seeds (co_cfg c)) 3 (CurrentEpoch c)"

text \<open>The election at start-up, with or without the assertion of a designated leader behind it.\<close>

definition elect_at_start ::
  "(election_msg \<Rightarrow> bytes option) \<Rightarrow> 'db pebble \<Rightarrow> bool \<Rightarrow> 'db ClusterCoordinator \<Rightarrow>
     'db ClusterCoordinator \<times> co_out list \<times> (election_error + runMode)" where
  "elect_at_start marshal pb assertive c =
     (case start_election marshal pb c of
        (c1, outs, Some err) \<Rightarrow> (c1, outs, Inl err)
      | (c1, outs, None) \<Rightarrow>
          (let (c2, outs') = (if assertive then bootstrapPromoteIfDesignatedPrimary marshal c1 else (c1, []))
           in (c2, outs @ outs', Inr (initialCortexMode c2))))"

text \<open>\<open>runAsCortex\<close> up to the supervisor, with the mode in which the supervisor starts.\<close>

definition runAsCortex ::
  "'db pebble \<Rightarrow> (election_msg \<Rightarrow> bytes option) \<Rightarrow> (nat \<Rightarrow> string \<Rightarrow> nat + JoinResponse) \<Rightarrow>
     'db ClusterCoordinator \<Rightarrow> 'db ClusterCoordinator \<times> co_out list \<times> (election_error + runMode)" where
  "runAsCortex pb marshal ask c =
     (let currentEpoch = CurrentEpoch c;
          persistedRole = (case LoadRole pb (epochStore (co_election c)) of Inl e \<Rightarrow> '''' | Inr r \<Rightarrow> r)
      in if persistedRole = ''cortex'' \<and> currentEpoch > 0 then
           (let (c1, outs) = take_leadership currentEpoch c;
                (c2, outs') = election_callbacks (broadcastClaim marshal (co_election c1) currentEpoch) c1
            in (fst (co_PersistRole pb '''' c2), outs @ outs', Inr modeLeading))
         else if cc_Role (co_cfg c) = ''primary'' \<and> cc_Seeds (co_cfg c) \<noteq> [] then
           (case probeForLeader ask c of
              (found, maxEpoch) \<Rightarrow>
                (case found of
                   Some (ldr, addr, ep) \<Rightarrow>
                     if ep \<ge> currentEpoch then
                       (case on_election (HandleCortexClaim marshal pb (co_election c)
                               \<lparr>CortexID = ldr, claim_Epoch = ep, FencingToken = ep\<rparr>)
                             (c\<lparr>co_role := RoleReplica\<rparr>) of
                          (c1, outs) \<Rightarrow> (c1, outs, Inr modeFollowing))
                     else if maxEpoch > currentEpoch then elect_at_start marshal pb False c else elect_at_start marshal pb True c
                 | None \<Rightarrow> if maxEpoch > currentEpoch then elect_at_start marshal pb False c else elect_at_start marshal pb True c))
         else elect_at_start marshal pb True c)"

end
