(* ===== verification/Cluster_Node.thy ===== *)
theory Cluster_Node
  imports Failover
begin

text \<open>
  The cluster node as a whole (\<open>coordinator.go\<close>): the dispatch of incoming frames, the loop by
  which a follower joins and streams, and the step function over all events that the
  coordinator's goroutines, its callbacks and its peers can bring about.  Cognitive forwarding,
  the consistency probe and the reconciler are other components; their frames change nothing
  here.
\<close>

section \<open>Incoming frames\<close>

datatype incoming_frame =
    FPing bytes
  | FPong bytes
  | FVoteRequest "nat + VoteRequest"
  | FVoteResponse "nat + VoteResponse"
  | FCortexClaim "nat + CortexClaim"
  | FLeave "nat + node_id"
  | FReplEntry "nat + ReplicationEntry"
  | FReplAck "nat + node_id \<times> u64"
  | FSDown "nat + node_id"
  | FHandoff "nat + HandoffMessage"
  | FHandoffAck "nat + HandoffAck"
  | FDelegated u8
  | FUnknown u8

datatype frame_error =
    FeDecode nat
  | FeApply apply_error
  | FeHandoff handoff_error
  | FeUnknownType u8

text \<open>What the node's environment provides: the storage engine, the codecs, the keyed hash, the
  network.\<close>

record 'db co_env =
  en_pb :: "'db pebble"
  en_codec :: entry_codec
  en_repr :: "bytes \<Rightarrow> nat + batch_op list"
  en_ping :: "bytes \<Rightarrow> nat + node_id \<times> string"
  en_marshal :: "election_msg \<Rightarrow> bytes option"
  en_mack :: "HandoffAck \<Rightarrow> bytes option"
  en_mhandoff :: "HandoffMessage \<Rightarrow> bytes option"
  en_hmac :: "bytes \<Rightarrow> bytes \<Rightarrow> bytes"
  en_send_ok :: "node_id \<Rightarrow> bool"

definition with_msp :: "MSP \<times> msp_output list \<Rightarrow> 'db ClusterCoordinator \<Rightarrow> 'db ClusterCoordinator \<times> co_out list" where
  "with_msp r c = (c\<lparr>co_msp := fst r\<rparr>, map OutMsp (snd r))"

definition HandleIncomingFrame ::
  "'db co_env \<Rightarrow> int \<Rightarrow> node_id \<Rightarrow> incoming_frame \<Rightarrow> 'db ClusterCoordinator \<Rightarrow>
     'db ClusterCoordinator \<times> co_out list \<times> frame_error option" where
  "HandleIncomingFrame env now from frame c =
     (let ok = (\<lambda>(c', outs). (c', outs, None)); bad = (\<lambda>e. (c, [], Some (FeDecode e)))
      in case frame of
        FPing payload \<Rightarrow> ok (with_msp (HandlePing (en_ping env) now from payload (co_msp c)) c)
      | FPong payload \<Rightarrow> ok (with_msp (HandlePong (en_ping env) now from payload (co_msp c)) c)
      | FVoteRequest (Inl e) \<Rightarrow> bad e
      | FVoteRequest (Inr req) \<Rightarrow>
          (case HandleVoteRequest (en_pb env) (co_election c) req of
             (el, resp) \<Rightarrow>
               ok (c\<lparr>co_election := el\<rparr>,
                   if can_send (en_send_ok env) c from then [OutSend from (MsgVoteResponse resp)] else []))
      | FVoteResponse (Inl e) \<Rightarrow> bad e
      | FVoteResponse (Inr resp) \<Rightarrow>
          ok (on_election (HandleVoteResponse (en_marshal env) (en_pb env) (co_election c) resp) c)
      | FCortexClaim (Inl e) \<Rightarrow> bad e
      | FCortexClaim (Inr claim) \<Rightarrow>
          ok (on_election (HandleCortexClaim (en_marshal env) (en_pb env) (co_election c) claim) c)
      | FLeave (Inl e) \<Rightarrow> bad e
      | FLeave (Inr n) \<Rightarrow>
          (case HandleLeave n (co_joinHandler c) (co_mgr c) of
             (h, m, left) \<Rightarrow>
               (let c1 = c\<lparr>co_joinHandler := h, co_mgr := m\<rparr>
                in ok (if left then stopStreamerForLobe n c1 else c1, [])))
      | FReplEntry p \<Rightarrow>
          if co_IsSentinel c then ok (c, [])
          else (case p of
             Inl e \<Rightarrow> bad e
           | Inr entry \<Rightarrow>
               (case Apply (en_pb env) (en_repr env) entry (co_applier c) of
                  (a, err) \<Rightarrow> (c\<lparr>co_applier := a\<rparr>, [], map_option FeApply err)))
      | FReplAck (Inl e) \<Rightarrow> bad e
      | FReplAck (Inr (n, s)) \<Rightarrow> ok (UpdateReplicaSeq n s c, [])
      | FSDown (Inl e) \<Rightarrow> bad e
      | FSDown (Inr target) \<Rightarrow> ok (with_msp (RecordDownVote from target (co_msp c)) c)
      | FHandoff (Inl e) \<Rightarrow> bad e
      | FHandoff (Inr msg) \<Rightarrow>
          (case HandleHandoff (en_pb env) (en_marshal env) (en_mack env) (en_send_ok env) from msg c of
             (c', outs, err) \<Rightarrow> (c', outs, map_option FeHandoff err))
      | FHandoffAck (Inl e) \<Rightarrow> bad e
      | FHandoffAck (Inr ack) \<Rightarrow> ok (HandleHandoffAck ack c, [])
      | FDelegated t \<Rightarrow> ok (c, [])
      | FUnknown t \<Rightarrow> (c, [], Some (FeUnknownType t)))"

section \<open>Following\<close>

datatype 'r retry_result = RetryJoined 'r | RetryCancelled | RetryExhausted | RetryPanic

text \<open>\<open>joinWithRetry\<close>, with the number of attempts left: an attempt yields a result or the address
  of the leader the rejecting node knows; an empty seed list makes the seed index panic.\<close>

fun join_attempts ::
  "(nat \<Rightarrow> string \<Rightarrow> string + 'r) \<Rightarrow> (nat \<Rightarrow> bool) \<Rightarrow> string list \<Rightarrow> nat \<Rightarrow> string \<Rightarrow> 'r retry_result" where
  "join_attempts ask cancelled seeds 0 redirect = RetryExhausted"
| "join_attempts ask cancelled seeds (Suc k) redirect =
     (let attempt = 10 - k
      in if redirect = '''' \<and> seeds = [] then RetryPanic
         else let addr = (if redirect = '''' then seeds ! ((attempt - 1) mod length seeds) else redirect)
           in case ask attempt addr of
                Inr r \<Rightarrow> RetryJoined r
              | Inl a \<Rightarrow>
                  if cancelled attempt then RetryCancelled
                  else join_attempts ask cancelled seeds k (if a \<noteq> '''' \<and> a \<noteq> addr then a else ''''))"

definition joinWithRetry ::
  "(nat \<Rightarrow> string \<Rightarrow> string + 'r) \<Rightarrow> (nat \<Rightarrow> bool) \<Rightarrow> string list \<Rightarrow> 'r retry_result" where
  "joinWithRetry ask cancelled seeds = join_attempts ask cancelled seeds 10 ''''"

text \<open>What \<open>streamReplication\<close> does with an accepted join.\<close>

definition joined_cortex ::
  "'db co_env \<Rightarrow> int \<Rightarrow> nat \<Rightarrow> string list \<Rightarrow> JoinResponse \<Rightarrow> 'db ClusterCoordinator \<Rightarrow>
     'db ClusterCoordinator \<times> co_out list" where
  "joined_cortex env now conn seeds resp c =
     (let addr = (if jr_CortexAddr resp = '''' \<and> seeds \<noteq> [] then hd seeds else jr_CortexAddr resp)
      in if jr_CortexID resp = '''' then (c, [])
         else let c1 = reconcileJoinedPeer now (jr_CortexID resp) addr RolePrimary
                         (c\<lparr>co_mgr := RegisterConn (jr_CortexID resp) addr conn (co_mgr c)\<rparr>)
           in if jr_CortexID resp = cc_NodeID (co_cfg c) then (c1, [])
              else on_election (HandleCortexClaim (en_marshal env) (en_pb env) (co_election c1)
                     \<lparr>CortexID = jr_CortexID resp, claim_Epoch = jr_Epoch resp, FencingToken = jr_Epoch resp\<rparr>) c1)"

text \<open>One frame of \<open>streamFromCortex\<close>: the entry, and the acknowledgement of the progress.\<close>

definition streamed_frame ::
  "'db co_env \<Rightarrow> int \<Rightarrow> node_id \<Rightarrow> incoming_frame \<Rightarrow> 'db ClusterCoordinator \<Rightarrow>
     'db ClusterCoordinator \<times> co_out list" where
  "streamed_frame env now cortexID frame c =
     (case HandleIncomingFrame env now cortexID frame c of
        (c', outs, err) \<Rightarrow>
          (c', outs @ (case frame of
             FReplEntry p \<Rightarrow> [OutSend cortexID (MsgReplAck (cc_NodeID (co_cfg c')) (ap_lastApplied (co_applier c')))]
           | _ \<Rightarrow> [])))"

definition stream_ended :: "node_id \<Rightarrow> 'db ClusterCoordinator \<Rightarrow> 'db ClusterCoordinator" where
  "stream_ended cortexID c =
     (if cortexID \<noteq> '''' then c\<lparr>co_mgr := RemoveConnPeer cortexID (co_mgr c)\<rparr> else c)"

section \<open>Events\<close>

datatype co_event =
    EvFrame node_id incoming_frame
  | EvJoin nat "nat + JoinRequest"
  | EvHelloIn bool nat "nat + PeerHello"
  | EvHelloOut nat "nat + PeerHello"
  | EvJoinedCortex nat "string list" JoinResponse
  | EvStreamEnded node_id
  | EvEvict node_id nat
  | EvMspTick int
  | EvQuorumTick
  | EvODownFired node_id
  | EvRecovered node_id
  | EvAddr node_id string
  | EvDriverEnter
  | EvDriverRound
  | EvElect
  | EvTakeRoleEvent
  | EvFailoverBegin node_id
  | EvFailoverSend node_id u64
  | EvFailoverFinish "HandoffAck option"
  | EvSnapshotDone node_id bool
  | EvPrune
  | EvLocalWrite u8 bytes bytes
  | EvRemoveNode node_id

fun co_step :: "'db co_env \<Rightarrow> int \<Rightarrow> co_event \<Rightarrow> 'db ClusterCoordinator \<Rightarrow> 'db ClusterCoordinator \<times> co_out list" where
  "co_step env now (EvFrame from frame) c =
     (case HandleIncomingFrame env now from frame c of (c', outs, err) \<Rightarrow> (c', outs))"
| "co_step env now (EvJoin conn payload) c =
     (case HandleIncomingJoin (en_pb env) (en_hmac env) (en_send_ok env) now conn payload c of
        (c', outs, r) \<Rightarrow> (c', outs))"
| "co_step env now (EvHelloIn write_ok conn payload) c =
     (case HandleIncomingHello (en_hmac env) write_ok now conn payload c of (c', outs, r) \<Rightarrow> (c', outs))"
| "co_step env now (EvHelloOut conn reply) c =
     (case helloDial (en_hmac env) now conn reply c of (c', outs, r) \<Rightarrow> (c', outs))"
| "co_step env now (EvJoinedCortex conn seeds resp) c = joined_cortex env now conn seeds resp c"
| "co_step env now (EvStreamEnded n) c = (stream_ended n c, [])"
| "co_step env now (EvEvict n conn) c = (EvictConn n conn c, [])"
| "co_step env now (EvMspTick interval) c = with_msp (Run_tick now interval (co_msp c)) c"
| "co_step env now EvQuorumTick c = checkQuorumHealth now c"
| "co_step env now (EvODownFired n) c = (fst (on_odown n c), [])"
| "co_step env now (EvRecovered n) c = on_recover n c"
| "co_step env now (EvAddr n addr) c = (on_addr_changed n addr c, [])"
| "co_step env now EvDriverEnter c = (fst (election_driver_enter c), [])"
| "co_step env now EvDriverRound c =
     (case election_driver_round (en_marshal env) (en_pb env) c of (c', outs, b) \<Rightarrow> (c', outs))"
| "co_step env now EvElect c =
     (case start_election (en_marshal env) (en_pb env) c of (c', outs, err) \<Rightarrow> (c', outs))"
| "co_step env now EvTakeRoleEvent c = (case take_event c of None \<Rightarrow> (c, []) | Some (ev, c') \<Rightarrow> (c', []))"
| "co_step env now (EvFailoverBegin target) c = (fst (failover_begin (en_pb env) target c), [])"
| "co_step env now (EvFailoverSend target s) c =
     (case failover_send (en_mhandoff env) (en_send_ok env) target s c of (c', outs, err) \<Rightarrow> (c', outs))"
| "co_step env now (EvFailoverFinish ack) c = (case failover_finish ack c of (c', outs, err) \<Rightarrow> (c', outs))"
| "co_step env now (EvSnapshotDone n ok) c =
     (if co_snapshotInProgress c > 0 then snapshot_done n ok c else (c, []))"
| "co_step env now EvPrune c = prune_tick (en_pb env) c"
| "co_step env now (EvLocalWrite op key val) c =
     (fst (LocalAppendFunc (en_pb env) (en_codec env) now op key val c), [])"
| "co_step env now (EvRemoveNode n) c = (fst (RemoveNode n c), [])"

fun co_run :: "'db co_env \<Rightarrow> (int \<times> co_event) list \<Rightarrow> 'db ClusterCoordinator \<Rightarrow> 'db ClusterCoordinator" where
  "co_run env [] c = c"
| "co_run env ((now, ev) # evs) c = co_run env evs (fst (co_step env now ev c))"

section \<open>Start\<close>

definition add_seed :: "int \<Rightarrow> string \<Rightarrow> 'db ClusterCoordinator \<Rightarrow> 'db ClusterCoordinator" where
  "add_seed now seed c =
     (let n = ''seed-'' @ seed;
          c1 = c\<lparr>co_mgr := AddConnPeer n seed (co_mgr c), co_msp := AddPeer now n seed RoleUnknown (co_msp c)\<rparr>
      in if cc_Role (co_cfg c) \<noteq> ''observer'' then c1\<lparr>co_election := RegisterVoter (co_election c1) n\<rparr> else c1)"

definition Run_setup :: "int \<Rightarrow> 'db ClusterCoordinator \<Rightarrow> 'db ClusterCoordinator" where
  "Run_setup now c =
     fold (add_seed now) (cc_Seeds (co_cfg c))
       (c\<lparr>co_election := (if cc_Role (co_cfg c) \<noteq> ''observer''
                          then RegisterVoter (co_election c) (cc_NodeID (co_cfg c))
                          else SetObserver (co_election c) True)\<rparr>)"

datatype run_error = RunElection election_error | RunNoSeeds

text \<open>\<open>Run\<close> up to the supervisor, or, for a sentinel and an observer, up to the wait.\<close>

definition co_start ::
  "'db co_env \<Rightarrow> int \<Rightarrow> (nat \<Rightarrow> string \<Rightarrow> nat + JoinResponse) \<Rightarrow> 'db ClusterCoordinator \<Rightarrow>
     'db ClusterCoordinator \<times> co_out list \<times> (run_error + runMode option)" where
  "co_start env now ask c0 =
     (let c = Run_setup now c0; r = cc_Role (co_cfg c0)
      in if r = ''replica'' then
           (c\<lparr>co_role := RoleReplica\<rparr>, [],
            if cc_Seeds (co_cfg c0) = [] then Inl RunNoSeeds else Inr (Some modeFollowing))
         else if r = ''sentinel'' then
           (c\<lparr>co_role := RoleSentinel, co_election := SetSentinel (co_election c) True\<rparr>, [], Inr None)
         else if r = ''observer'' then
           (c\<lparr>co_role := RoleObserver\<rparr>, [],
            if cc_Seeds (co_cfg c0) = [] then Inl RunNoSeeds else Inr None)
         else (case runAsCortex (en_pb env) (en_marshal env) ask c of
             (c', outs, Inl e) \<Rightarrow> (c', outs, Inl (RunElection e))
           | (c', outs, Inr mode) \<Rightarrow> (c', outs, Inr (Some mode))))"

end
