(* ===== verification/Cluster_Invariant.thy ===== *)
theory Cluster_Invariant
  imports Cluster_Node
begin

text \<open>
  The well-formedness of a coordinator and its preservation by every event: who leads, who
  drains, who streams and what the quorum clock is tied to.
\<close>

section \<open>Well-formedness\<close>

definition known_roles :: "NodeRole set" where
  "known_roles = {RoleUnknown, RolePrimary, RoleReplica, RoleSentinel, RoleObserver}"

text \<open>A leader's election is in the leader's state; only a leader remembers a quorum, times its
  loss, drains or streams; the role channel respects its capacity; no snapshot is ever under
  way and none has been announced, the handler having no database.\<close>

definition co_wf :: "'db ClusterCoordinator \<Rightarrow> bool" where
  "co_wf c \<longleftrightarrow>
     (co_role c = RolePrimary \<longrightarrow> state (co_election c) = ElectionLeader) \<and>
     (co_hadQuorum c \<longrightarrow> co_role c = RolePrimary) \<and>
     (co_quorumLostSince c \<noteq> None \<longrightarrow> co_hadQuorum c) \<and>
     (co_nodeState c = StateDraining \<longrightarrow> co_role c = RolePrimary) \<and>
     (co_streamers c \<noteq> [] \<longrightarrow> co_role c = RolePrimary) \<and>
     length (co_roleCh c) \<le> 4 \<and> co_role c \<in> known_roles \<and>
     \<not> jh_db (co_joinHandler c) \<and> co_snapshotInProgress c = 0 \<and> co_snapshotSeqs c = []"

named_theorems co_defs \<open>definitions of the coordinator's small steps\<close>

lemmas role_step_defs = handlePromotion_def handleDemotion_def pushRoleEvent_def

lemma roles_known [simp]:
  "RoleUnknown \<in> known_roles" "RolePrimary \<in> known_roles" "RoleReplica \<in> known_roles"
  by (simp_all add: known_roles_def)

lemma roles_distinct [simp]:
  "RolePrimary \<noteq> RoleReplica" "RoleReplica \<noteq> RolePrimary" "RoleUnknown \<noteq> RolePrimary"
  "RolePrimary \<noteq> RoleUnknown" "RoleSentinel \<noteq> RolePrimary" "RolePrimary \<noteq> RoleSentinel"
  "RoleObserver \<noteq> RolePrimary" "RolePrimary \<noteq> RoleObserver"
  by (simp_all add: NodeRole_defs)

lemma handlePromotion_wf: "co_wf c \<Longrightarrow> co_wf (fst (handlePromotion epoch c))"
  by (auto simp: co_wf_def role_step_defs)

lemma handleDemotion_wf:
  "length (co_roleCh c) \<le> 4 \<Longrightarrow> \<not> jh_db (co_joinHandler c) \<Longrightarrow> co_snapshotInProgress c = 0 \<Longrightarrow>
     co_snapshotSeqs c = [] \<Longrightarrow> co_wf (fst (handleDemotion cause c))"
  by (auto simp: co_wf_def role_step_defs)

text \<open>Fields that only the role changes touch.\<close>

lemma co_wf_cong:
  assumes "co_wf c" "co_role c' = co_role c" "co_hadQuorum c' = co_hadQuorum c"
    "co_quorumLostSince c' = co_quorumLostSince c" "co_nodeState c' = co_nodeState c"
    "co_streamers c' = [] \<or> co_streamers c \<noteq> [] \<or> co_role c = RolePrimary"
    "length (co_roleCh c') \<le> length (co_roleCh c)"
    "jh_db (co_joinHandler c') = jh_db (co_joinHandler c)"
    "co_snapshotInProgress c' = co_snapshotInProgress c" "co_snapshotSeqs c' = co_snapshotSeqs c"
    "state (co_election c) = ElectionLeader \<Longrightarrow> co_role c = RolePrimary \<Longrightarrow> state (co_election c') = ElectionLeader"
  shows "co_wf c'"
  using assms unfolding co_wf_def by (metis order_trans)

section \<open>The election's methods\<close>

lemma tryPromote_wf: "co_wf c \<Longrightarrow> co_election c = e0 \<Longrightarrow> state e = state e0 \<Longrightarrow>
    co_wf (fst (on_election (tryPromote marshal pb e epoch) c))"
  by (auto simp: tryPromote_def on_election_def broadcastClaim_def bcast_def role_step_defs co_wf_def Let_def
      split: prod.splits sum.splits bool.splits option.splits)

lemma vote_response_wf:
  assumes "co_wf c"
  shows "co_wf (fst (on_election (HandleVoteResponse marshal pb (co_election c) resp) c))"
proof -
  obtain e q where l: "HandleVoteResponse_locked (co_election c) resp = (e, q)" by fastforce
  then have st: "state e = state (co_election c)"
    by (auto simp: HandleVoteResponse_locked_def Let_def split: if_splits)
  show ?thesis
  proof (cases q)
    case True
    with l st tryPromote_wf[OF assms refl] show ?thesis by (simp add: HandleVoteResponse_def)
  next
    case False
    with l st assms show ?thesis
      by (auto simp: HandleVoteResponse_def on_election_def intro: co_wf_cong[OF assms])
  qed
qed

lemma start_election_wf:
  assumes "co_wf c"
  shows "co_wf (fst (start_election marshal pb c))"
proof -
  obtain e r where l: "StartElection_locked pb (co_election c) = (e, r)" by fastforce
  show ?thesis
  proof (cases "state (co_election c) = ElectionLeader")
    case True
    with l assms have "state e = ElectionLeader" "\<exists>x. r = Inl x"
      by (auto simp: StartElection_locked_def split: if_splits)
    with l assms show ?thesis
      by (auto simp: start_election_def StartElection_def on_election_def intro: co_wf_cong[OF assms])
  next
    case nl: False
    then have np: "co_role c \<noteq> RolePrimary" using assms by (auto simp: co_wf_def)
    define c1 where "c1 = c\<lparr>co_election := e\<rparr>"
    have c1: "co_wf c1" using np by (auto simp: c1_def intro: co_wf_cong[OF assms])
    have eq: "on_election (fst p, outs) c = on_election (fst p, outs) c1" for p :: "'a Election \<times> election_out list" and outs
      by (simp add: on_election_def c1_def)
    have p: "co_wf (fst (on_election (tryPromote marshal pb e n) c1))" for n
      by (rule tryPromote_wf[OF c1 refl]) (simp add: c1_def)
    have b: "co_wf (fst (on_election (e, outs) c1))" if "outs = [] \<or> (\<exists>m. outs = [Broadcast m])" for outs
      using that c1 by (auto simp: on_election_def c1_def)
    have bp: "fst (on_election (fst t, Broadcast m # snd t) c1) = fst (on_election t c1)" for m t
      by (simp add: on_election_def split: prod.split)
    show ?thesis
    proof (cases r)
      case (Inl x)
      with l c1 show ?thesis by (simp add: start_election_def StartElection_def c1_def on_election_def)
    next
      case (Inr y)
      obtain n q where y: "y = (n, q)" by fastforce
      show ?thesis
        using l Inr y p[of n] b bp c1[unfolded c1_def]
        by (auto simp: start_election_def StartElection_def Let_def c1_def on_election_def
            split: option.splits prod.splits)
    qed
  qed
qed

lemma claim_wf:
  assumes "co_wf c"
  shows "co_wf (fst (on_election (HandleCortexClaim marshal pb (co_election c) claim) c))"
  using assms
  by (auto simp: HandleCortexClaim_def on_election_def broadcastClaim_def bcast_def role_step_defs co_wf_def Let_def
      split: option.splits)

lemma vote_request_state:
  "state (fst (HandleVoteRequest pb e req)) = (if state e = ElectionCandidate \<and>
      state (fst (HandleVoteRequest pb e req)) \<noteq> ElectionCandidate then ElectionIdle else state e)"
  by (auto simp: HandleVoteRequest_def Let_def split: option.split)

lemma vote_request_leader: "state e = ElectionLeader \<Longrightarrow> state (fst (HandleVoteRequest pb e req)) = ElectionLeader"
  using vote_request_state[of pb e req] by (auto split: if_splits)

lemma small_election_steps:
  "state (RegisterVoter e n) = state e" "state (UnregisterVoter e n) = state e"
  "state e = ElectionLeader \<Longrightarrow> state (ResetCandidate e) = ElectionLeader"
  "state e = ElectionLeader \<Longrightarrow> state (ClearLeader e n) = ElectionLeader"
  by (simp_all add: RegisterVoter_def UnregisterVoter_def ResetCandidate_def ClearLeader_def Let_def)

section \<open>The coordinator's steps\<close>

lemma reconcile_fields:
  "co_role (reconcileJoinedPeer now n addr r c) = co_role c"
  "co_hadQuorum (reconcileJoinedPeer now n addr r c) = co_hadQuorum c"
  "co_quorumLostSince (reconcileJoinedPeer now n addr r c) = co_quorumLostSince c"
  "co_nodeState (reconcileJoinedPeer now n addr r c) = co_nodeState c"
  "co_streamers (reconcileJoinedPeer now n addr r c) = co_streamers c"
  "co_roleCh (reconcileJoinedPeer now n addr r c) = co_roleCh c"
  "co_joinHandler (reconcileJoinedPeer now n addr r c) = co_joinHandler c"
  "co_snapshotInProgress (reconcileJoinedPeer now n addr r c) = co_snapshotInProgress c"
  "co_snapshotSeqs (reconcileJoinedPeer now n addr r c) = co_snapshotSeqs c"
  "co_cfg (reconcileJoinedPeer now n addr r c) = co_cfg c"
  "state (co_election (reconcileJoinedPeer now n addr r c)) = state (co_election c)"
  "epochStore (co_election (reconcileJoinedPeer now n addr r c)) = epochStore (co_election c)"
  by (simp_all add: reconcileJoinedPeer_def Let_def small_election_steps RegisterVoter_def UnregisterVoter_def)

lemma reconcile_wf: "co_wf c \<Longrightarrow> co_wf (reconcileJoinedPeer now n addr r c)"
  by (simp add: co_wf_def reconcile_fields)

lemma quorum_wf: "co_wf c \<Longrightarrow> co_wf (fst (checkQuorumHealth now c))"
  by (auto simp: checkQuorumHealth_def IsLeader_def co_wf_def role_step_defs split: option.splits)

lemma startStreamer_wf: "co_wf c \<Longrightarrow> co_role c = RolePrimary \<Longrightarrow> co_wf (fst (startStreamerForLobe n c))"
  by (auto simp: co_wf_def startStreamerForLobe_def split: option.splits)

lemma recover_wf: "co_wf c \<Longrightarrow> co_wf (fst (on_recover n c))"
  using startStreamer_wf[of c n] by (auto simp: on_recover_def IsLeader_def)

lemma odown_wf: "co_wf c \<Longrightarrow> co_wf (fst (on_odown n c))"
  using small_election_steps(4)[of "co_election c" n] by (auto simp: on_odown_def Let_def co_wf_def)

lemma driver_round_wf: "co_wf c \<Longrightarrow> co_wf (fst (election_driver_round marshal pb c))"
proof -
  assume wf: "co_wf c"
  have r: "co_wf (c\<lparr>co_election := ResetCandidate (co_election c)\<rparr>)"
    using wf small_election_steps(3)[of "co_election c"] by (auto simp: co_wf_def)
  have e: "co_wf (c\<lparr>co_electing := b\<rparr>)" for b using wf by (simp add: co_wf_def)
  show ?thesis
    using start_election_wf[OF r, of marshal pb] e[of False] wf
    by (auto simp: election_driver_round_def Let_def split: prod.split)
qed

lemma head_seq_fields:
  "co_role (fst (head_seq pb c)) = co_role c" "co_hadQuorum (fst (head_seq pb c)) = co_hadQuorum c"
  "co_quorumLostSince (fst (head_seq pb c)) = co_quorumLostSince c"
  "co_nodeState (fst (head_seq pb c)) = co_nodeState c" "co_streamers (fst (head_seq pb c)) = co_streamers c"
  "co_roleCh (fst (head_seq pb c)) = co_roleCh c" "co_joinHandler (fst (head_seq pb c)) = co_joinHandler c"
  "co_snapshotInProgress (fst (head_seq pb c)) = co_snapshotInProgress c"
  "co_snapshotSeqs (fst (head_seq pb c)) = co_snapshotSeqs c"
  "co_election (fst (head_seq pb c)) = co_election c" "co_cfg (fst (head_seq pb c)) = co_cfg c"
  "co_replicaSeqs (fst (head_seq pb c)) = co_replicaSeqs c" "co_mgr (fst (head_seq pb c)) = co_mgr c"
  by (simp_all add: head_seq_def split: prod.split)

lemma HandleJoinRequest_jdb: "jh_db (fst (HandleJoinRequest hmac ep s li req h)) = jh_db h"
  "\<not> jh_db h \<Longrightarrow> \<not> jr_NeedsSnapshot (snd (HandleJoinRequest hmac ep s li req h))"
  by (auto simp: HandleJoinRequest_def Let_def no_response_def split: option.splits bool.splits)

lemma OnLobeJoined_wf: "co_wf c \<Longrightarrow> co_role c = RolePrimary \<Longrightarrow> co_wf (fst (OnLobeJoined n c))"
  using startStreamer_wf[of c] by (auto simp: OnLobeJoined_def split: option.split)

lemma join_wf:
  assumes "co_wf c"
  shows "co_wf (fst (HandleIncomingJoin pb hmac send_ok now conn payload c))"
proof (cases payload)
  case (Inl e)
  with assms show ?thesis by (simp add: HandleIncomingJoin_def)
next
  case (Inr req)
  show ?thesis
  proof (cases "jq_Probe req \<or> \<not> IsLeader c")
    case True
    with Inr assms show ?thesis by (auto simp: HandleIncomingJoin_def Let_def)
  next
    case False
    let ?n = "jq_NodeID req"
    let ?c1 = "c\<lparr>co_mgr := RegisterConn ?n (jq_Addr req) conn (co_mgr c)\<rparr>"
    obtain c2 sq where hs: "head_seq pb ?c1 = (c2, sq)" by fastforce
    obtain h resp where hj: "HandleJoinRequest hmac (CurrentEpoch c2) sq (Some (LeaderInfo c2)) req
        (co_joinHandler c2) = (h, resp)" by fastforce
    let ?c3 = "c2\<lparr>co_joinHandler := h\<rparr>"
    note f = head_seq_fields[of pb ?c1, unfolded hs fst_conv]
    have db: "\<not> jh_db (co_joinHandler c2)" "\<not> jh_db h" "\<not> jr_NeedsSnapshot resp"
      using HandleJoinRequest_jdb(1)[of hmac "CurrentEpoch c2" sq "Some (LeaderInfo c2)" req "co_joinHandler c2"]
        HandleJoinRequest_jdb(2)[of "co_joinHandler c2" hmac "CurrentEpoch c2" sq "Some (LeaderInfo c2)" req]
        assms f hj by (auto simp: co_wf_def)
    have c3: "co_wf ?c3" "co_role ?c3 = RolePrimary"
      using assms f db False by (auto simp: co_wf_def IsLeader_def)
    have c4: "co_wf (fst (OnLobeJoined ?n (reconcileJoinedPeer now ?n a r ?c3)))"
        "co_wf (fst (OnLobeJoined ?n ?c3))" for a r
      using OnLobeJoined_wf[OF reconcile_wf[OF c3(1)]] OnLobeJoined_wf[OF c3] c3(2)
      by (simp_all add: reconcile_fields)
    have sf: "co_wf (?c3\<lparr>co_mgr := m\<rparr>)" for m using c3(1) by (simp add: co_wf_def)
    show ?thesis
      using Inr False hs hj db sf c4 by (simp add: HandleIncomingJoin_def Let_def split_beta)
  qed
qed

lemma hello_wf: "co_wf c \<Longrightarrow> co_wf (fst (adoptHelloPeer now conn peer canonical c))"
  using reconcile_wf[of "c\<lparr>co_mgr := m\<rparr>" now "ph_NodeID peer" "ph_Addr peer" "ph_Role peer" for m]
  by (auto simp: adoptHelloPeer_def Let_def co_wf_def split: prod.splits bool.splits)

lemma set_epochs_wf [simp]: "co_wf (set_epochs st c) = co_wf c"
  by (simp add: co_wf_def set_epochs_def)

lemma PersistRole_wf: "co_wf c \<Longrightarrow> co_wf (fst (co_PersistRole pb r c))"
  by (simp add: co_PersistRole_def split: prod.split)

lemma take_leadership_wf: "co_wf c \<Longrightarrow> co_wf (fst (take_leadership epoch c))"
  by (auto simp: take_leadership_def co_wf_def role_step_defs)

lemma handoff_wf:
  assumes "co_wf c"
  shows "co_wf (fst (HandleHandoff pb marshal mack send_ok from msg c))"
proof -
  have p: "co_wf (fst (co_PersistRole pb r (set_epochs st c)))" for r st
    using assms by (simp add: PersistRole_wf)
  have t: "co_wf (fst (take_leadership n (fst (co_PersistRole pb r (set_epochs st c)))))" for n r st
    using take_leadership_wf[OF p] .
  show ?thesis
    using assms p t PersistRole_wf[OF t]
    by (simp add: HandleHandoff_def Let_def split_beta split: sum.split bool.split option.split)
qed

lemma failover_wf:
  assumes "co_wf c"
  shows "co_wf (fst (failover_begin pb target c))"
    and "co_wf (fst (failover_send mh send_ok target s c))"
    and "co_wf (fst (failover_finish ack c))"
    and "co_wf (HandleHandoffAck a c)"
  subgoal using assms head_seq_fields[of pb "c\<lparr>co_nodeState := StateDraining\<rparr>"]
    by (auto simp: failover_begin_def co_wf_def IsLeader_def split_beta)
  subgoal using assms
    by (auto simp: failover_send_def failover_abort_def co_wf_def Let_def split: option.split)
  subgoal using assms
    by (auto simp: failover_finish_def failover_abort_def co_wf_def Let_def role_step_defs split: option.split)
  subgoal using assms by (auto simp: HandleHandoffAck_def co_wf_def split: option.split list.split)
  done

lemma leave_jdb: "jh_db (fst (HandleLeave n h m)) = jh_db h"
  by (simp add: HandleLeave_def)

lemma frame_wf:
  assumes "co_wf c"
  shows "co_wf (fst (HandleIncomingFrame env now from frame c))"
proof -
  have m: "co_wf (fst (with_msp r c))" for r using assms by (simp add: with_msp_def co_wf_def)
  have v: "co_wf (c\<lparr>co_election := fst (HandleVoteRequest pb (co_election c) req)\<rparr>)" for pb req
    using assms vote_request_leader[of "co_election c" pb req] by (auto simp: co_wf_def)
  have l: "co_wf (c\<lparr>co_joinHandler := fst (HandleLeave n (co_joinHandler c) (co_mgr c)), co_mgr := mg,
      co_streamers := removeAll n (co_streamers c)\<rparr>)"
    "co_wf (c\<lparr>co_joinHandler := fst (HandleLeave n (co_joinHandler c) (co_mgr c)), co_mgr := mg\<rparr>)" for n mg
    using assms leave_jdb[of n "co_joinHandler c" "co_mgr c"] by (auto simp: co_wf_def)
  have a: "co_wf (c\<lparr>co_applier := ap\<rparr>)" "co_wf (UpdateReplicaSeq n s c)" for ap n s
    using assms by (simp_all add: co_wf_def UpdateReplicaSeq_def)
  show ?thesis
    using assms m v l a vote_response_wf[OF assms] claim_wf[OF assms] handoff_wf[OF assms] failover_wf(4)[OF assms]
    by (simp add: HandleIncomingFrame_def Let_def split_beta stopStreamerForLobe_def
        split: incoming_frame.split sum.split prod.split)
qed

lemma evict_wf: "co_wf c \<Longrightarrow> co_wf (fst (evictLobe n c))"
  by (auto simp: evictLobe_def stopStreamerForLobe_def co_wf_def Let_def split: option.split)

lemma evict_all_wf: "co_wf c \<Longrightarrow> co_wf (fst (evict_all ns c))"
  by (induction ns arbitrary: c) (simp_all add: split_beta evict_wf)

lemma prune_wf:
  assumes "co_wf c"
  shows "co_wf (fst (prune_tick pb c))"
proof -
  have h: "co_wf (fst (head_seq pb c))" using assms by (simp add: co_wf_def head_seq_fields)
  then have w: "co_wf (fst (pruneWatermark pb c))"
    using assms by (simp add: pruneWatermark_def Let_def split_beta)
  have u: "co_wf c' \<Longrightarrow> co_wf (c'\<lparr>co_repLog := l\<rparr>)"
    "co_wf c' \<Longrightarrow> co_wf (c'\<lparr>co_repLog := l, co_lastLoggedPruneSeq := s\<rparr>)" for c' :: "'a ClusterCoordinator" and l s
    by (simp_all add: co_wf_def)
  show ?thesis
    using assms w u[OF w] u[OF evict_all_wf[OF w]]
    by (simp add: prune_tick_def evictLobesBehind_def Let_def split_beta split: option.split prod.split)
qed

lemma local_write_wf: "co_wf c \<Longrightarrow> co_wf (fst (LocalAppendFunc pb cdc now op key val c))"
  by (auto simp: LocalAppendFunc_def co_wf_def split: prod.split sum.split)

lemma remove_node_wf: "co_wf c \<Longrightarrow> co_wf (fst (RemoveNode n c))"
  by (auto simp: RemoveNode_def co_wf_def stopStreamerForLobe_def small_election_steps)

lemma joined_cortex_wf:
  assumes "co_wf c"
  shows "co_wf (fst (joined_cortex env now conn seeds resp c))"
proof -
  have "co_wf (c\<lparr>co_mgr := m\<rparr>)" for m using assms by (simp add: co_wf_def)
  from reconcile_wf[OF this] claim_wf[OF reconcile_wf[OF this]] assms show ?thesis
    by (simp add: joined_cortex_def Let_def)
qed

section \<open>Runs\<close>

lemma co_step_wf:
  assumes "co_wf c"
  shows "co_wf (fst (co_step env now ev c))"
proof (cases ev)
  case (EvJoin conn payload)
  with join_wf[OF assms, of "en_pb env" "en_hmac env" "en_send_ok env" now conn payload] show ?thesis
    by (simp add: split_beta)
next
  case (EvSnapshotDone n ok)
  with assms show ?thesis by (simp add: co_wf_def)
next
  case EvTakeRoleEvent
  with assms show ?thesis by (auto simp: take_event_def co_wf_def split: list.split)
qed (use assms hello_wf[OF assms] frame_wf[OF assms] quorum_wf[OF assms] odown_wf[OF assms] recover_wf[OF assms]
    driver_round_wf[OF assms] start_election_wf[OF assms] failover_wf[OF assms] prune_wf[OF assms]
    local_write_wf[OF assms] remove_node_wf[OF assms] joined_cortex_wf[OF assms] in
  \<open>simp_all add: split_beta HandleIncomingHello_def helloDial_def stream_ended_def EvictConn_def with_msp_def
     on_addr_changed_def election_driver_enter_def co_wf_def split: sum.split prod.split\<close>)

lemma co_run_wf: "co_wf c \<Longrightarrow> co_wf (co_run env evs c)"
  by (induction env evs c rule: co_run.induct) (simp_all add: co_step_wf)

section \<open>Start\<close>

lemma new_wf: "co_wf (NewClusterCoordinator cfg l a es)"
  by (simp add: co_wf_def NewClusterCoordinator_def Let_def NewJoinHandler_def)

lemma add_seed_wf: "co_wf c \<Longrightarrow> co_wf (add_seed now s c)"
  by (auto simp: add_seed_def co_wf_def Let_def small_election_steps)

lemma fold_seed_wf: "co_wf c \<Longrightarrow> co_wf (fold (add_seed now) ss c)"
  by (induction ss arbitrary: c) (simp_all add: add_seed_wf)

lemma setup_wf: "co_wf c \<Longrightarrow> co_wf (Run_setup now c)"
  unfolding Run_setup_def
  by (rule fold_seed_wf) (simp add: co_wf_def RegisterVoter_def SetObserver_def)

lemma callbacks_broadcast_wf:
  fixes c :: "'db ClusterCoordinator" and e :: "'db Election"
  shows "co_wf c \<Longrightarrow> co_wf (fst (election_callbacks (broadcastClaim marshal e n) c))"
  by (auto simp: broadcastClaim_def bcast_def split: option.split)

lemma bootstrap_wf:
  assumes "co_wf c"
  shows "co_wf (fst (bootstrapPromoteIfDesignatedPrimary marshal c))"
  using assms callbacks_broadcast_wf[OF take_leadership_wf[OF assms]]
  by (simp add: bootstrapPromoteIfDesignatedPrimary_def Let_def split_beta)

lemma runAsCortex_wf:
  fixes c :: "'a ClusterCoordinator"
  assumes "co_wf c" "co_role c = RoleUnknown"
  shows "co_wf (fst (runAsCortex pb marshal ask c))"
proof -
  have r: "co_wf (c\<lparr>co_role := RoleReplica\<rparr>)" using assms by (auto simp: co_wf_def)
  have e: "co_wf (fst (start_election marshal pb c))" using start_election_wf[OF assms(1)] .
  have cl: "co_wf (fst (on_election (HandleCortexClaim marshal pb (co_election c) claim) (c\<lparr>co_role := RoleReplica\<rparr>)))" for claim
    using claim_wf[OF r, of marshal pb claim] by simp
  have t: "co_wf (fst (co_PersistRole pb '''' (fst (election_callbacks
      (broadcastClaim marshal x n) (fst (take_leadership n c))))))" for x :: "'a Election" and n
    by (intro PersistRole_wf callbacks_broadcast_wf take_leadership_wf assms)
  have w: "co_wf (fst (elect_at_start marshal pb assertive c))" for assertive
    using e bootstrap_wf[OF e, of marshal] by (simp add: elect_at_start_def split_beta split: option.split)
  show ?thesis
    unfolding runAsCortex_def Let_def
    using w cl t by (simp add: split_beta split: option.split prod.split)
qed

lemma setup_role: "co_role (Run_setup now c) = co_role c"
proof -
  have "co_role (fold (add_seed now) ss c) = co_role c" for ss and c :: "'a ClusterCoordinator"
    by (induction ss arbitrary: c) (simp_all add: add_seed_def Let_def)
  then show ?thesis by (simp add: Run_setup_def)
qed

lemma start_wf: "co_wf (fst (co_start env now ask (NewClusterCoordinator cfg l a es)))"
proof -
  let ?c = "Run_setup now (NewClusterCoordinator cfg l a es)"
  have c: "co_wf ?c" by (rule setup_wf[OF new_wf])
  have u: "co_role ?c = RoleUnknown" unfolding setup_role by (simp add: NewClusterCoordinator_def Let_def)
  have "co_wf (?c\<lparr>co_role := RoleReplica\<rparr>)" "co_wf (?c\<lparr>co_role := RoleObserver\<rparr>)"
    "co_wf (?c\<lparr>co_role := RoleSentinel, co_election := e\<rparr>)" for e
    using c u by (auto simp: co_wf_def known_roles_def)
  then show ?thesis
    using runAsCortex_wf[OF c u, of "en_pb env" "en_marshal env" ask]
    by (simp add: co_start_def Let_def split_beta split: sum.split prod.split)
qed

end
