(* ===== verification/Cluster_Props.thy ===== *)
theory Cluster_Props
  imports Cluster_Invariant
begin

text \<open>
  Properties of the cluster node: its well-formedness, who may join and what a rejected join
  leaves behind, the conservation of the voters, the quorum watchdog, and leadership taken over
  without a vote.
\<close>

section \<open>Well-formedness\<close>

text \<open>Whatever happens to a started node -- frames, joins, hellos, ticks, elections, handoffs,
  snapshots, prunes, removals, in any order, each handled to its end before the next; for handlers that
  interleave see \<open>Cluster_Roles\<close> -- its role is one of the five, its role events fit
  the channel, and only while its own election says that it leads does it lead; only a leader
  remembers a quorum, times its loss, drains or streams to lobes.\<close>

theorem cluster_node_well_formed:
  "co_wf (co_run env evs (fst (co_start env now ask (NewClusterCoordinator cfg l a es))))"
  by (rule co_run_wf[OF start_wf])

section \<open>Joins\<close>

lemma live_RegisterConn: "live_conn (RegisterConn n addr conn m) k = (if k = n then Some conn else live_conn m k)"
  by (simp add: live_conn_def conn_simps NewPeerConnFromConn_def)

lemma head_seq_conn: "co_joinHandler (fst (head_seq pb c)) = co_joinHandler c" "CurrentEpoch (fst (head_seq pb c)) = CurrentEpoch c"
  "IsLeader (fst (head_seq pb c)) = IsLeader c"
  by (simp_all add: head_seq_fields CurrentEpoch_def IsLeader_def)

text \<open>A leader's answer to a join that it does not admit, on a connection it can write to.\<close>

lemma rejected_join:
  assumes lead: "IsLeader c" and req: "\<not> jq_Probe req"
    and sec: "\<not> ValidSecret hmac (jh_clusterSecret (co_joinHandler c)) (jq_NodeID req) (jq_Role req)
      (jq_ProtocolVersion req) (jq_SecretHash req)"
    and send: "send_ok (jq_NodeID req)"
    and run: "HandleIncomingJoin pb hmac send_ok now conn (Inr req) c = (c', outs, n, adopted, err)"
  defines "c2 \<equiv> fst (head_seq pb (c\<lparr>co_mgr := RegisterConn (jq_NodeID req) (jq_Addr req) conn (co_mgr c)\<rparr>))"
  shows "n = jq_NodeID req \<and> adopted \<and> err = None \<and>
    (\<exists>resp. \<not> jr_Accepted resp \<and> (c', outs) =
      (fst (OnLobeJoined n c2), OutSend n (MsgJoinResponse resp) # snd (OnLobeJoined n c2)))"
proof -
  let ?c1 = "c\<lparr>co_mgr := RegisterConn (jq_NodeID req) (jq_Addr req) conn (co_mgr c)\<rparr>"
  note f = head_seq_fields[of pb ?c1, folded c2_def]
  obtain sq where hs: "head_seq pb ?c1 = (c2, sq)" unfolding c2_def by (metis surjective_pairing)
  let ?r = "HandleJoinRequest hmac (CurrentEpoch c2) sq (Some (LeaderInfo c2)) req (co_joinHandler c2)"
  have li: "LeaderInfo c2 = (True, cc_NodeID (co_cfg c2), co_advertiseAddr c2)"
    using lead f by (simp add: LeaderInfo_def IsLeader_def)
  have "\<not> admissible hmac (jh_clusterSecret (co_joinHandler c2)) (CurrentEpoch c2) True req"
    using sec f by (simp add: admissible_def)
  from HandleJoinRequest_cases(2)[OF refl this, of sq "cc_NodeID (co_cfg c2)" "co_advertiseAddr c2"]
  have r: "\<not> jr_Accepted (snd ?r)" "fst ?r = co_joinHandler c2" by (simp_all add: li)
  have ns: "\<not> jr_NeedsSnapshot (snd ?r)"
    using sec f by (auto simp: HandleJoinRequest_def Let_def no_response_def split: if_splits)
  have c2: "c2\<lparr>co_joinHandler := co_joinHandler c2\<rparr> = c2" by simp
  have "can_send send_ok c2 (jq_NodeID req)"
    using send f by (simp add: can_send_def conn_simps IsConnected_def NewPeerConnFromConn_def)
  then show ?thesis
    using run lead req hs r ns c2 by (auto simp: HandleIncomingJoin_def Let_def split_beta)
qed

text \<open>C18.  A join request with a wrong cluster secret is answered with a rejection, but by then the
  leader has replaced the connection of the node that the request names, closing the old one;
  the connection is adopted, so that its further frames are handled as that node's, and if that
  node is a member the leader starts to stream its log to the unauthenticated connection.\<close>

theorem rejected_join_is_adopted:
  assumes "IsLeader c" "\<not> jq_Probe req"
    and "\<not> ValidSecret hmac (jh_clusterSecret (co_joinHandler c)) (jq_NodeID req) (jq_Role req)
      (jq_ProtocolVersion req) (jq_SecretHash req)"
    and "send_ok (jq_NodeID req)"
    and "map_of (jh_members (co_joinHandler c)) (jq_NodeID req) = Some info" "ni_NodeID info = jq_NodeID req"
    and "HandleIncomingJoin pb hmac send_ok now conn (Inr req) c = (c', outs, n, adopted, err)"
  shows "adopted \<and> err = None \<and> n = jq_NodeID req \<and> live_conn (co_mgr c') n = Some conn \<and>
    (\<exists>resp. \<not> jr_Accepted resp \<and> outs = [OutSend n (MsgJoinResponse resp), OutStream n (streamStartSeq n c)]) \<and>
    n \<in> set (co_streamers c') \<and>
    (\<forall>old. live_conn (co_mgr c) n = Some old \<longrightarrow> old \<in> set (cm_closedConns (co_mgr c')))"
proof -
  let ?n = "jq_NodeID req"
  let ?m = "RegisterConn ?n (jq_Addr req) conn (co_mgr c)"
  let ?c2 = "fst (head_seq pb (c\<lparr>co_mgr := ?m\<rparr>))"
  have f: "co_mgr ?c2 = ?m" "co_joinHandler ?c2 = co_joinHandler c" "co_replicaSeqs ?c2 = co_replicaSeqs c"
    "co_snapshotSeqs ?c2 = co_snapshotSeqs c" "co_streamers ?c2 = co_streamers c"
    by (simp_all add: head_seq_fields)
  have j: "OnLobeJoined ?n ?c2 = (?c2\<lparr>co_streamers := List.insert ?n (co_streamers c)\<rparr>, [OutStream ?n (streamStartSeq ?n c)])"
    using assms(5,6) f
    by (simp add: OnLobeJoined_def FireOnLobeJoined_def startStreamerForLobe_def conn_simps streamStartSeq_def)
  have old: "old \<in> set (cm_closedConns ?m)" if "live_conn (co_mgr c) ?n = Some old" for old
    using that by (auto simp: live_conn_def RegisterConn_def put_peer_def close_existing_def PeerConn_Close_def
        split: option.splits if_splits)
  from rejected_join[OF assms(1-4,7)] show ?thesis
    using old by (auto simp: j f live_RegisterConn)
qed

section \<open>Leadership without a vote\<close>

lemma take_leadership_fields:
  "epochStore (co_election (fst (take_leadership n c))) = epochStore (co_election c)"
  "state (co_election (fst (take_leadership n c))) = ElectionLeader"
  "currentLeader (co_election (fst (take_leadership n c))) = cc_NodeID (co_cfg c)"
  "co_role (fst (take_leadership n c)) = RolePrimary"
  "co_cfg (fst (take_leadership n c)) = co_cfg c"
  by (simp_all add: take_leadership_def role_step_defs)

lemma PersistRole_ok:
  assumes "pebble_spec pb view" "PersistRole pb st r = (st', None)"
  shows "view (es_db st') = (view (es_db st))(nodeRoleKey \<mapsto> str_bytes r)" "Load st' = Load st"
  using assms(2) spec_set[OF assms(1)] by (auto simp: PersistRole_def Load_def split: sum.splits)

lemma Advance_ok:
  assumes "pebble_spec pb view" "Advance pb st n = (st', Inr True)"
  shows "view (es_db st') = (view (es_db st))(clusterEpochKey \<mapsto> PutUint64 n)" "Load st' = n"
  using assms(2) spec_set[OF assms(1)] by (auto simp: Advance_def persist_def Load_def split: if_splits sum.splits)

lemma Advance_forward:
  assumes "pebble_reliable pb" "Load st < n"
  shows "\<exists>st'. Advance pb st n = (st', Inr True)"
  using reliable_set[OF assms(1), of "es_db st" clusterEpochKey "PutUint64 n"] assms(2)
  by (auto simp: Advance_def persist_def Load_def)

lemma set_epochs_sel [simp]: "epochStore (co_election (set_epochs st c)) = st" "co_cfg (set_epochs st c) = co_cfg c"
  by (simp_all add: set_epochs_def)

text \<open>A handoff that ends at the acknowledgement has made the node leader and left the record of the
  role on disk.\<close>

lemma handoff_unacknowledged:
  assumes spec: "pebble_spec pb view"
    and run: "HandleHandoff pb marshal mack send_ok from msg c = (c1, outs, Some err)"
    and err: "err = HoSendAck from \<or> err = HoNoPeer from \<or> err = HoMarshalAck"
  shows "IsLeader c1 \<and> Load (epochStore (co_election c1)) = ho_Epoch msg + 1 \<and>
    view (es_db (epochStore (co_election c1))) nodeRoleKey = Some (str_bytes ''cortex'')"
proof -
  let ?n = "ho_Epoch msg + 1"
  obtain st where st: "Advance pb (epochStore (co_election c)) ?n = (st, Inr True)"
    using run err by (auto simp: HandleHandoff_def Let_def split: if_splits prod.splits sum.splits bool.splits)
  obtain st2 where st2: "PersistRole pb st ''cortex'' = (st2, None)"
    using run err st
    by (auto simp: HandleHandoff_def Let_def co_PersistRole_def split: if_splits prod.splits option.splits)
  have c1: "c1 = fst (take_leadership ?n (set_epochs st2 (set_epochs st c)))"
    using run err st st2
    by (auto simp: HandleHandoff_def Let_def co_PersistRole_def split_beta split: if_splits option.splits)
  show ?thesis
    unfolding c1 IsLeader_def take_leadership_fields
    using PersistRole_ok[OF spec st2] Advance_ok[OF spec st] by simp
qed

lemma claim_from_higher_epoch:
  assumes spec: "pebble_spec pb view" "pebble_reliable pb"
    and ep: "Load (epochStore (co_election c)) < claim_Epoch claim"
    and run: "on_election (HandleCortexClaim marshal pb (co_election c) claim) c = (c2, outs)"
  shows "Load (epochStore (co_election c2)) = claim_Epoch claim \<and>
    currentLeader (co_election c2) = CortexID claim \<and>
    (state (co_election c) = ElectionLeader \<longrightarrow> \<not> IsLeader c2) \<and>
    view (es_db (epochStore (co_election c2))) =
      (view (es_db (epochStore (co_election c))))(clusterEpochKey \<mapsto> PutUint64 (claim_Epoch claim))"
proof -
  obtain st where st: "Advance pb (epochStore (co_election c)) (claim_Epoch claim) = (st, Inr True)"
    using Advance_forward[OF spec(2) ep] by blast
  have n: "\<not> claim_Epoch claim < Load (epochStore (co_election c))"
    "claim_Epoch claim \<noteq> Load (epochStore (co_election c))" using ep by auto
  show ?thesis
    using run n st Advance_ok[OF spec(1) st]
    by (auto simp: HandleCortexClaim_def on_election_def Let_def role_step_defs IsLeader_def split: if_splits)
qed

lemma restart_state:
  "epochStore (co_election (Run_setup now (NewClusterCoordinator cfg l a es))) = es"
proof -
  have "epochStore (co_election (fold (add_seed now) ss c)) = epochStore (co_election c)"
    for ss and c :: "'a ClusterCoordinator"
    by (induction ss arbitrary: c) (simp_all add: add_seed_def Let_def RegisterVoter_def)
  then show ?thesis
    by (simp add: Run_setup_def NewClusterCoordinator_def Let_def RegisterVoter_def SetObserver_def NewElection_def)
qed

lemma setup_cfg: "co_cfg (Run_setup now c) = co_cfg c"
proof -
  have "co_cfg (fold (add_seed now) ss c) = co_cfg c" for ss and c :: "'a ClusterCoordinator"
    by (induction ss arbitrary: c) (simp_all add: add_seed_def Let_def)
  then show ?thesis by (simp add: Run_setup_def)
qed

lemma callbacks_broadcast: "fst (election_callbacks (broadcastClaim marshal e n) c) = c"
  "snd (election_callbacks (broadcastClaim marshal e n) c) =
     (case marshal (MCortexClaim \<lparr>CortexID = localNodeID e, claim_Epoch = n, FencingToken = n\<rparr>) of
        None \<Rightarrow> []
      | Some p \<Rightarrow> [OutBroadcast (MCortexClaim \<lparr>CortexID = localNodeID e, claim_Epoch = n, FencingToken = n\<rparr>)])"
  by (auto simp: broadcastClaim_def bcast_def split: option.split)

text \<open>A start with the role record on disk leads at once, in the epoch on disk.\<close>

lemma start_with_breadcrumb:
  assumes spec: "pebble_spec (en_pb env) view" "pebble_reliable (en_pb env)"
    and disk: "view (es_db es) nodeRoleKey = Some (str_bytes ''cortex'')" "Load es > 0"
    and role: "cc_Role cfg \<notin> {''replica'', ''sentinel'', ''observer''}"
  shows "IsLeader (fst (co_start env now ask (NewClusterCoordinator cfg l a es))) \<and>
    CurrentEpoch (fst (co_start env now ask (NewClusterCoordinator cfg l a es))) = Load es"
proof -
  let ?c = "Run_setup now (NewClusterCoordinator cfg l a es)"
  note es = restart_state[of now cfg l a es]
  have "pb_get (en_pb env) (es_db es) nodeRoleKey = Found (str_bytes ''cortex'')"
    using spec_get_Some[OF spec(1) disk(1)] spec(2) by (auto simp: pebble_reliable_def)
  then have lr: "LoadRole (en_pb env) es = Inr ''cortex''"
    by (simp only: LoadRole_def get_result.case bytes_str_str_bytes)
  have p: "Load (fst (PersistRole (en_pb env) s r)) = Load s" for s r
    by (simp add: PersistRole_def Load_def split: sum.split)
  let ?t = "fst (take_leadership (Load es) ?c)"
  have t: "IsLeader ?t" "CurrentEpoch ?t = Load es"
    using es by (simp_all add: IsLeader_def CurrentEpoch_def take_leadership_fields)
  have run: "fst (runAsCortex (en_pb env) (en_marshal env) ask ?c) = fst (co_PersistRole (en_pb env) '''' ?t)"
    using lr es disk(2) by (simp add: runAsCortex_def CurrentEpoch_def Let_def split_beta callbacks_broadcast)
  have "IsLeader (fst (co_PersistRole (en_pb env) '''' ?t))"
    "CurrentEpoch (fst (co_PersistRole (en_pb env) '''' ?t)) = Load es"
    using t p by (simp_all add: co_PersistRole_def split_beta IsLeader_def CurrentEpoch_def set_epochs_def)
  moreover have "fst (co_start env now ask (NewClusterCoordinator cfg l a es)) =
      fst (runAsCortex (en_pb env) (en_marshal env) ask ?c)"
    using role by (simp add: co_start_def Let_def split_beta NewClusterCoordinator_def split: sum.split)
  ultimately show ?thesis unfolding run by simp
qed

text \<open>C19.  A node that took over by a handoff whose acknowledgement could not be sent, and that then
  follows a leader elected in a later epoch, leads again as soon as it is restarted: without a
  vote, and in the epoch of that other leader.\<close>

theorem unsent_ack_second_leader:
  assumes "pebble_spec (en_pb env) view" "pebble_reliable (en_pb env)"
    and "HandleHandoff (en_pb env) marshal mack send_ok from msg c = (c1, outs, Some err)"
      "err = HoSendAck from \<or> err = HoNoPeer from \<or> err = HoMarshalAck"
    and "ho_Epoch msg + 1 < claim_Epoch claim"
      "on_election (HandleCortexClaim marshal (en_pb env) (co_election c1) claim) c1 = (c2, outs2)"
    and "cc_Role cfg \<notin> {''replica'', ''sentinel'', ''observer''}"
  shows "\<not> IsLeader c2 \<and> currentLeader (co_election c2) = CortexID claim \<and>
    (\<exists>es. NewEpochStore (en_pb env) (es_db (epochStore (co_election c2))) = Inr es \<and>
       IsLeader (fst (co_start env now ask (NewClusterCoordinator cfg l a es))) \<and>
       CurrentEpoch (fst (co_start env now ask (NewClusterCoordinator cfg l a es))) = claim_Epoch claim)"
proof -
  note h = handoff_unacknowledged[OF assms(1,3,4)]
  have st: "state (co_election c1) = ElectionLeader \<or> \<not> IsLeader c2"
  proof -
    obtain c0 n where "c1 = fst (take_leadership n c0)"
      using assms(3,4)
      by (auto simp: HandleHandoff_def Let_def split_beta split: if_splits option.splits sum.splits bool.splits)
    then show ?thesis by (simp add: take_leadership_fields)
  qed
  have ep: "Load (epochStore (co_election c1)) < claim_Epoch claim" using h assms(5) by simp
  note k = claim_from_higher_epoch[OF assms(1,2) ep assms(6)]
  let ?d = "es_db (epochStore (co_election c2))"
  let ?es = "\<lparr>es_db = ?d, es_current = claim_Epoch claim\<rparr>"
  have new: "NewEpochStore (en_pb env) ?d = Inr ?es"
    by (rule NewEpochStore_reads[OF assms(1,2)]) (use k in simp)
  have r: "view (es_db ?es) nodeRoleKey = Some (str_bytes ''cortex'')" using k h nodeRoleKey_neq[symmetric] by simp
  have "Load ?es > 0"
    using ep by (simp add: Load_def) (metis not_less_zero word_neq_0_conv word_zero_le linorder_not_less)
  from start_with_breadcrumb[OF assms(1,2) r this assms(7), of now ask l a] k st new show ?thesis
    by (auto simp: Load_def)
qed

definition wit_cfg :: "node_id \<Rightarrow> ClusterConfig" where
  "wit_cfg n = \<lparr>cc_NodeID = n, cc_Role = ''auto'', cc_Seeds = [], cc_BindAddr = ''10.0.0.1'',
     cc_AdvertiseAddr = '''', cc_ClusterSecret = ''secret'', cc_QuorumLossTimeoutSec = 5,
     cc_MaxLogBacklog = 2\<rparr>"

definition wit_env :: "(bytes \<times> bytes) list co_env" where
  "wit_env = \<lparr>en_pb = mem_pebble, en_codec = \<lparr>ec_marshal = (\<lambda>e. Inl 0), ec_unmarshal = (\<lambda>b. Inl 0)\<rparr>,
     en_repr = (\<lambda>b. Inl 0), en_ping = (\<lambda>b. Inl 0), en_marshal = (\<lambda>m. Some []), en_mack = (\<lambda>m. Some []),
     en_mhandoff = (\<lambda>m. Some []), en_hmac = wit_hmac, en_send_ok = (\<lambda>n. True)\<rparr>"

definition wit_node :: "(bytes \<times> bytes) list ClusterCoordinator" where
  "wit_node = NewClusterCoordinator (wit_cfg ''b'') (NewReplicationLog [])
     \<lparr>ap_db = [], ap_lastApplied = 0, ap_appliedSince = 0\<rparr> \<lparr>es_db = [], es_current = 3\<rparr>"

lemma wit_env_sel [simp]: "en_pb wit_env = mem_pebble" "en_marshal wit_env = (\<lambda>m. Some [])"
  "en_mack wit_env = (\<lambda>m. Some [])" "en_send_ok wit_env = (\<lambda>n. True)" "en_hmac wit_env = wit_hmac"
  by (simp_all add: wit_env_def)

theorem unsent_ack_second_leader_witness:
  "\<exists>c1 outs. HandleHandoff mem_pebble (\<lambda>m. Some []) (\<lambda>m. Some []) (\<lambda>n. True) ''a''
       \<lparr>ho_TargetID = ''b'', ho_Epoch = 3, ho_CortexSeq = 0\<rparr> wit_node = (c1, outs, Some (HoNoPeer ''a'')) \<and>
     (\<exists>es. IsLeader (fst (co_start wit_env 0 (\<lambda>n s. Inl 0) (NewClusterCoordinator (wit_cfg ''b'')
         (NewReplicationLog []) \<lparr>ap_db = [], ap_lastApplied = 0, ap_appliedSince = 0\<rparr> es))) \<and>
       CurrentEpoch (fst (co_start wit_env 0 (\<lambda>n s. Inl 0) (NewClusterCoordinator (wit_cfg ''b'')
         (NewReplicationLog []) \<lparr>ap_db = [], ap_lastApplied = 0, ap_appliedSince = 0\<rparr> es))) = 7)"
proof -
  let ?msg = "\<lparr>ho_TargetID = ''b'', ho_Epoch = 3, ho_CortexSeq = 0\<rparr>"
  obtain c1 outs where h: "HandleHandoff (en_pb wit_env) (\<lambda>m. Some []) (\<lambda>m. Some []) (\<lambda>n. True) ''a''
       ?msg wit_node = (c1, outs, Some (HoNoPeer ''a''))"
    by (simp add: HandleHandoff_def wit_node_def NewClusterCoordinator_def Let_def wit_cfg_def NewElection_def
        Advance_def persist_def pb_set_def mem_pebble_def Load_def co_PersistRole_def PersistRole_def set_epochs_def
        take_leadership_def role_step_defs GetPeer_def NewConnManager_def)
  obtain c2 outs2 where c: "on_election (HandleCortexClaim (\<lambda>m. Some []) (en_pb wit_env) (co_election c1)
      \<lparr>CortexID = ''c'', claim_Epoch = 7, FencingToken = 7\<rparr>) c1 = (c2, outs2)" by fastforce
  have spec: "pebble_spec (en_pb wit_env) map_of" "pebble_reliable (en_pb wit_env)"
    by (simp_all add: mem_pebble_spec mem_pebble_reliable)
  have ep: "ho_Epoch ?msg + 1 < claim_Epoch \<lparr>CortexID = ''c'', claim_Epoch = 7, FencingToken = 7\<rparr>" by simp
  have role: "cc_Role (wit_cfg ''b'') \<notin> {''replica'', ''sentinel'', ''observer''}" by (simp add: wit_cfg_def)
  from unsent_ack_second_leader[OF spec h _ ep c role] h show ?thesis by fastforce
qed

text \<open>A leader with one member, for the witnesses.\<close>

definition wit_leader :: "(bytes \<times> bytes) list ClusterCoordinator" where
  "wit_leader = wit_node\<lparr>co_role := RolePrimary, co_joinHandler := (NewJoinHandler ''b'' ''secret'')\<lparr>jh_members :=
     [(''lobe'', \<lparr>ni_NodeID = ''lobe'', ni_Addr = ''10.0.0.2'', ni_Role = RoleReplica, ni_LastSeq = 0\<rparr>)]\<rparr>\<rparr>"

definition wit_forged :: JoinRequest where
  "wit_forged = \<lparr>jq_NodeID = ''lobe'', jq_Addr = ''10.6.6.6'', jq_LastApplied = 0, jq_SecretHash = [],
     jq_Role = RoleReplica, jq_Probe = False, jq_ProtocolVersion = 2\<rparr>"

theorem rejected_join_is_adopted_witness:
  "\<exists>c' resp. HandleIncomingJoin mem_pebble wit_hmac (\<lambda>n. True) 0 7 (Inr wit_forged) wit_leader =
       (c', [OutSend ''lobe'' (MsgJoinResponse resp), OutStream ''lobe'' (streamStartSeq ''lobe'' wit_leader)],
        ''lobe'', True, None) \<and>
     \<not> jr_Accepted resp \<and> live_conn (co_mgr c') ''lobe'' = Some 7"
proof -
  obtain c' outs n adopted err where run: "HandleIncomingJoin mem_pebble wit_hmac (\<lambda>n. True) 0 7 (Inr wit_forged)
      wit_leader = (c', outs, n, adopted, err)" by (metis surjective_pairing)
  have pre: "IsLeader wit_leader" "\<not> jq_Probe wit_forged" "jq_NodeID wit_forged = ''lobe''"
    "\<not> ValidSecret wit_hmac (jh_clusterSecret (co_joinHandler wit_leader)) (jq_NodeID wit_forged) (jq_Role wit_forged)
       (jq_ProtocolVersion wit_forged) (jq_SecretHash wit_forged)"
    "map_of (jh_members (co_joinHandler wit_leader)) (jq_NodeID wit_forged) =
       Some \<lparr>ni_NodeID = ''lobe'', ni_Addr = ''10.0.0.2'', ni_Role = RoleReplica, ni_LastSeq = 0\<rparr>"
    by (simp_all add: IsLeader_def wit_leader_def wit_forged_def NewJoinHandler_def ValidSecret_def wit_hmac_def
        str_bytes_def)
  from rejected_join_is_adopted[OF pre(1,2,4) TrueI pre(5) _ run] pre(3) run show ?thesis by auto
qed

end
