(* ===== verification/Cluster_Roles.thy ===== *)
theory Cluster_Roles
  imports Cluster_Props
begin

text \<open>
  The role of a node against its election, at the grain of the locks (\<open>election.go\<close>,
  \<open>coordinator.go\<close>).  The methods of \<open>Coordinator\<close> and \<open>Cluster_Handlers\<close> run from start to end;
  the code lets go of \<open>election.mu\<close> before it calls \<open>tryPromote\<close> and the callbacks \<open>OnPromoted\<close> and
  \<open>OnDemoted\<close>, sets the role and clears the quorum latch under different locks, and holds no lock
  across \<open>checkQuorumHealth\<close>.  Here a goroutine that stands between two such sections is an element of
  a list of pending sections, and any of them may be the next to go on.
\<close>

section \<open>The sections\<close>

datatype pending =
    AtTryPromote u64
  | AtOnPromoted u64
  | AtOnDemoted demotionCause
  | AtDemotionRest demotionCause
  | AtQuorum
  | AtAlive nat
  | AtQuorumMu nat nat
  | AtStepDown

text \<open>\<open>handleDemotion\<close> after it has set the role.\<close>

definition demotion_rest :: "demotionCause \<Rightarrow> 'db ClusterCoordinator \<Rightarrow> 'db ClusterCoordinator" where
  "demotion_rest cause c =
     pushRoleEvent (RoleDemoted cause)
       (c\<lparr>co_hadQuorum := False, co_quorumLostSince := None, co_streamers := [], co_nodeState := StateNormal\<rparr>)"

text \<open>The section of \<open>checkQuorumHealth\<close> under \<open>quorumMu\<close>, with the quorum and the number of live
  voters that were read before, and whether the node needs a demotion.\<close>

definition quorum_section ::
  "int \<Rightarrow> nat \<Rightarrow> nat \<Rightarrow> 'db ClusterCoordinator \<Rightarrow> 'db ClusterCoordinator \<times> bool" where
  "quorum_section now quorum totalAlive c =
     (if totalAlive \<ge> quorum then (c\<lparr>co_hadQuorum := True, co_quorumLostSince := None\<rparr>, False)
      else if \<not> co_hadQuorum c then (c, False)
      else case co_quorumLostSince c of
          None \<Rightarrow> (c\<lparr>co_quorumLostSince := Some now\<rparr>, False)
        | Some since \<Rightarrow>
            if now - since \<ge> quorumTimeout c then (c\<lparr>co_quorumLostSince := None\<rparr>, True)
            else (c, False))"

text \<open>The callbacks that an election method still has to make.\<close>

fun owed :: "election_out \<Rightarrow> pending list" where
  "owed (OnPromoted epoch) = [AtOnPromoted epoch]"
| "owed OnDemoted = [AtOnDemoted causeClaim]"
| "owed (Broadcast m) = []"
| "owed (OnNewLeader ldr epoch) = []"

definition election_section ::
  "'db Election \<times> election_out list \<Rightarrow> 'db ClusterCoordinator \<Rightarrow> 'db ClusterCoordinator \<times> pending list" where
  "election_section r c = (c\<lparr>co_election := fst r\<rparr>, concat (map owed (snd r)))"

text \<open>One pending section goes on: the node after it, and where the goroutine stands then.\<close>

fun resume ::
  "(election_msg \<Rightarrow> bytes option) \<Rightarrow> 'db pebble \<Rightarrow> int \<Rightarrow> pending \<Rightarrow> 'db ClusterCoordinator \<Rightarrow>
     'db ClusterCoordinator \<times> pending list" where
  "resume marshal pb now (AtTryPromote epoch) c =
     election_section (tryPromote marshal pb (co_election c) epoch) c"
| "resume marshal pb now (AtOnPromoted epoch) c = (fst (handlePromotion epoch c), [])"
| "resume marshal pb now (AtOnDemoted cause) c = (c\<lparr>co_role := RoleReplica\<rparr>, [AtDemotionRest cause])"
| "resume marshal pb now (AtDemotionRest cause) c = (demotion_rest cause c, [])"
| "resume marshal pb now AtQuorum c = (c, [AtAlive (quorumLocked (co_election c))])"
| "resume marshal pb now (AtAlive quorum) c = (c, [AtQuorumMu quorum (aliveVoters c)])"
| "resume marshal pb now (AtQuorumMu quorum totalAlive) c =
     (case quorum_section now quorum totalAlive c of
        (c', needsDemotion) \<Rightarrow> (c', if needsDemotion then [AtStepDown] else []))"
| "resume marshal pb now AtStepDown c =
     (c\<lparr>co_election := StepDown (co_election c)\<rparr>, [AtOnDemoted causeQuorumLoss])"

text \<open>What a goroutine may begin: the first section of a method.  \<open>AssertsLeadership\<close> is the section
  of the crash recovery and of \<open>HandleHandoff\<close>, \<open>AssertsAtBootstrap\<close> that of
  \<open>bootstrapPromoteIfDesignatedPrimary\<close>; \<open>EndsHandoff\<close> is the demotion that ends a planned handoff;
  \<open>TakesRole\<close> is the assignment of a role that does not lead at the start of the run loops.\<close>

datatype role_act =
    StartsElection
  | TakesVote VoteResponse
  | TakesVoteRequest VoteRequest
  | TakesClaim CortexClaim
  | ResetsCandidate
  | ForgetsLeader node_id
  | AssertsLeadership u64
  | AssertsAtBootstrap
  | EndsHandoff
  | TakesRole NodeRole
  | ChecksQuorum
  | Resumes pending

definition asserted :: "'db ClusterCoordinator \<Rightarrow> 'db ClusterCoordinator" where
  "asserted c = c\<lparr>co_election := (co_election c)\<lparr>state := ElectionLeader, currentLeader := cc_NodeID (co_cfg c)\<rparr>\<rparr>"

fun begin_section ::
  "(election_msg \<Rightarrow> bytes option) \<Rightarrow> 'db pebble \<Rightarrow> int \<Rightarrow> role_act \<Rightarrow> 'db ClusterCoordinator \<Rightarrow>
     'db ClusterCoordinator \<times> pending list" where
  "begin_section marshal pb now StartsElection c =
     (case StartElection_locked pb (co_election c) of
        (e, Inl err) \<Rightarrow> (c\<lparr>co_election := e\<rparr>, [])
      | (e, Inr (newEpoch, quorate)) \<Rightarrow>
          (c\<lparr>co_election := e\<rparr>,
           if quorate \<and> marshal (MVoteRequest \<lparr>CandidateID = localNodeID e, req_Epoch = newEpoch\<rparr>) \<noteq> None
           then [AtTryPromote newEpoch] else []))"
| "begin_section marshal pb now (TakesVote resp) c =
     (case HandleVoteResponse_locked (co_election c) resp of
        (e, quorate) \<Rightarrow> (c\<lparr>co_election := e\<rparr>, if quorate then [AtTryPromote (resp_Epoch resp)] else []))"
| "begin_section marshal pb now (TakesVoteRequest req) c =
     (c\<lparr>co_election := fst (HandleVoteRequest pb (co_election c) req)\<rparr>, [])"
| "begin_section marshal pb now (TakesClaim claim) c =
     election_section (HandleCortexClaim marshal pb (co_election c) claim) c"
| "begin_section marshal pb now ResetsCandidate c = (c\<lparr>co_election := ResetCandidate (co_election c)\<rparr>, [])"
| "begin_section marshal pb now (ForgetsLeader n) c = (c\<lparr>co_election := ClearLeader (co_election c) n\<rparr>, [])"
| "begin_section marshal pb now (AssertsLeadership epoch) c = (asserted c, [AtOnPromoted epoch])"
| "begin_section marshal pb now AssertsAtBootstrap c =
     (if state (co_election c) \<noteq> ElectionCandidate then (c, [])
      else (asserted c, [AtOnPromoted (candidateEpoch (co_election c))]))"
| "begin_section marshal pb now EndsHandoff c = (c\<lparr>co_nodeState := StateNormal\<rparr>, [AtOnDemoted causeClaim])"
| "begin_section marshal pb now (TakesRole r) c = (if r = RolePrimary then (c, []) else (c\<lparr>co_role := r\<rparr>, []))"
| "begin_section marshal pb now ChecksQuorum c = (c, if IsLeader c then [AtQuorum] else [])"
| "begin_section marshal pb now (Resumes x) c = resume marshal pb now x c"

definition role_step ::
  "(election_msg \<Rightarrow> bytes option) \<Rightarrow> 'db pebble \<Rightarrow> int \<Rightarrow> role_act \<Rightarrow>
     'db ClusterCoordinator \<times> pending list \<Rightarrow> 'db ClusterCoordinator \<times> pending list" where
  "role_step marshal pb now act s =
     (case s of (c, p) \<Rightarrow>
       case act of
         Resumes x \<Rightarrow>
           if x \<in> set p then (case resume marshal pb now x c of (c', q) \<Rightarrow> (c', remove1 x p @ q)) else (c, p)
       | _ \<Rightarrow> (case begin_section marshal pb now act c of (c', q) \<Rightarrow> (c', p @ q)))"

text \<open>A node from its creation on.  Between the sections anything may happen to it that changes neither
  its role nor the state of its election: joins, connections, heartbeats, epochs, the log.\<close>

inductive role_reach :: "'db ClusterCoordinator \<times> pending list \<Rightarrow> bool" where
  reach_new: "role_reach (NewClusterCoordinator cfg l a es, [])"
| reach_section: "role_reach s \<Longrightarrow> role_reach (role_step marshal pb now act s)"
| reach_other: "role_reach (c, p) \<Longrightarrow> co_role c' = co_role c \<Longrightarrow>
    state (co_election c') = state (co_election c) \<Longrightarrow> role_reach (c', p)"

section \<open>The methods are their sections run without a break\<close>

lemma handleDemotion_sections:
  "fst (handleDemotion cause c) =
     fst (resume marshal pb now (AtDemotionRest cause) (fst (resume marshal pb now (AtOnDemoted cause) c)))"
  by (simp add: handleDemotion_def demotion_rest_def)

lemma take_leadership_sections:
  "fst (take_leadership epoch c) = fst (resume marshal pb now (AtOnPromoted epoch) (asserted c))"
  by (simp add: take_leadership_def asserted_def)

lemma checkQuorumHealth_sections:
  "fst (checkQuorumHealth now c) =
     (if \<not> IsLeader c then c
      else case quorum_section now (quorumLocked (co_election c)) (aliveVoters c) c of
             (c', False) \<Rightarrow> c'
           | (c', True) \<Rightarrow> fst (handleDemotion causeQuorumLoss (c'\<lparr>co_election := StepDown (co_election c')\<rparr>)))"
  by (simp add: checkQuorumHealth_def quorum_section_def split: option.split)

lemma HandleVoteResponse_sections:
  "HandleVoteResponse marshal pb e resp =
     (case HandleVoteResponse_locked e resp of
        (e', quorate) \<Rightarrow> if quorate then tryPromote marshal pb e' (resp_Epoch resp) else (e', []))"
  by (simp add: HandleVoteResponse_def Let_def)

section \<open>Who leads\<close>

definition led :: "'db ClusterCoordinator \<times> pending list \<Rightarrow> bool" where
  "led s \<longleftrightarrow> (co_role (fst s) = RolePrimary \<longrightarrow>
     state (co_election (fst s)) = ElectionLeader \<or> (\<exists>cause. AtOnDemoted cause \<in> set (snd s)))"

lemma led_pair: "led (c, p) \<longleftrightarrow> (co_role c = RolePrimary \<longrightarrow>
    state (co_election c) = ElectionLeader \<or> (\<exists>cause. AtOnDemoted cause \<in> set p))"
  by (simp add: led_def)

text \<open>The election methods that do not make callbacks leave a leader a leader.\<close>

lemma leader_stays:
  assumes "state e = ElectionLeader"
  shows "state (fst (StartElection_locked pb e)) = ElectionLeader"
    "state (fst (HandleVoteResponse_locked e resp)) = ElectionLeader"
    "state (fst (HandleVoteRequest pb e req)) = ElectionLeader"
    "state (ResetCandidate e) = ElectionLeader" "state (ClearLeader e n) = ElectionLeader"
    "state (fst (tryPromote marshal pb e epoch)) = ElectionLeader"
  using assms
  by (simp_all add: StartElection_locked_def HandleVoteResponse_locked_def HandleVoteRequest_def Let_def
      ResetCandidate_def ClearLeader_def tryPromote_def split: option.split)

lemma claim_leader:
  "state e = ElectionLeader \<Longrightarrow> state (fst (HandleCortexClaim marshal pb e claim)) = ElectionLeader \<or>
    OnDemoted \<in> set (snd (HandleCortexClaim marshal pb e claim))"
  by (simp add: HandleCortexClaim_def Let_def)

lemma owed_demotion: "OnDemoted \<in> set outs \<Longrightarrow> AtOnDemoted causeClaim \<in> set (concat (map owed outs))"
  by force

lemma demotion_rest_fields:
  "co_role (demotion_rest cause c) = co_role c" "co_election (demotion_rest cause c) = co_election c"
  "co_hadQuorum (demotion_rest cause c) = False"
  by (simp_all add: demotion_rest_def pushRoleEvent_def)

text \<open>A section that sets the role or takes the leadership away.\<close>

lemma resume_led:
  assumes "led (c, p)" "x \<in> set p" "resume marshal pb now x c = (c', q)"
  shows "led (c', remove1 x p @ q)"
proof -
  have keep: "AtOnDemoted cause \<in> set (remove1 x p)" if "AtOnDemoted cause \<in> set p" "x \<noteq> AtOnDemoted cause" for cause
    using that by (simp add: in_set_remove1)
  show ?thesis
  proof (cases x)
    case (AtTryPromote epoch)
    then show ?thesis
      using assms keep leader_stays(6)[of "co_election c" marshal pb epoch]
      by (auto simp: led_pair election_section_def)
  next
    case (AtOnPromoted epoch)
    then show ?thesis
      using assms keep by (auto simp: led_pair handlePromotion_def pushRoleEvent_def split: if_splits)
  next
    case (AtOnDemoted cause)
    then show ?thesis using assms(3) by (auto simp: led_pair)
  next
    case (AtDemotionRest cause)
    then show ?thesis using assms keep by (auto simp: led_pair demotion_rest_fields)
  next
    case (AtQuorumMu quorum totalAlive)
    then show ?thesis
      using assms keep by (auto simp: led_pair quorum_section_def split: if_splits option.splits)
  next
    case AtStepDown
    then show ?thesis using assms(3) by (auto simp: led_pair)
  qed (use assms keep in \<open>auto simp: led_pair\<close>)
qed

lemma begin_led:
  assumes "led (c, p)" "begin_section marshal pb now act c = (c', q)" "\<And>x. act \<noteq> Resumes x"
  shows "led (c', p @ q)"
proof (cases act)
  case StartsElection
  obtain e r where s: "StartElection_locked pb (co_election c) = (e, r)" by fastforce
  have "state (co_election c) = ElectionLeader \<Longrightarrow> state e = ElectionLeader"
    using leader_stays(1)[of "co_election c" pb] s by simp
  moreover have "co_role c' = co_role c \<and> co_election c' = e"
    using assms(2) s StartsElection by (auto split: sum.splits prod.splits)
  ultimately show ?thesis using assms(1) by (auto simp: led_pair)
next
  case (TakesVote resp)
  then show ?thesis
    using assms(1,2) leader_stays(2)[of "co_election c" resp] by (auto simp: led_pair split: prod.splits)
next
  case (TakesVoteRequest req)
  then show ?thesis using assms(1,2) leader_stays(3)[of "co_election c" pb req] by (auto simp: led_pair)
next
  case (TakesClaim claim)
  then show ?thesis
    using assms(1,2) claim_leader[of "co_election c" marshal pb claim] owed_demotion
    by (fastforce simp: led_pair election_section_def)
next
  case ResetsCandidate
  then show ?thesis using assms(1,2) leader_stays(4)[of "co_election c"] by (auto simp: led_pair)
next
  case (ForgetsLeader n)
  then show ?thesis using assms(1,2) leader_stays(5)[of "co_election c" n] by (auto simp: led_pair)
next
  case (TakesRole r)
  then show ?thesis using assms(1,2) by (auto simp: led_pair split: if_splits)
qed (use assms in \<open>auto simp: led_pair asserted_def split: if_splits\<close>)

lemma role_step_led:
  assumes "led s"
  shows "led (role_step marshal pb now act s)"
proof -
  obtain c p where s: "s = (c, p)" by force
  show ?thesis
  proof (cases "\<exists>x. act = Resumes x")
    case True
    then obtain x where x: "act = Resumes x" by blast
    obtain c' q where r: "resume marshal pb now x c = (c', q)" by force
    show ?thesis
      using assms resume_led[OF _ _ r] by (simp add: s x role_step_def r)
  next
    case False
    obtain c' q where r: "begin_section marshal pb now act c = (c', q)" by force
    have "role_step marshal pb now act s = (c', p @ q)"
      using False r by (cases act) (simp_all add: s role_step_def del: begin_section.simps)
    then show ?thesis using begin_led[OF _ r] False assms by (auto simp: s)
  qed
qed

lemma role_reach_led: "role_reach s \<Longrightarrow> led s"
proof (induction rule: role_reach.induct)
  case (reach_new cfg l a es)
  then show ?case by (simp add: led_def NewClusterCoordinator_def Let_def)
next
  case (reach_section s marshal pb now act)
  show ?case by (rule role_step_led[OF reach_section.IH])
next
  case (reach_other c p c')
  then show ?case by (simp add: led_pair)
qed

text \<open>C17.  A node leads only while its election says so, whatever the order in which its goroutines go
  on.  A vote, a claim, a quorum loss, a recovery or a handoff leaves its callbacks for later, and
  anything may come before them: a claim between the win of an election and the promotion, a promotion
  after the demotion that overtook it, a demotion of an earlier term after the promotion of a later one.
  Still, whenever the node is the Cortex, its election is in the leader state or a demotion is on its
  way that will make it a replica; so with no demotion on its way a node whose election does not lead
  is not the Cortex.\<close>

theorem cortex_only_while_elected:
  assumes "role_reach (c, p)" "co_role c = RolePrimary"
  shows "state (co_election c) = ElectionLeader \<or> (\<exists>cause. AtOnDemoted cause \<in> set p)"
  using role_reach_led[OF assms(1)] assms(2) by (simp add: led_pair)

section \<open>What the sections do not guarantee\<close>

text \<open>The quorum latch outlives the term.  A check that has found the node leading and has counted a
  quorum goes on after a claim has demoted the node: the replica remembers a quorum, and so its next
  term as a leader starts without the exemption of a leader that has not yet seen one.\<close>

lemma late_quorum_latch:
  assumes "IsLeader c" "quorumLocked (co_election c) \<le> aliveVoters c"
    "state (co_election c) = ElectionLeader" "Load (epochStore (co_election c)) < claim_Epoch claim"
  defines "n \<equiv> quorumLocked (co_election c)" and "a \<equiv> aliveVoters c"
  shows "\<exists>c'. fold (role_step marshal pb now) [ChecksQuorum, Resumes AtQuorum, Resumes (AtAlive n), TakesClaim claim,
       Resumes (AtOnDemoted causeClaim), Resumes (AtDemotionRest causeClaim), Resumes (AtQuorumMu n a)] (c, []) = (c', []) \<and>
     co_role c' = RoleReplica \<and> co_hadQuorum c'"
proof -
  have e: "\<not> claim_Epoch claim < Load (epochStore (co_election c))"
    "claim_Epoch claim \<noteq> Load (epochStore (co_election c))" using assms(4) by auto
  show ?thesis
    using assms(1-3) e unfolding n_def a_def
    by (simp add: role_step_def HandleCortexClaim_def Let_def election_section_def quorum_section_def
        demotion_rest_fields)
qed

text \<open>A demotion that comes after the promotion of the next term makes the elected leader a replica; its
  election stays in the leader state, so that it cannot start another one.\<close>

lemma late_demotion_blocks:
  assumes "state (co_election c) = ElectionLeader" "\<not> isSentinel (co_election c)" "\<not> isObserver (co_election c)"
  shows "\<exists>c'. resume marshal pb now (AtOnDemoted cause) c = (c', [AtDemotionRest cause]) \<and>
     co_role c' = RoleReplica \<and> snd (StartElection_locked pb (co_election c')) = Inl ErrAlreadyCandidate"
  using assms by (simp add: StartElection_locked_def)

section \<open>Witness\<close>

definition wit_claim :: CortexClaim where
  "wit_claim = \<lparr>CortexID = ''c'', claim_Epoch = 7, FencingToken = 7\<rparr>"

abbreviation wit_sections :: "role_act list \<Rightarrow> (bytes \<times> bytes) list ClusterCoordinator \<times> pending list" where
  "wit_sections acts \<equiv> fold (role_step (\<lambda>m. Some []) mem_pebble 0) acts (wit_node, [])"

lemma wit_sections_reach: "role_reach (wit_sections acts)"
proof -
  have "role_reach (fold (role_step (\<lambda>m. Some []) mem_pebble 0) acts s)" if "role_reach s"
    for acts and s :: "(bytes \<times> bytes) list ClusterCoordinator \<times> pending list"
    using that by (induction acts arbitrary: s) (simp_all add: reach_section)
  then show ?thesis by (simp add: wit_node_def reach_new)
qed

lemma wit_promoted:
  "\<exists>c. wit_sections [StartsElection, Resumes (AtTryPromote 4)] = (c, [AtOnPromoted 4]) \<and>
     state (co_election c) = ElectionLeader \<and> Load (epochStore (co_election c)) = 4 \<and> localNodeID (co_election c) = ''b'' \<and>
     co_role c = RoleUnknown"
  by (simp add: role_step_def StartElection_locked_def wit_node_def NewClusterCoordinator_def Let_def wit_cfg_def
      NewElection_def CompareAndSet_def persist_def pb_set_def mem_pebble_def Load_def quorumLocked_def votes_at_def
      tryPromote_def election_section_def broadcastClaim_def bcast_def)

lemma wit_claimed:
  assumes "state (co_election c) = ElectionLeader" "Load (epochStore (co_election c)) = 4"
  shows "\<exists>c'. role_step (\<lambda>m. Some []) mem_pebble 0 (TakesClaim wit_claim) (c, p) = (c', p @ [AtOnDemoted causeClaim]) \<and>
    state (co_election c') = ElectionFollower \<and> co_role c' = co_role c"
  using assms by (simp add: role_step_def HandleCortexClaim_def election_section_def wit_claim_def Let_def)

text \<open>A claim that comes after the promotion leaves a Cortex with a demotion on its way; one that comes
  before it, with the demotion done first, leaves a late promotion that does nothing.\<close>

lemma cortex_only_while_elected_witness:
  "(\<exists>(c :: (bytes \<times> bytes) list ClusterCoordinator) p. role_reach (c, p) \<and> co_role c = RolePrimary \<and> state (co_election c) = ElectionFollower \<and>
     (\<exists>cause. AtOnDemoted cause \<in> set p)) \<and>
   (\<exists>c. wit_sections [StartsElection, Resumes (AtTryPromote 4), TakesClaim wit_claim, Resumes (AtOnDemoted causeClaim),
       Resumes (AtOnPromoted 4)] = (c, [AtDemotionRest causeClaim]) \<and> co_role c \<noteq> RolePrimary)"
proof
  obtain c where c: "wit_sections [StartsElection, Resumes (AtTryPromote 4)] = (c, [AtOnPromoted 4])"
      "state (co_election c) = ElectionLeader" "Load (epochStore (co_election c)) = 4"
    using wit_promoted by blast
  define d where "d = fst (handlePromotion 4 c)"
  have d: "role_step (\<lambda>m. Some []) mem_pebble 0 (Resumes (AtOnPromoted 4)) (c, [AtOnPromoted 4]) = (d, [])"
    "state (co_election d) = ElectionLeader" "Load (epochStore (co_election d)) = 4" "co_role d = RolePrimary"
    using c by (simp_all add: role_step_def d_def handlePromotion_def pushRoleEvent_def)
  obtain f where f: "role_step (\<lambda>m. Some []) mem_pebble 0 (TakesClaim wit_claim) (d, []) = (f, [AtOnDemoted causeClaim])"
      "state (co_election f) = ElectionFollower" "co_role f = RolePrimary"
    using wit_claimed[OF d(2,3), of "[]"] d(4) by auto
  have "wit_sections [StartsElection, Resumes (AtTryPromote 4), Resumes (AtOnPromoted 4), TakesClaim wit_claim] =
      (f, [AtOnDemoted causeClaim])"
    using c(1) d(1) f(1) by simp
  then have r: "role_reach (f, [AtOnDemoted causeClaim])" by (metis wit_sections_reach)
  then have "\<exists>cause. AtOnDemoted cause \<in> set [AtOnDemoted causeClaim]"
    using cortex_only_while_elected[OF r f(3)] f(2) by simp
  with r f(2,3) show "\<exists>(c :: (bytes \<times> bytes) list ClusterCoordinator) p. role_reach (c, p) \<and> co_role c = RolePrimary \<and> state (co_election c) = ElectionFollower \<and>
     (\<exists>cause. AtOnDemoted cause \<in> set p)" by blast
next
  let ?acts = "[StartsElection, Resumes (AtTryPromote 4), TakesClaim wit_claim, Resumes (AtOnDemoted causeClaim),
       Resumes (AtOnPromoted 4)]"
  obtain c where c: "wit_sections [StartsElection, Resumes (AtTryPromote 4)] = (c, [AtOnPromoted 4])"
      "state (co_election c) = ElectionLeader" "Load (epochStore (co_election c)) = 4"
    using wit_promoted by blast
  obtain d where d: "role_step (\<lambda>m. Some []) mem_pebble 0 (TakesClaim wit_claim) (c, [AtOnPromoted 4]) =
      (d, [AtOnPromoted 4, AtOnDemoted causeClaim])" "state (co_election d) = ElectionFollower"
    using wit_claimed[OF c(2,3), of "[AtOnPromoted 4]"] by auto
  obtain f where f: "wit_sections ?acts = (f, [AtDemotionRest causeClaim])" "state (co_election f) = ElectionFollower"
    using c(1) d by (simp add: role_step_def handlePromotion_def pushRoleEvent_def)
  then have "role_reach (f, [AtDemotionRest causeClaim])" by (metis wit_sections_reach)
  from cortex_only_while_elected[OF this] f have "co_role f \<noteq> RolePrimary" by auto
  with f(1) show "\<exists>c. wit_sections ?acts = (c, [AtDemotionRest causeClaim]) \<and> co_role c \<noteq> RolePrimary" by blast
qed

end
