(* ===== verification/Prune_Props.thy ===== *)
theory Prune_Props
  imports Cluster_Props Stream_Props
begin

text \<open>
  Pruning and what follows from it: the watermark against the backlog ceiling and the
  acknowledgements, the eviction of the replicas left behind, and what an evicted replica gets
  when it joins again.
\<close>

section \<open>The head and the watermark\<close>

lemma CurrentSeq_inv:
  assumes "pebble_spec pb view" "pebble_reliable pb" "log_inv view cd lo hi l"
  shows "\<exists>l'. CurrentSeq pb l = (l', hi) \<and> log_inv view cd lo hi l' \<and> rl_db l' = rl_db l"
proof -
  obtain l1 where l1: "ensureSeqInit pb l = Inr l1" using ensureSeqInit_reliable[OF assms(2)] by blast
  from ensureSeqInit_inv[OF assms(1,3) l1] l1 show ?thesis by (simp add: CurrentSeq_def)
qed

lemma head_seq_inv:
  assumes "pebble_spec pb view" "pebble_reliable pb" "log_inv view cd lo hi (co_repLog c)"
  shows "snd (head_seq pb c) = hi" "log_inv view cd lo hi (co_repLog (fst (head_seq pb c)))"
    "rl_db (co_repLog (fst (head_seq pb c))) = rl_db (co_repLog c)"
  using CurrentSeq_inv[OF assms] by (auto simp: head_seq_def)

definition min_acked :: "u64 option \<Rightarrow> (node_id \<times> u64) list \<Rightarrow> u64 option" where
  "min_acked = (\<lambda>acc xs. fold (\<lambda>(n, s) acc. case acc of None \<Rightarrow> Some s | Some m \<Rightarrow> Some (if s < m then s else m)) xs acc)"

lemma min_acked_le:
  "(\<forall>x. acc = Some x \<longrightarrow> (\<exists>m. min_acked acc xs = Some m \<and> m \<le> x)) \<and>
   (\<forall>n s. (n, s) \<in> set xs \<longrightarrow> (\<exists>m. min_acked acc xs = Some m \<and> m \<le> s))"
proof (induction xs arbitrary: acc)
  case Nil
  then show ?case by (simp add: min_acked_def)
next
  case (Cons p xs)
  obtain k v where p: "p = (k, v)" by fastforce
  let ?acc = "case acc of None \<Rightarrow> Some v | Some m \<Rightarrow> Some (if v < m then v else m)"
  have step: "min_acked acc (p # xs) = min_acked ?acc xs" by (simp add: min_acked_def p)
  have "\<exists>a. ?acc = Some a \<and> a \<le> v \<and> (\<forall>x. acc = Some x \<longrightarrow> a \<le> x)"
    by (cases acc) (auto simp: not_less)
  then obtain a where a: "?acc = Some a" "a \<le> v" "\<forall>x. acc = Some x \<longrightarrow> a \<le> x" by blast
  from Cons.IH[of "Some a"] obtain m where m: "min_acked (Some a) xs = Some m" "m \<le> a" by blast
  with Cons.IH[of "Some a"] a show ?case unfolding step by (auto simp: p intro: order_trans)
qed

lemma MinReplicatedSeq_le: "map_of (co_replicaSeqs c) n = Some s \<Longrightarrow> MinReplicatedSeq c \<le> s"
  using min_acked_le[of None "co_replicaSeqs c"] map_of_SomeD[of "co_replicaSeqs c" n s]
  by (auto simp: MinReplicatedSeq_def min_acked_def split: option.split)

lemma pruneWatermark_cases:
  assumes pb: "pebble_spec pb view" "pebble_reliable pb" and inv: "log_inv view cd lo hi (co_repLog c)"
    and run: "pruneWatermark pb c = (c', w, forced)"
  shows "c' = c \<or> c' = fst (head_seq pb c)"
    and "forced \<Longrightarrow> w = hi - word_of_int (cc_MaxLogBacklog (co_cfg c)) \<and> MinReplicatedSeq c < w \<and>
      word_of_int (cc_MaxLogBacklog (co_cfg c)) < hi \<and> cc_MaxLogBacklog (co_cfg c) > 0 \<and>
      (word_of_int (cc_MaxLogBacklog (co_cfg c)) :: u64) \<noteq> 0"
    and "\<not> forced \<Longrightarrow> w = MinReplicatedSeq c \<and>
      (cc_MaxLogBacklog (co_cfg c) > 0 \<longrightarrow> (word_of_int (cc_MaxLogBacklog (co_cfg c)) :: u64) \<noteq> 0 \<longrightarrow>
       hi \<le> word_of_int (cc_MaxLogBacklog (co_cfg c)) \<or> hi - word_of_int (cc_MaxLogBacklog (co_cfg c)) \<le> w)"
  using run head_seq_inv(1)[OF pb inv]
  by (auto simp: pruneWatermark_def Let_def split_beta not_le not_less split: if_splits)

section \<open>Eviction\<close>

lemma evictLobe_fields:
  "co_replicaSeqs (fst (evictLobe n c)) = AList.delete n (co_replicaSeqs c)"
  "co_streamers (fst (evictLobe n c)) = removeAll n (co_streamers c)"
  "co_repLog (fst (evictLobe n c)) = co_repLog c" "co_role (fst (evictLobe n c)) = co_role c"
  "co_joinHandler (fst (evictLobe n c)) = co_joinHandler c" "co_election (fst (evictLobe n c)) = co_election c"
  "co_cfg (fst (evictLobe n c)) = co_cfg c" "co_snapshotSeqs (fst (evictLobe n c)) = co_snapshotSeqs c"
  "live_conn (co_mgr (fst (evictLobe n c))) k = (if k = n then None else live_conn (co_mgr c) k)"
  by (auto simp: evictLobe_def stopStreamerForLobe_def Let_def live_conn_def conn_simps PeerConn_Close_def
      split: option.split)

lemma evict_all_fields:
  "map_of (co_replicaSeqs (fst (evict_all ns c))) k = (if k \<in> set ns then None else map_of (co_replicaSeqs c) k)"
  "k \<in> set (co_streamers (fst (evict_all ns c))) \<longleftrightarrow> k \<in> set (co_streamers c) \<and> k \<notin> set ns"
  "co_repLog (fst (evict_all ns c)) = co_repLog c" "co_role (fst (evict_all ns c)) = co_role c"
  "co_joinHandler (fst (evict_all ns c)) = co_joinHandler c" "co_election (fst (evict_all ns c)) = co_election c"
  "co_cfg (fst (evict_all ns c)) = co_cfg c" "co_snapshotSeqs (fst (evict_all ns c)) = co_snapshotSeqs c"
  "live_conn (co_mgr (fst (evict_all ns c))) k = (if k \<in> set ns then None else live_conn (co_mgr c) k)"
  by (induction ns arbitrary: c) (auto simp: split_beta evictLobe_fields delete_conv')

lemma lobes_behind_iff:
  "distinct (map fst (co_replicaSeqs c)) \<Longrightarrow>
     n \<in> set (lobes_behind w c) \<longleftrightarrow> (\<exists>s. map_of (co_replicaSeqs c) n = Some s \<and> s < w)"
  by (force simp: lobes_behind_def map_of_eq_Some_iff)

lemma Prune_reliable:
  assumes "pebble_reliable pb"
  shows "snd (Prune pb w l) = None"
proof -
  obtain l1 where l1: "ensureSeqInit pb l = Inr l1" using ensureSeqInit_reliable[OF assms] by blast
  have "pb_commit pb d ops \<noteq> Inl e" for d ops e using assms by (simp add: pebble_reliable_def)
  then show ?thesis
    by (auto simp: Prune_def Prune_begin_def Prune_finish_def Let_def l1 split: sum.split)
qed

text \<open>A tick with something to prune, on a store that does not fail.\<close>

lemma prune_tick_prunes:
  assumes pb: "pebble_spec pb view" "pebble_reliable pb" and inv: "log_inv view cd lo hi (co_repLog c)"
    and lead: "IsLeader c" "co_snapshotInProgress c = 0"
    and w: "pruneWatermark pb c = (c0, w, forced)" "0 < w" "w < hi"
    and run: "prune_tick pb c = (c', outs)"
  defines "c1 \<equiv> if forced then fst (evict_all (lobes_behind w c) c) else c"
  shows "log_inv view cd (max lo w) hi (co_repLog c')"
    and "\<forall>s > w. log_abs cd (view (rl_db (co_repLog c'))) s = log_abs cd (view (rl_db (co_repLog c))) s"
    and "co_role c' = co_role c \<and> co_joinHandler c' = co_joinHandler c \<and> co_election c' = co_election c \<and>
      co_snapshotSeqs c' = co_snapshotSeqs c \<and> co_cfg c' = co_cfg c"
    and "map_of (co_replicaSeqs c') k = map_of (co_replicaSeqs c1) k"
      "k \<in> set (co_streamers c') \<longleftrightarrow> k \<in> set (co_streamers c1)"
      "live_conn (co_mgr c') k = live_conn (co_mgr c1) k"
proof -
  have c0: "co_replicaSeqs c0 = co_replicaSeqs c" "co_role c0 = co_role c" "co_joinHandler c0 = co_joinHandler c"
    "co_election c0 = co_election c" "co_snapshotSeqs c0 = co_snapshotSeqs c" "co_cfg c0 = co_cfg c"
    "co_streamers c0 = co_streamers c" "co_mgr c0 = co_mgr c"
    "log_inv view cd lo hi (co_repLog c0)" "rl_db (co_repLog c0) = rl_db (co_repLog c)"
    using pruneWatermark_cases(1)[OF pb inv w(1)] head_seq_inv(2,3)[OF pb inv] inv
    by (auto simp: head_seq_fields)
  let ?e = "if forced then fst (evict_all (lobes_behind w c0) c0) else c0"
  have lb: "lobes_behind w c0 = lobes_behind w c" by (simp add: lobes_behind_def c0)
  obtain l' err where pr: "Prune pb w (co_repLog ?e) = (l', err)" by fastforce
  have "co_repLog ?e = co_repLog c0" by (simp add: evict_all_fields)
  note pr0 = pr[unfolded this]
  have ok: "err = None" using Prune_reliable[OF pb(2)] pr0 by (metis snd_conv)
  have lp: "rl_lastPruned (co_repLog c0) \<le> lo" using c0(9) by (simp add: log_inv_def)
  from Prune_ok[OF pb(1) c0(9) pr0[unfolded ok]] w(3) lp
  have r: "log_inv view cd (max lo w) hi l' \<and>
      (\<forall>s > w. log_abs cd (view (rl_db l')) s = log_abs cd (view (rl_db (co_repLog c0))) s)"
  proof (elim disjE conjE)
    assume "w \<le> rl_lastPruned (co_repLog c0)" and l': "log_inv view cd lo hi l'" "rl_db l' = rl_db (co_repLog c0)"
    then have "max lo w = lo" using lp order_trans max_absorb1 by blast
    with l' show ?thesis by (simp only: simp_thms)
  qed auto
  have w0: "w \<noteq> 0" using w(2) by auto
  have tick: "\<exists>q. c' = ?e\<lparr>co_repLog := l', co_lastLoggedPruneSeq := q\<rparr>"
    using run lead pr unfolding ok
    by (cases forced) (simp_all add: prune_tick_def evictLobesBehind_def Let_def w(1) w0 split_beta, auto)
  from r c0 tick show "log_inv view cd (max lo w) hi (co_repLog c')"
    "\<forall>s > w. log_abs cd (view (rl_db (co_repLog c'))) s = log_abs cd (view (rl_db (co_repLog c))) s"
    by auto
  from c0 tick show "co_role c' = co_role c \<and> co_joinHandler c' = co_joinHandler c \<and> co_election c' = co_election c \<and>
      co_snapshotSeqs c' = co_snapshotSeqs c \<and> co_cfg c' = co_cfg c"
    by (auto simp: evict_all_fields)
  from c0 tick show "map_of (co_replicaSeqs c') k = map_of (co_replicaSeqs c1) k"
      "k \<in> set (co_streamers c') \<longleftrightarrow> k \<in> set (co_streamers c1)"
      "live_conn (co_mgr c') k = live_conn (co_mgr c1) k"
    by (auto simp: evict_all_fields lb c1_def)
qed

lemma word_minus_nat: "(b :: u64) \<le> h \<Longrightarrow> unat (h - b) = unat h - unat b"
  by (simp add: unat_sub)

lemma backlog_word: "0 \<le> b \<Longrightarrow> b < 2 ^ 63 \<Longrightarrow> unat (word_of_int b :: u64) = nat b"
  by (simp add: unat_eq_nat_uint uint_word_of_int take_bit_int_eq_self)

lemma prune_tick_idle:
  assumes pb: "pebble_spec pb view" "pebble_reliable pb" and inv: "log_inv view cd lo hi (co_repLog c)"
    and lead: "IsLeader c" "co_snapshotInProgress c = 0"
    and w: "pruneWatermark pb c = (c0, w, False)" "w = 0 \<or> hi \<le> w"
    and run: "prune_tick pb c = (c', outs)"
  shows "rl_db (co_repLog c') = rl_db (co_repLog c) \<and> co_replicaSeqs c' = co_replicaSeqs c \<and>
    log_inv view cd lo hi (co_repLog c')"
proof -
  have c0: "rl_db (co_repLog c0) = rl_db (co_repLog c)" "log_inv view cd lo hi (co_repLog c0)"
    "co_replicaSeqs c0 = co_replicaSeqs c"
    using pruneWatermark_cases(1)[OF pb inv w(1)] head_seq_inv(2,3)[OF pb inv] inv by (auto simp: head_seq_fields)
  obtain l1 where l1: "ensureSeqInit pb (co_repLog c0) = Inr l1" using ensureSeqInit_reliable[OF pb(2)] by blast
  have "hi \<le> w \<Longrightarrow> Prune pb w (co_repLog c0) = (l1, None) \<and> rl_db l1 = rl_db (co_repLog c0) \<and>
      log_inv view cd lo hi l1"
    using ensureSeqInit_inv[OF pb(1) c0(2) l1] l1 by (simp add: Prune_def Prune_begin_def)
  then show ?thesis
    using run w lead c0 by (auto simp: prune_tick_def Let_def split: if_splits)
qed

lemma kept_within: "hi \<le> b \<or> hi - b \<le> w \<Longrightarrow> unat hi - unat (max lo w) \<le> unat (b :: u64)"
  using word_minus_nat[of b hi] by (cases "b \<le> hi") (auto simp: max_def word_le_nat_alt not_le)

lemma pruneWatermark_kept:
  assumes pb: "pebble_spec pb view" "pebble_reliable pb" and inv: "log_inv view cd lo hi (co_repLog c)"
    and cfg: "0 < cc_MaxLogBacklog (co_cfg c)" "cc_MaxLogBacklog (co_cfg c) < 2 ^ 63"
    and w: "pruneWatermark pb c = (c0, w, forced)"
  shows "unat hi - unat (max lo w) \<le> nat (cc_MaxLogBacklog (co_cfg c))"
    and "forced \<Longrightarrow> MinReplicatedSeq c < w \<and> 0 < w \<and> w < hi"
    and "\<not> forced \<Longrightarrow> w = MinReplicatedSeq c"
proof -
  let ?B = "word_of_int (cc_MaxLogBacklog (co_cfg c)) :: u64"
  have B: "unat ?B = nat (cc_MaxLogBacklog (co_cfg c))" "?B \<noteq> 0"
    using backlog_word[of "cc_MaxLogBacklog (co_cfg c)"] cfg by (auto simp: unat_eq_0[symmetric])
  note f = pruneWatermark_cases(2)[OF pb inv w] and u = pruneWatermark_cases(3)[OF pb inv w]
  have "hi \<le> ?B \<or> hi - ?B \<le> w" using f u cfg(1) B(2) by (cases forced) auto
  from kept_within[OF this] show "unat hi - unat (max lo w) \<le> nat (cc_MaxLogBacklog (co_cfg c))"
    unfolding B(1) .
  show "\<not> forced \<Longrightarrow> w = MinReplicatedSeq c" using u by blast
  assume forced
  with f have w: "w = hi - ?B" "MinReplicatedSeq c < w" "?B < hi" by auto
  then have "unat w = unat hi - unat ?B" using word_minus_nat[of ?B hi] by simp
  with w B(2) show "MinReplicatedSeq c < w \<and> 0 < w \<and> w < hi"
    by (auto simp: word_less_nat_alt unat_eq_0[symmetric])
qed

text \<open>What a tick that prunes does to a tracked replica.\<close>

lemma prune_tick_replica:
  assumes pb: "pebble_spec pb view" "pebble_reliable pb" and inv: "log_inv view cd lo hi (co_repLog c)"
    and lead: "IsLeader c" "co_snapshotInProgress c = 0" and tracked: "distinct (map fst (co_replicaSeqs c))"
    and w: "pruneWatermark pb c = (c0, w, forced)" "0 < w" "w < hi"
    and run: "prune_tick pb c = (c', outs)" and s: "map_of (co_replicaSeqs c) n = Some s"
  shows "map_of (co_replicaSeqs c') n = Some s \<and> w \<le> s \<or>
    forced \<and> map_of (co_replicaSeqs c') n = None \<and> s < w \<and> live_conn (co_mgr c') n = None \<and> n \<notin> set (co_streamers c')"
proof -
  note t = prune_tick_prunes[OF pb inv lead w run]
  have "\<not> forced \<Longrightarrow> w \<le> s"
    using pruneWatermark_cases(3)[OF pb inv w(1)] MinReplicatedSeq_le[OF s] by simp
  then show ?thesis
    using t(4)[of n] t(5)[of n] t(6)[of n] lobes_behind_iff[OF tracked, of n w] s
    by (cases "forced \<and> s < w") (auto simp: evict_all_fields)
qed

section \<open>The rule of the tick\<close>

text \<open>C22.  A prune tick of a leader keeps the log within the backlog ceiling as long as some tracked
  replica is behind the head: what it deletes every replica that is still tracked has
  acknowledged, and the others have been cut off.  But when every tracked replica has
  acknowledged the head, however long the log is, the tick deletes nothing.\<close>

theorem prune_tick_rule:
  assumes pb: "pebble_spec pb view" "pebble_reliable pb" and inv: "log_inv view cd lo hi (co_repLog c)"
    and lead: "IsLeader c" "co_snapshotInProgress c = 0" and tracked: "distinct (map fst (co_replicaSeqs c))"
    and cfg: "0 < cc_MaxLogBacklog (co_cfg c)" "cc_MaxLogBacklog (co_cfg c) < 2 ^ 63"
    and run: "prune_tick pb c = (c', outs)"
  shows "if MinReplicatedSeq c < hi
    then (\<exists>lo' \<ge> lo. log_inv view cd lo' hi (co_repLog c') \<and>
            unat hi - unat lo' \<le> nat (cc_MaxLogBacklog (co_cfg c)) \<and>
            (\<forall>n s. map_of (co_replicaSeqs c) n = Some s \<longrightarrow>
               map_of (co_replicaSeqs c') n = Some s \<and> lo' \<le> max lo s \<or>
               map_of (co_replicaSeqs c') n = None \<and> s < lo' \<and> live_conn (co_mgr c') n = None \<and>
               n \<notin> set (co_streamers c')))
    else rl_db (co_repLog c') = rl_db (co_repLog c)"
proof -
  obtain c0 w forced where w: "pruneWatermark pb c = (c0, w, forced)" by (metis prod_cases3)
  note kept = pruneWatermark_kept[OF pb inv cfg w]
  show ?thesis
  proof (cases "0 < w \<and> w < hi")
    case True
    note r = prune_tick_replica[OF pb inv lead tracked w conjunct1[OF True] conjunct2[OF True] run]
    have i: "log_inv view cd (max lo w) hi (co_repLog c')"
      using prune_tick_prunes(1)[OF pb inv lead w conjunct1[OF True] conjunct2[OF True] run] .
    have "MinReplicatedSeq c < hi" using kept(2,3) True by (cases forced) (auto intro: less_trans)
    moreover have "max lo w \<le> max lo s" if "w \<le> s" for s using that by (auto simp: max_def)
    moreover have "s < max lo w" if "s < w" for s using that by (auto simp: max_def)
    ultimately show ?thesis using i kept(1) r max.cobounded1 by (metis (no_types))
  next
    case False
    then have unf: "\<not> forced" "w = 0 \<or> hi \<le> w" using kept(2) by (auto simp: not_less word_neq_0_conv)
    have m: "w = MinReplicatedSeq c" by (rule kept(3)[OF unf(1)])
    from unf(1) w have "pruneWatermark pb c = (c0, w, False)" by simp
    note i = prune_tick_idle[OF pb inv lead this unf(2) run]
    show ?thesis
    proof (cases "MinReplicatedSeq c < hi")
      case True
      with False m have "w = 0" by (metis word_gt_0)
      then have "max lo w = lo" by (simp add: max_def)
      then show ?thesis using True i kept(1) by (auto intro!: exI[of _ lo] simp: max_def)
    qed (use i in simp)
  qed
qed

text \<open>A leader whose one tracked replica has acknowledged \<open>s\<close> of three entries; at most two are kept.\<close>

definition wit_pruner :: "u64 \<Rightarrow> (bytes \<times> bytes) list ClusterCoordinator" where
  "wit_pruner s = wit_leader\<lparr>co_repLog := demo_log, co_replicaSeqs := [(''lobe'', s)],
     co_election := (co_election wit_leader)\<lparr>state := ElectionLeader\<rparr>\<rparr>"

lemma wit_pruner_sel:
  "co_repLog (wit_pruner s) = demo_log" "co_replicaSeqs (wit_pruner s) = [(''lobe'', s)]" "IsLeader (wit_pruner s)"
  "co_snapshotInProgress (wit_pruner s) = 0" "cc_MaxLogBacklog (co_cfg (wit_pruner s)) = 2"
  "MinReplicatedSeq (wit_pruner s) = s"
  by (simp_all add: wit_pruner_def wit_leader_def wit_node_def NewClusterCoordinator_def Let_def wit_cfg_def
      IsLeader_def MinReplicatedSeq_def)

lemma demo_log_full: "log_inv map_of demo_codec 0 3 demo_log"
proof -
  obtain lo where inv: "log_inv map_of demo_codec lo 3 demo_log" using demo_log_inv by blast
  have "map_of (rl_db demo_log) (replicationEntryKey 1) \<noteq> None" unfolding demo_log_def by (simp add: log_eval)
  with inv have "\<exists>s. replicationEntryKey 1 = replicationEntryKey s \<and> lo < s"
    using entryKey_prefix[of 1] unfolding log_inv_def disk_ok_def by blast
  then have "lo < 1" by (auto simp: entry_key.enc_inject)
  then have "lo = 0" by (simp add: word_less_nat_alt unat_eq_0[symmetric])
  with inv show ?thesis by simp
qed

theorem prune_tick_rule_witness:
  "\<exists>lo' c' outs. prune_tick mem_pebble (wit_pruner 0) = (c', outs) \<and>
     log_inv map_of demo_codec lo' 3 (co_repLog c') \<and> 3 - unat lo' \<le> 2 \<and>
     map_of (co_replicaSeqs c') ''lobe'' = None \<and> live_conn (co_mgr c') ''lobe'' = None"
proof -
  obtain c' outs where run: "prune_tick mem_pebble (wit_pruner 0) = (c', outs)" by fastforce
  from prune_tick_rule[OF mem_pebble_spec mem_pebble_reliable _ _ _ _ _ _ run, of demo_codec 0 3] demo_log_full
  obtain lo' where lo': "log_inv map_of demo_codec lo' 3 (co_repLog c')" "3 - unat lo' \<le> 2"
    "map_of (co_replicaSeqs c') ''lobe'' = Some 0 \<and> lo' \<le> max 0 0 \<or>
     map_of (co_replicaSeqs c') ''lobe'' = None \<and> live_conn (co_mgr c') ''lobe'' = None"
    by (auto simp: wit_pruner_sel split: if_splits)
  have "lo' \<noteq> 0" using lo'(2) by auto
  with lo' run show ?thesis by (auto simp: max_def)
qed

section \<open>After an eviction\<close>

lemma find_in_set: "find q xs = Some x \<Longrightarrow> x \<in> set xs"
  by (induction xs) (auto split: if_splits)

lemma retired_is_another:
  assumes "n \<noteq> ''''"
  shows "seed_to_retire v n addr ps \<noteq> n"
proof -
  let ?s = "filter (\<lambda>p. ps_NodeID p \<noteq> n \<and> starts_with ''seed-'' (ps_NodeID p)) ps"
  have f: "ps_NodeID p \<noteq> n" if "find q ?s = Some p" for q p
    using find_in_set[OF that] by simp
  have h: "ps_NodeID p \<noteq> n" if "?s = p # xs" for p xs
  proof -
    have "p \<in> set ?s" unfolding that by simp
    then show ?thesis by simp
  qed
  have m: "(case find q ?s of Some p \<Rightarrow> ps_NodeID p | None \<Rightarrow> '''') \<noteq> n" for q
  proof (cases "find q ?s")
    case (Some p)
    with f[OF Some] show ?thesis by simp
  qed (use assms in auto)
  have a: "(case ?s of [] \<Rightarrow> '''' | p # ps \<Rightarrow> ps_NodeID p) \<noteq> n"
  proof (cases ?s)
    case (Cons p xs)
    with h[OF Cons] show ?thesis by simp
  qed (use assms in auto)
  show ?thesis
    unfolding seed_to_retire_def Let_def using m a assms by presburger
qed

lemma reconcile_peer_kept:
  "GetPeer (co_mgr (reconcileJoinedPeer now n addr r c)) n = GetPeer (co_mgr c) n"
  "co_replicaSeqs (reconcileJoinedPeer now n addr r c) = co_replicaSeqs c"
  "co_repLog (reconcileJoinedPeer now n addr r c) = co_repLog c"
  by (simp_all add: reconcileJoinedPeer_def Let_def conn_simps retired_is_another[THEN not_sym])

text \<open>A leader's answer to a join that it admits.\<close>

lemma accepted_join:
  assumes wf: "co_wf c" and lead: "IsLeader c" and req: "\<not> jq_Probe req" "jq_NodeID req = n"
    and adm: "admissible hmac (jh_clusterSecret (co_joinHandler c)) (CurrentEpoch c) True req"
    and send: "send_ok n" and untracked: "map_of (co_replicaSeqs c) n = None"
    and run: "HandleIncomingJoin pb hmac send_ok now conn (Inr req) c = (c', outs, n', adopted, err)"
  shows "(\<exists>resp. jr_Accepted resp \<and> \<not> jr_NeedsSnapshot resp \<and>
      outs = [OutSend n (MsgJoinResponse resp), OutStream n 0]) \<and>
    co_repLog c' = fst (CurrentSeq pb (co_repLog c)) \<and> adopted \<and> err = None"
proof -
  let ?c1 = "c\<lparr>co_mgr := RegisterConn n (jq_Addr req) conn (co_mgr c)\<rparr>"
  let ?c2 = "fst (head_seq pb ?c1)" and ?sq = "snd (head_seq pb ?c1)"
  note f = head_seq_fields[of pb ?c1]
  have l2: "co_repLog ?c2 = fst (CurrentSeq pb (co_repLog c))" by (simp add: head_seq_def split: prod.split)
  have li: "LeaderInfo ?c2 = (True, cc_NodeID (co_cfg c), co_advertiseAddr ?c2)"
    using lead f by (simp add: LeaderInfo_def IsLeader_def)
  let ?r = "HandleJoinRequest hmac (CurrentEpoch ?c2) ?sq (Some (LeaderInfo ?c2)) req (co_joinHandler ?c2)"
  have "admissible hmac (jh_clusterSecret (co_joinHandler ?c2)) (CurrentEpoch ?c2) True req"
    using adm f by (simp add: CurrentEpoch_def)
  from HandleJoinRequest_cases(1)[OF refl this, of ?sq "cc_NodeID (co_cfg c)" "co_advertiseAddr ?c2"] wf f req
  have r: "jr_Accepted (snd ?r)" "\<not> jr_NeedsSnapshot (snd ?r)"
    "\<exists>info. map_of (jh_members (fst ?r)) n = Some info \<and> ni_NodeID info = n"
    by (simp_all add: li co_wf_def update_conv')
  let ?c3 = "?c2\<lparr>co_joinHandler := fst ?r\<rparr>"
  have peer: "\<exists>p. GetPeer (co_mgr ?c3) n = Some p \<and> IsConnected p"
    using f by (simp add: conn_simps IsConnected_def NewPeerConnFromConn_def)
  then have "can_send send_ok ?c3 n" using send by (auto simp: can_send_def)
  moreover have "OnLobeJoined n (reconcileJoinedPeer now n a ro ?c3) =
      ((reconcileJoinedPeer now n a ro ?c3)\<lparr>co_streamers := List.insert n (co_streamers c)\<rparr>, [OutStream n 0])" for a ro
    using peer r(3) f wf untracked
    by (auto simp: OnLobeJoined_def FireOnLobeJoined_def startStreamerForLobe_def streamStartSeq_def
        reconcile_peer_kept reconcile_fields co_wf_def)
  ultimately show ?thesis
    using run lead req r l2 by (auto simp: HandleIncomingJoin_def Let_def split_beta reconcile_peer_kept)
qed

lemma log_suffix_pruned:
  assumes "\<forall>s > w. log_abs cd m' s = log_abs cd m s"
  shows "log_suffix cd m' (max lo w) hi 0 = log_suffix cd m lo hi w"
proof -
  have u: "unat (max lo w) = max (unat lo) (unat w)" by (auto simp: max_def word_le_nat_alt)
  have "w < word_of_nat k" if "unat w < k" "k < Suc (unat hi)" for k
  proof -
    have "k < 2 ^ 64" using that(2) unat_64_lt[of hi] by simp
    then have "unat (word_of_nat k :: u64) = k" by (simp add: unat_of_nat)
    with that(1) show ?thesis by (simp add: word_less_nat_alt)
  qed
  with assms show ?thesis by (auto simp: log_suffix_def u simp del: upt_Suc)
qed

lemma log_suffix_split:
  assumes "lo \<le> a" "a \<le> w" "w \<le> hi"
  shows "\<exists>lost. log_suffix cd m lo hi a = lost @ log_suffix cd m lo hi w \<and> length lost = unat w - unat a"
proof -
  let ?f = "\<lambda>n. the (log_abs cd m (word_of_nat n))"
  have le: "unat lo \<le> unat a" "unat a \<le> unat w" "unat w \<le> unat hi" using assms by (auto simp: word_le_nat_alt)
  then have mx: "max (unat lo) (unat a) = unat a" "max (unat lo) (unat w) = unat w" by auto
  obtain k where k: "Suc (unat hi) = Suc (unat w) + k" using le(3) by (metis Suc_le_mono le_Suc_ex)
  have e: "[Suc (unat a) ..< Suc (unat hi)] = [Suc (unat a) ..< Suc (unat w)] @ [Suc (unat w) ..< Suc (unat hi)]"
    unfolding k using upt_add_eq_append[of "Suc (unat a)" "Suc (unat w)" k] le(2) by simp
  show ?thesis
    unfolding log_suffix_def mx e
    by (rule exI[of _ "map ?f [Suc (unat a) ..< Suc (unat w)]"]) (simp del: upt_Suc)
qed

text \<open>C23.  A replica that a forced prune has cut off is not brought back by a snapshot: its next join
  is admitted without one and its stream starts at zero, so that it is sent the entries after
  the watermark only.  It applies them on top of its old state, without those between its cursor
  and the watermark, and then counts as caught up.\<close>

theorem evicted_replica_skips_entries:
  assumes pb: "pebble_spec pb view" "pebble_reliable pb" and inv: "log_inv view cd lo hi (co_repLog c)" "hi \<noteq> - 1"
    and node: "co_wf c" "IsLeader c" "distinct (map fst (co_replicaSeqs c))"
      "0 < cc_MaxLogBacklog (co_cfg c)" "cc_MaxLogBacklog (co_cfg c) < 2 ^ 63"
    and behind: "pruneWatermark pb c = (c0, w, True)" "map_of (co_replicaSeqs c) n = Some a" "lo \<le> a" "a < w"
    and tick: "prune_tick pb c = (c1, outs1)"
    and req: "\<not> jq_Probe req" "jq_NodeID req = n" "send_ok n"
      "admissible hmac (jh_clusterSecret (co_joinHandler c)) (CurrentEpoch c) True req"
    and join: "HandleIncomingJoin pb hmac send_ok now conn (Inr req) c1 = (c2, outs2, n', adopted, err)"
    and replica: "pebble_spec pb' view'" "pebble_reliable pb'" "unat hi < fuel"
      "\<forall>e \<in> set (log_suffix cd (view (rl_db (co_repLog c))) lo hi w). decodes repr e"
  shows "live_conn (co_mgr c1) n = None \<and>
    (\<exists>resp. jr_Accepted resp \<and> \<not> jr_NeedsSnapshot resp \<and>
       outs2 = [OutSend n (MsgJoinResponse resp), OutStream n 0]) \<and>
    (\<exists>l' ap' lost. drainAvailable pb cd (\<lambda>x e. Inr (fst (Apply pb' repr e x))) fuel (co_repLog c2) 0 ap =
         (l', hi, ap', Drained) \<and>
       replica view' ap' = replay repr (log_suffix cd (view (rl_db (co_repLog c))) lo hi w) (replica view' ap) \<and>
       log_suffix cd (view (rl_db (co_repLog c))) lo hi a =
         lost @ log_suffix cd (view (rl_db (co_repLog c))) lo hi w \<and>
       length lost = unat w - unat a \<and>
       ReplicaLag pb n (UpdateReplicaSeq n hi c2) = 0)"
proof -
  let ?m = "view (rl_db (co_repLog c))"
  have w: "0 < w" "w < hi" using pruneWatermark_kept(2)[OF pb inv(1) node(4,5) behind(1)] by auto
  have idle: "co_snapshotInProgress c = 0" using node(1) by (simp add: co_wf_def)
  note t = prune_tick_prunes[OF pb inv(1) node(2) idle behind(1) w tick]
  have gone: "map_of (co_replicaSeqs c1) n = None" "live_conn (co_mgr c1) n = None"
    using prune_tick_replica[OF pb inv(1) node(2) idle node(3) behind(1) w tick behind(2)] behind(4) by auto
  have wf1: "co_wf c1" using prune_wf[OF node(1), of pb] tick by simp
  have lead1: "IsLeader c1" "admissible hmac (jh_clusterSecret (co_joinHandler c1)) (CurrentEpoch c1) True req"
    using t(3) node(2) req(4) by (simp_all add: IsLeader_def CurrentEpoch_def)
  note j = accepted_join[OF wf1 lead1(1) req(1,2) lead1(2) req(3) gone(1) join]
  have l2: "log_inv view cd (max lo w) hi (co_repLog c2)" "rl_db (co_repLog c2) = rl_db (co_repLog c1)"
    using CurrentSeq_inv[OF pb t(1)] j by auto
  have suf: "log_suffix cd (view (rl_db (co_repLog c2))) (max lo w) hi 0 = log_suffix cd ?m lo hi w"
    unfolding l2(2) by (rule log_suffix_pruned[OF t(2)])
  let ?es = "log_suffix cd ?m lo hi w" and ?f = "\<lambda>e a. fst (Apply pb' repr e a)"
  have "unat lo \<le> unat w" "unat w < unat hi"
    using behind(3,4) w(2) by (auto simp: word_le_nat_alt word_less_nat_alt)
  then have es: "?es \<noteq> []" "length ?es < fuel"
    using replica(3) by (auto simp: log_suffix_def simp del: upt_Suc)
  have "\<exists>l'. drainAvailable pb cd (\<lambda>x e. Inr (?f e x)) fuel (co_repLog c2) 0 ap =
      (l', if log_suffix cd (view (rl_db (co_repLog c2))) (max lo w) hi 0 = [] then 0 else hi,
       fold ?f (log_suffix cd (view (rl_db (co_repLog c2))) (max lo w) hi 0) ap, Drained)"
    by (rule drain_suffix[OF pb refl l2(1) inv(2)]) (simp_all add: suf es(2))
  then have "\<exists>l'. drainAvailable pb cd (\<lambda>x e. Inr (?f e x)) fuel (co_repLog c2) 0 ap = (l', hi, fold ?f ?es ap, Drained)"
    using es(1) by (simp add: suf)
  moreover have "replica view' (fold ?f ?es ap) = replay repr ?es (replica view' ap)"
    using apply_all_replay[OF replica(1,2,4)] by (simp add: apply_all_def)
  ultimately have drained: "\<exists>l' ap'. drainAvailable pb cd (\<lambda>x e. Inr (?f e x)) fuel (co_repLog c2) 0 ap =
      (l', hi, ap', Drained) \<and> replica view' ap' = replay repr ?es (replica view' ap)" by blast
  have lag: "ReplicaLag pb n (UpdateReplicaSeq n hi c2) = 0"
    using head_seq_inv(1)[OF pb, of cd "max lo w" hi "UpdateReplicaSeq n hi c2"] l2(1)
    by (simp add: ReplicaLag_def UpdateReplicaSeq_def update_conv')
  obtain lost where "log_suffix cd ?m lo hi a = lost @ ?es" "length lost = unat w - unat a"
    using log_suffix_split[OF behind(3) less_imp_le[OF behind(4)] less_imp_le[OF w(2)], of cd ?m] by blast
  with gone(2) j drained lag show ?thesis by blast
qed

definition wit_rejoin :: JoinRequest where
  "wit_rejoin = \<lparr>jq_NodeID = ''lobe'', jq_Addr = ''10.0.0.2'', jq_LastApplied = 0,
     jq_SecretHash = wit_hmac (str_bytes ''secret'') (str_bytes ''lobe'' @ [RoleReplica]),
     jq_Role = RoleReplica, jq_Probe = False, jq_ProtocolVersion = 2\<rparr>"

lemma wit_pruner_node: "co_wf (wit_pruner s)" "pruneWatermark mem_pebble (wit_pruner 0) =
    (fst (head_seq mem_pebble (wit_pruner 0)), 1, True)"
  "admissible wit_hmac (jh_clusterSecret (co_joinHandler (wit_pruner s))) (CurrentEpoch (wit_pruner s)) True wit_rejoin"
proof -
  show "co_wf (wit_pruner s)"
    by (simp add: wit_pruner_def wit_leader_def wit_node_def NewClusterCoordinator_def Let_def co_wf_def NewJoinHandler_def)
  have "snd (head_seq mem_pebble (wit_pruner 0)) = 3"
    by (rule head_seq_inv(1)[OF mem_pebble_spec mem_pebble_reliable, of demo_codec 0])
      (simp add: wit_pruner_sel demo_log_full)
  then show "pruneWatermark mem_pebble (wit_pruner 0) = (fst (head_seq mem_pebble (wit_pruner 0)), 1, True)"
    by (simp add: pruneWatermark_def Let_def split_beta wit_pruner_sel)
  show "admissible wit_hmac (jh_clusterSecret (co_joinHandler (wit_pruner s))) (CurrentEpoch (wit_pruner s)) True wit_rejoin"
    by (simp add: admissible_def wit_rejoin_def ValidSecret_def wit_pruner_def wit_leader_def wit_node_def NewJoinHandler_def
        NewClusterCoordinator_def Let_def CurrentEpoch_def NewElection_def Load_def CurrentProtocolVersion_def)
qed

lemma demo_log_decodes:
  "\<forall>e \<in> set (log_suffix demo_codec (map_of (rl_db demo_log)) 0 3 1). decodes demo_repr e"
proof
  fix e
  assume "e \<in> set (log_suffix demo_codec (map_of (rl_db demo_log)) 0 3 1)"
  then obtain n where n: "e = the (log_abs demo_codec (map_of (rl_db demo_log)) (word_of_nat n))" "1 < n" "n < 4"
    by (auto simp: log_suffix_def simp del: upt_Suc)
  then have "n = 2 \<or> n = 3" by auto
  moreover have "Op (the (log_abs demo_codec (map_of (rl_db demo_log)) s)) \<noteq> OpBatch" if "s = 2 \<or> s = 3" for s
    using that unfolding demo_log_def by (auto simp: log_eval log_abs_def WALOp_defs nth_append)
  ultimately show "decodes demo_repr e" using n by (auto simp: decodes_def)
qed

theorem evicted_replica_skips_entries_witness:
  "\<exists>c1 outs1 c2 outs2 r l' ap' lost.
     prune_tick mem_pebble (wit_pruner 0) = (c1, outs1) \<and>
     HandleIncomingJoin mem_pebble wit_hmac (\<lambda>n. True) 0 9 (Inr wit_rejoin) c1 = (c2, outs2, r) \<and>
     drainAvailable mem_pebble demo_codec (\<lambda>x e. Inr (fst (Apply mem_pebble demo_repr e x))) 4 (co_repLog c2) 0
       (NewApplier mem_pebble []) = (l', 3, ap', Drained) \<and>
     log_suffix demo_codec (map_of (rl_db demo_log)) 0 3 0 =
       lost @ log_suffix demo_codec (map_of (rl_db demo_log)) 0 3 1 \<and>
     length lost = 1 \<and> ReplicaLag mem_pebble ''lobe'' (UpdateReplicaSeq ''lobe'' 3 c2) = 0"
proof -
  obtain c1 outs1 where tick: "prune_tick mem_pebble (wit_pruner 0) = (c1, outs1)" by fastforce
  obtain c2 outs2 n' ad err where join: "HandleIncomingJoin mem_pebble wit_hmac (\<lambda>n. True) 0 9 (Inr wit_rejoin) c1 =
      (c2, outs2, n', ad, err)" by (metis surjective_pairing)
  have req: "jq_NodeID wit_rejoin = ''lobe''" "\<not> jq_Probe wit_rejoin" by (simp_all add: wit_rejoin_def)
  have dec: "\<forall>e\<in>set (log_suffix demo_codec (map_of (rl_db (co_repLog (wit_pruner 0)))) 0 3 1). decodes demo_repr e"
    using demo_log_decodes by (simp add: wit_pruner_sel)
  from evicted_replica_skips_entries[where ap = "NewApplier mem_pebble []" and fuel = 4 and a = 0, OF mem_pebble_spec mem_pebble_reliable _ _ wit_pruner_node(1) _ _ _ _
      wit_pruner_node(2) _ _ _ tick req(2,1) TrueI wit_pruner_node(3) join mem_pebble_spec mem_pebble_reliable _ dec] tick join
  show ?thesis by (simp add: wit_pruner_sel demo_log_full) blast
qed

end
