(* ===== verification/Membership_Props.thy ===== *)
theory Membership_Props
  imports Prune_Props
begin

text \<open>
  Membership and liveness of a coordinator: the voters that joins leave registered, the quorum
  watchdog, and the connection that two nodes agree on when both dial each other.
\<close>

section \<open>Voters and placeholders\<close>

definition seed_ids :: "MSP \<Rightarrow> node_id list" where
  "seed_ids m = filter (starts_with ''seed-'') (map fst (msp_peers m))"

definition peers_ok :: "'db ClusterCoordinator \<Rightarrow> bool" where
  "peers_ok c \<longleftrightarrow> finite (voters (co_election c)) \<and> distinct (map fst (msp_peers (co_msp c))) \<and>
     (\<forall>(n, p) \<in> set (msp_peers (co_msp c)). ps_NodeID p = n) \<and>
     set (seed_ids (co_msp c)) \<subseteq> voters (co_election c)"

definition fresh_voter :: "'db ClusterCoordinator \<Rightarrow> node_id \<Rightarrow> NodeRole \<Rightarrow> bool" where
  "fresh_voter c n role \<longleftrightarrow> n \<noteq> '''' \<and> \<not> starts_with ''seed-'' n \<and> role \<noteq> RoleObserver \<and>
     n \<notin> voters (co_election c) \<and> n \<notin> set (map fst (msp_peers (co_msp c)))"

lemma update_new: "n \<notin> set (map fst xs) \<Longrightarrow> AList.update n v xs = xs @ [(n, v)]"
  by (induction xs) auto

lemma seeds_of_peers:
  assumes "\<forall>(n, p) \<in> set xs. ps_NodeID p = n" "n \<notin> set (map fst xs)"
  shows "map ps_NodeID (filter (\<lambda>p. ps_NodeID p \<noteq> n \<and> starts_with ''seed-'' (ps_NodeID p)) (map snd xs)) =
    filter (starts_with ''seed-'') (map fst xs)"
  using assms by (induction xs) auto

lemma find_map_in: "find q xs = Some p \<Longrightarrow> f p \<in> set (map f xs)"
  by (auto dest: find_in_set)

lemma seed_to_retire_voter:
  fixes ps :: "PeerState list" and n :: node_id
  defines "ss \<equiv> map ps_NodeID (filter (\<lambda>p. ps_NodeID p \<noteq> n \<and> starts_with ''seed-'' (ps_NodeID p)) ps)"
  shows "if ss = [] then seed_to_retire True n addr ps = ''''
    else seed_to_retire True n addr ps \<in> set ss \<and> seed_to_retire True n addr ps \<noteq> ''''"
proof -
  let ?s = "filter (\<lambda>p. ps_NodeID p \<noteq> n \<and> starts_with ''seed-'' (ps_NodeID p)) ps"
  have ne: "'''' \<notin> set ss" by (auto simp: ss_def starts_with_def)
  show ?thesis
  proof (cases ?s)
    case Nil
    then show ?thesis by (simp add: ss_def seed_to_retire_def Let_def)
  next
    case (Cons p xs)
    have "ps_NodeID p \<in> set ss" unfolding ss_def Cons by simp
    moreover have "ps_NodeID q \<in> set ss" if "find (\<lambda>p. ps_Addr p = addr) ?s = Some q" for q
      unfolding ss_def by (rule find_map_in[OF that])
    moreover have "ss \<noteq> []" unfolding ss_def Cons by simp
    ultimately show ?thesis
      using ne unfolding seed_to_retire_def Let_def Cons[symmetric]
      by (cases "find (\<lambda>p. ps_Addr p = addr) ?s") (auto simp: Cons)
  qed
qed

lemma filter_delete_key:
  assumes "distinct (map fst xs)" "k \<in> set (filter P (map fst xs))"
  shows "length (filter P (map fst xs)) = Suc (length (filter P (map fst (AList.delete k xs))))"
proof -
  have "filter P (map fst (AList.delete k xs)) = remove1 k (filter P (map fst xs))"
    using assms(1) by (simp add: delete_keys distinct_remove1_removeAll[symmetric] filter_remove1)
  then show ?thesis
    using assms(2) length_pos_if_in_set[OF assms(2)] by (simp add: length_remove1 del: set_filter)
qed

text \<open>One join of a fresh voter: a placeholder gives way if there is one.\<close>

lemma fresh_join:
  fixes addr :: string and now :: int
  assumes ok: "peers_ok c" and role: "cc_Role (co_cfg c) \<noteq> ''observer''" and n: "fresh_voter c n r"
  defines "c' \<equiv> reconcileJoinedPeer now n addr r c"
  shows "peers_ok c'" and "cc_Role (co_cfg c') \<noteq> ''observer''"
    and "length (seed_ids (co_msp c')) = length (seed_ids (co_msp c)) - 1"
    and "card (voters (co_election c')) =
      card (voters (co_election c)) + (if seed_ids (co_msp c) = [] then 1 else 0)"
    and "voters (co_election c') \<subseteq> insert n (voters (co_election c))"
    and "set (map fst (msp_peers (co_msp c'))) \<subseteq> insert n (set (map fst (msp_peers (co_msp c))))"
proof -
  let ?ps = "msp_peers (co_msp c)" and ?V = "voters (co_election c)"
  let ?new = "\<lparr>ps_NodeID = n, ps_Addr = addr, ps_Role = r, ps_LastSeen = now, ps_MissedBeats = 0,
      ps_SDown = False, ps_odownFired = False\<rparr>"
  let ?ps1 = "?ps @ [(n, ?new)]"
  let ?ret = "seed_to_retire True n addr (map snd ?ps1)"
  have keys: "\<forall>(k, p) \<in> set ?ps. ps_NodeID p = k" "n \<notin> set (map fst ?ps)" "n \<noteq> ''''" "\<not> starts_with ''seed-'' n"
    "n \<notin> ?V" "finite ?V" "distinct (map fst ?ps)" "set (seed_ids (co_msp c)) \<subseteq> ?V" "r \<noteq> RoleObserver"
    using ok n by (auto simp: peers_ok_def fresh_voter_def)
  have unknown: "\<not> list_ex (\<lambda>p. ps_NodeID p = n) (AllPeers (co_msp c))"
    using keys(1,2) by (force simp: list_ex_iff AllPeers_def)
  have ss: "map ps_NodeID (filter (\<lambda>p. ps_NodeID p \<noteq> n \<and> starts_with ''seed-'' (ps_NodeID p)) (map snd ?ps1)) =
      seed_ids (co_msp c)"
    using seeds_of_peers[OF keys(1,2)] by (simp add: seed_ids_def)
  note ret = seed_to_retire_voter[of n "map snd ?ps1" addr, unfolded ss]
  have c': "co_cfg c' = co_cfg c"
    "msp_peers (co_msp c') = (if ?ret = '''' then ?ps1 else AList.delete ?ret ?ps1)"
    "voters (co_election c') = (if ?ret = '''' then insert n ?V else insert n ?V - {?ret})"
    using role keys(3,9) unknown update_new[OF keys(2), of ?new]
    by (simp_all add: c'_def reconcileJoinedPeer_def Let_def AddPeer_def RemovePeer_def AllPeers_def
        RegisterVoter_def UnregisterVoter_def)
  show "cc_Role (co_cfg c') \<noteq> ''observer''" using role c'(1) by simp
  show "voters (co_election c') \<subseteq> insert n ?V" using c'(3) by auto
  show "set (map fst (msp_peers (co_msp c'))) \<subseteq> insert n (set (map fst ?ps))"
    unfolding c'(2) by (auto simp: AList.delete_eq)
  have d1: "distinct (map fst ?ps1)" using keys(2,7) by simp
  have s1: "filter (starts_with ''seed-'') (map fst ?ps1) = seed_ids (co_msp c)"
    using keys(4) by (simp add: seed_ids_def)
  have len: "length (seed_ids (co_msp c)) = Suc (length (filter (starts_with ''seed-'') (map fst (AList.delete ?ret ?ps1))))"
    if "seed_ids (co_msp c) \<noteq> []"
  proof -
    have "?ret \<in> set (seed_ids (co_msp c))" using ret that by simp
    from filter_delete_key[OF d1, of ?ret "starts_with ''seed-''", unfolded s1, OF this] show ?thesis .
  qed
  show "length (seed_ids (co_msp c')) = length (seed_ids (co_msp c)) - 1"
  proof (cases "seed_ids (co_msp c) = []")
    case True
    with ret s1 show ?thesis by (simp add: seed_ids_def c'(2))
  next
    case False
    with ret len show ?thesis by (simp add: seed_ids_def c'(2))
  qed
  show "card (voters (co_election c')) = card ?V + (if seed_ids (co_msp c) = [] then 1 else 0)"
    using ret keys(5,6,8) by (cases "seed_ids (co_msp c) = []") (auto simp: c'(3) card_Diff_singleton_if)
  have "set (seed_ids (co_msp c')) \<subseteq> voters (co_election c')"
    using keys(4,8) by (auto simp: seed_ids_def c'(2,3) AList.delete_eq)
  moreover have "\<forall>(k, p) \<in> set (msp_peers (co_msp c')). ps_NodeID p = k"
    using keys(1) unfolding c'(2) by (auto simp: AList.delete_eq)
  ultimately show "peers_ok c'"
    using d1 keys(6) unfolding peers_ok_def by (simp add: c'(2,3) distinct_delete del: map_append)
qed

definition join_all :: "int \<Rightarrow> (node_id \<times> string \<times> NodeRole) list \<Rightarrow> 'db ClusterCoordinator \<Rightarrow> 'db ClusterCoordinator" where
  "join_all now js c = fold (\<lambda>(n, addr, r) c. reconcileJoinedPeer now n addr r c) js c"

lemma join_all_voters:
  assumes "peers_ok c" "cc_Role (co_cfg c) \<noteq> ''observer''" "distinct (map fst js)"
    "\<forall>(n, addr, r) \<in> set js. fresh_voter c n r"
  shows "card (voters (co_election (join_all now js c))) =
    card (voters (co_election c)) + (length js - length (seed_ids (co_msp c)))"
  using assms
proof (induction js arbitrary: c)
  case Nil
  then show ?case by (simp add: join_all_def)
next
  case (Cons j js)
  obtain n addr r where j: "j = (n, addr, r)" by (metis prod_cases3)
  let ?c = "reconcileJoinedPeer now n addr r c"
  have n: "fresh_voter c n r" using Cons.prems(4) j by simp
  note f = fresh_join[OF Cons.prems(1,2) n, of now addr]
  have "\<forall>(k, a, q) \<in> set js. fresh_voter ?c k q"
  proof clarify
    fix k a q
    assume k: "(k, a, q) \<in> set js"
    then have "fresh_voter c k q" "k \<noteq> n" using Cons.prems(3,4) j by (force simp: image_iff)+
    then show "fresh_voter ?c k q" using f(5,6) by (auto simp: fresh_voter_def)
  qed
  from Cons.IH[OF f(1,2) _ this] Cons.prems(3) f(3,4)
  show ?case by (cases "seed_ids (co_msp c)") (auto simp: join_all_def j)
qed

lemma update_subset: "set (AList.update k v xs) \<subseteq> insert (k, v) (set xs)"
  by (induction xs) auto

lemma add_seed_peers:
  assumes "peers_ok c" "cc_Role (co_cfg c) \<noteq> ''observer''"
  shows "peers_ok (add_seed now s c) \<and> cc_Role (co_cfg (add_seed now s c)) \<noteq> ''observer'' \<and>
    voters (co_election (add_seed now s c)) = insert (''seed-'' @ s) (voters (co_election c)) \<and>
    set (map fst (msp_peers (co_msp (add_seed now s c)))) = insert (''seed-'' @ s) (set (map fst (msp_peers (co_msp c))))"
proof -
  let ?p = "\<lparr>ps_NodeID = ''seed-'' @ s, ps_Addr = s, ps_Role = RoleUnknown, ps_LastSeen = now, ps_MissedBeats = 0,
      ps_SDown = False, ps_odownFired = False\<rparr>"
  have "\<forall>(n, p) \<in> set (AList.update (''seed-'' @ s) ?p (msp_peers (co_msp c))). ps_NodeID p = n"
    using assms(1) update_subset[of "''seed-'' @ s" ?p "msp_peers (co_msp c)"] by (fastforce simp: peers_ok_def)
  then show ?thesis
    using assms by (auto simp: add_seed_def Let_def peers_ok_def AddPeer_def RegisterVoter_def seed_ids_def
        distinct_update update_keys)
qed

lemma add_seeds_peers:
  assumes "peers_ok c" "cc_Role (co_cfg c) \<noteq> ''observer''"
  shows "peers_ok (fold (add_seed now) ss c) \<and> cc_Role (co_cfg (fold (add_seed now) ss c)) \<noteq> ''observer'' \<and>
    voters (co_election (fold (add_seed now) ss c)) = (\<lambda>s. ''seed-'' @ s) ` set ss \<union> voters (co_election c) \<and>
    set (map fst (msp_peers (co_msp (fold (add_seed now) ss c)))) =
      (\<lambda>s. ''seed-'' @ s) ` set ss \<union> set (map fst (msp_peers (co_msp c)))"
  using assms
proof (induction ss arbitrary: c)
  case (Cons s ss)
  note a = add_seed_peers[OF Cons.prems, of now s]
  from Cons.IH[of "add_seed now s c"] a show ?case by auto
qed simp

text \<open>A node after the registration of its seeds.\<close>

lemma setup_voters:
  fixes now :: int and l :: "'db ReplicationLog" and ap :: "'db Applier" and es :: "'db EpochStore"
  assumes "cc_Role cfg \<noteq> ''observer''" "cc_NodeID cfg \<notin> (\<lambda>s. ''seed-'' @ s) ` set (cc_Seeds cfg)"
  defines "c \<equiv> Run_setup now (NewClusterCoordinator cfg l ap es)"
  shows "peers_ok c" "cc_Role (co_cfg c) \<noteq> ''observer''"
    "voters (co_election c) = insert (cc_NodeID cfg) ((\<lambda>s. ''seed-'' @ s) ` set (cc_Seeds cfg))"
    "set (map fst (msp_peers (co_msp c))) = (\<lambda>s. ''seed-'' @ s) ` set (cc_Seeds cfg)"
    "card (voters (co_election c)) = 1 + card (set (cc_Seeds cfg))"
    "length (seed_ids (co_msp c)) = card (set (cc_Seeds cfg))"
proof -
  let ?c0 = "NewClusterCoordinator cfg l ap es"
  let ?c1 = "?c0\<lparr>co_election := RegisterVoter (co_election ?c0) (cc_NodeID cfg)\<rparr>"
  have c1: "peers_ok ?c1" "cc_Role (co_cfg ?c1) \<noteq> ''observer''"
    using assms(1) by (simp_all add: peers_ok_def NewClusterCoordinator_def Let_def NewMSP_def RegisterVoter_def
        NewElection_def seed_ids_def)
  have c: "c = fold (add_seed now) (cc_Seeds cfg) ?c1"
    using assms(1) by (simp add: c_def Run_setup_def NewClusterCoordinator_def Let_def)
  note a = add_seeds_peers[OF c1, of now "cc_Seeds cfg", folded c]
  show ok: "peers_ok c" "cc_Role (co_cfg c) \<noteq> ''observer''" using a by simp_all
  show v: "voters (co_election c) = insert (cc_NodeID cfg) ((\<lambda>s. ''seed-'' @ s) ` set (cc_Seeds cfg))"
    using a by (simp add: RegisterVoter_def NewClusterCoordinator_def Let_def NewElection_def)
  show k: "set (map fst (msp_peers (co_msp c))) = (\<lambda>s. ''seed-'' @ s) ` set (cc_Seeds cfg)"
    using a by (simp add: NewClusterCoordinator_def Let_def NewMSP_def)
  have inj: "inj_on (\<lambda>s. ''seed-'' @ s) (set (cc_Seeds cfg))" by (simp add: inj_on_def)
  show "card (voters (co_election c)) = 1 + card (set (cc_Seeds cfg))"
    unfolding v using assms(2) card_image[OF inj] by simp
  have "\<forall>x \<in> set (map fst (msp_peers (co_msp c))). starts_with ''seed-'' x"
    unfolding k by (auto simp: starts_with_def)
  then have "filter (starts_with ''seed-'') (map fst (msp_peers (co_msp c))) = map fst (msp_peers (co_msp c))"
    by (rule filter_True)
  then have "length (seed_ids (co_msp c)) = card (set (map fst (msp_peers (co_msp c))))"
    using ok(1) unfolding peers_ok_def seed_ids_def by (metis distinct_card)
  then show "length (seed_ids (co_msp c)) = card (set (cc_Seeds cfg))"
    unfolding k using card_image[OF inj] by simp
qed

text \<open>C24.  Joins do not change the quorum that the configuration asks for: a node starts with itself
  and one placeholder per seed address as voters, every new voter takes the place of a
  placeholder while there is one, whatever address it joins from, and only further nodes than
  there are seeds raise the number.\<close>

theorem joins_keep_quorum:
  fixes now :: int and l :: "'db ReplicationLog"
  assumes "cc_Role cfg \<noteq> ''observer''" "cc_NodeID cfg \<notin> (\<lambda>s. ''seed-'' @ s) ` set (cc_Seeds cfg)"
    and "distinct (map fst js)"
    and "\<forall>(n, addr, r) \<in> set js. n \<noteq> '''' \<and> n \<noteq> cc_NodeID cfg \<and> \<not> starts_with ''seed-'' n \<and> r \<noteq> RoleObserver"
  shows "card (voters (co_election (join_all now' js (Run_setup now (NewClusterCoordinator cfg l ap es))))) =
    1 + max (card (set (cc_Seeds cfg))) (length js)"
proof -
  let ?c = "Run_setup now (NewClusterCoordinator cfg l ap es)"
  note s = setup_voters[OF assms(1,2), of now l ap es]
  have "fresh_voter ?c n r" if "(n, addr, r) \<in> set js" for n addr r
    using assms(4) that s(3,4) unfolding fresh_voter_def by (auto simp: starts_with_def)
  then have "\<forall>(n, addr, r) \<in> set js. fresh_voter ?c n r" by auto
  from join_all_voters[OF s(1,2) assms(3) this, of now'] s(5,6) show ?thesis by simp
qed

theorem joins_keep_quorum_witness:
  "card (voters (co_election (join_all 1 [(''b'', ''10.0.0.9'', RoleReplica)] (Run_setup 0 (NewClusterCoordinator
      ((wit_cfg ''a'')\<lparr>cc_Seeds := [''10.0.0.2'', ''10.0.0.3'']\<rparr>) (NewReplicationLog [])
      \<lparr>ap_db = [], ap_lastApplied = 0, ap_appliedSince = 0\<rparr> \<lparr>es_db = [], es_current = 3\<rparr>))))) = 3"
  using joins_keep_quorum[of "(wit_cfg ''a'')\<lparr>cc_Seeds := [''10.0.0.2'', ''10.0.0.3'']\<rparr>" "[(''b'', ''10.0.0.9'', RoleReplica)]"
      1 0 "NewReplicationLog []" "\<lparr>ap_db = [], ap_lastApplied = 0, ap_appliedSince = 0\<rparr>" "\<lparr>es_db = [], es_current = 3\<rparr>"]
  by (simp add: wit_cfg_def starts_with_def NodeRole_defs numeral_3_eq_3)

section \<open>The quorum watchdog\<close>

text \<open>A tick of the watchdog with the peers as the failure detector then sees them.\<close>

definition watch :: "(int \<times> MSP) list \<Rightarrow> 'db ClusterCoordinator \<Rightarrow> 'db ClusterCoordinator" where
  "watch ticks c = fold (\<lambda>(now, m) c. fst (checkQuorumHealth now (c\<lparr>co_msp := m\<rparr>))) ticks c"

lemma watch_simps [simp]: "watch [] c = c"
  "watch ((now, m) # ticks) c = watch ticks (fst (checkQuorumHealth now (c\<lparr>co_msp := m\<rparr>)))"
  by (simp_all add: watch_def)

definition quorate :: "'db ClusterCoordinator \<Rightarrow> MSP \<Rightarrow> bool" where
  "quorate c m \<longleftrightarrow> quorumLocked (co_election c) \<le> aliveVoters (c\<lparr>co_msp := m\<rparr>)"

lemma quorate_cong: "co_election c' = co_election c \<Longrightarrow> quorate c' m = quorate c m"
  by (simp add: quorate_def aliveVoters_def)

lemma watch_follower: "\<not> IsLeader c \<Longrightarrow> \<not> IsLeader (watch ticks c) \<and> co_election (watch ticks c) = co_election c"
proof (induction ticks arbitrary: c)
  case (Cons t ticks)
  obtain now m where t: "t = (now, m)" by fastforce
  have "fst (checkQuorumHealth now (c\<lparr>co_msp := m\<rparr>)) = c\<lparr>co_msp := m\<rparr>"
    using Cons.prems by (simp add: checkQuorumHealth_def IsLeader_def)
  with Cons.IH[of "c\<lparr>co_msp := m\<rparr>"] Cons.prems t show ?case by (simp add: IsLeader_def)
qed simp

lemma watch_losing:
  assumes "IsLeader c" "co_hadQuorum c" "co_quorumLostSince c = Some t"
    and "\<forall>(now, m) \<in> set ticks. \<not> quorate c m"
  shows "if \<exists>(now, m) \<in> set ticks. quorumTimeout c \<le> now - t
    then \<not> IsLeader (watch ticks c) \<and> co_election (watch ticks c) = StepDown (co_election c)
    else IsLeader (watch ticks c) \<and> co_quorumLostSince (watch ticks c) = Some t"
  using assms
proof (induction ticks arbitrary: c)
  case (Cons tick ticks)
  obtain now m where t: "tick = (now, m)" by fastforce
  let ?c = "c\<lparr>co_msp := m\<rparr>"
  have nq: "\<not> quorumLocked (co_election ?c) \<le> aliveVoters ?c" using Cons.prems(4) t by (simp add: quorate_def)
  have qt: "quorumTimeout ?c = quorumTimeout c" by (simp add: quorumTimeout_def)
  show ?case
  proof (cases "quorumTimeout c \<le> now - t")
    case True
    let ?d = "fst (checkQuorumHealth now ?c)"
    have d: "\<not> IsLeader ?d" "co_election ?d = StepDown (co_election c)"
      using Cons.prems nq qt True by (simp_all add: checkQuorumHealth_def IsLeader_def role_step_defs)
    from watch_follower[OF d(1), of ticks] d(2) True t show ?thesis by auto
  next
    case False
    then have "fst (checkQuorumHealth now ?c) = ?c"
      using Cons.prems nq qt by (simp add: checkQuorumHealth_def IsLeader_def)
    moreover have "quorate ?c x = quorate c x" for x by (rule quorate_cong) simp
    ultimately show ?thesis
      using Cons.IH[of ?c] Cons.prems False t qt by (auto simp: IsLeader_def split: if_splits)
  qed
qed simp

lemma watch_quorate: "IsLeader c \<Longrightarrow> quorate c m \<Longrightarrow> fst (checkQuorumHealth now (c\<lparr>co_msp := m\<rparr>)) =
    c\<lparr>co_msp := m, co_hadQuorum := True, co_quorumLostSince := None\<rparr>"
  by (simp add: checkQuorumHealth_def IsLeader_def quorate_def)

lemma watch_lost: "IsLeader c \<Longrightarrow> \<not> quorate c m \<Longrightarrow> co_hadQuorum c \<Longrightarrow> co_quorumLostSince c = None \<Longrightarrow>
    fst (checkQuorumHealth now (c\<lparr>co_msp := m\<rparr>)) = c\<lparr>co_msp := m, co_quorumLostSince := Some now\<rparr>"
  by (simp add: checkQuorumHealth_def IsLeader_def quorate_def)

text \<open>C25.  A leader that has had a quorum gives up exactly when it has gone without one for the
  timeout, measured from the first tick that missed it: until then it leads, and afterwards its
  election is idle with no leader known, so that it can be elected again.\<close>

theorem quorum_watchdog:
  assumes "co_wf c" "IsLeader c" "currentLeader (co_election c) = localNodeID (co_election c)"
    and "quorate c m0" "\<forall>(now, m) \<in> set ((t, m1) # ticks). \<not> quorate c m"
  shows "if \<exists>(now, m) \<in> set ticks. quorumTimeout c \<le> now - t
    then \<not> IsLeader (watch ((t0, m0) # (t, m1) # ticks) c) \<and>
      state (co_election (watch ((t0, m0) # (t, m1) # ticks) c)) = ElectionIdle \<and>
      currentLeader (co_election (watch ((t0, m0) # (t, m1) # ticks) c)) = ''''
    else IsLeader (watch ((t0, m0) # (t, m1) # ticks) c)"
proof -
  define c1 where "c1 = c\<lparr>co_msp := m0, co_hadQuorum := True, co_quorumLostSince := None\<rparr>"
  define c2 where "c2 = c1\<lparr>co_msp := m1, co_quorumLostSince := Some t\<rparr>"
  have c1: "IsLeader c1" "co_hadQuorum c1" "co_quorumLostSince c1 = None" "\<not> quorate c1 m1"
    using assms(2,5) by (simp_all add: c1_def IsLeader_def quorate_def aliveVoters_def)
  have w: "watch ((t0, m0) # (t, m1) # ticks) c = watch ticks c2"
    using watch_quorate[OF assms(2,4), of t0] watch_lost[OF c1(1,4,2,3), of t] by (simp add: c1_def c2_def)
  have q: "quorate c2 m = quorate c m" "quorumTimeout c2 = quorumTimeout c" "IsLeader c2" "co_hadQuorum c2"
    "co_quorumLostSince c2 = Some t" "co_election c2 = co_election c" for m
    using assms(2) by (simp_all add: c1_def c2_def quorate_def aliveVoters_def quorumTimeout_def IsLeader_def)
  have e: "state (StepDown (co_election c)) = ElectionIdle" "currentLeader (StepDown (co_election c)) = ''''"
    using assms(1-3) by (simp_all add: co_wf_def IsLeader_def StepDown_def Let_def)
  have "\<forall>(now, m) \<in> set ticks. \<not> quorate c2 m" using assms(5) unfolding q(1) by simp
  from watch_losing[OF q(3-5) this] show ?thesis
    unfolding w q(2,6) using e by presburger
qed

text \<open>A leader of two voters; the other one is up or down.\<close>

definition wit_pair :: "(bytes \<times> bytes) list ClusterCoordinator" where
  "wit_pair = (wit_pruner 0)\<lparr>co_election := (co_election (wit_pruner 0))
     \<lparr>voters := {''b'', ''c''}, currentLeader := ''b''\<rparr>\<rparr>"

definition wit_msp :: "bool \<Rightarrow> MSP" where
  "wit_msp down = (NewMSP ''b'' '''')\<lparr>msp_peers := [(''c'', \<lparr>ps_NodeID = ''c'', ps_Addr = '''', ps_Role = RoleReplica,
     ps_LastSeen = 0, ps_MissedBeats = 0, ps_SDown = down, ps_odownFired = False\<rparr>)]\<rparr>"

theorem quorum_watchdog_witness:
  "\<not> IsLeader (watch [(0, wit_msp False), (1, wit_msp True), (6000000000, wit_msp True)] wit_pair) \<and>
   IsLeader (watch [(0, wit_msp False), (1, wit_msp True), (2, wit_msp True)] wit_pair)"
proof -
  have node: "co_wf wit_pair" "IsLeader wit_pair" "currentLeader (co_election wit_pair) = localNodeID (co_election wit_pair)"
    "quorumTimeout wit_pair = 5000000000"
    using wit_pruner_node(1)[of 0] wit_pruner_sel(3)[of 0]
    by (simp_all add: wit_pair_def co_wf_def IsLeader_def wit_pruner_def wit_leader_def wit_node_def
        NewClusterCoordinator_def Let_def NewElection_def wit_cfg_def quorumTimeout_def wrap64_def)
  have q: "quorate wit_pair (wit_msp down) \<longleftrightarrow> \<not> down" for down
    by (simp add: quorate_def wit_pair_def quorumLocked_def aliveVoters_def wit_msp_def LivePeers_def IsVoter_def)
  have up: "quorate wit_pair (wit_msp False)" using q by simp
  have "\<not> IsLeader (watch [(0, wit_msp False), (1, wit_msp True), (6000000000, wit_msp True)] wit_pair)"
    using quorum_watchdog[OF node(1-3) up, of 1 "wit_msp True" "[(6000000000, wit_msp True)]" 0] q node(4) by simp
  moreover have "IsLeader (watch [(0, wit_msp False), (1, wit_msp True), (2, wit_msp True)] wit_pair)"
    using quorum_watchdog[OF node(1-3) up, of 1 "wit_msp True" "[(2, wit_msp True)]" 0] q node(4) by simp
  ultimately show ?thesis ..
qed

section \<open>Simultaneous dials\<close>

lemma reconcile_live_conn: "live_conn (co_mgr (reconcileJoinedPeer now n addr r c)) n = live_conn (co_mgr c) n"
  by (simp add: live_conn_def reconcile_peer_kept)

text \<open>One hello that passes the checks, on either side, as its effect on the connection.\<close>

definition no_join_conn :: "node_id \<Rightarrow> 'db ClusterCoordinator \<Rightarrow> bool" where
  "no_join_conn n c \<longleftrightarrow> (\<forall>p. GetPeer (co_mgr c) n = Some p \<longrightarrow> IsConnected p \<longrightarrow> pc_kind p \<noteq> kindJoin)"

lemma RegisterConnKind_hello:
  assumes "RegisterConnKind n addr conn kindHello canonical m = (m', True)"
  shows "\<exists>p. GetPeer m' n = Some p \<and> pc_kind p = kindHello"
  using assms by (auto simp: RegisterConnKind_def Let_def conn_simps split: if_splits)

lemma adopt_live:
  fixes peer :: PeerHello
  assumes nj: "no_join_conn (ph_NodeID peer) c" and run: "adoptHelloPeer now conn peer canonical c = (c', outs, ok)"
  shows "live_conn (co_mgr c') (ph_NodeID peer) =
      (if canonical \<or> live_conn (co_mgr c) (ph_NodeID peer) = None then Some conn
       else live_conn (co_mgr c) (ph_NodeID peer))"
    and "no_join_conn (ph_NodeID peer) c'" and "co_cfg c' = co_cfg c"
proof -
  let ?n = "ph_NodeID peer"
  obtain m b where r: "RegisterConnKind ?n (ph_Addr peer) conn kindHello canonical (co_mgr c) = (m, b)" by fastforce
  have "live_conn (co_mgr c') ?n = (if canonical \<or> live_conn (co_mgr c) ?n = None then Some conn
      else live_conn (co_mgr c) ?n) \<and> no_join_conn ?n c' \<and> co_cfg c' = co_cfg c"
  proof (cases b)
    case True
    obtain p where p: "GetPeer m ?n = Some p" "pc_kind p = kindHello"
      using RegisterConnKind_hello[of ?n "ph_Addr peer" conn canonical "co_mgr c" m] r True by auto
    have c': "c' = reconcileJoinedPeer now ?n (ph_Addr peer) (ph_Role peer) (c\<lparr>co_mgr := m\<rparr>)"
      using run r True by (simp add: adoptHelloPeer_def Let_def)
    have "live_conn m ?n = Some conn" using live_conn_adopted r True by simp
    moreover have "canonical \<or> live_conn (co_mgr c) ?n = None"
    proof (rule ccontr)
      assume n: "\<not> (canonical \<or> live_conn (co_mgr c) ?n = None)"
      then have "RegisterConnKind ?n (ph_Addr peer) conn kindHello False (co_mgr c) = (co_mgr c, False)"
        by (intro noncanonical_hello_refused) simp
      with n r True show False by simp
    qed
    ultimately show ?thesis
      using p unfolding c' by (simp add: reconcile_live_conn reconcile_fields no_join_conn_def reconcile_peer_kept)
  next
    case False
    have c': "c' = c\<lparr>co_mgr := m\<lparr>cm_closedConns := conn # cm_closedConns m\<rparr>\<rparr>"
      using run r False by (simp add: adoptHelloPeer_def)
    have m: "m = co_mgr c" "live_conn (co_mgr c) ?n \<noteq> None"
      using live_conn_refused[of ?n "ph_Addr peer" conn kindHello canonical "co_mgr c" m] r False by simp_all
    have "\<not> canonical"
      using canonical_hello_adopted[of "co_mgr c" ?n "ph_Addr peer" conn] nj r False
      by (cases canonical) (auto simp: no_join_conn_def)
    with m nj show ?thesis unfolding c' by (simp add: no_join_conn_def live_conn_def GetPeer_def)
  qed
  then show "live_conn (co_mgr c') ?n = (if canonical \<or> live_conn (co_mgr c) ?n = None then Some conn
      else live_conn (co_mgr c) ?n)" "no_join_conn ?n c'" "co_cfg c' = co_cfg c" by auto
qed

text \<open>The two sides of a hello with a peer whose hello passes the checks.\<close>

definition hello_ok :: "(bytes \<Rightarrow> bytes \<Rightarrow> bytes) \<Rightarrow> PeerHello \<Rightarrow> 'db ClusterCoordinator \<Rightarrow> bool" where
  "hello_ok hmac h c \<longleftrightarrow> ph_NodeID h \<noteq> '''' \<and> ph_NodeID h \<noteq> cc_NodeID (co_cfg c) \<and> verifyHello hmac h c \<and>
     no_join_conn (ph_NodeID h) c"

text \<open>What one side leaves: the connection to the peer, given whether its own side is canonical.\<close>

definition hello_effect :: "bool \<Rightarrow> nat \<Rightarrow> (bytes \<Rightarrow> bytes \<Rightarrow> bytes) \<Rightarrow> PeerHello \<Rightarrow>
    'db ClusterCoordinator \<Rightarrow> 'db ClusterCoordinator \<Rightarrow> bool" where
  "hello_effect canonical conn hmac h c c' \<longleftrightarrow> hello_ok hmac h c' \<and> co_cfg c' = co_cfg c \<and>
     live_conn (co_mgr c') (ph_NodeID h) =
       (if canonical \<or> live_conn (co_mgr c) (ph_NodeID h) = None then Some conn
        else live_conn (co_mgr c) (ph_NodeID h))"

lemma dial_effect:
  assumes "hello_ok hmac h c"
  shows "hello_effect (cc_NodeID (co_cfg c) < ph_NodeID h) conn hmac h c (fst (helloDial hmac now conn (Inr h) c))"
proof -
  obtain d outs ok where a: "adoptHelloPeer now conn h (cc_NodeID (co_cfg c) < ph_NodeID h) c = (d, outs, ok)"
    by (metis prod_cases3)
  have "fst (helloDial hmac now conn (Inr h) c) = d" using assms a by (simp add: helloDial_def hello_ok_def)
  with adopt_live[OF _ a] assms show ?thesis by (auto simp: hello_effect_def hello_ok_def verifyHello_def)
qed

lemma incoming_effect:
  assumes "hello_ok hmac h c"
  shows "hello_effect (ph_NodeID h < cc_NodeID (co_cfg c)) conn hmac h c
    (fst (HandleIncomingHello hmac True now conn (Inr h) c))"
proof -
  obtain d outs ok where a: "adoptHelloPeer now conn h (ph_NodeID h < cc_NodeID (co_cfg c)) c = (d, outs, ok)"
    by (metis prod_cases3)
  have "fst (HandleIncomingHello hmac True now conn (Inr h) c) = d"
    using assms a by (simp add: HandleIncomingHello_def hello_ok_def)
  with adopt_live[OF _ a] assms show ?thesis by (auto simp: hello_effect_def hello_ok_def verifyHello_def)
qed

lemma canonical_effects_win:
  assumes "hello_effect c1 k1 hmac h c d" "hello_effect c2 k2 hmac h d e" "c1 \<and> \<not> c2 \<and> k = k1 \<or> c2 \<and> k = k2"
  shows "live_conn (co_mgr e) (ph_NodeID h) = Some k"
  using assms by (auto simp: hello_effect_def)

text \<open>C26.  When two nodes dial each other at the same time, whatever the order in which each of them
  handles its own dial and the other's, and whatever hello connection they had before, they keep
  the same connection: the one that the node with the smaller id has dialed.\<close>

theorem simultaneous_hellos_agree:
  fixes a b :: "'db ClusterCoordinator"
  assumes "cc_NodeID (co_cfg a) = na" "cc_NodeID (co_cfg b) = nb" "na < nb"
    and "ph_NodeID hb = nb" "ph_NodeID ha = na" "hello_ok hmac hb a" "hello_ok hmac ha b"
    and "a' \<in> {fst (HandleIncomingHello hmac True t2 cb (Inr hb) (fst (helloDial hmac t1 ca (Inr hb) a))),
               fst (helloDial hmac t2 ca (Inr hb) (fst (HandleIncomingHello hmac True t1 cb (Inr hb) a)))}"
    and "b' \<in> {fst (HandleIncomingHello hmac True t4 ca (Inr ha) (fst (helloDial hmac t3 cb (Inr ha) b))),
               fst (helloDial hmac t4 cb (Inr ha) (fst (HandleIncomingHello hmac True t3 ca (Inr ha) b)))}"
  shows "live_conn (co_mgr a') nb = Some ca \<and> live_conn (co_mgr b') na = Some ca"
proof -
  have lt: "\<not> nb < na" using assms(3) by auto
  let ?a1 = "fst (helloDial hmac t1 ca (Inr hb) a)" and ?a2 = "fst (HandleIncomingHello hmac True t1 cb (Inr hb) a)"
  let ?b1 = "fst (helloDial hmac t3 cb (Inr ha) b)" and ?b2 = "fst (HandleIncomingHello hmac True t3 ca (Inr ha) b)"
  note a1 = dial_effect[OF assms(6), of ca t1] and a2 = incoming_effect[OF assms(6), of cb t1]
  note b1 = dial_effect[OF assms(7), of cb t3] and b2 = incoming_effect[OF assms(7), of ca t3]
  have ok: "hello_ok hmac hb ?a1" "hello_ok hmac hb ?a2" "hello_ok hmac ha ?b1" "hello_ok hmac ha ?b2"
    "co_cfg ?a1 = co_cfg a" "co_cfg ?a2 = co_cfg a" "co_cfg ?b1 = co_cfg b" "co_cfg ?b2 = co_cfg b"
    using a1 a2 b1 b2 by (simp_all add: hello_effect_def)
  note a1' = incoming_effect[OF ok(1), of cb t2] and a2' = dial_effect[OF ok(2), of ca t2]
  note b1' = incoming_effect[OF ok(3), of ca t4] and b2' = dial_effect[OF ok(4), of cb t4]
  have "live_conn (co_mgr a') nb = Some ca"
    using canonical_effects_win[OF a1 a1', of ca] canonical_effects_win[OF a2 a2', of ca] assms(1,3,4,8) lt ok(5,6) by auto
  moreover have "live_conn (co_mgr b') na = Some ca"
    using canonical_effects_win[OF b1 b1', of ca] canonical_effects_win[OF b2 b2', of ca] assms(2,3,5,9) lt ok(7,8) by auto
  ultimately show ?thesis ..
qed

theorem simultaneous_hellos_agree_witness:
  "let a = wit_node; b = wit_node\<lparr>co_cfg := wit_cfg ''c''\<rparr>;
       ha = localHello wit_hmac a; hb = localHello wit_hmac b
     in live_conn (co_mgr (fst (helloDial wit_hmac 1 7 (Inr hb) (fst (HandleIncomingHello wit_hmac True 0 8 (Inr hb) a))))) ''c'' = Some 7 \<and>
        live_conn (co_mgr (fst (HandleIncomingHello wit_hmac True 1 7 (Inr ha) (fst (helloDial wit_hmac 0 8 (Inr ha) b))))) ''b'' = Some 7"
proof -
  let ?a = "wit_node" and ?b = "wit_node\<lparr>co_cfg := wit_cfg ''c''\<rparr>"
  let ?ha = "localHello wit_hmac ?a" and ?hb = "localHello wit_hmac ?b"
  have cfg: "co_cfg ?a = wit_cfg ''b''" "co_cfg ?b = wit_cfg ''c''" "cm_peers (co_mgr ?a) = []" "cm_peers (co_mgr ?b) = []"
    by (simp_all add: wit_node_def NewClusterCoordinator_def Let_def NewConnManager_def)
  have ids: "cc_NodeID (wit_cfg n) = n" "cc_ClusterSecret (wit_cfg n) = ''secret''" for n by (simp_all add: wit_cfg_def)
  have ok: "hello_ok wit_hmac ?hb ?a" "hello_ok wit_hmac ?ha ?b" "ph_NodeID ?hb = ''c''" "ph_NodeID ?ha = ''b''"
    using cfg by (simp_all add: hello_ok_def localHello_def Let_def verifyHello_def no_join_conn_def GetPeer_def ids)
  have lt: "''b'' < (''c'' :: string)" by simp
  have "live_conn (co_mgr (fst (helloDial wit_hmac 1 7 (Inr ?hb) (fst (HandleIncomingHello wit_hmac True 0 8 (Inr ?hb) ?a))))) ''c'' = Some 7 \<and>
      live_conn (co_mgr (fst (HandleIncomingHello wit_hmac True 1 7 (Inr ?ha) (fst (helloDial wit_hmac 0 8 (Inr ?ha) ?b))))) ''b'' = Some 7"
    by (rule simultaneous_hellos_agree[OF _ _ lt ok(3,4,1,2) insertI2[OF singletonI] insertI1]) (simp_all only: cfg ids)
  then show ?thesis unfolding Let_def .
qed

end
