(* ===== verification/Assoc_Value.thy ===== *)
theory Assoc_Value
  imports Storage_Types Erf_Lemmas Weight_Props
begin

text \<open>
  The value of an association key (\<open>internal/storage/association.go\<close>): its encoders and its decoder
  for the four lengths in use (18, 22, 26 and 30 bytes), the clock rule for the last activation, the
  update of an edge's metadata, and the comparison and product of float32 bit patterns they use.
\<close>

type_synonym assoc = "f32 Association"

record AssocMeta =
  am_relType :: RelType
  am_confidence :: f32
  am_createdAt :: time
  am_lastActivated :: int
  am_peakWeight :: f32
  am_coActivationCount :: u32
  am_restoredAt :: int

section \<open>float32 comparison and product\<close>

text \<open>\<open>f32_val w / 2 ^ 150\<close> is the number that \<open>w\<close> denotes; an infinity is larger than every finite one.\<close>

definition f32_val :: "f32 \<Rightarrow> int" where
  "f32_val w = (if f32_neg w then - int (f32_scaled w) else int (f32_scaled w))"

definition f32_less :: "f32 \<Rightarrow> f32 \<Rightarrow> bool" where
  "f32_less a b = (\<not> f32_nan a \<and> \<not> f32_nan b \<and> f32_val a < f32_val b)"

definition f32_geq :: "f32 \<Rightarrow> f32 \<Rightarrow> bool" where
  "f32_geq a b = (\<not> f32_nan a \<and> \<not> f32_nan b \<and> f32_val b \<le> f32_val a)"

definition f32_eq :: "f32 \<Rightarrow> f32 \<Rightarrow> bool" where
  "f32_eq a b = (\<not> f32_nan a \<and> \<not> f32_nan b \<and> f32_val a = f32_val b)"

definition f32_inf :: "f32 \<Rightarrow> bool" where
  "f32_inf w = (f32_exp w = 255 \<and> f32_frac w = 0)"

text \<open>The float nearest to \<open>n / 2 ^ 300\<close>, ties to even, as bits without the sign.\<close>

definition f32_round :: "nat \<Rightarrow> nat" where
  "f32_round n =
     (let q = n div 2 ^ 150;
          e = (if q < 2 ^ 24 then 1 else top_bit q - 23);
          m = round_even n (150 + e)
      in min (255 * 2 ^ 23) ((e - 1) * 2 ^ 23 + m))"

text \<open>Which NaN a product with a NaN is depends on the processor and is the parameter \<open>qn\<close>.\<close>

definition f32_mul :: "(f32 \<Rightarrow> f32 \<Rightarrow> f32) \<Rightarrow> f32 \<Rightarrow> f32 \<Rightarrow> f32" where
  "f32_mul qn a b =
     (let s = (if f32_neg a = f32_neg b then 0 else 2 ^ 31)
      in if f32_nan a \<or> f32_nan b then qn a b
         else if f32_inf a \<or> f32_inf b then
           (if f32_scaled a = 0 \<or> f32_scaled b = 0 then qn a b else word_of_nat (s + 255 * 2 ^ 23))
         else word_of_nat (s + f32_round (f32_scaled a * f32_scaled b)))"

section \<open>Encoding\<close>

definition assoc_nanos :: "time \<Rightarrow> u64" where
  "assoc_nanos createdAt = (if \<not> IsZero createdAt then UnixNano createdAt else 0)"

definition encodeAssocValue :: "RelType \<Rightarrow> f32 \<Rightarrow> time \<Rightarrow> int \<Rightarrow> f32 \<Rightarrow> u32 \<Rightarrow> bytes" where
  "encodeAssocValue relType confidence createdAt lastActivated peakWeight coActivationCount =
     PutUint16 relType @ PutUint32 confidence @ PutUint64 (assoc_nanos createdAt) @
     PutUint32 (word_of_int lastActivated) @ PutUint32 peakWeight @ PutUint32 coActivationCount"

definition encodeArchiveValue ::
  "RelType \<Rightarrow> f32 \<Rightarrow> time \<Rightarrow> int \<Rightarrow> f32 \<Rightarrow> u32 \<Rightarrow> int \<Rightarrow> bytes" where
  "encodeArchiveValue relType confidence createdAt lastActivated peakWeight coActivationCount restoredAt =
     PutUint16 relType @ PutUint32 confidence @ PutUint64 (assoc_nanos createdAt) @
     PutUint32 (word_of_int lastActivated) @ PutUint32 peakWeight @ PutUint32 coActivationCount @
     PutUint32 (word_of_int restoredAt)"

definition no_assoc_meta :: AssocMeta where
  "no_assoc_meta = \<lparr>am_relType = 0, am_confidence = 0x3F800000, am_createdAt = 0, am_lastActivated = 0,
     am_peakWeight = 0, am_coActivationCount = 0, am_restoredAt = 0\<rparr>"

definition decodeAssocValue :: "bytes \<Rightarrow> AssocMeta" where
  "decodeAssocValue val =
     (if length val < 18 then no_assoc_meta
      else if length val = 18 \<and> (\<forall>b \<in> set val. b = 0) then no_assoc_meta
      else
        (let nanos = Uint64 (sub val 6 8)
         in \<lparr>am_relType = Uint16 (sub val 0 2),
             am_confidence = Uint32 (sub val 2 4),
             am_createdAt = (if nanos \<noteq> 0 then Unix_ns nanos else 0),
             am_lastActivated = sint (Uint32 (sub val 14 4)),
             am_peakWeight = (if length val \<ge> 22 then Uint32 (sub val 18 4) else 0),
             am_coActivationCount = (if length val \<ge> 26 then Uint32 (sub val 22 4) else 0),
             am_restoredAt = (if length val \<ge> 30 then sint (Uint32 (sub val 26 4)) else 0)\<rparr>))"

definition AssocValueRelType :: "bytes \<Rightarrow> RelType" where
  "AssocValueRelType val = am_relType (decodeAssocValue val)"

definition assocCacheKey :: "bytes \<Rightarrow> bytes \<Rightarrow> bytes" where
  "assocCacheKey ws i = ws @ i"

section \<open>The update of an edge's metadata\<close>

definition int32 :: "int \<Rightarrow> int" where
  "int32 x = sint (word_of_int x :: 32 word)"

definition assocMonotonicAnchor :: "int \<Rightarrow> int \<Rightarrow> int" where
  "assocMonotonicAnchor stored incoming = (if stored > incoming then stored else incoming)"

definition saturating_count :: "u32 \<Rightarrow> u32 \<Rightarrow> u32" where
  "saturating_count old delta =
     (if delta > 0 then (if old + delta < old then - 1 else old + delta) else old)"

text \<open>\<open>0x3E800000\<close> is 0.25 and \<open>0x3FC00000\<close> is 1.5.\<close>

definition cleared_restoredAt :: "(f32 \<Rightarrow> f32 \<Rightarrow> f32) \<Rightarrow> AssocMeta \<Rightarrow> u32 \<Rightarrow> f32 \<Rightarrow> int" where
  "cleared_restoredAt qn old newCoAct weight =
     (if am_restoredAt old \<noteq> 0 then
        (let restoreWeight = f32_mul qn (am_peakWeight old) 0x3E800000
         in if newCoAct \<ge> am_coActivationCount old + 3 \<or> newCoAct \<ge> 3 \<or>
               f32_less (f32_mul qn restoreWeight 0x3FC00000) weight
            then 0 else am_restoredAt old)
      else am_restoredAt old)"

definition updated_meta :: "(f32 \<Rightarrow> f32 \<Rightarrow> f32) \<Rightarrow> AssocMeta \<Rightarrow> int \<Rightarrow> f32 \<Rightarrow> u32 \<Rightarrow> AssocMeta" where
  "updated_meta qn old now weight countDelta =
     (let newCoAct = saturating_count (am_coActivationCount old) countDelta
      in old\<lparr>am_lastActivated := assocMonotonicAnchor (am_lastActivated old) now,
             am_peakWeight := (if f32_less (am_peakWeight old) weight then weight else am_peakWeight old),
             am_coActivationCount := newCoAct,
             am_restoredAt := cleared_restoredAt qn old newCoAct weight\<rparr>)"

definition updated_value :: "AssocMeta \<Rightarrow> AssocMeta \<Rightarrow> bytes" where
  "updated_value old new =
     (if am_restoredAt old \<noteq> 0 \<or> am_restoredAt new \<noteq> 0 then
        encodeArchiveValue (am_relType new) (am_confidence new) (am_createdAt new) (am_lastActivated new)
          (am_peakWeight new) (am_coActivationCount new) (am_restoredAt new)
      else
        encodeAssocValue (am_relType new) (am_confidence new) (am_createdAt new) (am_lastActivated new)
          (am_peakWeight new) (am_coActivationCount new))"

section \<open>Round trips\<close>

text \<open>The times an association stores: the zero time, and those within 64 bits of nanoseconds around
  1970 other than 1970 itself, whose number of nanoseconds is the one the zero time is written as.\<close>

definition assoc_time_ok :: "time \<Rightarrow> bool" where
  "assoc_time_ok t \<longleftrightarrow> t = 0 \<or> unix_range t \<and> t \<noteq> unix_epoch"

definition in_int32 :: "int \<Rightarrow> bool" where
  "in_int32 x \<longleftrightarrow> - (2 ^ 31) \<le> x \<and> x < 2 ^ 31"

lemma in_int32_0 [simp]: "in_int32 0"
  by (simp add: in_int32_def)

lemma sint_word_int32: "in_int32 x \<Longrightarrow> sint (word_of_int x :: 32 word) = x"
  by (simp add: in_int32_def signed_of_int signed_take_bit_int_eq_self)

lemma in_int32_sint: "in_int32 (sint (w :: 32 word))"
  using sint_greater_eq[of w] sint_less[of w] by (simp add: in_int32_def)

lemma int32_in: "in_int32 (int32 x)"
  by (simp add: int32_def in_int32_sint)

lemma assoc_nanos_back:
  "assoc_time_ok t \<Longrightarrow> (if assoc_nanos t \<noteq> 0 then Unix_ns (assoc_nanos t) else 0) = t"
  by (auto simp: assoc_time_ok_def assoc_nanos_def IsZero_def UnixNano_zero_iff Unix_UnixNano)

lemma assoc_nanos_simps:
  assumes "assoc_time_ok t"
  shows "assoc_nanos t \<noteq> 0 \<Longrightarrow> Unix_ns (assoc_nanos t) = t" "assoc_nanos t = 0 \<Longrightarrow> t = 0"
  using assoc_nanos_back[OF assms] by (auto split: if_splits)

lemma length_encodeAssocValue [simp]: "length (encodeAssocValue r c t l p n) = 26"
  by (simp add: encodeAssocValue_def)

lemma length_encodeArchiveValue [simp]: "length (encodeArchiveValue r c t l p n x) = 30"
  by (simp add: encodeArchiveValue_def)

lemma decode_encodeArchive:
  assumes "assoc_time_ok t" "in_int32 l" "in_int32 x"
  shows "decodeAssocValue (encodeArchiveValue r c t l p n x) =
    \<lparr>am_relType = r, am_confidence = c, am_createdAt = t, am_lastActivated = l, am_peakWeight = p,
     am_coActivationCount = n, am_restoredAt = x\<rparr>"
  unfolding decodeAssocValue_def length_encodeArchiveValue Let_def
  by (auto simp: encodeArchiveValue_def sub_def sint_word_int32 assms assoc_nanos_simps[OF assms(1)])

lemma decode_encodeAssoc:
  assumes "assoc_time_ok t" "in_int32 l"
  shows "decodeAssocValue (encodeAssocValue r c t l p n) =
    \<lparr>am_relType = r, am_confidence = c, am_createdAt = t, am_lastActivated = l, am_peakWeight = p,
     am_coActivationCount = n, am_restoredAt = 0\<rparr>"
  unfolding decodeAssocValue_def length_encodeAssocValue Let_def
  by (auto simp: encodeAssocValue_def sub_def sint_word_int32 assms assoc_nanos_simps[OF assms(1)])

text \<open>What decoding a value gives can be encoded again.\<close>

definition meta_ok :: "AssocMeta \<Rightarrow> bool" where
  "meta_ok m \<longleftrightarrow> assoc_time_ok (am_createdAt m) \<and> in_int32 (am_lastActivated m) \<and> in_int32 (am_restoredAt m)"

lemma sint_0_iff: "sint (w :: u64) = 0 \<longleftrightarrow> w = 0"
proof
  assume "sint w = 0"
  then have "sint w = sint (0 :: u64)" by simp
  then show "w = 0" by (simp only: signed_word_eqI)
qed simp

lemma Unix_ns_ok: "w \<noteq> 0 \<Longrightarrow> assoc_time_ok (Unix_ns w)"
  using sint_greater_eq[of w] sint_less[of w]
  by (simp add: assoc_time_ok_def unix_range_def Unix_ns_def sint_0_iff)

lemma decode_meta_ok: "meta_ok (decodeAssocValue v)"
  by (simp add: meta_ok_def decodeAssocValue_def no_assoc_meta_def Let_def in_int32_sint Unix_ns_ok
      assoc_time_ok_def[of 0])

lemma updated_meta_ok: "meta_ok m \<Longrightarrow> in_int32 now \<Longrightarrow> meta_ok (updated_meta qn m now w d)"
  by (simp add: meta_ok_def updated_meta_def Let_def assocMonotonicAnchor_def cleared_restoredAt_def)

lemma decode_updated_value:
  assumes "meta_ok new"
  shows "decodeAssocValue (updated_value old new) = new"
  using assms
  by (cases new) (auto simp: updated_value_def meta_ok_def decode_encodeArchive decode_encodeAssoc)

end
