(* ===== verification/Association.thy ===== *)
theory Association
  imports Assoc_Value
begin

text \<open>
  Writing and reading associations (\<open>internal/storage/association.go\<close>, \<open>assoc_endpoints.go\<close>,
  \<open>assoc_reltype_guard.go\<close>): an edge from \<open>src\<close> to \<open>dst\<close> of weight \<open>w\<close> is a forward key and a reverse
  key, which carry the weight, and one entry of the weight index.  The state is the database, the two
  caches of association lists, the count of reads on which the endpoint guard failed, the number of
  \<open>contradicts\<close> writes by vault and the batches handed to the replication log, if there is one.  An
  entry of a cache that expires or is evicted disappears between two calls.
\<close>

datatype AssocCacheEntry = AssocCacheEntry (ce_assocs: "assoc list") (ce_truncated: bool)

record 'db AssocStore =
  ps_db :: 'db
  ps_assocCache :: "bytes \<rightharpoonup> AssocCacheEntry"
  ps_revAssocCache :: "bytes \<rightharpoonup> AssocCacheEntry"
  ps_guardReadFaults :: u64
  ps_contradictsGen :: "bytes \<Rightarrow> u64"
  ps_repLog :: "batch_op list list option"

text \<open>\<open>al_lru_add\<close> is \<open>Add\<close> of the LRU cache, \<open>al_nanw\<close> and \<open>al_qn\<close> what the processor makes of a NaN.\<close>

record 'db AssocLib =
  al_pebble :: "'db pebble"
  al_nanw :: "f32 \<Rightarrow> u32"
  al_qn :: "f32 \<Rightarrow> f32 \<Rightarrow> f32"
  al_lru_add :: "(bytes \<rightharpoonup> AssocCacheEntry) \<Rightarrow> bytes \<Rightarrow> AssocCacheEntry \<Rightarrow> (bytes \<rightharpoonup> AssocCacheEntry)"

datatype assoc_error =
    DanglingSource bytes | DanglingTarget bytes | RelTypeCollision RelType RelType
  | WeightIndexCorrupt nat | AssocDb db_error

section \<open>Guards\<close>

definition engramExists :: "'db AssocLib \<Rightarrow> 'db AssocStore \<Rightarrow> bytes \<Rightarrow> bytes \<Rightarrow> 'db AssocStore \<times> bool" where
  "engramExists lib ps ws i =
     (case pb_get (al_pebble lib) (ps_db ps) (EngramKey ws i) of
        Found v \<Rightarrow> (ps, True)
      | ErrNotFound \<Rightarrow> (ps, False)
      | GetErr e \<Rightarrow> (ps\<lparr>ps_guardReadFaults := ps_guardReadFaults ps + 1\<rparr>, True))"

definition checkEndpointsLive :: "'db AssocLib \<Rightarrow> 'db AssocStore \<Rightarrow> bytes \<Rightarrow> bytes \<Rightarrow> bytes \<Rightarrow>
    'db AssocStore \<times> assoc_error option" where
  "checkEndpointsLive lib ps ws src dst =
     (let (ps, srcLive) = engramExists lib ps ws src
      in if \<not> srcLive then (ps, Some (DanglingSource src))
         else
           (let (ps, dstLive) = engramExists lib ps ws dst
            in if \<not> dstLive then (ps, Some (DanglingTarget dst)) else (ps, None)))"

fun checkInlineAssocTargets :: "'db AssocLib \<Rightarrow> bytes \<Rightarrow> bytes \<Rightarrow> assoc list \<Rightarrow> (bytes \<Rightarrow> bool) option \<Rightarrow>
    'db AssocStore \<Rightarrow> 'db AssocStore \<times> assoc_error option" where
  "checkInlineAssocTargets lib ws self [] sameWrite ps = (ps, None)"
| "checkInlineAssocTargets lib ws self (a # assocs) sameWrite ps =
     (if as_TargetID a = self then checkInlineAssocTargets lib ws self assocs sameWrite ps
      else if (case sameWrite of None \<Rightarrow> False | Some f \<Rightarrow> f (as_TargetID a)) then
        checkInlineAssocTargets lib ws self assocs sameWrite ps
      else
        (let (ps, live) = engramExists lib ps ws (as_TargetID a)
         in if \<not> live then (ps, Some (DanglingTarget (as_TargetID a)))
            else checkInlineAssocTargets lib ws self assocs sameWrite ps))"

definition pointGet :: "'db AssocLib \<Rightarrow> 'db AssocStore \<Rightarrow> bytes \<Rightarrow> db_error + bytes option" where
  "pointGet lib ps key =
     (case pb_get (al_pebble lib) (ps_db ps) key of
        Found v \<Rightarrow> Inr (Some v) | ErrNotFound \<Rightarrow> Inr None | GetErr e \<Rightarrow> Inl e)"

definition checkRelTypeCollision :: "'db AssocLib \<Rightarrow> 'db AssocStore \<Rightarrow> bytes \<Rightarrow> bytes \<Rightarrow> f32 \<Rightarrow> bytes \<Rightarrow>
    RelType \<Rightarrow> assoc_error option" where
  "checkRelTypeCollision lib ps ws src weight dst newRelType =
     (case pointGet lib ps (AssocFwdKey (al_nanw lib) ws src weight dst) of
        Inl e \<Rightarrow> None
      | Inr None \<Rightarrow> None
      | Inr (Some existing) \<Rightarrow>
          (let relType = am_relType (decodeAssocValue existing)
           in if relType = newRelType then None else Some (RelTypeCollision relType newRelType)))"

section \<open>WriteAssociation\<close>

text \<open>The mark that a vault holds a declared contradiction is written with the edge.\<close>

definition DeclaredContradictionNone :: u8 where "DeclaredContradictionNone = 0"
definition DeclaredContradictionYes :: u8 where "DeclaredContradictionYes = 1"

definition MarkDeclaredContradictionInBatch :: "bytes \<Rightarrow> RelType \<Rightarrow> batch_op list" where
  "MarkDeclaredContradictionInBatch ws relType =
     (if relType \<noteq> RelContradicts then []
      else [BSet (DeclaredContradictionMarkKey ws) [DeclaredContradictionYes]])"

definition noteContradictsWrite :: "bytes \<Rightarrow> RelType \<Rightarrow> 'db AssocStore \<Rightarrow> 'db AssocStore" where
  "noteContradictsWrite ws relType ps =
     (if relType \<noteq> RelContradicts then ps
      else ps\<lparr>ps_contradictsGen := (ps_contradictsGen ps)(ws := ps_contradictsGen ps ws + 1)\<rparr>)"

definition replicateBatch :: "batch_op list \<Rightarrow> 'db AssocStore \<Rightarrow> 'db AssocStore" where
  "replicateBatch batch ps =
     (case ps_repLog ps of
        None \<Rightarrow> ps
      | Some l \<Rightarrow> if batch = [] then ps else ps\<lparr>ps_repLog := Some (l @ [batch])\<rparr>)"

definition forget_lists :: "bytes \<Rightarrow> bytes \<Rightarrow> bytes \<Rightarrow> 'db AssocStore \<Rightarrow> 'db AssocStore" where
  "forget_lists ws src dst ps =
     ps\<lparr>ps_assocCache := (ps_assocCache ps)(assocCacheKey ws src := None),
        ps_revAssocCache := (ps_revAssocCache ps)(assocCacheKey ws dst := None)\<rparr>"

definition edge_sets :: "(f32 \<Rightarrow> u32) \<Rightarrow> bytes \<Rightarrow> bytes \<Rightarrow> bytes \<Rightarrow> f32 \<Rightarrow> bytes \<Rightarrow> batch_op list" where
  "edge_sets nanw ws src dst weight val =
     [BSet (AssocFwdKey nanw ws src weight dst) val,
      BSet (AssocRevKey nanw ws dst weight src) val,
      BSet (AssocWeightIndexKey ws src dst) (PutUint32 weight)]"

definition writeAssociationUnguarded :: "'db AssocLib \<Rightarrow> 'db AssocStore \<Rightarrow> bytes \<Rightarrow> bytes \<Rightarrow> bytes \<Rightarrow>
    assoc \<Rightarrow> 'db AssocStore \<times> assoc_error option" where
  "writeAssociationUnguarded lib ps ws src dst assoc =
     (let assocValue = encodeAssocValue (as_RelType assoc) (as_Confidence assoc) (as_CreatedAt assoc)
                         (as_LastActivated assoc) (as_Weight assoc) 1;
          batch = edge_sets (al_nanw lib) ws src dst (as_Weight assoc) assocValue @
                  MarkDeclaredContradictionInBatch ws (as_RelType assoc)
      in case pb_commit (al_pebble lib) (ps_db ps) batch of
           Inl e \<Rightarrow> (ps, Some (AssocDb e))
         | Inr db' \<Rightarrow>
             (forget_lists ws src dst
                (replicateBatch batch (noteContradictsWrite ws (as_RelType assoc) (ps\<lparr>ps_db := db'\<rparr>))), None))"

definition WriteAssociation :: "'db AssocLib \<Rightarrow> 'db AssocStore \<Rightarrow> bytes \<Rightarrow> bytes \<Rightarrow> bytes \<Rightarrow> assoc \<Rightarrow>
    'db AssocStore \<times> assoc_error option" where
  "WriteAssociation lib ps ws src dst assoc =
     (case checkEndpointsLive lib ps ws src dst of
        (ps, Some e) \<Rightarrow> (ps, Some e)
      | (ps, None) \<Rightarrow>
          (case checkRelTypeCollision lib ps ws src (as_Weight assoc) dst (as_RelType assoc) of
             Some e \<Rightarrow> (ps, Some e)
           | None \<Rightarrow> writeAssociationUnguarded lib ps ws src dst assoc))"

section \<open>UpdateAssocWeight\<close>

definition GetAssocWeight :: "'db AssocLib \<Rightarrow> 'db AssocStore \<Rightarrow> bytes \<Rightarrow> bytes \<Rightarrow> bytes \<Rightarrow>
    assoc_error + f32" where
  "GetAssocWeight lib ps ws a b =
     (case pointGet lib ps (AssocWeightIndexKey ws a b) of
        Inl e \<Rightarrow> Inl (AssocDb e)
      | Inr None \<Rightarrow> Inr 0
      | Inr (Some val) \<Rightarrow>
          if length val < 4 then Inl (WeightIndexCorrupt (length val)) else Inr (Uint32 val))"

definition getAssocValueFull :: "'db AssocLib \<Rightarrow> 'db AssocStore \<Rightarrow> bytes \<Rightarrow> bytes \<Rightarrow> bytes \<Rightarrow>
    assoc_error + AssocMeta" where
  "getAssocValueFull lib ps ws a b =
     (case GetAssocWeight lib ps ws a b of
        Inl e \<Rightarrow> Inl e
      | Inr w \<Rightarrow>
          if f32_geq 0 w then Inr no_assoc_meta
          else
            (case pointGet lib ps (AssocFwdKey (al_nanw lib) ws a w b) of
               Inl e \<Rightarrow> Inl (AssocDb e)
             | Inr None \<Rightarrow> Inr no_assoc_meta
             | Inr (Some val) \<Rightarrow> Inr (decodeAssocValue val)))"

text \<open>\<open>0x3F800000\<close> is 1.0.\<close>

definition deleteLegacyFullWeightKeys :: "(f32 \<Rightarrow> u32) \<Rightarrow> bytes \<Rightarrow> bytes \<Rightarrow> bytes \<Rightarrow> f32 \<Rightarrow> batch_op list" where
  "deleteLegacyFullWeightKeys nanw ws a b trueWeight =
     (if \<not> f32_eq trueWeight 0x3F800000 then []
      else [BDelete (AssocFwdKey nanw ws a 0 b), BDelete (AssocRevKey nanw ws b 0 a)])"

definition edge_deletes :: "(f32 \<Rightarrow> u32) \<Rightarrow> bytes \<Rightarrow> bytes \<Rightarrow> bytes \<Rightarrow> f32 \<Rightarrow> batch_op list" where
  "edge_deletes nanw ws a b w =
     BDelete (AssocFwdKey nanw ws a w b) # BDelete (AssocRevKey nanw ws b w a) #
       deleteLegacyFullWeightKeys nanw ws a b w"

text \<open>The reads and the batch of the update of one pair; the clock is the argument \<open>now\<close>.\<close>

definition update_ops :: "'db AssocLib \<Rightarrow> 'db AssocStore \<Rightarrow> bytes \<Rightarrow> bytes \<Rightarrow> bytes \<Rightarrow> f32 \<Rightarrow> u32 \<Rightarrow> int \<Rightarrow>
    assoc_error + batch_op list" where
  "update_ops lib ps ws a b weight countDelta now =
     (case GetAssocWeight lib ps ws a b of
        Inl e \<Rightarrow> Inl e
      | Inr oldWeight \<Rightarrow>
          (case getAssocValueFull lib ps ws a b of
             Inl e \<Rightarrow> Inl e
           | Inr old \<Rightarrow>
               (let new = updated_meta (al_qn lib) old now weight countDelta
                in Inr ((if f32_less 0 oldWeight then edge_deletes (al_nanw lib) ws a b oldWeight else []) @
                        edge_sets (al_nanw lib) ws a b weight (updated_value old new)))))"

definition UpdateAssocWeight :: "'db AssocLib \<Rightarrow> 'db AssocStore \<Rightarrow> bytes \<Rightarrow> bytes \<Rightarrow> bytes \<Rightarrow> f32 \<Rightarrow> u32 \<Rightarrow>
    int \<Rightarrow> 'db AssocStore \<times> assoc_error option" where
  "UpdateAssocWeight lib ps ws a b weight countDelta now =
     (case checkEndpointsLive lib ps ws a b of
        (ps, Some e) \<Rightarrow> (ps, Some e)
      | (ps, None) \<Rightarrow>
          (case update_ops lib ps ws a b weight countDelta (int32 now) of
             Inl e \<Rightarrow> (ps, Some e)
           | Inr batch \<Rightarrow>
               (case pb_commit (al_pebble lib) (ps_db ps) batch of
                  Inl e \<Rightarrow> (ps, Some (AssocDb e))
                | Inr db' \<Rightarrow> (forget_lists ws a b (replicateBatch batch (ps\<lparr>ps_db := db'\<rparr>)), None))))"

record AssocWeightUpdate =
  wu_WS :: bytes
  wu_Src :: bytes
  wu_Dst :: bytes
  wu_Weight :: f32
  wu_CountDelta :: u32
  wu_LastActivatedAt :: int

text \<open>One turn of the batch update: the reads see the store before the batch.\<close>

definition batch_turn :: "'db AssocLib \<Rightarrow> int \<Rightarrow> nat \<Rightarrow> AssocWeightUpdate \<Rightarrow>
    'db AssocStore \<times> batch_op list \<times> (nat \<times> assoc_error) list \<times> nat \<Rightarrow>
    'db AssocStore \<times> batch_op list \<times> (nat \<times> assoc_error) list \<times> nat" where
  "batch_turn lib wallNow i update st =
     (case st of (ps, batch, skipped, applied) \<Rightarrow>
        (case checkEndpointsLive lib ps (wu_WS update) (wu_Src update) (wu_Dst update) of
           (ps, Some e) \<Rightarrow> (ps, batch, skipped @ [(i, e)], applied)
         | (ps, None) \<Rightarrow>
             (let now = (if wu_LastActivatedAt update \<noteq> 0 then wu_LastActivatedAt update else wallNow)
              in case update_ops lib ps (wu_WS update) (wu_Src update) (wu_Dst update) (wu_Weight update)
                        (wu_CountDelta update) now of
                   Inl e \<Rightarrow> (ps, batch, skipped @ [(i, e)], applied)
                 | Inr ops \<Rightarrow> (ps, batch @ ops, skipped, applied + 1))))"

datatype batch_result =
    BatchOk | BatchSkipped "(nat \<times> assoc_error) list" nat | BatchFailed db_error

definition UpdateAssocWeightBatch :: "'db AssocLib \<Rightarrow> 'db AssocStore \<Rightarrow> AssocWeightUpdate list \<Rightarrow> int \<Rightarrow>
    'db AssocStore \<times> batch_result" where
  "UpdateAssocWeightBatch lib ps updates now =
     (case fold (\<lambda>(i, u). batch_turn lib (int32 now) i u) (enumerate 0 updates) (ps, [], [], 0) of
        (ps, batch, skipped, applied) \<Rightarrow>
          (case pb_commit (al_pebble lib) (ps_db ps) batch of
             Inl e \<Rightarrow> (ps, BatchFailed e)
           | Inr db' \<Rightarrow>
               (fold (\<lambda>u. forget_lists (wu_WS u) (wu_Src u) (wu_Dst u)) updates
                  (replicateBatch batch (ps\<lparr>ps_db := db'\<rparr>)),
                if skipped \<noteq> [] then BatchSkipped skipped applied else BatchOk)))"

end
