(* ===== verification/Assoc_Props.thy ===== *)
theory Assoc_Props
  imports Association
begin

text \<open>Properties of the association writes.\<close>

section \<open>The rows of a pair\<close>

text \<open>All forward and reverse keys of the pair, whatever their weight, and its entry of the index.\<close>

definition fwd_key :: "bytes \<Rightarrow> bytes \<Rightarrow> bytes \<Rightarrow> bytes \<Rightarrow> bytes" where
  "fwd_key ws a c b = pfx_AssocFwd # ws @ a @ c @ b"

definition rev_key :: "bytes \<Rightarrow> bytes \<Rightarrow> bytes \<Rightarrow> bytes \<Rightarrow> bytes" where
  "rev_key ws b c a = pfx_AssocRev # ws @ b @ c @ a"

definition pair_keys :: "bytes \<Rightarrow> bytes \<Rightarrow> bytes \<Rightarrow> bytes set" where
  "pair_keys ws a b =
     {k. \<exists>c. length c = 4 \<and> (k = fwd_key ws a c b \<or> k = rev_key ws b c a)} \<union> {AssocWeightIndexKey ws a b}"

definition edge_absent :: "(bytes \<rightharpoonup> bytes) \<Rightarrow> bytes \<Rightarrow> bytes \<Rightarrow> bytes \<Rightarrow> bool" where
  "edge_absent m ws a b \<longleftrightarrow> (\<forall>k \<in> pair_keys ws a b. m k = None)"

text \<open>The pair has the one edge of weight \<open>w\<close> with the value \<open>v\<close>: its forward and reverse keys at \<open>w\<close>
  hold \<open>v\<close>, the index holds \<open>w\<close>, and there is no key of another weight.\<close>

definition edge_at :: "(bytes \<rightharpoonup> bytes) \<Rightarrow> bytes \<Rightarrow> bytes \<Rightarrow> bytes \<Rightarrow> f32 \<Rightarrow> bytes \<Rightarrow> bool" where
  "edge_at m ws a b w v \<longleftrightarrow>
     f32_less 0 w \<and> m (AssocWeightIndexKey ws a b) = Some (PutUint32 w) \<and>
     (\<forall>c. length c = 4 \<longrightarrow>
        m (fwd_key ws a c b) = (if c = WeightComplement (\<lambda>x. 0) w then Some v else None) \<and>
        m (rev_key ws b c a) = (if c = WeightComplement (\<lambda>x. 0) w then Some v else None))"

definition one_edge :: "(bytes \<rightharpoonup> bytes) \<Rightarrow> bytes \<Rightarrow> bytes \<Rightarrow> bytes \<Rightarrow> bool" where
  "one_edge m ws a b \<longleftrightarrow> edge_absent m ws a b \<or> (\<exists>w v. edge_at m ws a b w v)"

definition ids_ok :: "bytes \<Rightarrow> bytes \<Rightarrow> bytes \<Rightarrow> bool" where
  "ids_ok ws a b \<longleftrightarrow> length ws = 8 \<and> length a = 16 \<and> length b = 16"

lemma length_WeightComplement [simp]: "length (WeightComplement nanw w) = 4"
  by (simp add: WeightComplement_def Let_def)

lemma complement_nanw: "\<not> f32_nan w \<Longrightarrow> WeightComplement nanw w = WeightComplement (\<lambda>x. 0) w"
  by (simp add: WeightComplement_def)

lemma positive_not_nan: "f32_less 0 w \<Longrightarrow> \<not> f32_nan w"
  by (simp add: f32_less_def)

lemma Fwd_fwd: "\<not> f32_nan w \<Longrightarrow> AssocFwdKey nanw ws a w b = fwd_key ws a (WeightComplement (\<lambda>x. 0) w) b"
  by (simp add: AssocFwdKey_def fwd_key_def complement_nanw[of w nanw])

lemma Rev_rev: "\<not> f32_nan w \<Longrightarrow> AssocRevKey nanw ws b w a = rev_key ws b (WeightComplement (\<lambda>x. 0) w) a"
  by (simp add: AssocRevKey_def rev_key_def complement_nanw[of w nanw])

lemma not_nan_consts [simp]: "\<not> f32_nan 0" "\<not> f32_nan 0x3F800000"
  by (simp_all add: f32_nan_def f32_exp_def f32_frac_def)

lemma key_kinds [simp]:
  "fwd_key ws a c b \<noteq> rev_key ws' b' c' a'" "rev_key ws' b' c' a' \<noteq> fwd_key ws a c b"
  "fwd_key ws a c b \<noteq> AssocWeightIndexKey ws' a' b'" "AssocWeightIndexKey ws' a' b' \<noteq> fwd_key ws a c b"
  "rev_key ws b c a \<noteq> AssocWeightIndexKey ws' a' b'" "AssocWeightIndexKey ws' a' b' \<noteq> rev_key ws b c a"
  "fwd_key ws a c b \<noteq> DeclaredContradictionMarkKey ws'" "rev_key ws b c a \<noteq> DeclaredContradictionMarkKey ws'"
  "AssocWeightIndexKey ws a b \<noteq> DeclaredContradictionMarkKey ws'"
  "fwd_key ws a c b \<noteq> EngramKey ws' i" "rev_key ws b c a \<noteq> EngramKey ws' i"
  "AssocWeightIndexKey ws a b \<noteq> EngramKey ws' i" "DeclaredContradictionMarkKey ws \<noteq> EngramKey ws' i"
  by (auto simp: fwd_key_def rev_key_def AssocWeightIndexKey_def DeclaredContradictionMarkKey_def EngramKey_def
      pfx_AssocFwd_def pfx_AssocRev_def pfx_AssocWeightIndex_def pfx_DeclaredContradictionMark_def pfx_Engram_def)

lemmas key_kinds_sym [simp] = key_kinds(7-13)[symmetric]

lemma index_inject:
  assumes "ids_ok ws a b" "ids_ok ws' a' b'"
  shows "AssocWeightIndexKey ws a b = AssocWeightIndexKey ws' a' b' \<longleftrightarrow> ws = ws' \<and> a = a' \<and> b = b'"
  using assms by (auto simp: AssocWeightIndexKey_def ids_ok_def)

lemma key_inject:
  assumes "ids_ok ws a b" "ids_ok ws' a' b'" "length c = 4" "length c' = 4"
  shows "fwd_key ws a c b = fwd_key ws' a' c' b' \<longleftrightarrow> ws = ws' \<and> a = a' \<and> c = c' \<and> b = b'"
    "rev_key ws b c a = rev_key ws' b' c' a' \<longleftrightarrow> ws = ws' \<and> a = a' \<and> c = c' \<and> b = b'"
  using assms by (auto simp: fwd_key_def rev_key_def ids_ok_def)

lemma ids_ok_swap: "ids_ok ws a b \<Longrightarrow> ids_ok ws b a"
  by (simp add: ids_ok_def)

lemma pair_keys_disjoint:
  assumes "ids_ok ws a b" "ids_ok ws' a' b'" "(ws, a, b) \<noteq> (ws', a', b')" "k \<in> pair_keys ws' a' b'"
  shows "k \<notin> pair_keys ws a b"
  using assms by (auto simp: pair_keys_def key_inject index_inject)

section \<open>The batches\<close>

lemma edge_deletes_eq:
  "\<not> f32_nan w \<Longrightarrow> edge_deletes nanw ws a b w =
     [BDelete (fwd_key ws a (WeightComplement (\<lambda>x. 0) w) b), BDelete (rev_key ws b (WeightComplement (\<lambda>x. 0) w) a)] @
     (if f32_eq w 0x3F800000 then
        [BDelete (fwd_key ws a (WeightComplement (\<lambda>x. 0) 0) b), BDelete (rev_key ws b (WeightComplement (\<lambda>x. 0) 0) a)]
      else [])"
  by (simp add: edge_deletes_def deleteLegacyFullWeightKeys_def Fwd_fwd Rev_rev)

lemma edge_sets_eq:
  "\<not> f32_nan w \<Longrightarrow> edge_sets nanw ws a b w v =
     [BSet (fwd_key ws a (WeightComplement (\<lambda>x. 0) w) b) v, BSet (rev_key ws b (WeightComplement (\<lambda>x. 0) w) a) v,
      BSet (AssocWeightIndexKey ws a b) (PutUint32 w)]"
  by (simp add: edge_sets_def Fwd_fwd Rev_rev)

lemma fwd_key_same: "ids_ok ws a b \<Longrightarrow> length c = 4 \<Longrightarrow> length c' = 4 \<Longrightarrow>
    fwd_key ws a c b = fwd_key ws a c' b \<longleftrightarrow> c = c'"
  by (simp add: key_inject)

lemma rev_key_same: "ids_ok ws a b \<Longrightarrow> length c = 4 \<Longrightarrow> length c' = 4 \<Longrightarrow>
    rev_key ws b c a = rev_key ws b c' a \<longleftrightarrow> c = c'"
  by (simp add: key_inject)

lemma sets_new_edge:
  assumes "ids_ok ws a b" "edge_absent m ws a b" "f32_less 0 w"
  shows "edge_at (apply_batch (edge_sets nanw ws a b w v) m) ws a b w v"
  using assms(2,3) unfolding edge_at_def edge_sets_eq[OF positive_not_nan[OF assms(3)]]
  by (auto simp: fwd_key_same[OF assms(1)] rev_key_same[OF assms(1)] edge_absent_def pair_keys_def)

lemma moves_edge:
  assumes "ids_ok ws a b" "edge_at m ws a b w0 v0" "f32_less 0 w"
  shows "edge_at (apply_batch (edge_deletes nanw ws a b w0 @ edge_sets nanw ws a b w v) m) ws a b w v"
proof -
  have n: "\<not> f32_nan w0" "\<not> f32_nan w" using assms(2,3) by (auto simp: edge_at_def positive_not_nan)
  show ?thesis
    using assms(2,3) unfolding edge_at_def edge_sets_eq[OF n(2)] edge_deletes_eq[OF n(1)]
    by (auto simp: fwd_key_same[OF assms(1)] rev_key_same[OF assms(1)])
qed


definition op_keys :: "batch_op list \<Rightarrow> bytes set" where
  "op_keys ops = {k. BDelete k \<in> set ops \<or> (\<exists>v. BSet k v \<in> set ops)}"

definition point_ops :: "batch_op list \<Rightarrow> bool" where
  "point_ops ops \<longleftrightarrow> (\<forall>op \<in> set ops. case op of BDeleteRange lo hi \<Rightarrow> False | _ \<Rightarrow> True)"

lemma apply_batch_outside:
  "point_ops ops \<Longrightarrow> k \<notin> op_keys ops \<Longrightarrow> apply_batch ops m k = m k"
proof (induction ops arbitrary: m)
  case (Cons op ops)
  then show ?case by (cases op) (auto simp: point_ops_def op_keys_def)
qed simp

lemma fwd_in_pair [simp]: "length c = 4 \<Longrightarrow> fwd_key ws a c b \<in> pair_keys ws a b"
  and rev_in_pair [simp]: "length c = 4 \<Longrightarrow> rev_key ws b c a \<in> pair_keys ws a b"
  and index_in_pair [simp]: "AssocWeightIndexKey ws a b \<in> pair_keys ws a b"
  by (auto simp: pair_keys_def)

lemma Fwd_in_pair [simp]: "AssocFwdKey nanw ws a w b \<in> pair_keys ws a b"
  and Rev_in_pair [simp]: "AssocRevKey nanw ws b w a \<in> pair_keys ws a b"
  using fwd_in_pair[of "WeightComplement nanw w"] rev_in_pair[of "WeightComplement nanw w"]
  by (simp_all add: AssocFwdKey_def AssocRevKey_def fwd_key_def rev_key_def)

lemma edge_sets_keys: "op_keys (edge_sets nanw ws a b w v) \<subseteq> pair_keys ws a b"
  by (auto simp: op_keys_def edge_sets_def)

lemma edge_deletes_keys: "op_keys (edge_deletes nanw ws a b w) \<subseteq> pair_keys ws a b"
  by (auto simp: op_keys_def edge_deletes_def deleteLegacyFullWeightKeys_def)

lemma op_keys_append [simp]: "op_keys (xs @ ys) = op_keys xs \<union> op_keys ys"
  by (auto simp: op_keys_def)

lemma point_ops_simps [simp]:
  "point_ops (edge_sets nanw ws a b w v)" "point_ops (edge_deletes nanw ws a b w)" "point_ops []"
  "point_ops (MarkDeclaredContradictionInBatch ws r)"
  "point_ops (xs @ ys) \<longleftrightarrow> point_ops xs \<and> point_ops ys"
  by (auto simp: point_ops_def edge_sets_def edge_deletes_def deleteLegacyFullWeightKeys_def
      MarkDeclaredContradictionInBatch_def)

section \<open>Reading the edge of a pair\<close>

definition live :: "(bytes \<rightharpoonup> bytes) \<Rightarrow> bytes \<Rightarrow> bytes \<Rightarrow> bool" where
  "live m ws i \<longleftrightarrow> m (EngramKey ws i) \<noteq> None"

lemma f32_zero [simp]: "f32_geq 0 0" "\<not> f32_less 0 0"
  by (simp_all add: f32_geq_def f32_less_def)

lemma less_not_geq: "f32_less 0 w \<Longrightarrow> \<not> f32_geq 0 w"
  by (simp add: f32_less_def f32_geq_def)

lemma reliable_get: "pebble_reliable pb \<Longrightarrow> pb_get pb d k \<noteq> GetErr e"
  by (simp add: pebble_reliable_def)

lemma pointGet_view:
  assumes "pebble_spec (al_pebble lib) view" "pebble_reliable (al_pebble lib)"
  shows "pointGet lib ps k = Inr (view (ps_db ps) k)"
  using spec_get[OF assms(1), of "ps_db ps" k] reliable_get[OF assms(2), of "ps_db ps" k]
  by (auto simp: pointGet_def get_ok_def split: get_result.splits)

lemma engramExists_view:
  assumes "pebble_spec (al_pebble lib) view" "pebble_reliable (al_pebble lib)"
  shows "engramExists lib ps ws i = (ps, live (view (ps_db ps)) ws i)"
  using spec_get[OF assms(1), of "ps_db ps" "EngramKey ws i"]
    reliable_get[OF assms(2), of "ps_db ps" "EngramKey ws i"]
  by (auto simp: engramExists_def get_ok_def live_def split: get_result.splits)

lemma checkEndpointsLive_view:
  assumes "pebble_spec (al_pebble lib) view" "pebble_reliable (al_pebble lib)"
  shows "checkEndpointsLive lib ps ws a b =
    (ps, if \<not> live (view (ps_db ps)) ws a then Some (DanglingSource a)
         else if \<not> live (view (ps_db ps)) ws b then Some (DanglingTarget b) else None)"
  by (simp add: checkEndpointsLive_def engramExists_view[OF assms])

lemma GetAssocWeight_view:
  assumes "pebble_spec (al_pebble lib) view" "pebble_reliable (al_pebble lib)"
  shows "edge_at (view (ps_db ps)) ws a b w v \<Longrightarrow> GetAssocWeight lib ps ws a b = Inr w"
    "edge_absent (view (ps_db ps)) ws a b \<Longrightarrow> GetAssocWeight lib ps ws a b = Inr 0"
  by (auto simp: GetAssocWeight_def pointGet_view[OF assms] edge_at_def edge_absent_def)

lemma getAssocValueFull_view:
  assumes "pebble_spec (al_pebble lib) view" "pebble_reliable (al_pebble lib)"
  shows "edge_at (view (ps_db ps)) ws a b w v \<Longrightarrow> getAssocValueFull lib ps ws a b = Inr (decodeAssocValue v)"
    "edge_absent (view (ps_db ps)) ws a b \<Longrightarrow> getAssocValueFull lib ps ws a b = Inr no_assoc_meta"
proof -
  assume e: "edge_at (view (ps_db ps)) ws a b w v"
  then have w: "f32_less 0 w" "\<not> f32_nan w" by (auto simp: edge_at_def positive_not_nan)
  have "view (ps_db ps) (fwd_key ws a (WeightComplement (\<lambda>x. 0) w) b) = Some v"
    using e by (simp add: edge_at_def)
  then show "getAssocValueFull lib ps ws a b = Inr (decodeAssocValue v)"
    by (simp add: getAssocValueFull_def GetAssocWeight_view(1)[OF assms e] less_not_geq[OF w(1)] Fwd_fwd[OF w(2)]
        pointGet_view[OF assms])
next
  assume "edge_absent (view (ps_db ps)) ws a b"
  from GetAssocWeight_view(2)[OF assms this]
  show "getAssocValueFull lib ps ws a b = Inr no_assoc_meta" by (simp add: getAssocValueFull_def)
qed

text \<open>The metadata a pair has before an update.\<close>

definition edge_meta :: "(bytes \<rightharpoonup> bytes) \<Rightarrow> bytes \<Rightarrow> bytes \<Rightarrow> bytes \<Rightarrow> AssocMeta \<Rightarrow> bool" where
  "edge_meta m ws a b old \<longleftrightarrow>
     edge_absent m ws a b \<and> old = no_assoc_meta \<or> (\<exists>w v. edge_at m ws a b w v \<and> old = decodeAssocValue v)"

lemma edge_meta_ok: "edge_meta m ws a b old \<Longrightarrow> meta_ok old"
proof -
  have "decodeAssocValue [] = no_assoc_meta" by (simp add: decodeAssocValue_def)
  then show "edge_meta m ws a b old \<Longrightarrow> meta_ok old"
    using decode_meta_ok[of "[]"] by (auto simp: edge_meta_def decode_meta_ok)
qed

lemma update_ops_edge:
  assumes "pebble_spec (al_pebble lib) view" "pebble_reliable (al_pebble lib)" "ids_ok ws a b"
    "edge_meta (view (ps_db ps)) ws a b old" "f32_less 0 w"
  obtains ops where "update_ops lib ps ws a b w n now = Inr ops" "point_ops ops" "op_keys ops \<subseteq> pair_keys ws a b"
    "\<And>m. \<forall>k \<in> pair_keys ws a b. m k = view (ps_db ps) k \<Longrightarrow> edge_at (apply_batch ops m) ws a b w
       (updated_value old (updated_meta (al_qn lib) old now w n))"
proof -
  let ?m = "view (ps_db ps)" and ?v = "updated_value old (updated_meta (al_qn lib) old now w n)"
  consider (new) "edge_absent ?m ws a b" "old = no_assoc_meta"
    | (old) w0 v where "edge_at ?m ws a b w0 v" "old = decodeAssocValue v"
    using assms(4) by (auto simp: edge_meta_def)
  then show thesis
  proof cases
    case new
    have "edge_absent m ws a b" if "\<forall>k \<in> pair_keys ws a b. m k = ?m k" for m
      using that new(1) by (simp add: edge_absent_def)
    then show thesis
      using new assms(3,5)
      by (intro that[of "edge_sets (al_nanw lib) ws a b w ?v"])
        (simp_all add: update_ops_def GetAssocWeight_view(2)[OF assms(1,2)] getAssocValueFull_view(2)[OF assms(1,2)]
          edge_sets_keys sets_new_edge)
  next
    case old
    have "edge_at m ws a b w0 v" if "\<forall>k \<in> pair_keys ws a b. m k = ?m k" for m
      using that old(1) by (simp add: edge_at_def)
    then have "edge_at (apply_batch (edge_deletes (al_nanw lib) ws a b w0 @ edge_sets (al_nanw lib) ws a b w ?v) m) ws a b w ?v"
      if "\<forall>k \<in> pair_keys ws a b. m k = ?m k" for m
      using that by (blast intro: moves_edge[OF assms(3) _ assms(5)])
    moreover have "f32_less 0 w0" using old(1) by (simp add: edge_at_def)
    ultimately show thesis
      using old assms(3,5) edge_sets_keys[of "al_nanw lib" ws a b w ?v] edge_deletes_keys[of "al_nanw lib" ws a b w0]
      by (intro that[of "edge_deletes (al_nanw lib) ws a b w0 @ edge_sets (al_nanw lib) ws a b w ?v"])
        (simp_all add: update_ops_def GetAssocWeight_view(1)[OF assms(1,2) old(1)]
          getAssocValueFull_view(1)[OF assms(1,2) old(1)])
  qed
qed

section \<open>One pair\<close>

text \<open>C27. UpdateAssocWeight of a pair with live endpoints that has no edge or exactly one leaves it with
  exactly one edge, of the new weight.  Its metadata are those of the old edge (of a co-activation edge
  with confidence 1 where there was none) with the activation time not moved back, the peak not lowered,
  the count increased up to its maximum and the restore stamp kept or cleared by the rule.  No other key
  changes, and the source's forward list and the target's reverse list are dropped from the caches.\<close>

theorem update_assoc_exact:
  assumes "pebble_spec (al_pebble lib) view" "pebble_reliable (al_pebble lib)" "ids_ok ws a b"
    "live (view (ps_db ps)) ws a" "live (view (ps_db ps)) ws b"
    "edge_meta (view (ps_db ps)) ws a b old" "f32_less 0 w"
    "UpdateAssocWeight lib ps ws a b w n now = (ps', r)"
  shows "r = None \<and>
    (\<exists>v. edge_at (view (ps_db ps')) ws a b w v \<and>
         decodeAssocValue v = updated_meta (al_qn lib) old (int32 now) w n) \<and>
    (\<forall>k. k \<notin> pair_keys ws a b \<longrightarrow> view (ps_db ps') k = view (ps_db ps) k) \<and>
    ps_assocCache ps' (assocCacheKey ws a) = None \<and> ps_revAssocCache ps' (assocCacheKey ws b) = None"
proof -
  obtain ops where ops: "update_ops lib ps ws a b w n (int32 now) = Inr ops" "point_ops ops"
      "op_keys ops \<subseteq> pair_keys ws a b"
      "\<And>m. \<forall>k \<in> pair_keys ws a b. m k = view (ps_db ps) k \<Longrightarrow> edge_at (apply_batch ops m) ws a b w
         (updated_value old (updated_meta (al_qn lib) old (int32 now) w n))"
    using update_ops_edge[OF assms(1,2,3,6,7)] by blast
  obtain db' where db': "pb_commit (al_pebble lib) (ps_db ps) ops = Inr db'"
    using reliable_commit[OF assms(2)] by blast
  have view': "view db' = apply_batch ops (view (ps_db ps))" by (rule spec_commit[OF assms(1) db'])
  have ps': "ps' = forget_lists ws a b (replicateBatch ops (ps\<lparr>ps_db := db'\<rparr>))" "r = None"
    using assms(8) by (simp_all add: UpdateAssocWeight_def checkEndpointsLive_view[OF assms(1,2)] assms(4,5) ops(1) db')
  then have dbs: "ps_db ps' = db'" "ps_assocCache ps' (assocCacheKey ws a) = None"
      "ps_revAssocCache ps' (assocCacheKey ws b) = None"
    by (simp_all add: forget_lists_def replicateBatch_def split: option.split)
  have ok: "meta_ok (updated_meta (al_qn lib) old (int32 now) w n)"
    by (intro updated_meta_ok int32_in edge_meta_ok[OF assms(6)])
  have "view (ps_db ps') k = view (ps_db ps) k" if "k \<notin> pair_keys ws a b" for k
    using apply_batch_outside[OF ops(2), of k] ops(3) that by (auto simp: dbs view')
  then show ?thesis
    using ops(4)[of "view (ps_db ps)"] decode_updated_value[OF ok, of old] by (auto simp: ps'(2) dbs view')
qed

definition edge_ws :: bytes where "edge_ws = replicate 8 1"
definition edge_a :: bytes where "edge_a = replicate 16 2"
definition edge_b :: bytes where "edge_b = replicate 16 3"

definition edge_lib :: "(bytes \<times> bytes) list AssocLib" where
  "edge_lib = \<lparr>al_pebble = mem_pebble, al_nanw = (\<lambda>x. 0), al_qn = (\<lambda>x y. x),
     al_lru_add = (\<lambda>c k e. c(k \<mapsto> e))\<rparr>"

definition edge_store :: "(bytes \<times> bytes) list \<Rightarrow> (bytes \<times> bytes) list AssocStore" where
  "edge_store d = \<lparr>ps_db = (EngramKey edge_ws edge_a, []) # (EngramKey edge_ws edge_b, []) # d,
     ps_assocCache = Map.empty, ps_revAssocCache = Map.empty, ps_guardReadFaults = 0,
     ps_contradictsGen = (\<lambda>x. 0), ps_repLog = None\<rparr>"

lemma edge_lib_simps [simp]:
  "pebble_spec (al_pebble edge_lib) map_of" "pebble_reliable (al_pebble edge_lib)"
  by (simp_all add: edge_lib_def mem_pebble_spec mem_pebble_reliable)

lemma edge_ids [simp]: "ids_ok edge_ws edge_a edge_b" "ids_ok edge_ws edge_b edge_a"
  by (simp_all add: ids_ok_def edge_ws_def edge_a_def edge_b_def)

lemma edge_live [simp]:
  "live (map_of (ps_db (edge_store d))) edge_ws edge_a" "live (map_of (ps_db (edge_store d))) edge_ws edge_b"
  by (simp_all add: live_def edge_store_def)

lemma edge_none [simp]:
  "edge_absent (map_of (ps_db (edge_store []))) edge_ws edge_a edge_b"
  by (auto simp: edge_absent_def edge_store_def pair_keys_def)

lemma edge_half [simp]: "f32_less 0 0x3F000000"
  by (simp add: f32_less_def f32_nan_def f32_exp_def f32_frac_def f32_val_def f32_neg_def f32_scaled_def)

lemma update_assoc_exact_witness:
  "\<exists>v. edge_at (map_of (ps_db (fst (UpdateAssocWeight edge_lib (edge_store []) edge_ws edge_a edge_b
      0x3F000000 1 1700000000)))) edge_ws edge_a edge_b 0x3F000000 v"
  using update_assoc_exact[of edge_lib map_of edge_ws edge_a edge_b "edge_store []" no_assoc_meta
      "0x3F000000" 1 1700000000
      "fst (UpdateAssocWeight edge_lib (edge_store []) edge_ws edge_a edge_b 0x3F000000 1 1700000000)"
      "snd (UpdateAssocWeight edge_lib (edge_store []) edge_ws edge_a edge_b 0x3F000000 1 1700000000)"]
  by (auto simp: edge_meta_def)

section \<open>Many pairs\<close>

lemma apply_batch_split: "apply_batch (xs @ ys) m = apply_batch ys (apply_batch xs m)"
  by (simp add: apply_batch_def)

definition wu_pair :: "AssocWeightUpdate \<Rightarrow> bytes \<times> bytes \<times> bytes" where
  "wu_pair u = (wu_WS u, wu_Src u, wu_Dst u)"

definition wu_keys :: "AssocWeightUpdate \<Rightarrow> bytes set" where
  "wu_keys u = pair_keys (wu_WS u) (wu_Src u) (wu_Dst u)"

definition wu_dead :: "(bytes \<rightharpoonup> bytes) \<Rightarrow> AssocWeightUpdate \<Rightarrow> assoc_error option" where
  "wu_dead m u =
     (if \<not> live m (wu_WS u) (wu_Src u) then Some (DanglingSource (wu_Src u))
      else if \<not> live m (wu_WS u) (wu_Dst u) then Some (DanglingTarget (wu_Dst u)) else None)"

definition wu_now :: "int \<Rightarrow> AssocWeightUpdate \<Rightarrow> int" where
  "wu_now now u = (if wu_LastActivatedAt u \<noteq> 0 then wu_LastActivatedAt u else int32 now)"

text \<open>An update the properties are about: its pair has at most one edge and its weight is positive.\<close>

definition wu_ok :: "(bytes \<rightharpoonup> bytes) \<Rightarrow> (AssocWeightUpdate \<Rightarrow> AssocMeta) \<Rightarrow> AssocWeightUpdate \<Rightarrow> bool" where
  "wu_ok m old u \<longleftrightarrow> ids_ok (wu_WS u) (wu_Src u) (wu_Dst u) \<and> f32_less 0 (wu_Weight u) \<and>
     in_int32 (wu_LastActivatedAt u) \<and> edge_meta m (wu_WS u) (wu_Src u) (wu_Dst u) (old u)"

definition wu_ops :: "'db AssocLib \<Rightarrow> 'db AssocStore \<Rightarrow> int \<Rightarrow> AssocWeightUpdate \<Rightarrow> batch_op list" where
  "wu_ops lib ps now u =
     (case update_ops lib ps (wu_WS u) (wu_Src u) (wu_Dst u) (wu_Weight u) (wu_CountDelta u) (wu_now now u) of
        Inr ops \<Rightarrow> ops | Inl e \<Rightarrow> [])"

lemma batch_turn_eq:
  assumes "pebble_spec (al_pebble lib) view" "pebble_reliable (al_pebble lib)" "wu_ok (view (ps_db ps)) old u"
  shows "batch_turn lib (int32 now) i u (ps, batch, skipped, applied) =
    (case wu_dead (view (ps_db ps)) u of
       Some e \<Rightarrow> (ps, batch, skipped @ [(i, e)], applied)
     | None \<Rightarrow> (ps, batch @ wu_ops lib ps now u, skipped, applied + 1))"
proof -
  obtain ops where "update_ops lib ps (wu_WS u) (wu_Src u) (wu_Dst u) (wu_Weight u) (wu_CountDelta u) (wu_now now u) = Inr ops"
    using update_ops_edge[OF assms(1,2)] assms(3) unfolding wu_ok_def by metis
  then show ?thesis
    by (simp add: batch_turn_def checkEndpointsLive_view[OF assms(1,2)] wu_dead_def wu_ops_def wu_now_def)
qed

lemma batch_fold_eq:
  assumes "pebble_spec (al_pebble lib) view" "pebble_reliable (al_pebble lib)"
    "\<forall>u \<in> set us. wu_ok (view (ps_db ps)) old u"
  shows "fold (\<lambda>(i, u). batch_turn lib (int32 now) i u) (enumerate k us) (ps, batch, skipped, applied) =
    (ps, batch @ concat (map (wu_ops lib ps now) (filter (\<lambda>u. wu_dead (view (ps_db ps)) u = None) us)),
     skipped @ map (\<lambda>(i, u). (i, the (wu_dead (view (ps_db ps)) u)))
       (filter (\<lambda>(i, u). wu_dead (view (ps_db ps)) u \<noteq> None) (enumerate k us)),
     applied + length (filter (\<lambda>u. wu_dead (view (ps_db ps)) u = None) us))"
  using assms(3)
proof (induction us arbitrary: k batch skipped applied)
  case (Cons u us)
  then show ?case
    by (cases "wu_dead (view (ps_db ps)) u") (simp_all add: batch_turn_eq[OF assms(1,2), of _ old])
qed simp

lemma wu_ops_keys:
  assumes "pebble_spec (al_pebble lib) view" "pebble_reliable (al_pebble lib)" "wu_ok (view (ps_db ps)) old u"
  shows "point_ops (wu_ops lib ps now u) \<and> op_keys (wu_ops lib ps now u) \<subseteq> wu_keys u \<and>
    (\<forall>m. (\<forall>k \<in> wu_keys u. m k = view (ps_db ps) k) \<longrightarrow>
       (\<exists>v. edge_at (apply_batch (wu_ops lib ps now u) m) (wu_WS u) (wu_Src u) (wu_Dst u) (wu_Weight u) v \<and>
            decodeAssocValue v = updated_meta (al_qn lib) (old u) (wu_now now u) (wu_Weight u) (wu_CountDelta u)))"
proof -
  have a: "ids_ok (wu_WS u) (wu_Src u) (wu_Dst u)" "edge_meta (view (ps_db ps)) (wu_WS u) (wu_Src u) (wu_Dst u) (old u)"
      "f32_less 0 (wu_Weight u)" "in_int32 (wu_now now u)"
    using assms(3) by (auto simp: wu_ok_def wu_now_def int32_in)
  have ok: "meta_ok (updated_meta (al_qn lib) (old u) (wu_now now u) (wu_Weight u) (wu_CountDelta u))"
    by (rule updated_meta_ok[OF edge_meta_ok[OF a(2)] a(4)])
  show ?thesis
    by (rule update_ops_edge[OF assms(1,2) a(1-3), of "wu_CountDelta u" "wu_now now u"])
      (use decode_updated_value[OF ok, of "old u"] in \<open>force simp: wu_ops_def wu_keys_def\<close>)
qed

lemma point_ops_concat: "(\<forall>u \<in> set us. point_ops (f u)) \<Longrightarrow> point_ops (concat (map f us))"
  by (induction us) auto

lemma op_keys_concat: "op_keys (concat (map f us)) = (\<Union>u \<in> set us. op_keys (f u))"
  by (induction us) (auto simp: op_keys_def)

lemma apply_op_local: "m1 k = m2 k \<Longrightarrow> apply_op op m1 k = apply_op op m2 k"
  by (cases op) simp_all

lemma apply_batch_local: "m1 k = m2 k \<Longrightarrow> apply_batch ops m1 k = apply_batch ops m2 k"
proof (induction ops arbitrary: m1 m2)
  case (Cons op ops)
  then have "apply_op op m1 k = apply_op op m2 k" by (intro apply_op_local)
  then have "apply_batch ops (apply_op op m1) k = apply_batch ops (apply_op op m2) k" by (rule Cons.IH)
  then show ?case by simp
qed simp

text \<open>In a batch whose operations have disjoint keys, the keys of each see its own operations alone.\<close>

lemma concat_batch_local:
  assumes "distinct us" "\<forall>u \<in> set us. point_ops (f u) \<and> op_keys (f u) \<subseteq> K u"
    "\<forall>u \<in> set us. \<forall>u' \<in> set us. u \<noteq> u' \<longrightarrow> K u \<inter> K u' = {}" "u \<in> set us" "k \<in> K u"
  shows "apply_batch (concat (map f us)) m k = apply_batch (f u) m k"
proof -
  obtain xs ys where us: "us = xs @ u # ys" using assms(4) by (auto simp: in_set_conv_decomp)
  have other: "k \<notin> op_keys (f u')" if "u' \<in> set xs \<union> set ys" for u'
  proof -
    have "u' \<in> set us" "u \<in> set us" "u \<noteq> u'" using assms(1) that unfolding us by auto
    then have "K u \<inter> K u' = {}" "op_keys (f u') \<subseteq> K u'" using assms(2,3) by simp_all
    then show ?thesis using assms(5) by blast
  qed
  have points: "\<forall>u \<in> set xs. point_ops (f u)" "\<forall>u \<in> set ys. point_ops (f u)"
    using assms(2) unfolding us by simp_all
  have "k \<notin> op_keys (concat (map f xs))" "k \<notin> op_keys (concat (map f ys))"
    using other by (simp_all add: op_keys_concat)
  then have before: "apply_batch (concat (map f xs)) m k = m k"
    and after: "\<And>m'. apply_batch (concat (map f ys)) m' k = m' k"
    by (simp_all add: apply_batch_outside point_ops_concat points)
  have "apply_batch (concat (map f us)) m k = apply_batch (f u) (apply_batch (concat (map f xs)) m) k"
    unfolding us by (simp add: apply_batch_split after)
  also have "\<dots> = apply_batch (f u) m k"
  proof -
    show ?thesis using before by (rule apply_batch_local)
  qed
  finally show ?thesis .
qed

lemma edge_at_local:
  "(\<forall>k \<in> pair_keys ws a b. m k = m' k) \<Longrightarrow> edge_at m ws a b w v = edge_at m' ws a b w v"
  by (simp add: edge_at_def)

lemma wu_keys_disjoint:
  assumes "wu_ok m old u" "wu_ok m old u'" "wu_pair u \<noteq> wu_pair u'"
  shows "wu_keys u \<inter> wu_keys u' = {}"
  using assms pair_keys_disjoint[of "wu_WS u" "wu_Src u" "wu_Dst u" "wu_WS u'" "wu_Src u'" "wu_Dst u'"]
  by (auto simp: wu_ok_def wu_keys_def wu_pair_def)

lemma fold_forget_db: "ps_db (fold (\<lambda>u. forget_lists (wu_WS u) (wu_Src u) (wu_Dst u)) us ps) = ps_db ps"
  by (induction us arbitrary: ps) (simp_all add: forget_lists_def)

lemma replicateBatch_db [simp]: "ps_db (replicateBatch batch ps) = ps_db ps"
  by (simp add: replicateBatch_def split: option.split)

text \<open>A batch of updates of different pairs, each of which has no edge or exactly one: every update
  whose endpoints are live leaves its pair with exactly one edge of the new weight and the updated
  metadata, every other one is reported with its index and changes nothing, no key outside the pairs
  changes, and the result says whether any was skipped.\<close>

theorem batch_update_exact:
  assumes "pebble_spec (al_pebble lib) view" "pebble_reliable (al_pebble lib)"
    "\<forall>u \<in> set us. wu_ok (view (ps_db ps)) old u" "distinct (map wu_pair us)"
    "UpdateAssocWeightBatch lib ps us now = (ps', r)"
  shows "(\<forall>u \<in> set us. if wu_dead (view (ps_db ps)) u = None then
        (\<exists>v. edge_at (view (ps_db ps')) (wu_WS u) (wu_Src u) (wu_Dst u) (wu_Weight u) v \<and>
           decodeAssocValue v =
             updated_meta (al_qn lib) (old u) (wu_now now u) (wu_Weight u) (wu_CountDelta u))
      else (\<forall>k \<in> wu_keys u. view (ps_db ps') k = view (ps_db ps) k)) \<and>
    (\<forall>k. (\<forall>u \<in> set us. k \<notin> wu_keys u) \<longrightarrow> view (ps_db ps') k = view (ps_db ps) k) \<and>
    r = (if \<forall>u \<in> set us. wu_dead (view (ps_db ps)) u = None then BatchOk
         else BatchSkipped
           (map (\<lambda>(i, u). (i, the (wu_dead (view (ps_db ps)) u)))
              (filter (\<lambda>(i, u). wu_dead (view (ps_db ps)) u \<noteq> None) (enumerate 0 us)))
           (length (filter (\<lambda>u. wu_dead (view (ps_db ps)) u = None) us)))"
proof -
  let ?m = "view (ps_db ps)" and ?f = "wu_ops lib ps now"
  let ?us = "filter (\<lambda>u. wu_dead ?m u = None) us"
  obtain db' where db': "pb_commit (al_pebble lib) (ps_db ps) (concat (map ?f ?us)) = Inr db'"
    using reliable_commit[OF assms(2)] by blast
  have view': "view db' = apply_batch (concat (map ?f ?us)) ?m" by (rule spec_commit[OF assms(1) db'])
  have res: "ps_db ps' = db' \<and>
      r = (if filter (\<lambda>(i, u). wu_dead ?m u \<noteq> None) (enumerate 0 us) \<noteq> [] then BatchSkipped
           (map (\<lambda>(i, u). (i, the (wu_dead ?m u))) (filter (\<lambda>(i, u). wu_dead ?m u \<noteq> None) (enumerate 0 us)))
           (length ?us) else BatchOk)"
    using assms(5) by (auto simp: UpdateAssocWeightBatch_def batch_fold_eq[OF assms(1-3)] db' fold_forget_db)
  have f: "\<forall>u \<in> set ?us. point_ops (?f u) \<and> op_keys (?f u) \<subseteq> wu_keys u"
    using wu_ops_keys[OF assms(1,2) bspec[OF assms(3)]] by simp
  have disj: "wu_keys u \<inter> wu_keys u' = {}" if "u \<in> set us" "u' \<in> set us" "u \<noteq> u'" for u u'
    using that assms(3,4) wu_keys_disjoint[of ?m old u u'] by (auto simp: distinct_map dest: inj_onD)
  have outside: "view (ps_db ps') k = ?m k" if "\<forall>u \<in> set ?us. k \<notin> wu_keys u" for k
  proof -
    have "k \<notin> op_keys (concat (map ?f ?us))" "point_ops (concat (map ?f ?us))"
      using that f unfolding op_keys_concat by (blast, blast intro: point_ops_concat)
    then show ?thesis using res by (simp add: view' apply_batch_outside)
  qed
  have live: "\<exists>v. edge_at (view (ps_db ps')) (wu_WS u) (wu_Src u) (wu_Dst u) (wu_Weight u) v \<and>
      decodeAssocValue v = updated_meta (al_qn lib) (old u) (wu_now now u) (wu_Weight u) (wu_CountDelta u)"
    if u: "u \<in> set us" "wu_dead ?m u = None" for u
  proof -
    have "\<forall>k \<in> wu_keys u. view (ps_db ps') k = apply_batch (?f u) ?m k"
      using concat_batch_local[of ?us ?f wu_keys u] u f disj assms(4) res by (simp add: view' distinct_map)
    then show ?thesis
      using wu_ops_keys[OF assms(1,2), of ps old u now] assms(3) u
        edge_at_local[of "wu_WS u" "wu_Src u" "wu_Dst u" "view (ps_db ps')" "apply_batch (?f u) ?m"]
      by (auto simp: wu_keys_def)
  qed
  have dead: "\<forall>k \<in> wu_keys u. view (ps_db ps') k = ?m k" if u: "u \<in> set us" "wu_dead ?m u \<noteq> None" for u
    using outside disj u by fastforce
  have "set us = snd ` set (enumerate 0 us)" by (metis map_snd_enumerate set_map)
  then have "filter (\<lambda>(i, u). wu_dead ?m u \<noteq> None) (enumerate 0 us) = [] \<longleftrightarrow> (\<forall>u \<in> set us. wu_dead ?m u = None)"
    by (simp add: filter_empty_conv split_beta)
  then show ?thesis using live dead outside res by (auto split: if_splits)
qed

definition edge_update :: "bytes \<Rightarrow> bytes \<Rightarrow> AssocWeightUpdate" where
  "edge_update a b = \<lparr>wu_WS = edge_ws, wu_Src = a, wu_Dst = b, wu_Weight = 0x3F000000, wu_CountDelta = 1,
     wu_LastActivatedAt = 0\<rparr>"

lemma edge_none_back [simp]:
  "edge_absent (map_of (ps_db (edge_store []))) edge_ws edge_b edge_a"
  by (auto simp: edge_absent_def edge_store_def pair_keys_def)

lemma edge_a_b [simp]: "edge_a \<noteq> edge_b"
  by (simp add: edge_a_def edge_b_def)

lemma batch_update_exact_witness:
  "snd (UpdateAssocWeightBatch edge_lib (edge_store []) [edge_update edge_a edge_b, edge_update edge_b edge_a] 7) = BatchOk"
  using batch_update_exact[of edge_lib map_of "[edge_update edge_a edge_b, edge_update edge_b edge_a]" "edge_store []"
      "\<lambda>u. no_assoc_meta" 7
      "fst (UpdateAssocWeightBatch edge_lib (edge_store []) [edge_update edge_a edge_b, edge_update edge_b edge_a] 7)"
      "snd (UpdateAssocWeightBatch edge_lib (edge_store []) [edge_update edge_a edge_b, edge_update edge_b edge_a] 7)"]
  by (simp add: wu_ok_def edge_update_def edge_meta_def wu_pair_def wu_dead_def)

section \<open>A second edge\<close>

text \<open>C28. WriteAssociation on a pair that has an edge of another weight adds a second edge instead of
  replacing the first: it succeeds, the old forward key keeps its value beside the new one, and the
  index names the new weight only.  So the pair no longer has one edge.\<close>

theorem write_adds_second_edge:
  assumes "pebble_spec (al_pebble lib) view" "pebble_reliable (al_pebble lib)" "ids_ok ws a b"
    "live (view (ps_db ps)) ws a" "live (view (ps_db ps)) ws b" "edge_at (view (ps_db ps)) ws a b w0 v0"
    "f32_less 0 (as_Weight assoc)"
    "WeightComplement (al_nanw lib) (as_Weight assoc) \<noteq> WeightComplement (al_nanw lib) w0"
    "WriteAssociation lib ps ws a b assoc = (ps', r)"
  shows "r = None \<and> view (ps_db ps') (AssocFwdKey (al_nanw lib) ws a w0 b) = Some v0 \<and>
    view (ps_db ps') (AssocFwdKey (al_nanw lib) ws a (as_Weight assoc) b) \<noteq> None \<and>
    GetAssocWeight lib ps' ws a b = Inr (as_Weight assoc) \<and> \<not> one_edge (view (ps_db ps')) ws a b"
proof -
  let ?w = "as_Weight assoc" and ?c = "WeightComplement (\<lambda>x. 0) (as_Weight assoc)"
    and ?d = "WeightComplement (\<lambda>x. 0) w0"
  have w: "\<not> f32_nan w0" "\<not> f32_nan ?w" using assms(6,7) by (auto simp: edge_at_def positive_not_nan)
  have c: "?c \<noteq> ?d" using assms(8) complement_nanw[OF w(1), of "al_nanw lib"] complement_nanw[OF w(2), of "al_nanw lib"] by simp
  have none: "view (ps_db ps) (fwd_key ws a ?c b) = None" "view (ps_db ps) (fwd_key ws a ?d b) = Some v0"
    using assms(6) c by (simp_all add: edge_at_def)
  define val where "val = encodeAssocValue (as_RelType assoc) (as_Confidence assoc) (as_CreatedAt assoc)
      (as_LastActivated assoc) (as_Weight assoc) 1"
  define batch where "batch = edge_sets (al_nanw lib) ws a b ?w val @ MarkDeclaredContradictionInBatch ws (as_RelType assoc)"
  obtain db' where db': "pb_commit (al_pebble lib) (ps_db ps) batch = Inr db'"
    using reliable_commit[OF assms(2)] by blast
  have "checkRelTypeCollision lib ps ws a ?w b (as_RelType assoc) = None"
    by (simp add: checkRelTypeCollision_def pointGet_view[OF assms(1,2)] Fwd_fwd[OF w(2)] none)
  then have r: "ps_db ps' = db'" "r = None"
    using assms(9) db' by (auto simp: WriteAssociation_def checkEndpointsLive_view[OF assms(1,2)] assms(4,5)
        writeAssociationUnguarded_def Let_def val_def batch_def forget_lists_def noteContradictsWrite_def)
  have "view db' = apply_batch batch (view (ps_db ps))" by (rule spec_commit[OF assms(1) db'])
  then have m: "view db' (fwd_key ws a ?d b) = Some v0" "view db' (fwd_key ws a ?c b) = Some val"
      "view db' (AssocWeightIndexKey ws a b) = Some (PutUint32 ?w)"
    using none c by (auto simp: batch_def edge_sets_eq[OF w(2)] MarkDeclaredContradictionInBatch_def
        fwd_key_same[OF assms(3)])
  have "\<not> edge_at (view db') ws a b w' v'" for w' v'
    using m c unfolding edge_at_def by (metis length_WeightComplement option.distinct(1))
  moreover have "\<not> edge_absent (view db') ws a b" using m(3) by (auto simp: edge_absent_def)
  ultimately show ?thesis
    using m r w by (simp add: one_edge_def Fwd_fwd GetAssocWeight_def pointGet_view[OF assms(1,2)])
qed

text \<open>A store with an edge of weight one half.\<close>

definition half_edge :: "(bytes \<times> bytes) list" where
  "half_edge = [(fwd_key edge_ws edge_a (WeightComplement (\<lambda>x. 0) 0x3F000000) edge_b, []),
     (rev_key edge_ws edge_b (WeightComplement (\<lambda>x. 0) 0x3F000000) edge_a, []),
     (AssocWeightIndexKey edge_ws edge_a edge_b, PutUint32 0x3F000000)]"

definition full_edge :: assoc where
  "full_edge = \<lparr>as_TargetID = edge_b, as_RelType = RelSupports, as_Weight = 0x3F800000, as_Confidence = 0x3F800000,
     as_CreatedAt = 0, as_LastActivated = 0, as_PeakWeight = 0, as_CoActivationCount = 0, as_RestoredAt = 0\<rparr>"

lemma half_edge_at: "edge_at (map_of (ps_db (edge_store half_edge))) edge_ws edge_a edge_b 0x3F000000 []"
  by (auto simp: edge_at_def edge_store_def half_edge_def fwd_key_same rev_key_same)

lemma full_less [simp]: "f32_less 0 0x3F800000"
  by (simp add: f32_less_def f32_nan_def f32_exp_def f32_frac_def f32_val_def f32_neg_def f32_scaled_def)

lemma PutUint32_inject: "PutUint32 x = PutUint32 y \<longleftrightarrow> x = y"
  by (metis Uint32_Put0)

lemma complement_half_full: "WeightComplement nanw 0x3F800000 \<noteq> WeightComplement nanw 0x3F000000"
  by (simp add: WeightComplement_def Let_def f32_ge1_def f32_le0_def f32_nan_def f32_exp_def f32_frac_def f32_neg_def
      f32_scaled_def PutUint32_inject)

lemma write_adds_second_edge_witness:
  "\<not> one_edge (map_of (ps_db (fst (WriteAssociation edge_lib (edge_store half_edge) edge_ws edge_a edge_b full_edge))))
     edge_ws edge_a edge_b"
  using write_adds_second_edge[OF edge_lib_simps edge_ids(1) edge_live half_edge_at, of full_edge
      "fst (WriteAssociation edge_lib (edge_store half_edge) edge_ws edge_a edge_b full_edge)"
      "snd (WriteAssociation edge_lib (edge_store half_edge) edge_ws edge_a edge_b full_edge)"]
  by (simp add: full_edge_def complement_half_full)

end
