(* ===== verification/Ranking.thy ===== *)
theory Ranking
  imports Association
begin

text \<open>
  Reading associations (\<open>internal/storage/association.go\<close>): the forward lists with their cache, the
  reverse lists used for ranking with theirs, and the merge of the two that ranks the neighbours of an
  engram.  An iterator is the list of the entries of its range in key order.
\<close>

definition assoc_of_row :: "bytes \<Rightarrow> bytes \<Rightarrow> assoc" where
  "assoc_of_row k v =
     (let m = decodeAssocValue v
      in \<lparr>as_TargetID = sub k 29 16, as_RelType = am_relType m,
          as_Weight = WeightFromComplement (sub k 25 4), as_Confidence = am_confidence m,
          as_CreatedAt = am_createdAt m, as_LastActivated = am_lastActivated m,
          as_PeakWeight = am_peakWeight m, as_CoActivationCount = am_coActivationCount m,
          as_RestoredAt = am_restoredAt m\<rparr>)"

section \<open>Scans\<close>

text \<open>The loop over the entries from \<open>SeekGE(prefix)\<close> on; the flag says that it stopped at the cap.\<close>

fun scan_node :: "bytes \<Rightarrow> (RelType \<Rightarrow> bool) \<Rightarrow> int \<Rightarrow> (bytes \<times> bytes) list \<Rightarrow> assoc list \<Rightarrow> assoc list \<times> bool" where
  "scan_node p accept cap [] assocs = (assocs, False)"
| "scan_node p accept cap ((k, v) # kvs) assocs =
     (if length k < 25 \<or> take 25 k \<noteq> p then (assocs, False)
      else if cap > 0 \<and> int (length assocs) \<ge> cap then (assocs, True)
      else if length k < 45 then scan_node p accept cap kvs assocs
      else if \<not> accept (am_relType (decodeAssocValue v)) then scan_node p accept cap kvs assocs
      else scan_node p accept cap kvs (assocs @ [assoc_of_row k v]))"

definition SeekGE :: "bytes \<Rightarrow> (bytes \<times> bytes) list \<Rightarrow> (bytes \<times> bytes) list" where
  "SeekGE p kvs = dropWhile (\<lambda>(k, v). k < p) kvs"

definition cap_list :: "int \<Rightarrow> 'a list \<Rightarrow> 'a list" where
  "cap_list n xs = (if n > 0 \<and> int (length xs) > n then take (nat n) xs else xs)"

text \<open>What a cache entry answers: nothing when it is truncated and the caller may want more.\<close>

definition cache_answer :: "int \<Rightarrow> AssocCacheEntry \<Rightarrow> assoc list option" where
  "cache_answer maxPerNode entry =
     (if \<not> ce_truncated entry \<or> maxPerNode > 0 \<and> maxPerNode \<le> int (length (ce_assocs entry))
      then Some (cap_list maxPerNode (ce_assocs entry)) else None)"

section \<open>GetAssociations\<close>

text \<open>A context may carry a snapshot, from which the store then reads instead of the live database.\<close>

definition pebbleReader :: "'db AssocStore \<Rightarrow> 'db option \<Rightarrow> 'db" where
  "pebbleReader ps snap = (case snap of Some d \<Rightarrow> d | None \<Rightarrow> ps_db ps)"

fun serve_cached :: "(bytes \<rightharpoonup> AssocCacheEntry) \<Rightarrow> bytes \<Rightarrow> int \<Rightarrow> bytes list \<Rightarrow>
    (bytes \<rightharpoonup> assoc list) \<Rightarrow> bytes list \<Rightarrow> (bytes \<rightharpoonup> assoc list) \<times> bytes list" where
  "serve_cached cache ws maxPerNode [] result uncached = (result, uncached)"
| "serve_cached cache ws maxPerNode (i # ids) result uncached =
     (case Option.bind (cache (assocCacheKey ws i)) (cache_answer maxPerNode) of
        Some l \<Rightarrow> serve_cached cache ws maxPerNode ids (result(i \<mapsto> l)) uncached
      | None \<Rightarrow> serve_cached cache ws maxPerNode ids result (uncached @ [i]))"

fun scan_forward :: "'db AssocLib \<Rightarrow> bytes \<Rightarrow> int \<Rightarrow> (bytes \<times> bytes) list \<Rightarrow> bytes list \<Rightarrow>
    'db AssocStore \<Rightarrow> (bytes \<rightharpoonup> assoc list) \<Rightarrow> 'db AssocStore \<times> (bytes \<rightharpoonup> assoc list)" where
  "scan_forward lib ws maxPerNode kvs [] ps result = (ps, result)"
| "scan_forward lib ws maxPerNode kvs (i # ids) ps result =
     (let p = AssocFwdPrefixForID ws i;
          (assocs, truncated) = scan_node p (\<lambda>r. True) maxPerNode (SeekGE p kvs) []
      in scan_forward lib ws maxPerNode kvs ids
           (ps\<lparr>ps_assocCache := al_lru_add lib (ps_assocCache ps) (assocCacheKey ws i)
                                (AssocCacheEntry assocs truncated)\<rparr>)
           (result(i \<mapsto> assocs)))"

definition GetAssociations :: "'db AssocLib \<Rightarrow> 'db AssocStore \<Rightarrow> 'db option \<Rightarrow> bytes \<Rightarrow> bytes list \<Rightarrow> int \<Rightarrow>
    'db AssocStore \<times> (db_error + (bytes \<rightharpoonup> assoc list))" where
  "GetAssociations lib ps snap ws ids maxPerNode =
     (case serve_cached (ps_assocCache ps) ws maxPerNode ids Map.empty [] of
        (result, uncached) \<Rightarrow>
          if uncached = [] then (ps, Inr result)
          else
            (case pb_iter (al_pebble lib) (pebbleReader ps snap) (AssocFwdRangeStart ws) (AssocFwdRangeEnd ws) of
               Inl e \<Rightarrow> (ps, Inl e)
             | Inr kvs \<Rightarrow>
                 (case scan_forward lib ws maxPerNode kvs (sort uncached) ps result of
                    (ps', result') \<Rightarrow> (ps', Inr result'))))"

fun scan_one :: "int \<Rightarrow> (bytes \<times> bytes) list \<Rightarrow> assoc list \<Rightarrow> assoc list \<times> bool" where
  "scan_one maxPerNode [] assocs = (assocs, False)"
| "scan_one maxPerNode ((k, v) # kvs) assocs =
     (if maxPerNode > 0 \<and> int (length assocs) \<ge> maxPerNode then (assocs, True)
      else scan_one maxPerNode kvs (if length k < 45 then assocs else assocs @ [assoc_of_row k v]))"

text \<open>One engram: a miss returns the list that was put into the cache.\<close>

definition associationsForOne :: "'db AssocLib \<Rightarrow> 'db AssocStore \<Rightarrow> bytes \<Rightarrow> bytes \<Rightarrow> int \<Rightarrow>
    'db AssocStore \<times> (db_error + assoc list)" where
  "associationsForOne lib ps ws i maxPerNode =
     (let ck = assocCacheKey ws i
      in case Option.bind (ps_assocCache ps ck) (cache_answer maxPerNode) of
           Some l \<Rightarrow> (ps, Inr l)
         | None \<Rightarrow>
             (let p = take 25 (AssocFwdKey (al_nanw lib) ws i 0x3F800000 (replicate 16 0))
              in case pb_iter (al_pebble lib) (ps_db ps) p (PrefixUpperBound p) of
                   Inl e \<Rightarrow> (ps, Inl e)
                 | Inr kvs \<Rightarrow>
                     (let (assocs, truncated) = scan_one maxPerNode kvs []
                      in (ps\<lparr>ps_assocCache := al_lru_add lib (ps_assocCache ps) ck
                                              (AssocCacheEntry assocs truncated)\<rparr>, Inr assocs))))"

section \<open>The reverse lists\<close>

definition revAssocScanCap :: int where
  "revAssocScanCap = 64"

fun serve_reverse :: "(bytes \<rightharpoonup> AssocCacheEntry) \<Rightarrow> bytes \<Rightarrow> int \<Rightarrow> bytes list \<Rightarrow>
    (bytes \<rightharpoonup> assoc list) \<Rightarrow> bytes list \<Rightarrow> (bytes \<rightharpoonup> assoc list) \<times> bytes list" where
  "serve_reverse cache ws maxPerNode [] out uncached = (out, uncached)"
| "serve_reverse cache ws maxPerNode (i # ids) out uncached =
     (if out i \<noteq> None then serve_reverse cache ws maxPerNode ids out uncached
      else
        (case Option.bind (cache (assocCacheKey ws i)) (cache_answer maxPerNode) of
           Some l \<Rightarrow> serve_reverse cache ws maxPerNode ids (out(i \<mapsto> l)) uncached
         | None \<Rightarrow> serve_reverse cache ws maxPerNode ids (out(i \<mapsto> [])) (uncached @ [i])))"

fun scan_reverse :: "'db AssocLib \<Rightarrow> bytes \<Rightarrow> int \<Rightarrow> int \<Rightarrow> (bytes \<times> bytes) list \<Rightarrow> bytes list \<Rightarrow>
    'db AssocStore \<Rightarrow> (bytes \<rightharpoonup> assoc list) \<Rightarrow> 'db AssocStore \<times> (bytes \<rightharpoonup> assoc list)" where
  "scan_reverse lib ws maxPerNode scanCap kvs [] ps out = (ps, out)"
| "scan_reverse lib ws maxPerNode scanCap kvs (i # ids) ps out =
     (let p = AssocRevPrefixForID ws i;
          (assocs, truncated) = scan_node p BidirectionalForRanking scanCap (SeekGE p kvs) []
      in scan_reverse lib ws maxPerNode scanCap kvs ids
           (ps\<lparr>ps_revAssocCache := al_lru_add lib (ps_revAssocCache ps) (assocCacheKey ws i)
                                   (AssocCacheEntry assocs truncated)\<rparr>)
           (out(i \<mapsto> cap_list maxPerNode assocs)))"

definition rankingReverseEdges :: "'db AssocLib \<Rightarrow> 'db AssocStore \<Rightarrow> 'db option \<Rightarrow> bytes \<Rightarrow> bytes list \<Rightarrow> int \<Rightarrow>
    'db AssocStore \<times> (db_error + (bytes \<rightharpoonup> assoc list))" where
  "rankingReverseEdges lib ps snap ws ids maxPerNode =
     (if ids = [] then (ps, Inr Map.empty)
      else
        (let scanCap = (if maxPerNode \<le> 0 \<or> maxPerNode > revAssocScanCap then maxPerNode else revAssocScanCap)
         in case serve_reverse (ps_revAssocCache ps) ws maxPerNode ids Map.empty [] of
              (out, uncached) \<Rightarrow>
                if uncached = [] then (ps, Inr out)
                else
                  (case pb_iter (al_pebble lib) (pebbleReader ps snap) (AssocRevRangeStart ws) (AssocRevRangeEnd ws) of
                     Inl e \<Rightarrow> (ps, Inl e)
                   | Inr kvs \<Rightarrow>
                       (case scan_reverse lib ws maxPerNode scanCap kvs (sort uncached) ps out of
                          (ps', out') \<Rightarrow> (ps', Inr out')))))"

section \<open>The merge\<close>

definition push_new :: "assoc list \<Rightarrow> assoc \<Rightarrow> assoc list" where
  "push_new merged nxt =
     (if list_ex (\<lambda>m. as_TargetID m = as_TargetID nxt) merged then merged else merged @ [nxt])"

definition merge_full :: "int \<Rightarrow> assoc list \<Rightarrow> bool" where
  "merge_full maxPerNode merged = (maxPerNode > 0 \<and> int (length merged) \<ge> maxPerNode)"

fun merge_loop :: "int \<Rightarrow> assoc list \<Rightarrow> assoc list \<Rightarrow> assoc list \<Rightarrow> assoc list" where
  "merge_loop n [] [] merged = merged"
| "merge_loop n (f # fwd) [] merged =
     (if merge_full n merged then merged else merge_loop n fwd [] (push_new merged f))"
| "merge_loop n [] (r # rv) merged =
     (if merge_full n merged then merged else merge_loop n [] rv (push_new merged r))"
| "merge_loop n (f # fwd) (r # rv) merged =
     (if merge_full n merged then merged
      else if f32_geq (as_Weight f) (as_Weight r) then merge_loop n fwd (r # rv) (push_new merged f)
      else merge_loop n (f # fwd) rv (push_new merged r))"

definition mergeRankingNeighbors :: "assoc list \<Rightarrow> assoc list \<Rightarrow> int \<Rightarrow> assoc list" where
  "mergeRankingNeighbors fwd rv maxPerNode =
     (if rv = [] then cap_list maxPerNode fwd else merge_loop maxPerNode fwd rv [])"

definition the_list :: "(bytes \<rightharpoonup> assoc list) \<Rightarrow> bytes \<Rightarrow> assoc list" where
  "the_list f i = (case f i of None \<Rightarrow> [] | Some l \<Rightarrow> l)"

definition GetRankingNeighbors :: "'db AssocLib \<Rightarrow> 'db AssocStore \<Rightarrow> 'db option \<Rightarrow> bytes \<Rightarrow> bytes list \<Rightarrow> int \<Rightarrow>
    'db AssocStore \<times> (db_error + (bytes \<rightharpoonup> assoc list))" where
  "GetRankingNeighbors lib ps snap ws ids maxPerNode =
     (case GetAssociations lib ps snap ws ids maxPerNode of
        (ps, Inl e) \<Rightarrow> (ps, Inl e)
      | (ps, Inr fwd) \<Rightarrow>
          (case rankingReverseEdges lib ps snap ws ids maxPerNode of
             (ps, Inl e) \<Rightarrow> (ps, Inl e)
           | (ps, Inr rv) \<Rightarrow>
               (ps, Inr (\<lambda>i. if i \<in> set ids then
                   Some (mergeRankingNeighbors (the_list fwd i) (the_list rv i) maxPerNode) else None))))"

section \<open>Other readers\<close>

fun take_targets :: "int \<Rightarrow> (bytes \<times> bytes) list \<Rightarrow> bytes list \<Rightarrow> bytes list" where
  "take_targets maxN [] neighbors = neighbors"
| "take_targets maxN ((k, v) # kvs) neighbors =
     (if int (length neighbors) < maxN then
        take_targets maxN kvs (if length k \<ge> 45 then neighbors @ [sub k 29 16] else neighbors)
      else neighbors)"

definition GetConceptAssociations :: "'db AssocLib \<Rightarrow> 'db AssocStore \<Rightarrow> bytes \<Rightarrow> bytes \<Rightarrow> int \<Rightarrow> db_error + bytes list" where
  "GetConceptAssociations lib ps ws i maxN =
     (let p = take 25 (AssocFwdKey (al_nanw lib) ws i 0x3F800000 (replicate 16 0))
      in case pb_iter (al_pebble lib) (ps_db ps) p (PrefixUpperBound p) of
           Inl e \<Rightarrow> Inl e
         | Inr kvs \<Rightarrow> Inr (take_targets maxN kvs []))"

definition GetChildrenByParent :: "'db AssocLib \<Rightarrow> 'db AssocStore \<Rightarrow> bytes \<Rightarrow> bytes \<Rightarrow> db_error + bytes list" where
  "GetChildrenByParent lib ps ws parent =
     (let p = AssocRevPrefixForID ws parent
      in case pb_iter (al_pebble lib) (ps_db ps) p (PrefixUpperBound p) of
           Inl e \<Rightarrow> Inl e
         | Inr kvs \<Rightarrow>
             Inr (map (\<lambda>(k, v). sub k 29 16)
               (filter (\<lambda>(k, v). length k \<ge> 45 \<and> am_relType (decodeAssocValue v) = RelIsPartOf) kvs)))"

fun take_rows :: "int \<Rightarrow> (bytes \<times> bytes) list \<Rightarrow> assoc list \<Rightarrow> assoc list" where
  "take_rows maxPerNode [] results = results"
| "take_rows maxPerNode ((k, v) # kvs) results =
     (if maxPerNode \<le> 0 \<or> int (length results) < maxPerNode then
        take_rows maxPerNode kvs (if length k < 45 then results else results @ [assoc_of_row k v])
      else results)"

definition GetReverseAssociations :: "'db AssocLib \<Rightarrow> 'db AssocStore \<Rightarrow> bytes \<Rightarrow> bytes \<Rightarrow> int \<Rightarrow>
    db_error + assoc list" where
  "GetReverseAssociations lib ps ws i maxPerNode =
     (let p = AssocRevPrefixForID ws i
      in case pb_iter (al_pebble lib) (ps_db ps) p (PrefixUpperBound p) of
           Inl e \<Rightarrow> Inl e
         | Inr kvs \<Rightarrow> Inr (take_rows maxPerNode kvs []))"

end
