(* ===== verification/Ranking_Props.thy ===== *)
theory Ranking_Props
  imports Ranking Assoc_Props
begin

text \<open>Properties of the neighbour lists: the merge is an exact top-N, and the caches are fresh.\<close>

section \<open>Weights\<close>

abbreviation heavier :: "assoc \<Rightarrow> assoc \<Rightarrow> bool" where
  "heavier a b \<equiv> f32_geq (as_Weight a) (as_Weight b)"

lemma heavier_trans: "heavier a b \<Longrightarrow> heavier b c \<Longrightarrow> heavier a c"
  by (simp add: f32_geq_def)

lemma heavier_total: "\<not> f32_nan (as_Weight a) \<Longrightarrow> \<not> f32_nan (as_Weight b) \<Longrightarrow> \<not> heavier a b \<Longrightarrow> heavier b a"
  by (simp add: f32_geq_def)

definition ranked :: "assoc list \<Rightarrow> bool" where
  "ranked xs \<longleftrightarrow> sorted_wrt heavier xs \<and> (\<forall>x \<in> set xs. \<not> f32_nan (as_Weight x))"

definition targets :: "assoc list \<Rightarrow> bytes list" where
  "targets xs = map as_TargetID xs"

lemma targets_simps [simp]: "targets [] = []" "targets (x # xs) = as_TargetID x # targets xs"
  "targets (xs @ ys) = targets xs @ targets ys" "set (targets xs) = as_TargetID ` set xs"
  "length (targets xs) = length xs"
  by (auto simp: targets_def)

lemma ranked_append: "ranked (xs @ ys) \<longleftrightarrow> ranked xs \<and> ranked ys \<and> (\<forall>x \<in> set xs. \<forall>y \<in> set ys. heavier x y)"
  by (auto simp: ranked_def sorted_wrt_append)

lemma ranked_Cons: "ranked (x # xs) \<longleftrightarrow> ranked xs \<and> \<not> f32_nan (as_Weight x) \<and> (\<forall>y \<in> set xs. heavier x y)"
  by (auto simp: ranked_def)

lemma ranked_Nil [simp]: "ranked []"
  by (simp add: ranked_def)

section \<open>The merge\<close>

lemma push_step:
  assumes "ranked (M @ f # fs)" "ranked (M @ R)" "\<forall>r \<in> set R. heavier f r" "distinct (targets M)"
  shows "ranked (push_new M f @ fs)" "ranked (push_new M f @ R)" "distinct (targets (push_new M f))"
    "set M \<subseteq> set (push_new M f)" "set (push_new M f) \<subseteq> insert f (set M)"
    "\<exists>y \<in> set (push_new M f). as_TargetID y = as_TargetID f \<and> heavier y f"
    "length (push_new M f) \<le> length M + 1"
proof -
  have h: "heavier f f" using assms(1) by (simp add: ranked_append ranked_Cons f32_geq_def)
  show "ranked (push_new M f @ fs)" "ranked (push_new M f @ R)"
    using assms(1-3) by (auto simp: push_new_def ranked_append ranked_Cons)
  show "distinct (targets (push_new M f))" using assms(4) by (auto simp: push_new_def list_ex_iff)
  show "set M \<subseteq> set (push_new M f)" "set (push_new M f) \<subseteq> insert f (set M)" "length (push_new M f) \<le> length M + 1"
    by (auto simp: push_new_def)
  show "\<exists>y \<in> set (push_new M f). as_TargetID y = as_TargetID f \<and> heavier y f"
    using assms(1) h by (auto simp: push_new_def list_ex_iff ranked_append ranked_Cons)
qed

text \<open>\<open>M\<close> ranks the \<open>n\<close> heaviest distinct targets of \<open>X\<close> (all of them when \<open>n\<close> is not positive).\<close>

definition top_n :: "int \<Rightarrow> assoc set \<Rightarrow> assoc list \<Rightarrow> bool" where
  "top_n n X M \<longleftrightarrow> set M \<subseteq> X \<and> ranked M \<and> distinct (targets M) \<and>
     (n > 0 \<longrightarrow> int (length M) \<le> n) \<and>
     (\<forall>x \<in> X. (\<exists>y \<in> set M. as_TargetID y = as_TargetID x \<and> heavier y x) \<or>
       (n > 0 \<and> int (length M) = n \<and> (\<forall>y \<in> set M. heavier y x)))"

definition merged_so_far :: "int \<Rightarrow> assoc set \<Rightarrow> assoc list \<Rightarrow> assoc list \<Rightarrow> assoc list \<Rightarrow> bool" where
  "merged_so_far n X F R M \<longleftrightarrow> ranked (M @ F) \<and> ranked (M @ R) \<and> distinct (targets M) \<and>
     set M \<union> set F \<union> set R \<subseteq> X \<and> (n > 0 \<longrightarrow> int (length M) \<le> n) \<and>
     (\<forall>x \<in> X. x \<in> set F \<or> x \<in> set R \<or> (\<exists>y \<in> set M. as_TargetID y = as_TargetID x \<and> heavier y x))"

lemma merged_swap: "merged_so_far n X F R M = merged_so_far n X R F M"
  by (auto simp: merged_so_far_def)

lemma merged_step:
  assumes "merged_so_far n X (f # fs) R M" "\<not> merge_full n M" "\<forall>r \<in> set R. heavier f r"
  shows "merged_so_far n X fs R (push_new M f)"
proof -
  note m = assms(1)[unfolded merged_so_far_def]
  note p = push_step[OF conjunct1[OF m] _ assms(3)]
  have "ranked (M @ R)" "distinct (targets M)" using m by auto
  note p = p[OF this]
  have "n > 0 \<longrightarrow> int (length (push_new M f)) \<le> n" using p(7) assms(2) by (auto simp: merge_full_def)
  moreover have "x \<in> set fs \<or> x \<in> set R \<or> (\<exists>y \<in> set (push_new M f). as_TargetID y = as_TargetID x \<and> heavier y x)"
    if "x \<in> X" for x
  proof -
    from m that have "x = f \<or> x \<in> set fs \<or> x \<in> set R \<or> (\<exists>y \<in> set M. as_TargetID y = as_TargetID x \<and> heavier y x)"
      by auto
    then show ?thesis using p(4,6) by blast
  qed
  ultimately show ?thesis using m p(1-5) by (auto simp: merged_so_far_def)
qed

lemma merged_done:
  assumes "merged_so_far n X F R M" "F = [] \<and> R = [] \<or> merge_full n M"
  shows "top_n n X M"
  using assms by (auto simp: merged_so_far_def top_n_def merge_full_def ranked_append)

lemma merge_loop_top: "merged_so_far n X F R M \<Longrightarrow> top_n n X (merge_loop n F R M)"
proof (induction n F R M rule: merge_loop.induct)
  case (1 n merged)
  then show ?case by (simp add: merged_done)
next
  case (2 n f fwd merged)
  then show ?case using merged_step[OF 2(2)] by (auto intro: merged_done)
next
  case (3 n r rv merged)
  then show ?case using merged_step[of n X r rv "[]" merged] by (auto intro: merged_done simp: merged_swap[of n X "[]"])
next
  case (4 n f fwd r rv merged)
  have m: "ranked (r # rv)" "ranked (f # fwd)" using 4(3) by (auto simp: merged_so_far_def ranked_append)
  show ?case
  proof (cases "merge_full n merged")
    case True
    then show ?thesis using 4(3) by (auto intro: merged_done)
  next
    case full: False
    show ?thesis
    proof (cases "heavier f r")
      case True
      then have "\<forall>x \<in> set (r # rv). heavier f x" using m(1) by (auto simp: ranked_Cons intro: heavier_trans)
      then show ?thesis using 4(1)[OF full True merged_step[OF 4(3) full]] full True by simp
    next
      case False
      then have "heavier r f" using m by (intro heavier_total) (simp_all add: ranked_Cons)
      then have "\<forall>x \<in> set (f # fwd). heavier r x" using m(2) by (auto simp: ranked_Cons intro: heavier_trans)
      moreover have "merged_so_far n X (r # rv) (f # fwd) merged" using 4(3) by (simp add: merged_swap)
      ultimately have "merged_so_far n X (f # fwd) rv (push_new merged r)"
        using merged_step full by (subst merged_swap) blast
      then show ?thesis using 4(2)[OF full False] full False by simp
    qed
  qed
qed

lemma merge_loop_forward:
  "distinct (targets (M @ F)) \<Longrightarrow> (n > 0 \<longrightarrow> int (length M) \<le> n) \<Longrightarrow> merge_loop n F [] M = cap_list n (M @ F)"
proof (induction F arbitrary: M)
  case Nil
  then show ?case by (auto simp: cap_list_def)
next
  case (Cons f F)
  then have "\<forall>m \<in> set M. as_TargetID m \<noteq> as_TargetID f" by (auto simp: image_iff)
  then have "push_new M f = M @ [f]" by (auto simp: push_new_def list_ex_iff)
  then show ?case using Cons by (auto simp: merge_full_def cap_list_def)
qed

lemma merge_eq_loop:
  "distinct (targets F) \<Longrightarrow> mergeRankingNeighbors F R n = merge_loop n F R []"
  using merge_loop_forward[of "[]" F n] by (auto simp: mergeRankingNeighbors_def)

section \<open>Capping the inputs\<close>

text \<open>What has been taken from a list with distinct targets is no more than what has been put out.\<close>

definition taken :: "int \<Rightarrow> assoc list \<Rightarrow> nat \<Rightarrow> assoc list \<Rightarrow> assoc list \<Rightarrow> bool" where
  "taken n C p F M \<longleftrightarrow> distinct (targets (C @ F)) \<and> set (targets C) \<subseteq> set (targets M) \<and> n \<le> int (length C + p)"

lemma taken_room:
  assumes "taken n C p F M" "int (length M) < n"
  shows "p > 0"
proof -
  have "distinct (targets C)" using assms(1) by (simp add: taken_def)
  then have "length C = card (set (targets C))" using distinct_card[of "targets C"] by simp
  also have "\<dots> \<le> card (set (targets M))" using assms(1) unfolding taken_def by (intro card_mono) auto
  also have "\<dots> \<le> length M" using card_length[of "targets M"] by simp
  finally show ?thesis using assms by (simp add: taken_def)
qed

lemma set_push: "set (targets (push_new M f)) = insert (as_TargetID f) (set (targets M))"
  by (auto simp: push_new_def list_ex_iff image_iff intro: sym)

lemma taken_push: "taken n C p F M \<Longrightarrow> taken n C p F (push_new M x)"
  unfolding taken_def set_push by blast

lemma taken_step: "taken n C (Suc p) (f # F) M \<Longrightarrow> taken n (C @ [f]) p F (push_new M f)"
  unfolding taken_def set_push by auto

lemma merge_take:
  "n > 0 \<Longrightarrow> taken n C p F M \<Longrightarrow> taken n D q R M \<Longrightarrow>
     merge_loop n (take p F) (take q R) M = merge_loop n F R M"
proof (induction n F R M arbitrary: C D p q rule: merge_loop.induct)
  case (1 n merged)
  then show ?case by simp
next
  case (2 n f fwd merged)
  show ?case
  proof (cases "merge_full n merged")
    case True
    then show ?thesis by (cases p) simp_all
  next
    case False
    then obtain p' where p: "p = Suc p'" using taken_room[OF 2(3)] 2(2) by (auto simp: merge_full_def gr0_conv_Suc)
    then show ?thesis
      using 2(1)[OF False 2(2) taken_step[OF 2(3)[unfolded p]] taken_push[OF 2(4)]] False by simp
  qed
next
  case (3 n r rv merged)
  show ?case
  proof (cases "merge_full n merged")
    case True
    then show ?thesis by (cases q) simp_all
  next
    case False
    then obtain q' where q: "q = Suc q'" using taken_room[OF 3(4)] 3(2) by (auto simp: merge_full_def gr0_conv_Suc)
    then show ?thesis
      using 3(1)[OF False 3(2) taken_push[OF 3(3)] taken_step[OF 3(4)[unfolded q]]] False by simp
  qed
next
  case (4 n f fwd r rv merged)
  show ?case
  proof (cases "merge_full n merged")
    case True
    then show ?thesis by (cases p; cases q) simp_all
  next
    case full: False
    then have "p > 0" "q > 0"
      using taken_room[OF 4(4)] taken_room[OF 4(5)] 4(3) by (auto simp: merge_full_def)
    then obtain p' q' where pq: "p = Suc p'" "q = Suc q'" by (auto simp: gr0_conv_Suc)
    show ?thesis
    proof (cases "heavier f r")
      case True
      from 4(1)[OF full True 4(3) taken_step[OF 4(4)[unfolded pq]] taken_push[OF 4(5)]]
      show ?thesis using full True by (simp add: pq)
    next
      case False
      from 4(2)[OF full False 4(3) taken_push[OF 4(4)] taken_step[OF 4(5)[unfolded pq]]]
      show ?thesis using full False by (simp add: pq)
    qed
  qed
qed

lemma cap_list_take: "n > 0 \<Longrightarrow> cap_list n xs = take (nat n) xs"
  by (auto simp: cap_list_def)

lemma cap_list_all: "n \<le> 0 \<Longrightarrow> cap_list n xs = xs"
  by (simp add: cap_list_def)

lemma distinct_cap: "distinct (targets xs) \<Longrightarrow> distinct (targets (cap_list n xs))"
  by (simp add: cap_list_def targets_def take_map[symmetric])

lemma merge_of_capped:
  assumes "distinct (targets F)" "distinct (targets R)"
  shows "mergeRankingNeighbors (cap_list n F) (cap_list n R) n = mergeRankingNeighbors F R n"
proof (cases "n > 0")
  case True
  have "taken n [] (nat n) F []" "taken n [] (nat n) R []" using assms True by (simp_all add: taken_def)
  from merge_take[OF True this] show ?thesis
    using True merge_eq_loop[OF distinct_cap[OF assms(1)], of n "cap_list n R" n] merge_eq_loop[OF assms(1)]
    by (simp add: cap_list_take)
next
  case False
  then show ?thesis by (simp add: cap_list_all)
qed

text \<open>For two lists by descending weight, each with distinct targets, merging the lists capped at \<open>n\<close>
  gives the merge of the whole lists, and that is an exact top-N of their union.\<close>

lemma ranking_merge_exact:
  assumes "ranked F" "ranked R" "distinct (targets F)" "distinct (targets R)"
  shows "mergeRankingNeighbors (cap_list n F) (cap_list n R) n = mergeRankingNeighbors F R n \<and>
    top_n n (set F \<union> set R) (mergeRankingNeighbors F R n)"
proof -
  have "merged_so_far n (set F \<union> set R) F R []" using assms by (auto simp: merged_so_far_def)
  then show ?thesis using merge_of_capped[OF assms(3,4)] merge_loop_top by (simp add: merge_eq_loop assms(3))
qed

section \<open>Weights in keys\<close>

lemma top_bit_bounds: "n > 0 \<Longrightarrow> 2 ^ top_bit n \<le> n \<and> n < 2 ^ Suc (top_bit n)"
proof (induction n rule: top_bit.induct)
  case (1 n)
  show ?case
  proof (cases "n < 2")
    case True
    then show ?thesis using 1(2) by (simp add: top_bit.simps)
  next
    case False
    then have "2 ^ top_bit (n div 2) \<le> n div 2 \<and> n div 2 < 2 ^ Suc (top_bit (n div 2))" using 1(1) by simp
    moreover have "top_bit n = Suc (top_bit (n div 2))" using False by (subst top_bit.simps) simp
    ultimately show ?thesis by (simp add: div_less_iff_less_mult mult.commute) linarith
  qed
qed

definition f32_mantissa :: "nat \<Rightarrow> nat" where
  "f32_mantissa n = (let k = top_bit n in if k \<le> 23 then n * 2 ^ (23 - k) else round_even n (k - 23))"

lemma round_even_bounds: "n div 2 ^ d \<le> round_even n d" "round_even n d \<le> n div 2 ^ d + 1"
  by (simp_all add: round_even_def Let_def)

lemma round_even_mono: "a \<le> b \<Longrightarrow> round_even a d \<le> round_even b d"
proof -
  assume ab: "a \<le> b"
  show ?thesis
  proof (cases "a div 2 ^ d = b div 2 ^ d")
    case True
    then have "a mod 2 ^ d \<le> b mod 2 ^ d" using ab
      by (metis add_le_cancel_left div_mult_mod_eq)
    then show ?thesis using True by (auto simp: round_even_def Let_def)
  next
    case False
    then have "a div 2 ^ d < b div 2 ^ d" using ab by (simp add: div_le_mono le_neq_implies_less)
    then show ?thesis using round_even_bounds[of a d] round_even_bounds[of b d] by linarith
  qed
qed

lemma mantissa_bounds: "n > 0 \<Longrightarrow> 2 ^ 23 \<le> f32_mantissa n \<and> f32_mantissa n \<le> 2 ^ 24"
proof -
  assume n: "n > 0"
  let ?k = "top_bit n"
  note b = top_bit_bounds[OF n]
  show ?thesis
  proof (cases "?k \<le> 23")
    case True
    have e: "2 ^ ?k * 2 ^ (23 - ?k) = (2 :: nat) ^ 23" using True by (simp add: power_add[symmetric])
    have "2 ^ ?k * 2 ^ (23 - ?k) \<le> n * 2 ^ (23 - ?k)" using b by (intro mult_right_mono) auto
    then have lo: "2 ^ 23 \<le> n * 2 ^ (23 - ?k)" unfolding e .
    have "n * 2 ^ (23 - ?k) \<le> 2 ^ Suc ?k * 2 ^ (23 - ?k)" using b by (intro mult_right_mono) auto
    also have "2 ^ Suc ?k * 2 ^ (23 - ?k) = (2 :: nat) ^ 24" using e by simp
    finally have "n * 2 ^ (23 - ?k) \<le> 2 ^ 24" .
    with lo show ?thesis using True by (simp add: f32_mantissa_def Let_def)
  next
    case False
    have "(2 :: nat) ^ (23 + (?k - 23)) = 2 ^ 23 * 2 ^ (?k - 23)" by (rule power_add)
    then have e: "(2 :: nat) ^ ?k = 2 ^ 23 * 2 ^ (?k - 23)" using False by simp
    have "2 ^ 23 \<le> n div 2 ^ (?k - 23)" using b e by (simp add: less_eq_div_iff_mult_less_eq)
    moreover have "n div 2 ^ (?k - 23) < 2 ^ 24" using b e by (simp add: div_less_iff_less_mult)
    ultimately show ?thesis
      using False round_even_bounds[of n "?k - 23"] by (simp add: f32_mantissa_def Let_def)
  qed
qed

definition u32_bits :: "nat \<Rightarrow> nat" where
  "u32_bits n = (if n = 0 then 0 else (95 + top_bit n) * 2 ^ 23 + (f32_mantissa n - 2 ^ 23))"

lemma f32_of_u32_bits: "f32_of_u32 32 w = word_of_nat (u32_bits (unat w))"
  by (simp add: f32_of_u32_def u32_bits_def f32_mantissa_def Let_def unat_eq_0)

lemma top_bit_mono: "0 < a \<Longrightarrow> a \<le> b \<Longrightarrow> top_bit a \<le> top_bit b"
proof (rule ccontr)
  assume ab: "0 < a" "a \<le> b" "\<not> top_bit a \<le> top_bit b"
  then have "b < 2 ^ Suc (top_bit b)" "2 ^ top_bit a \<le> a" using top_bit_bounds[of a] top_bit_bounds[of b] by auto
  moreover have "(2 :: nat) ^ Suc (top_bit b) \<le> 2 ^ top_bit a" using ab by (intro power_increasing) auto
  ultimately show False using ab by linarith
qed

lemma u32_bits_mono: "a \<le> b \<Longrightarrow> u32_bits a \<le> u32_bits b"
proof (cases "a = 0")
  case False
  assume ab: "a \<le> b"
  then have pos: "0 < a" "0 < b" using False by auto
  note ma = mantissa_bounds[OF pos(1)] and mb = mantissa_bounds[OF pos(2)]
  show ?thesis
  proof (cases "top_bit a = top_bit b")
    case True
    then have "f32_mantissa a \<le> f32_mantissa b" using ab by (simp add: f32_mantissa_def Let_def round_even_mono)
    then show ?thesis using True pos by (simp add: u32_bits_def)
  next
    case False
    then have "95 + top_bit a + 1 \<le> 95 + top_bit b" using top_bit_mono[OF pos(1) ab] by simp
    then have "(95 + top_bit a + 1) * 2 ^ 23 \<le> (95 + top_bit b) * (2 :: nat) ^ 23" by (rule mult_right_mono) simp
    moreover have "(95 + top_bit a + 1) * (2 :: nat) ^ 23 = (95 + top_bit a) * 2 ^ 23 + 2 ^ 23" by simp
    moreover have "f32_mantissa a - 2 ^ 23 \<le> 2 ^ 23" using ma by (simp only: le_diff_conv) simp
    ultimately show ?thesis using pos unfolding u32_bits_def by simp
  qed
qed (simp add: u32_bits_def)

lemma u32_bits_bound: "n < 2 ^ 32 \<Longrightarrow> u32_bits n \<le> 127 * 2 ^ 23"
proof -
  assume n: "n < 2 ^ 32"
  show ?thesis
  proof (cases "n = 0")
    case False
    have "top_bit n \<le> 31"
    proof (rule ccontr)
      assume "\<not> top_bit n \<le> 31"
      then have "(2 :: nat) ^ 32 \<le> 2 ^ top_bit n" by (intro power_increasing) auto
      then show False using top_bit_bounds[of n] n False by linarith
    qed
    then have "(95 + top_bit n) * 2 ^ 23 \<le> 126 * (2 :: nat) ^ 23" by simp
    then show ?thesis using mantissa_bounds[of n] False by (simp add: u32_bits_def)
  qed (simp add: u32_bits_def)
qed

lemma complement_weight_le:
  fixes c d :: u32
  assumes "c \<le> d"
  shows "f32_geq (f32_of_u32 32 (0xFFFFFFFF - c)) (f32_of_u32 32 (0xFFFFFFFF - d))"
proof -
  let ?x = "u32_bits (unat (0xFFFFFFFF - c))" and ?y = "u32_bits (unat (0xFFFFFFFF - d))"
  have w: "unat (0xFFFFFFFF - e) = 4294967295 - unat e" for e :: u32
    by (simp add: unat_sub word_le_nat_alt unat_32_lt less_imp_le_nat less_Suc_eq_le[symmetric])
  have le: "?y \<le> ?x" using assms by (intro u32_bits_mono) (simp add: w word_le_nat_alt)
  have bx: "?x \<le> 127 * 2 ^ 23" by (rule u32_bits_bound) (simp add: w)
  have u: "unat (word_of_nat ?x :: u32) = ?x" "unat (word_of_nat ?y :: u32) = ?y"
    using bx le by (simp_all add: unat_of_nat)
  have n: "\<not> f32_neg (word_of_nat ?x)" "\<not> f32_neg (word_of_nat ?y)"
    using bx le by (simp_all add: f32_neg_def u)
  have "?x div 2 ^ 23 \<le> 127" "?y div 2 ^ 23 \<le> 127" using bx le by (simp_all add: div_le_mono[of _ "127 * 2 ^ 23", simplified])
  then have "\<not> f32_nan (word_of_nat ?x)" "\<not> f32_nan (word_of_nat ?y)"
    by (auto simp: f32_nan_def f32_exp_def u)
  moreover have "f32_scaled (word_of_nat ?y) \<le> f32_scaled (word_of_nat ?x)"
    using le by (intro f32_scaled_mono n) (simp add: word_le_nat_alt u)
  ultimately show ?thesis by (simp add: f32_of_u32_bits f32_geq_def f32_val_def n)
qed

end
