(* ===== verification/Ranking_Cache.thy ===== *)
theory Ranking_Cache
  imports Ranking_Props
begin

text \<open>The caches of association lists: what a scan of the store returns, and that the caches never
  hold anything else.\<close>

section \<open>The edges of an engram\<close>

text \<open>The entries of the store whose key begins with \<open>p\<close>, in key order, and the edges they are.\<close>

definition node_rows :: "(bytes \<rightharpoonup> bytes) \<Rightarrow> bytes \<Rightarrow> (bytes \<times> bytes) list" where
  "node_rows m p = map (\<lambda>k. (k, the (m k))) (sorted_list_of_set {k. prefix p k \<and> m k \<noteq> None})"

definition is_edge :: "(RelType \<Rightarrow> bool) \<Rightarrow> bytes \<times> bytes \<Rightarrow> bool" where
  "is_edge accept kv \<longleftrightarrow> length (fst kv) \<ge> 45 \<and> accept (am_relType (decodeAssocValue (snd kv)))"

definition row_edges :: "(RelType \<Rightarrow> bool) \<Rightarrow> (bytes \<times> bytes) list \<Rightarrow> assoc list" where
  "row_edges accept kvs = map (\<lambda>(k, v). assoc_of_row k v) (filter (is_edge accept) kvs)"

definition fwd_edges :: "(bytes \<rightharpoonup> bytes) \<Rightarrow> bytes \<Rightarrow> bytes \<Rightarrow> assoc list" where
  "fwd_edges m ws i = row_edges (\<lambda>r. True) (node_rows m (AssocFwdPrefixForID ws i))"

definition rev_edges :: "(bytes \<rightharpoonup> bytes) \<Rightarrow> bytes \<Rightarrow> bytes \<Rightarrow> assoc list" where
  "rev_edges m ws i = row_edges BidirectionalForRanking (node_rows m (AssocRevPrefixForID ws i))"

lemma node_rows_local: "(\<forall>k. prefix p k \<longrightarrow> m k = m' k) \<Longrightarrow> node_rows m p = node_rows m' p"
proof -
  assume a: "\<forall>k. prefix p k \<longrightarrow> m k = m' k"
  then have s: "{k. prefix p k \<and> m k \<noteq> None} = {k. prefix p k \<and> m' k \<noteq> None}" by auto
  have "the (m k) = the (m' k)" if "k \<in> set (sorted_list_of_set {k. prefix p k \<and> m' k \<noteq> None})" for k
  proof (cases "finite {k. prefix p k \<and> m' k \<noteq> None}")
    case True
    then show ?thesis using that a by simp
  next
    case False
    then show ?thesis using that by simp
  qed
  then show ?thesis unfolding node_rows_def s by simp
qed

text \<open>The part of an iterator that carries a prefix.\<close>

lemma iter_prefix_rows:
  assumes "iter_ok m lo hi kvs" "\<forall>k. prefix p k \<longrightarrow> lo \<le> k \<and> below k hi"
  shows "filter (\<lambda>kv. prefix p (fst kv)) kvs = node_rows m p"
proof -
  let ?f = "filter (\<lambda>kv. prefix p (fst kv)) kvs"
  have s: "sorted_wrt (<) (map fst kvs)" and mem: "\<And>k v. (k, v) \<in> set kvs \<longleftrightarrow> lo \<le> k \<and> below k hi \<and> m k = Some v"
    using assms(1) by (auto simp: iter_ok_def)
  have keys: "set (map fst ?f) = {k. prefix p k \<and> m k \<noteq> None}"
    using assms(2) mem by (force simp: image_iff)
  have "map fst ?f = filter (prefix p) (map fst kvs)" by (simp add: filter_map comp_def)
  then have "sorted_wrt (<) (map fst ?f)" using s by (simp add: sorted_wrt_filter)
  then have "sorted_list_of_set (set (map fst ?f)) = map fst ?f"
    by (intro sorted_list_of_set.idem_if_sorted_distinct) (auto simp: strict_sorted_iff)
  then have "sorted_list_of_set {k. prefix p k \<and> m k \<noteq> None} = map fst ?f" by (simp only: keys)
  then have "node_rows m p = map (\<lambda>kv. (fst kv, the (m (fst kv)))) ?f" by (simp add: node_rows_def comp_def)
  also have "\<dots> = map (\<lambda>kv. kv) ?f" by (rule map_cong[OF refl]) (auto simp: mem)
  finally show ?thesis by simp
qed

lemma prefix_between:
  fixes a b c :: bytes
  assumes "prefix p a" "prefix p c" "a \<le> b" "b \<le> c"
  shows "prefix p b"
  using assms bound_exact[of p]
  by (metis below_simps(1) below_simps(2) le_less_trans option.exhaust order_trans)

lemma take_prefix: "length p = 25 \<Longrightarrow> prefix p k \<longleftrightarrow> \<not> (length k < 25 \<or> take 25 k \<noteq> p)"
  by (auto simp: prefix_def) (metis append_take_drop_id)

lemma sorted_wrt_map_dropWhile:
  assumes "sorted_wrt (<) (map f xs)"
  shows "sorted_wrt (<) (map f (dropWhile P xs))"
proof -
  have "map f xs = map f (takeWhile P xs) @ map f (dropWhile P xs)"
    by (simp only: map_append[symmetric] takeWhile_dropWhile_id)
  then show ?thesis using assms by (simp only: sorted_wrt_append)
qed

text \<open>From its first key that is not below the prefix on, the entries with the prefix come first.\<close>

lemma seek_rows:
  assumes "sorted_wrt (<) (map fst kvs)"
  shows "takeWhile (\<lambda>kv. prefix p (fst kv)) (SeekGE p kvs) = filter (\<lambda>kv. prefix p (fst kv)) kvs"
  using assms
proof (induction kvs)
  case (Cons kv kvs)
  show ?case
  proof (cases "fst kv < p")
    case True
    then have "\<not> prefix p (fst kv)" using bound_exact[of p "fst kv"] by (auto simp: not_le[symmetric])
    then show ?thesis using True Cons by (simp add: SeekGE_def split_beta)
  next
    case False
    have "takeWhile (\<lambda>kv. prefix p (fst kv)) (kv # kvs) = filter (\<lambda>kv. prefix p (fst kv)) (kv # kvs)"
    proof (rule takeWhile_eq_filter)
      fix x
      assume x: "x \<in> set (dropWhile (\<lambda>kv. prefix p (fst kv)) (kv # kvs))"
      show "\<not> prefix p (fst x)"
      proof
        assume px: "prefix p (fst x)"
        let ?d = "dropWhile (\<lambda>kv. prefix p (fst kv)) (kv # kvs)"
        obtain y ys where d: "?d = y # ys" using x by (cases ?d) auto
        then have "y \<in> set ?d" by (simp only: list.set_intros)
        then have y: "y \<in> set (kv # kvs)" by (rule set_dropWhileD)
        have y': "\<not> prefix p (fst y)" using hd_dropWhile[of "\<lambda>kv. prefix p (fst kv)" "kv # kvs"] d by simp
        have "sorted_wrt (<) (map fst ?d)"
          by (rule sorted_wrt_map_dropWhile[OF Cons.prems])
        then have "fst y \<le> fst x" using x d by auto
        moreover have "p \<le> fst y" using False y Cons.prems by auto
        ultimately have "prefix p (fst y)" using prefix_between[of p p "fst x" "fst y"] px by simp
        then show False using y' by simp
      qed
    qed
    then show ?thesis using False by (simp add: SeekGE_def split_beta)
  qed
qed (simp add: SeekGE_def)

section \<open>What a scan returns\<close>

definition fresh_entry :: "assoc list \<Rightarrow> AssocCacheEntry \<Rightarrow> bool" where
  "fresh_entry L e \<longleftrightarrow> (\<exists>n. ce_assocs e = take n L) \<and> (\<not> ce_truncated e \<longrightarrow> ce_assocs e = L)"

lemma cache_answer_fresh: "fresh_entry L e \<Longrightarrow> cache_answer n e = Some l \<Longrightarrow> l = cap_list n L"
  by (auto simp: fresh_entry_def cache_answer_def cap_list_def min_def split: if_splits)

lemma scan_node_rows:
  assumes "length p = 25"
  shows "scan_node p accept cap kvs acc =
    (let rows = takeWhile (\<lambda>kv. prefix p (fst kv)) kvs; L = acc @ row_edges accept rows
     in if cap > 0 \<and> int (length acc) \<ge> cap then (acc, rows \<noteq> [])
        else (cap_list cap L, snd (scan_node p accept cap kvs acc)))"
proof (induction kvs arbitrary: acc)
  case Nil
  then show ?case by (auto simp: row_edges_def cap_list_def)
next
  case (Cons kv kvs)
  obtain k v where kv: "kv = (k, v)" by (cases kv)
  show ?case
  proof (cases "prefix p k")
    case False
    then show ?thesis using take_prefix[OF assms, of k] by (auto simp: kv row_edges_def cap_list_def)
  next
    case True
    then have t: "\<not> (length k < 25 \<or> take 25 k \<noteq> p)" using take_prefix[OF assms] by blast
    show ?thesis
    proof (cases "cap > 0 \<and> int (length acc) \<ge> cap")
      case True
      then show ?thesis using t \<open>prefix p k\<close> by (simp add: kv)
    next
      case notfull: False
      define acc' where "acc' = (if is_edge accept (k, v) then acc @ [assoc_of_row k v] else acc)"
      have s: "scan_node p accept cap (kv # kvs) acc = scan_node p accept cap kvs acc'"
        using t notfull by (auto simp: kv is_edge_def acc'_def)
      have L: "acc' @ row_edges accept (takeWhile (\<lambda>kv. prefix p (fst kv)) kvs) =
          acc @ row_edges accept (takeWhile (\<lambda>kv. prefix p (fst kv)) (kv # kvs))"
        using \<open>prefix p k\<close> by (simp add: kv row_edges_def acc'_def)
      have "fst (scan_node p accept cap kvs acc') =
          cap_list cap (acc' @ row_edges accept (takeWhile (\<lambda>kv. prefix p (fst kv)) kvs))"
      proof (cases "cap > 0 \<and> int (length acc') \<ge> cap")
        case True
        then have "int (length acc') = cap" using notfull by (auto simp: acc'_def split: if_splits)
        then show ?thesis using Cons.IH[of acc'] True by (auto simp: Let_def cap_list_def)
      next
        case False
        note a = arg_cong[where f = fst, OF Cons.IH[of acc'], unfolded Let_def if_not_P[OF False] fst_conv]
        show ?thesis by (rule a)
      qed
      then show ?thesis unfolding L s Let_def if_not_P[OF notfull] by (simp add: prod_eq_iff)
    qed
  qed
qed

lemma scan_node_complete:
  assumes "length p = 25"
  shows "\<not> snd (scan_node p accept cap kvs acc) \<Longrightarrow>
    fst (scan_node p accept cap kvs acc) = acc @ row_edges accept (takeWhile (\<lambda>kv. prefix p (fst kv)) kvs)"
proof (induction kvs arbitrary: acc)
  case Nil
  then show ?case by (simp add: row_edges_def)
next
  case (Cons kv kvs)
  obtain k v where kv: "kv = (k, v)" by (cases kv)
  show ?case
  proof (cases "prefix p k")
    case False
    then show ?thesis using take_prefix[OF assms, of k] by (auto simp: kv row_edges_def)
  next
    case True
    then have t: "\<not> (length k < 25 \<or> take 25 k \<noteq> p)" using take_prefix[OF assms] by blast
    then have "\<not> (cap > 0 \<and> int (length acc) \<ge> cap)" using Cons.prems by (auto simp: kv)
    moreover define acc' where "acc' = (if is_edge accept (k, v) then acc @ [assoc_of_row k v] else acc)"
    ultimately have s: "scan_node p accept cap (kv # kvs) acc = scan_node p accept cap kvs acc'"
      using t by (auto simp: kv is_edge_def)
    have "acc' @ row_edges accept (takeWhile (\<lambda>kv. prefix p (fst kv)) kvs) =
        acc @ row_edges accept (takeWhile (\<lambda>kv. prefix p (fst kv)) (kv # kvs))"
      using True by (simp add: kv row_edges_def acc'_def)
    then show ?thesis using Cons.IH[of acc'] Cons.prems unfolding s by simp
  qed
qed

lemma prefix_id_lengths [simp]:
  "length ws = 8 \<Longrightarrow> length i = 16 \<Longrightarrow> length (AssocFwdPrefixForID ws i) = 25"
  "length ws = 8 \<Longrightarrow> length i = 16 \<Longrightarrow> length (AssocRevPrefixForID ws i) = 25"
  by (simp_all add: AssocFwdPrefixForID_def AssocRevPrefixForID_def)

lemma scan_fresh:
  assumes "length p = 25" "iter_ok m lo hi kvs" "\<forall>k. prefix p k \<longrightarrow> lo \<le> k \<and> below k hi"
    "scan_node p accept cap (SeekGE p kvs) [] = (assocs, truncated)"
  shows "assocs = cap_list cap (row_edges accept (node_rows m p)) \<and>
    fresh_entry (row_edges accept (node_rows m p)) (AssocCacheEntry assocs truncated)"
proof -
  have "sorted_wrt (<) (map fst kvs)" using assms(2) by (simp add: iter_ok_def)
  then have r: "takeWhile (\<lambda>kv. prefix p (fst kv)) (SeekGE p kvs) = node_rows m p"
    using seek_rows iter_prefix_rows[OF assms(2,3)] by simp
  have nf: "\<not> (cap > 0 \<and> int (length ([] :: assoc list)) \<ge> cap)" by simp
  note c = arg_cong[where f = fst, OF scan_node_rows[OF assms(1), of accept cap "SeekGE p kvs" "[]"],
      unfolded Let_def if_not_P[OF nf] fst_conv assms(4) r]
  have a: "assocs = cap_list cap (row_edges accept (node_rows m p))" using c by simp
  moreover have "\<not> truncated \<Longrightarrow> assocs = row_edges accept (node_rows m p)"
    using scan_node_complete[OF assms(1), of accept cap "SeekGE p kvs" "[]"] assms(4) by (simp add: r)
  moreover have "\<exists>n. cap_list cap L = take n L" for L :: "assoc list"
    by (auto simp: cap_list_def intro: exI[of _ "length L"])
  ultimately show ?thesis by (auto simp: fresh_entry_def)
qed

section \<open>Fresh caches\<close>

definition caches_fresh :: "('db \<Rightarrow> bytes \<rightharpoonup> bytes) \<Rightarrow> 'db AssocStore \<Rightarrow> bool" where
  "caches_fresh view ps \<longleftrightarrow> (\<forall>ws i e. length ws = 8 \<longrightarrow> length i = 16 \<longrightarrow>
     (ps_assocCache ps (assocCacheKey ws i) = Some e \<longrightarrow> fresh_entry (fwd_edges (view (ps_db ps)) ws i) e) \<and>
     (ps_revAssocCache ps (assocCacheKey ws i) = Some e \<longrightarrow> fresh_entry (rev_edges (view (ps_db ps)) ws i) e))"

text \<open>What the code relies on in the LRU cache: \<open>Add\<close> stores the entry and may drop others.\<close>

definition lru_ok :: "((bytes \<rightharpoonup> AssocCacheEntry) \<Rightarrow> bytes \<Rightarrow> AssocCacheEntry \<Rightarrow> (bytes \<rightharpoonup> AssocCacheEntry)) \<Rightarrow> bool" where
  "lru_ok add \<longleftrightarrow> (\<forall>c k e k' e'. add c k e k' = Some e' \<longrightarrow> k' = k \<and> e' = e \<or> c k' = Some e')"

lemma cache_key_eq: "length ws = 8 \<Longrightarrow> length ws' = 8 \<Longrightarrow> assocCacheKey ws i = assocCacheKey ws' i' \<longleftrightarrow> ws = ws' \<and> i = i'"
  by (simp add: assocCacheKey_def)

lemma fresh_add_fwd:
  assumes "lru_ok (al_lru_add lib)" "caches_fresh view ps" "length ws = 8"
    "fresh_entry (fwd_edges (view (ps_db ps)) ws i) e"
  shows "caches_fresh view (ps\<lparr>ps_assocCache := al_lru_add lib (ps_assocCache ps) (assocCacheKey ws i) e\<rparr>)"
  using assms cache_key_eq unfolding caches_fresh_def lru_ok_def by simp metis

lemma fresh_add_rev:
  assumes "lru_ok (al_lru_add lib)" "caches_fresh view ps" "length ws = 8"
    "fresh_entry (rev_edges (view (ps_db ps)) ws i) e"
  shows "caches_fresh view (ps\<lparr>ps_revAssocCache := al_lru_add lib (ps_revAssocCache ps) (assocCacheKey ws i) e\<rparr>)"
  using assms cache_key_eq unfolding caches_fresh_def lru_ok_def by simp metis

lemma fwd_range: "length ws = 8 \<Longrightarrow> prefix (AssocFwdPrefixForID ws i) k \<Longrightarrow>
    AssocFwdRangeStart ws \<le> k \<and> below k (AssocFwdRangeEnd ws)"
  unfolding AssocFwdRangeEnd_def bound_exact[symmetric]
  by (auto simp: AssocFwdRangeStart_def AssocFwdPrefixForID_def prefix_def)

lemma rev_range: "length ws = 8 \<Longrightarrow> prefix (AssocRevPrefixForID ws i) k \<Longrightarrow>
    AssocRevRangeStart ws \<le> k \<and> below k (AssocRevRangeEnd ws)"
  unfolding AssocRevRangeEnd_def bound_exact[symmetric]
  by (auto simp: AssocRevRangeStart_def AssocRevPrefixForID_def prefix_def)

lemma scan_forward_fresh:
  assumes "lru_ok (al_lru_add lib)" "length ws = 8" "iter_ok (view d) (AssocFwdRangeStart ws) (AssocFwdRangeEnd ws) kvs"
  shows "\<forall>i \<in> set ids. length i = 16 \<Longrightarrow> caches_fresh view ps \<Longrightarrow> ps_db ps = d \<Longrightarrow>
    scan_forward lib ws n kvs ids ps result = (ps', result') \<Longrightarrow>
    caches_fresh view ps' \<and> ps_db ps' = d \<and>
    result' = (\<lambda>i. if i \<in> set ids then Some (cap_list n (fwd_edges (view d) ws i)) else result i)"
proof (induction ids arbitrary: ps result)
  case (Cons i ids)
  let ?p = "AssocFwdPrefixForID ws i"
  obtain assocs truncated where sc: "scan_node ?p (\<lambda>r. True) n (SeekGE ?p kvs) [] = (assocs, truncated)" by fastforce
  have "length ?p = 25" using assms(2) Cons.prems(1) by simp
  from scan_fresh[OF this assms(3) _ sc] fwd_range[OF assms(2)]
  have f: "assocs = cap_list n (fwd_edges (view d) ws i)"
      "fresh_entry (fwd_edges (view d) ws i) (AssocCacheEntry assocs truncated)"
    unfolding fwd_edges_def by blast+
  let ?ps = "ps\<lparr>ps_assocCache := al_lru_add lib (ps_assocCache ps) (assocCacheKey ws i) (AssocCacheEntry assocs truncated)\<rparr>"
  have fresh: "caches_fresh view ?ps" using fresh_add_fwd[OF assms(1) Cons.prems(2) assms(2)] f(2) Cons.prems(3) by simp
  have rec: "scan_forward lib ws n kvs ids ?ps (result(i \<mapsto> assocs)) = (ps', result')"
    using Cons.prems(4) sc by simp
  have "caches_fresh view ps' \<and> ps_db ps' = d \<and> result' = (\<lambda>j. if j \<in> set ids then
      Some (cap_list n (fwd_edges (view d) ws j)) else (result(i \<mapsto> assocs)) j)"
    by (rule Cons.IH[OF _ fresh _ rec]) (use Cons.prems in simp_all)
  then show ?case by (auto simp: fun_eq_iff f(1))
qed auto

lemma scan_reverse_fresh:
  assumes "lru_ok (al_lru_add lib)" "length ws = 8" "iter_ok (view d) (AssocRevRangeStart ws) (AssocRevRangeEnd ws) kvs"
    "cap = n \<or> 0 < n \<and> n \<le> cap"
  shows "\<forall>i \<in> set ids. length i = 16 \<Longrightarrow> caches_fresh view ps \<Longrightarrow> ps_db ps = d \<Longrightarrow>
    scan_reverse lib ws n cap kvs ids ps out = (ps', out') \<Longrightarrow>
    caches_fresh view ps' \<and> ps_db ps' = d \<and>
    out' = (\<lambda>i. if i \<in> set ids then Some (cap_list n (rev_edges (view d) ws i)) else out i)"
proof (induction ids arbitrary: ps out)
  case (Cons i ids)
  let ?p = "AssocRevPrefixForID ws i"
  obtain assocs truncated where sc: "scan_node ?p BidirectionalForRanking cap (SeekGE ?p kvs) [] = (assocs, truncated)"
    by fastforce
  have "length ?p = 25" using assms(2) Cons.prems(1) by simp
  from scan_fresh[OF this assms(3) _ sc] rev_range[OF assms(2)]
  have f: "assocs = cap_list cap (rev_edges (view d) ws i)"
      "fresh_entry (rev_edges (view d) ws i) (AssocCacheEntry assocs truncated)"
    unfolding rev_edges_def by blast+
  have "cap_list n (cap_list cap L) = cap_list n L" for L :: "assoc list"
    using assms(4) by (auto simp: cap_list_def min_def)
  then have c: "cap_list n assocs = cap_list n (rev_edges (view d) ws i)" by (simp add: f(1))
  let ?ps = "ps\<lparr>ps_revAssocCache := al_lru_add lib (ps_revAssocCache ps) (assocCacheKey ws i) (AssocCacheEntry assocs truncated)\<rparr>"
  have fresh: "caches_fresh view ?ps" using fresh_add_rev[OF assms(1) Cons.prems(2) assms(2)] f(2) Cons.prems(3) by simp
  have rec: "scan_reverse lib ws n cap kvs ids ?ps (out(i \<mapsto> cap_list n assocs)) = (ps', out')"
    using Cons.prems(4) sc by simp
  have "caches_fresh view ps' \<and> ps_db ps' = d \<and> out' = (\<lambda>j. if j \<in> set ids then
      Some (cap_list n (rev_edges (view d) ws j)) else (out(i \<mapsto> cap_list n assocs)) j)"
    by (rule Cons.IH[OF _ fresh _ rec]) (use Cons.prems in simp_all)
  then show ?case by (auto simp: fun_eq_iff c)
qed auto

section \<open>The reads\<close>

definition cached_answer :: "(bytes \<rightharpoonup> AssocCacheEntry) \<Rightarrow> bytes \<Rightarrow> int \<Rightarrow> bytes \<Rightarrow> assoc list option" where
  "cached_answer cache ws n i = Option.bind (cache (assocCacheKey ws i)) (cache_answer n)"

lemma serve_cached_eq:
  "serve_cached cache ws n ids result uncached =
    ((\<lambda>i. if i \<in> set ids \<and> cached_answer cache ws n i \<noteq> None then cached_answer cache ws n i else result i),
     uncached @ filter (\<lambda>i. cached_answer cache ws n i = None) ids)"
proof (induction ids arbitrary: result uncached)
  case (Cons i ids)
  then show ?case
    by (cases "cached_answer cache ws n i") (auto simp: cached_answer_def fun_eq_iff)
qed simp

lemma serve_reverse_eq:
  "serve_reverse cache ws n ids out uncached = (out', uncached') \<Longrightarrow>
    set uncached' = set uncached \<union> {i \<in> set ids. out i = None \<and> cached_answer cache ws n i = None} \<and>
    out' = (\<lambda>i. if i \<in> set ids \<and> out i = None
                then Some (case cached_answer cache ws n i of None \<Rightarrow> [] | Some l \<Rightarrow> l) else out i)"
proof (induction ids arbitrary: out uncached)
  case (Cons i ids)
  show ?case
  proof (cases "out i")
    case None
    show ?thesis
    proof (cases "cached_answer cache ws n i")
      case None
      then have rec: "serve_reverse cache ws n ids (out(i \<mapsto> [])) (uncached @ [i]) = (out', uncached')"
        using Cons.prems \<open>out i = None\<close> by (simp add: cached_answer_def)
      note ih = Cons.IH[OF rec]
      have "set uncached' = set uncached \<union> {j \<in> set (i # ids). out j = None \<and> cached_answer cache ws n j = None}"
        using None \<open>out i = None\<close> unfolding conjunct1[OF ih] by auto
      then show ?thesis using conjunct2[OF ih] None \<open>out i = None\<close> by (auto simp: fun_eq_iff)
    next
      case (Some l)
      then have rec: "serve_reverse cache ws n ids (out(i \<mapsto> l)) uncached = (out', uncached')"
        using Cons.prems \<open>out i = None\<close> by (simp add: cached_answer_def)
      note ih = Cons.IH[OF rec]
      have "set uncached' = set uncached \<union> {j \<in> set (i # ids). out j = None \<and> cached_answer cache ws n j = None}"
        using Some \<open>out i = None\<close> unfolding conjunct1[OF ih] by auto
      then show ?thesis using conjunct2[OF ih] Some \<open>out i = None\<close> by (auto simp: fun_eq_iff)
    qed
  next
    case (Some l)
    then show ?thesis using Cons.prems Cons.IH[of out uncached] by (auto simp: fun_eq_iff)
  qed
qed auto

lemma answer_fwd:
  "caches_fresh view ps \<Longrightarrow> length ws = 8 \<Longrightarrow> length i = 16 \<Longrightarrow>
    cached_answer (ps_assocCache ps) ws n i = Some l \<Longrightarrow> l = cap_list n (fwd_edges (view (ps_db ps)) ws i)"
  by (auto simp: cached_answer_def caches_fresh_def bind_eq_Some_conv intro: cache_answer_fresh)

lemma answer_rev:
  "caches_fresh view ps \<Longrightarrow> length ws = 8 \<Longrightarrow> length i = 16 \<Longrightarrow>
    cached_answer (ps_revAssocCache ps) ws n i = Some l \<Longrightarrow> l = cap_list n (rev_edges (view (ps_db ps)) ws i)"
  by (auto simp: cached_answer_def caches_fresh_def bind_eq_Some_conv intro: cache_answer_fresh)

lemma GetAssociations_fresh:
  assumes "pebble_spec (al_pebble lib) view" "lru_ok (al_lru_add lib)" "caches_fresh view ps" "length ws = 8"
    "\<forall>i \<in> set ids. length i = 16" "GetAssociations lib ps None ws ids n = (ps', r)"
  shows "caches_fresh view ps' \<and> ps_db ps' = ps_db ps \<and>
    (\<forall>f. r = Inr f \<longrightarrow> (\<forall>i \<in> set ids. f i = Some (cap_list n (fwd_edges (view (ps_db ps)) ws i))))"
proof -
  let ?ans = "cached_answer (ps_assocCache ps) ws n"
  let ?res = "\<lambda>i. if i \<in> set ids \<and> ?ans i \<noteq> None then ?ans i else None"
  let ?un = "filter (\<lambda>i. ?ans i = None) ids"
  have hit: "?ans i = Some (cap_list n (fwd_edges (view (ps_db ps)) ws i))" if "i \<in> set ids" "?ans i \<noteq> None" for i
    using answer_fwd[OF assms(3,4), of i n] assms(5) that by auto
  have eq: "GetAssociations lib ps None ws ids n =
      (if ?un = [] then (ps, Inr ?res)
       else case pb_iter (al_pebble lib) (ps_db ps) (AssocFwdRangeStart ws) (AssocFwdRangeEnd ws) of
          Inl e \<Rightarrow> (ps, Inl e)
        | Inr kvs \<Rightarrow> (case scan_forward lib ws n kvs (sort ?un) ps ?res of (ps', result') \<Rightarrow> (ps', Inr result')))"
    by (simp only: GetAssociations_def serve_cached_eq prod.case append_Nil pebbleReader_def option.case)
  show ?thesis
  proof (cases "?un = []")
    case True
    then have "r = Inr ?res" "ps' = ps" using assms(6) eq by auto
    then show ?thesis using True hit assms(3) by (auto simp: filter_empty_conv)
  next
    case False
    show ?thesis
    proof (cases "pb_iter (al_pebble lib) (ps_db ps) (AssocFwdRangeStart ws) (AssocFwdRangeEnd ws)")
      case (Inl e)
      then show ?thesis using assms(3,6) eq False by auto
    next
      case (Inr kvs)
      obtain res where sc: "scan_forward lib ws n kvs (sort ?un) ps ?res = (ps', res)" "r = Inr res"
        using assms(6) eq False Inr by (cases "scan_forward lib ws n kvs (sort ?un) ps ?res") auto
      have "caches_fresh view ps' \<and> ps_db ps' = ps_db ps \<and> res =
          (\<lambda>i. if i \<in> set (sort ?un) then Some (cap_list n (fwd_edges (view (ps_db ps)) ws i)) else ?res i)"
        by (rule scan_forward_fresh[OF assms(2,4) spec_iter[OF assms(1) Inr] _ assms(3) refl sc(1)])
          (use assms(5) in simp)
      then show ?thesis using hit sc(2) by auto
    qed
  qed
qed

lemma rankingReverseEdges_fresh:
  assumes "pebble_spec (al_pebble lib) view" "lru_ok (al_lru_add lib)" "caches_fresh view ps" "length ws = 8"
    "\<forall>i \<in> set ids. length i = 16" "rankingReverseEdges lib ps None ws ids n = (ps', r)"
  shows "caches_fresh view ps' \<and> ps_db ps' = ps_db ps \<and>
    (\<forall>f. r = Inr f \<longrightarrow> (\<forall>i \<in> set ids. f i = Some (cap_list n (rev_edges (view (ps_db ps)) ws i))))"
proof (cases "ids = []")
  case True
  then show ?thesis using assms(3,6) by (auto simp: rankingReverseEdges_def pebbleReader_def)
next
  case ne: False
  let ?ans = "cached_answer (ps_revAssocCache ps) ws n"
  let ?cap = "if n \<le> 0 \<or> n > revAssocScanCap then n else revAssocScanCap"
  obtain out un where so: "serve_reverse (ps_revAssocCache ps) ws n ids Map.empty [] = (out, un)" by fastforce
  have un: "set un = {i \<in> set ids. ?ans i = None}"
      "out = (\<lambda>i. if i \<in> set ids then Some (case ?ans i of None \<Rightarrow> [] | Some l \<Rightarrow> l) else None)"
    using serve_reverse_eq[OF so] by auto
  have hit: "out i = Some (cap_list n (rev_edges (view (ps_db ps)) ws i))" if "i \<in> set ids" "?ans i \<noteq> None" for i
    using answer_rev[OF assms(3,4), of i n] assms(5) that un(2) by auto
  show ?thesis
  proof (cases "un = []")
    case True
    then have "r = Inr out" "ps' = ps" using assms(6) ne so by (auto simp: rankingReverseEdges_def pebbleReader_def)
    then show ?thesis using True hit assms(3) un(1) by auto
  next
    case False
    show ?thesis
    proof (cases "pb_iter (al_pebble lib) (ps_db ps) (AssocRevRangeStart ws) (AssocRevRangeEnd ws)")
      case (Inl e)
      then show ?thesis using assms(3,6) ne so False by (auto simp: rankingReverseEdges_def pebbleReader_def)
    next
      case (Inr kvs)
      obtain res where sc: "scan_reverse lib ws n ?cap kvs (sort un) ps out = (ps', res)" "r = Inr res"
        using assms(6) ne so False Inr
        by (cases "scan_reverse lib ws n ?cap kvs (sort un) ps out") (auto simp: rankingReverseEdges_def pebbleReader_def Let_def)
      have "caches_fresh view ps' \<and> ps_db ps' = ps_db ps \<and> res =
          (\<lambda>i. if i \<in> set (sort un) then Some (cap_list n (rev_edges (view (ps_db ps)) ws i)) else out i)"
        by (rule scan_reverse_fresh[OF assms(2,4) spec_iter[OF assms(1) Inr] _ _ assms(3) refl sc(1)])
          (use assms(5) un(1) in auto)
      then show ?thesis using hit sc(2) un(1) by auto
    qed
  qed
qed

lemma scan_one_node:
  "(\<forall>kv \<in> set kvs. prefix p (fst kv)) \<Longrightarrow> length p = 25 \<Longrightarrow>
    scan_one n kvs acc = scan_node p (\<lambda>r. True) n kvs acc"
proof (induction kvs arbitrary: acc)
  case (Cons kv kvs)
  obtain k v where kv: "kv = (k, v)" by (cases kv)
  have "\<not> (length k < 25 \<or> take 25 k \<noteq> p)" using Cons.prems take_prefix[of p k] by (simp add: kv)
  then show ?case using Cons by (auto simp: kv)
qed simp

lemma associationsForOne_fresh:
  assumes "pebble_spec (al_pebble lib) view" "lru_ok (al_lru_add lib)" "caches_fresh view ps" "length ws = 8"
    "length i = 16" "associationsForOne lib ps ws i n = (ps', r)"
  shows "caches_fresh view ps' \<and> ps_db ps' = ps_db ps \<and>
    (\<forall>l. r = Inr l \<longrightarrow> l = cap_list n (fwd_edges (view (ps_db ps)) ws i))"
proof -
  let ?p = "AssocFwdPrefixForID ws i"
  have p: "take 25 (AssocFwdKey (al_nanw lib) ws i 0x3F800000 (replicate 16 0)) = ?p"
    using assms(4,5) by (simp add: AssocFwdKey_def AssocFwdPrefixForID_def)
  show ?thesis
  proof (cases "cached_answer (ps_assocCache ps) ws n i")
    case (Some l)
    then show ?thesis
      using assms(3,6) answer_fwd[OF assms(3-5) Some] by (auto simp: associationsForOne_def cached_answer_def Let_def)
  next
    case None
    show ?thesis
    proof (cases "pb_iter (al_pebble lib) (ps_db ps) ?p (PrefixUpperBound ?p)")
      case (Inl e)
      then show ?thesis using assms(3,6) None by (auto simp: associationsForOne_def cached_answer_def Let_def p)
    next
      case (Inr kvs)
      note it = spec_iter[OF assms(1) Inr]
      have pre: "\<forall>kv \<in> set kvs. prefix ?p (fst kv)"
        using it bound_exact[of ?p] by (auto simp: iter_ok_def)
      have ge: "SeekGE ?p kvs = kvs"
        using it by (cases kvs) (auto simp: SeekGE_def iter_ok_def not_less[symmetric])
      obtain assocs truncated where sc: "scan_node ?p (\<lambda>r. True) n (SeekGE ?p kvs) [] = (assocs, truncated)"
        by fastforce
      have l25: "length ?p = 25" using assms(4,5) by simp
      have "\<forall>k. prefix ?p k \<longrightarrow> ?p \<le> k \<and> below k (PrefixUpperBound ?p)" using bound_exact by blast
      from scan_fresh[OF l25 it this sc]
      have f: "assocs = cap_list n (fwd_edges (view (ps_db ps)) ws i)"
          "fresh_entry (fwd_edges (view (ps_db ps)) ws i) (AssocCacheEntry assocs truncated)"
        unfolding fwd_edges_def by blast+
      have "scan_one n kvs [] = (assocs, truncated)" using scan_one_node[OF pre l25, of n "[]"] sc ge by simp
      then have "ps' = ps\<lparr>ps_assocCache := al_lru_add lib (ps_assocCache ps) (assocCacheKey ws i)
            (AssocCacheEntry assocs truncated)\<rparr>" "r = Inr assocs"
        using assms(6) None Inr by (auto simp: associationsForOne_def cached_answer_def Let_def p)
      then show ?thesis using fresh_add_fwd[OF assms(2,3,4) f(2)] f(1) by simp
    qed
  qed
qed

section \<open>The writes\<close>

text \<open>A write that leaves every list outside the dropped cache entries as it is keeps the caches fresh.\<close>

lemma fwd_edges_local: "(\<forall>k. prefix (AssocFwdPrefixForID ws i) k \<longrightarrow> m k = m' k) \<Longrightarrow> fwd_edges m ws i = fwd_edges m' ws i"
  unfolding fwd_edges_def using node_rows_local by metis

lemma rev_edges_local: "(\<forall>k. prefix (AssocRevPrefixForID ws i) k \<longrightarrow> m k = m' k) \<Longrightarrow> rev_edges m ws i = rev_edges m' ws i"
  unfolding rev_edges_def using node_rows_local by metis

lemma fwd_prefix_pair:
  assumes "ids_ok ws a b" "length ws' = 8" "length i = 16" "prefix (AssocFwdPrefixForID ws' i) k" "k \<in> pair_keys ws a b"
  shows "ws' = ws \<and> i = a"
  using assms by (auto simp: pair_keys_def prefix_def AssocFwdPrefixForID_def fwd_key_def rev_key_def
      AssocWeightIndexKey_def ids_ok_def pfx_AssocFwd_def pfx_AssocRev_def pfx_AssocWeightIndex_def)

lemma rev_prefix_pair:
  assumes "ids_ok ws a b" "length ws' = 8" "length i = 16" "prefix (AssocRevPrefixForID ws' i) k" "k \<in> pair_keys ws a b"
  shows "ws' = ws \<and> i = b"
  using assms by (auto simp: pair_keys_def prefix_def AssocRevPrefixForID_def fwd_key_def rev_key_def
      AssocWeightIndexKey_def ids_ok_def pfx_AssocFwd_def pfx_AssocRev_def pfx_AssocWeightIndex_def)

lemma prefix_not_mark:
  "prefix (AssocFwdPrefixForID ws' i) k \<Longrightarrow> k \<noteq> DeclaredContradictionMarkKey ws"
  "prefix (AssocRevPrefixForID ws' i) k \<Longrightarrow> k \<noteq> DeclaredContradictionMarkKey ws"
  by (auto simp: prefix_def AssocFwdPrefixForID_def AssocRevPrefixForID_def DeclaredContradictionMarkKey_def
      pfx_AssocFwd_def pfx_AssocRev_def pfx_DeclaredContradictionMark_def)

text \<open>\<open>P\<close> are the pairs a write may touch; the caches keep the lists of no source and no target of them.\<close>

definition pairs_ok :: "(bytes \<times> bytes \<times> bytes) set \<Rightarrow> bool" where
  "pairs_ok P \<longleftrightarrow> (\<forall>(ws, a, b) \<in> P. ids_ok ws a b)"

lemma fresh_write:
  assumes "caches_fresh view ps" "pairs_ok P"
    "\<forall>k. (\<forall>(ws, a, b) \<in> P. k \<notin> pair_keys ws a b) \<longrightarrow> (\<forall>ws. k \<noteq> DeclaredContradictionMarkKey ws) \<longrightarrow>
       view (ps_db ps') k = view (ps_db ps) k"
    "\<forall>k. ps_assocCache ps' k = (if k \<in> (\<lambda>(ws, a, b). assocCacheKey ws a) ` P then None else ps_assocCache ps k)"
    "\<forall>k. ps_revAssocCache ps' k = (if k \<in> (\<lambda>(ws, a, b). assocCacheKey ws b) ` P then None else ps_revAssocCache ps k)"
  shows "caches_fresh view ps'"
  unfolding caches_fresh_def
proof (intro allI impI conjI)
  fix ws i :: bytes and e
  assume l: "length ws = 8" "length i = 16"
  {
    assume e: "ps_assocCache ps' (assocCacheKey ws i) = Some e"
    then have no: "(ws, i, b) \<notin> P" for b using assms(4) by (force split: if_splits)
    have "view (ps_db ps') k = view (ps_db ps) k" if "prefix (AssocFwdPrefixForID ws i) k" for k
    proof -
      have "\<forall>(ws', a, b) \<in> P. k \<notin> pair_keys ws' a b"
        using no assms(2) fwd_prefix_pair[OF _ l that] by (fastforce simp: pairs_ok_def)
      then show ?thesis using assms(3) prefix_not_mark(1)[OF that] by blast
    qed
    then have "fwd_edges (view (ps_db ps')) ws i = fwd_edges (view (ps_db ps)) ws i" by (intro fwd_edges_local) simp
    moreover have "ps_assocCache ps (assocCacheKey ws i) = Some e" using e assms(4) by (auto split: if_splits)
    ultimately show "fresh_entry (fwd_edges (view (ps_db ps')) ws i) e" using assms(1) l by (simp add: caches_fresh_def)
  }
  {
    assume e: "ps_revAssocCache ps' (assocCacheKey ws i) = Some e"
    then have no: "(ws, a, i) \<notin> P" for a using assms(5) by (force split: if_splits)
    have "view (ps_db ps') k = view (ps_db ps) k" if "prefix (AssocRevPrefixForID ws i) k" for k
    proof -
      have "\<forall>(ws', a, b) \<in> P. k \<notin> pair_keys ws' a b"
        using no assms(2) rev_prefix_pair[OF _ l that] by (fastforce simp: pairs_ok_def)
      then show ?thesis using assms(3) prefix_not_mark(2)[OF that] by blast
    qed
    then have "rev_edges (view (ps_db ps')) ws i = rev_edges (view (ps_db ps)) ws i" by (intro rev_edges_local) simp
    moreover have "ps_revAssocCache ps (assocCacheKey ws i) = Some e" using e assms(5) by (auto split: if_splits)
    ultimately show "fresh_entry (rev_edges (view (ps_db ps')) ws i) e" using assms(1) l by (simp add: caches_fresh_def)
  }
qed

definition same_lists :: "'db AssocStore \<Rightarrow> 'db AssocStore \<Rightarrow> bool" where
  "same_lists ps ps' \<longleftrightarrow> ps_db ps' = ps_db ps \<and> ps_assocCache ps' = ps_assocCache ps \<and>
     ps_revAssocCache ps' = ps_revAssocCache ps"

lemma fresh_same: "caches_fresh view ps \<Longrightarrow> same_lists ps ps' \<Longrightarrow> caches_fresh view ps'"
  by (simp add: caches_fresh_def same_lists_def)

lemma guard_same: "checkEndpointsLive lib ps ws a b = (ps', r) \<Longrightarrow> same_lists ps ps'"
  by (auto simp: checkEndpointsLive_def engramExists_def same_lists_def Let_def
      split: get_result.splits if_splits prod.splits)

lemma update_ops_keys:
  assumes "update_ops lib ps ws a b w n now = Inr ops"
  shows "point_ops ops \<and> op_keys ops \<subseteq> pair_keys ws a b"
proof -
  obtain w0 v where "ops = (if f32_less 0 w0 then edge_deletes (al_nanw lib) ws a b w0 else []) @
      edge_sets (al_nanw lib) ws a b w v"
    using assms by (auto simp: update_ops_def Let_def split: sum.splits)
  then show ?thesis
    using edge_sets_keys[of "al_nanw lib" ws a b w v] edge_deletes_keys[of "al_nanw lib" ws a b w0]
    by (auto simp: op_keys_def)
qed

lemma mark_keys: "op_keys (MarkDeclaredContradictionInBatch ws r) \<subseteq> {DeclaredContradictionMarkKey ws}"
  by (auto simp: op_keys_def MarkDeclaredContradictionInBatch_def)

text \<open>A commit of keys of the pairs \<open>P\<close>, after which their lists are dropped.\<close>

lemma fresh_commit:
  assumes "pebble_spec (al_pebble lib) view" "caches_fresh view ps" "pairs_ok P"
    "pb_commit (al_pebble lib) (ps_db ps) batch = Inr db'" "point_ops batch"
    "op_keys batch \<subseteq> (\<Union>(ws, a, b) \<in> P. pair_keys ws a b) \<union> range DeclaredContradictionMarkKey"
    "ps_db ps' = db'"
    "\<forall>k. ps_assocCache ps' k = (if k \<in> (\<lambda>(ws, a, b). assocCacheKey ws a) ` P then None else ps_assocCache ps k)"
    "\<forall>k. ps_revAssocCache ps' k = (if k \<in> (\<lambda>(ws, a, b). assocCacheKey ws b) ` P then None else ps_revAssocCache ps k)"
  shows "caches_fresh view ps'"
proof (rule fresh_write[OF assms(2,3) _ assms(8,9)], intro allI impI)
  fix k
  assume "\<forall>(ws, a, b) \<in> P. k \<notin> pair_keys ws a b" "\<forall>ws. k \<noteq> DeclaredContradictionMarkKey ws"
  then have "k \<notin> op_keys batch" using assms(6) by fastforce
  then show "view (ps_db ps') k = view (ps_db ps) k"
    by (simp add: assms(7) spec_commit[OF assms(1,4)] apply_batch_outside[OF assms(5)])
qed

text \<open>A write that changes anything commits one batch, counts the write and drops the two lists.\<close>

lemma WriteAssociation_cases:
  assumes "WriteAssociation lib ps ws a b assoc = (ps', r)"
  obtains (same) "same_lists ps ps'"
  | (written) ps1 val batch db' where "same_lists ps ps1"
      "val = encodeAssocValue (as_RelType assoc) (as_Confidence assoc) (as_CreatedAt assoc) (as_LastActivated assoc)
         (as_Weight assoc) 1"
      "batch = edge_sets (al_nanw lib) ws a b (as_Weight assoc) val @ MarkDeclaredContradictionInBatch ws (as_RelType assoc)"
      "pb_commit (al_pebble lib) (ps_db ps1) batch = Inr db'"
      "ps' = forget_lists ws a b (replicateBatch batch (noteContradictsWrite ws (as_RelType assoc) (ps1\<lparr>ps_db := db'\<rparr>)))"
proof -
  obtain ps1 g where g: "checkEndpointsLive lib ps ws a b = (ps1, g)" by fastforce
  define val where "val = encodeAssocValue (as_RelType assoc) (as_Confidence assoc) (as_CreatedAt assoc)
      (as_LastActivated assoc) (as_Weight assoc) 1"
  define batch where "batch = edge_sets (al_nanw lib) ws a b (as_Weight assoc) val @
      MarkDeclaredContradictionInBatch ws (as_RelType assoc)"
  show thesis
  proof (cases "g = None \<and> checkRelTypeCollision lib ps1 ws a (as_Weight assoc) b (as_RelType assoc) = None")
    case False
    then have "ps' = ps1" using assms g by (cases g) (auto simp: WriteAssociation_def)
    then show thesis using guard_same[OF g] by (intro that(1)) simp
  next
    case True
    then have w: "writeAssociationUnguarded lib ps1 ws a b assoc = (ps', r)"
      using assms g by (simp add: WriteAssociation_def)
    show thesis
    proof (cases "pb_commit (al_pebble lib) (ps_db ps1) batch")
      case (Inl e)
      then have "ps' = ps1" using w by (simp add: writeAssociationUnguarded_def Let_def val_def batch_def)
      then show thesis using guard_same[OF g] by (intro that(1)) simp
    next
      case (Inr db')
      then show thesis using w
        by (intro that(2)[OF guard_same[OF g] val_def batch_def Inr])
          (simp add: writeAssociationUnguarded_def Let_def val_def batch_def)
    qed
  qed
qed

lemma WriteAssociation_fresh:
  assumes "pebble_spec (al_pebble lib) view" "caches_fresh view ps" "ids_ok ws a b"
    "WriteAssociation lib ps ws a b assoc = (ps', r)"
  shows "caches_fresh view ps'"
  using assms(4)
proof (cases rule: WriteAssociation_cases)
  case same
  then show ?thesis by (rule fresh_same[OF assms(2)])
next
  case (written ps1 val batch db')
  have keys: "op_keys batch \<subseteq> (\<Union>(ws, a, b) \<in> {(ws, a, b)}. pair_keys ws a b) \<union> range DeclaredContradictionMarkKey"
    using edge_sets_keys[of "al_nanw lib" ws a b "as_Weight assoc" val] mark_keys[of ws "as_RelType assoc"]
    by (auto simp: written(3))
  have "pairs_ok {(ws, a, b)}" "point_ops batch" using assms(3) by (simp_all add: pairs_ok_def written(3))
  then show ?thesis
    by (rule fresh_commit[OF assms(1) fresh_same[OF assms(2) written(1)] _ written(4) _ keys])
      (auto simp: written(5) forget_lists_def replicateBatch_def noteContradictsWrite_def split: option.split)
qed

lemma UpdateAssocWeight_cases:
  assumes "UpdateAssocWeight lib ps ws a b w n now = (ps', r)"
  obtains (same) "same_lists ps ps'"
  | (written) ps1 ops db' where "same_lists ps ps1" "update_ops lib ps1 ws a b w n (int32 now) = Inr ops"
      "pb_commit (al_pebble lib) (ps_db ps1) ops = Inr db'"
      "ps' = forget_lists ws a b (replicateBatch ops (ps1\<lparr>ps_db := db'\<rparr>))"
proof -
  obtain ps1 g where g: "checkEndpointsLive lib ps ws a b = (ps1, g)" by fastforce
  show thesis
  proof (cases "g = None")
    case False
    then have "ps' = ps1" using assms g by (auto simp: UpdateAssocWeight_def)
    then show thesis using guard_same[OF g] by (intro that(1)) simp
  next
    case True
    show thesis
    proof (cases "update_ops lib ps1 ws a b w n (int32 now)")
      case (Inl e)
      then have "ps' = ps1" using assms g True by (simp add: UpdateAssocWeight_def)
      then show thesis using guard_same[OF g] by (intro that(1)) simp
    next
      case ops: (Inr ops)
      show thesis
      proof (cases "pb_commit (al_pebble lib) (ps_db ps1) ops")
        case (Inl e)
        then have "ps' = ps1" using assms g True ops by (simp add: UpdateAssocWeight_def)
        then show thesis using guard_same[OF g] by (intro that(1)) simp
      next
        case (Inr db')
        then show thesis using assms g True ops
          by (intro that(2)[OF guard_same[OF g] ops Inr]) (simp add: UpdateAssocWeight_def)
      qed
    qed
  qed
qed

lemma UpdateAssocWeight_fresh:
  assumes "pebble_spec (al_pebble lib) view" "caches_fresh view ps" "ids_ok ws a b"
    "UpdateAssocWeight lib ps ws a b w n now = (ps', r)"
  shows "caches_fresh view ps'"
  using assms(4)
proof (cases rule: UpdateAssocWeight_cases)
  case same
  then show ?thesis by (rule fresh_same[OF assms(2)])
next
  case (written ps1 ops db')
  have keys: "op_keys ops \<subseteq> (\<Union>(ws, a, b) \<in> {(ws, a, b)}. pair_keys ws a b) \<union> range DeclaredContradictionMarkKey"
    using update_ops_keys[OF written(2)] by auto
  have "pairs_ok {(ws, a, b)}" "point_ops ops"
    using assms(3) update_ops_keys[OF written(2)] by (simp_all add: pairs_ok_def)
  then show ?thesis
    by (rule fresh_commit[OF assms(1) fresh_same[OF assms(2) written(1)] _ written(3) _ keys])
      (auto simp: written(4) forget_lists_def replicateBatch_def split: option.split)
qed

lemma batch_fold_keys:
  assumes "fold (\<lambda>(i, u). batch_turn lib now i u) (enumerate k us) (ps, batch, skipped, applied) = (ps', batch', s', n')"
    "point_ops batch"
  shows "same_lists ps ps' \<and> point_ops batch' \<and> op_keys batch' \<subseteq> op_keys batch \<union> (\<Union>u \<in> set us. wu_keys u)"
  using assms
proof (induction us arbitrary: k ps batch skipped applied)
  case Nil
  then show ?case by (simp add: same_lists_def)
next
  case (Cons u us)
  obtain ps1 b1 s1 n1 where t: "batch_turn lib now k u (ps, batch, skipped, applied) = (ps1, b1, s1, n1)"
    by (metis prod_cases4)
  have "same_lists ps ps1 \<and> point_ops b1 \<and> op_keys b1 \<subseteq> op_keys batch \<union> wu_keys u"
    using t Cons.prems(2) guard_same[of lib ps "wu_WS u" "wu_Src u" "wu_Dst u"]
      update_ops_keys[of lib _ "wu_WS u" "wu_Src u" "wu_Dst u"]
    by (fastforce simp: batch_turn_def wu_keys_def split: prod.splits option.splits sum.splits)
  moreover have "same_lists ps1 ps' \<and> point_ops batch' \<and> op_keys batch' \<subseteq> op_keys b1 \<union> (\<Union>u \<in> set us. wu_keys u)"
    using Cons.IH[of "Suc k" ps1 b1 s1 n1] Cons.prems(1) t calculation by simp
  ultimately show ?case by (auto simp: same_lists_def)
qed

lemma fold_forget_caches:
  "ps_assocCache (fold (\<lambda>u. forget_lists (wu_WS u) (wu_Src u) (wu_Dst u)) us ps) k =
     (if k \<in> (\<lambda>(ws, a, b). assocCacheKey ws a) ` wu_pair ` set us then None else ps_assocCache ps k)"
  "ps_revAssocCache (fold (\<lambda>u. forget_lists (wu_WS u) (wu_Src u) (wu_Dst u)) us ps) k =
     (if k \<in> (\<lambda>(ws, a, b). assocCacheKey ws b) ` wu_pair ` set us then None else ps_revAssocCache ps k)"
  by (induction us arbitrary: ps) (auto simp: forget_lists_def wu_pair_def)

lemma UpdateAssocWeightBatch_fresh:
  assumes "pebble_spec (al_pebble lib) view" "caches_fresh view ps" "pairs_ok (wu_pair ` set us)"
    "UpdateAssocWeightBatch lib ps us now = (ps', r)"
  shows "caches_fresh view ps'"
proof -
  obtain ps1 batch s n where t: "fold (\<lambda>(i, u). batch_turn lib (int32 now) i u) (enumerate 0 us) (ps, [], [], 0) =
      (ps1, batch, s, n)"
    by (metis prod_cases4)
  have k: "same_lists ps ps1" "point_ops batch" "op_keys batch \<subseteq> (\<Union>u \<in> set us. wu_keys u)"
    using batch_fold_keys[OF t] by (auto simp: op_keys_def)
  note f1 = fresh_same[OF assms(2) k(1)]
  consider (same) "ps' = ps1" | (written) db' where "pb_commit (al_pebble lib) (ps_db ps1) batch = Inr db'"
      "ps' = fold (\<lambda>u. forget_lists (wu_WS u) (wu_Src u) (wu_Dst u)) us (replicateBatch batch (ps1\<lparr>ps_db := db'\<rparr>))"
  proof (cases "pb_commit (al_pebble lib) (ps_db ps1) batch")
    case (Inl e)
    then have "ps' = ps1" using assms(4) t by (simp add: UpdateAssocWeightBatch_def)
    then show thesis by (rule that(1))
  next
    case (Inr db')
    then show thesis using assms(4) t by (intro that(2)[OF Inr]) (simp add: UpdateAssocWeightBatch_def)
  qed
  then show ?thesis
  proof cases
    case same
    then show ?thesis using f1 by simp
  next
    case written
    have "op_keys batch \<subseteq> (\<Union>(ws, a, b) \<in> wu_pair ` set us. pair_keys ws a b) \<union> range DeclaredContradictionMarkKey"
      using k(3) by (auto simp: wu_keys_def wu_pair_def)
    moreover have "ps_db ps' = db'" by (simp add: written(2) fold_forget_db)
    moreover have "ps_assocCache (replicateBatch batch (ps1\<lparr>ps_db := db'\<rparr>)) = ps_assocCache ps1"
        "ps_revAssocCache (replicateBatch batch (ps1\<lparr>ps_db := db'\<rparr>)) = ps_revAssocCache ps1"
      by (simp_all add: replicateBatch_def split: option.split)
    ultimately show ?thesis
      by (intro fresh_commit[OF assms(1) f1 assms(3) written(1) k(2)]) (simp_all only: written(2) fold_forget_caches refl simp_thms)
  qed
qed

section \<open>The lists are by descending weight\<close>

lemma append_less_mono: "x < y \<Longrightarrow> p @ x < p @ (y :: bytes)"
  by (induction p) auto

lemma sub_split: "length k \<ge> 45 \<Longrightarrow> prefix p k \<Longrightarrow> length p = 25 \<Longrightarrow> k = p @ sub k 25 4 @ drop 29 k"
  unfolding prefix_def sub_def by auto

lemma key_weight_order:
  assumes "length p = 25" "prefix p k" "prefix p k'" "length k \<ge> 45" "length k' \<ge> 45" "k \<le> k'"
  shows "f32_geq (WeightFromComplement (sub k 25 4)) (WeightFromComplement (sub k' 25 4))"
proof -
  have l: "length (sub k 25 4) = 4" "length (sub k' 25 4) = 4" using assms(4,5) by (simp_all add: sub_def)
  have "\<not> sub k' 25 4 < sub k 25 4"
  proof
    assume "sub k' 25 4 < sub k 25 4"
    then have "p @ sub k' 25 4 < p @ sub k 25 4" by (rule append_less_mono)
    moreover have "length (p @ sub k' 25 4) = length (p @ sub k 25 4)" by (simp only: length_append l)
    ultimately have "(p @ sub k' 25 4) @ drop 29 k' < (p @ sub k 25 4) @ drop 29 k"
      using append_less[of "p @ sub k' 25 4" "p @ sub k 25 4"] by blast
    then have "k' < k" using sub_split[OF assms(4,2,1)] sub_split[OF assms(5,3,1)] by simp
    then show False using assms(6) by simp
  qed
  then have "be_val (sub k 25 4) \<le> be_val (sub k' 25 4)" using bytes_less_be_val[of "sub k' 25 4" "sub k 25 4"] l by simp
  moreover have "be_val x < 2 ^ 32" if "length x = 4" for x
    using be_val_bound[of x] that by simp
  ultimately have "Uint32 (sub k 25 4) \<le> Uint32 (sub k' 25 4)"
    using l by (simp add: Uint32_def word_le_nat_alt unat_of_nat)
  then show ?thesis unfolding WeightFromComplement_def Let_def by (rule complement_weight_le)
qed

lemma row_edges_ranked:
  assumes "length p = 25"
  shows "ranked (row_edges accept (node_rows m p))"
proof -
  let ?ks = "sorted_list_of_set {k. prefix p k \<and> m k \<noteq> None}"
  let ?rows = "filter (is_edge accept) (node_rows m p)"
  have "sorted_wrt (<) ?ks" by (simp add: strict_sorted_iff)
  then have "sorted_wrt (\<lambda>x y. fst x < fst y) (node_rows m p)" by (simp add: node_rows_def sorted_wrt_map)
  then have s: "sorted_wrt (\<lambda>x y. fst x < fst y) ?rows" by (rule sorted_wrt_filter)
  have r: "prefix p (fst x) \<and> length (fst x) \<ge> 45" if "x \<in> set ?rows" for x
  proof (cases "finite {k. prefix p k \<and> m k \<noteq> None}")
    case True
    then show ?thesis using that by (auto simp: node_rows_def is_edge_def)
  next
    case False
    then show ?thesis using that by (simp add: node_rows_def)
  qed
  have o: "heavier (assoc_of_row (fst x) (snd x)) (assoc_of_row (fst y) (snd y))"
    if "x \<in> set ?rows" "y \<in> set ?rows" "fst x \<le> fst y" for x y
    using key_weight_order[OF assms] r[OF that(1)] r[OF that(2)] that(3) by (simp add: assoc_of_row_def Let_def)
  have "sorted_wrt (\<lambda>x y. heavier (assoc_of_row (fst x) (snd x)) (assoc_of_row (fst y) (snd y))) ?rows"
    by (rule sorted_wrt_mono_rel[OF _ s]) (simp add: o)
  moreover have "\<not> f32_nan (as_Weight (assoc_of_row (fst x) (snd x)))" if "x \<in> set ?rows" for x
    using o[OF that that] by (simp add: f32_geq_def)
  ultimately show ?thesis by (auto simp: ranked_def row_edges_def split_beta sorted_wrt_map)
qed

section \<open>Every reachable store\<close>

inductive assoc_reach :: "'db AssocLib \<Rightarrow> 'db AssocStore \<Rightarrow> bool" for lib where
  reach_open: "ps_assocCache ps = Map.empty \<Longrightarrow> ps_revAssocCache ps = Map.empty \<Longrightarrow> assoc_reach lib ps"
| reach_write: "assoc_reach lib ps \<Longrightarrow> ids_ok ws a b \<Longrightarrow> WriteAssociation lib ps ws a b assoc = (ps', r) \<Longrightarrow>
    assoc_reach lib ps'"
| reach_update: "assoc_reach lib ps \<Longrightarrow> ids_ok ws a b \<Longrightarrow> UpdateAssocWeight lib ps ws a b w n now = (ps', r) \<Longrightarrow>
    assoc_reach lib ps'"
| reach_batch: "assoc_reach lib ps \<Longrightarrow> pairs_ok (wu_pair ` set us) \<Longrightarrow>
    UpdateAssocWeightBatch lib ps us now = (ps', br) \<Longrightarrow> assoc_reach lib ps'"
| reach_lists: "assoc_reach lib ps \<Longrightarrow> length ws = 8 \<Longrightarrow> \<forall>i \<in> set ids. length i = 16 \<Longrightarrow>
    GetAssociations lib ps None ws ids m = (ps', rl) \<Longrightarrow> assoc_reach lib ps'"
| reach_one: "assoc_reach lib ps \<Longrightarrow> length ws = 8 \<Longrightarrow> length i = 16 \<Longrightarrow>
    associationsForOne lib ps ws i m = (ps', ro) \<Longrightarrow> assoc_reach lib ps'"
| reach_rank: "assoc_reach lib ps \<Longrightarrow> length ws = 8 \<Longrightarrow> \<forall>i \<in> set ids. length i = 16 \<Longrightarrow>
    GetRankingNeighbors lib ps None ws ids m = (ps', rl) \<Longrightarrow> assoc_reach lib ps'"
| reach_expire: "assoc_reach lib ps \<Longrightarrow> fwd \<subseteq>\<^sub>m ps_assocCache ps \<Longrightarrow> bwd \<subseteq>\<^sub>m ps_revAssocCache ps \<Longrightarrow>
    assoc_reach lib (ps\<lparr>ps_assocCache := fwd, ps_revAssocCache := bwd\<rparr>)"

lemma GetRankingNeighbors_fresh:
  assumes "pebble_spec (al_pebble lib) view" "lru_ok (al_lru_add lib)" "caches_fresh view ps" "length ws = 8"
    "\<forall>i \<in> set ids. length i = 16" "GetRankingNeighbors lib ps None ws ids n = (ps', r)"
  shows "caches_fresh view ps' \<and> ps_db ps' = ps_db ps \<and>
    (\<forall>f. r = Inr f \<longrightarrow> (\<forall>i \<in> set ids. f i =
       Some (mergeRankingNeighbors (cap_list n (fwd_edges (view (ps_db ps)) ws i))
               (cap_list n (rev_edges (view (ps_db ps)) ws i)) n)))"
proof -
  obtain ps1 r1 where g: "GetAssociations lib ps None ws ids n = (ps1, r1)" by fastforce
  note f1 = GetAssociations_fresh[OF assms(1-5) g]
  then have c1: "caches_fresh view ps1" by simp
  show ?thesis
  proof (cases r1)
    case (Inl e)
    then show ?thesis using assms(6) g f1 by (auto simp: GetRankingNeighbors_def)
  next
    case (Inr fwd)
    obtain ps2 r2 where v: "rankingReverseEdges lib ps1 None ws ids n = (ps2, r2)" by fastforce
    note f2 = rankingReverseEdges_fresh[OF assms(1,2) c1 assms(4,5) v]
    show ?thesis
    proof (cases r2)
      case (Inl e)
      then show ?thesis using assms(6) g f1 f2 v Inr by (auto simp: GetRankingNeighbors_def)
    next
      case (Inr rv)
      then show ?thesis
        using assms(6) g f1 f2 v \<open>r1 = Inr fwd\<close> by (auto simp: GetRankingNeighbors_def the_list_def)
    qed
  qed
qed

lemma reach_fresh:
  assumes "pebble_spec (al_pebble lib) view" "lru_ok (al_lru_add lib)"
  shows "assoc_reach lib ps \<Longrightarrow> caches_fresh view ps"
proof (induction rule: assoc_reach.induct)
  case (reach_open ps)
  then show ?case by (simp add: caches_fresh_def)
next
  case (reach_expire ps fwd bwd)
  then show ?case unfolding caches_fresh_def map_le_def by simp (metis domI)
next
  case (reach_write ps ws a b assoc ps' r)
  show ?case by (rule WriteAssociation_fresh[OF assms(1) reach_write(4,2,3)])
next
  case (reach_update ps ws a b w n now ps' r)
  show ?case by (rule UpdateAssocWeight_fresh[OF assms(1) reach_update(4,2,3)])
next
  case (reach_batch ps us now ps' br)
  show ?case by (rule UpdateAssocWeightBatch_fresh[OF assms(1) reach_batch(4,2,3)])
next
  case (reach_lists ps ws ids m ps' rl)
  show ?case using GetAssociations_fresh[OF assms reach_lists(5,2-4)] by (rule conjunct1)
next
  case (reach_one ps ws i m ps' ro)
  show ?case using associationsForOne_fresh[OF assms reach_one(5,2-4)] by (rule conjunct1)
next
  case (reach_rank ps ws ids m ps' rl)
  show ?case using GetRankingNeighbors_fresh[OF assms reach_rank(5,2-4)] by (rule conjunct1)
qed

text \<open>C29. The association caches never serve a stale list to a live read, as long as no read goes through a
  snapshot.  After any sequence of association writes, weight updates, batches, live reads and
  expirations, each of which may fail at any point, a live read that succeeds gives for every engram it
  asks for exactly the heaviest \<open>n\<close> of the edges the store holds at that moment (all of them when \<open>n\<close> is
  not positive), in key order, whatever the cache held.  A read through a snapshot breaks this
  (last section).\<close>

theorem association_lists_fresh:
  assumes "pebble_spec (al_pebble lib) view" "lru_ok (al_lru_add lib)" "assoc_reach lib ps" "length ws = 8"
    "\<forall>i \<in> set ids. length i = 16" "GetAssociations lib ps None ws ids n = (ps', Inr res)" "j \<in> set ids"
    "associationsForOne lib ps ws j n = (ps'', Inr l)"
  shows "res j = Some (cap_list n (fwd_edges (view (ps_db ps)) ws j)) \<and> l = cap_list n (fwd_edges (view (ps_db ps)) ws j) \<and>
    sorted_wrt heavier l"
proof -
  note c = reach_fresh[OF assms(1-3)]
  have "ranked (fwd_edges (view (ps_db ps)) ws j)"
    unfolding fwd_edges_def using assms(4,5,7) by (intro row_edges_ranked) simp
  then have "sorted_wrt heavier (cap_list n (fwd_edges (view (ps_db ps)) ws j))"
    by (simp add: ranked_def cap_list_def sorted_wrt_take)
  then show ?thesis
    using GetAssociations_fresh[OF assms(1,2) c assms(4,5,6)] assms(5,7)
      associationsForOne_fresh[OF assms(1,2) c assms(4) _ assms(8)] by auto
qed

text \<open>C30. GetRankingNeighbors is an exact top-N where no engram is listed twice.  In every store reached
  without a read through a snapshot, if the forward edges of an engram have distinct targets (a second
  write of a pair with another weight breaks that) and so have the edges into it that count for
  ranking, a successful call gives the \<open>n\<close> heaviest distinct neighbours of their union by descending
  weight, each with the larger of its two weights; capping the two lists before the merge and taking
  them from the caches loses nothing.\<close>

theorem ranking_neighbors_exact:
  assumes "pebble_spec (al_pebble lib) view" "lru_ok (al_lru_add lib)" "assoc_reach lib ps" "length ws = 8"
    "\<forall>i \<in> set ids. length i = 16" "GetRankingNeighbors lib ps None ws ids n = (ps', Inr res)" "j \<in> set ids"
    "distinct (targets (fwd_edges (view (ps_db ps)) ws j))" "distinct (targets (rev_edges (view (ps_db ps)) ws j))"
  shows "\<exists>M. res j = Some M \<and>
    top_n n (set (fwd_edges (view (ps_db ps)) ws j) \<union> set (rev_edges (view (ps_db ps)) ws j)) M"
proof -
  let ?F = "fwd_edges (view (ps_db ps)) ws j" and ?R = "rev_edges (view (ps_db ps)) ws j"
  have "ranked ?F" "ranked ?R"
    unfolding fwd_edges_def rev_edges_def using assms(4,5,7) by (intro row_edges_ranked; simp)+
  from ranking_merge_exact[OF this assms(8,9), of n]
  show ?thesis
    using GetRankingNeighbors_fresh[OF assms(1,2) reach_fresh[OF assms(1-3)] assms(4,5,6)] assms(7) by auto
qed

section \<open>A store with one edge\<close>

lemma edge_lru [simp]: "lru_ok (al_lru_add edge_lib)"
  by (simp add: edge_lib_def lru_ok_def)

lemma edge_reach [simp]: "assoc_reach edge_lib (edge_store d)"
  by (rule reach_open) (simp_all add: edge_store_def)

lemma edge_lengths [simp]: "length edge_ws = 8" "length edge_a = 16" "length edge_b = 16"
  by (simp_all add: edge_ws_def edge_a_def edge_b_def)

lemma mem_iter_Inr: "pb_iter (al_pebble edge_lib) d lo hi = Inr (mem_iter d lo hi)"
  by (simp add: edge_lib_def mem_pebble_def)

lemma edge_reads:
  "\<exists>ps' res. GetAssociations edge_lib ps snap ws ids n = (ps', Inr res)"
  "\<exists>ps' l. associationsForOne edge_lib ps ws i n = (ps', Inr l)"
  by (auto simp: GetAssociations_def associationsForOne_def mem_iter_Inr Let_def split: prod.split option.split)

lemma edge_ranks: "\<exists>ps' res. GetRankingNeighbors edge_lib ps None ws ids n = (ps', Inr res)"
proof -
  obtain ps1 f where 1: "GetAssociations edge_lib ps None ws ids n = (ps1, Inr f)" using edge_reads(1) by blast
  have "\<exists>ps2 g. rankingReverseEdges edge_lib ps1 None ws ids n = (ps2, Inr g)"
    by (auto simp: rankingReverseEdges_def mem_iter_Inr Let_def split: prod.split)
  then show ?thesis using 1 by (auto simp: GetRankingNeighbors_def)
qed

lemma no_edges:
  assumes "\<forall>k \<in> set (map fst d). \<not> prefix p k"
  shows "row_edges accept (node_rows (map_of d) p) = []"
proof -
  have "{k. prefix p k \<and> map_of d k \<noteq> None} = {}" using assms by (auto simp: dom_map_of_conv_image_fst map_of_eq_None_iff)
  then have "node_rows (map_of d) p = []" by (simp only: node_rows_def sorted_list_of_set_empty list.map)
  then show ?thesis by (simp add: row_edges_def)
qed

lemma edge_store_empty:
  "fwd_edges (map_of (ps_db (edge_store []))) edge_ws edge_a = []" "rev_edges (map_of (ps_db (edge_store []))) edge_ws edge_a = []"
  unfolding fwd_edges_def rev_edges_def
  by (intro no_edges; simp add: edge_store_def AssocFwdPrefixForID_def AssocRevPrefixForID_def EngramKey_def
      pfx_AssocFwd_def pfx_AssocRev_def pfx_Engram_def)+

text \<open>A store in which another engram points at \<open>edge_a\<close> by a relation that ranks both ways, before and
  after an association from \<open>edge_a\<close> to \<open>edge_b\<close> is written.\<close>

definition edge_c :: bytes where "edge_c = replicate 16 4"

definition linked_store :: "(bytes \<times> bytes) list AssocStore" where
  "linked_store = edge_store [(rev_key edge_ws edge_a (replicate 4 9) edge_c, replicate 18 255)]"

abbreviation edge_complement :: bytes where "edge_complement \<equiv> WeightComplement (\<lambda>x. 0) (as_Weight full_edge)"

definition linked_view :: "bytes \<Rightarrow> bytes \<rightharpoonup> bytes" where
  "linked_view val = (map_of (ps_db linked_store))
     (fwd_key edge_ws edge_a edge_complement edge_b \<mapsto> val, rev_key edge_ws edge_b edge_complement edge_a \<mapsto> val,
      AssocWeightIndexKey edge_ws edge_a edge_b \<mapsto> PutUint32 (as_Weight full_edge))"

lemma edge_lib_sel: "al_nanw edge_lib = (\<lambda>x. 0)" "pb_commit (al_pebble edge_lib) d ops = Inr (fold mem_op ops d)"
  by (simp_all add: edge_lib_def mem_pebble_def)

lemma linked_write:
  assumes "ps_db ps = ps_db linked_store"
  obtains ps' val where "WriteAssociation edge_lib ps edge_ws edge_a edge_b full_edge = (ps', None)"
    "map_of (ps_db ps') = linked_view val"
proof -
  have "map_of (ps_db linked_store) (AssocFwdKey nanw edge_ws edge_a (as_Weight full_edge) edge_b) = None" for nanw
    by (simp add: linked_store_def edge_store_def AssocFwdKey_def EngramKey_def rev_key_def pfx_AssocFwd_def pfx_AssocRev_def
        pfx_Engram_def)
  then have c: "checkRelTypeCollision edge_lib ps edge_ws edge_a (as_Weight full_edge) edge_b (as_RelType full_edge) = None"
    by (simp add: checkRelTypeCollision_def pointGet_view[OF edge_lib_simps] assms)
  have g: "checkEndpointsLive edge_lib ps edge_ws edge_a edge_b = (ps, None)"
    using checkEndpointsLive_view[OF edge_lib_simps, of ps edge_ws edge_a edge_b] edge_live by (simp add: assms linked_store_def)
  define val where "val = encodeAssocValue (as_RelType full_edge) (as_Confidence full_edge) (as_CreatedAt full_edge)
    (as_LastActivated full_edge) (as_Weight full_edge) 1"
  have r: "as_RelType full_edge \<noteq> RelContradicts" by (simp add: full_edge_def RelSupports_def RelContradicts_def)
  obtain ps' where w: "WriteAssociation edge_lib ps edge_ws edge_a edge_b full_edge = (ps', None)"
      "ps_db ps' = fold mem_op (edge_sets (\<lambda>x. 0) edge_ws edge_a edge_b (as_Weight full_edge) val) (ps_db ps)"
    by (simp add: WriteAssociation_def g c writeAssociationUnguarded_def Let_def val_def forget_lists_def
        noteContradictsWrite_def MarkDeclaredContradictionInBatch_def r edge_lib_sel)
  have "AssocFwdKey (\<lambda>x. 0) edge_ws edge_a (as_Weight full_edge) edge_b = fwd_key edge_ws edge_a edge_complement edge_b"
    "AssocRevKey (\<lambda>x. 0) edge_ws edge_b (as_Weight full_edge) edge_a = rev_key edge_ws edge_b edge_complement edge_a"
    by (simp_all add: AssocFwdKey_def AssocRevKey_def fwd_key_def rev_key_def)
  then have "map_of (ps_db ps') = linked_view val"
    using spec_commit[OF edge_lib_simps(1), of "ps_db ps" _ "ps_db ps'"] w(2)
    by (simp add: linked_view_def edge_sets_def assms)
  with w(1) show thesis by (rule that)
qed

lemma one_row:
  assumes "{k. prefix p k \<and> m k \<noteq> None} = {k}" "m k = Some v"
  shows "node_rows m p = [(k, v)]"
  using assms by (simp add: node_rows_def)

lemma linked_rows:
  "node_rows (linked_view val) (AssocFwdPrefixForID edge_ws edge_a) = [(fwd_key edge_ws edge_a edge_complement edge_b, val)]"
  "node_rows (linked_view val) (AssocRevPrefixForID edge_ws edge_a) =
     [(rev_key edge_ws edge_a (replicate 4 9) edge_c, replicate 18 255)]"
proof -
  note defs = linked_view_def linked_store_def edge_store_def AssocFwdPrefixForID_def AssocRevPrefixForID_def fwd_key_def
    rev_key_def EngramKey_def AssocWeightIndexKey_def pfx_AssocFwd_def pfx_AssocRev_def pfx_Engram_def pfx_AssocWeightIndex_def
  have ab: "\<not> prefix edge_a (edge_b @ zs)" for zs by (simp add: edge_a_def edge_b_def numeral_eq_Suc)
  show "node_rows (linked_view val) (AssocFwdPrefixForID edge_ws edge_a) = [(fwd_key edge_ws edge_a edge_complement edge_b, val)]"
    by (rule one_row) (auto simp: defs split: if_splits)
  show "node_rows (linked_view val) (AssocRevPrefixForID edge_ws edge_a) =
     [(rev_key edge_ws edge_a (replicate 4 9) edge_c, replicate 18 255)]"
    by (rule one_row) (auto simp: defs ab split: if_splits)
qed

lemma linked_edges:
  "targets (fwd_edges (linked_view val) edge_ws edge_a) = [edge_b]"
  "targets (rev_edges (linked_view val) edge_ws edge_a) = [edge_c]"
proof -
  have l: "length edge_complement = 4" by simp
  show "targets (fwd_edges (linked_view val) edge_ws edge_a) = [edge_b]"
    using l unfolding fwd_edges_def linked_rows
    by (simp add: row_edges_def is_edge_def fwd_key_def assoc_of_row_def Let_def sub_def edge_ws_def edge_a_def edge_b_def)
  have "replicate 2 (255 :: u8) = [255, 255]" by (simp add: numeral_2_eq_2)
  moreover have "Uint16 [255, 255] = 0xFFFF" by (simp add: Uint16_def be_val_def)
  ultimately have "am_relType (decodeAssocValue (replicate 18 255)) = 0xFFFF"
    by (simp add: decodeAssocValue_def Let_def sub_def)
  then have "BidirectionalForRanking (am_relType (decodeAssocValue (replicate 18 255)))"
    by (simp add: BidirectionalForRanking_def RelUserDefined_def)
  then show "targets (rev_edges (linked_view val) edge_ws edge_a) = [edge_c]"
    unfolding rev_edges_def linked_rows
    by (simp add: row_edges_def is_edge_def rev_key_def assoc_of_row_def Let_def sub_def edge_ws_def edge_a_def edge_c_def)
qed

text \<open>A list is read and so cached, the association is written, and the list is read again.\<close>

lemma linked_run:
  obtains ps1 old ps2 val where "GetAssociations edge_lib linked_store None edge_ws [edge_a] 5 = (ps1, Inr old)"
    "WriteAssociation edge_lib ps1 edge_ws edge_a edge_b full_edge = (ps2, None)"
    "map_of (ps_db ps2) = linked_view val" "assoc_reach edge_lib ps2"
proof -
  obtain ps1 old where g: "GetAssociations edge_lib linked_store None edge_ws [edge_a] 5 = (ps1, Inr old)"
    using edge_reads(1) by blast
  have r: "assoc_reach edge_lib linked_store" by (simp add: linked_store_def)
  have "ps_db ps1 = ps_db linked_store"
    using GetAssociations_fresh[OF edge_lib_simps(1) edge_lru reach_fresh[OF edge_lib_simps(1) edge_lru r] _ _ g] by simp
  then obtain ps2 val where w: "WriteAssociation edge_lib ps1 edge_ws edge_a edge_b full_edge = (ps2, None)"
      "map_of (ps_db ps2) = linked_view val"
    by (rule linked_write)
  have "assoc_reach edge_lib ps1" by (rule reach_lists[OF r _ _ g]) simp_all
  then have "assoc_reach edge_lib ps2" by (rule reach_write[OF _ edge_ids(1) w(1)])
  with g w show thesis by (rule that)
qed

lemma association_lists_fresh_witness:
  "\<exists>ps1 old ps2 res l. GetAssociations edge_lib linked_store None edge_ws [edge_a] 5 = (ps1, Inr old) \<and>
     WriteAssociation edge_lib ps1 edge_ws edge_a edge_b full_edge = (ps2, None) \<and>
     snd (GetAssociations edge_lib ps2 None edge_ws [edge_a] 5) = Inr res \<and> res edge_a = Some l \<and> targets l = [edge_b]"
proof -
  obtain ps1 old ps2 val where run: "GetAssociations edge_lib linked_store None edge_ws [edge_a] 5 = (ps1, Inr old)"
    "WriteAssociation edge_lib ps1 edge_ws edge_a edge_b full_edge = (ps2, None)"
    "map_of (ps_db ps2) = linked_view val" "assoc_reach edge_lib ps2"
    by (rule linked_run)
  obtain ps3 res where g: "GetAssociations edge_lib ps2 None edge_ws [edge_a] 5 = (ps3, Inr res)"
    using edge_reads(1) by blast
  obtain ps4 l where o: "associationsForOne edge_lib ps2 edge_ws edge_a 5 = (ps4, Inr l)"
    using edge_reads(2) by blast
  have "targets (cap_list 5 (fwd_edges (map_of (ps_db ps2)) edge_ws edge_a)) = [edge_b]"
    using linked_edges(1)[of val] by (cases "fwd_edges (linked_view val) edge_ws edge_a") (auto simp: run(3) cap_list_def targets_def)
  moreover have "res edge_a = Some (cap_list 5 (fwd_edges (map_of (ps_db ps2)) edge_ws edge_a))"
    using association_lists_fresh[OF edge_lib_simps(1) edge_lru run(4) _ _ g _ o] by simp
  ultimately show ?thesis using run(1,2) g by (intro exI conjI) (assumption | simp)+
qed

lemma two_neighbours:
  assumes "top_n 5 (set F \<union> set R) M" "targets F = [b]" "targets R = [c]"
  shows "set (targets M) = {b, c}"
proof -
  have X: "as_TargetID ` (set F \<union> set R) = {b, c}"
    using arg_cong[OF assms(2), of set] arg_cong[OF assms(3), of set] by auto
  have sub: "set (targets M) \<subseteq> {b, c}" using assms(1) X by (auto simp: top_n_def)
  then have "card (set (targets M)) \<le> card {b, c}" by (intro card_mono) simp_all
  also have "\<dots> \<le> 2" by (simp add: card_insert_if)
  finally have "length M \<le> 2" using assms(1) distinct_card[of "targets M"] by (simp add: top_n_def)
  then have "\<forall>x \<in> set F \<union> set R. \<exists>y \<in> set M. as_TargetID y = as_TargetID x"
    using assms(1) unfolding top_n_def by fastforce
  then have "as_TargetID ` (set F \<union> set R) \<subseteq> set (targets M)"
    unfolding targets_simps(4) by (metis image_eqI image_subsetI)
  then show ?thesis unfolding X using sub by (rule equalityI[rotated])
qed

lemma ranking_neighbors_exact_witness:
  "\<exists>ps1 old ps2 res M. GetAssociations edge_lib linked_store None edge_ws [edge_a] 5 = (ps1, Inr old) \<and>
     WriteAssociation edge_lib ps1 edge_ws edge_a edge_b full_edge = (ps2, None) \<and>
     snd (GetRankingNeighbors edge_lib ps2 None edge_ws [edge_a] 5) = Inr res \<and> res edge_a = Some M \<and>
     set (targets M) = {edge_b, edge_c}"
proof -
  obtain ps1 old ps2 val where run: "GetAssociations edge_lib linked_store None edge_ws [edge_a] 5 = (ps1, Inr old)"
    "WriteAssociation edge_lib ps1 edge_ws edge_a edge_b full_edge = (ps2, None)"
    "map_of (ps_db ps2) = linked_view val" "assoc_reach edge_lib ps2"
    by (rule linked_run)
  obtain ps3 res where g: "GetRankingNeighbors edge_lib ps2 None edge_ws [edge_a] 5 = (ps3, Inr res)"
    using edge_ranks by blast
  obtain M where M: "res edge_a = Some M"
      "top_n 5 (set (fwd_edges (linked_view val) edge_ws edge_a) \<union> set (rev_edges (linked_view val) edge_ws edge_a)) M"
    using ranking_neighbors_exact[OF edge_lib_simps(1) edge_lru run(4) _ _ g, of edge_a] linked_edges[of val]
    by (auto simp: run(3))
  have "set (targets M) = {edge_b, edge_c}" by (rule two_neighbours[OF M(2) linked_edges])
  then show ?thesis using run(1,2) g M(1) by (intro exI conjI) (assumption | simp)+
qed

section \<open>Reads from a snapshot\<close>

lemma scan_node_truncated:
  "snd (scan_node p accept cap kvs acc) \<Longrightarrow> cap > 0 \<and> int (length (fst (scan_node p accept cap kvs acc))) \<ge> cap"
  by (induction p accept cap kvs acc rule: scan_node.induct) (auto split: if_splits)

text \<open>Two cold reads of one engram, the first from the snapshot \<open>d\<close>: the second finds the first's list.\<close>

lemma snapshot_then_live:
  assumes "pebble_spec (al_pebble lib) view" "al_lru_add lib = (\<lambda>c k e. c(k \<mapsto> e))" "length ws = 8" "length i = 16"
    "ps_assocCache ps (assocCacheKey ws i) = None" "GetAssociations lib ps (Some d) ws [i] n = (ps', Inr r1)"
  shows "ps_db ps' = ps_db ps \<and>
    GetAssociations lib ps' None ws [i] n = (ps', Inr [i \<mapsto> cap_list n (fwd_edges (view d) ws i)])"
proof -
  let ?p = "AssocFwdPrefixForID ws i"
  obtain kvs where it: "pb_iter (al_pebble lib) d (AssocFwdRangeStart ws) (AssocFwdRangeEnd ws) = Inr kvs"
    using assms(5,6) by (auto simp: GetAssociations_def pebbleReader_def split: sum.splits)
  obtain assocs truncated where sc: "scan_node ?p (\<lambda>r. True) n (SeekGE ?p kvs) [] = (assocs, truncated)" by fastforce
  have l25: "length ?p = 25" using assms(3,4) by simp
  have a: "assocs = cap_list n (fwd_edges (view d) ws i)"
    unfolding fwd_edges_def using scan_fresh[OF l25 spec_iter[OF assms(1) it] _ sc] fwd_range[OF assms(3)] by blast
  have t: "truncated \<Longrightarrow> n > 0 \<and> n \<le> int (length assocs)"
    using scan_node_truncated[of ?p "\<lambda>r. True" n "SeekGE ?p kvs" "[]"] by (simp add: sc)
  have ps': "ps' = ps\<lparr>ps_assocCache := (ps_assocCache ps)(assocCacheKey ws i \<mapsto> AssocCacheEntry assocs truncated)\<rparr>"
    using assms(2,5,6) it sc by (auto simp: GetAssociations_def pebbleReader_def Let_def)
  have "cache_answer n (AssocCacheEntry assocs truncated) = Some (cap_list n assocs)"
    using t by (auto simp: cache_answer_def)
  moreover have "cap_list n assocs = assocs" unfolding a by (simp add: cap_list_def)
  ultimately show ?thesis by (simp add: GetAssociations_def ps' a)
qed

text \<open>C31. A read from a snapshot undoes the eviction of a write.  When an association is written after
  the snapshot was taken, the write drops the source's cached list; a read of the source through the
  snapshot then fills the cache with the list from before the write, and the next read of the live store
  is answered from it although the store holds the new edge.\<close>

theorem snapshot_read_hides_write:
  assumes "pebble_spec (al_pebble lib) view" "al_lru_add lib = (\<lambda>c k e. c(k \<mapsto> e))" "ids_ok ws a b"
    "WriteAssociation lib ps ws a b assoc = (ps1, None)"
    "GetAssociations lib ps1 (Some (ps_db ps)) ws [a] n = (ps2, Inr r1)"
    "GetAssociations lib ps2 None ws [a] n = (ps3, Inr r2)"
  shows "r2 a = Some (cap_list n (fwd_edges (view (ps_db ps)) ws a)) \<and>
    view (ps_db ps2) (AssocFwdKey (al_nanw lib) ws a (as_Weight assoc) b) \<noteq> None"
proof -
  obtain psg g where g: "checkEndpointsLive lib ps ws a b = (psg, g)" by fastforce
  have db: "ps_db psg = ps_db ps" using guard_same[OF g] by (simp add: same_lists_def)
  define val where "val = encodeAssocValue (as_RelType assoc) (as_Confidence assoc) (as_CreatedAt assoc)
      (as_LastActivated assoc) (as_Weight assoc) 1"
  define batch where "batch = edge_sets (al_nanw lib) ws a b (as_Weight assoc) val @
      MarkDeclaredContradictionInBatch ws (as_RelType assoc)"
  have w: "writeAssociationUnguarded lib psg ws a b assoc = (ps1, None)"
    using assms(4) g by (auto simp: WriteAssociation_def split: option.splits)
  obtain db' where c: "pb_commit (al_pebble lib) (ps_db psg) batch = Inr db'"
    using w by (cases "pb_commit (al_pebble lib) (ps_db psg) batch")
      (auto simp: writeAssociationUnguarded_def Let_def val_def batch_def)
  have ps1: "ps1 = forget_lists ws a b (replicateBatch batch (noteContradictsWrite ws (as_RelType assoc) (psg\<lparr>ps_db := db'\<rparr>)))"
    using w c by (simp add: writeAssociationUnguarded_def Let_def val_def batch_def)
  then have evicted: "ps_assocCache ps1 (assocCacheKey ws a) = None" and db1: "ps_db ps1 = db'"
    by (simp_all add: forget_lists_def noteContradictsWrite_def)
  have "length ws = 8" "length a = 16" using assms(3) by (simp_all add: ids_ok_def)
  note two = snapshot_then_live[OF assms(1,2) this evicted assms(5)]
  have fk: "AssocFwdKey (al_nanw lib) ws a (as_Weight assoc) b = fwd_key ws a (WeightComplement (al_nanw lib) (as_Weight assoc)) b"
    by (simp add: AssocFwdKey_def fwd_key_def)
  have rk: "AssocRevKey (al_nanw lib) ws b (as_Weight assoc) a = rev_key ws b (WeightComplement (al_nanw lib) (as_Weight assoc)) a"
    by (simp add: AssocRevKey_def rev_key_def)
  have "view db' (AssocFwdKey (al_nanw lib) ws a (as_Weight assoc) b) = Some val"
    by (simp add: spec_commit[OF assms(1) c] batch_def edge_sets_def MarkDeclaredContradictionInBatch_def fk rk)
  then show ?thesis using two assms(6) db1 by simp
qed

lemma edge_write_succeeds:
  "snd (WriteAssociation edge_lib (edge_store []) edge_ws edge_a edge_b full_edge) = None"
proof -
  have k: "map_of (ps_db (edge_store [])) (AssocFwdKey nanw edge_ws edge_a (as_Weight full_edge) edge_b) = None" for nanw
    using edge_none by (simp add: edge_absent_def)
  have g: "checkEndpointsLive edge_lib (edge_store []) edge_ws edge_a edge_b = (edge_store [], None)"
    using checkEndpointsLive_view[OF edge_lib_simps, of "edge_store []" edge_ws edge_a edge_b] edge_live[of "[]"] by simp
  have c: "checkRelTypeCollision edge_lib (edge_store []) edge_ws edge_a (as_Weight full_edge) edge_b (as_RelType full_edge) = None"
    by (simp add: checkRelTypeCollision_def pointGet_view[OF edge_lib_simps] k)
  have "pb_commit (al_pebble edge_lib) d ops = Inr (fold mem_op ops d)" for d ops
    by (simp add: edge_lib_def mem_pebble_def)
  then show ?thesis by (simp add: WriteAssociation_def g c writeAssociationUnguarded_def Let_def)
qed

lemma snapshot_read_hides_write_witness:
  "\<exists>ps1 ps2 r2. WriteAssociation edge_lib (edge_store []) edge_ws edge_a edge_b full_edge = (ps1, None) \<and>
     r2 edge_a = Some [] \<and> snd (GetAssociations edge_lib ps2 None edge_ws [edge_a] 5) = Inr r2"
proof -
  have "snd (WriteAssociation edge_lib (edge_store []) edge_ws edge_a edge_b full_edge) = None"
    using edge_write_succeeds by simp
  then obtain ps1 where w: "WriteAssociation edge_lib (edge_store []) edge_ws edge_a edge_b full_edge = (ps1, None)"
    by (metis surjective_pairing)
  obtain ps2 r1 where s: "GetAssociations edge_lib ps1 (Some (ps_db (edge_store []))) edge_ws [edge_a] 5 = (ps2, Inr r1)"
    using edge_reads(1) by blast
  obtain ps3 r2 where l: "GetAssociations edge_lib ps2 None edge_ws [edge_a] 5 = (ps3, Inr r2)"
    using edge_reads(1) by blast
  have "r2 edge_a = Some []"
    using snapshot_read_hides_write[OF edge_lib_simps(1) _ edge_ids(1) w s l]
    by (simp add: edge_lib_def edge_store_empty cap_list_def)
  then show ?thesis using w l by (metis snd_conv)
qed

end
