(* ===== verification/Contradictions.thy ===== *)
theory Contradictions
  imports Association
begin

text \<open>
  Contradictions of a vault: the markers that the detector writes for a pair (key 0x0A), the mark that the
  vault holds a declared contradiction (key 0x31), the scan for declared \<open>contradicts\<close> edges
  (\<open>internal/storage/association.go\<close>) and the gate of recall that asks whether a vault may have
  contradictions at all (\<open>internal/engine/engine_contradiction.go\<close>).  The lock around the check and the
  write of the mark makes both one step, which is how they are modelled.
\<close>

section \<open>Detected pairs\<close>

definition contradictionValueLen :: nat where
  "contradictionValueLen = 16 + 8"

definition encodeContradictionValue :: "bytes \<Rightarrow> time \<Rightarrow> bytes" where
  "encodeContradictionValue partner detectedAt = partner @ PutUint64 (assoc_nanos detectedAt)"

definition decodeContradictionValue :: "bytes \<Rightarrow> (bytes \<times> time) option" where
  "decodeContradictionValue val =
     (if length val < 16 then None
      else Some (take 16 val,
        if length val \<ge> contradictionValueLen then
          (let nanos = Uint64 (sub val 16 8) in if nanos \<noteq> 0 then Unix_ns nanos else 0)
        else 0))"

datatype contra_error = ContraDb db_error | ContraCorrupt nat

definition readContradictionMarker :: "'db AssocLib \<Rightarrow> 'db AssocStore \<Rightarrow> bytes \<Rightarrow>
    contra_error + time option" where
  "readContradictionMarker lib ps key =
     (case pointGet lib ps key of
        Inl e \<Rightarrow> Inl (ContraDb e)
      | Inr None \<Rightarrow> Inr None
      | Inr (Some val) \<Rightarrow>
          (case decodeContradictionValue val of
             None \<Rightarrow> Inl (ContraCorrupt (length val))
           | Some (p, prior) \<Rightarrow> Inr (Some prior)))"

definition canonical_pair :: "bytes \<Rightarrow> bytes \<Rightarrow> bytes \<times> bytes" where
  "canonical_pair a b = (if CompareULIDs a b > 0 then (b, a) else (a, b))"

definition marker_ops :: "bytes \<Rightarrow> bytes \<Rightarrow> bytes \<Rightarrow> time \<Rightarrow> batch_op list" where
  "marker_ops ws a b detectedAt =
     [BSet (ContradictionKey ws 0 0 a) (encodeContradictionValue b detectedAt),
      BSet (ContradictionKey ws 0 0 b) (encodeContradictionValue a detectedAt)]"

definition FlagContradiction :: "'db AssocLib \<Rightarrow> 'db AssocStore \<Rightarrow> bytes \<Rightarrow> bytes \<Rightarrow> bytes \<Rightarrow> time \<Rightarrow>
    'db AssocStore \<times> (contra_error + bool)" where
  "FlagContradiction lib ps ws a0 b0 now =
     (let (a, b) = canonical_pair a0 b0
      in case readContradictionMarker lib ps (ContradictionKey ws 0 0 a) of
           Inl e \<Rightarrow> (ps, Inl e)
         | Inr known \<Rightarrow>
             (let newlyFlagged = (known = None);
                  detectedAt = (case known of None \<Rightarrow> now | Some prior \<Rightarrow> prior);
                  batch = marker_ops ws a b detectedAt
              in case pb_commit (al_pebble lib) (ps_db ps) batch of
                   Inl e \<Rightarrow> (ps, Inl (ContraDb e))
                 | Inr db' \<Rightarrow> (replicateBatch batch (ps\<lparr>ps_db := db'\<rparr>), Inr newlyFlagged)))"

definition ResolveContradiction :: "'db AssocLib \<Rightarrow> 'db AssocStore \<Rightarrow> bytes \<Rightarrow> bytes \<Rightarrow> bytes \<Rightarrow>
    'db AssocStore \<times> contra_error option" where
  "ResolveContradiction lib ps ws a b =
     (let batch = [BDelete (ContradictionKey ws 0 0 a), BDelete (ContradictionKey ws 0 0 b)]
      in case pb_commit (al_pebble lib) (ps_db ps) batch of
           Inl e \<Rightarrow> (ps, Some (ContraDb e))
         | Inr db' \<Rightarrow> (replicateBatch batch (ps\<lparr>ps_db := db'\<rparr>), None))"

record ContradictionRecord =
  cr_A :: bytes
  cr_B :: bytes
  cr_DetectedAt :: time
  cr_DeclaredAt :: time

text \<open>The map \<open>seen\<close> of the code finds the record of a pair; here the record itself is looked for.\<close>

definition add_detected :: "ContradictionRecord list \<Rightarrow> bytes \<Rightarrow> bytes \<Rightarrow> time \<Rightarrow> ContradictionRecord list" where
  "add_detected recs a b detectedAt =
     (if list_ex (\<lambda>r. cr_A r = a \<and> cr_B r = b) recs then
        map (\<lambda>r. if cr_A r = a \<and> cr_B r = b \<and> IsZero (cr_DetectedAt r) \<and> \<not> IsZero detectedAt
                 then r\<lparr>cr_DetectedAt := detectedAt\<rparr> else r) recs
      else recs @ [\<lparr>cr_A = a, cr_B = b, cr_DetectedAt = detectedAt, cr_DeclaredAt = 0\<rparr>])"

fun collect_detected :: "(bytes \<times> bytes) list \<Rightarrow> ContradictionRecord list \<Rightarrow> ContradictionRecord list" where
  "collect_detected [] recs = recs"
| "collect_detected ((k, v) # kvs) recs =
     (if length k < 31 then collect_detected kvs recs
      else
        (case decodeContradictionValue v of
           None \<Rightarrow> collect_detected kvs recs
         | Some (partner, detectedAt) \<Rightarrow>
             (let (a, b) = canonical_pair (sub k 15 16) partner
              in collect_detected kvs (add_detected recs a b detectedAt))))"

definition contra_iter :: "'db AssocLib \<Rightarrow> 'db AssocStore \<Rightarrow> bytes \<Rightarrow> db_error + (bytes \<times> bytes) list" where
  "contra_iter lib ps ws =
     (let lower = ContradictionKeyPrefix ws in pb_iter (al_pebble lib) (ps_db ps) lower (PrefixUpperBound lower))"

definition GetContradictionRecords :: "'db AssocLib \<Rightarrow> 'db AssocStore \<Rightarrow> bytes \<Rightarrow>
    db_error + ContradictionRecord list" where
  "GetContradictionRecords lib ps ws =
     (case contra_iter lib ps ws of Inl e \<Rightarrow> Inl e | Inr kvs \<Rightarrow> Inr (collect_detected kvs []))"

definition GetContradictions :: "'db AssocLib \<Rightarrow> 'db AssocStore \<Rightarrow> bytes \<Rightarrow> db_error + (bytes \<times> bytes) list" where
  "GetContradictions lib ps ws =
     (case GetContradictionRecords lib ps ws of
        Inl e \<Rightarrow> Inl e | Inr recs \<Rightarrow> Inr (map (\<lambda>r. (cr_A r, cr_B r)) recs))"

definition HasContradictionMarkers :: "'db AssocLib \<Rightarrow> 'db AssocStore \<Rightarrow> bytes \<Rightarrow> db_error + bool" where
  "HasContradictionMarkers lib ps ws =
     (case contra_iter lib ps ws of Inl e \<Rightarrow> Inl e | Inr kvs \<Rightarrow> Inr (kvs \<noteq> []))"

section \<open>The mark of the vault\<close>

definition DeclaredContradictionMark :: "'db AssocLib \<Rightarrow> 'db AssocStore \<Rightarrow> bytes \<Rightarrow> db_error + u8 option" where
  "DeclaredContradictionMark lib ps ws =
     (case pb_get (al_pebble lib) (ps_db ps) (DeclaredContradictionMarkKey ws) of
        ErrNotFound \<Rightarrow> Inr None
      | GetErr e \<Rightarrow> Inl e
      | Found val \<Rightarrow> if length val = 0 then Inr None else Inr (Some (val ! 0)))"

definition SetDeclaredContradictionMark :: "'db AssocLib \<Rightarrow> 'db AssocStore \<Rightarrow> bytes \<Rightarrow> u8 \<Rightarrow>
    'db AssocStore \<times> db_error option" where
  "SetDeclaredContradictionMark lib ps ws mark =
     (if mark = DeclaredContradictionNone \<and>
         DeclaredContradictionMark lib ps ws = Inr (Some DeclaredContradictionYes)
      then (ps, None)
      else
        (case pb_set (al_pebble lib) (ps_db ps) (DeclaredContradictionMarkKey ws) [mark] of
           Inl e \<Rightarrow> (ps, Some e)
         | Inr db' \<Rightarrow> (ps\<lparr>ps_db := db'\<rparr>, None)))"

definition DeleteDeclaredContradictionMark :: "'db AssocLib \<Rightarrow> 'db AssocStore \<Rightarrow> bytes \<Rightarrow>
    'db AssocStore \<times> db_error option" where
  "DeleteDeclaredContradictionMark lib ps ws =
     (case pb_commit (al_pebble lib) (ps_db ps) [BDelete (DeclaredContradictionMarkKey ws)] of
        Inl e \<Rightarrow> (ps, Some e)
      | Inr db' \<Rightarrow> (ps\<lparr>ps_db := db'\<rparr>, None))"

definition ReconcileDeclaredContradictionMarkAfterBulkCopy :: "'db AssocLib \<Rightarrow> 'db AssocStore \<Rightarrow> bytes \<Rightarrow>
    bool \<Rightarrow> bool \<Rightarrow> 'db AssocStore \<times> db_error option" where
  "ReconcileDeclaredContradictionMarkAfterBulkCopy lib ps wsTarget copiedAssociations sourceDeclared =
     (if \<not> copiedAssociations then (ps, None)
      else if sourceDeclared then SetDeclaredContradictionMark lib ps wsTarget DeclaredContradictionYes
      else DeleteDeclaredContradictionMark lib ps wsTarget)"

section \<open>The scan for declared contradictions\<close>

record DeclaredContradictionScan =
  ds_Records :: "ContradictionRecord list"
  ds_Scanned :: nat
  ds_Complete :: bool

definition DefaultDeclaredContradictionScanCap :: int where
  "DefaultDeclaredContradictionScanCap = 500000"

definition add_declared :: "ContradictionRecord list \<Rightarrow> bytes \<Rightarrow> bytes \<Rightarrow> time \<Rightarrow> ContradictionRecord list" where
  "add_declared recs a b createdAt =
     (if list_ex (\<lambda>r. cr_A r = a \<and> cr_B r = b) recs then
        map (\<lambda>r. if cr_A r = a \<and> cr_B r = b \<and> \<not> IsZero createdAt \<and>
                    (IsZero (cr_DeclaredAt r) \<or> createdAt < cr_DeclaredAt r)
                 then r\<lparr>cr_DeclaredAt := createdAt\<rparr> else r) recs
      else recs @ [\<lparr>cr_A = a, cr_B = b, cr_DetectedAt = 0, cr_DeclaredAt = createdAt\<rparr>])"

fun scan_declared :: "int \<Rightarrow> (bytes \<times> bytes) list \<Rightarrow> DeclaredContradictionScan \<Rightarrow> DeclaredContradictionScan" where
  "scan_declared maxScan [] out = out"
| "scan_declared maxScan ((k, v) # kvs) out =
     (if int (ds_Scanned out) \<ge> maxScan then out\<lparr>ds_Complete := False\<rparr>
      else
        (let out = out\<lparr>ds_Scanned := ds_Scanned out + 1\<rparr>
         in if length k < 45 then scan_declared maxScan kvs out
            else if am_relType (decodeAssocValue v) \<noteq> RelContradicts then scan_declared maxScan kvs out
            else
              (let (a, b) = canonical_pair (sub k 9 16) (sub k 29 16)
               in scan_declared maxScan kvs
                    (out\<lparr>ds_Records := add_declared (ds_Records out) a b (am_createdAt (decodeAssocValue v))\<rparr>))))"

definition DeclaredContradictions :: "'db AssocLib \<Rightarrow> 'db AssocStore \<Rightarrow> bytes \<Rightarrow> int \<Rightarrow>
    db_error + DeclaredContradictionScan" where
  "DeclaredContradictions lib ps ws maxScan0 =
     (let maxScan = (if maxScan0 \<le> 0 then DefaultDeclaredContradictionScanCap else maxScan0);
          lower = pfx_AssocFwd # ws
      in case pb_iter (al_pebble lib) (ps_db ps) lower (PrefixUpperBound lower) of
           Inl e \<Rightarrow> Inl e
         | Inr kvs \<Rightarrow> Inr (scan_declared maxScan kvs \<lparr>ds_Records = [], ds_Scanned = 0, ds_Complete = True\<rparr>))"

section \<open>The gate of recall\<close>

record ContraGate =
  eg_contradictionsDeclared :: "bytes set"
  eg_contradictionProbeClean :: "bytes set"

definition noteContradictionDeclared :: "ContraGate \<Rightarrow> bytes \<Rightarrow> ContraGate" where
  "noteContradictionDeclared g ws =
     g\<lparr>eg_contradictionsDeclared := insert ws (eg_contradictionsDeclared g),
       eg_contradictionProbeClean := eg_contradictionProbeClean g - {ws}\<rparr>"

definition remember_declared :: "bytes \<Rightarrow> ContraGate \<Rightarrow> ContraGate" where
  "remember_declared ws g = g\<lparr>eg_contradictionsDeclared := insert ws (eg_contradictionsDeclared g)\<rparr>"

definition declaredContradictionsProbe :: "'db AssocLib \<Rightarrow> 'db AssocStore \<Rightarrow> ContraGate \<Rightarrow> bytes \<Rightarrow>
    'db AssocStore \<times> ContraGate \<times> bool" where
  "declaredContradictionsProbe lib ps g ws =
     (if ws \<in> eg_contradictionProbeClean g then (ps, g, False)
      else
        (case DeclaredContradictions lib ps ws 0 of
           Inl e \<Rightarrow> (ps, g, True)
         | Inr res \<Rightarrow>
             if ds_Records res \<noteq> [] then
               (fst (SetDeclaredContradictionMark lib ps ws DeclaredContradictionYes), remember_declared ws g, True)
             else if \<not> ds_Complete res then (ps, remember_declared ws g, True)
             else
               (fst (SetDeclaredContradictionMark lib ps ws DeclaredContradictionNone),
                g\<lparr>eg_contradictionProbeClean := insert ws (eg_contradictionProbeClean g)\<rparr>, False)))"

definition vaultMayHaveContradictions :: "'db AssocLib \<Rightarrow> 'db AssocStore \<Rightarrow> ContraGate \<Rightarrow> bytes \<Rightarrow>
    'db AssocStore \<times> ContraGate \<times> bool" where
  "vaultMayHaveContradictions lib ps g ws =
     (if ws \<in> eg_contradictionsDeclared g then (ps, g, True)
      else
        (case DeclaredContradictionMark lib ps ws of
           Inl e \<Rightarrow> (ps, g, True)
         | Inr mark \<Rightarrow>
             if mark = Some DeclaredContradictionYes then (ps, remember_declared ws g, True)
             else if mark = Some DeclaredContradictionNone then (ps, g, False)
             else
               (case HasContradictionMarkers lib ps ws of
                  Inl e \<Rightarrow> (ps, g, True)
                | Inr has \<Rightarrow> if has then (ps, g, True) else declaredContradictionsProbe lib ps g ws)))"

section \<open>The contradiction worker\<close>

text \<open>\<open>internal/cognitive/contradict.go\<close>.  A severity is the bit pattern of its float64 (1.0, 0.9 or 0).\<close>

definition setContra :: "u16 \<Rightarrow> u16 \<Rightarrow> (u16 \<Rightarrow> u16 \<Rightarrow> bool) \<Rightarrow> u16 \<Rightarrow> u16 \<Rightarrow> bool" where
  "setContra a b m =
     (if a < 64 \<and> b < 64 then (\<lambda>x y. (x = a \<and> y = b) \<or> (x = b \<and> y = a) \<or> m x y) else m)"

definition contraMat :: "u16 \<Rightarrow> u16 \<Rightarrow> bool" where
  "contraMat = setContra 8 9 (setContra 1 2 (\<lambda>x y. False))"

definition ContradictionSeverity :: "u16 \<Rightarrow> u16 \<Rightarrow> u64" where
  "ContradictionSeverity relA relB =
     (if relA < 64 \<and> relB < 64 \<and> contraMat relA relB then
        (if (relA = 1 \<and> relB = 2) \<or> (relA = 2 \<and> relB = 1) then 0x3FF0000000000000 else 0x3FECCCCCCCCCCCCD)
      else 0)"

definition f64_positive :: "u64 \<Rightarrow> bool" where
  "f64_positive w \<longleftrightarrow> 0 < w \<and> w \<le> 0x7FF0000000000000"

record ContradictAssoc =
  ca_EngramID :: bytes
  ca_TargetID :: bytes
  ca_TargetHash :: u32
  ca_RelType :: u16

record ContradictionEvent =
  ev_EngramA :: bytes
  ev_EngramB :: bytes
  ev_Severity :: u64
  ev_Type :: string

text \<open>\<open>ci_OnFound\<close> says whether the item has a callback; the calls made are the events of the run.\<close>

record ContradictItem =
  ci_WS :: bytes
  ci_EngramID :: bytes
  ci_ConceptHash :: u32
  ci_Associations :: "ContradictAssoc list"
  ci_OnFound :: bool

fun assoc_pairs :: "'a list \<Rightarrow> ('a \<times> 'a) list" where
  "assoc_pairs [] = []"
| "assoc_pairs (a # as) = map (Pair a) as @ assoc_pairs as"

text \<open>The clock gives the time of the \<open>n\<close>-th flagging of the run.\<close>

definition check_pair :: "'db AssocLib \<Rightarrow> (nat \<Rightarrow> time) \<Rightarrow> ContradictItem \<Rightarrow> ContradictAssoc \<times> ContradictAssoc \<Rightarrow>
    'db AssocStore \<times> ContradictionEvent list \<times> nat \<Rightarrow> 'db AssocStore \<times> ContradictionEvent list \<times> nat" where
  "check_pair lib clock item ab st =
     (case (ab, st) of ((a, b), (ps, evs, n)) \<Rightarrow>
        let severity = ContradictionSeverity (ca_RelType a) (ca_RelType b)
        in if f64_positive severity then
             (case FlagContradiction lib ps (ci_WS item) (ca_TargetID a) (ca_TargetID b) (clock n) of
                (ps, Inl e) \<Rightarrow> (ps, evs, n + 1)
              | (ps, Inr newlyFlagged) \<Rightarrow>
                  (ps,
                   if \<not> newlyFlagged then evs
                   else if ci_OnFound item then
                     evs @ [\<lparr>ev_EngramA = ca_TargetID a, ev_EngramB = ca_TargetID b, ev_Severity = severity,
                             ev_Type = ''incompatible_relations''\<rparr>]
                   else evs,
                   n + 1))
           else (ps, evs, n))"

definition processBatch :: "'db AssocLib \<Rightarrow> (nat \<Rightarrow> time) \<Rightarrow> ContradictItem list \<Rightarrow> 'db AssocStore \<Rightarrow>
    'db AssocStore \<times> ContradictionEvent list" where
  "processBatch lib clock batch ps =
     (case fold (\<lambda>item. fold (check_pair lib clock item) (assoc_pairs (ci_Associations item))) batch (ps, [], 0) of
        (ps, evs, n) \<Rightarrow> (ps, evs))"

end
