(* ===== verification/Contra_Props.thy ===== *)
theory Contra_Props
  imports Contradictions Ranking_Cache
begin

text \<open>Properties of the contradiction markers, the records read from them and the contradiction worker.\<close>

section \<open>Markers\<close>

abbreviation marker_key :: "bytes \<Rightarrow> bytes \<Rightarrow> bytes" where
  "marker_key ws i \<equiv> ContradictionKey ws 0 0 i"

lemma marker_key_inject: "length ws = 8 \<Longrightarrow> length ws' = 8 \<Longrightarrow> marker_key ws i = marker_key ws' j \<longleftrightarrow> ws = ws' \<and> i = j"
  by (simp add: ContradictionKey_def)

lemma marker_key_order: "length ws = 8 \<Longrightarrow> marker_key ws i < marker_key ws j \<longleftrightarrow> i < j"
proof -
  have "p @ x < p @ y \<longleftrightarrow> x < y" for p x y :: bytes by (induction p) auto
  from this[of "pfx_Contradiction # ws @ PutUint32 0 @ PutUint16 0" i j] show ?thesis
    by (simp add: ContradictionKey_def)
qed

lemma marker_prefix: "prefix (ContradictionKeyPrefix ws) (marker_key ws i)"
  by (simp add: ContradictionKeyPrefix_def ContradictionKey_def prefix_def)

lemma marker_key_sub: "length ws = 8 \<Longrightarrow> length i = 16 \<Longrightarrow> sub (marker_key ws i) 15 16 = i"
  by (simp add: ContradictionKey_def sub_def)

lemma marker_key_length: "length ws = 8 \<Longrightarrow> length i = 16 \<Longrightarrow> length (marker_key ws i) = 31"
  by (simp add: ContradictionKey_def)

lemma decode_encode_marker:
  "length p = 16 \<Longrightarrow> assoc_time_ok t \<Longrightarrow> decodeContradictionValue (encodeContradictionValue p t) = Some (p, t)"
  using assoc_nanos_simps[of t]
  by (auto simp: decodeContradictionValue_def encodeContradictionValue_def contradictionValueLen_def sub_def Let_def)

text \<open>The markers of a vault: what the writers of this file leave, under the keys they use.\<close>

definition marks :: "(bytes \<rightharpoonup> bytes) \<Rightarrow> bytes \<Rightarrow> bytes \<Rightarrow> (bytes \<times> time) option" where
  "marks m ws i = Option.bind (m (marker_key ws i)) decodeContradictionValue"

definition only_markers :: "(bytes \<rightharpoonup> bytes) \<Rightarrow> bytes \<Rightarrow> bool" where
  "only_markers m ws \<longleftrightarrow> (\<forall>k. prefix (ContradictionKeyPrefix ws) k \<longrightarrow> m k \<noteq> None \<longrightarrow>
     (\<exists>i p t. k = marker_key ws i \<and> length i = 16 \<and> length p = 16 \<and> assoc_time_ok t \<and>
        m k = Some (encodeContradictionValue p t)))"

lemma only_markers_marks:
  assumes "only_markers m ws" "m (marker_key ws i) \<noteq> None" "length ws = 8"
  obtains p t where "m (marker_key ws i) = Some (encodeContradictionValue p t)" "length p = 16" "assoc_time_ok t"
    "length i = 16" "marks m ws i = Some (p, t)"
proof -
  obtain j p t where m: "marker_key ws i = marker_key ws j" "length j = 16" "length p = 16" "assoc_time_ok t"
      "m (marker_key ws i) = Some (encodeContradictionValue p t)"
    using assms(1,2) marker_prefix[of ws i] unfolding only_markers_def by blast
  then have "i = j" using assms(3) by (simp add: marker_key_inject)
  then show thesis using m by (intro that[of p t]) (simp_all add: marks_def decode_encode_marker)
qed

lemma read_marker_view:
  assumes "pebble_spec (al_pebble lib) view" "pebble_reliable (al_pebble lib)" "length ws = 8"
    "only_markers (view (ps_db ps)) ws"
  shows "readContradictionMarker lib ps (marker_key ws i) = Inr (map_option snd (marks (view (ps_db ps)) ws i))"
proof (cases "view (ps_db ps) (marker_key ws i)")
  case None
  then show ?thesis by (simp add: readContradictionMarker_def pointGet_view[OF assms(1,2)] marks_def)
next
  case (Some v)
  then have "view (ps_db ps) (marker_key ws i) \<noteq> None" by simp
  then obtain p t where "view (ps_db ps) (marker_key ws i) = Some (encodeContradictionValue p t)" "length p = 16"
      "assoc_time_ok t" "marks (view (ps_db ps)) ws i = Some (p, t)"
    using assms(3,4) by (rule_tac only_markers_marks)
  then show ?thesis
    by (simp add: readContradictionMarker_def pointGet_view[OF assms(1,2)] decode_encode_marker)
qed

text \<open>What flagging a pair does: the smaller id's marker alone decides whether the pair counts as new.\<close>

lemma flag_effect:
  assumes "pebble_spec (al_pebble lib) view" "pebble_reliable (al_pebble lib)" "length ws = 8"
    "only_markers (view (ps_db ps)) ws" "length a = 16" "length b = 16" "assoc_time_ok now"
    "FlagContradiction lib ps ws a0 b0 now = (ps', r)" "canonical_pair a0 b0 = (a, b)"
  defines "t \<equiv> (case marks (view (ps_db ps)) ws a of None \<Rightarrow> now | Some (p, prior) \<Rightarrow> prior)"
  shows "r = Inr (marks (view (ps_db ps)) ws a = None) \<and> assoc_time_ok t \<and>
    view (ps_db ps') = (view (ps_db ps))(marker_key ws a \<mapsto> encodeContradictionValue b t,
      marker_key ws b \<mapsto> encodeContradictionValue a t) \<and> only_markers (view (ps_db ps')) ws"
proof -
  have t: "assoc_time_ok t"
  proof (cases "view (ps_db ps) (marker_key ws a)")
    case None
    then show ?thesis using assms(7) by (simp add: t_def marks_def)
  next
    case (Some v)
    then have "view (ps_db ps) (marker_key ws a) \<noteq> None" by simp
    then obtain p u where "assoc_time_ok u" "marks (view (ps_db ps)) ws a = Some (p, u)"
      using assms(3,4) by (rule_tac only_markers_marks)
    then show ?thesis by (simp add: t_def)
  qed
  obtain db' where c: "pb_commit (al_pebble lib) (ps_db ps) (marker_ops ws a b t) = Inr db'"
    using reliable_commit[OF assms(2)] by blast
  have "FlagContradiction lib ps ws a0 b0 now =
      (replicateBatch (marker_ops ws a b t) (ps\<lparr>ps_db := db'\<rparr>), Inr (marks (view (ps_db ps)) ws a = None))"
  proof (cases "marks (view (ps_db ps)) ws a")
    case None
    then show ?thesis using c by (simp add: FlagContradiction_def assms(9) read_marker_view[OF assms(1-4)] t_def)
  next
    case (Some q)
    then show ?thesis using c
      by (cases q) (simp add: FlagContradiction_def assms(9) read_marker_view[OF assms(1-4)] t_def)
  qed
  then have r: "r = Inr (marks (view (ps_db ps)) ws a = None)" "ps_db ps' = db'" using assms(8) by auto
  have v: "view (ps_db ps') = (view (ps_db ps))(marker_key ws a \<mapsto> encodeContradictionValue b t,
      marker_key ws b \<mapsto> encodeContradictionValue a t)"
    by (simp add: r(2) spec_commit[OF assms(1) c] marker_ops_def)
  have "only_markers (view (ps_db ps')) ws"
    unfolding only_markers_def
  proof (intro allI impI)
    fix k assume k: "prefix (ContradictionKeyPrefix ws) k" "view (ps_db ps') k \<noteq> None"
    consider "k = marker_key ws b" | "k = marker_key ws a" "k \<noteq> marker_key ws b"
      | "k \<noteq> marker_key ws a" "k \<noteq> marker_key ws b" by blast
    then show "\<exists>i p t. k = marker_key ws i \<and> length i = 16 \<and> length p = 16 \<and> assoc_time_ok t \<and>
        view (ps_db ps') k = Some (encodeContradictionValue p t)"
    proof cases
      case 1
      then show ?thesis using assms(5,6) t v by auto
    next
      case 2
      then show ?thesis using assms(5,6) t v by auto
    next
      case 3
      then show ?thesis using assms(4) k unfolding only_markers_def v by simp
    qed
  qed
  then show ?thesis using r(1) t v by blast
qed

section \<open>Records\<close>

definition pair_of :: "ContradictionRecord \<Rightarrow> bytes \<times> bytes" where
  "pair_of r = (cr_A r, cr_B r)"

lemma add_detected_pairs: "set (map pair_of (add_detected recs a b t)) = insert (a, b) (set (map pair_of recs))"
proof (cases "list_ex (\<lambda>r. cr_A r = a \<and> cr_B r = b) recs")
  case True
  then have "(a, b) \<in> set (map pair_of recs)" by (auto simp: list_ex_iff pair_of_def)
  moreover have "map pair_of (add_detected recs a b t) = map pair_of recs"
    using True by (simp add: add_detected_def pair_of_def)
  ultimately show ?thesis by auto
next
  case False
  then show ?thesis by (simp add: add_detected_def pair_of_def)
qed

definition detected_pairs :: "(bytes \<times> bytes) list \<Rightarrow> (bytes \<times> bytes) set" where
  "detected_pairs kvs = {canonical_pair (sub k 15 16) p |k v p t.
     (k, v) \<in> set kvs \<and> length k \<ge> 31 \<and> decodeContradictionValue v = Some (p, t)}"

lemma detected_pairs_Nil: "detected_pairs [] = {}"
  by (simp add: detected_pairs_def)

lemma detected_pairs_skip:
  "length k < 31 \<or> decodeContradictionValue v = None \<Longrightarrow> detected_pairs ((k, v) # kvs) = detected_pairs kvs"
  unfolding detected_pairs_def by fastforce

lemma detected_pairs_take:
  "31 \<le> length k \<Longrightarrow> decodeContradictionValue v = Some (p, t) \<Longrightarrow>
   detected_pairs ((k, v) # kvs) = insert (canonical_pair (sub k 15 16) p) (detected_pairs kvs)"
  unfolding detected_pairs_def by fastforce

lemma collect_pairs:
  "set (map pair_of (collect_detected kvs recs)) = set (map pair_of recs) \<union> detected_pairs kvs"
proof (induction kvs recs rule: collect_detected.induct)
  case (1 recs)
  then show ?case by (simp add: detected_pairs_Nil)
next
  case (2 k v kvs recs)
  show ?case
  proof (cases "length k < 31 \<or> decodeContradictionValue v = None")
    case True
    then have "collect_detected ((k, v) # kvs) recs = collect_detected kvs recs" by auto
    moreover have "set (map pair_of (collect_detected kvs recs)) = set (map pair_of recs) \<union> detected_pairs kvs"
      using True 2(1,2) by (cases "length k < 31") auto
    ultimately show ?thesis by (simp add: detected_pairs_skip[OF True])
  next
    case False
    then obtain p t where d: "decodeContradictionValue v = Some (p, t)" "31 \<le> length k" by auto
    obtain a b where ab: "canonical_pair (sub k 15 16) p = (a, b)" by fastforce
    have "collect_detected ((k, v) # kvs) recs = collect_detected kvs (add_detected recs a b t)"
      using d ab by simp
    moreover have "set (map pair_of (collect_detected kvs (add_detected recs a b t))) =
        set (map pair_of (add_detected recs a b t)) \<union> detected_pairs kvs"
      using 2(3)[of "(p, t)" p t "(a, b)" a b] d ab by simp
    ultimately show ?thesis
      using add_detected_pairs[of recs a b t] detected_pairs_take[OF d(2,1), of kvs] ab by auto
  qed
qed

definition recorded :: "(bytes \<rightharpoonup> bytes) \<Rightarrow> bytes \<Rightarrow> (bytes \<times> bytes) set" where
  "recorded m ws = {canonical_pair i p |i p t. marks m ws i = Some (p, t)}"

lemma prefix_rows: "iter_ok m p (PrefixUpperBound p) kvs \<Longrightarrow> (k, v) \<in> set kvs \<longleftrightarrow> prefix p k \<and> m k = Some v"
  by (auto simp: iter_ok_def bound_exact)

lemma records_exact:
  assumes "pebble_spec (al_pebble lib) view" "pebble_reliable (al_pebble lib)" "length ws = 8"
    "only_markers (view (ps_db ps)) ws"
  obtains recs where "GetContradictionRecords lib ps ws = Inr recs"
    "set (map pair_of recs) = recorded (view (ps_db ps)) ws"
proof -
  let ?m = "view (ps_db ps)" and ?p = "ContradictionKeyPrefix ws"
  obtain kvs where k: "pb_iter (al_pebble lib) (ps_db ps) ?p (PrefixUpperBound ?p) = Inr kvs"
    using assms(2) by (cases "pb_iter (al_pebble lib) (ps_db ps) ?p (PrefixUpperBound ?p)") (auto simp: pebble_reliable_def)
  note row = prefix_rows[OF spec_iter[OF assms(1) k]]
  have "detected_pairs kvs = recorded ?m ws"
  proof (intro equalityI subsetI)
    fix q assume "q \<in> detected_pairs kvs"
    then obtain k v p t where q: "(k, v) \<in> set kvs" "decodeContradictionValue v = Some (p, t)"
        "q = canonical_pair (sub k 15 16) p"
      unfolding detected_pairs_def by blast
    then have kv: "prefix ?p k" "?m k = Some v" using row by auto
    then obtain i where i: "k = marker_key ws i" "length i = 16"
      using assms(4) unfolding only_markers_def by (metis option.distinct(1))
    have "marks ?m ws i = Some (p, t)" using kv(2) q(2) by (simp add: marks_def i)
    moreover have "q = canonical_pair i p" by (simp add: q(3) i(1) marker_key_sub[OF assms(3) i(2)])
    ultimately show "q \<in> recorded ?m ws" by (auto simp: recorded_def)
  next
    fix q assume "q \<in> recorded ?m ws"
    then obtain i p t where q: "q = canonical_pair i p" "marks ?m ws i = Some (p, t)" unfolding recorded_def by blast
    then obtain v where v: "?m (marker_key ws i) = Some v" "decodeContradictionValue v = Some (p, t)"
      by (auto simp: marks_def bind_eq_Some_conv)
    obtain p' t' where "length i = 16" by (rule only_markers_marks[OF assms(4) _ assms(3), of i]) (simp_all add: v)
    then have "length (marker_key ws i) = 31" "sub (marker_key ws i) 15 16 = i"
      using marker_key_length[OF assms(3)] marker_key_sub[OF assms(3)] by blast+
    moreover have "(marker_key ws i, v) \<in> set kvs" using row v(1) marker_prefix by blast
    ultimately show "q \<in> detected_pairs kvs" using v(2) q(1) unfolding detected_pairs_def mem_Collect_eq
      by (intro exI[of _ "marker_key ws i"] exI[of _ v] exI[of _ p] exI[of _ t]) simp
  qed
  then have "set (map pair_of (collect_detected kvs [])) = recorded ?m ws" using collect_pairs[of kvs "[]"] by simp
  then show thesis
    by (intro that[of "collect_detected kvs []"]) (simp_all only: GetContradictionRecords_def contra_iter_def k Let_def sum.case)
qed

lemma pairs_exact:
  assumes "pebble_spec (al_pebble lib) view" "pebble_reliable (al_pebble lib)" "length ws = 8"
    "only_markers (view (ps_db ps)) ws"
  obtains pairs where "GetContradictions lib ps ws = Inr pairs" "set pairs = recorded (view (ps_db ps)) ws"
proof (rule records_exact[OF assms])
  fix recs assume "GetContradictionRecords lib ps ws = Inr recs" "set (map pair_of recs) = recorded (view (ps_db ps)) ws"
  then show thesis by (intro that[of "map pair_of recs"]) (simp_all add: GetContradictions_def pair_of_def)
qed

lemma canonical_eq: "canonical_pair a b = (if a \<le> b then (a, b) else (b, a))"
  by (simp add: canonical_pair_def CompareULIDs_def le_less)

lemma canonical_sym: "canonical_pair a b = canonical_pair b a"
  by (cases a b rule: linorder_cases) (auto simp: canonical_eq less_imp_le leD)

lemma canonical_less: "a < b \<Longrightarrow> canonical_pair a b = (a, b)" "a < b \<Longrightarrow> canonical_pair b a = (a, b)"
  by (auto simp: canonical_eq less_imp_le leD)

lemma marks_upd:
  "length ws = 8 \<Longrightarrow> length p = 16 \<Longrightarrow> assoc_time_ok t \<Longrightarrow>
   marks (m(marker_key ws i \<mapsto> encodeContradictionValue p t)) ws j = (if j = i then Some (p, t) else marks m ws j)"
  by (auto simp: marks_def decode_encode_marker marker_key_inject)

lemma flag_marks:
  assumes "pebble_spec (al_pebble lib) view" "pebble_reliable (al_pebble lib)" "length ws = 8"
    "only_markers (view (ps_db ps)) ws" "length a = 16" "length b = 16" "assoc_time_ok now"
    "FlagContradiction lib ps ws a0 b0 now = (ps', r)" "canonical_pair a0 b0 = (a, b)"
  obtains t where "r = Inr (marks (view (ps_db ps)) ws a = None)" "assoc_time_ok t"
    "t = (case marks (view (ps_db ps)) ws a of None \<Rightarrow> now | Some (p, prior) \<Rightarrow> prior)"
    "marks (view (ps_db ps')) ws = (marks (view (ps_db ps)) ws)(a \<mapsto> (b, t), b \<mapsto> (a, t))"
    "only_markers (view (ps_db ps')) ws" "length a = 16" "length b = 16"
proof -
  let ?t = "(case marks (view (ps_db ps)) ws a of None \<Rightarrow> now | Some (p, prior) \<Rightarrow> prior)"
  note e = flag_effect[OF assms]
  note v = e[THEN conjunct2, THEN conjunct2, THEN conjunct1] e[THEN conjunct2, THEN conjunct1]
  have m: "marks (view (ps_db ps')) ws = (marks (view (ps_db ps)) ws)(a \<mapsto> (b, ?t), b \<mapsto> (a, ?t))"
    unfolding v(1) by (rule ext) (simp add: marks_upd[OF assms(3)] assms(5,6) v(2))
  show thesis
    by (rule that[OF e[THEN conjunct1] v(2) refl m e[THEN conjunct2, THEN conjunct2, THEN conjunct2] assms(5,6)])
qed

lemma resolve_marks:
  assumes "pebble_spec (al_pebble lib) view" "pebble_reliable (al_pebble lib)" "length ws = 8"
    "only_markers (view (ps_db ps)) ws" "ResolveContradiction lib ps ws a b = (ps', e)"
  shows "e = None" "marks (view (ps_db ps')) ws = (marks (view (ps_db ps)) ws)(a := None, b := None)"
    "only_markers (view (ps_db ps')) ws"
proof -
  obtain db' where c: "pb_commit (al_pebble lib) (ps_db ps) [BDelete (marker_key ws a), BDelete (marker_key ws b)] = Inr db'"
    using reliable_commit[OF assms(2)] by blast
  then have r: "e = None" "ps_db ps' = db'" using assms(5) by (auto simp: ResolveContradiction_def)
  have v: "view (ps_db ps') = (view (ps_db ps))(marker_key ws a := None, marker_key ws b := None)"
    by (simp add: r(2) spec_commit[OF assms(1) c])
  show "e = None" by (rule r(1))
  show "marks (view (ps_db ps')) ws = (marks (view (ps_db ps)) ws)(a := None, b := None)"
    unfolding v by (rule ext) (simp add: marks_def marker_key_inject[OF assms(3,3)])
  show "only_markers (view (ps_db ps')) ws"
    using assms(4) unfolding only_markers_def v by simp
qed

lemma canonical_pair_same:
  "canonical_pair i p = canonical_pair a b \<longleftrightarrow> (i = a \<and> p = b) \<or> (i = b \<and> p = a)"
  by (auto simp: canonical_eq split: if_splits)

lemma canonical_pair_ids:
  assumes "length a = 16" "length b = 16"
  obtains a' b' where "canonical_pair a b = (a', b')" "length a' = 16" "length b' = 16" "canonical_pair a' b' = (a', b')"
proof (cases "a \<le> b")
  case True
  then show thesis by (intro that[of a b]) (simp_all add: canonical_eq assms)
next
  case False
  then have "b < a" by (simp only: not_le)
  then show thesis by (intro that[of b a]) (simp_all add: canonical_less assms)
qed

lemma no_markers: "only_markers (map_of (ps_db (edge_store []))) edge_ws"
  by (simp add: only_markers_def edge_store_def ContradictionKeyPrefix_def EngramKey_def pfx_Contradiction_def pfx_Engram_def)

lemma no_marks: "marks (map_of (ps_db (edge_store []))) edge_ws = Map.empty"
  by (rule ext) (simp add: marks_def edge_store_def ContradictionKey_def EngramKey_def pfx_Contradiction_def pfx_Engram_def)

lemma replicate_16_less: "x < y \<Longrightarrow> replicate 16 x < replicate 16 (y :: u8)"
proof -
  have s: "(16 :: nat) = Suc 15" by simp
  show "x < y \<Longrightarrow> replicate 16 x < replicate 16 y" by (simp only: s replicate_Suc Cons_less_Cons simp_thms)
qed

lemma edge_a_less_b: "edge_a < edge_b"
  unfolding edge_a_def edge_b_def by (rule replicate_16_less) simp

text \<open>C34. The contradiction marker of a pair.  When no call of the store fails, flagging \<open>a\<close> and \<open>b\<close>
  leaves a record of the pair; flagging the same pair again, in either order and at any later time, reports
  it as known and changes no key of the store, so the first detection time stays; and resolving it, in
  either order, leaves no record of the pair.\<close>

theorem flag_then_resolve:
  assumes "pebble_spec (al_pebble lib) view" "pebble_reliable (al_pebble lib)" "length ws = 8"
    "only_markers (view (ps_db ps)) ws" "length a = 16" "length b = 16" "assoc_time_ok now" "assoc_time_ok later"
    "FlagContradiction lib ps ws a b now = (ps1, r1)" "(x, y) = (a, b) \<or> (x, y) = (b, a)"
    "FlagContradiction lib ps1 ws x y later = (ps2, r2)" "ResolveContradiction lib ps1 ws x y = (ps3, r3)"
  shows "(\<exists>pairs. GetContradictions lib ps1 ws = Inr pairs \<and> canonical_pair a b \<in> set pairs) \<and>
    r2 = Inr False \<and> view (ps_db ps2) = view (ps_db ps1) \<and>
    r3 = None \<and> (\<exists>pairs. GetContradictions lib ps3 ws = Inr pairs \<and> canonical_pair a b \<notin> set pairs)"
proof -
  obtain a' b' where ab: "canonical_pair a b = (a', b')" "length a' = 16" "length b' = 16" "canonical_pair a' b' = (a', b')"
    using canonical_pair_ids[OF assms(5,6)] .
  have xy: "canonical_pair x y = (a', b')" using assms(10) ab(1) canonical_sym[of a b] by auto
  obtain t where f: "assoc_time_ok t" "view (ps_db ps1) = (view (ps_db ps))
      (marker_key ws a' \<mapsto> encodeContradictionValue b' t, marker_key ws b' \<mapsto> encodeContradictionValue a' t)"
      "only_markers (view (ps_db ps1)) ws"
    using flag_effect[OF assms(1-4) ab(2,3) assms(7,9) ab(1)] by blast
  have view1: "view (ps_db ps1) (marker_key ws a') = Some (encodeContradictionValue b' t)"
      "view (ps_db ps1) (marker_key ws b') = Some (encodeContradictionValue a' t)"
    by (simp_all add: f(2) marker_key_inject[OF assms(3,3)])
  have known: "marks (view (ps_db ps1)) ws a' = Some (b', t)"
    by (simp add: f(1,2) marks_upd[OF assms(3)] ab(2,3))
  note g = flag_effect[OF assms(1-3) f(3) ab(2,3) assms(8,11) xy, unfolded known option.case prod.case]
  have r2: "r2 = Inr False" "view (ps_db ps2) = view (ps_db ps1)"
    using g by (simp_all add: view1 fun_upd_idem)
  obtain recs where R: "GetContradictions lib ps1 ws = Inr recs"
      "set recs = recorded (view (ps_db ps1)) ws"
    using pairs_exact[OF assms(1-3) f(3)] .
  have in1: "canonical_pair a b \<in> set recs"
    using known unfolding R(2) recorded_def ab(1) mem_Collect_eq by (metis ab(4))
  note z = resolve_marks[OF assms(1-3) f(3) assms(12)]
  obtain recs3 where R3: "GetContradictions lib ps3 ws = Inr recs3"
      "set recs3 = recorded (view (ps_db ps3)) ws"
    using pairs_exact[OF assms(1-3) z(3)] .
  have "canonical_pair a b \<notin> set recs3"
    unfolding R3(2) recorded_def using assms(10)
    by (auto simp: z(2) canonical_pair_same[of a b] split: if_splits)
  then show ?thesis using R(1) in1 r2 z(1) R3(1) by blast
qed


lemma flag_then_resolve_witness:
  "\<exists>ps1 ps3 pairs. FlagContradiction edge_lib (edge_store []) edge_ws edge_b edge_a 0 = (ps1, Inr True) \<and>
     ResolveContradiction edge_lib ps1 edge_ws edge_a edge_b = (ps3, None) \<and>
     GetContradictions edge_lib ps1 edge_ws = Inr pairs \<and> (edge_a, edge_b) \<in> set pairs"
proof -
  obtain ps1 r1 where 1: "FlagContradiction edge_lib (edge_store []) edge_ws edge_b edge_a 0 = (ps1, r1)" by fastforce
  obtain ps2 r2 where 2: "FlagContradiction edge_lib ps1 edge_ws edge_a edge_b 0 = (ps2, r2)" by fastforce
  obtain ps3 r3 where 3: "ResolveContradiction edge_lib ps1 edge_ws edge_a edge_b = (ps3, r3)" by fastforce
  have t: "assoc_time_ok 0" by (simp add: assoc_time_ok_def)
  have c: "canonical_pair edge_b edge_a = (edge_a, edge_b)"
    by (simp add: canonical_less edge_a_less_b)
  have "r1 = Inr True"
    using flag_effect[OF edge_lib_simps edge_lengths(1) no_markers edge_lengths(2,3) t 1 c]
    by (simp add: no_marks)
  then show ?thesis
    using flag_then_resolve[OF edge_lib_simps edge_lengths(1) no_markers edge_lengths(3,2) t t 1 _ 2 3] 1 3 c by auto
qed

text \<open>C35. A pair of contradicting engrams is lost when both of its engrams contradict a third.  A marker is
  kept per engram and names one partner, so from a vault with no markers, flagging (a, b), (a, c) and
  (b, c) for ids a < b < c reports only the first pair as new, although all three are, and afterwards the
  vault has records of (a, c) and (b, c) and none of (a, b), which was never resolved.\<close>

theorem flag_loses_pair:
  assumes "pebble_spec (al_pebble lib) view" "pebble_reliable (al_pebble lib)" "length ws = 8"
    "only_markers (view (ps_db ps)) ws" "marks (view (ps_db ps)) ws = Map.empty"
    "length a = 16" "length b = 16" "length c = 16" "a < b" "b < c"
    "assoc_time_ok t1" "assoc_time_ok t2" "assoc_time_ok t3"
    "FlagContradiction lib ps ws a b t1 = (ps1, r1)" "FlagContradiction lib ps1 ws a c t2 = (ps2, r2)"
    "FlagContradiction lib ps2 ws b c t3 = (ps3, r3)"
  shows "r1 = Inr True \<and> r2 = Inr False \<and> r3 = Inr False \<and>
    (\<exists>pairs. GetContradictions lib ps3 ws = Inr pairs \<and> set pairs = {(a, c), (b, c)})"
proof -
  have ac: "a < c" using assms(9,10) by (rule less_trans)
  then have ne: "a \<noteq> b" "a \<noteq> c" "b \<noteq> c" using assms(9,10) by auto
  obtain u1 where 1: "r1 = Inr True" "marks (view (ps_db ps1)) ws = [a \<mapsto> (b, u1), b \<mapsto> (a, u1)]"
      "only_markers (view (ps_db ps1)) ws"
    by (rule flag_marks[OF assms(1-4,6,7,11,14) canonical_less(1)[OF assms(9)]]) (simp add: assms(5))
  obtain u2 where 2: "r2 = Inr False" "marks (view (ps_db ps2)) ws = [a \<mapsto> (c, u2), b \<mapsto> (a, u1), c \<mapsto> (a, u2)]"
      "only_markers (view (ps_db ps2)) ws"
    by (rule flag_marks[OF assms(1-3) 1(3) assms(6,8,12,15) canonical_less(1)[OF ac]]) (use ne in \<open>simp add: 1(2) fun_upd_twist\<close>)
  obtain u3 where 3: "r3 = Inr False" "marks (view (ps_db ps3)) ws = [a \<mapsto> (c, u2), b \<mapsto> (c, u3), c \<mapsto> (b, u3)]"
      "only_markers (view (ps_db ps3)) ws"
    by (rule flag_marks[OF assms(1-3) 2(3) assms(7,8,13,16) canonical_less(1)[OF assms(10)]]) (use ne in \<open>simp add: 2(2) fun_upd_twist\<close>)
  have "recorded (view (ps_db ps3)) ws = {canonical_pair a c, canonical_pair b c, canonical_pair c b}"
    unfolding recorded_def 3(2) using ne by (auto split: if_splits)
  then have "recorded (view (ps_db ps3)) ws = {(a, c), (b, c)}" by (simp add: canonical_less ac assms(10))
  then show ?thesis using pairs_exact[OF assms(1-3) 3(3)] 1(1) 2(1) 3(1) by metis
qed

lemma flag_loses_pair_witness:
  "\<exists>ps1 r1 ps2 r2 ps3 r3 pairs. FlagContradiction edge_lib (edge_store []) edge_ws edge_a edge_b 0 = (ps1, r1) \<and>
     FlagContradiction edge_lib ps1 edge_ws edge_a (replicate 16 4) 0 = (ps2, r2) \<and>
     FlagContradiction edge_lib ps2 edge_ws edge_b (replicate 16 4) 0 = (ps3, r3) \<and>
     GetContradictions edge_lib ps3 edge_ws = Inr pairs \<and> (edge_a, edge_b) \<notin> set pairs"
proof -
  let ?c = "replicate 16 4"
  obtain ps1 r1 where 1: "FlagContradiction edge_lib (edge_store []) edge_ws edge_a edge_b 0 = (ps1, r1)" by fastforce
  obtain ps2 r2 where 2: "FlagContradiction edge_lib ps1 edge_ws edge_a ?c 0 = (ps2, r2)" by fastforce
  obtain ps3 r3 where 3: "FlagContradiction edge_lib ps2 edge_ws edge_b ?c 0 = (ps3, r3)" by fastforce
  have t: "assoc_time_ok 0" by (simp add: assoc_time_ok_def)
  have c: "length ?c = 16" "edge_b < ?c" by (simp_all add: edge_b_def replicate_16_less)
  show ?thesis
    using flag_loses_pair[OF edge_lib_simps edge_lengths(1) no_markers no_marks edge_lengths(2,3) c(1) edge_a_less_b
        c(2) t t t 1 2 3] 1 2 3 c(2) edge_a_b by auto
qed
section \<open>The contradiction worker\<close>

definition all_markers :: "(bytes \<rightharpoonup> bytes) \<Rightarrow> bool" where
  "all_markers m \<longleftrightarrow> (\<forall>ws. length ws = 8 \<longrightarrow> only_markers m ws)"

definition item_ok :: "ContradictItem \<Rightarrow> bool" where
  "item_ok it \<longleftrightarrow> length (ci_WS it) = 8 \<and> (\<forall>a \<in> set (ci_Associations it). length (ca_TargetID a) = 16)"

text \<open>The pairs an item flags, by the marker that decides whether each is new.\<close>

definition deciding :: "ContradictItem \<Rightarrow> ContradictAssoc \<times> ContradictAssoc \<Rightarrow> bytes" where
  "deciding it ab = marker_key (ci_WS it) (fst (canonical_pair (ca_TargetID (fst ab)) (ca_TargetID (snd ab))))"

definition conflicting :: "ContradictAssoc \<times> ContradictAssoc \<Rightarrow> bool" where
  "conflicting ab \<longleftrightarrow> f64_positive (ContradictionSeverity (ca_RelType (fst ab)) (ca_RelType (snd ab)))"

lemma assoc_pairs_set: "(a, b) \<in> set (assoc_pairs xs) \<Longrightarrow> a \<in> set xs \<and> b \<in> set xs"
  by (induction xs) auto

lemma only_markers_other:
  assumes "only_markers m ws'" "length ws = 8" "length ws' = 8" "ws \<noteq> ws'"
  shows "only_markers (m(marker_key ws i \<mapsto> x, marker_key ws j \<mapsto> y)) ws'"
proof -
  have "\<not> prefix (ContradictionKeyPrefix ws') (marker_key ws l)" for l
    using assms(2-4) by (auto simp: prefix_def ContradictionKeyPrefix_def ContradictionKey_def append_eq_append_conv)
  then show ?thesis using assms(1) unfolding only_markers_def by auto
qed

text \<open>One pair of one item: markers are never taken away, the deciding one is there afterwards, and an event
  needs it to have been absent.\<close>

lemma check_pair_step:
  assumes "pebble_spec (al_pebble lib) view" "pebble_reliable (al_pebble lib)" "all_markers (view (ps_db ps))"
    "\<forall>n. assoc_time_ok (clock n)" "item_ok it" "(a, b) \<in> set (assoc_pairs (ci_Associations it))"
    "check_pair lib clock it (a, b) (ps, evs, n) = (ps', evs', n')"
  shows "all_markers (view (ps_db ps')) \<and> dom (view (ps_db ps)) \<subseteq> dom (view (ps_db ps')) \<and>
    (conflicting (a, b) \<longrightarrow> deciding it (a, b) \<in> dom (view (ps_db ps'))) \<and>
    (conflicting (a, b) \<longrightarrow> deciding it (a, b) \<in> dom (view (ps_db ps)) \<longrightarrow> evs' = evs) \<and>
    (\<not> conflicting (a, b) \<longrightarrow> evs' = evs)"
proof (cases "conflicting (a, b)")
  case False
  then show ?thesis using assms(3,7) by (auto simp: check_pair_def conflicting_def Let_def)
next
  case True
  have len: "length (ci_WS it) = 8" "length (ca_TargetID a) = 16" "length (ca_TargetID b) = 16"
    using assms(5) assoc_pairs_set[OF assms(6)] by (auto simp: item_ok_def)
  obtain x y where xy: "canonical_pair (ca_TargetID a) (ca_TargetID b) = (x, y)" "length x = 16" "length y = 16"
    using canonical_pair_ids[OF len(2,3)] by metis
  obtain ps1 r where f: "FlagContradiction lib ps (ci_WS it) (ca_TargetID a) (ca_TargetID b) (clock n) = (ps1, r)" by fastforce
  have om: "only_markers (view (ps_db ps)) (ci_WS it)" using assms(3) len(1) by (simp add: all_markers_def)
  obtain t where e: "r = Inr (marks (view (ps_db ps)) (ci_WS it) x = None)"
      "view (ps_db ps1) = (view (ps_db ps))(marker_key (ci_WS it) x \<mapsto> encodeContradictionValue y t,
        marker_key (ci_WS it) y \<mapsto> encodeContradictionValue x t)"
      "only_markers (view (ps_db ps1)) (ci_WS it)"
    using flag_effect[OF assms(1,2) len(1) om xy(2,3) spec[OF assms(4)] f xy(1)] by blast
  have ps': "ps' = ps1" "marks (view (ps_db ps)) (ci_WS it) x \<noteq> None \<Longrightarrow> evs' = evs"
    using assms(7) True f e(1) by (auto simp: check_pair_def conflicting_def Let_def split: if_splits)
  have d: "deciding it (a, b) = marker_key (ci_WS it) x" by (simp add: deciding_def xy(1))
  have "all_markers (view (ps_db ps1))"
    using assms(3) e(3) only_markers_other[OF _ len(1)] unfolding all_markers_def e(2) by metis
  moreover have "marks (view (ps_db ps)) (ci_WS it) x \<noteq> None" if "marker_key (ci_WS it) x \<in> dom (view (ps_db ps))"
  proof -
    have "view (ps_db ps) (marker_key (ci_WS it) x) \<noteq> None" using that by auto
    then show ?thesis using om len(1) by (rule_tac only_markers_marks) auto
  qed
  ultimately show ?thesis using True ps' by (auto simp: d e(2))
qed

lemma check_pairs_fold:
  assumes "pebble_spec (al_pebble lib) view" "pebble_reliable (al_pebble lib)" "\<forall>n. assoc_time_ok (clock n)" "item_ok it"
  shows "all_markers (view (ps_db ps)) \<Longrightarrow> set xs \<subseteq> set (assoc_pairs (ci_Associations it)) \<Longrightarrow>
    fold (check_pair lib clock it) xs (ps, evs, n) = (ps', evs', n') \<Longrightarrow>
    all_markers (view (ps_db ps')) \<and> dom (view (ps_db ps)) \<subseteq> dom (view (ps_db ps')) \<and>
    (\<forall>ab \<in> set xs. conflicting ab \<longrightarrow> deciding it ab \<in> dom (view (ps_db ps'))) \<and>
    ((\<forall>ab \<in> set xs. conflicting ab \<longrightarrow> deciding it ab \<in> dom (view (ps_db ps))) \<longrightarrow> evs' = evs)"
proof (induction xs arbitrary: ps evs n)
  case Nil
  then show ?case by simp
next
  case (Cons ab xs)
  obtain a b where ab: "ab = (a, b)" by fastforce
  obtain ps1 evs1 n1 where c: "check_pair lib clock it (a, b) (ps, evs, n) = (ps1, evs1, n1)" by (metis prod_cases3)
  have "(a, b) \<in> set (assoc_pairs (ci_Associations it))" using Cons.prems(2) ab by simp
  note s = check_pair_step[OF assms(1,2) Cons.prems(1) assms(3,4) this c]
  have "fold (check_pair lib clock it) xs (ps1, evs1, n1) = (ps', evs', n')" using Cons.prems(3) c ab by simp
  then have i: "all_markers (view (ps_db ps')) \<and> dom (view (ps_db ps1)) \<subseteq> dom (view (ps_db ps')) \<and>
    (\<forall>ab \<in> set xs. conflicting ab \<longrightarrow> deciding it ab \<in> dom (view (ps_db ps'))) \<and>
    ((\<forall>ab \<in> set xs. conflicting ab \<longrightarrow> deciding it ab \<in> dom (view (ps_db ps1))) \<longrightarrow> evs' = evs1)"
    using Cons.IH[of ps1 evs1 n1] s Cons.prems(2) by simp
  show ?case using s i unfolding ab by (auto 0 4)
qed

lemma items_fold:
  assumes "pebble_spec (al_pebble lib) view" "pebble_reliable (al_pebble lib)" "\<forall>n. assoc_time_ok (clock n)"
  shows "all_markers (view (ps_db ps)) \<Longrightarrow> \<forall>it \<in> set its. item_ok it \<Longrightarrow>
    fold (\<lambda>it. fold (check_pair lib clock it) (assoc_pairs (ci_Associations it))) its (ps, evs, n) = (ps', evs', n') \<Longrightarrow>
    all_markers (view (ps_db ps')) \<and> dom (view (ps_db ps)) \<subseteq> dom (view (ps_db ps')) \<and>
    (\<forall>it \<in> set its. \<forall>ab \<in> set (assoc_pairs (ci_Associations it)).
       conflicting ab \<longrightarrow> deciding it ab \<in> dom (view (ps_db ps'))) \<and>
    ((\<forall>it \<in> set its. \<forall>ab \<in> set (assoc_pairs (ci_Associations it)).
       conflicting ab \<longrightarrow> deciding it ab \<in> dom (view (ps_db ps))) \<longrightarrow> evs' = evs)"
proof (induction its arbitrary: ps evs n)
  case Nil
  then show ?case by simp
next
  case (Cons it its)
  obtain ps1 evs1 n1 where c: "fold (check_pair lib clock it) (assoc_pairs (ci_Associations it)) (ps, evs, n) = (ps1, evs1, n1)"
    by (metis prod_cases3)
  have ok: "item_ok it" using Cons.prems(2) by simp
  note s = check_pairs_fold[OF assms ok Cons.prems(1) subset_refl c]
  have "fold (\<lambda>it. fold (check_pair lib clock it) (assoc_pairs (ci_Associations it))) its (ps1, evs1, n1) = (ps', evs', n')"
    using Cons.prems(3) c by simp
  then have i: "all_markers (view (ps_db ps')) \<and> dom (view (ps_db ps1)) \<subseteq> dom (view (ps_db ps')) \<and>
    (\<forall>it \<in> set its. \<forall>ab \<in> set (assoc_pairs (ci_Associations it)).
       conflicting ab \<longrightarrow> deciding it ab \<in> dom (view (ps_db ps'))) \<and>
    ((\<forall>it \<in> set its. \<forall>ab \<in> set (assoc_pairs (ci_Associations it)).
       conflicting ab \<longrightarrow> deciding it ab \<in> dom (view (ps_db ps1))) \<longrightarrow> evs' = evs1)"
    using Cons.IH[of ps1 evs1 n1] s Cons.prems(2) by simp
  show ?case using s i by (auto 0 4)
qed

text \<open>C36. The penalty for a contradiction is paid once.  When no call of the store fails, running the
  contradiction worker again over items it has processed reports no event, whatever else it processed
  with them or between the two runs: so no engram loses confidence a second time for the same pair.\<close>

theorem worker_penalises_once:
  assumes "pebble_spec (al_pebble lib) view" "pebble_reliable (al_pebble lib)" "all_markers (view (ps_db ps))"
    "\<forall>n. assoc_time_ok (clock n)" "\<forall>it \<in> set batch \<union> set other. item_ok it"
    "processBatch lib clock batch ps = (ps1, evs1)" "processBatch lib clock other ps1 = (ps2, evs2)"
    "set again \<subseteq> set batch \<union> set other" "processBatch lib clock again ps2 = (ps3, evs3)"
  shows "evs3 = []"
proof -
  let ?run = "\<lambda>its. fold (\<lambda>it. fold (check_pair lib clock it) (assoc_pairs (ci_Associations it))) its"
  have run: "\<exists>n. ?run its (p, [], 0) = (p', ev, n)" if "processBatch lib clock its p = (p', ev)" for its p p' ev
    using that by (auto simp: processBatch_def split: prod.splits)
  obtain n1 where 1: "?run batch (ps, [], 0) = (ps1, evs1, n1)" using run[OF assms(6)] by blast
  obtain n2 where 2: "?run other (ps1, [], 0) = (ps2, evs2, n2)" using run[OF assms(7)] by blast
  obtain n3 where 3: "?run again (ps2, [], 0) = (ps3, evs3, n3)" using run[OF assms(9)] by blast
  have ok: "\<forall>it \<in> set batch. item_ok it" "\<forall>it \<in> set other. item_ok it" "\<forall>it \<in> set again. item_ok it"
    using assms(5,8) by auto
  note s1 = items_fold[OF assms(1,2,4,3) ok(1) 1]
  note s2 = items_fold[OF assms(1,2,4) conjunct1[OF s1] ok(2) 2]
  note s3 = items_fold[OF assms(1,2,4) conjunct1[OF s2] ok(3) 3]
  have "\<forall>it \<in> set again. \<forall>ab \<in> set (assoc_pairs (ci_Associations it)).
      conflicting ab \<longrightarrow> deciding it ab \<in> dom (view (ps_db ps2))"
  proof (intro ballI impI)
    fix it ab assume a: "it \<in> set again" "ab \<in> set (assoc_pairs (ci_Associations it))" "conflicting ab"
    then consider "it \<in> set batch" | "it \<in> set other" using assms(8) by blast
    then show "deciding it ab \<in> dom (view (ps_db ps2))"
    proof cases
      case 1
      then have "deciding it ab \<in> dom (view (ps_db ps1))"
        using s1[THEN conjunct2, THEN conjunct2, THEN conjunct1] a(2,3) by blast
      then show ?thesis using s2[THEN conjunct2, THEN conjunct1] by blast
    next
      case 2
      then show ?thesis using s2[THEN conjunct2, THEN conjunct2, THEN conjunct1] a(2,3) by blast
    qed
  qed
  then show ?thesis using s3[THEN conjunct2, THEN conjunct2, THEN conjunct2] by (rule_tac mp)
qed

definition link_item :: ContradictItem where
  "link_item = \<lparr>ci_WS = edge_ws, ci_EngramID = edge_a, ci_ConceptHash = 0,
     ci_Associations = [\<lparr>ca_EngramID = edge_a, ca_TargetID = edge_b, ca_TargetHash = 0, ca_RelType = 2\<rparr>,
       \<lparr>ca_EngramID = edge_b, ca_TargetID = edge_a, ca_TargetHash = 0, ca_RelType = 1\<rparr>],
     ci_OnFound = True\<rparr>"

lemma worker_penalises_once_witness:
  "\<exists>ps1 ps2 ev. processBatch edge_lib (\<lambda>n. 0) [link_item] (edge_store []) = (ps1, [ev]) \<and>
     processBatch edge_lib (\<lambda>n. 0) [link_item] ps1 = (ps2, [])"
proof -
  let ?clock = "\<lambda>n :: nat. 0 :: time"
  have t: "assoc_time_ok 0" by (simp add: assoc_time_ok_def)
  have ok: "item_ok link_item" by (simp add: item_ok_def link_item_def)
  have am: "all_markers (map_of (ps_db (edge_store [])))"
    by (simp add: all_markers_def only_markers_def edge_store_def ContradictionKeyPrefix_def EngramKey_def
        pfx_Contradiction_def pfx_Engram_def)
  obtain psf r where f: "FlagContradiction edge_lib (edge_store []) edge_ws edge_b edge_a 0 = (psf, r)" by fastforce
  have c: "canonical_pair edge_b edge_a = (edge_a, edge_b)" by (simp add: canonical_less edge_a_less_b)
  have "r = Inr True"
    using flag_effect[OF edge_lib_simps edge_lengths(1) no_markers edge_lengths(2,3) t f c] by (simp add: no_marks)
  moreover have "ContradictionSeverity 2 1 = 0x3FF0000000000000"
    by (simp add: ContradictionSeverity_def contraMat_def setContra_def)
  moreover have "f64_positive 0x3FF0000000000000" by (simp add: f64_positive_def)
  ultimately have "\<exists>ev n. check_pair edge_lib ?clock link_item
      (\<lparr>ca_EngramID = edge_a, ca_TargetID = edge_b, ca_TargetHash = 0, ca_RelType = 2\<rparr>,
       \<lparr>ca_EngramID = edge_b, ca_TargetID = edge_a, ca_TargetHash = 0, ca_RelType = 1\<rparr>) (edge_store [], [], 0) = (psf, [ev], n)"
    unfolding check_pair_def Let_def prod.case by (simp add: f link_item_def)
  then obtain ev where 1: "processBatch edge_lib ?clock [link_item] (edge_store []) = (psf, [ev])"
    by (auto simp: processBatch_def link_item_def)
  obtain ps2 evs2 where 2: "processBatch edge_lib ?clock [] psf = (ps2, evs2)" by fastforce
  obtain ps3 evs3 where 3: "processBatch edge_lib ?clock [link_item] ps2 = (ps3, evs3)" by fastforce
  have "ps2 = psf" using 2 by (simp add: processBatch_def)
  moreover have "evs3 = []"
    by (rule worker_penalises_once[OF edge_lib_simps am _ _ 1 2 _ 3]) (simp_all add: t ok)
  ultimately show ?thesis using 1 3 by blast
qed

end
