(* ===== verification/Contra_Gate.thy ===== *)
theory Contra_Gate
  imports Contra_Props
begin

text \<open>Properties of the vault's mark and of the gate of recall.\<close>

section \<open>Edges and the mark\<close>

definition contra_row :: "bytes \<Rightarrow> bytes \<Rightarrow> bytes \<Rightarrow> bool" where
  "contra_row ws k v \<longleftrightarrow> prefix (pfx_AssocFwd # ws) k \<and> 45 \<le> length k \<and> am_relType (decodeAssocValue v) = RelContradicts"

definition has_contradicts :: "(bytes \<rightharpoonup> bytes) \<Rightarrow> bytes \<Rightarrow> bool" where
  "has_contradicts m ws \<longleftrightarrow> (\<exists>k v. m k = Some v \<and> contra_row ws k v)"

definition mark_of :: "(bytes \<rightharpoonup> bytes) \<Rightarrow> bytes \<Rightarrow> u8 option" where
  "mark_of m ws = (case m (DeclaredContradictionMarkKey ws) of None \<Rightarrow> None | Some v \<Rightarrow> if v = [] then None else Some (v ! 0))"

lemma mark_view:
  assumes "pebble_spec (al_pebble lib) view" "DeclaredContradictionMark lib ps ws = Inr mark"
  shows "mark = mark_of (view (ps_db ps)) ws"
  using assms(2) spec_get_Found[OF assms(1)] spec_get_NotFound[OF assms(1)]
  by (auto simp: DeclaredContradictionMark_def mark_of_def split: get_result.splits if_splits)

lemma apply_batch_value:
  "point_ops ops \<Longrightarrow> apply_batch ops m k = Some v \<Longrightarrow> m k = Some v \<or> BSet k v \<in> set ops"
proof (induction ops arbitrary: m)
  case (Cons op ops)
  have "point_ops ops" using Cons.prems(1) by (simp add: point_ops_def)
  then have "apply_op op m k = Some v \<or> BSet k v \<in> set ops" using Cons.IH[of "apply_op op m"] Cons.prems(2) by simp
  then show ?case using Cons.prems(1) by (cases op) (auto simp: point_ops_def split: if_splits)
qed simp

lemma contradicts_batch:
  assumes "point_ops ops" "has_contradicts (apply_batch ops m) ws"
  shows "has_contradicts m ws \<or> (\<exists>k v. BSet k v \<in> set ops \<and> contra_row ws k v)"
  using assms(2) apply_batch_value[OF assms(1)] unfolding has_contradicts_def by blast

lemma scan_declared_finds:
  "ds_Records out \<noteq> [] \<or> (\<exists>(k, v) \<in> set kvs. 45 \<le> length k \<and> am_relType (decodeAssocValue v) = RelContradicts) \<Longrightarrow>
   ds_Records (scan_declared n kvs out) \<noteq> [] \<or> \<not> ds_Complete (scan_declared n kvs out)"
proof (induction n kvs out rule: scan_declared.induct)
  case (1 n out)
  then show ?case by simp
next
  case (2 n k v kvs out)
  let ?out = "out\<lparr>ds_Scanned := ds_Scanned out + 1\<rparr>"
  show ?case
  proof (cases "int (ds_Scanned out) \<ge> n")
    case False
    show ?thesis
    proof (cases "length k < 45 \<or> am_relType (decodeAssocValue v) \<noteq> RelContradicts")
      case True
      then have eq: "scan_declared n ((k, v) # kvs) out = scan_declared n kvs ?out" using False by (auto simp: Let_def)
      have "ds_Records ?out \<noteq> [] \<or> (\<exists>(k, v) \<in> set kvs. 45 \<le> length k \<and> am_relType (decodeAssocValue v) = RelContradicts)"
        using 2(4) True by auto
      then show ?thesis unfolding eq using 2(1,2) False True by (cases "length k < 45") auto
    next
      case row: False
      obtain a b where ab: "canonical_pair (sub k 9 16) (sub k 29 16) = (a, b)" by fastforce
      let ?rec = "add_declared (ds_Records ?out) a b (am_createdAt (decodeAssocValue v))"
      have eq: "scan_declared n ((k, v) # kvs) out = scan_declared n kvs (?out\<lparr>ds_Records := ?rec\<rparr>)"
        using False row ab by (simp add: Let_def)
      have "?rec \<noteq> []" by (auto simp: add_declared_def)
      then show ?thesis unfolding eq using 2(3)[OF False refl _ _ ab[symmetric] refl] row by simp
    qed
  qed simp
qed

lemma scan_sound:
  assumes "pebble_spec (al_pebble lib) view" "DeclaredContradictions lib ps ws n = Inr res"
    "has_contradicts (view (ps_db ps)) ws"
  shows "ds_Records res \<noteq> [] \<or> \<not> ds_Complete res"
proof -
  let ?p = "pfx_AssocFwd # ws"
  obtain kvs where k: "pb_iter (al_pebble lib) (ps_db ps) ?p (PrefixUpperBound ?p) = Inr kvs"
    using assms(2) by (auto simp: DeclaredContradictions_def Let_def split: sum.splits)
  obtain k0 v0 where r: "view (ps_db ps) k0 = Some v0" "contra_row ws k0 v0"
    using assms(3) unfolding has_contradicts_def by blast
  then have "(k0, v0) \<in> set kvs" using prefix_rows[OF spec_iter[OF assms(1) k]] by (simp add: contra_row_def)
  then have row: "\<exists>(k, v) \<in> set kvs. 45 \<le> length k \<and> am_relType (decodeAssocValue v) = RelContradicts"
    using r(2) unfolding contra_row_def by blast
  have "res = scan_declared (if n \<le> 0 then DefaultDeclaredContradictionScanCap else n) kvs
      \<lparr>ds_Records = [], ds_Scanned = 0, ds_Complete = True\<rparr>"
    using assms(2) k by (simp add: DeclaredContradictions_def Let_def)
  then show ?thesis using scan_declared_finds[OF disjI2[OF row]] by simp
qed

section \<open>The invariant of the gate\<close>

definition gate_inv :: "(bytes \<rightharpoonup> bytes) \<Rightarrow> ContraGate \<Rightarrow> bool" where
  "gate_inv m g \<longleftrightarrow> (\<forall>ws. length ws = 8 \<longrightarrow> has_contradicts m ws \<longrightarrow>
     mark_of m ws \<noteq> Some DeclaredContradictionNone \<and>
     (ws \<in> eg_contradictionProbeClean g \<longrightarrow>
        ws \<in> eg_contradictionsDeclared g \<or> mark_of m ws = Some DeclaredContradictionYes))"

lemma mark_key_inject [simp]: "DeclaredContradictionMarkKey ws = DeclaredContradictionMarkKey ws' \<longleftrightarrow> ws = ws'"
  by (simp add: DeclaredContradictionMarkKey_def)

lemma mark_of_upd:
  "mark_of (m(DeclaredContradictionMarkKey ws \<mapsto> [b])) ws' = (if ws' = ws then Some b else mark_of m ws')"
  by (simp add: mark_of_def)

lemma contradicts_mark_upd:
  "has_contradicts (m(DeclaredContradictionMarkKey ws \<mapsto> v)) ws' \<longleftrightarrow> has_contradicts m ws'"
proof -
  have "\<not> contra_row ws' (DeclaredContradictionMarkKey ws) x" for x
    by (auto simp: contra_row_def DeclaredContradictionMarkKey_def pfx_AssocFwd_def pfx_DeclaredContradictionMark_def)
  then show ?thesis unfolding has_contradicts_def by (metis fun_upd_apply)
qed

lemma mark_values: "DeclaredContradictionYes \<noteq> DeclaredContradictionNone"
  by (simp add: DeclaredContradictionYes_def DeclaredContradictionNone_def)

text \<open>Writing the mark leaves the edges; \<open>none\<close> is never written over \<open>yes\<close>.\<close>

lemma set_mark_view:
  assumes "pebble_spec (al_pebble lib) view" "SetDeclaredContradictionMark lib ps ws b = (ps', e)"
  shows "view (ps_db ps') = view (ps_db ps) \<or>
    view (ps_db ps') = (view (ps_db ps))(DeclaredContradictionMarkKey ws \<mapsto> [b])"
  using assms(2) spec_set[OF assms(1)]
  by (auto simp: SetDeclaredContradictionMark_def split: if_splits sum.splits)

lemma set_mark_inv:
  assumes "pebble_spec (al_pebble lib) view" "SetDeclaredContradictionMark lib ps ws b = (ps', e)"
    "gate_inv (view (ps_db ps)) g" "b = DeclaredContradictionYes \<or> \<not> has_contradicts (view (ps_db ps)) ws"
  shows "gate_inv (view (ps_db ps')) g"
  using set_mark_view[OF assms(1,2)]
proof
  assume "view (ps_db ps') = view (ps_db ps)"
  then show ?thesis using assms(3) by simp
next
  assume v: "view (ps_db ps') = (view (ps_db ps))(DeclaredContradictionMarkKey ws \<mapsto> [b])"
  show ?thesis
    using assms(3,4) mark_values unfolding gate_inv_def v mark_of_upd contradicts_mark_upd by auto
qed

lemma probe_inv:
  assumes "pebble_spec (al_pebble lib) view" "gate_inv (view (ps_db ps)) g" "length ws = 8"
    "declaredContradictionsProbe lib ps g ws = (ps', g', r)" "ws \<notin> eg_contradictionsDeclared g"
    "mark_of (view (ps_db ps)) ws \<noteq> Some DeclaredContradictionYes"
  shows "gate_inv (view (ps_db ps')) g' \<and> (\<not> r \<longrightarrow> \<not> has_contradicts (view (ps_db ps)) ws)"
proof (cases "ws \<in> eg_contradictionProbeClean g")
  case True
  then show ?thesis using assms(2-6) by (auto simp: declaredContradictionsProbe_def gate_inv_def)
next
  case nc: False
  have rem: "gate_inv m g \<Longrightarrow> gate_inv m (remember_declared ws g)" for m
    by (auto simp: gate_inv_def remember_declared_def)
  show ?thesis
  proof (cases "DeclaredContradictions lib ps ws 0")
    case (Inl e)
    then show ?thesis using nc assms(2,4) by (auto simp: declaredContradictionsProbe_def)
  next
    case (Inr res)
    consider (found) "ds_Records res \<noteq> []" | (partial) "ds_Records res = []" "\<not> ds_Complete res"
      | (clean) "ds_Records res = []" "ds_Complete res" by blast
    then show ?thesis
    proof cases
      case found
      obtain ps1 e where s: "SetDeclaredContradictionMark lib ps ws DeclaredContradictionYes = (ps1, e)" by fastforce
      then have "ps' = ps1" "g' = remember_declared ws g" "r"
        using nc Inr found assms(4) by (auto simp: declaredContradictionsProbe_def)
      then show ?thesis using rem[OF set_mark_inv[OF assms(1) s assms(2)]] by simp
    next
      case partial
      then show ?thesis using nc Inr assms(2,4) rem by (auto simp: declaredContradictionsProbe_def)
    next
      case clean
      then have no: "\<not> has_contradicts (view (ps_db ps)) ws" using scan_sound[OF assms(1) Inr] by blast
      obtain ps1 e where s: "SetDeclaredContradictionMark lib ps ws DeclaredContradictionNone = (ps1, e)" by fastforce
      then have r: "ps' = ps1" "g' = g\<lparr>eg_contradictionProbeClean := insert ws (eg_contradictionProbeClean g)\<rparr>" "\<not> r"
        using nc Inr clean assms(4) by (auto simp: declaredContradictionsProbe_def)
      have "gate_inv (view (ps_db ps1)) g" using set_mark_inv[OF assms(1) s assms(2)] no by blast
      moreover have "\<not> has_contradicts (view (ps_db ps1)) ws"
        using set_mark_view[OF assms(1) s] no contradicts_mark_upd by metis
      ultimately show ?thesis using no r by (auto simp: gate_inv_def)
    qed
  qed
qed

lemma gate_query:
  assumes "pebble_spec (al_pebble lib) view" "gate_inv (view (ps_db ps)) g" "length ws = 8"
    "vaultMayHaveContradictions lib ps g ws = (ps', g', r)"
  shows "gate_inv (view (ps_db ps')) g'" "\<not> r \<Longrightarrow> \<not> has_contradicts (view (ps_db ps)) ws"
proof -
  have rem: "gate_inv m g \<Longrightarrow> gate_inv m (remember_declared ws g)" for m
    by (auto simp: gate_inv_def remember_declared_def)
  have "gate_inv (view (ps_db ps')) g' \<and> (\<not> r \<longrightarrow> \<not> has_contradicts (view (ps_db ps)) ws)"
  proof (cases "ws \<in> eg_contradictionsDeclared g")
    case True
    then show ?thesis using assms(2,4) by (auto simp: vaultMayHaveContradictions_def)
  next
    case nd: False
    show ?thesis
    proof (cases "DeclaredContradictionMark lib ps ws")
      case (Inl e)
      then show ?thesis using nd assms(2,4) by (auto simp: vaultMayHaveContradictions_def)
    next
      case (Inr mark)
      note mark = mark_view[OF assms(1) Inr]
      consider (yes) "mark = Some DeclaredContradictionYes" | (none) "mark = Some DeclaredContradictionNone"
        | (unknown) "mark \<noteq> Some DeclaredContradictionYes" "mark \<noteq> Some DeclaredContradictionNone" by blast
      then show ?thesis
      proof cases
        case yes
        then show ?thesis using nd Inr assms(2,4) rem by (auto simp: vaultMayHaveContradictions_def)
      next
        case none
        then show ?thesis using nd Inr assms(2-4) mark mark_values
          by (auto simp: vaultMayHaveContradictions_def gate_inv_def)
      next
        case unknown
        show ?thesis
        proof (cases "HasContradictionMarkers lib ps ws = Inr False")
          case False
          then show ?thesis using nd Inr unknown assms(2,4)
            by (cases "HasContradictionMarkers lib ps ws") (auto simp: vaultMayHaveContradictions_def)
        next
          case True
          then have "declaredContradictionsProbe lib ps g ws = (ps', g', r)"
            using nd Inr unknown assms(4) by (simp add: vaultMayHaveContradictions_def)
          then show ?thesis
            using probe_inv[OF assms(1,2,3) _ nd] unknown mark by blast
        qed
      qed
    qed
  qed
  then show "gate_inv (view (ps_db ps')) g'" "\<not> r \<Longrightarrow> \<not> has_contradicts (view (ps_db ps)) ws" by blast+
qed

section \<open>Every sequence of writes and queries\<close>

lemma relType_encode:
  "am_relType (decodeAssocValue (encodeAssocValue r c t l p n)) = r"
  "am_relType (decodeAssocValue (encodeArchiveValue r c t l p n x)) = r"
  unfolding decodeAssocValue_def length_encodeAssocValue length_encodeArchiveValue Let_def
  by (simp_all add: encodeAssocValue_def encodeArchiveValue_def sub_def)

lemma relType_updated: "am_relType (decodeAssocValue (updated_value old new)) = am_relType new"
  by (simp add: updated_value_def relType_encode)

lemma contra_row_keys:
  assumes "length ws = 8" "ids_ok ws' a b"
  shows "contra_row ws (AssocFwdKey nanw ws' a w b) v \<longleftrightarrow> ws = ws' \<and> am_relType (decodeAssocValue v) = RelContradicts"
    "\<not> contra_row ws (AssocRevKey nanw ws' b w a) v" "\<not> contra_row ws (AssocWeightIndexKey ws' a b) v"
    "\<not> contra_row ws (DeclaredContradictionMarkKey ws'') v" "\<not> contra_row ws (marker_key ws' i) v"
  using assms
  by (auto simp: contra_row_def ids_ok_def AssocFwdKey_def AssocRevKey_def AssocWeightIndexKey_def
      DeclaredContradictionMarkKey_def ContradictionKey_def pfx_AssocFwd_def pfx_AssocRev_def
      pfx_AssocWeightIndex_def pfx_DeclaredContradictionMark_def pfx_Contradiction_def prefix_def append_eq_append_conv)

lemma edge_sets_contra:
  assumes "length ws = 8" "ids_ok ws' a b" "BSet k v \<in> set (edge_sets nanw ws' a b w val)" "contra_row ws k v"
  shows "ws = ws' \<and> am_relType (decodeAssocValue val) = RelContradicts"
  using assms(3,4) by (auto simp: edge_sets_def contra_row_keys[OF assms(1,2)])

text \<open>An update keeps the type of the edge it finds, so it makes no first \<open>contradicts\<close> edge.\<close>

lemma update_ops_contra:
  assumes "pebble_spec (al_pebble lib) view" "length ws = 8" "ids_ok ws' a b"
    "update_ops lib ps ws' a b w n now = Inr ops" "BSet k v \<in> set ops" "contra_row ws k v"
  shows "has_contradicts (view (ps_db ps)) ws"
proof -
  obtain w0 old where u: "getAssocValueFull lib ps ws' a b = Inr old"
      "ops = (if f32_less 0 w0 then edge_deletes (al_nanw lib) ws' a b w0 else []) @
        edge_sets (al_nanw lib) ws' a b w (updated_value old (updated_meta (al_qn lib) old now w n))"
    using assms(4) by (auto simp: update_ops_def Let_def split: sum.splits)
  then have "BSet k v \<in> set (edge_sets (al_nanw lib) ws' a b w (updated_value old (updated_meta (al_qn lib) old now w n)))"
    using assms(5) by (auto simp: edge_deletes_def deleteLegacyFullWeightKeys_def split: if_splits)
  then have "ws = ws' \<and> am_relType (updated_meta (al_qn lib) old now w n) = RelContradicts"
    using edge_sets_contra[OF assms(2,3) _ assms(6)] relType_updated by metis
  then have t: "ws = ws'" "am_relType old = RelContradicts" by (auto simp: updated_meta_def Let_def)
  obtain w1 val where "pointGet lib ps (AssocFwdKey (al_nanw lib) ws' a w1 b) = Inr (Some val)" "decodeAssocValue val = old"
    using u(1) t(2) by (auto simp: getAssocValueFull_def no_assoc_meta_def RelContradicts_def split: sum.splits if_splits option.splits)
  then have "view (ps_db ps) (AssocFwdKey (al_nanw lib) ws' a w1 b) = Some val" "decodeAssocValue val = old"
    using spec_get_Found[OF assms(1)] by (auto simp: pointGet_def split: get_result.splits)
  then show ?thesis using t unfolding has_contradicts_def by (metis contra_row_keys(1)[OF assms(2,3)])
qed

lemma batch_fold_contra:
  assumes "pebble_spec (al_pebble lib) view" "length ws = 8" "pairs_ok (wu_pair ` set us)"
    "fold (\<lambda>(i, u). batch_turn lib now i u) (enumerate k us) (ps, batch, skipped, applied) = (ps', batch', s', n')"
    "BSet key v \<in> set batch'" "contra_row ws key v" "BSet key v \<notin> set batch"
  shows "has_contradicts (view (ps_db ps)) ws"
  using assms(3-7)
proof (induction us arbitrary: k ps batch skipped applied)
  case Nil
  then show ?case by simp
next
  case (Cons u us)
  obtain ps1 b1 s1 n1 where t: "batch_turn lib now k u (ps, batch, skipped, applied) = (ps1, b1, s1, n1)"
    by (metis prod_cases4)
  have ids: "ids_ok (wu_WS u) (wu_Src u) (wu_Dst u)" "pairs_ok (wu_pair ` set us)"
    using Cons.prems(1) by (auto simp: pairs_ok_def wu_pair_def)
  obtain psg g where g: "checkEndpointsLive lib ps (wu_WS u) (wu_Src u) (wu_Dst u) = (psg, g)" by fastforce
  have "ps1 = psg" using t g by (auto simp: batch_turn_def Let_def split: option.splits sum.splits)
  then have db: "ps_db ps1 = ps_db ps" "ps_db psg = ps_db ps" using guard_same[OF g] by (simp_all add: same_lists_def)
  show ?case
  proof (cases "BSet key v \<in> set b1")
    case False
    have "fold (\<lambda>(i, u). batch_turn lib now i u) (enumerate (Suc k) us) (ps1, b1, s1, n1) = (ps', batch', s', n')"
      using Cons.prems(2) t by simp
    then have "has_contradicts (view (ps_db ps1)) ws" by (rule Cons.IH[OF ids(2) _ Cons.prems(3,4) False])
    then show ?thesis using db(1) by simp
  next
    case True
    then obtain ops tm where "update_ops lib psg (wu_WS u) (wu_Src u) (wu_Dst u) (wu_Weight u) (wu_CountDelta u) tm = Inr ops"
        "BSet key v \<in> set ops"
      using t g Cons.prems(5) by (auto simp: batch_turn_def Let_def split: option.splits sum.splits)
    then show ?thesis using update_ops_contra[OF assms(1,2) ids(1) _ _ Cons.prems(4)] db(2) by metis
  qed
qed

text \<open>The steps of one process over its store: the writes of associations (with or without the note that the
  process takes of them), weight updates, detections, queries of the gate, and a restart, which forgets what
  the gate remembers.  At the start no vault with a \<open>contradicts\<close> edge carries the mark \<open>none\<close>.\<close>

inductive gate_reach :: "'db AssocLib \<Rightarrow> ('db \<Rightarrow> bytes \<rightharpoonup> bytes) \<Rightarrow> 'db AssocStore \<Rightarrow> ContraGate \<Rightarrow> bool"
  for lib view where
  gate_start: "\<forall>ws. length ws = 8 \<longrightarrow> has_contradicts (view (ps_db ps)) ws \<longrightarrow>
      mark_of (view (ps_db ps)) ws \<noteq> Some DeclaredContradictionNone \<Longrightarrow>
    gate_reach lib view ps \<lparr>eg_contradictionsDeclared = {}, eg_contradictionProbeClean = {}\<rparr>"
| gate_write: "gate_reach lib view ps g \<Longrightarrow> ids_ok ws a b \<Longrightarrow> WriteAssociation lib ps ws a b assoc = (ps', e) \<Longrightarrow>
    g' = g \<or> g' = noteContradictionDeclared g ws \<Longrightarrow> gate_reach lib view ps' g'"
| gate_update: "gate_reach lib view ps g \<Longrightarrow> ids_ok ws a b \<Longrightarrow> UpdateAssocWeight lib ps ws a b w n now = (ps', e) \<Longrightarrow>
    gate_reach lib view ps' g"
| gate_batch: "gate_reach lib view ps g \<Longrightarrow> pairs_ok (wu_pair ` set us) \<Longrightarrow>
    UpdateAssocWeightBatch lib ps us now = (ps', br) \<Longrightarrow> gate_reach lib view ps' g"
| gate_flag: "gate_reach lib view ps g \<Longrightarrow> ids_ok ws a b \<Longrightarrow> FlagContradiction lib ps ws a b now = (ps', fr) \<Longrightarrow>
    gate_reach lib view ps' g"
| gate_resolve: "gate_reach lib view ps g \<Longrightarrow> ids_ok ws a b \<Longrightarrow> ResolveContradiction lib ps ws a b = (ps', rr) \<Longrightarrow>
    gate_reach lib view ps' g"
| gate_ask: "gate_reach lib view ps g \<Longrightarrow> length ws = 8 \<Longrightarrow> vaultMayHaveContradictions lib ps g ws = (ps', g', r) \<Longrightarrow>
    gate_reach lib view ps' g'"
| gate_restart: "gate_reach lib view ps g \<Longrightarrow>
    gate_reach lib view ps \<lparr>eg_contradictionsDeclared = {}, eg_contradictionProbeClean = {}\<rparr>"

text \<open>A batch that leaves the marks and adds no \<open>contradicts\<close> row to a vault without one keeps the invariant.\<close>

lemma gate_inv_batch:
  assumes "gate_inv m g" "point_ops ops" "\<forall>ws. DeclaredContradictionMarkKey ws \<notin> op_keys ops"
    "\<forall>ws k v. length ws = 8 \<longrightarrow> BSet k v \<in> set ops \<longrightarrow> contra_row ws k v \<longrightarrow> has_contradicts m ws"
  shows "gate_inv (apply_batch ops m) g"
proof -
  have "mark_of (apply_batch ops m) ws = mark_of m ws" for ws
    using apply_batch_outside[OF assms(2), of "DeclaredContradictionMarkKey ws" m] assms(3) by (simp add: mark_of_def)
  moreover have "has_contradicts (apply_batch ops m) ws \<Longrightarrow> has_contradicts m ws" if "length ws = 8" for ws
    using contradicts_batch[OF assms(2), of m ws] assms(4) that by blast
  ultimately show ?thesis using assms(1) unfolding gate_inv_def by metis
qed

lemma mark_not_pair: "DeclaredContradictionMarkKey ws \<notin> pair_keys ws' a b"
  by (auto simp: pair_keys_def)

lemma gate_inv_write:
  assumes "pebble_spec (al_pebble lib) view" "gate_inv (view (ps_db ps)) g" "ids_ok ws a b"
    "WriteAssociation lib ps ws a b assoc = (ps', e)"
  shows "gate_inv (view (ps_db ps')) g"
  using assms(4)
proof (cases rule: WriteAssociation_cases)
  case same
  then show ?thesis using assms(2) by (simp add: same_lists_def)
next
  case (written ps1 val batch db')
  let ?sets = "edge_sets (al_nanw lib) ws a b (as_Weight assoc) val" and ?m = "view (ps_db ps)"
  have dbs: "ps_db ps1 = ps_db ps" "ps_db ps' = db'"
    using written(1,5) by (simp_all add: same_lists_def forget_lists_def noteContradictsWrite_def)
  have v: "view (ps_db ps') = apply_batch (MarkDeclaredContradictionInBatch ws (as_RelType assoc)) (apply_batch ?sets ?m)"
    by (simp only: dbs spec_commit[OF assms(1) written(4)] written(3) apply_batch_split)
  have rel: "am_relType (decodeAssocValue val) = as_RelType assoc" by (simp add: written(2) relType_encode)
  have nomark: "\<forall>ws'. DeclaredContradictionMarkKey ws' \<notin> op_keys ?sets"
    using edge_sets_keys mark_not_pair by blast
  show ?thesis
  proof (cases "as_RelType assoc = RelContradicts")
    case False
    then have "gate_inv (apply_batch ?sets ?m) g"
      using edge_sets_contra[OF _ assms(3)] rel by (intro gate_inv_batch[OF assms(2) _ nomark]) auto
    then show ?thesis unfolding v by (simp add: MarkDeclaredContradictionInBatch_def False)
  next
    case True
    let ?m' = "apply_batch ?sets ?m"
    have v': "view (ps_db ps') = ?m'(DeclaredContradictionMarkKey ws \<mapsto> [DeclaredContradictionYes])"
      unfolding v by (simp add: MarkDeclaredContradictionInBatch_def True)
    have "mark_of ?m' ws' = mark_of ?m ws'" for ws'
      using apply_batch_outside[of ?sets "DeclaredContradictionMarkKey ws'" ?m] nomark by (simp add: mark_of_def)
    moreover have "has_contradicts ?m' ws' \<Longrightarrow> ws' \<noteq> ws \<Longrightarrow> length ws' = 8 \<Longrightarrow> has_contradicts ?m ws'" for ws'
      using contradicts_batch[of ?sets ?m ws'] edge_sets_contra[OF _ assms(3)] by fastforce
    ultimately show ?thesis
      using assms(2) mark_values unfolding gate_inv_def v' mark_of_upd contradicts_mark_upd by auto
  qed
qed

lemma gate_inv_update:
  assumes "pebble_spec (al_pebble lib) view" "gate_inv (view (ps_db ps)) g" "ids_ok ws a b"
    "UpdateAssocWeight lib ps ws a b w n now = (ps', e)"
  shows "gate_inv (view (ps_db ps')) g"
  using assms(4)
proof (cases rule: UpdateAssocWeight_cases)
  case same
  then show ?thesis using assms(2) by (simp add: same_lists_def)
next
  case (written ps1 ops db')
  have dbs: "ps_db ps1 = ps_db ps" "ps_db ps' = db'"
    using written(1,4) by (simp_all add: same_lists_def forget_lists_def)
  note k = update_ops_keys[OF written(2)]
  have "\<forall>ws'. DeclaredContradictionMarkKey ws' \<notin> op_keys ops" using k mark_not_pair by blast
  moreover have "has_contradicts (view (ps_db ps)) ws'"
    if "length ws' = 8" "BSet key v \<in> set ops" "contra_row ws' key v" for ws' key v
    using update_ops_contra[OF assms(1) that(1) assms(3) written(2) that(2,3)] by (simp add: dbs(1))
  ultimately have "gate_inv (apply_batch ops (view (ps_db ps))) g" using k by (intro gate_inv_batch[OF assms(2)]) blast+
  then show ?thesis using spec_commit[OF assms(1) written(3)] by (simp add: dbs)
qed

lemma gate_inv_update_batch:
  assumes "pebble_spec (al_pebble lib) view" "gate_inv (view (ps_db ps)) g" "pairs_ok (wu_pair ` set us)"
    "UpdateAssocWeightBatch lib ps us now = (ps', br)"
  shows "gate_inv (view (ps_db ps')) g"
proof -
  obtain ps1 batch s n where t: "fold (\<lambda>(i, u). batch_turn lib (int32 now) i u) (enumerate 0 us) (ps, [], [], 0) =
      (ps1, batch, s, n)"
    by (metis prod_cases4)
  have k: "ps_db ps1 = ps_db ps" "point_ops batch" "op_keys batch \<subseteq> (\<Union>u \<in> set us. wu_keys u)"
    using batch_fold_keys[OF t] by (auto simp: op_keys_def same_lists_def)
  show ?thesis
  proof (cases "pb_commit (al_pebble lib) (ps_db ps1) batch")
    case (Inl e)
    then show ?thesis using assms(2,4) t k(1) by (auto simp: UpdateAssocWeightBatch_def)
  next
    case (Inr db')
    then have db': "ps_db ps' = db'" using assms(4) t by (auto simp: UpdateAssocWeightBatch_def fold_forget_db)
    have "\<forall>ws'. DeclaredContradictionMarkKey ws' \<notin> op_keys batch"
      using k(3) mark_not_pair unfolding wu_keys_def by blast
    moreover have "has_contradicts (view (ps_db ps)) ws'"
      if "length ws' = 8" "BSet key v \<in> set batch" "contra_row ws' key v" for ws' key v
      by (rule batch_fold_contra[OF assms(1) that(1) assms(3) t that(2,3)]) simp
    ultimately have "gate_inv (apply_batch batch (view (ps_db ps))) g"
      using k by (intro gate_inv_batch[OF assms(2)]) blast+
    then show ?thesis using spec_commit[OF assms(1) Inr] by (simp add: db' k(1))
  qed
qed

text \<open>The markers of detected pairs are neither edges nor marks.\<close>

lemma gate_inv_markers:
  assumes "gate_inv m g" "ids_ok ws a b" "op_keys ops \<subseteq> {marker_key ws a, marker_key ws b}" "point_ops ops"
  shows "gate_inv (apply_batch ops m) g"
proof (rule gate_inv_batch[OF assms(1,4)])
  show "\<forall>ws'. DeclaredContradictionMarkKey ws' \<notin> op_keys ops"
    using assms(3) by (auto simp: DeclaredContradictionMarkKey_def ContradictionKey_def
        pfx_DeclaredContradictionMark_def pfx_Contradiction_def)
  show "\<forall>ws' k v. length ws' = 8 \<longrightarrow> BSet k v \<in> set ops \<longrightarrow> contra_row ws' k v \<longrightarrow> has_contradicts m ws'"
    using assms(3) contra_row_keys(5)[OF _ assms(2)] unfolding op_keys_def by blast
qed

lemma gate_inv_flag:
  assumes "pebble_spec (al_pebble lib) view" "gate_inv (view (ps_db ps)) g" "ids_ok ws a b"
    "FlagContradiction lib ps ws a b now = (ps', e)"
  shows "gate_inv (view (ps_db ps')) g"
proof -
  obtain a' b' where ab: "canonical_pair a b = (a', b')" "length a' = 16" "length b' = 16"
    using assms(3) canonical_pair_ids[of a b] unfolding ids_ok_def by blast
  consider "ps_db ps' = ps_db ps" | t db' where "pb_commit (al_pebble lib) (ps_db ps) (marker_ops ws a' b' t) = Inr db'"
      "ps_db ps' = db'"
  proof (cases "readContradictionMarker lib ps (marker_key ws a')")
    case (Inl e)
    then show thesis using assms(4) ab(1) that(1) by (simp add: FlagContradiction_def)
  next
    case (Inr known)
    let ?t = "(case known of None \<Rightarrow> now | Some prior \<Rightarrow> prior)"
    show thesis
      using assms(4) Inr ab(1) that(1) that(2)[of ?t]
      by (cases "pb_commit (al_pebble lib) (ps_db ps) (marker_ops ws a' b' ?t)") (auto simp: FlagContradiction_def Let_def)
  qed
  then show ?thesis
  proof cases
    case 1
    then show ?thesis using assms(2) by simp
  next
    case 2
    have i: "ids_ok ws a' b'" using assms(3) ab by (simp add: ids_ok_def)
    have "gate_inv (apply_batch (marker_ops ws a' b' t) (view (ps_db ps))) g"
      by (rule gate_inv_markers[OF assms(2) i]) (auto simp: marker_ops_def op_keys_def point_ops_def)
    then show ?thesis using spec_commit[OF assms(1) 2(1)] 2(2) by simp
  qed
qed

lemma gate_inv_resolve:
  assumes "pebble_spec (al_pebble lib) view" "gate_inv (view (ps_db ps)) g" "ids_ok ws a b"
    "ResolveContradiction lib ps ws a b = (ps', e)"
  shows "gate_inv (view (ps_db ps')) g"
proof (cases "pb_commit (al_pebble lib) (ps_db ps) [BDelete (marker_key ws a), BDelete (marker_key ws b)]")
  case (Inl e)
  then show ?thesis using assms(2,4) by (auto simp: ResolveContradiction_def)
next
  case (Inr db')
  then have db': "ps_db ps' = db'" using assms(4) by (auto simp: ResolveContradiction_def)
  have "gate_inv (apply_batch [BDelete (marker_key ws a), BDelete (marker_key ws b)] (view (ps_db ps))) g"
    by (rule gate_inv_markers[OF assms(2,3)]) (auto simp: op_keys_def point_ops_def)
  then show ?thesis using spec_commit[OF assms(1) Inr] by (simp only: db')
qed

lemma gate_reach_inv:
  assumes "pebble_spec (al_pebble lib) view"
  shows "gate_reach lib view ps g \<Longrightarrow> gate_inv (view (ps_db ps)) g"
proof (induction rule: gate_reach.induct)
  case (gate_start ps)
  then show ?case by (simp add: gate_inv_def)
next
  case (gate_write ps g ws a b assoc ps' e g')
  have "gate_inv (view (ps_db ps')) g" by (rule gate_inv_write[OF assms gate_write(5,2,3)])
  then show ?case using gate_write(4) by (auto simp: gate_inv_def noteContradictionDeclared_def)
next
  case (gate_update ps g ws a b w n now ps' e)
  show ?case by (rule gate_inv_update[OF assms gate_update(4,2,3)])
next
  case (gate_batch ps g us now ps' br)
  show ?case by (rule gate_inv_update_batch[OF assms gate_batch(4,2,3)])
next
  case (gate_flag ps g ws a b now ps' fr)
  show ?case by (rule gate_inv_flag[OF assms gate_flag(4,2,3)])
next
  case (gate_resolve ps g ws a b ps' rr)
  show ?case by (rule gate_inv_resolve[OF assms gate_resolve(4,2,3)])
next
  case (gate_ask ps g ws ps' g' r)
  show ?case by (rule gate_query(1)[OF assms gate_ask(4,2,3)])
next
  case (gate_restart ps g)
  then show ?case by (auto simp: gate_inv_def)
qed

text \<open>C32. The recall gate never hides a declared contradiction.  After any sequence of association writes,
  weight updates, batches, detections, gate queries and restarts, in which any call of the store may
  fail, a gate that answers that a vault has no contradictions is right: no forward row of the vault
  is a \<open>contradicts\<close> edge.\<close>

theorem gate_never_hides:
  assumes "pebble_spec (al_pebble lib) view" "gate_reach lib view ps g" "length ws = 8"
    "vaultMayHaveContradictions lib ps g ws = (ps', g', r)" "has_contradicts (view (ps_db ps)) ws"
  shows "r"
  using gate_query(2)[OF assms(1) gate_reach_inv[OF assms(1,2)] assms(3,4)] assms(5) by blast

definition contradicts_value :: bytes where
  "contradicts_value = encodeAssocValue RelContradicts 0 0 0 0 0"

lemma stored_contradicts:
  "m (fwd_key edge_ws edge_a [0, 0, 0, 0] edge_b) = Some contradicts_value \<Longrightarrow> has_contradicts m edge_ws"
  unfolding has_contradicts_def
  by (intro exI[of _ "fwd_key edge_ws edge_a [0, 0, 0, 0] edge_b"] exI[of _ contradicts_value])
    (simp add: contra_row_def contradicts_value_def relType_encode fwd_key_def)

lemma gate_never_hides_witness:
  "snd (snd (vaultMayHaveContradictions edge_lib (edge_store [(fwd_key edge_ws edge_a [0, 0, 0, 0] edge_b, contradicts_value)])
     \<lparr>eg_contradictionsDeclared = {}, eg_contradictionProbeClean = {}\<rparr> edge_ws))"
proof -
  let ?ps = "edge_store [(fwd_key edge_ws edge_a [0, 0, 0, 0] edge_b, contradicts_value)]"
  let ?g = "\<lparr>eg_contradictionsDeclared = {}, eg_contradictionProbeClean = {}\<rparr>"
  obtain ps' g' r where q: "vaultMayHaveContradictions edge_lib ?ps ?g edge_ws = (ps', g', r)" by (metis prod_cases3)
  have "gate_reach edge_lib map_of ?ps ?g"
    by (rule gate_start) (simp add: mark_of_def edge_store_def)
  moreover have "has_contradicts (map_of (ps_db ?ps)) edge_ws" by (rule stored_contradicts) (simp add: edge_store_def)
  ultimately have "r" by (rule gate_never_hides[OF edge_lib_simps(1) _ edge_lengths(1) q])
  then show ?thesis by (simp add: q)
qed

lemma no_rows_iter:
  assumes "pebble_spec pb view" "pebble_reliable pb" "\<forall>k. prefix p k \<longrightarrow> view d k = None"
  shows "pb_iter pb d p (PrefixUpperBound p) = Inr []"
proof -
  obtain kvs where k: "pb_iter pb d p (PrefixUpperBound p) = Inr kvs"
    using assms(2) by (cases "pb_iter pb d p (PrefixUpperBound p)") (auto simp: pebble_reliable_def)
  have "(a, b) \<notin> set kvs" for a b
    using prefix_rows[OF spec_iter[OF assms(1) k], of a b] assms(3) by simp
  then show ?thesis using k by (cases kvs) auto
qed

text \<open>C33. A merge can blind the gate of a running process.  The process probes a vault without a mark, finds
  nothing and remembers the vault as clean.  A bulk copy then brings a \<open>contradicts\<close> edge into the vault
  from a source that is not marked, and the reconciliation deletes the vault's mark, which the code means
  as: unknown, so the gate probes again.  But the gate finds the vault in its memory and answers that it
  has no contradictions, while the same store gives the opposite answer to a fresh process.\<close>

theorem merge_blinds_gate:
  assumes "pebble_spec (al_pebble lib) view" "pebble_reliable (al_pebble lib)" "length ws = 8"
    "mark_of (view (ps_db ps)) ws = None"
    "vaultMayHaveContradictions lib ps \<lparr>eg_contradictionsDeclared = {}, eg_contradictionProbeClean = {}\<rparr> ws = (ps1, g1, False)"
    "has_contradicts (view (ps_db ps2)) ws" "\<forall>k. prefix (ContradictionKeyPrefix ws) k \<longrightarrow> view (ps_db ps2) k = None"
    "ReconcileDeclaredContradictionMarkAfterBulkCopy lib ps2 ws True False = (ps3, e)"
  shows "has_contradicts (view (ps_db ps3)) ws \<and> snd (snd (vaultMayHaveContradictions lib ps3 g1 ws)) = False \<and>
    snd (snd (vaultMayHaveContradictions lib ps3 \<lparr>eg_contradictionsDeclared = {}, eg_contradictionProbeClean = {}\<rparr> ws)) = True"
proof -
  let ?g0 = "\<lparr>eg_contradictionsDeclared = {}, eg_contradictionProbeClean = {}\<rparr>"
  obtain db' where c: "pb_commit (al_pebble lib) (ps_db ps2) [BDelete (DeclaredContradictionMarkKey ws)] = Inr db'"
    using reliable_commit[OF assms(2)] by blast
  have "ps_db ps3 = db'"
    using assms(8) c by (auto simp: ReconcileDeclaredContradictionMarkAfterBulkCopy_def DeleteDeclaredContradictionMark_def)
  then have v: "view (ps_db ps3) = (view (ps_db ps2))(DeclaredContradictionMarkKey ws := None)"
    using spec_commit[OF assms(1) c] by simp
  have "contra_row ws k x \<Longrightarrow> k \<noteq> DeclaredContradictionMarkKey ws" for k x
    by (auto simp: contra_row_def DeclaredContradictionMarkKey_def pfx_AssocFwd_def pfx_DeclaredContradictionMark_def)
  then have edge: "has_contradicts (view (ps_db ps3)) ws"
    using assms(6) unfolding has_contradicts_def v by (metis fun_upd_other)
  have mk: "DeclaredContradictionMark lib p ws = Inr (mark_of (view (ps_db p)) ws)" for p
    using mark_view[OF assms(1), of p ws] reliable_get[OF assms(2)]
    by (cases "DeclaredContradictionMark lib p ws") (auto simp: DeclaredContradictionMark_def split: get_result.splits if_splits)
  have none: "mark_of (view (ps_db ps3)) ws = None" by (simp add: mark_of_def v)
  have nomarkers: "HasContradictionMarkers lib ps3 ws = Inr False"
  proof -
    let ?p = "ContradictionKeyPrefix ws"
    have "pb_iter (al_pebble lib) (ps_db ps3) ?p (PrefixUpperBound ?p) = Inr []"
      using assms(7) unfolding v[symmetric] by (intro no_rows_iter[OF assms(1,2)]) (simp add: v)
    then show ?thesis by (simp add: HasContradictionMarkers_def contra_iter_def)
  qed
  have clean: "ws \<in> eg_contradictionProbeClean g1" "ws \<notin> eg_contradictionsDeclared g1"
    using assms(5) mk[of ps] assms(4)
    by (auto simp: vaultMayHaveContradictions_def declaredContradictionsProbe_def split: sum.splits if_splits)
  obtain res where scan: "DeclaredContradictions lib ps3 ws 0 = Inr res"
    using assms(2) by (cases "DeclaredContradictions lib ps3 ws 0")
      (auto simp: DeclaredContradictions_def pebble_reliable_def Let_def split: sum.splits)
  have "snd (snd (vaultMayHaveContradictions lib ps3 ?g0 ws))"
    using scan_sound[OF assms(1) scan edge]
    by (auto simp: vaultMayHaveContradictions_def declaredContradictionsProbe_def mk none nomarkers scan)
  then show ?thesis
    using edge clean by (simp add: vaultMayHaveContradictions_def declaredContradictionsProbe_def mk none nomarkers)
qed

lemma gate_of_empty:
  "\<exists>ps1 g1. vaultMayHaveContradictions edge_lib (edge_store [])
     \<lparr>eg_contradictionsDeclared = {}, eg_contradictionProbeClean = {}\<rparr> edge_ws = (ps1, g1, False)"
proof -
  have none: "pb_iter (al_pebble edge_lib) (ps_db (edge_store [])) p (PrefixUpperBound p) = Inr []"
    if "p = ContradictionKeyPrefix edge_ws \<or> p = pfx_AssocFwd # edge_ws" for p
    using that by (intro no_rows_iter[OF edge_lib_simps])
      (auto simp: edge_store_def ContradictionKeyPrefix_def EngramKey_def pfx_Contradiction_def pfx_Engram_def pfx_AssocFwd_def)
  have "DeclaredContradictionMark edge_lib (edge_store []) edge_ws = Inr None"
    using spec_get_None[OF edge_lib_simps(1), of "ps_db (edge_store [])" "DeclaredContradictionMarkKey edge_ws"]
      reliable_get[OF edge_lib_simps(2)]
    by (auto simp: DeclaredContradictionMark_def edge_store_def)
  then show ?thesis
    by (simp add: vaultMayHaveContradictions_def declaredContradictionsProbe_def HasContradictionMarkers_def
        contra_iter_def DeclaredContradictions_def Let_def none)
qed

lemma merge_blinds_gate_witness:
  "\<exists>ps1 g1 ps3. vaultMayHaveContradictions edge_lib (edge_store [])
       \<lparr>eg_contradictionsDeclared = {}, eg_contradictionProbeClean = {}\<rparr> edge_ws = (ps1, g1, False) \<and>
     ReconcileDeclaredContradictionMarkAfterBulkCopy edge_lib
       (edge_store [(fwd_key edge_ws edge_a [0, 0, 0, 0] edge_b, contradicts_value)]) edge_ws True False = (ps3, None) \<and>
     snd (snd (vaultMayHaveContradictions edge_lib ps3 g1 edge_ws)) = False"
proof -
  let ?ps2 = "edge_store [(fwd_key edge_ws edge_a [0, 0, 0, 0] edge_b, contradicts_value)]"
  obtain ps1 g1 where q: "vaultMayHaveContradictions edge_lib (edge_store [])
      \<lparr>eg_contradictionsDeclared = {}, eg_contradictionProbeClean = {}\<rparr> edge_ws = (ps1, g1, False)"
    using gate_of_empty by blast
  obtain db' where "pb_commit (al_pebble edge_lib) (ps_db ?ps2) [BDelete (DeclaredContradictionMarkKey edge_ws)] = Inr db'"
    using reliable_commit[OF edge_lib_simps(2)] by blast
  then obtain ps3 where r: "ReconcileDeclaredContradictionMarkAfterBulkCopy edge_lib ?ps2 edge_ws True False = (ps3, None)"
    by (simp add: ReconcileDeclaredContradictionMarkAfterBulkCopy_def DeleteDeclaredContradictionMark_def)
  have m: "mark_of (map_of (ps_db (edge_store []))) edge_ws = None" by (simp add: mark_of_def edge_store_def)
  have e: "has_contradicts (map_of (ps_db ?ps2)) edge_ws" by (rule stored_contradicts) (simp add: edge_store_def)
  have n: "\<forall>k. prefix (ContradictionKeyPrefix edge_ws) k \<longrightarrow> map_of (ps_db ?ps2) k = None"
    by (simp add: edge_store_def ContradictionKeyPrefix_def EngramKey_def fwd_key_def pfx_Contradiction_def pfx_Engram_def
        pfx_AssocFwd_def)
  show ?thesis
    using merge_blinds_gate[OF edge_lib_simps edge_lengths(1) m q e n r] q r by blast
qed

end
