(* ===== verification/Wal.thy ===== *)
theory Wal
  imports Erf_Format Pebble
begin

text \<open>
  The operation log (\<open>internal/wal/mol.go\<close>): records with a header of 32 bytes, a payload and a CRC-32C,
  appended to an active segment that is renamed when it is sealed, and the group committer that batches
  the writes of concurrent callers into one \<open>fsync\<close>.

  The directory is the list of its files in the order of their names, which is the order in which \<open>Glob\<close>
  returns them.  \<open>mol_synced\<close> is how much of the active segment the last \<open>fsync\<close> made durable; the code does
  not keep it, a crash does.  What the operating system answers is an argument.  The reads of a file that fail
  for another reason than its end are not modelled.
\<close>

section \<open>Records\<close>

definition MOLMagic :: u32 where "MOLMagic = 0x4D4F4C20"
definition EntryHeaderSize :: nat where "EntryHeaderSize = 32 + 4"
definition OpEngramWrite :: u16 where "OpEngramWrite = 0x0001"
definition OpEngramUpdate :: u16 where "OpEngramUpdate = 0x0002"
definition OpEngramForget :: u16 where "OpEngramForget = 0x0003"
definition OpEngramPurge :: u16 where "OpEngramPurge = 0x0004"
definition OpAssocLink :: u16 where "OpAssocLink = 0x0005"
definition OpAssocUnlink :: u16 where "OpAssocUnlink = 0x0006"
definition OpHebbianBatch :: u16 where "OpHebbianBatch = 0x0007"
definition OpDecayBatch :: u16 where "OpDecayBatch = 0x0008"
definition OpVaultCreate :: u16 where "OpVaultCreate = 0x0009"
definition OpVaultUpdate :: u16 where "OpVaultUpdate = 0x000A"
definition OpCheckpoint :: u16 where "OpCheckpoint = 0x00FF"
definition MolFlagCompressed :: u8 where "MolFlagCompressed = 1"
definition MolFlagLargeBatch :: u8 where "MolFlagLargeBatch = 2"
definition MolFlagCheckpoint :: u8 where "MolFlagCheckpoint = 4"
definition DefaultMaxSegmentSize :: int where "DefaultMaxSegmentSize = 256 * 1024 * 1024"
definition DefaultMaxGroupSize :: nat where "DefaultMaxGroupSize = 1000"

text \<open>The time stamp, an \<open>int64\<close>, is kept as its 64 bits.\<close>

record MOLEntry =
  me_SeqNum :: u64
  me_Timestamp :: u64
  me_OpType :: u16
  me_VaultID :: u32
  me_PayloadLen :: u32
  me_Flags :: u8
  me_Payload :: bytes

definition mol_header :: "MOLEntry \<Rightarrow> bytes" where
  "mol_header e =
     PutUint32 MOLMagic @ PutUint64 (me_SeqNum e) @ PutUint64 (me_Timestamp e) @ PutUint16 (me_OpType e) @
     PutUint32 (me_VaultID e) @ PutUint32 (word_of_nat (length (me_Payload e))) @ [me_Flags e, 0]"

definition marshalEntry :: "MOLEntry \<Rightarrow> bytes" where
  "marshalEntry e =
     (let buf = mol_header e @ me_Payload e in buf @ PutUint32 (ComputeCRC32 buf))"

definition crc32_Update :: "u32 \<Rightarrow> bytes \<Rightarrow> u32" where
  "crc32_Update crc data = NOT (foldl crc32_byte (NOT crc) data)"

definition maxPayloadLen :: nat where "maxPayloadLen = 67108864"

text \<open>One turn of the loops that read records: what the bytes from here on begin with.\<close>

datatype record_read =
    EndOfRecords | BadMagic | PayloadTooLarge u32 | ShortPayload | ShortCRC | CRCMismatch u64 | Record MOLEntry bytes

definition read_record :: "bytes \<Rightarrow> record_read" where
  "read_record f =
     (if length f < 32 then EndOfRecords
      else
        (let h = take 32 f; f = drop 32 f; payloadLen = Uint32 (sub h 26 4)
         in if Uint32 (sub h 0 4) \<noteq> MOLMagic then BadMagic
            else if unat payloadLen > maxPayloadLen then PayloadTooLarge payloadLen
            else if length f < unat payloadLen then ShortPayload
            else
              (let payload = take (unat payloadLen) f; f = drop (unat payloadLen) f
               in if length f < 4 then ShortCRC
                  else if crc32_Update (ComputeCRC32 h) payload \<noteq> Uint32 (take 4 f) then CRCMismatch (Uint64 (sub h 4 8))
                  else Record \<lparr>me_SeqNum = Uint64 (sub h 4 8), me_Timestamp = Uint64 (sub h 12 8),
                         me_OpType = Uint16 (sub h 20 2), me_VaultID = Uint32 (sub h 22 4), me_PayloadLen = 0,
                         me_Flags = h ! 30, me_Payload = payload\<rparr> (drop 4 f))))"

lemma read_record_shorter: "read_record f = Record e f' \<Longrightarrow> length f' < length f"
  by (auto simp: read_record_def Let_def split: if_splits)

section \<open>Files\<close>

text \<open>\<open>strconv.ParseUint(s, 10, 64)\<close>: the number, or the number returned beside the error.\<close>

fun ParseUint_loop :: "nat \<Rightarrow> string \<Rightarrow> u64 + u64" where
  "ParseUint_loop n [] = Inr (word_of_nat n)"
| "ParseUint_loop n (c # cs) =
     (if \<not> (CHR ''0'' \<le> c \<and> c \<le> CHR ''9'') then Inl 0
      else (let n = n * 10 + (of_char c - 48)
            in if n \<ge> 2 ^ 64 then Inl (- 1) else ParseUint_loop n cs))"

definition ParseUint :: "string \<Rightarrow> u64 + u64" where
  "ParseUint s = (if s = [] then Inl 0 else ParseUint_loop 0 s)"

definition TrimPrefix :: "string \<Rightarrow> string \<Rightarrow> string" where
  "TrimPrefix p s = (if take (length p) s = p then drop (length p) s else s)"

definition TrimSuffix :: "string \<Rightarrow> string \<Rightarrow> string" where
  "TrimSuffix x s =
     (if length x \<le> length s \<and> drop (length s - length x) s = x then take (length s - length x) s else s)"

definition active_name :: string where "active_name = ''mol-active.log''"

definition sealed_name :: "u64 \<Rightarrow> string" where
  "sealed_name n = ''mol-'' @ num_text (unat n) @ ''.log''"

definition segment_number :: "string \<Rightarrow> u64 + u64" where
  "segment_number base = ParseUint (TrimSuffix ''.log'' (TrimPrefix ''mol-'' base))"

definition extractMOLSeq :: "string \<Rightarrow> u64" where
  "extractMOLSeq base = (case segment_number base of Inl n \<Rightarrow> n | Inr n \<Rightarrow> n)"

type_synonym dir = "(string \<times> bytes) list"

fun dir_put :: "string \<Rightarrow> bytes \<Rightarrow> dir \<Rightarrow> dir" where
  "dir_put n c [] = [(n, c)]"
| "dir_put n c ((k, v) # d) =
     (if n = k then (n, c) # d else if n < k then (n, c) # (k, v) # d else (k, v) # dir_put n c d)"

definition dir_remove :: "string \<Rightarrow> dir \<Rightarrow> dir" where
  "dir_remove n d = filter (\<lambda>(k, v). k \<noteq> n) d"

definition glob_mol :: "dir \<Rightarrow> dir" where
  "glob_mol d = filter (\<lambda>(k, v). length k \<ge> 8 \<and> take 4 k = ''mol-'' \<and> drop (length k - 4) k = ''.log'') d"

section \<open>The log\<close>

record MOL =
  mol_dir :: dir
  mol_synced :: nat
  mol_open :: bool
  mol_size :: int
  mol_nextSeq :: u64
  mol_SealThreshold :: int

function scanSegmentMaxSeq :: "bytes \<Rightarrow> u64 \<times> bool \<Rightarrow> u64 \<times> bool" where
  "scanSegmentMaxSeq f (maxSeq, found) =
     (if length f < 32 then (maxSeq, found)
      else
        (let h = take 32 f; f = drop 32 f
         in if Uint32 (sub h 0 4) \<noteq> MOLMagic then (maxSeq, found)
            else
              (let seqNum = Uint64 (sub h 4 8);
                   maxSeq = (if seqNum > maxSeq then seqNum else maxSeq);
                   payloadLen = Uint32 (sub h 26 4)
               in if unat payloadLen > maxPayloadLen then (maxSeq, True)
                  else scanSegmentMaxSeq (drop (unat payloadLen + 4) f) (maxSeq, True))))"
  by pat_completeness auto

termination
  by (relation "measure (\<lambda>(f, r). length f)") auto

declare scanSegmentMaxSeq.simps [simp del]

definition recoverMaxSeq :: "dir \<Rightarrow> u64 \<times> bool" where
  "recoverMaxSeq d = fold (\<lambda>(k, f). scanSegmentMaxSeq f) (glob_mol d) (0, False)"

text \<open>The active segment is created when it is missing; it is among the files that the pattern matches.\<close>

definition Open_MOL :: "dir \<Rightarrow> MOL" where
  "Open_MOL d0 =
     (let d = (case map_of d0 active_name of None \<Rightarrow> dir_put active_name [] d0 | Some f \<Rightarrow> d0);
          size = length (the (map_of d active_name));
          (maxSeq, found) = recoverMaxSeq d
      in \<lparr>mol_dir = d, mol_synced = size, mol_open = True, mol_size = int size,
          mol_nextSeq = (if found then maxSeq + 1 else 0), mol_SealThreshold = DefaultMaxSegmentSize\<rparr>)"

datatype mol_error = MolWrite | MolSync | MolClose | MolRename | MolOpenActive | MolRemove string

text \<open>\<open>written\<close> is \<open>None\<close> if the operating system takes the whole record, and otherwise how much of it it
  took before it failed; \<open>now\<close> is the clock.\<close>

definition Append_MOL :: "MOL \<Rightarrow> u64 \<Rightarrow> nat option \<Rightarrow> MOLEntry \<Rightarrow> MOL \<times> MOLEntry \<times> mol_error option" where
  "Append_MOL m now written e =
     (let e = e\<lparr>me_SeqNum := mol_nextSeq m, me_Timestamp := now\<rparr>;
          m = m\<lparr>mol_nextSeq := mol_nextSeq m + 1\<rparr>;
          data = marshalEntry e
      in if \<not> mol_open m then (m, e, Some MolWrite)
         else
           (let got = (case written of None \<Rightarrow> data | Some n \<Rightarrow> take n data);
                m1 = m\<lparr>mol_dir := dir_put active_name (the (map_of (mol_dir m) active_name) @ got) (mol_dir m)\<rparr>
            in if written \<noteq> None then (m1, e, Some MolWrite)
               else (m1\<lparr>mol_size := mol_size m + int (length data)\<rparr>, e, None)))"

definition Sync_MOL :: "MOL \<Rightarrow> bool \<Rightarrow> MOL \<times> mol_error option" where
  "Sync_MOL m fails =
     (if \<not> mol_open m \<or> fails then (m, Some MolSync)
      else (m\<lparr>mol_synced := length (the (map_of (mol_dir m) active_name))\<rparr>, None))"

definition Close_MOL :: "MOL \<Rightarrow> MOL" where
  "Close_MOL m = m\<lparr>mol_open := False\<rparr>"

definition MaybeSealSegment :: "MOL \<Rightarrow> mol_error option \<Rightarrow> MOL \<times> mol_error option" where
  "MaybeSealSegment m fault =
     (if mol_size m < mol_SealThreshold m then (m, None)
      else if \<not> mol_open m \<or> fault = Some MolClose then (m\<lparr>mol_open := False\<rparr>, Some MolClose)
      else
        (let m = m\<lparr>mol_open := False\<rparr>;
             seqNum = mol_nextSeq m - 1;
             f = the (map_of (mol_dir m) active_name)
         in if fault = Some MolRename then (m, fault)
            else
              (let d = dir_put (sealed_name seqNum) f (dir_remove active_name (mol_dir m))
               in if fault = Some MolOpenActive then (m\<lparr>mol_dir := d\<rparr>, fault)
                  else (m\<lparr>mol_dir := dir_put active_name [] d, mol_synced := 0, mol_open := True, mol_size := 0\<rparr>, None))))"

text \<open>\<open>removes k\<close> says whether the operating system removes the file \<open>k\<close>.\<close>

fun prune_loop :: "(string \<Rightarrow> bool) \<Rightarrow> u64 \<Rightarrow> dir \<Rightarrow> dir \<Rightarrow> nat \<Rightarrow> dir \<times> nat \<times> mol_error option" where
  "prune_loop removes minReplicatedSeq [] d pruned = (d, pruned, None)"
| "prune_loop removes minReplicatedSeq ((base, f) # fs) d pruned =
     (if base = active_name then prune_loop removes minReplicatedSeq fs d pruned
      else
        (case segment_number base of
           Inl n \<Rightarrow> prune_loop removes minReplicatedSeq fs d pruned
         | Inr segSeq \<Rightarrow>
             if segSeq \<le> minReplicatedSeq then
               (if \<not> removes base then (d, pruned, Some (MolRemove base))
                else prune_loop removes minReplicatedSeq fs (dir_remove base d) (pruned + 1))
             else prune_loop removes minReplicatedSeq fs d pruned))"

definition SafePrune :: "(string \<Rightarrow> bool) \<Rightarrow> MOL \<Rightarrow> u64 \<Rightarrow> MOL \<times> nat \<times> mol_error option" where
  "SafePrune removes m minReplicatedSeq =
     (if minReplicatedSeq = 0 then (m, 0, None)
      else
        (case prune_loop removes minReplicatedSeq (glob_mol (mol_dir m)) (mol_dir m) 0 of
           (d, pruned, e) \<Rightarrow> (m\<lparr>mol_dir := d\<rparr>, pruned, e)))"

section \<open>Reading\<close>

function read_entries :: "bytes \<Rightarrow> MOLEntry list" where
  "read_entries f = (case read_record f of Record e f' \<Rightarrow> e # read_entries f' | _ \<Rightarrow> [])"
  by pat_completeness auto

termination
  by (relation "measure length") (auto dest: read_record_shorter)

declare read_entries.simps [simp del]

definition ReadFrom :: "MOL \<Rightarrow> u64 \<Rightarrow> MOLEntry list" where
  "ReadFrom m afterSeq =
     filter (\<lambda>e. me_SeqNum e > afterSeq) (read_entries (the (map_of (mol_dir m) active_name)))"

datatype 'e recover_error =
    RecTooLarge string u32 | RecShortPayload string | RecShortCRC string | RecCRC u64 string | RecReplay string 'e

function replay_segment :: "(MOLEntry \<Rightarrow> 's \<Rightarrow> 'e + 's) \<Rightarrow> string \<Rightarrow> bytes \<Rightarrow> 's \<Rightarrow> 'e recover_error + 's" where
  "replay_segment replayFn path f s =
     (case read_record f of
        EndOfRecords \<Rightarrow> Inr s
      | BadMagic \<Rightarrow> Inr s
      | PayloadTooLarge n \<Rightarrow> Inl (RecTooLarge path n)
      | ShortPayload \<Rightarrow> Inl (RecShortPayload path)
      | ShortCRC \<Rightarrow> Inl (RecShortCRC path)
      | CRCMismatch seq \<Rightarrow> Inl (RecCRC seq path)
      | Record e f' \<Rightarrow>
          (case replayFn e s of
             Inl err \<Rightarrow> Inl (RecReplay path err)
           | Inr s' \<Rightarrow> replay_segment replayFn path f' s'))"
  by pat_completeness auto

termination
  by (relation "measure (\<lambda>(r, p, f, s). length f)") (auto dest: read_record_shorter)

declare replay_segment.simps [simp del]

fun replay_segments :: "(MOLEntry \<Rightarrow> 's \<Rightarrow> 'e + 's) \<Rightarrow> dir \<Rightarrow> 's \<Rightarrow> 'e recover_error + 's" where
  "replay_segments replayFn [] s = Inr s"
| "replay_segments replayFn ((path, f) # fs) s =
     (case replay_segment replayFn path f s of
        Inl e \<Rightarrow> Inl e
      | Inr s' \<Rightarrow> replay_segments replayFn fs s')"

definition Recover :: "MOL \<Rightarrow> (MOLEntry \<Rightarrow> 's \<Rightarrow> 'e + 's) \<Rightarrow> 's \<Rightarrow> 'e recover_error + 's" where
  "Recover m replayFn s = replay_segments replayFn (sort_key (extractMOLSeq \<circ> fst) (glob_mol (mol_dir m))) s"

definition lastMOLSeqKey :: bytes where
  "lastMOLSeqKey = 0xFF # str_bytes ''last_mol_seq''"

definition SaveLastSeq :: "'db pebble \<Rightarrow> 'db \<Rightarrow> u64 \<Rightarrow> db_error + 'db" where
  "SaveLastSeq pb db seq = pb_set pb db lastMOLSeqKey (PutUint64 seq)"

definition LoadLastSeq :: "'db pebble \<Rightarrow> 'db \<Rightarrow> u64" where
  "LoadLastSeq pb db =
     (case pb_get pb db lastMOLSeqKey of
        Found val \<Rightarrow> if length val < 8 then 0 else Uint64 (take 8 val)
      | _ \<Rightarrow> 0)"

section \<open>The group committer\<close>

text \<open>\<open>pw_Done\<close> names the caller that waits; an entry of \<open>AppendAsync\<close> has none.\<close>

record PendingWrite =
  pw_Entry :: MOLEntry
  pw_Done :: "nat option"

record GroupCommitter =
  gc_pending :: "PendingWrite list"
  gc_mol :: MOL
  gc_droppedEntries :: u64

definition gc_capacity :: nat where "gc_capacity = 4096"

text \<open>The queue is full: \<open>Submit\<close> waits, so it has no step; \<open>data\<close> is the marshalled payload, if there is one.\<close>

definition Submit :: "GroupCommitter \<Rightarrow> MOLEntry \<Rightarrow> bytes option \<Rightarrow> nat \<Rightarrow> GroupCommitter option" where
  "Submit gc e data caller =
     (let e = (case data of None \<Rightarrow> e | Some b \<Rightarrow> e\<lparr>me_Payload := b, me_PayloadLen := word_of_nat (length b)\<rparr>)
      in if length (gc_pending gc) < gc_capacity
         then Some (gc\<lparr>gc_pending := gc_pending gc @ [\<lparr>pw_Entry = e, pw_Done = Some caller\<rparr>]\<rparr>)
         else None)"

definition AppendAsync :: "GroupCommitter \<Rightarrow> MOLEntry \<Rightarrow> GroupCommitter" where
  "AppendAsync gc e =
     (if length (gc_pending gc) < gc_capacity
      then gc\<lparr>gc_pending := gc_pending gc @ [\<lparr>pw_Entry = e, pw_Done = None\<rparr>]\<rparr>
      else gc\<lparr>gc_droppedEntries := gc_droppedEntries gc + 1\<rparr>)"

text \<open>The appends of a group, in order, each with the clock and the answer of the operating system.\<close>

fun append_group :: "MOL \<Rightarrow> (u64 \<times> nat option) list \<Rightarrow> PendingWrite list \<Rightarrow>
    MOL \<times> (PendingWrite \<times> MOLEntry \<times> mol_error option) list" where
  "append_group m os [] = (m, [])"
| "append_group m os (pw # pws) =
     (let (now, written) = (case os of [] \<Rightarrow> (0, None) | o1 # r \<Rightarrow> o1);
          (m, e, res) = Append_MOL m now written (pw_Entry pw);
          (m, rs) = append_group m (tl os) pws
      in (m, (pw, e, res) # rs))"

text \<open>\<open>flush\<close> gives each waiting caller its answer: the error of its append, or the error of the one
  \<open>fsync\<close>, or none.  The answers are in the order of the group; the code sends the failed appends' first,
  each to a channel of its own.  The entry beside an answer is the one it is for.\<close>

definition flush :: "MOL \<Rightarrow> (u64 \<times> nat option) list \<Rightarrow> bool \<Rightarrow> PendingWrite list \<Rightarrow>
    MOL \<times> (nat \<times> MOLEntry \<times> mol_error option) list" where
  "flush m os sync_fails batch =
     (let (m, rs) = append_group m os batch;
          (m, syncErr) = Sync_MOL m sync_fails
      in (m, concat (map (\<lambda>(pw, e, res).
               (case pw_Done pw of
                  None \<Rightarrow> []
                | Some caller \<Rightarrow> [(caller, e, if res \<noteq> None then res else syncErr)])) rs)))"

text \<open>A turn of \<open>Run\<close>: the first entry and those already queued behind it, up to the size of a group.\<close>

definition run_turn :: "GroupCommitter \<Rightarrow> (u64 \<times> nat option) list \<Rightarrow> bool \<Rightarrow>
    GroupCommitter \<times> (nat \<times> MOLEntry \<times> mol_error option) list" where
  "run_turn gc os sync_fails =
     (let batch = take DefaultMaxGroupSize (gc_pending gc)
      in if batch = [] then (gc, [])
         else (let (m, acks) = flush (gc_mol gc) os sync_fails batch
               in (gc\<lparr>gc_mol := m, gc_pending := drop DefaultMaxGroupSize (gc_pending gc)\<rparr>, acks)))"

text \<open>When it is stopped, \<open>Run\<close> takes all that is queued as one group.\<close>

definition run_stop :: "GroupCommitter \<Rightarrow> (u64 \<times> nat option) list \<Rightarrow> bool \<Rightarrow>
    GroupCommitter \<times> (nat \<times> MOLEntry \<times> mol_error option) list" where
  "run_stop gc os sync_fails =
     (if gc_pending gc = [] then (gc, [])
      else (let (m, acks) = flush (gc_mol gc) os sync_fails (gc_pending gc)
            in (gc\<lparr>gc_mol := m, gc_pending := []\<rparr>, acks)))"

end
