(* ===== verification/Wal_Props.thy ===== *)
theory Wal_Props
  imports Wal "HOL-Library.Sublist"
begin

text \<open>Properties of the operation log: reading after a crash, torn records, pruning, and acknowledged writes.\<close>

section \<open>Records\<close>

definition rec_ok :: "MOLEntry \<Rightarrow> bool" where
  "rec_ok e \<longleftrightarrow> length (me_Payload e) \<le> maxPayloadLen"

text \<open>What is read back of an entry: the length of the payload is not set.\<close>

definition stored :: "MOLEntry \<Rightarrow> MOLEntry" where
  "stored e = e\<lparr>me_PayloadLen := 0\<rparr>"

lemma stored_seq [simp]: "me_SeqNum (stored e) = me_SeqNum e"
  by (simp add: stored_def)

lemma crc32_Update_append: "crc32_Update (ComputeCRC32 a) b = ComputeCRC32 (a @ b)"
  by (simp add: crc32_Update_def ComputeCRC32_def)

lemma length_mol_header [simp]: "length (mol_header e) = 32"
  by (simp add: mol_header_def)

lemma length_marshalEntry: "length (marshalEntry e) = 36 + length (me_Payload e)"
  by (simp add: marshalEntry_def Let_def)

lemma header_fields:
  "Uint32 (sub (mol_header e) 0 4) = MOLMagic" "Uint64 (sub (mol_header e) 4 8) = me_SeqNum e"
  "Uint64 (sub (mol_header e) 12 8) = me_Timestamp e" "Uint16 (sub (mol_header e) 20 2) = me_OpType e"
  "Uint32 (sub (mol_header e) 22 4) = me_VaultID e"
  "Uint32 (sub (mol_header e) 26 4) = word_of_nat (length (me_Payload e))" "mol_header e ! 30 = me_Flags e"
  by (simp_all add: mol_header_def sub_def nth_append)

lemma rec_ok_length: "rec_ok e \<Longrightarrow> unat (word_of_nat (length (me_Payload e)) :: u32) = length (me_Payload e)"
  by (simp add: rec_ok_def maxPayloadLen_def unat_of_nat)

text \<open>The header is read whatever follows it.\<close>

lemma read_record_header:
  assumes "rec_ok e"
  shows "read_record (mol_header e @ f) =
    (if length f < length (me_Payload e) then ShortPayload
     else if length f < length (me_Payload e) + 4 then ShortCRC
     else if ComputeCRC32 (mol_header e @ take (length (me_Payload e)) f) \<noteq>
        Uint32 (take 4 (drop (length (me_Payload e)) f)) then CRCMismatch (me_SeqNum e)
     else Record (e\<lparr>me_PayloadLen := 0, me_Payload := take (length (me_Payload e)) f\<rparr>)
        (drop (length (me_Payload e) + 4) f))"
proof -
  have le: "\<not> maxPayloadLen < length (me_Payload e)" using assms by (simp add: rec_ok_def)
  show ?thesis
    unfolding read_record_def Let_def
    by (simp add: header_fields rec_ok_length[OF assms] le crc32_Update_append add.commute) (cases e; auto)
qed

lemma read_record_marshal: "rec_ok e \<Longrightarrow> read_record (marshalEntry e @ f) = Record (stored e) f"
  by (simp add: marshalEntry_def Let_def read_record_header stored_def)

lemma read_record_torn:
  assumes "rec_ok e" "k < length (marshalEntry e)"
  shows "read_record (take k (marshalEntry e)) =
    (if k < 32 then EndOfRecords else if k < 32 + length (me_Payload e) then ShortPayload else ShortCRC)"
proof (cases "k < 32")
  case True
  then show ?thesis by (simp add: read_record_def length_marshalEntry)
next
  case False
  let ?f = "take (k - 32) (me_Payload e @ PutUint32 (ComputeCRC32 (mol_header e @ me_Payload e)))"
  have "take k (marshalEntry e) = mol_header e @ ?f" using False by (simp add: marshalEntry_def Let_def)
  moreover have "length ?f = k - 32" using assms(2) by (simp add: length_marshalEntry)
  ultimately show ?thesis using assms False read_record_header[OF assms(1), of ?f] by (auto simp: length_marshalEntry)
qed

definition records :: "MOLEntry list \<Rightarrow> bytes" where
  "records es = concat (map marshalEntry es)"

lemma records_simps [simp]: "records [] = []" "records (e # es) = marshalEntry e @ records es"
  "records (xs @ ys) = records xs @ records ys"
  by (simp_all add: records_def)

lemma read_entries_records:
  "\<forall>e \<in> set es. rec_ok e \<Longrightarrow> read_entries (records es @ f) = map stored es @ read_entries f"
proof (induction es)
  case (Cons e es)
  then show ?case by (subst read_entries.simps) (simp add: read_record_marshal)
qed simp

lemma read_entries_torn:
  assumes "rec_ok e" "k < length (marshalEntry e)"
  shows "read_entries (take k (marshalEntry e)) = []"
  by (subst read_entries.simps) (simp add: read_record_torn[OF assms])

text \<open>A cut of a file of records is some whole records and a part of the next.\<close>

lemma records_cut:
  assumes "n \<le> length (records es)"
  obtains j e k where "j \<le> length es" "take n (records es) = records (take j es)" "length (records (take j es)) = n"
  | j e k where "j < length es" "e = es ! j" "0 < k" "k < length (marshalEntry e)"
      "take n (records es) = records (take j es) @ take k (marshalEntry e)"
  using assms
proof (induction es arbitrary: n thesis)
  case Nil
  then show ?case by simp
next
  case (Cons e es)
  show ?case
  proof (cases "n < length (marshalEntry e)")
    case True
    then have t: "take n (records (e # es)) = take n (marshalEntry e)" by simp
    show ?thesis
    proof (cases "n = 0")
      case True
      then show ?thesis by (intro Cons.prems(1)[of 0]) simp_all
    next
      case False
      then show ?thesis using t True by (intro Cons.prems(2)[of 0 e n]) simp_all
    qed
  next
    case False
    let ?n = "n - length (marshalEntry e)"
    have t: "take n (records (e # es)) = marshalEntry e @ take ?n (records es)" using False by simp
    have le: "?n \<le> length (records es)" using Cons.prems(3) False by simp
    show ?thesis
    proof (rule Cons.IH[of ?n])
      fix j assume "j \<le> length es" "take ?n (records es) = records (take j es)" "length (records (take j es)) = ?n"
      then show ?thesis using t False by (intro Cons.prems(1)[of "Suc j"]) simp_all
    next
      fix j e' k assume "j < length es" "e' = es ! j" "0 < k" "k < length (marshalEntry e')"
        "take ?n (records es) = records (take j es) @ take k (marshalEntry e')"
      then show ?thesis using t by (intro Cons.prems(2)[of "Suc j" e' k]) simp_all
    qed (rule le)
  qed
qed

lemma records_length_less:
  assumes "j < i" "i \<le> length es"
  shows "length (records (take j es)) + length (marshalEntry (es ! j)) \<le> length (records (take i es))"
proof -
  have "drop j (take i es) = es ! j # drop (Suc j) (take i es)"
    using Cons_nth_drop_Suc[of j "take i es"] assms by simp
  moreover have "take i es = take j es @ drop j (take i es)"
    using append_take_drop_id[of j "take i es"] assms(1) by simp
  ultimately have "records (take i es) = records (take j es @ es ! j # drop (Suc j) (take i es))" by simp
  then show ?thesis by simp
qed

lemma read_entries_Nil [simp]: "read_entries [] = []"
  by (subst read_entries.simps) (simp add: read_record_def)

text \<open>Reading a cut file gives the first entries, and all that lie before the cut.\<close>

lemma read_entries_cut:
  assumes "\<forall>e \<in> set es. rec_ok e" "n \<le> length (records es)"
  obtains j where "j \<le> length es" "read_entries (take n (records es)) = map stored (take j es)"
    "\<forall>i. i \<le> length es \<longrightarrow> length (records (take i es)) \<le> n \<longrightarrow> i \<le> j"
proof (rule records_cut[OF assms(2)])
  fix j assume 1: "j \<le> length es" "take n (records es) = records (take j es)" "length (records (take j es)) = n"
  have ok: "\<forall>e \<in> set (take j es). rec_ok e" using assms(1) by (meson in_set_takeD)
  have "read_entries (take n (records es)) = map stored (take j es)"
    using read_entries_records[OF ok, of "[]"] 1(2) by simp
  moreover have "i \<le> j" if "i \<le> length es" "length (records (take i es)) \<le> n" for i
  proof (rule ccontr)
    assume "\<not> i \<le> j"
    then show False using records_length_less[of j i es] that 1(3) by (simp add: length_marshalEntry)
  qed
  ultimately show thesis using that[of j] 1(1) by blast
next
  fix j e k assume 2: "j < length es" "e = es ! j" "0 < k" "k < length (marshalEntry e)"
    "take n (records es) = records (take j es) @ take k (marshalEntry e)"
  have ok: "\<forall>e \<in> set (take j es). rec_ok e" "rec_ok e" using assms(1) 2(1,2) by (meson in_set_takeD nth_mem)+
  have "read_entries (take n (records es)) = map stored (take j es)"
    using read_entries_records[OF ok(1), of "take k (marshalEntry e)"] read_entries_torn[OF ok(2) 2(4)] 2(5) by simp
  moreover have n: "n = length (records (take j es)) + k"
    using arg_cong[OF 2(5), of length] assms(2) 2(4) by simp
  moreover have "i \<le> j" if "i \<le> length es" "length (records (take i es)) \<le> n" for i
  proof (rule ccontr)
    assume "\<not> i \<le> j"
    then show False using records_length_less[of j i es] that n 2(2,4) by simp
  qed
  ultimately show thesis using that[of j] 2(1) by (metis less_imp_le_nat)
qed

section \<open>File names\<close>

lemma map_of_dir_put [simp]: "map_of (dir_put n c d) = (map_of d)(n \<mapsto> c)"
  by (induction n c d rule: dir_put.induct) (auto simp: fun_upd_twist)

lemma set_dir_put: "set (dir_put n c d) \<subseteq> insert (n, c) (set d)"
  by (induction n c d rule: dir_put.induct) auto

lemma set_dir_put_other: "(k, f) \<in> set d \<Longrightarrow> k \<noteq> n \<Longrightarrow> (k, f) \<in> set (dir_put n c d)"
  by (induction n c d rule: dir_put.induct) auto

lemma map_of_dir_remove: "map_of (dir_remove n d) = (map_of d)(n := None)"
  by (induction d) (auto simp: dir_remove_def)

lemma active_globbed: "(active_name, f) \<in> set d \<Longrightarrow> (active_name, f) \<in> set (glob_mol d)"
  by (simp add: glob_mol_def active_name_def)

lemma ParseUint_digits:
  assumes "a * 10 ^ length (num_text n) + n < 2 ^ 64"
  shows "ParseUint_loop a (num_text n @ cs) = ParseUint_loop (a * 10 ^ length (num_text n) + n) cs"
  using assms
proof (induction n arbitrary: cs rule: num_text.induct)
  case (1 n)
  have digit: "ParseUint_loop b (char_of (48 + d) # cs') = ParseUint_loop (b * 10 + d) cs'"
    if "d < 10" "b * 10 + d < 2 ^ 64" for b d :: nat and cs'
  proof -
    have c: "of_char (char_of (48 + d) :: char) = 48 + d" using that(1) by simp
    then have "CHR ''0'' \<le> char_of (48 + d) \<and> char_of (48 + d) \<le> CHR ''9''"
      using that(1) by (simp add: less_eq_char_def)
    then show ?thesis using that(2) c by simp
  qed
  show ?case
  proof (cases "n < 10")
    case True
    then show ?thesis using digit[of n a cs] 1(2) by (simp add: num_text.simps[of n])
  next
    case False
    let ?q = "n div 10" and ?r = "n mod 10"
    have t: "num_text n = num_text ?q @ [char_of (48 + ?r)]" using False by (subst num_text.simps) simp
    have n: "(a * 10 ^ length (num_text ?q) + ?q) * 10 + ?r = a * 10 ^ length (num_text n) + n"
      by (simp add: t algebra_simps)
    have "a * 10 ^ length (num_text ?q) + ?q \<le> (a * 10 ^ length (num_text ?q) + ?q) * 10 + ?r" by simp
    then have lt: "a * 10 ^ length (num_text ?q) + ?q < 2 ^ 64" using 1(2) unfolding n by (rule le_less_trans)
    have "ParseUint_loop a (num_text n @ cs) = ParseUint_loop a (num_text ?q @ char_of (48 + ?r) # cs)" by (simp add: t)
    also have "\<dots> = ParseUint_loop (a * 10 ^ length (num_text ?q) + ?q) (char_of (48 + ?r) # cs)"
      by (rule 1(1)[OF False lt])
    also have "\<dots> = ParseUint_loop ((a * 10 ^ length (num_text ?q) + ?q) * 10 + ?r) cs"
      by (rule digit) (use 1(2) n in \<open>simp_all only: mod_less_divisor zero_less_numeral\<close>)
    finally show ?thesis unfolding n .
  qed
qed

lemma num_text_not_Nil: "num_text n \<noteq> []"
  by (subst num_text.simps) simp

lemma sealed_number: "segment_number (sealed_name n) = Inr n"
proof -
  have p: "TrimPrefix ''mol-'' (''mol-'' @ s) = s" for s by (simp add: TrimPrefix_def)
  have x: "TrimSuffix ''.log'' (s @ ''.log'') = s" for s by (simp add: TrimSuffix_def)
  have "unat n < 2 ^ 64" using unat_64_lt[of n] by simp
  then have "ParseUint (num_text (unat n)) = Inr n"
    using ParseUint_digits[of 0 "unat n" "[]"] num_text_not_Nil[of "unat n"] by (simp add: ParseUint_def)
  then show ?thesis by (simp only: segment_number_def sealed_name_def p x)
qed

lemma sealed_not_active: "sealed_name n \<noteq> active_name"
proof
  assume "sealed_name n = active_name"
  then have "segment_number active_name = Inr n" using sealed_number[of n] by simp
  then show False by (simp add: segment_number_def active_name_def TrimPrefix_def TrimSuffix_def ParseUint_def)
qed

section \<open>Pruning\<close>

lemma prune_loop_keeps:
  "prune_loop removes min_seq fs d k = (d', k', err) \<Longrightarrow> (name, f) \<in> set d \<Longrightarrow>
   (name, f) \<in> set d' \<or> (name \<noteq> active_name \<and> (\<exists>n. segment_number name = Inr n \<and> n \<le> min_seq))"
proof (induction removes min_seq fs d k rule: prune_loop.induct)
  case (1 removes min_seq d k)
  then show ?case by simp
next
  case (2 removes min_seq base g fs d k)
  show ?case
  proof (cases "base = active_name \<or> (\<exists>n. segment_number base = Inl n) \<or> (\<exists>n. segment_number base = Inr n \<and> \<not> n \<le> min_seq)")
    case True
    then have "prune_loop removes min_seq fs d k = (d', k', err)" using "2.prems"(1) by (auto split: if_splits)
    then show ?thesis using "2.IH" True "2.prems"(2) by auto
  next
    case False
    then obtain n where n: "segment_number base = Inr n" "n \<le> min_seq" "base \<noteq> active_name"
      by (cases "segment_number base") auto
    show ?thesis
    proof (cases "removes base")
      case False
      then have "d' = d" using "2.prems"(1) n by simp
      then show ?thesis using "2.prems"(2) by simp
    next
      case True
      then have p: "prune_loop removes min_seq fs (dir_remove base d) (k + 1) = (d', k', err)" using "2.prems"(1) n by simp
      show ?thesis
      proof (cases "name = base")
        case True
        then show ?thesis using n by auto
      next
        case False
        then have "(name, f) \<in> set (dir_remove base d)" using "2.prems"(2) by (simp add: dir_remove_def)
        then show ?thesis using "2.IH"(3)[OF n(3,1,2) _ p] \<open>removes base\<close> by simp
      qed
    qed
  qed
qed

text \<open>The records of each segment: those of a sealed one are bounded by the number in its name, those of the
  active one by the next sequence number.\<close>

definition sealed_inv :: "dir \<Rightarrow> bool" where
  "sealed_inv d \<longleftrightarrow> (\<forall>(k, f) \<in> set d. k = active_name \<or>
     (\<exists>n. k = sealed_name n \<and> (\<forall>e \<in> set (read_entries f). me_SeqNum e \<le> n)))"

definition seqs_below :: "MOLEntry list \<Rightarrow> u64 \<Rightarrow> bool" where
  "seqs_below es n \<longleftrightarrow> (\<forall>e \<in> set es. rec_ok e \<and> me_SeqNum e < n)"

text \<open>The life of a log that starts in an empty directory: appends that the operating system takes whole or not
  at all, \<open>fsync\<close>s, rotations and prunes, which may fail at any point, and restarts.\<close>

inductive mol_life :: "MOL \<Rightarrow> bool" where
  life_open: "mol_life (Open_MOL [])"
| life_threshold: "mol_life m \<Longrightarrow> mol_life (m\<lparr>mol_SealThreshold := x\<rparr>)"
| life_append: "mol_life m \<Longrightarrow> Append_MOL m now w e = (m', e', r) \<Longrightarrow> w = None \<or> w = Some 0 \<Longrightarrow> rec_ok e \<Longrightarrow>
    mol_nextSeq m \<noteq> - 1 \<Longrightarrow> mol_life m'"
| life_sync: "mol_life m \<Longrightarrow> Sync_MOL m fails = (m', r) \<Longrightarrow> mol_life m'"
| life_seal: "mol_life m \<Longrightarrow> MaybeSealSegment m fault = (m', r) \<Longrightarrow> mol_life m'"
| life_prune: "mol_life m \<Longrightarrow> SafePrune removes m s = (m', k, pe) \<Longrightarrow> mol_life m'"
| life_reopen: "mol_life m \<Longrightarrow> fst (recoverMaxSeq (mol_dir m)) \<noteq> - 1 \<Longrightarrow> mol_life (Open_MOL (mol_dir m))"

lemma scan_mono: "scanSegmentMaxSeq f (m, b) = (m', b') \<Longrightarrow> m \<le> m' \<and> (b \<longrightarrow> b')"
proof (induction f "(m, b)" arbitrary: m b rule: scanSegmentMaxSeq.induct)
  case (1 f m b)
  let ?h = "take 32 f" and ?f = "drop 32 f"
  let ?seq = "Uint64 (sub ?h 4 8)" and ?len = "Uint32 (sub ?h 26 4)"
  show ?case
  proof (cases "length f < 32 \<or> Uint32 (sub ?h 0 4) \<noteq> MOLMagic")
    case True
    then show ?thesis using "1.prems" by (auto simp: scanSegmentMaxSeq.simps[of f] Let_def split: if_splits)
  next
    case rec: False
    show ?thesis
    proof (cases "unat ?len > maxPayloadLen")
      case True
      then show ?thesis using "1.prems" rec by (auto simp: scanSegmentMaxSeq.simps[of f] Let_def split: if_splits)
    next
      case False
      then have "scanSegmentMaxSeq (drop (unat ?len + 4) ?f) (if ?seq > m then ?seq else m, True) = (m', b')"
        using "1.prems" rec by (simp add: scanSegmentMaxSeq.simps[of f] Let_def)
      then have "(if ?seq > m then ?seq else m) \<le> m' \<and> b'"
        using "1.hyps"[OF _ refl refl _ refl refl refl False] rec by simp
      then show ?thesis by (auto split: if_splits)
    qed
  qed
qed

lemma scan_record:
  assumes "rec_ok e"
  shows "scanSegmentMaxSeq (marshalEntry e @ f) (m, b) =
    scanSegmentMaxSeq f (if me_SeqNum e > m then me_SeqNum e else m, True)"
proof -
  have le: "\<not> maxPayloadLen < length (me_Payload e)" using assms by (simp add: rec_ok_def)
  show ?thesis
    by (subst scanSegmentMaxSeq.simps)
      (simp add: marshalEntry_def Let_def header_fields rec_ok_length[OF assms] le)
qed

lemma scan_records:
  assumes "\<forall>e \<in> set es. rec_ok e" "scanSegmentMaxSeq (records es @ f) (m, b) = (m', b')"
  shows "\<forall>e \<in> set es. me_SeqNum e \<le> m' \<and> b'"
  using assms
proof (induction es arbitrary: m b)
  case (Cons e es)
  let ?m = "if me_SeqNum e > m then me_SeqNum e else m"
  have s: "scanSegmentMaxSeq (records es @ f) (?m, True) = (m', b')"
    using Cons.prems scan_record[of e "records es @ f"] by simp
  have "me_SeqNum e \<le> ?m" by auto
  then have "me_SeqNum e \<le> m' \<and> b'" using scan_mono[OF s] by (meson order_trans)
  then show ?case using Cons.IH[OF _ s] Cons.prems(1) by simp
qed simp

lemma scan_fold_mono:
  "fold (\<lambda>(k, f). scanSegmentMaxSeq f) fs (m, b) = (m', b') \<Longrightarrow> m \<le> m' \<and> (b \<longrightarrow> b')"
proof (induction fs arbitrary: m b)
  case (Cons kf fs)
  obtain k f where kf: "kf = (k, f)" by fastforce
  obtain m1 b1 where s: "scanSegmentMaxSeq f (m, b) = (m1, b1)" by fastforce
  then have "m1 \<le> m' \<and> (b1 \<longrightarrow> b')" using Cons.IH[of m1 b1] Cons.prems by (simp add: kf)
  then show ?case using scan_mono[OF s] by auto
qed simp

lemma scan_fold_records:
  assumes "\<forall>e \<in> set es. rec_ok e" "(k, records es) \<in> set fs"
    "fold (\<lambda>(k, f). scanSegmentMaxSeq f) fs (m, b) = (m', b')" "e \<in> set es"
  shows "me_SeqNum e \<le> m' \<and> b'"
  using assms(2,3)
proof (induction fs arbitrary: m b)
  case (Cons kf fs)
  obtain m1 b1 where s: "scanSegmentMaxSeq (snd kf) (m, b) = (m1, b1)" by fastforce
  then have f: "fold (\<lambda>(k, f). scanSegmentMaxSeq f) fs (m1, b1) = (m', b')" using Cons.prems(2) by (cases kf) simp
  show ?case
  proof (cases "kf = (k, records es)")
    case True
    then have "me_SeqNum e \<le> m1 \<and> b1" using scan_records[OF assms(1), of "[]" m b] s assms(4) by simp
    then show ?thesis using scan_fold_mono[OF f] by (meson order_trans)
  next
    case False
    then show ?thesis using Cons.IH[OF _ f] Cons.prems(1) by auto
  qed
qed simp

definition life_inv :: "MOL \<Rightarrow> MOLEntry list \<Rightarrow> bool" where
  "life_inv m es \<longleftrightarrow> sealed_inv (mol_dir m) \<and> seqs_below es (mol_nextSeq m) \<and>
     (map_of (mol_dir m) active_name = Some (records es) \<or>
      \<not> mol_open m \<and> map_of (mol_dir m) active_name = None \<and> es = [])"

lemma sealed_inv_active: "sealed_inv d \<Longrightarrow> sealed_inv (dir_put active_name f d)"
  using set_dir_put[of active_name f d] unfolding sealed_inv_def by blast

lemma sealed_inv_remove: "sealed_inv d \<Longrightarrow> sealed_inv (dir_remove n d)"
  unfolding sealed_inv_def dir_remove_def by auto

lemma sealed_inv_seal:
  assumes "sealed_inv d" "\<forall>e \<in> set (read_entries f). me_SeqNum e \<le> n"
  shows "sealed_inv (dir_put (sealed_name n) f d)"
  unfolding sealed_inv_def
proof (intro ballI)
  fix kf assume "kf \<in> set (dir_put (sealed_name n) f d)"
  then consider "kf = (sealed_name n, f)" | "kf \<in> set d" using set_dir_put[of "sealed_name n" f d] by blast
  then show "case kf of (k, f) \<Rightarrow> k = active_name \<or>
      (\<exists>n. k = sealed_name n \<and> (\<forall>e \<in> set (read_entries f). me_SeqNum e \<le> n))"
    using assms unfolding sealed_inv_def by cases auto
qed

lemma u64_less_pred: "(x :: u64) < y \<Longrightarrow> x \<le> y - 1"
  using u64_less_Suc_iff[of "y - 1" x] by (cases "y - 1 = - 1") auto

lemma seqs_read: "seqs_below es n \<Longrightarrow> read_entries (records es) = map stored es"
  using read_entries_records[of es "[]"] by (simp add: seqs_below_def)

lemma life_append_inv:
  assumes "life_inv m es" "Append_MOL m now w e = (m', e', r)" "w = None \<or> w = Some 0" "rec_ok e" "mol_nextSeq m \<noteq> - 1"
  shows "life_inv m' (if r = None then es @ [e'] else es)"
proof -
  have e': "e' = e\<lparr>me_SeqNum := mol_nextSeq m, me_Timestamp := now\<rparr>" and n: "mol_nextSeq m' = mol_nextSeq m + 1"
    using assms(2) by (auto simp: Append_MOL_def Let_def split: if_splits)
  have lt: "mol_nextSeq m < mol_nextSeq m + 1" by (rule u64_Suc_gt[OF assms(5)])
  have ok: "rec_ok e'" using assms(4) by (simp add: e' rec_ok_def)
  have sb: "seqs_below es (mol_nextSeq m')" "seqs_below (es @ [e']) (mol_nextSeq m')"
    using assms(1) lt ok less_trans[OF _ lt] by (auto simp: life_inv_def seqs_below_def n e')
  show ?thesis
  proof (cases "mol_open m")
    case False
    then show ?thesis using assms(1,2) sb(1) by (auto simp: Append_MOL_def Let_def life_inv_def)
  next
    case True
    then have a: "map_of (mol_dir m) active_name = Some (records es)" using assms(1) by (simp add: life_inv_def)
    show ?thesis
    proof (cases w)
      case None
      then have "mol_dir m' = dir_put active_name (records (es @ [e'])) (mol_dir m)" "r = None"
        using assms(2) True a by (auto simp: Append_MOL_def Let_def e')
      then show ?thesis using assms(1) sb(2) sealed_inv_active by (simp add: life_inv_def)
    next
      case (Some x)
      then have "mol_dir m' = dir_put active_name (records es) (mol_dir m)" "r = Some MolWrite"
        using assms(2,3) True a by (auto simp: Append_MOL_def Let_def)
      then show ?thesis using assms(1) sb(1) sealed_inv_active by (simp add: life_inv_def)
    qed
  qed
qed

lemma life_seal_inv:
  assumes "life_inv m es" "MaybeSealSegment m fault = (m', r)"
  shows "\<exists>es'. life_inv m' es'"
proof -
  have closed: "life_inv (m\<lparr>mol_open := False\<rparr>) es" using assms(1) by (auto simp: life_inv_def)
  consider (same) "m' = m" | (closed) "m' = m\<lparr>mol_open := False\<rparr>"
    | (sealed) "mol_open m" "m' = m\<lparr>mol_open := False, mol_dir :=
        dir_put (sealed_name (mol_nextSeq m - 1)) (the (map_of (mol_dir m) active_name)) (dir_remove active_name (mol_dir m))\<rparr>"
    | (rotated) "mol_open m" "m' = m\<lparr>mol_open := True, mol_dir := dir_put active_name []
        (dir_put (sealed_name (mol_nextSeq m - 1)) (the (map_of (mol_dir m) active_name)) (dir_remove active_name (mol_dir m))),
        mol_synced := 0, mol_size := 0\<rparr>"
    using assms(2) by (cases "mol_size m < mol_SealThreshold m"; cases "mol_open m"; cases "fault = Some MolClose";
        cases "fault = Some MolRename"; cases "fault = Some MolOpenActive") (auto simp: MaybeSealSegment_def Let_def)
  then show ?thesis
  proof cases
    case same
    then show ?thesis using assms(1) by blast
  next
    case closed
    then show ?thesis using \<open>life_inv (m\<lparr>mol_open := False\<rparr>) es\<close> by blast
  next
    case sealed
    have "map_of (mol_dir m) active_name = Some (records es)" using assms(1) sealed(1) by (simp add: life_inv_def)
    moreover have "\<forall>e \<in> set (read_entries (records es)). me_SeqNum e \<le> mol_nextSeq m - 1"
      using assms(1) seqs_read[of es "mol_nextSeq m"] by (auto simp: life_inv_def seqs_below_def intro: u64_less_pred)
    ultimately have d: "sealed_inv (mol_dir m')"
      using assms(1) by (simp add: sealed(2) life_inv_def sealed_inv_seal sealed_inv_remove)
    have "life_inv m' []"
      using d by (simp add: life_inv_def sealed(2) map_of_dir_remove sealed_not_active[symmetric] seqs_below_def)
    then show ?thesis by blast
  next
    case rotated
    have "map_of (mol_dir m) active_name = Some (records es)" using assms(1) rotated(1) by (simp add: life_inv_def)
    moreover have "\<forall>e \<in> set (read_entries (records es)). me_SeqNum e \<le> mol_nextSeq m - 1"
      using assms(1) seqs_read[of es "mol_nextSeq m"] by (auto simp: life_inv_def seqs_below_def intro: u64_less_pred)
    ultimately have d: "sealed_inv (mol_dir m')"
      using assms(1) by (simp add: rotated(2) life_inv_def sealed_inv_active sealed_inv_seal sealed_inv_remove)
    have "life_inv m' []" using d by (simp add: life_inv_def rotated(2) seqs_below_def)
    then show ?thesis by blast
  qed
qed

lemma sealed_inv_subset: "sealed_inv d \<Longrightarrow> set d' \<subseteq> set d \<Longrightarrow> sealed_inv d'"
  unfolding sealed_inv_def by blast

lemma prune_loop_subset: "prune_loop removes s fs d k = (d', k', err) \<Longrightarrow> set d' \<subseteq> set d \<and> map_of d' active_name = map_of d active_name"
proof (induction removes s fs d k rule: prune_loop.induct)
  case (1 removes s d k)
  then show ?case by simp
next
  case (2 removes s base g fs d k)
  show ?case
  proof (cases "base = active_name \<or> (\<exists>n. segment_number base = Inl n) \<or> (\<exists>n. segment_number base = Inr n \<and> \<not> n \<le> s)")
    case True
    then have "prune_loop removes s fs d k = (d', k', err)" using "2.prems" by (auto split: if_splits)
    then show ?thesis using True "2.IH"(1) "2.IH"(2) "2.IH"(4) by (cases "base = active_name"; cases "segment_number base") auto
  next
    case False
    then obtain n where n: "segment_number base = Inr n" "n \<le> s" "base \<noteq> active_name"
      by (cases "segment_number base") auto
    show ?thesis
    proof (cases "removes base")
      case False
      then show ?thesis using "2.prems" n by simp
    next
      case True
      then have p: "prune_loop removes s fs (dir_remove base d) (k + 1) = (d', k', err)" using "2.prems" n by simp
      have "set d' \<subseteq> set (dir_remove base d) \<and> map_of d' active_name = map_of (dir_remove base d) active_name"
        using "2.IH"(3)[OF n(3,1,2) _ p] True by simp
      then show ?thesis using n(3) unfolding map_of_dir_remove by (auto simp: dir_remove_def)
    qed
  qed
qed

lemma dir_put_in: "(n, c) \<in> set (dir_put n c d)"
  by (induction n c d rule: dir_put.induct) auto

lemma life_reopen_inv:
  assumes "life_inv m es" "fst (recoverMaxSeq (mol_dir m)) \<noteq> - 1"
  shows "life_inv (Open_MOL (mol_dir m)) es"
proof (cases "map_of (mol_dir m) active_name")
  case None
  let ?d = "dir_put active_name [] (mol_dir m)"
  have es: "es = []" using assms(1) None by (simp add: life_inv_def)
  have "sealed_inv ?d" using assms(1) by (simp add: life_inv_def sealed_inv_active)
  then show ?thesis
    by (simp add: life_inv_def Open_MOL_def None Let_def es seqs_below_def split: prod.split)
next
  case (Some f)
  then have f: "f = records es" using assms(1) by (auto simp: life_inv_def)
  obtain mx b where r: "recoverMaxSeq (mol_dir m) = (mx, b)" by fastforce
  have ok: "\<forall>e \<in> set es. rec_ok e" using assms(1) by (auto simp: life_inv_def seqs_below_def)
  have "(active_name, records es) \<in> set (glob_mol (mol_dir m))" using map_of_SomeD[OF Some] f active_globbed by blast
  then have "\<forall>e \<in> set es. me_SeqNum e \<le> mx \<and> b"
    using scan_fold_records[OF ok _ r[unfolded recoverMaxSeq_def]] by metis
  moreover have "mx < mx + 1" using assms(2) r by (simp add: u64_Suc_gt)
  ultimately have "seqs_below es (if b then mx + 1 else 0)"
    using ok by (auto simp: seqs_below_def intro: le_less_trans)
  then show ?thesis using assms(1) Some f r by (simp add: life_inv_def Open_MOL_def Let_def)
qed

lemma life_start_inv: "life_inv (Open_MOL []) []"
  by (auto simp: life_inv_def Open_MOL_def Let_def sealed_inv_def seqs_below_def split: prod.split)

lemma mol_life_inv: "mol_life m \<Longrightarrow> \<exists>es. life_inv m es"
proof (induction rule: mol_life.induct)
  case life_open
  show ?case using life_start_inv by blast
next
  case (life_threshold m x)
  then show ?case by (auto simp: life_inv_def)
next
  case (life_append m now w e m' e' r)
  then obtain es where "life_inv m es" by blast
  then show ?case using life_append_inv[OF _ life_append(2-5)] by blast
next
  case (life_sync m fails m' r)
  then obtain es where "life_inv m es" by blast
  then have "life_inv m' es" using life_sync(2) by (auto simp: Sync_MOL_def life_inv_def split: if_splits)
  then show ?case by blast
next
  case (life_seal m fault m' r)
  then show ?case using life_seal_inv by blast
next
  case (life_prune m removes s m' k pe)
  then obtain es where i: "life_inv m es" by blast
  show ?case
  proof (cases "s = 0")
    case True
    then show ?thesis using i life_prune(2) by (auto simp: SafePrune_def)
  next
    case False
    obtain d' k' e' where p: "prune_loop removes s (glob_mol (mol_dir m)) (mol_dir m) 0 = (d', k', e')" by (metis prod_cases3)
    then have "m' = m\<lparr>mol_dir := d'\<rparr>" using life_prune(2) False by (simp add: SafePrune_def)
    then have "life_inv m' es" using i prune_loop_subset[OF p] sealed_inv_subset by (auto simp: life_inv_def)
    then show ?thesis by blast
  qed
next
  case (life_reopen m)
  then show ?case using life_reopen_inv by blast
qed

text \<open>C38. Pruning the operation log never deletes a record that is not replicated.  In every log that grew
  from an empty directory by appends, \<open>fsync\<close>s, rotations, prunes and restarts (of which any may fail), a
  prune up to a watermark leaves every file that holds a record above the watermark, unchanged, whether it
  runs to its end or stops at a file it cannot remove; and the active segment always stays.\<close>

theorem mol_prune_keeps:
  assumes "mol_life m" "SafePrune removes m watermark = (m', n, err)" "(name, f) \<in> set (mol_dir m)"
    "name = active_name \<or> (\<exists>e \<in> set (read_entries f). watermark < me_SeqNum e)"
  shows "(name, f) \<in> set (mol_dir m')"
proof (cases "watermark = 0")
  case True
  then show ?thesis using assms(2,3) by (simp add: SafePrune_def)
next
  case False
  have i: "sealed_inv (mol_dir m)" using mol_life_inv[OF assms(1)] by (auto simp: life_inv_def)
  obtain d' k' e' where p: "prune_loop removes watermark (glob_mol (mol_dir m)) (mol_dir m) 0 = (d', k', e')"
    by (metis prod_cases3)
  then have d: "mol_dir m' = d'" using assms(2) False by (auto simp: SafePrune_def)
  have "\<not> (\<exists>n. segment_number name = Inr n \<and> n \<le> watermark)" if other: "name \<noteq> active_name"
  proof -
    have "\<exists>n. name = sealed_name n \<and> (\<forall>e \<in> set (read_entries f). me_SeqNum e \<le> n)"
      using bspec[OF i[unfolded sealed_inv_def] assms(3)] by (simp only: prod.case other simp_thms)
    then obtain n where "name = sealed_name n" "\<forall>e \<in> set (read_entries f). me_SeqNum e \<le> n"
      by (elim exE conjE)
    then have n: "segment_number name = Inr n" "\<forall>e \<in> set (read_entries f). me_SeqNum e \<le> n"
      by (simp_all add: sealed_number)
    obtain e where "e \<in> set (read_entries f)" "watermark < me_SeqNum e" using assms(4) other by blast
    then have "watermark < n" using n(2) by (metis less_le_trans)
    then show ?thesis using n(1) by simp
  qed
  then show ?thesis using prune_loop_keeps[OF p assms(3)] d by blast
qed

definition some_entry :: MOLEntry where
  "some_entry = \<lparr>me_SeqNum = 0, me_Timestamp = 0, me_OpType = OpEngramWrite, me_VaultID = 1, me_PayloadLen = 0,
     me_Flags = 0, me_Payload = [1, 2, 3]\<rparr>"

lemma some_entry_payload [simp]: "length (me_Payload some_entry) = 3"
  by (simp add: some_entry_def)

lemma some_entry_ok [simp]: "rec_ok some_entry"
  by (simp add: rec_ok_def some_entry_def maxPayloadLen_def)

lemma open_empty: "Open_MOL [] = \<lparr>mol_dir = [(active_name, [])], mol_synced = 0, mol_open = True, mol_size = 0,
    mol_nextSeq = 0, mol_SealThreshold = DefaultMaxSegmentSize\<rparr>"
proof -
  have "scanSegmentMaxSeq [] r = r" for r by (cases r) (simp add: scanSegmentMaxSeq.simps)
  then have "recoverMaxSeq [(active_name, [])] = (0, False)"
    by (simp add: recoverMaxSeq_def glob_mol_def active_name_def)
  then show ?thesis by (simp add: Open_MOL_def Let_def)
qed

lemma mol_prune_keeps_witness:
  "\<exists>m. fst (Append_MOL (Open_MOL []) 0 None some_entry) = m \<and>
     (active_name, marshalEntry (some_entry\<lparr>me_SeqNum := 0, me_Timestamp := 0\<rparr>))
       \<in> set (mol_dir (fst (SafePrune (\<lambda>k. True) m 7)))"
proof -
  obtain m e' r where a: "Append_MOL (Open_MOL []) 0 None some_entry = (m, e', r)" by (metis prod_cases3)
  obtain m' n err where p: "SafePrune (\<lambda>k. True) m 7 = (m', n, err)" by (metis prod_cases3)
  have "mol_life m" by (rule life_append[OF life_open a]) (simp_all add: open_empty)
  moreover have "(active_name, marshalEntry (some_entry\<lparr>me_SeqNum := 0, me_Timestamp := 0\<rparr>)) \<in> set (mol_dir m)"
    using a by (auto simp: Append_MOL_def open_empty Let_def)
  ultimately have "(active_name, marshalEntry (some_entry\<lparr>me_SeqNum := 0, me_Timestamp := 0\<rparr>)) \<in> set (mol_dir m')"
    by (intro mol_prune_keeps[OF _ p]) simp_all
  then show ?thesis using a p by simp
qed

section \<open>A crash\<close>

definition holds :: "MOL \<Rightarrow> bytes \<Rightarrow> bool" where
  "holds m f \<longleftrightarrow> mol_open m \<and> map_of (mol_dir m) active_name = Some f"

definition taken :: "(PendingWrite \<times> MOLEntry \<times> mol_error option) list \<Rightarrow> MOLEntry list" where
  "taken rs = map (\<lambda>(pw, e, r). e) (filter (\<lambda>(pw, e, r). r = None) rs)"

lemma append_holds:
  assumes "holds m f" "w = None \<or> w = Some 0" "Append_MOL m now w e = (m', e', r)"
  shows "(r = None \<longleftrightarrow> w = None) \<and> holds m' (f @ (if r = None then marshalEntry e' else [])) \<and> mol_synced m' = mol_synced m \<and>
    e' = e\<lparr>me_SeqNum := mol_nextSeq m, me_Timestamp := now\<rparr>"
  using assms by (auto simp: holds_def Append_MOL_def Let_def)

lemma append_group_holds:
  assumes "holds m f" "\<forall>x \<in> set os. snd x = None \<or> snd x = Some 0" "\<forall>pw \<in> set pws. rec_ok (pw_Entry pw)"
    "append_group m os pws = (m', rs)"
  shows "holds m' (f @ records (taken rs)) \<and> mol_synced m' = mol_synced m \<and> (\<forall>e \<in> set (taken rs). rec_ok e) \<and>
    ((\<forall>x \<in> set os. snd x = None) \<longrightarrow> (\<forall>(pw, e, r) \<in> set rs. r = None))"
  using assms
proof (induction pws arbitrary: m f os rs)
  case Nil
  then show ?case by (simp add: taken_def)
next
  case (Cons pw pws)
  obtain now w where o1: "(case os of [] \<Rightarrow> (0, None) | o1 # r \<Rightarrow> o1) = (now, w)" by fastforce
  have w: "w = None \<or> w = Some 0" "(\<forall>x \<in> set os. snd x = None) \<longrightarrow> w = None"
    using o1 Cons.prems(2) by (auto split: list.splits)
  obtain m1 e1 r1 where a: "Append_MOL m now w (pw_Entry pw) = (m1, e1, r1)" by (metis prod_cases3)
  obtain m2 rs2 where g: "append_group m1 (tl os) pws = (m2, rs2)" by fastforce
  have eq: "m' = m2" "rs = (pw, e1, r1) # rs2" using Cons.prems(4) o1 a g by (simp_all add: Let_def)
  note h = append_holds[OF Cons.prems(1) w(1) a]
  have "\<forall>x \<in> set (tl os). snd x = None \<or> snd x = Some 0" using Cons.prems(2) by (cases os) auto
  moreover have hm: "holds m1 (f @ (if r1 = None then marshalEntry e1 else []))" using h by blast
  moreover have "append_group m1 (tl os) pws = (m', rs2)" using g eq(1) by simp
  moreover have "\<forall>pw \<in> set pws. rec_ok (pw_Entry pw)" using Cons.prems(3) by simp
  ultimately have i: "holds m2 ((f @ (if r1 = None then marshalEntry e1 else [])) @ records (taken rs2)) \<and>
      mol_synced m2 = mol_synced m1 \<and> (\<forall>e \<in> set (taken rs2). rec_ok e) \<and>
      ((\<forall>x \<in> set (tl os). snd x = None) \<longrightarrow> (\<forall>(pw, e, r) \<in> set rs2. r = None))"
    using Cons.IH[OF hm] eq(1) by blast
  have "rec_ok e1" using h Cons.prems(3) by (simp add: rec_ok_def)
  moreover have "(\<forall>x \<in> set os. snd x = None) \<longrightarrow> r1 = None \<and> (\<forall>x \<in> set (tl os). snd x = None)"
    using w h by (cases os) auto
  ultimately show ?case using h i by (auto simp: eq taken_def)
qed

definition acked :: "(nat \<times> MOLEntry \<times> mol_error option) list \<Rightarrow> MOLEntry list" where
  "acked acks = map (\<lambda>(c, e, r). e) (filter (\<lambda>(c, e, r). r = None) acks)"

lemma flush_holds:
  assumes "holds m f" "\<forall>x \<in> set os. snd x = None \<or> snd x = Some 0" "\<forall>pw \<in> set pws. rec_ok (pw_Entry pw)"
    "flush m os fails pws = (m', acks)"
  obtains new where "holds m' (f @ records new)" "\<forall>e \<in> set new. rec_ok e"
    "mol_synced m' = (if fails then mol_synced m else length (f @ records new))"
    "subseq (acked acks) (if fails then [] else new)"
    "\<not> fails \<Longrightarrow> \<forall>x \<in> set os. snd x = None \<Longrightarrow> \<forall>(c, e, r) \<in> set acks. r = None"
proof -
  obtain m1 rs where g: "append_group m os pws = (m1, rs)" by fastforce
  note h = append_group_holds[OF assms(1-3) g]
  obtain m2 se where s: "Sync_MOL m1 fails = (m2, se)" by fastforce
  have se: "m2 = (if fails then m1 else m1\<lparr>mol_synced := length (f @ records (taken rs))\<rparr>)" "se = (if fails then Some MolSync else None)"
    using s h by (auto simp: Sync_MOL_def holds_def split: if_splits)
  have eq: "m' = m2" "acks = concat (map (\<lambda>(pw, e, res). case pw_Done pw of None \<Rightarrow> []
      | Some caller \<Rightarrow> [(caller, e, if res \<noteq> None then res else se)]) rs)"
    using assms(4) g s by (simp_all add: flush_def)
  have sub: "subseq (acked (concat (map (\<lambda>(pw, e, res). case pw_Done pw of None \<Rightarrow> []
      | Some caller \<Rightarrow> [(caller, e, if res \<noteq> None then res else se)]) xs))) (if fails then [] else taken xs)" for xs
    by (induction xs) (auto simp: acked_def taken_def se(2) split: option.split)
  show thesis
  proof (rule that[of "taken rs"])
    show "holds m' (f @ records (taken rs))" "\<forall>e \<in> set (taken rs). rec_ok e"
      "mol_synced m' = (if fails then mol_synced m else length (f @ records (taken rs)))"
      using h by (simp_all add: eq(1) se(1) holds_def)
    show "subseq (acked acks) (if fails then [] else taken rs)" using sub eq(2) by simp
    show "\<not> fails \<Longrightarrow> \<forall>x \<in> set os. snd x = None \<Longrightarrow> \<forall>(c, e, r) \<in> set acks. r = None"
      using h by (auto simp: eq(2) se(2) split: option.splits)
  qed
qed

text \<open>The store after a crash that left the first \<open>n\<close> bytes of the active segment.\<close>

definition crash_at :: "MOL \<Rightarrow> nat \<Rightarrow> MOL" where
  "crash_at m n = Open_MOL (dir_put active_name (take n (the (map_of (mol_dir m) active_name))) (mol_dir m))"

text \<open>A log whose active segment holds whole records is opened, and the committer flushes group after group.
  A write is taken whole or not at all; an \<open>fsync\<close> may fail.  Crashes that keep what was synced and cut the
  segment between two records come in between, each followed by opening the log again.  The second argument
  are the entries whose callers were answered with success, in order.\<close>

inductive wal_run :: "MOL \<Rightarrow> MOLEntry list \<Rightarrow> bool" where
  run_open: "map_of d active_name = Some (records es) \<Longrightarrow> \<forall>e \<in> set es. rec_ok e \<Longrightarrow> wal_run (Open_MOL d) []"
| run_flush: "wal_run m as \<Longrightarrow> \<forall>x \<in> set os. snd x = None \<or> snd x = Some 0 \<Longrightarrow>
    \<forall>pw \<in> set batch. rec_ok (pw_Entry pw) \<Longrightarrow> flush m os fails batch = (m', acks) \<Longrightarrow> wal_run m' (as @ acked acks)"
| run_crash: "wal_run m as \<Longrightarrow> mol_synced m \<le> n \<Longrightarrow>
    take n (the (map_of (mol_dir m) active_name)) = records xs \<Longrightarrow> \<forall>e \<in> set xs. rec_ok e \<Longrightarrow> wal_run (crash_at m n) as"

definition wal_inv :: "MOL \<Rightarrow> MOLEntry list \<Rightarrow> bool" where
  "wal_inv m as \<longleftrightarrow> (\<exists>es k. holds m (records es) \<and> (\<forall>e \<in> set es. rec_ok e) \<and> k \<le> length es \<and>
     length (records (take k es)) \<le> mol_synced m \<and> subseq (map stored as) (map stored (take k es)))"

lemma Open_holds:
  "map_of d active_name = Some f \<Longrightarrow> holds (Open_MOL d) f \<and> mol_synced (Open_MOL d) = length f"
  by (simp add: holds_def Open_MOL_def Let_def split: prod.split)

text \<open>What a cut of the segment leaves, read back, holds everything that was synced.\<close>

lemma cut_keeps:
  assumes "\<forall>e \<in> set es. rec_ok e" "k \<le> length es" "length (records (take k es)) \<le> n"
  obtains j where "k \<le> j" "j \<le> length es" "read_entries (take n (records es)) = map stored (take j es)"
proof -
  let ?n = "min n (length (records es))"
  obtain j where j: "j \<le> length es" "read_entries (take ?n (records es)) = map stored (take j es)"
      "\<forall>i. i \<le> length es \<longrightarrow> length (records (take i es)) \<le> ?n \<longrightarrow> i \<le> j"
    using read_entries_cut[OF assms(1), of ?n] by auto
  have "records es = records (take k es) @ records (drop k es)"
    using records_simps(3)[of "take k es" "drop k es"] by (simp only: append_take_drop_id)
  then have "length (records (take k es)) \<le> length (records es)" by simp
  then have "k \<le> j" using j(3) assms(2,3) by simp
  moreover have "take n (records es) = take ?n (records es)" by (simp add: min_def)
  ultimately show thesis using that j(1,2) by simp
qed

lemma subseq_take_map: "subseq as (map f (take k es)) \<Longrightarrow> k \<le> j \<Longrightarrow> subseq as (map f (take j es))"
  by (metis min_absorb1 prefix_imp_subseq subseq_order.order_trans take_is_prefix take_map take_take)

lemma crash_opens: "holds m f \<Longrightarrow> holds (crash_at m n) (take n f) \<and> mol_synced (crash_at m n) = length (take n f)"
  unfolding crash_at_def by (rule Open_holds) (simp add: holds_def)

lemma read_records: "\<forall>e \<in> set xs. rec_ok e \<Longrightarrow> read_entries (records xs) = map stored xs"
  using cut_keeps[of xs "length xs" "length (records xs)"] by auto

lemma wal_run_inv: "wal_run m as \<Longrightarrow> wal_inv m as"
proof (induction rule: wal_run.induct)
  case (run_open d es)
  then show ?case using Open_holds[OF run_open(1)] unfolding wal_inv_def
    by (intro exI[of _ es] exI[of _ 0]) simp
next
  case (run_flush m as os batch fails m' acks)
  obtain es k where i: "holds m (records es)" "\<forall>e \<in> set es. rec_ok e" "k \<le> length es"
      "length (records (take k es)) \<le> mol_synced m" "subseq (map stored as) (map stored (take k es))"
    using run_flush(5) unfolding wal_inv_def by blast
  obtain new where n: "holds m' (records es @ records new)" "\<forall>e \<in> set new. rec_ok e"
      "mol_synced m' = (if fails then mol_synced m else length (records es @ records new))"
      "subseq (acked acks) (if fails then [] else new)"
    using flush_holds[OF i(1) run_flush(2-4)] by metis
  show ?case
  proof (cases fails)
    case True
    then have "acked acks = []" using n(4) by simp
    then show ?thesis unfolding wal_inv_def
      by (intro exI[of _ "es @ new"] exI[of _ k]) (use i n True in auto)
  next
    case False
    have "subseq (map stored as) (map stored es)" using subseq_take_map[OF i(5) i(3)] by simp
    moreover have "subseq (map stored (acked acks)) (map stored new)" using n(4) False by (simp add: subseq_map)
    ultimately have "subseq (map stored (as @ acked acks)) (map stored (es @ new))"
      by (auto intro: list_emb_append_mono)
    then show ?thesis unfolding wal_inv_def
      by (intro exI[of _ "es @ new"] exI[of _ "length (es @ new)"]) (use i n False in auto)
  qed
next
  case (run_crash m as n xs)
  obtain es k where i: "holds m (records es)" "\<forall>e \<in> set es. rec_ok e" "k \<le> length es"
      "length (records (take k es)) \<le> mol_synced m" "subseq (map stored as) (map stored (take k es))"
    using run_crash(5) unfolding wal_inv_def by blast
  have cut: "take n (records es) = records xs" using run_crash(3) i(1) by (simp add: holds_def)
  obtain j where "k \<le> j" "read_entries (take n (records es)) = map stored (take j es)"
    using cut_keeps[OF i(2,3), of n] i(4) run_crash(2) by auto
  then have "subseq (map stored as) (map stored xs)"
    using subseq_take_map[OF i(5)] cut read_records[OF run_crash(4)] by simp
  then show ?case unfolding wal_inv_def
    by (intro exI[of _ xs] exI[of _ "length xs"]) (use crash_opens[OF i(1), of n] cut run_crash(4) in simp)
qed

lemma crash_holds: "holds m f \<Longrightarrow> holds (crash_at m n) (take n f)"
  using crash_opens by blast

lemma ReadFrom_holds: "holds m f \<Longrightarrow> ReadFrom m a = filter (\<lambda>e. a < me_SeqNum e) (read_entries f)"
  by (simp add: ReadFrom_def holds_def)


lemma some_log: "wal_run (Open_MOL [(active_name, marshalEntry some_entry)]) []"
  by (rule run_open[of _ "[some_entry]"]) simp_all

lemma flush_one:
  assumes "holds m f"
  shows "\<exists>m' e. flush m [] False [\<lparr>pw_Entry = x, pw_Done = Some c\<rparr>] = (m', [(c, e, None)]) \<and> me_SeqNum e = mol_nextSeq m"
  using assms by (auto simp: holds_def flush_def Append_MOL_def Sync_MOL_def Let_def)

lemma some_log_next: "mol_nextSeq (Open_MOL [(active_name, marshalEntry some_entry)]) = 1"
proof -
  have n: "scanSegmentMaxSeq [] r = r" for r by (cases r) (simp add: scanSegmentMaxSeq.simps)
  have "recoverMaxSeq [(active_name, marshalEntry some_entry)] = (0, True)"
    using scan_record[OF some_entry_ok, of "[]" 0 False]
    by (simp add: recoverMaxSeq_def glob_mol_def active_name_def n some_entry_def)
  then show ?thesis by (simp add: Open_MOL_def Let_def)
qed


section \<open>A torn record\<close>

lemma replay_records:
  assumes "\<forall>e \<in> set es. rec_ok e" "\<forall>s. \<exists>err. replay_segment fn path f s = Inl err"
  shows "\<exists>err. replay_segment fn path (records es @ f) s = Inl err"
  using assms(1)
proof (induction es arbitrary: s)
  case Nil
  then show ?case using assms(2) by simp
next
  case (Cons e es)
  show ?case
    using Cons.IH Cons.prems
    by (subst replay_segment.simps) (cases "fn (stored e) s"; simp add: read_record_marshal)
qed

lemma replay_segments_error:
  "(path, f) \<in> set fs \<Longrightarrow> \<forall>s. \<exists>err. replay_segment fn path f s = Inl err \<Longrightarrow> \<exists>err. replay_segments fn fs s = Inl err"
proof (induction fs arbitrary: s)
  case (Cons pf fs)
  obtain p g where pf: "pf = (p, g)" by fastforce
  show ?case
  proof (cases "replay_segment fn p g s")
    case (Inl e)
    then show ?thesis by (simp add: pf)
  next
    case (Inr s')
    have "(path, f) \<noteq> pf"
    proof
      assume "(path, f) = pf"
      then have "\<exists>err. replay_segment fn p g s = Inl err" using Cons.prems(2) pf by simp
      then show False using Inr by simp
    qed
    then have "(path, f) \<in> set fs" using Cons.prems(1) by auto
    then have "\<exists>err. replay_segments fn fs s' = Inl err" by (rule Cons.IH[OF _ Cons.prems(2)])
    then show ?thesis using Inr by (simp add: pf)
  qed
qed simp

text \<open>C39. A record that a crash tore keeps the server from starting.  If the active segment ends with the whole
  header of a record and not all of the rest, Recover, which is meant to replay the sealed segments only,
  reads the active one too (its name matches the same pattern) and ends with an error, whatever the replay
  function does and whatever the other segments hold; the server takes that error as fatal.\<close>

theorem torn_record_blocks_recovery:
  assumes "map_of d active_name = Some (records es @ take k (marshalEntry e))" "\<forall>x \<in> set es. rec_ok x" "rec_ok e"
    "32 \<le> k" "k < length (marshalEntry e)"
  shows "\<exists>err. Recover (Open_MOL d) replayFn s = Inl err"
proof -
  let ?f = "records es @ take k (marshalEntry e)"
  have "(active_name, ?f) \<in> set (mol_dir (Open_MOL d))"
    using Open_holds[OF assms(1)] by (simp add: holds_def map_of_SomeD)
  then have "(active_name, ?f) \<in> set (sort_key (extractMOLSeq \<circ> fst) (glob_mol (mol_dir (Open_MOL d))))"
    using active_globbed by simp
  moreover have "\<forall>s. \<exists>err. replay_segment replayFn active_name (take k (marshalEntry e)) s = Inl err"
    using assms(4) by (subst replay_segment.simps) (simp add: read_record_torn[OF assms(3,5)])
  then have "\<forall>s. \<exists>err. replay_segment replayFn active_name ?f s = Inl err"
    using replay_records[OF assms(2)] by (intro allI)
  ultimately show ?thesis unfolding Recover_def by (intro replay_segments_error)
qed

lemma torn_record_blocks_recovery_witness:
  "\<exists>err. Recover (Open_MOL [(active_name, take 35 (marshalEntry some_entry))]) (\<lambda>e n. Inr (n + 1) :: unit + nat) 0 = Inl err"
  by (rule torn_record_blocks_recovery[of _ "[]" 35 some_entry])
    (simp_all add: length_marshalEntry)

lemma magic_bytes: "PutUint32 MOLMagic = [0x4D, 0x4F, 0x4C, 0x20]"
proof -
  have four: "(4 :: nat) = Suc (Suc (Suc (Suc 0)))" by simp
  show ?thesis unfolding PutUint32_def MOLMagic_def four be_nat.simps by simp
qed

text \<open>A tail of one to three bytes is read together with the next record, whose magic number it spoils.\<close>

lemma short_tail:
  assumes "0 < k" "k < 4"
  shows "read_entries (take k (marshalEntry e0) @ records es) = []"
proof (cases es)
  case Nil
  then show ?thesis using assms by (subst read_entries.simps) (simp add: read_record_def)
next
  case (Cons e es')
  have m: "marshalEntry x = [0x4D, 0x4F, 0x4C, 0x20] @ drop 4 (marshalEntry x)" for x
    by (simp add: marshalEntry_def Let_def mol_header_def magic_bytes)
  have len: "\<not> length (take k (marshalEntry e0) @ records es) < 32"
    by (simp add: Cons length_marshalEntry)
  have first: "take 4 (take k (marshalEntry e0) @ records es) = take k [0x4D, 0x4F, 0x4C, 0x20] @ take (4 - k) [0x4D, 0x4F, 0x4C, 0x20]"
  proof -
    have h: "take i (marshalEntry x @ ys) = take i [0x4D, 0x4F, 0x4C, 0x20]" if "i \<le> 4" for i x ys
    proof -
      have "take i ([0x4D, 0x4F, 0x4C, 0x20] @ (drop 4 (marshalEntry x) @ ys)) = take i [0x4D, 0x4F, 0x4C, 0x20]"
        using that by (subst take_append) simp
      then show ?thesis using m[of x] by (metis append_assoc)
    qed
    have "length (take k (marshalEntry e0)) = k" using assms by (simp add: length_marshalEntry)
    then have "take 4 (take k (marshalEntry e0) @ records es) = take k (marshalEntry e0) @ take (4 - k) (records es)"
      using assms by simp
    then show ?thesis using h[of k e0 "[]"] h[of "4 - k" e "records es'"] assms by (simp add: Cons)
  qed
  have ne: "take k [0x4D, 0x4F, 0x4C, 0x20] @ take (4 - k) [0x4D, 0x4F, 0x4C, 0x20] \<noteq> (PutUint32 MOLMagic :: bytes)"
  proof -
    have "k = Suc 0 \<or> k = Suc (Suc 0) \<or> k = Suc (Suc (Suc 0))" using assms by auto
    then show ?thesis unfolding magic_bytes by (elim disjE) simp_all
  qed
  have "Uint32 (sub (take 32 (take k (marshalEntry e0) @ records es)) 0 4) \<noteq> MOLMagic"
  proof -
    have s: "sub (take 32 xs) 0 4 = take 4 xs" for xs :: bytes by (simp add: sub_def)
    have "length (take k [0x4D, 0x4F, 0x4C, 0x20] @ take (4 - k) [0x4D, 0x4F, 0x4C, 0x20] :: bytes) = 4" using assms by simp
    then show ?thesis
      using Uint32_bytes[of "take k [0x4D, 0x4F, 0x4C, 0x20] @ take (4 - k) [0x4D, 0x4F, 0x4C, 0x20]"] ne
      unfolding s first by metis
  qed
  then have "read_record (take k (marshalEntry e0) @ records es) = BadMagic"
    using len by (simp add: read_record_def Let_def)
  then show ?thesis by (subst read_entries.simps) simp
qed

text \<open>C40. After a crash that leaves one to three bytes of a record, everything written later is lost.  The log is
  reopened behind the torn bytes; every group the committer then flushes is acknowledged, its entries being
  in the segment and on disk, yet reading the log gives what it held before the crash and none of them.\<close>

theorem torn_tail_hides_writes:
  assumes "map_of d active_name = Some (records es @ take k (marshalEntry e0))" "\<forall>x \<in> set es. rec_ok x"
    "0 < k" "k < 4" "\<forall>x \<in> set os. snd x = None" "\<forall>pw \<in> set batch. rec_ok (pw_Entry pw)"
    "flush (Open_MOL d) os False batch = (m, acks)"
  shows "(\<forall>(c, e, r) \<in> set acks. r = None) \<and> ReadFrom m a = map stored (filter (\<lambda>e. a < me_SeqNum e) es)"
proof -
  obtain new where n: "holds m ((records es @ take k (marshalEntry e0)) @ records new)"
      "\<forall>(c, e, r) \<in> set acks. r = None"
    using flush_holds[OF conjunct1[OF Open_holds[OF assms(1)]] _ assms(6,7)] assms(5) by (metis (no_types, lifting))
  have "ReadFrom m a = filter (\<lambda>e. a < me_SeqNum e) (map stored es)"
    using ReadFrom_holds[OF n(1)] read_entries_records[OF assms(2), of "take k (marshalEntry e0) @ records new"]
      short_tail[OF assms(3,4)] by simp
  then show ?thesis using n(2) by (simp add: filter_map comp_def)
qed

lemma torn_tail_hides_writes_witness:
  "\<exists>m e. flush (Open_MOL [(active_name, marshalEntry some_entry @ take 1 (marshalEntry some_entry))]) [] False
       [\<lparr>pw_Entry = some_entry, pw_Done = Some 4\<rparr>] = (m, [(4, e, None)]) \<and> ReadFrom m 0 = []"
proof -
  let ?f = "marshalEntry some_entry @ take 1 (marshalEntry some_entry)"
  have "holds (Open_MOL [(active_name, ?f)]) ?f" by (rule conjunct1[OF Open_holds]) simp
  then obtain m e where f: "flush (Open_MOL [(active_name, ?f)]) [] False [\<lparr>pw_Entry = some_entry, pw_Done = Some 4\<rparr>] = (m, [(4, e, None)])"
    using flush_one by metis
  have "ReadFrom m 0 = map stored (filter (\<lambda>e. 0 < me_SeqNum e) [some_entry])"
    using torn_tail_hides_writes[of "[(active_name, ?f)]" "[some_entry]" 1 some_entry "[]", OF _ _ _ _ _ _ f] by simp
  then show ?thesis using f by (simp add: some_entry_def)
qed

end
