(* ===== verification/Spec2Isabelle.thy ===== *)
theory Spec2Isabelle
  imports Election_Props Lease Stream_Props Msp_Props Circuit_Breaker Mbp_Frame Ring_Buffer
    Mql_Props Query_Props Erf_Props Vault_Props Weight_Props
    Join_Props Cluster_Props Cluster_Roles Prune_Props Membership_Props Assoc_Props Ranking_Cache Contra_Gate Wal_Props
begin

text \<open>
  MuninnDB is a memory database for agents: a server over the storage engine Pebble that keeps engrams
  (memories) in vaults, links them by weighted associations, recalls them through a query language, and runs
  as a single node or as a cluster of one writer (Cortex) and its replicas (Lobes).  This development models
  the parts of the server whose correctness is a matter of logic and bytes, from \<open>internal/\<close>, in Go, and
  proves what makes each of them correct.  Where the code does not do what it means to, the theorem says so.

  How the parts interact.  A write of an engram or an association builds keys (\<open>storage/keys\<close>), encodes a value
  (\<open>storage/erf\<close>, \<open>storage/association.go\<close>) and commits one batch; the batch also goes to the replication log and
  an entry to the operation log (\<open>wal\<close>).  On the Cortex a stream per Lobe drains the replication log, on a Lobe
  the applier applies the entries.  A Lobe comes in by the hello and the join handshake, with a snapshot if the
  log no longer reaches back.  Who is the Cortex is decided by the election, with its epoch store; failures are
  noticed by the failure detector (MSP); the coordinator owns all of these and is what frames, timers and
  callbacks act on.  Recall parses a query, turns it into a request and filters what the engine returns;
  contradicting memories are flagged by a worker, and a gate tells recall whether a vault needs the check.

  \<^bold>\<open>Theories.\<close>  Every theory imports \<open>Prelude\<close> (integers of 8 to 64 bits, Go's big-endian encodings, byte strings
  with the engine's order, decimal numbers, shared lemmas and the collections \<open>codec\<close> and \<open>node_simps\<close>).
    \<^item> Engine and keys: \<open>Pebble\<close> (the external storage engine as a parameter with its documented laws
      \<open>pebble_spec\<close>; \<open>mem_pebble\<close> is an instance for the witnesses), \<open>Storage_Keys\<close> (\<open>keys/scan.go\<close>),
      \<open>Key_Prefix\<close> (\<open>prefix/prefix.go\<close>), \<open>Store_Keys\<close> (\<open>keys/keys.go\<close>), \<open>Weight_Props\<close>.
    \<^item> Replication data: \<open>Replication_Types\<close> (\<open>types.go\<close>, \<open>keys.go\<close>, \<open>fence.go\<close>; locales \<open>key_codec\<close> and
      \<open>ordered_key_codec\<close>, interpreted for the keys of log entries), \<open>Replication_Log\<close> and \<open>Log_Props\<close> (\<open>log.go\<close>),
      \<open>Applier\<close> and \<open>Stream_Props\<close> (\<open>applier.go\<close>, \<open>streamer.go\<close>).
    \<^item> Leadership: \<open>Epoch_Store\<close> (\<open>epoch.go\<close>; locale \<open>epoch_ops\<close>), \<open>Election\<close>, \<open>Election_Safety\<close>, \<open>Election_Props\<close>
      (\<open>election.go\<close>; locale \<open>quorum_rule\<close>), \<open>Lease\<close> (\<open>lease.go\<close>, \<open>memory_backend.go\<close>, \<open>leader.go\<close>; locale
      \<open>lease_laws\<close>), \<open>Msp\<close> and \<open>Msp_Props\<close> (\<open>msp.go\<close>).
    \<^item> Cluster: \<open>Conn_Manager\<close> (\<open>conn_manager.go\<close>, \<open>peer_conn.go\<close>), \<open>Snapshot\<close>, \<open>Snapshot_Props\<close> (\<open>snapshot.go\<close>),
      \<open>Join\<close>, \<open>Join_Props\<close> (\<open>join.go\<close>), \<open>Coordinator\<close>, \<open>Replica_Tracking\<close>, \<open>Cluster_Handlers\<close>, \<open>Failover\<close>,
      \<open>Cluster_Node\<close> (\<open>coordinator.go\<close>, \<open>hello.go\<close>, \<open>local_append.go\<close>), \<open>Cluster_Invariant\<close>, \<open>Cluster_Props\<close>,
      \<open>Cluster_Roles\<close> (the role changes again, lock by lock), \<open>Prune_Props\<close>, \<open>Membership_Props\<close>.
    \<^item> Query language: \<open>Mql_Lexer\<close>, \<open>Mql_Lexer_Props\<close>, \<open>Mql_Parser\<close>, \<open>Mql_Print\<close>, \<open>Mql_Props\<close>, \<open>Mql_Executor\<close>
      (\<open>query/mql\<close>), \<open>Query_Filter\<close> (\<open>query/filter.go\<close>), \<open>Activation_Filter\<close> (\<open>activation/engine.go\<close>), \<open>Query_Props\<close>.
    \<^item> Storage: \<open>Storage_Types\<close> (\<open>storage/types.go\<close>), \<open>Erf_Format\<close>, \<open>Erf_Codec\<close>, \<open>Erf_Lemmas\<close>, \<open>Erf_Props\<close>
      (\<open>storage/erf\<close>), \<open>Vault_Store\<close>, \<open>Vault_Props\<close> (\<open>vault.go\<close>, \<open>vault_lifecycle.go\<close>), \<open>Assoc_Value\<close>,
      \<open>Association\<close>, \<open>Assoc_Props\<close>, \<open>Ranking\<close>, \<open>Ranking_Props\<close>, \<open>Ranking_Cache\<close> (\<open>association.go\<close>,
      \<open>assoc_endpoints.go\<close>, \<open>assoc_reltype_guard.go\<close>, \<open>snapshot.go\<close>), \<open>Contradictions\<close>, \<open>Contra_Props\<close>,
      \<open>Contra_Gate\<close> (\<open>association.go\<close>, \<open>engine_contradiction.go\<close>, \<open>cognitive/contradict.go\<close>), \<open>Wal\<close> and
      \<open>Wal_Props\<close> (\<open>wal/mol.go\<close>).
    \<^item> Others: \<open>Circuit_Breaker\<close> (\<open>engine/circuit\<close>), \<open>Mbp_Frame\<close> (\<open>transport/mbp/frame.go\<close>), \<open>Ring_Buffer\<close>
      (\<open>logging/ring.go\<close>).

  \<^bold>\<open>How state and operations correspond.\<close>  A struct is a record with the same fields; a field the model does not need
  is absent.  A method is a function from the state to the new state and what the method returns; what it
  sends, broadcasts or calls back is a list of outputs in order.  A section under a mutex is one step; where
  the code releases the mutex half way, the method is split there and the halves are composed (\<open>ReadSince\<close>,
  \<open>Prune\<close>, \<open>StartElection\<close>).  Where another goroutine between the halves matters, a theory lets them interleave:
  the votes and promotions of \<open>Election_Safety\<close>, the two backend calls of an elector's tick and its exit
  (\<open>Lease\<close>), the sections of elections, promotions, demotions and quorum checks (\<open>Cluster_Roles\<close>).  The
  handlers of \<open>Cluster_Node\<close> run to their end one after the other, so theorems over \<open>co_run\<close> and \<open>co_wf\<close> say
  nothing of two handlers that overlap.  The scan and the mark write of the contradiction gate are one step
  too; there the code relies on the lock of the mark, under which it looks at the mark again before it writes.  A slice or index
  expression out of range is the error \<open>ErfPanic\<close> in the record codec and \<open>None\<close> in the filter.  Errors are values of a sum or option type, every early return a branch.  Go maps
  are partial functions, or association lists with distinct keys whose order stands for the iteration
  order.  The clock, the answers of the operating system and what a peer sends are arguments.  Integers
  have Go's width and wrap; a float32 is its bit pattern, compared, rounded and multiplied exactly; a
  \<open>time.Time\<close> is the number of nanoseconds since Go's zero time.

  \<^bold>\<open>What the lemmas show.\<close>
    \<^item> Election and lease: in every reachable cluster, under any delay, loss or reordering of messages, at most
      one node is promoted in an epoch, unless a restart forgets a vote, which elects a second one; no two
      electors share a fencing token as long as none reads its token late, and two do when one does.
    \<^item> Log shipping: acknowledged entries are gap free while no prune fails, a drained stream sends every entry
      once and in order and brings a replica to the head, also when a send fails and the link is built again,
      retries apply once, a prune removes what it was told below the head and nothing otherwise; and how an
      evicted replica loses entries.
    \<^item> The cluster node: an invariant over all events (\<open>Cluster_Invariant\<close>), the role against the election under
      any interleaving (\<open>Cluster_Roles\<close>), membership and quorum, the join handshake, the snapshot, and what
      rejected joins and unsent acknowledgements leave behind.
    \<^item> Failure detection: an objective failure needs recorded votes for a strict majority of the number of
      non-observers; a vote of an unknown sender counts.
    \<^item> Query language: the parser returns on every input and inverts printing; what the filters admit, when that
      is what the predicate says and where the clause is lost on the way to recall.
    \<^item> Records: round trip, no panic on any input, a changed byte is rejected.
    \<^item> Associations: updates leave exactly one edge, the caches are never stale except through a snapshot, the
      ranking is an exact top-n where targets are distinct.  Contradictions: the gate never hides a declared one
      in one process, a merge can; markers lose pairs.  Operation log: acknowledged writes survive any number
      of crashes that cut between records, torn records do not.

  \<^bold>\<open>Bounds and fuel.\<close>  The recursive parser runs on fuel; \<open>Parse_tokens\<close> gives as much as any input of the lexer
  needs, which \<open>mql_parse_terminates\<close> proves, and the code's own bound on nesting is part of the model.  The drain
  loop runs on fuel and \<open>drain_catches_up\<close> proves that it ends.  The rounds of the probe and of the join loop
  are the code's own bounds.  All other loops are structural or have a termination proof.

  \<^bold>\<open>Parameters and hypotheses.\<close>  Packages that are not part of the repository are arguments: Pebble, msgpack
  (\<open>entry_codec\<close>, decoded payloads), zstd, HMAC-SHA256, SipHash, the LRU cache (\<open>lru_ok\<close>), \<open>time.Parse\<close> and
  \<open>strconv.ParseFloat\<close>.  Which NaN the processor makes of a NaN is an argument too.  \<open>pebble_reliable\<close>, that no
  call of the engine fails, is assumed only where a theorem says what a successful run does.  \<open>send_ok\<close> says
  which connected peers a frame can be written to: a write that breaks its connection is the loss of that
  connection, a step of its own, before the handler runs, and a busy slot is a peer that is not \<open>send_ok\<close>.

  \<^bold>\<open>Not modelled.\<close>  Goroutines, timers, sockets and TLS (their turns and outcomes are steps and arguments); the
  reading and writing of whole engrams, entities, exports, archives and migrations; the engine above the
  store except the contradiction gate; scoring, traversal, decay and Hebbian learning, which are float64
  formulas with exponentials; the vector and the full-text index; authentication; the REST, gRPC and MCP
  servers, the plugins, the command line, the SDKs and the web interface, which are glue around
  libraries.  A part of the modelled files that is left out is named in the text of its theory.
\<close>

end
